(* ===== verification/Prelude.thy ===== *)
theory Prelude
  imports Main "HOL-Library.Word"
begin

text \<open>
  Shared vocabulary of the development: machine integers and byte strings, the error type
  of the crate, little-endian integers, fixed-size buffers that are filled slice by slice,
  files as byte strings, and the two interfaces (\<open>codec\<close>, \<open>append_log\<close>) that several
  components provide.

  Conventions.  \<open>u8\<close> .. \<open>u64\<close> are words of that width; \<open>i64\<close> and \<open>i16\<close> are
  words read with \<open>sint\<close>.  Byte offsets, lengths and counts that the code keeps in
  \<open>usize\<close>/\<open>u64\<close> variables are \<open>nat\<close>; where such a value is read from or written
  to disk, or where the code guards against overflow, the width is written out.
  A Rust \<open>Result\<close> is \<open>mv_error + 'a\<close> with \<open>Inl\<close> for \<open>Err\<close>.
\<close>

named_theorems buf_simps \<open>normalisation of slices of concatenated buffers\<close>

type_synonym u8 = "8 word"
type_synonym u16 = "16 word"
type_synonym u32 = "32 word"
type_synonym u64 = "64 word"
type_synonym i16 = "16 word"
type_synonym i64 = "64 word"
type_synonym bytes = "u8 list"

section \<open>Errors\<close>

text \<open>The capacity tiers (\<open>types/common.rs\<close>), which an error names.\<close>

datatype tier = Free | Dev | Enterprise

text \<open>The constructors of \<open>MemvidError\<close> that the modelled operations return.  \<open>Panic\<close> is
  not one of them: it stands for a panic of the program.\<close>

datatype mv_error =
    Io_UnexpectedEof
  | Io_Other string
  | Io_InvalidInput string
  | Encode_Error
  | Decode_Error
  | Lock_Error string
  | ChecksumMismatch string
  | InvalidHeader string
  | InvalidToc string
  | InvalidTimeIndex string
  | InvalidSketchTrack string
  | InvalidTemporalTrack string
  | InvalidLogicMesh string
  | WalCorruption nat string
  | ManifestWalCorrupted nat string
  | CheckpointFailed string
  | InvalidQuery string
  | FrameNotFound u64
  | FrameNotFoundByUri "nat list"
  | InvalidFrame u64 string
  | Doctor string
  | TicketSequence i64 i64
  | TicketRequired tier
  | TicketSignatureInvalid string
  | MemoryAlreadyBound "128 word"
  | Panic string

type_synonym 'a res = "mv_error + 'a"

definition ok_opt :: "'e + 'a \<Rightarrow> 'a option" where
  "ok_opt r = (case r of Inl e \<Rightarrow> None | Inr x \<Rightarrow> Some x)"

lemma ok_opt_simps [simp]: "ok_opt (Inl e) = None" "ok_opt (Inr x) = Some x"
  by (simp_all add: ok_opt_def)

lemma ok_opt_eq_Some [simp]: "ok_opt r = Some x \<longleftrightarrow> r = Inr x"
  by (cases r) simp_all

section \<open>Little-endian integers\<close>

fun le_enc :: "nat \<Rightarrow> nat \<Rightarrow> bytes" where
  "le_enc 0 x = []"
| "le_enc (Suc n) x = of_nat (x mod 256) # le_enc n (x div 256)"

fun le_dec :: "bytes \<Rightarrow> nat" where
  "le_dec [] = 0"
| "le_dec (b # bs) = unat b + 256 * le_dec bs"

lemma length_le_enc [simp]: "length (le_enc n x) = n"
  by (induction n arbitrary: x) auto

lemma unat_byte_mod: "unat (of_nat (x mod 256) :: u8) = x mod 256"
  by (simp add: unat_of_nat take_bit_eq_mod)

lemma le_dec_enc: "x < 256 ^ n \<Longrightarrow> le_dec (le_enc n x) = x"
proof (induction n arbitrary: x)
  case 0
  then show ?case by simp
next
  case (Suc n)
  then have "x div 256 < 256 ^ n" by (simp add: less_mult_imp_div_less mult.commute)
  with Suc.IH show ?case by (simp add: unat_byte_mod)
qed

lemma le_dec_bound: "le_dec bs < 256 ^ length bs"
proof (induction bs)
  case Nil
  then show ?case by simp
next
  case (Cons b bs)
  have "unat b < 256" using unsigned_less [of b] by simp
  then show ?case using Cons by simp
qed

lemma le_enc_dec: "le_enc (length bs) (le_dec bs) = bs"
proof (induction bs)
  case Nil
  then show ?case by simp
next
  case (Cons b bs)
  have "unat b < 256" using unsigned_less [of b] by simp
  then have "(unat b + 256 * le_dec bs) mod 256 = unat b"
    and "(unat b + 256 * le_dec bs) div 256 = le_dec bs" by simp_all
  then show ?case using Cons by simp
qed

lemma le_dec_zeros: "le_dec (replicate n 0) = 0"
  by (induction n) simp_all

text \<open>\<open>u64::checked_add\<close>.\<close>

definition checked_add :: "'a::len word \<Rightarrow> 'a word \<Rightarrow> 'a word option" where
  "checked_add a b = (if unat a + unat b < 2 ^ LENGTH('a) then Some (a + b) else None)"

lemma checked_add_Some: "checked_add a b = Some c \<Longrightarrow> unat c = unat a + unat b"
  by (auto simp: checked_add_def unat_plus_if' split: if_splits)

text \<open>\<open>to_le_bytes\<close> and \<open>from_le_bytes\<close> at a word type.\<close>

definition to_le :: "nat \<Rightarrow> 'a::len word \<Rightarrow> bytes" where
  "to_le n w = le_enc n (unat w)"

definition from_le :: "bytes \<Rightarrow> 'a::len word" where
  "from_le bs = of_nat (le_dec bs)"

lemma length_to_le [simp]: "length (to_le n w) = n"
  by (simp add: to_le_def)

lemma from_le_to_le:
  assumes "LENGTH('a) \<le> 8 * n"
  shows "from_le (to_le n (w :: 'a::len word)) = w"
proof -
  have "unat w < 2 ^ LENGTH('a)" by (rule unsigned_less)
  also have "\<dots> \<le> 2 ^ (8 * n)" using assms by simp
  also have "\<dots> = 256 ^ n" by (simp add: power_mult)
  finally have "le_dec (le_enc n (unat w)) = unat w" by (rule le_dec_enc)
  then show ?thesis by (simp add: from_le_def to_le_def)
qed

lemma from_le_to_le16 [simp]: "from_le (to_le 2 (w :: u16)) = w"
  by (rule from_le_to_le) simp
lemma from_le_to_le32 [simp]: "from_le (to_le 4 (w :: u32)) = w"
  by (rule from_le_to_le) simp
lemma from_le_to_le64 [simp]: "from_le (to_le 8 (w :: u64)) = w"
  by (rule from_le_to_le) simp

lemma to_le_from_le:
  assumes "LENGTH('a) = 8 * n" "length bs = n"
  shows "to_le n (from_le bs :: 'a::len word) = bs"
proof -
  have "le_dec bs < 2 ^ LENGTH('a)"
    using le_dec_bound [of bs] assms by (simp add: power_mult)
  then have "unat (from_le bs :: 'a word) = le_dec bs"
    by (simp add: from_le_def unat_of_nat take_bit_eq_mod)
  then show ?thesis using assms(2) le_enc_dec [of bs] by (simp add: to_le_def)
qed

lemma unat_from_le64: "length bs = 8 \<Longrightarrow> unat (from_le bs :: u64) = le_dec bs"
  using le_dec_bound [of bs] by (simp add: from_le_def unat_of_nat take_bit_eq_mod)

lemma unat_from_le32: "length bs = 4 \<Longrightarrow> unat (from_le bs :: u32) = le_dec bs"
  using le_dec_bound [of bs] by (simp add: from_le_def unat_of_nat take_bit_eq_mod)

section \<open>Buffers\<close>

text \<open>
  \<open>bslice b i n\<close> is \<open>&b[i..i + n]\<close>; \<open>put_slice b i xs\<close> is
  \<open>b[i..i + xs.len()].copy_from_slice(xs)\<close>.
\<close>

definition bslice :: "'a list \<Rightarrow> nat \<Rightarrow> nat \<Rightarrow> 'a list" where
  "bslice b i n = take n (drop i b)"

definition put_slice :: "'a list \<Rightarrow> nat \<Rightarrow> 'a list \<Rightarrow> 'a list" where
  "put_slice b i xs = take i b @ xs @ drop (i + length xs) b"

lemma length_slice [simp]: "i + n \<le> length b \<Longrightarrow> length (bslice b i n) = n"
  by (simp add: bslice_def)

lemma length_put_slice [simp]:
  "i + length xs \<le> length b \<Longrightarrow> length (put_slice b i xs) = length b"
  by (simp add: put_slice_def)

lemma slice_append_right [buf_simps]:
  "length xs \<le> i \<Longrightarrow> bslice (xs @ ys) i n = bslice ys (i - length xs) n"
  by (simp add: bslice_def)

lemma slice_append_left [buf_simps]:
  "i + n \<le> length xs \<Longrightarrow> bslice (xs @ ys) i n = bslice xs i n"
  by (simp add: bslice_def)

lemma slice_all [buf_simps]: "n = length xs \<Longrightarrow> bslice xs 0 n = xs"
  by (simp add: bslice_def)

lemma slice_replicate [buf_simps]:
  "i + n \<le> k \<Longrightarrow> bslice (replicate k x) i n = replicate n x"
  by (simp add: bslice_def)

lemma put_slice_append_right [buf_simps]:
  "length xs \<le> i \<Longrightarrow> put_slice (xs @ ys) i zs = xs @ put_slice ys (i - length xs) zs"
  by (simp add: put_slice_def)

lemma put_slice_append_left [buf_simps]:
  "i + length zs \<le> length xs \<Longrightarrow> put_slice (xs @ ys) i zs = put_slice xs i zs @ ys"
  by (simp add: put_slice_def)

lemma put_slice_replicate [buf_simps]:
  "i + length zs \<le> k \<Longrightarrow>
     put_slice (replicate k x) i zs = replicate i x @ zs @ replicate (k - i - length zs) x"
  by (simp add: put_slice_def min_def)

lemma slice_Cons [buf_simps]: "0 < i \<Longrightarrow> bslice (x # ys) i n = bslice ys (i - 1) n"
  by (cases i) (simp_all add: bslice_def)

lemma put_slice_Cons [buf_simps]:
  "0 < i \<Longrightarrow> put_slice (x # ys) i zs = x # put_slice ys (i - 1) zs"
  by (cases i) (simp_all add: put_slice_def)

lemma put_slice_all [buf_simps]: "length zs = length xs \<Longrightarrow> put_slice xs 0 zs = zs"
  by (simp add: put_slice_def)

lemma slice_put_slice_same:
  "i + length xs \<le> length b \<Longrightarrow> n = length xs \<Longrightarrow> bslice (put_slice b i xs) i n = xs"
  by (simp add: put_slice_def bslice_def)

lemma slice_put_slice_disjoint:
  assumes "i + length xs \<le> length b" "j + n \<le> i \<or> i + length xs \<le> j"
  shows "bslice (put_slice b i xs) j n = bslice b j n"
proof (rule disjE [OF assms(2)])
  assume "j + n \<le> i"
  with assms(1) have "bslice (put_slice b i xs) j n = bslice (take i b) j n"
    by (simp add: put_slice_def slice_append_left)
  also have "\<dots> = bslice (take i b @ drop i b) j n"
    using \<open>j + n \<le> i\<close> assms(1) by (subst slice_append_left) simp_all
  finally show ?thesis by simp
next
  assume "i + length xs \<le> j"
  with assms(1) have "drop j (put_slice b i xs) = drop j b"
    by (simp add: put_slice_def)
  then show ?thesis by (simp add: bslice_def)
qed

lemma slice_append_slice: "bslice b i n @ bslice b (i + n) m = bslice b i (n + m)"
  unfolding bslice_def take_add by (simp add: add.commute)

lemma slice_take: "i + n \<le> k \<Longrightarrow> bslice (take k b) i n = bslice b i n"
  by (simp add: bslice_def drop_take min_def)

lemma slice_zero_take: "bslice b 0 n = take n b"
  by (simp add: bslice_def)

text \<open>\<open>chunks_exact\<close>: the full chunks of a bslice; a shorter remainder is dropped.\<close>

fun chunks_exact_aux :: "nat \<Rightarrow> nat \<Rightarrow> 'a list \<Rightarrow> 'a list list" where
  "chunks_exact_aux 0 n xs = []"
| "chunks_exact_aux (Suc k) n xs = take n xs # chunks_exact_aux k n (drop n xs)"

definition chunks_exact :: "nat \<Rightarrow> 'a list \<Rightarrow> 'a list list" where
  "chunks_exact n xs = chunks_exact_aux (length xs div n) n xs"

lemma chunks_exact_aux_concat:
  "(\<forall>x \<in> set xss. length x = n) \<Longrightarrow>
     chunks_exact_aux (length xss) n (concat xss) = xss"
  by (induction xss) auto

lemma length_concat_const:
  "(\<forall>x \<in> set xss. length x = n) \<Longrightarrow> length (concat xss) = length xss * n"
  by (induction xss) auto

lemma chunks_exact_concat:
  assumes "0 < n" "\<forall>x \<in> set xss. length x = n"
  shows "chunks_exact n (concat xss) = xss"
proof -
  have "length (concat xss) div n = length xss"
    using assms(1) length_concat_const [OF assms(2)] by simp
  with chunks_exact_aux_concat [OF assms(2)] show ?thesis by (simp add: chunks_exact_def)
qed

section \<open>Files\<close>

text \<open>
  A file is its byte string.  Reading past the end is \<open>UnexpectedEof\<close> (an empty buffer reads nothing); writing past the
  end fills the hole with zeros, as a sparse file reads.
\<close>

definition read_exact :: "bytes \<Rightarrow> nat \<Rightarrow> nat \<Rightarrow> bytes res" where
  "read_exact f pos n =
     (if n = 0 \<or> pos + n \<le> length f then Inr (bslice f pos n) else Inl Io_UnexpectedEof)"

definition write_at :: "bytes \<Rightarrow> nat \<Rightarrow> bytes \<Rightarrow> bytes" where
  "write_at f pos xs =
     (if xs = [] then f
      else put_slice (f @ replicate (pos + length xs - length f) 0) pos xs)"

definition set_len :: "bytes \<Rightarrow> nat \<Rightarrow> bytes" where
  "set_len f n = take n f @ replicate (n - length f) 0"

lemma write_at_inside [simp]:
  "pos + length xs \<le> length f \<Longrightarrow> write_at f pos xs = put_slice f pos xs"
  by (auto simp: write_at_def put_slice_def)

lemma length_write_at: "length (write_at f pos xs) =
    (if xs = [] then length f else max (length f) (pos + length xs))"
  by (auto simp: write_at_def max_def)

lemma length_write_at_inside [simp]:
  "pos + length xs \<le> length f \<Longrightarrow> length (write_at f pos xs) = length f"
  by simp

lemma unat64_less: "unat (x :: u64) < 2 ^ 64"
  using unsigned_less [of x] by simp

lemma write_at_mid:
  "pos \<le> length f \<Longrightarrow> write_at f pos xs = take pos f @ xs @ drop (pos + length xs) f"
  by (auto simp: write_at_def put_slice_def)

lemma write_at_twice:
  "pos \<le> length f \<Longrightarrow>
     write_at (write_at f pos xs) (pos + length xs) ys = write_at f pos (xs @ ys)"
  by (simp add: write_at_mid ac_simps)

lemma write_at_end: "write_at f (length f) xs = f @ xs"
  by (simp add: write_at_def put_slice_def)

lemma read_exact_inside [simp]:
  "pos + n \<le> length f \<Longrightarrow> read_exact f pos n = Inr (bslice f pos n)"
  by (simp add: read_exact_def)

lemma read_exact_Inr: "read_exact f pos n = Inr b \<Longrightarrow> length b = n \<and> b = bslice f pos n"
  by (auto simp: read_exact_def bslice_def split: if_splits)

section \<open>Interfaces\<close>

text \<open>
  A \<open>codec\<close> writes values as bytes and reads them back.  \<open>ok\<close> is the well-formedness
  of the value (fixed array lengths, ranges).
\<close>

locale codec =
  fixes enc :: "'a \<Rightarrow> bytes"
    and dec :: "bytes \<Rightarrow> 'a option"
    and ok :: "'a \<Rightarrow> bool"
  assumes dec_enc: "ok x \<Longrightarrow> dec (enc x) = Some x"
begin

lemma enc_inject: "ok x \<Longrightarrow> ok y \<Longrightarrow> enc x = enc y \<Longrightarrow> x = y"
  by (metis dec_enc option.inject)

lemma enc_inj_on: "inj_on enc {x. ok x}"
  by (rule inj_onI) (auto dest: enc_inject)

end

text \<open>A codec of constant width can be streamed: records are concatenated on disk.\<close>

locale fixed_codec = codec enc dec ok
  for enc :: "'a \<Rightarrow> bytes" and dec :: "bytes \<Rightarrow> 'a option" and ok :: "'a \<Rightarrow> bool" +
  fixes width :: nat
  assumes enc_width: "ok x \<Longrightarrow> length (enc x) = width"
    and width_pos: "0 < width"
begin

lemma stream_length: "list_all ok xs \<Longrightarrow> length (concat (map enc xs)) = length xs * width"
  by (induction xs) (auto simp: enc_width)

lemma stream_chunks: "list_all ok xs \<Longrightarrow> chunks_exact width (concat (map enc xs)) = map enc xs"
  by (rule chunks_exact_concat) (auto simp: list_all_iff enc_width width_pos)

lemma stream_decode:
  "list_all ok xs \<Longrightarrow> map dec (chunks_exact width (concat (map enc xs))) = map Some xs"
  by (simp add: stream_chunks) (simp add: list_all_iff dec_enc)

lemma stream_nth:
  "list_all ok xs \<Longrightarrow> i < length xs \<Longrightarrow>
     bslice (concat (map enc xs)) (i * width) width = enc (xs ! i)"
proof (induction xs arbitrary: i)
  case Nil
  then show ?case by simp
next
  case (Cons x xs)
  then show ?case by (cases i) (simp_all add: enc_width buf_simps)
qed

end

text \<open>Appending a list of payloads, stopping at the first error, and the condition that each
  append has room in the state it meets.\<close>

fun run_appends :: "('s \<Rightarrow> 'p \<Rightarrow> mv_error + 's) \<Rightarrow> 's \<Rightarrow> 'p list \<Rightarrow> mv_error + 's" where
  "run_appends app s [] = Inr s"
| "run_appends app s (p # ps) =
     (case app s p of Inl e \<Rightarrow> Inl e | Inr s' \<Rightarrow> run_appends app s' ps)"

fun all_room :: "('s \<Rightarrow> 'p \<Rightarrow> mv_error + 's) \<Rightarrow> ('s \<Rightarrow> 'p \<Rightarrow> bool) \<Rightarrow> 's \<Rightarrow> 'p list \<Rightarrow> bool" where
  "all_room app room s [] = True"
| "all_room app room s (p # ps) =
     (room s p \<and> (case app s p of Inl e \<Rightarrow> False | Inr s' \<Rightarrow> all_room app room s' ps))"

text \<open>
  An \<open>append_log\<close> keeps a sequence of records.  \<open>room s p\<close> is the space condition under
  which an append of \<open>p\<close> must succeed and be durable: reading the log back gives the old
  records followed by one with payload \<open>p\<close>.
\<close>

locale append_log =
  fixes inv :: "'s \<Rightarrow> bool"
    and room :: "'s \<Rightarrow> 'p \<Rightarrow> bool"
    and app :: "'s \<Rightarrow> 'p \<Rightarrow> mv_error + 's"
    and records :: "'s \<Rightarrow> mv_error + 'r list"
    and payload :: "'r \<Rightarrow> 'p"
  assumes app_ok: "inv s \<Longrightarrow> room s p \<Longrightarrow> \<exists>s'. app s p = Inr s' \<and> inv s'"
    and readable: "inv s \<Longrightarrow> \<exists>rs. records s = Inr rs"
    and records_app: "inv s \<Longrightarrow> room s p \<Longrightarrow> app s p = Inr s' \<Longrightarrow> records s = Inr rs \<Longrightarrow>
      \<exists>r. records s' = Inr (rs @ [r]) \<and> payload r = p"
begin

lemma run_appends_ok:
  "inv s \<Longrightarrow> all_room app room s ps \<Longrightarrow> records s = Inr rs \<Longrightarrow>
     \<exists>s' rs'. run_appends app s ps = Inr s' \<and> inv s' \<and> records s' = Inr (rs @ rs') \<and>
       map payload rs' = ps"
proof (induction ps arbitrary: s rs)
  case Nil
  then show ?case by simp
next
  case (Cons p ps)
  then have "room s p" by simp
  with Cons.prems(1) obtain s1 where s1: "app s p = Inr s1" "inv s1" using app_ok by blast
  obtain r where r1: "records s1 = Inr (rs @ [r])" "payload r = p"
    using records_app [OF Cons.prems(1) \<open>room s p\<close> s1(1) Cons.prems(3)] by blast
  have "all_room app room s1 ps" using Cons.prems(2) s1 by simp
  from Cons.IH [OF s1(2) this r1(1)] obtain s' rs' where
    "run_appends app s1 ps = Inr s'" "inv s'" "records s' = Inr ((rs @ [r]) @ rs')"
    "map payload rs' = ps" by blast
  then show ?case using s1 r1(2) by (intro exI [of _ s'] exI [of _ "r # rs'"]) simp
qed

lemma app_keeps_prefix:
  "inv s \<Longrightarrow> room s p \<Longrightarrow> app s p = Inr s' \<Longrightarrow> records s = Inr rs \<Longrightarrow>
     \<exists>rs'. records s' = Inr rs' \<and> take (length rs) rs' = rs"
  by (drule (3) records_app) auto

end

end
