(* ===== verification/Header.thy ===== *)
theory Header
  imports Prelude
begin

text \<open>
  The 4 KiB header at the start of a \<open>.mv2\<close> file: \<open>constants.rs\<close>, the struct
  \<open>Header\<close> of \<open>types/manifest.rs\<close> and \<open>HeaderCodec\<close> of \<open>io/header.rs\<close>.
  Encoding fills a zeroed buffer field by field; decoding validates magic, version, spec
  bytes, \<open>wal_offset\<close> and \<open>wal_size\<close> in that order; reading also clears the 60
  bytes of lock metadata that older versions kept behind the fields.
\<close>

section \<open>Constants\<close>

definition MAGIC :: bytes where "MAGIC = [77, 86, 50, 0]"
definition HEADER_SIZE :: nat where "HEADER_SIZE = 4096"
definition SPEC_MAJOR :: u8 where "SPEC_MAJOR = 2"
definition SPEC_MINOR :: u8 where "SPEC_MINOR = 1"
definition WAL_OFFSET :: u64 where "WAL_OFFSET = 4096"

definition VERSION_OFFSET :: nat where "VERSION_OFFSET = 4"
definition SPEC_BYTES_OFFSET :: nat where "SPEC_BYTES_OFFSET = 6"
definition FOOTER_OFFSET_POS :: nat where "FOOTER_OFFSET_POS = 8"
definition WAL_OFFSET_POS :: nat where "WAL_OFFSET_POS = 16"
definition WAL_SIZE_POS :: nat where "WAL_SIZE_POS = 24"
definition WAL_CHECKPOINT_POS :: nat where "WAL_CHECKPOINT_POS = 32"
definition WAL_SEQUENCE_POS :: nat where "WAL_SEQUENCE_POS = 40"
definition TOC_CHECKSUM_POS :: nat where "TOC_CHECKSUM_POS = 48"
definition TOC_CHECKSUM_END :: nat where "TOC_CHECKSUM_END = 80"
definition LEGACY_LOCK_REGION_START :: nat where
  "LEGACY_LOCK_REGION_START = TOC_CHECKSUM_END"
definition LEGACY_LOCK_REGION_END :: nat where
  "LEGACY_LOCK_REGION_END = LEGACY_LOCK_REGION_START + 60"

definition EXPECTED_VERSION :: u16 where
  "EXPECTED_VERSION = push_bit 8 (ucast SPEC_MAJOR) + ucast SPEC_MINOR"

lemmas header_consts = HEADER_SIZE_def VERSION_OFFSET_def SPEC_BYTES_OFFSET_def
  FOOTER_OFFSET_POS_def WAL_OFFSET_POS_def WAL_SIZE_POS_def WAL_CHECKPOINT_POS_def
  WAL_SEQUENCE_POS_def TOC_CHECKSUM_POS_def TOC_CHECKSUM_END_def
  LEGACY_LOCK_REGION_START_def LEGACY_LOCK_REGION_END_def

lemma length_MAGIC [simp]: "length MAGIC = 4"
  by (simp add: MAGIC_def)

section \<open>The header\<close>

record header =
  magic :: bytes
  version :: u16
  footer_offset :: u64
  wal_offset :: u64
  wal_size :: u64
  wal_checkpoint_pos :: u64
  wal_sequence :: u64
  toc_checksum :: bytes

text \<open>The fixed array types of the struct.\<close>

definition header_typed :: "header \<Rightarrow> bool" where
  "header_typed h \<longleftrightarrow> length (magic h) = 4 \<and> length (toc_checksum h) = 32"

text \<open>What a header must satisfy to be written or accepted.\<close>

definition header_valid :: "header \<Rightarrow> bool" where
  "header_valid h \<longleftrightarrow> magic h = MAGIC \<and> version h = EXPECTED_VERSION \<and>
     WAL_OFFSET \<le> wal_offset h \<and> wal_size h \<noteq> 0"

definition encode :: "header \<Rightarrow> bytes res" where
  "encode h =
     (if magic h \<noteq> MAGIC then Inl (InvalidHeader ''magic mismatch'')
      else if version h \<noteq> EXPECTED_VERSION then Inl (InvalidHeader ''unsupported version'')
      else if wal_offset h < WAL_OFFSET
        then Inl (InvalidHeader ''wal_offset precedes data region'')
      else if wal_size h = 0 then Inl (InvalidHeader ''wal_size must be non-zero'')
      else
        (let buf = replicate HEADER_SIZE 0;
             buf = put_slice buf 0 (magic h);
             buf = put_slice buf VERSION_OFFSET (to_le 2 (version h));
             buf = put_slice buf SPEC_BYTES_OFFSET [SPEC_MAJOR];
             buf = put_slice buf (SPEC_BYTES_OFFSET + 1) [SPEC_MINOR];
             buf = put_slice buf FOOTER_OFFSET_POS (to_le 8 (footer_offset h));
             buf = put_slice buf WAL_OFFSET_POS (to_le 8 (wal_offset h));
             buf = put_slice buf WAL_SIZE_POS (to_le 8 (wal_size h));
             buf = put_slice buf WAL_CHECKPOINT_POS (to_le 8 (wal_checkpoint_pos h));
             buf = put_slice buf WAL_SEQUENCE_POS (to_le 8 (wal_sequence h));
             buf = put_slice buf TOC_CHECKSUM_POS (toc_checksum h)
         in Inr buf))"

definition extract_array :: "nat \<Rightarrow> bytes \<Rightarrow> nat \<Rightarrow> bytes res" where
  "extract_array n bs offset =
     (if offset + n \<le> length bs then Inr (bslice bs offset n)
      else Inl (InvalidHeader ''header truncated''))"

definition decode :: "bytes \<Rightarrow> header res" where
  "decode bs =
     (case extract_array 4 bs 0 of Inl e \<Rightarrow> Inl e | Inr mg \<Rightarrow>
      if mg \<noteq> MAGIC then Inl (InvalidHeader ''magic mismatch'') else
      case extract_array 2 bs VERSION_OFFSET of Inl e \<Rightarrow> Inl e | Inr vb \<Rightarrow>
      let ver = from_le vb in
      if ver \<noteq> EXPECTED_VERSION then Inl (InvalidHeader ''unsupported version'') else
      if bs ! SPEC_BYTES_OFFSET \<noteq> SPEC_MAJOR \<or> bs ! (SPEC_BYTES_OFFSET + 1) \<noteq> SPEC_MINOR
        then Inl (InvalidHeader ''spec byte mismatch'') else
      case extract_array 8 bs FOOTER_OFFSET_POS of Inl e \<Rightarrow> Inl e | Inr fo \<Rightarrow>
      case extract_array 8 bs WAL_OFFSET_POS of Inl e \<Rightarrow> Inl e | Inr wo \<Rightarrow>
      if (from_le wo :: u64) < WAL_OFFSET
        then Inl (InvalidHeader ''wal_offset precedes data region'') else
      case extract_array 8 bs WAL_SIZE_POS of Inl e \<Rightarrow> Inl e | Inr ws \<Rightarrow>
      if (from_le ws :: u64) = 0 then Inl (InvalidHeader ''wal_size must be non-zero'') else
      case extract_array 8 bs WAL_CHECKPOINT_POS of Inl e \<Rightarrow> Inl e | Inr wc \<Rightarrow>
      case extract_array 8 bs WAL_SEQUENCE_POS of Inl e \<Rightarrow> Inl e | Inr wq \<Rightarrow>
      case extract_array 32 bs TOC_CHECKSUM_POS of Inl e \<Rightarrow> Inl e | Inr tc \<Rightarrow>
      Inr \<lparr>magic = mg, version = ver, footer_offset = from_le fo, wal_offset = from_le wo,
           wal_size = from_le ws, wal_checkpoint_pos = from_le wc,
           wal_sequence = from_le wq, toc_checksum = tc\<rparr>)"

definition clear_legacy_lock_metadata :: "bytes \<Rightarrow> bytes \<times> bool" where
  "clear_legacy_lock_metadata buf =
     (let n = LEGACY_LOCK_REGION_END - LEGACY_LOCK_REGION_START;
          region = bslice buf LEGACY_LOCK_REGION_START n
      in if list_ex (\<lambda>b. b \<noteq> 0) region
         then (put_slice buf LEGACY_LOCK_REGION_START (replicate n 0), True)
         else (buf, False))"

text \<open>\<open>HeaderCodec::write\<close> and \<open>HeaderCodec::read\<close>: the file after the call and the result.\<close>

definition write_header :: "bytes \<Rightarrow> header \<Rightarrow> bytes \<times> unit res" where
  "write_header f h =
     (case encode h of Inl e \<Rightarrow> (f, Inl e) | Inr bs \<Rightarrow> (write_at f 0 bs, Inr ()))"

definition read_header :: "bytes \<Rightarrow> bytes \<times> header res" where
  "read_header f =
     (case read_exact f 0 HEADER_SIZE of Inl e \<Rightarrow> (f, Inl e) | Inr buf \<Rightarrow>
      let (buf', changed) = clear_legacy_lock_metadata buf;
          f' = (if changed then write_at f 0 buf' else f)
      in (f', decode buf'))"

section \<open>Encoding\<close>

text \<open>The buffer the encoder builds, as one concatenation.\<close>

definition header_layout :: "header \<Rightarrow> bytes" where
  "header_layout h = magic h @ to_le 2 (version h) @ [SPEC_MAJOR] @ [SPEC_MINOR] @
     to_le 8 (footer_offset h) @ to_le 8 (wal_offset h) @ to_le 8 (wal_size h) @
     to_le 8 (wal_checkpoint_pos h) @ to_le 8 (wal_sequence h) @ toc_checksum h @
     replicate 4016 0"

lemma encode_layout:
  assumes "header_typed h" "header_valid h"
  shows "encode h = Inr (header_layout h)"
  using assms
  by (simp add: encode_def header_valid_def header_typed_def header_layout_def Let_def
      header_consts buf_simps not_less)

lemma length_header_layout: "header_typed h \<Longrightarrow> length (header_layout h) = HEADER_SIZE"
  by (simp add: header_layout_def header_typed_def header_consts)

lemma decode_layout:
  assumes "header_typed h" "header_valid h"
  shows "decode (header_layout h) = Inr h"
  using assms
  by (simp add: decode_def header_valid_def header_typed_def header_layout_def Let_def
      header_consts extract_array_def buf_simps nth_append not_less)

lemma encode_ok_iff: "(\<exists>bs. encode h = Inr bs) \<longleftrightarrow> header_valid h"
  by (auto simp: encode_def header_valid_def Let_def not_less)


section \<open>Decoding\<close>

lemma decode_ok:
  assumes "length bs = HEADER_SIZE" "decode bs = Inr h"
  shows "header_typed h \<and> header_valid h \<and> take 80 (header_layout h) = take 80 bs"
proof -
  have len: "80 \<le> length bs" using assms(1) by (simp add: header_consts)
  from assms have h: "magic h = bslice bs 0 4" "version h = from_le (bslice bs 4 2)"
      "footer_offset h = from_le (bslice bs 8 8)" "wal_offset h = from_le (bslice bs 16 8)"
      "wal_size h = from_le (bslice bs 24 8)" "wal_checkpoint_pos h = from_le (bslice bs 32 8)"
      "wal_sequence h = from_le (bslice bs 40 8)" "toc_checksum h = bslice bs 48 32"
    and v: "header_valid h" and sp: "bs ! 6 = SPEC_MAJOR" "bs ! 7 = SPEC_MINOR"
    by (auto simp: decode_def extract_array_def header_consts Let_def header_valid_def not_less
        split: if_splits)
  have "header_typed h" using len h by (simp add: header_typed_def)
  moreover have "take 80 (header_layout h) = take 80 bs"
  proof -
    have "bslice bs 6 1 = [bs ! 6]" "bslice bs 7 1 = [bs ! 7]"
      using len by (simp_all add: bslice_def take_Suc_conv_app_nth hd_drop_conv_nth)
    then have "take 80 (header_layout h) = bslice bs 0 4 @ bslice bs 4 2 @ bslice bs 6 1 @
        bslice bs 7 1 @ bslice bs 8 8 @ bslice bs 16 8 @ bslice bs 24 8 @ bslice bs 32 8 @
        bslice bs 40 8 @ bslice bs 48 32"
      using len sp by (simp add: header_layout_def h to_le_from_le)
    also have "\<dots> = bslice bs 0 80"
      using slice_append_slice [of bs 48 32 0] slice_append_slice [of bs 40 8 32]
        slice_append_slice [of bs 32 8 40] slice_append_slice [of bs 24 8 48]
        slice_append_slice [of bs 16 8 56] slice_append_slice [of bs 8 8 64]
        slice_append_slice [of bs 7 1 72] slice_append_slice [of bs 6 1 73]
        slice_append_slice [of bs 4 2 74] slice_append_slice [of bs 0 4 76]
      by simp
    finally show ?thesis by (simp add: slice_zero_take)
  qed
  ultimately show ?thesis using v by simp
qed

text \<open>Decoding looks at the first 80 bytes only.\<close>

lemma decode_prefix:
  assumes "80 \<le> length bs" "80 \<le> length bs'" "take 80 bs = take 80 bs'"
  shows "decode bs = decode bs'"
proof -
  have sl: "bslice bs i n = bslice bs' i n" if "i + n \<le> 80" for i n
    using slice_take [OF that, of bs] slice_take [OF that, of bs'] assms(3) by simp
  have "bs ! i = bs' ! i" if "i < 80" for i
    using nth_take [OF that, of bs] nth_take [OF that, of bs'] assms(3) by simp
  with sl assms(1,2) show ?thesis
    by (simp add: decode_def extract_array_def header_consts Let_def cong: if_cong)
qed

lemma clear_legacy_clean:
  assumes "length buf = HEADER_SIZE" "clear_legacy_lock_metadata buf = (buf', c)"
  shows "length buf' = HEADER_SIZE" "bslice buf' 80 60 = replicate 60 0"
    "take 80 buf' = take 80 buf" "drop 140 buf' = drop 140 buf" "\<not> c \<Longrightarrow> buf' = buf"
  using assms
  by (auto simp: clear_legacy_lock_metadata_def header_consts Let_def put_slice_def bslice_def
      list_ex_iff split: if_splits intro!: replicate_eqI)

lemma clear_legacy_idle:
  assumes "bslice buf 80 60 = replicate 60 0"
  shows "clear_legacy_lock_metadata buf = (buf, False)"
  using assms by (simp add: clear_legacy_lock_metadata_def header_consts Let_def list_ex_iff)

interpretation header_codec: fixed_codec
  "\<lambda>h. header_layout h" "\<lambda>bs. ok_opt (decode bs)" "\<lambda>h. header_typed h \<and> header_valid h" 4096
  by unfold_locales
    (simp_all add: decode_layout length_header_layout [unfolded HEADER_SIZE_def])

section \<open>Properties\<close>

text \<open>Header round trip: every well-formed header is encoded to exactly 4096 bytes, and
  decoding these bytes gives back the header, field by field.\<close>

theorem header_roundtrip:
  assumes "header_typed h" "header_valid h"
  shows "\<exists>bs. encode h = Inr bs \<and> length bs = HEADER_SIZE \<and> decode bs = Inr h"
  using assms by (simp add: encode_layout length_header_layout decode_layout)

definition sample_header :: header where
  "sample_header = \<lparr>magic = MAGIC, version = EXPECTED_VERSION, footer_offset = 1048576,
     wal_offset = WAL_OFFSET, wal_size = 4194304, wal_checkpoint_pos = 0, wal_sequence = 42,
     toc_checksum = replicate 32 171\<rparr>"

lemma sample_header_ok: "header_typed sample_header" "header_valid sample_header"
  by (simp_all add: sample_header_def header_typed_def header_valid_def)

theorem header_roundtrip_witness:
  "\<exists>bs. encode sample_header = Inr bs \<and> length bs = HEADER_SIZE \<and> decode bs = Inr sample_header"
  by (rule header_roundtrip) (rule sample_header_ok)+

text \<open>Decoding validates: whatever 4096 bytes are on disk, an accepted header has the right
  magic and version, a WAL behind the header and a non-empty WAL region, and re-encoding it
  reproduces the 80 bytes of fields that were read (nothing is lost or defaulted).\<close>

theorem header_decode_sound:
  assumes "length bs = HEADER_SIZE" "decode bs = Inr h"
  shows "header_valid h \<and> (\<exists>bs'. encode h = Inr bs' \<and> take 80 bs' = take 80 bs)"
  using decode_ok [OF assms] by (auto simp: encode_layout)

theorem header_decode_sound_witness:
  "header_valid sample_header \<and> (\<exists>bs'. encode sample_header = Inr bs' \<and>
     take 80 bs' = take 80 (header_layout sample_header))"
  by (rule header_decode_sound)
    (simp_all add: length_header_layout decode_layout sample_header_ok)

text \<open>Reading a header repairs legacy files and does nothing else: of a file of at least 4096
  bytes only the bytes 80..140 change, they become zero, a second read returns the same
  result and leaves the file as it is.\<close>

theorem read_header_repairs:
  assumes "HEADER_SIZE \<le> length f" "read_header f = (f', r)"
  shows "length f' = length f \<and> take 80 f' = take 80 f \<and> drop 140 f' = drop 140 f \<and>
    bslice f' 80 60 = replicate 60 0 \<and> read_header f' = (f', r)"
proof -
  let ?b = "bslice f 0 HEADER_SIZE"
  have lb: "length ?b = HEADER_SIZE" using assms(1) by simp
  obtain b' c where cl: "clear_legacy_lock_metadata ?b = (b', c)" by fastforce
  note clean = clear_legacy_clean [OF lb cl]
  have f: "f = ?b @ drop HEADER_SIZE f" by (simp add: slice_zero_take)
  have f': "f' = b' @ drop HEADER_SIZE f" and r: "r = decode b'"
    using assms cl clean
    by (auto simp: read_header_def Let_def put_slice_def split: if_splits)
      (auto simp: slice_zero_take)
  have b'f': "bslice f' 0 HEADER_SIZE = b'" using f' clean(1) by (simp add: slice_zero_take)
  have "take 80 f' = take 80 b'" "take 80 f = take 80 ?b"
    using assms(1) f' clean(1) by (simp_all add: header_consts slice_zero_take min_def)
  moreover have "drop 140 f' = drop 140 b' @ drop HEADER_SIZE f"
    using f' clean(1) by (simp add: header_consts)
  moreover have "drop 140 f = drop 140 ?b @ drop HEADER_SIZE f"
    using lb by (subst f) (simp only: drop_append HEADER_SIZE_def, simp)
  moreover have "bslice f' 80 60 = bslice b' 80 60"
    using slice_take [of 80 60 HEADER_SIZE f'] b'f' by (simp add: header_consts slice_zero_take)
  moreover have "length f' = length f"
    using f' clean(1) assms(1) by simp
  moreover have "read_header f' = (f', r)"
    using assms(1) b'f' r f' clean(1,2)
    by (simp add: read_header_def clear_legacy_idle)
  ultimately show ?thesis using clean by simp
qed

theorem read_header_repairs_witness:
  "let f = header_layout sample_header in
     read_header f = (f, Inr sample_header) \<and> bslice f 80 60 = replicate 60 0"
proof -
  let ?f = "header_layout sample_header"
  obtain f' r where fr: "read_header ?f = (f', r)" by fastforce
  have len: "HEADER_SIZE \<le> length ?f" by (simp add: length_header_layout sample_header_ok)
  have z: "bslice ?f 80 60 = replicate 60 0"
    by (simp add: header_layout_def sample_header_def buf_simps)
  have "read_header ?f = (?f, Inr sample_header)"
    using len by (simp add: read_header_def slice_all length_header_layout sample_header_ok
        clear_legacy_idle z decode_layout)
  then show ?thesis using read_header_repairs [OF len fr] fr by simp
qed

text \<open>C24. Write, then read: a header written over any file is read back, the read changes no
  byte, and everything behind the header region is untouched.\<close>

theorem write_read_header:
  assumes "header_typed h" "header_valid h"
  shows "\<exists>f'. write_header f h = (f', Inr ()) \<and> read_header f' = (f', Inr h) \<and>
    drop HEADER_SIZE f' = drop HEADER_SIZE f"
proof -
  let ?b = "header_layout h"
  have lb: "length ?b = HEADER_SIZE" by (rule length_header_layout) (rule assms)
  define f' where "f' = write_at f 0 ?b"
  have ne: "?b \<noteq> []" using lb by (auto simp: HEADER_SIZE_def)
  have f': "f' = ?b @ drop HEADER_SIZE f"
    using ne lb by (simp add: f'_def write_at_def put_slice_def)
  have "bslice f' 0 HEADER_SIZE = ?b" using f' lb by (simp add: slice_zero_take)
  moreover have "bslice ?b 80 60 = replicate 60 0"
    using assms(1) by (simp add: header_layout_def header_typed_def buf_simps)
  ultimately have "read_header f' = (f', Inr h)"
    using f' lb assms by (simp add: read_header_def clear_legacy_idle decode_layout)
  then show ?thesis using f' lb assms by (simp add: write_header_def encode_layout f'_def)
qed

theorem write_read_header_witness:
  "\<exists>f'. write_header [] sample_header = (f', Inr ()) \<and>
     read_header f' = (f', Inr sample_header) \<and> drop HEADER_SIZE f' = drop HEADER_SIZE []"
  by (rule write_read_header) (rule sample_header_ok)+

end
