(* ===== verification/Footer.thy ===== *)
theory Footer
  imports Prelude
begin

text \<open>
  Commit footers (\<open>footer.rs\<close>): the 56-byte trailer written behind every committed table
  of contents, and the backward scan that finds the most recent valid one after a crash.
  BLAKE3 (\<open>hash\<close>) and \<open>memchr::memrchr\<close> are parameters; what the code relies on is
  \<open>hash_ok\<close> (digests have 32 bytes) and \<open>memrchr_ok\<close> (the last index of a byte).
\<close>

definition FOOTER_MAGIC :: bytes where
  "FOOTER_MAGIC = [77, 86, 50, 70, 79, 79, 84, 33]"

definition FOOTER_SIZE :: nat where
  "FOOTER_SIZE = length FOOTER_MAGIC + 8 + 32 + 8"

lemma length_FOOTER_MAGIC [simp]: "length FOOTER_MAGIC = 8"
  by (simp add: FOOTER_MAGIC_def)

lemma FOOTER_SIZE_eq: "FOOTER_SIZE = 56"
  by (simp add: FOOTER_SIZE_def)

definition hash_ok :: "(bytes \<Rightarrow> bytes) \<Rightarrow> bool" where
  "hash_ok hash \<longleftrightarrow> (\<forall>x. length (hash x) = 32)"

definition memrchr_ok :: "(u8 \<Rightarrow> bytes \<Rightarrow> nat option) \<Rightarrow> bool" where
  "memrchr_ok m \<longleftrightarrow> (\<forall>b xs. case m b xs of
      None \<Rightarrow> b \<notin> set xs
    | Some i \<Rightarrow> i < length xs \<and> xs ! i = b \<and> (\<forall>j < length xs. i < j \<longrightarrow> xs ! j \<noteq> b))"

lemma memrchr_spec:
  "memrchr_ok m \<Longrightarrow> case m b xs of None \<Rightarrow> b \<notin> set xs
    | Some i \<Rightarrow> i < length xs \<and> xs ! i = b \<and> (\<forall>j < length xs. i < j \<longrightarrow> xs ! j \<noteq> b)"
  unfolding memrchr_ok_def by blast

lemma memrchr_None: "memrchr_ok m \<Longrightarrow> m b xs = None \<Longrightarrow> b \<notin> set xs"
  by (drule memrchr_spec [of m b xs]) simp

lemma memrchr_Some:
  "memrchr_ok m \<Longrightarrow> m b xs = Some i \<Longrightarrow>
     i < length xs \<and> xs ! i = b \<and> (\<forall>j < length xs. i < j \<longrightarrow> xs ! j \<noteq> b)"
  by (drule memrchr_spec [of m b xs]) simp

record commit_footer =
  toc_len :: u64
  toc_hash :: bytes
  generation :: u64

definition footer_typed :: "commit_footer \<Rightarrow> bool" where
  "footer_typed f \<longleftrightarrow> length (toc_hash f) = 32"

definition encode :: "commit_footer \<Rightarrow> bytes" where
  "encode f =
     (let n = length FOOTER_MAGIC;
          buf = replicate FOOTER_SIZE 0;
          buf = put_slice buf 0 FOOTER_MAGIC;
          buf = put_slice buf n (to_le 8 (toc_len f));
          buf = put_slice buf (n + 8) (toc_hash f);
          buf = put_slice buf (n + 40) (to_le 8 (generation f))
      in buf)"

definition decode :: "bytes \<Rightarrow> commit_footer option" where
  "decode bs =
     (let n = length FOOTER_MAGIC in
      if length bs \<noteq> FOOTER_SIZE then None
      else if bslice bs 0 n \<noteq> FOOTER_MAGIC then None
      else Some \<lparr>toc_len = from_le (bslice bs n 8), toc_hash = bslice bs (n + 8) 32,
             generation = from_le (bslice bs (n + 40) 8)\<rparr>)"

definition hash_matches :: "(bytes \<Rightarrow> bytes) \<Rightarrow> commit_footer \<Rightarrow> bytes \<Rightarrow> bool" where
  "hash_matches hash f toc \<longleftrightarrow> hash toc = toc_hash f"

record footer_slice =
  fs_footer_offset :: nat
  fs_toc_offset :: nat
  fs_footer :: commit_footer
  fs_toc_bytes :: bytes

text \<open>
  One turn of the scan: look for the first magic byte before \<open>search_end\<close>, then either stop,
  go on from the position found, or return.  The loop runs on fuel; the outer \<open>None\<close> means
  that it was used up.
\<close>

fun scan_loop :: "(u8 \<Rightarrow> bytes \<Rightarrow> nat option) \<Rightarrow> (bytes \<Rightarrow> bytes) \<Rightarrow> bytes \<Rightarrow> nat \<Rightarrow> nat \<Rightarrow>
    footer_slice option option" where
  "scan_loop memrchr hash bs search_end 0 = None"
| "scan_loop memrchr hash bs search_end (Suc fuel) =
     (let total_len = length bs in
      case memrchr (FOOTER_MAGIC ! 0) (take search_end bs) of
        None \<Rightarrow> Some None
      | Some pos \<Rightarrow>
          if total_len < pos + FOOTER_SIZE then
            (if pos = 0 then Some None else scan_loop memrchr hash bs pos fuel)
          else
            (case decode (bslice bs pos FOOTER_SIZE) of
               Some footer \<Rightarrow>
                 (let toc_end = pos; n = unat (toc_len footer) in
                  if n = 0 \<or> toc_end < n then scan_loop memrchr hash bs pos fuel
                  else
                    (let toc_offset = toc_end - n; toc = bslice bs toc_offset n in
                     if \<not> hash_matches hash footer toc then scan_loop memrchr hash bs pos fuel
                     else Some (Some \<lparr>fs_footer_offset = pos, fs_toc_offset = toc_offset,
                                  fs_footer = footer, fs_toc_bytes = toc\<rparr>)))
             | None \<Rightarrow>
                 (if pos = 0 then Some None else scan_loop memrchr hash bs pos fuel)))"

definition find_last_valid_footer ::
  "(u8 \<Rightarrow> bytes \<Rightarrow> nat option) \<Rightarrow> (bytes \<Rightarrow> bytes) \<Rightarrow> bytes \<Rightarrow> footer_slice option option" where
  "find_last_valid_footer memrchr hash bs =
     (if length bs < FOOTER_SIZE then Some None
      else scan_loop memrchr hash bs (length bs) (Suc (length bs)))"

section \<open>The codec\<close>

definition footer_layout :: "commit_footer \<Rightarrow> bytes" where
  "footer_layout f = FOOTER_MAGIC @ to_le 8 (toc_len f) @ toc_hash f @ to_le 8 (generation f)"

lemma footer_encode_layout: "footer_typed f \<Longrightarrow> encode f = footer_layout f"
  by (simp add: encode_def footer_layout_def footer_typed_def FOOTER_SIZE_eq buf_simps Let_def)

lemma decode_encode: "footer_typed f \<Longrightarrow> decode (encode f) = Some f"
  by (simp add: footer_encode_layout decode_def footer_layout_def footer_typed_def FOOTER_SIZE_eq
      buf_simps Let_def)

lemma length_encode: "footer_typed f \<Longrightarrow> length (encode f) = 56"
  by (simp add: footer_encode_layout footer_layout_def footer_typed_def)

interpretation footer_codec: fixed_codec encode decode footer_typed 56
  by unfold_locales (simp_all add: decode_encode length_encode)

lemma decode_head:
  assumes "decode (bslice bs pos FOOTER_SIZE) = Some f" "pos + FOOTER_SIZE \<le> length bs"
  shows "bs ! pos = FOOTER_MAGIC ! 0"
proof -
  have "bslice (bslice bs pos 56) 0 8 = FOOTER_MAGIC"
    using assms by (simp add: decode_def FOOTER_SIZE_eq Let_def split: if_splits)
  then have "(take 8 (drop pos bs)) ! 0 = FOOTER_MAGIC ! 0"
    by (simp add: bslice_def min_def)
  then show ?thesis using assms(2) by (simp add: FOOTER_SIZE_eq)
qed

section \<open>What the scan looks for\<close>

text \<open>A committed table of contents: a decodable footer at \<open>pos\<close> whose hash matches the
  \<open>toc_len\<close> bytes in front of it.\<close>

definition valid_footer_at :: "(bytes \<Rightarrow> bytes) \<Rightarrow> bytes \<Rightarrow> nat \<Rightarrow> commit_footer \<Rightarrow> bool" where
  "valid_footer_at hash bs pos f \<longleftrightarrow>
     pos + FOOTER_SIZE \<le> length bs \<and> decode (bslice bs pos FOOTER_SIZE) = Some f \<and>
     0 < unat (toc_len f) \<and> unat (toc_len f) \<le> pos \<and>
     hash (bslice bs (pos - unat (toc_len f)) (unat (toc_len f))) = toc_hash f"

text \<open>The result the scan must deliver when nothing at or above \<open>e\<close> is valid.\<close>

definition scan_post :: "(bytes \<Rightarrow> bytes) \<Rightarrow> bytes \<Rightarrow> footer_slice option \<Rightarrow> bool" where
  "scan_post hash bs r \<longleftrightarrow> (case r of
     None \<Rightarrow> \<not> (\<exists>pos f. valid_footer_at hash bs pos f)
   | Some s \<Rightarrow> valid_footer_at hash bs (fs_footer_offset s) (fs_footer s) \<and>
       fs_toc_offset s = fs_footer_offset s - unat (toc_len (fs_footer s)) \<and>
       fs_toc_bytes s = bslice bs (fs_toc_offset s) (unat (toc_len (fs_footer s))) \<and>
       (\<forall>pos f. valid_footer_at hash bs pos f \<longrightarrow> pos \<le> fs_footer_offset s))"

lemma valid_before_last:
  assumes m: "memrchr_ok m" "m (FOOTER_MAGIC ! 0) (take e bs) = Some pos"
    and nv: "\<And>p f. valid_footer_at hash bs p f \<Longrightarrow> p < e"
    and v: "valid_footer_at hash bs p f"
  shows "p \<le> pos"
proof (rule ccontr)
  assume "\<not> p \<le> pos"
  moreover have "p < e" using nv v .
  moreover have b: "bs ! p = FOOTER_MAGIC ! 0" "p + 56 \<le> length bs"
    using v decode_head [of bs p f] by (auto simp: valid_footer_at_def FOOTER_SIZE_eq)
  moreover have "\<forall>j < length (take e bs). pos < j \<longrightarrow> take e bs ! j \<noteq> FOOTER_MAGIC ! 0"
    using memrchr_Some [OF m] by simp
  ultimately show False by (auto dest!: spec [of _ p])
qed

lemma valid_none:
  assumes m: "memrchr_ok m" "m (FOOTER_MAGIC ! 0) (take e bs) = None"
    and nv: "\<And>p f. valid_footer_at hash bs p f \<Longrightarrow> p < e"
  shows "\<not> valid_footer_at hash bs p f"
proof
  assume v: "valid_footer_at hash bs p f"
  then have "bs ! p = FOOTER_MAGIC ! 0" "p < length bs" "p < e"
    using decode_head [of bs p f] nv by (auto simp: valid_footer_at_def FOOTER_SIZE_eq)
  then have "FOOTER_MAGIC ! 0 \<in> set (take e bs)"
    by (metis length_take min_less_iff_conj nth_mem nth_take)
  moreover have "FOOTER_MAGIC ! 0 \<notin> set (take e bs)" by (rule memrchr_None [OF m])
  ultimately show False by simp
qed

lemma scan_loop_correct:
  assumes m: "memrchr_ok m"
  shows "e \<le> length bs \<Longrightarrow> e < fuel \<Longrightarrow> (\<And>p f. valid_footer_at hash bs p f \<Longrightarrow> p < e) \<Longrightarrow>
    \<exists>r. scan_loop m hash bs e fuel = Some r \<and> scan_post hash bs r"
proof (induction fuel arbitrary: e)
  case 0
  then show ?case by simp
next
  case (Suc fuel)
  show ?case
  proof (cases "m (FOOTER_MAGIC ! 0) (take e bs)")
    case None
    have "\<not> valid_footer_at hash bs p f" for p f
      by (rule valid_none [OF m None]) (rule Suc.prems(3))
    with None show ?thesis by (auto simp: scan_post_def)
  next
    case (Some pos)
    have pos: "pos < e"
      using memrchr_Some [OF m Some] by simp
    have le: "p \<le> pos" if "valid_footer_at hash bs p f" for p f
      using valid_before_last [OF m Some Suc.prems(3) that] .
    have go_on: "\<exists>r. scan_loop m hash bs pos fuel = Some r \<and> scan_post hash bs r"
      if "\<And>f. \<not> valid_footer_at hash bs pos f"
      using Suc.IH [of pos] le that pos Suc.prems(1,2)
      by (metis dual_order.strict_iff_order less_Suc_eq_le less_or_eq_imp_le order_less_le_trans)
    have stop: "scan_post hash bs None"
      if "\<And>f. \<not> valid_footer_at hash bs pos f" "pos = 0"
      using le that by (fastforce simp: scan_post_def)
    show ?thesis
    proof (cases "\<exists>f. valid_footer_at hash bs pos f")
      case True
      then obtain f where v: "valid_footer_at hash bs pos f" by blast
      then show ?thesis using Some le
        by (auto simp: valid_footer_at_def hash_matches_def scan_post_def Let_def)
    next
      case False
      then show ?thesis using Some go_on stop
        by (auto simp: valid_footer_at_def hash_matches_def Let_def not_le split: option.splits)
    qed
  qed
qed

lemma footer_scan_correct:
  assumes "memrchr_ok m"
  shows "\<exists>r. find_last_valid_footer m hash bs = Some r \<and> scan_post hash bs r"
proof (cases "length bs < FOOTER_SIZE")
  case True
  then show ?thesis
    by (auto simp: find_last_valid_footer_def scan_post_def valid_footer_at_def)
next
  case False
  have "p < length bs" if "valid_footer_at hash bs p f" for p f
    using that by (auto simp: valid_footer_at_def FOOTER_SIZE_eq)
  from scan_loop_correct [OF assms order.refl lessI this] False show ?thesis
    by (simp add: find_last_valid_footer_def)
qed

text \<open>The footer at the end of the file is the one the scan finds.\<close>

lemma last_footer_at_end:
  assumes m: "memrchr_ok m" and f: "footer_typed f" "hash toc = toc_hash f"
    and len: "unat (toc_len f) = length toc" "toc \<noteq> []"
  shows "find_last_valid_footer m hash (pre @ toc @ encode f) =
    Some (Some \<lparr>fs_footer_offset = length pre + length toc, fs_toc_offset = length pre,
      fs_footer = f, fs_toc_bytes = toc\<rparr>)"
proof -
  let ?bs = "pre @ toc @ encode f"
  obtain r where r: "find_last_valid_footer m hash ?bs = Some r" "scan_post hash ?bs r"
    using footer_scan_correct [OF m] by blast
  have v: "valid_footer_at hash ?bs (length pre + length toc) f"
    using f len
    by (simp add: valid_footer_at_def FOOTER_SIZE_eq length_encode buf_simps decode_encode)
  then obtain s where s: "r = Some s" using r(2) by (cases r) (auto simp: scan_post_def)
  then have le: "length pre + length toc \<le> fs_footer_offset s"
    and vs: "valid_footer_at hash ?bs (fs_footer_offset s) (fs_footer s)"
    using r(2) v by (auto simp: scan_post_def)
  then have off: "fs_footer_offset s = length pre + length toc"
    using f(1) by (auto simp: valid_footer_at_def FOOTER_SIZE_eq length_encode)
  then have ft: "fs_footer s = f"
    using vs v by (simp add: valid_footer_at_def)
  from off ft s r(2) len have "fs_toc_offset s = length pre" "fs_toc_bytes s = toc"
    by (simp_all add: scan_post_def buf_simps)
  with off ft s r(1) show ?thesis by simp
qed

text \<open>A concrete instance of the parameters.\<close>

fun last_index :: "u8 \<Rightarrow> bytes \<Rightarrow> nat option" where
  "last_index b [] = None"
| "last_index b (x # xs) =
     (case last_index b xs of Some i \<Rightarrow> Some (Suc i) | None \<Rightarrow> if x = b then Some 0 else None)"

lemma last_index_ok: "memrchr_ok last_index"
proof -
  have "case last_index b xs of None \<Rightarrow> b \<notin> set xs
    | Some i \<Rightarrow> i < length xs \<and> xs ! i = b \<and> (\<forall>j < length xs. i < j \<longrightarrow> xs ! j \<noteq> b)" for b xs
  proof (induction xs)
    case Nil
    then show ?case by simp
  next
    case (Cons x xs)
    then show ?case
      by (auto split: option.splits simp: nth_Cons all_set_conv_all_nth less_Suc_eq_0_disj
          split: nat.splits)
  qed
  then show ?thesis by (simp add: memrchr_ok_def)
qed

definition sum_hash :: "bytes \<Rightarrow> bytes" where
  "sum_hash bs = sum_list bs # replicate 31 0"

lemma sum_hash_ok: "hash_ok sum_hash"
  by (simp add: hash_ok_def sum_hash_def)

section \<open>Properties\<close>

text \<open>Footer round trip: a footer is encoded to exactly 56 bytes and decoded to itself, and
  two footers with the same bytes are equal.\<close>

theorem footer_roundtrip:
  assumes "footer_typed f"
  shows "length (encode f) = FOOTER_SIZE \<and> decode (encode f) = Some f \<and>
    (\<forall>g. footer_typed g \<and> encode g = encode f \<longrightarrow> g = f)"
  using assms footer_codec.enc_width footer_codec.dec_enc footer_codec.enc_inject
  by (auto simp: FOOTER_SIZE_eq)

definition sample_footer :: commit_footer where
  "sample_footer = \<lparr>toc_len = 3, toc_hash = sum_hash [1, 2, 3], generation = 7\<rparr>"

lemma sample_footer_ok: "footer_typed sample_footer"
  by (simp add: sample_footer_def footer_typed_def sum_hash_def)

theorem footer_roundtrip_witness:
  "length (encode sample_footer) = FOOTER_SIZE \<and> decode (encode sample_footer) = Some sample_footer"
  using footer_roundtrip [OF sample_footer_ok] by simp

text \<open>C3. The backward scan is exact and terminates: for any bytes it returns the valid footer
  with the greatest offset together with the bytes of its table of contents, and it returns
  nothing only if the bytes hold no valid footer at all.\<close>

theorem find_last_valid_footer_correct:
  assumes "memrchr_ok m"
  shows "\<exists>r. find_last_valid_footer m hash bs = Some r \<and> scan_post hash bs r"
  using assms by (rule footer_scan_correct)

theorem find_last_valid_footer_correct_witness:
  "\<exists>r. find_last_valid_footer last_index sum_hash [1, 2, 3] = Some r \<and>
     scan_post sum_hash [1, 2, 3] r"
  by (rule find_last_valid_footer_correct) (rule last_index_ok)

text \<open>A committed table of contents is found again: after a commit appended \<open>toc\<close> and its
  footer to any prefix, the scan returns exactly this table of contents and footer, whatever
  older (valid or corrupt) footers the prefix holds.\<close>

theorem committed_toc_found:
  assumes m: "memrchr_ok m" and f: "footer_typed f" "hash toc = toc_hash f"
    and len: "unat (toc_len f) = length toc" "toc \<noteq> []"
  shows "find_last_valid_footer m hash (pre @ toc @ encode f) =
    Some (Some \<lparr>fs_footer_offset = length pre + length toc, fs_toc_offset = length pre,
      fs_footer = f, fs_toc_bytes = toc\<rparr>)"
  using assms by (rule last_footer_at_end)

theorem committed_toc_found_witness:
  "find_last_valid_footer last_index sum_hash ([77, 0] @ [1, 2, 3] @ encode sample_footer) =
    Some (Some \<lparr>fs_footer_offset = 2 + 3, fs_toc_offset = 2,
      fs_footer = sample_footer, fs_toc_bytes = [1, 2, 3]\<rparr>)"
  using committed_toc_found [OF last_index_ok sample_footer_ok,
      where hash = sum_hash and toc = "[1, 2, 3]" and pre = "[77, 0]"]
  by (simp add: sample_footer_def)

end
