(* ===== verification/Wal.thy ===== *)
theory Wal
  imports Header Footer
begin

text \<open>
  The embedded write-ahead log (\<open>io/wal.rs\<close>, struct \<open>EmbeddedWal\<close>): records
  \<open>[seq u64 | len u32 | 4 zero bytes | BLAKE3 32 | payload]\<close> in a region of the memory
  file, a zeroed record header (the sentinel) behind the last one, wrap-around when the region
  is committed, and recovery by scanning from the start of the region.

  \<open>record wal\<close> is the struct; its \<open>wfile\<close> is the content of the file behind the
  handle.  Sequence numbers are 64-bit words.  An operation that fails leaves the state as it
  was, so it returns \<open>Inl\<close> and no state.  \<open>fsync\<close> and the debug log have no effect
  here; BLAKE3 is the parameter \<open>hash\<close> with \<open>hash_ok\<close>.
\<close>

definition ENTRY_HEADER_SIZE :: nat where "ENTRY_HEADER_SIZE = 48"
definition U32_MAX :: nat where "U32_MAX = 4294967295"
definition U64_MAX :: nat where "U64_MAX = 18446744073709551615"
definition WAL_CHECKPOINT_PERIOD :: nat where "WAL_CHECKPOINT_PERIOD = 1000"

record wal_record =
  rec_sequence :: u64
  rec_payload :: bytes

record scanned_record =
  sc_sequence :: u64
  sc_payload :: bytes
  sc_total_size :: nat

record wal_stats =
  st_region_size :: nat
  st_pending_bytes :: nat
  st_appends :: nat
  st_sequence :: u64

record wal =
  wfile :: bytes
  region_offset :: nat
  region_size :: nat
  write_head :: nat
  checkpoint_head :: nat
  pending_bytes :: nat
  sequence :: u64
  checkpoint_sequence :: u64
  appends_since_checkpoint :: nat
  read_only :: bool
  skip_sync :: bool

section \<open>Operations\<close>

function scan_from :: "(bytes \<Rightarrow> bytes) \<Rightarrow> bytes \<Rightarrow> nat \<Rightarrow> nat \<Rightarrow> nat \<Rightarrow>
    (scanned_record list \<times> nat) res" where
  "scan_from hash f offset rsize cursor =
     (if cursor + ENTRY_HEADER_SIZE \<le> rsize then
        (case read_exact f (offset + cursor) ENTRY_HEADER_SIZE of
           Inl e \<Rightarrow> Inl e
         | Inr header \<Rightarrow>
             (let sq = (from_le (bslice header 0 8) :: u64);
                  len = unat (from_le (bslice header 8 4) :: u32);
                  checksum = bslice header 16 32 in
              if sq = 0 \<and> len = 0 then Inr ([], cursor)
              else if len = 0 \<or> rsize < cursor + ENTRY_HEADER_SIZE + len then
                Inl (WalCorruption cursor ''wal record length invalid'')
              else
                (case read_exact f (offset + cursor + ENTRY_HEADER_SIZE) len of
                   Inl e \<Rightarrow> Inl e
                 | Inr payload \<Rightarrow>
                     if hash payload \<noteq> checksum then
                       Inl (WalCorruption cursor ''wal record checksum mismatch'')
                     else
                       (case scan_from hash f offset rsize (cursor + ENTRY_HEADER_SIZE + len) of
                          Inl e \<Rightarrow> Inl e
                        | Inr (rs, c) \<Rightarrow>
                            Inr (\<lparr>sc_sequence = sq, sc_payload = payload,
                                  sc_total_size = ENTRY_HEADER_SIZE + len\<rparr> # rs, c)))))
      else Inr ([], cursor))"
  by pat_completeness auto
termination
  by (relation "measure (\<lambda>(hash, f, offset, rsize, cursor). rsize - cursor)")
    (auto simp: ENTRY_HEADER_SIZE_def)

declare scan_from.simps [simp del]

definition scan_records :: "(bytes \<Rightarrow> bytes) \<Rightarrow> bytes \<Rightarrow> nat \<Rightarrow> nat \<Rightarrow>
    (scanned_record list \<times> nat) res" where
  "scan_records hash f offset rsize = scan_from hash f offset rsize 0"

definition assert_writable :: "wal \<Rightarrow> unit res" where
  "assert_writable w =
     (if read_only w then Inl (Lock_Error ''wal is read-only; reopen memory with write access'')
      else Inr ())"

definition seek_and_write :: "wal \<Rightarrow> nat \<Rightarrow> bytes \<Rightarrow> wal res" where
  "seek_and_write w position bs =
     (case assert_writable w of Inl e \<Rightarrow> Inl e | Inr _ \<Rightarrow>
      let pos = position mod region_size w;
          absolute = region_offset w + pos
      in Inr (w\<lparr>wfile := write_at (wfile w) absolute bs\<rparr>))"

definition write_record :: "(bytes \<Rightarrow> bytes) \<Rightarrow> wal \<Rightarrow> nat \<Rightarrow> u64 \<Rightarrow> bytes \<Rightarrow> wal res" where
  "write_record hash w position sq payload =
     (case assert_writable w of Inl e \<Rightarrow> Inl e | Inr _ \<Rightarrow>
      let digest = hash payload;
          header = replicate ENTRY_HEADER_SIZE 0;
          header = put_slice header 0 (to_le 8 sq);
          header = put_slice header 8
            (to_le 4 (if length payload \<le> U32_MAX then of_nat (length payload) else - 1 :: u32));
          header = put_slice header 16 digest
      in seek_and_write w position (header @ payload))"

definition write_zero_header :: "wal \<Rightarrow> nat \<Rightarrow> (wal \<times> nat) res" where
  "write_zero_header w position =
     (case assert_writable w of Inl e \<Rightarrow> Inl e | Inr _ \<Rightarrow>
      if region_size w = 0 then Inr (w, 0)
      else
        (let pos = position mod region_size w;
             remaining = region_size w - pos in
         case (if remaining < ENTRY_HEADER_SIZE \<and> 0 < remaining
               then seek_and_write w pos (replicate remaining 0) else Inr w) of
           Inl e \<Rightarrow> Inl e
         | Inr w1 \<Rightarrow>
             (let pos1 = (if remaining < ENTRY_HEADER_SIZE then 0 else pos) in
              case seek_and_write w1 pos1 (replicate ENTRY_HEADER_SIZE 0) of
                Inl e \<Rightarrow> Inl e
              | Inr w2 \<Rightarrow> Inr (w2, pos1))))"

definition maybe_write_sentinel :: "wal \<Rightarrow> wal res" where
  "maybe_write_sentinel w =
     (if read_only w \<or> region_size w = 0 then Inr w
      else if region_size w \<le> pending_bytes w then Inr w
      else (case write_zero_header w (write_head w) of
              Inl e \<Rightarrow> Inl e
            | Inr (w', next) \<Rightarrow> Inr (w'\<lparr>write_head := next\<rparr>)))"

definition pending_of :: "u64 \<Rightarrow> scanned_record list \<Rightarrow> nat" where
  "pending_of cs entries =
     sum_list (map sc_total_size (filter (\<lambda>e. cs < sc_sequence e) entries))"

definition open_internal :: "(bytes \<Rightarrow> bytes) \<Rightarrow> bytes \<Rightarrow> header \<Rightarrow> bool \<Rightarrow> wal res" where
  "open_internal hash f h ro =
     (if wal_size h = 0 then Inl (InvalidHeader ''wal_size must be non-zero'')
      else
        (let off = unat (wal_offset h); sz = unat (wal_size h); cs = wal_sequence h in
         case scan_records hash f off sz of
           Inl e \<Rightarrow> Inl e
         | Inr (entries, next_head) \<Rightarrow>
             (let w = \<lparr>wfile = f, region_offset = off, region_size = sz,
                   write_head = next_head mod sz,
                   checkpoint_head = unat (wal_checkpoint_pos h) mod sz,
                   pending_bytes = pending_of cs entries,
                   sequence = (if entries = [] then cs else sc_sequence (last entries)),
                   checkpoint_sequence = cs, appends_since_checkpoint = 0,
                   read_only = ro, skip_sync = False\<rparr>
              in if \<not> ro then maybe_write_sentinel w else Inr w)))"

definition wal_open :: "(bytes \<Rightarrow> bytes) \<Rightarrow> bytes \<Rightarrow> header \<Rightarrow> wal res" where
  "wal_open hash f h = open_internal hash f h False"

definition open_read_only :: "(bytes \<Rightarrow> bytes) \<Rightarrow> bytes \<Rightarrow> header \<Rightarrow> wal res" where
  "open_read_only hash f h = open_internal hash f h True"

definition append_entry :: "(bytes \<Rightarrow> bytes) \<Rightarrow> wal \<Rightarrow> bytes \<Rightarrow> (wal \<times> u64) res" where
  "append_entry hash w payload =
     (case assert_writable w of Inl e \<Rightarrow> Inl e | Inr _ \<Rightarrow>
      if U32_MAX < length payload then Inl (CheckpointFailed ''WAL payload too large'')
      else
        (let entry_size = ENTRY_HEADER_SIZE + length payload in
         if region_size w < entry_size then
           Inl (CheckpointFailed ''embedded WAL region too small for entry'')
         else if region_size w < pending_bytes w + entry_size then
           Inl (CheckpointFailed ''embedded WAL region full'')
         else
           (let wrapping = region_size w < write_head w + entry_size in
            if wrapping \<and> 0 < pending_bytes w then
              Inl (CheckpointFailed ''embedded WAL region full'')
            else
              (let w0 = (if wrapping then w\<lparr>write_head := 0\<rparr> else w);
                   next_sequence = sequence w0 + 1 in
               case write_record hash w0 (write_head w0) next_sequence payload of
                 Inl e \<Rightarrow> Inl e
               | Inr w1 \<Rightarrow>
                   (let w2 = w1\<lparr>write_head := (write_head w1 + entry_size) mod region_size w1,
                        pending_bytes := pending_bytes w1 + entry_size,
                        sequence := sequence w1 + 1,
                        appends_since_checkpoint :=
                          min U64_MAX (appends_since_checkpoint w1 + 1)\<rparr> in
                    case maybe_write_sentinel w2 of
                      Inl e \<Rightarrow> Inl e
                    | Inr w3 \<Rightarrow> Inr (w3, sequence w3))))))"

text \<open>
  \<open>should_checkpoint\<close> compares the \<open>f64\<close> quotient of two \<open>u64\<close> values with 0.75.
  For regions below 2^52 bytes the rounded quotient is at least 0.75 exactly when the real
  quotient is, which is the comparison written here.
\<close>

definition should_checkpoint :: "wal \<Rightarrow> bool" where
  "should_checkpoint w =
     (if read_only w \<or> region_size w = 0 then False
      else 3 * region_size w \<le> 4 * pending_bytes w \<or>
        WAL_CHECKPOINT_PERIOD \<le> appends_since_checkpoint w)"

definition record_checkpoint :: "wal \<Rightarrow> header \<Rightarrow> (wal \<times> header) res" where
  "record_checkpoint w h =
     (case assert_writable w of Inl e \<Rightarrow> Inl e | Inr _ \<Rightarrow>
      let w1 = w\<lparr>checkpoint_head := write_head w, pending_bytes := 0,
                 appends_since_checkpoint := 0, checkpoint_sequence := sequence w\<rparr>;
          h1 = h\<lparr>wal_checkpoint_pos := of_nat (checkpoint_head w1),
                 wal_sequence := checkpoint_sequence w1\<rparr>
      in case maybe_write_sentinel w1 of Inl e \<Rightarrow> Inl e | Inr w2 \<Rightarrow> Inr (w2, h1))"

definition to_record :: "scanned_record \<Rightarrow> wal_record" where
  "to_record e = \<lparr>rec_sequence = sc_sequence e, rec_payload = sc_payload e\<rparr>"

definition records_after :: "(bytes \<Rightarrow> bytes) \<Rightarrow> wal \<Rightarrow> u64 \<Rightarrow> (wal \<times> wal_record list) res" where
  "records_after hash w sq =
     (case scan_records hash (wfile w) (region_offset w) (region_size w) of
        Inl e \<Rightarrow> Inl e
      | Inr (entries, next_head) \<Rightarrow>
          (let w1 = w\<lparr>sequence := (if entries = [] then sequence w else sc_sequence (last entries)),
                 pending_bytes := pending_of (checkpoint_sequence w) entries,
                 write_head := next_head mod region_size w\<rparr> in
           case (if \<not> read_only w1 then maybe_write_sentinel w1 else Inr w1) of
             Inl e \<Rightarrow> Inl e
           | Inr w2 \<Rightarrow> Inr (w2, map to_record (filter (\<lambda>e. sq < sc_sequence e) entries))))"

definition pending_records :: "(bytes \<Rightarrow> bytes) \<Rightarrow> wal \<Rightarrow> (wal \<times> wal_record list) res" where
  "pending_records hash w = records_after hash w (checkpoint_sequence w)"

definition stats :: "wal \<Rightarrow> wal_stats" where
  "stats w = \<lparr>st_region_size = region_size w, st_pending_bytes = pending_bytes w,
     st_appends = appends_since_checkpoint w, st_sequence = sequence w\<rparr>"

definition set_skip_sync :: "wal \<Rightarrow> bool \<Rightarrow> wal" where
  "set_skip_sync w skip = w\<lparr>skip_sync := skip\<rparr>"

section \<open>The region inside the file\<close>

lemma write_at_region:
  "length pre = off \<Longrightarrow> p + length xs \<le> length R \<Longrightarrow>
     write_at (pre @ R @ post) (off + p) xs = pre @ put_slice R p xs @ post"
  by (simp add: buf_simps)

lemma read_exact_region:
  "length pre = off \<Longrightarrow> p + n \<le> length R \<Longrightarrow>
     read_exact (pre @ R @ post) (off + p) n = Inr (bslice R p n)"
  by (simp add: buf_simps)

text \<open>Scanning a file only depends on the bytes of the region.\<close>

lemma scan_from_region:
  "length pre = off \<Longrightarrow>
     scan_from hash (pre @ R @ post) off (length R) c = scan_from hash R 0 (length R) c"
proof (induction hash R "0::nat" "length R" c rule: scan_from.induct)
  case (1 hash R c)
  show ?case
  proof (cases "c + ENTRY_HEADER_SIZE \<le> length R")
    case False
    then show ?thesis by (simp add: scan_from.simps [of hash _ _ _ c])
  next
    case True
    define hd where "hd = bslice R c ENTRY_HEADER_SIZE"
    define len where "len = unat (from_le (bslice hd 8 4) :: u32)"
    note step = scan_from.simps [of hash _ _ _ c]
    have r1: "read_exact (pre @ R @ post) (off + c) ENTRY_HEADER_SIZE = Inr hd"
      "read_exact R (0 + c) ENTRY_HEADER_SIZE = Inr hd"
      using True 1(2) by (simp_all add: hd_def buf_simps)
    have r2: "read_exact (pre @ R @ post) (off + c + ENTRY_HEADER_SIZE) len
        = Inr (bslice R (c + ENTRY_HEADER_SIZE) len)"
      "read_exact R (0 + c + ENTRY_HEADER_SIZE) len = Inr (bslice R (c + ENTRY_HEADER_SIZE) len)"
      if "\<not> length R < c + ENTRY_HEADER_SIZE + len"
      using that 1(2) read_exact_region [of pre off "c + ENTRY_HEADER_SIZE" len R post]
      by (simp_all add: add.assoc)
    have ih: "scan_from hash (pre @ R @ post) off (length R) (c + ENTRY_HEADER_SIZE + len) =
        scan_from hash R 0 (length R) (c + ENTRY_HEADER_SIZE + len)"
      if "0 < len" "\<not> length R < c + ENTRY_HEADER_SIZE + len"
        "hash (bslice R (c + ENTRY_HEADER_SIZE) len) = bslice hd 16 32"
      by (rule 1(1) [OF True r1(2) refl len_def refl _ _ r2(2) [OF that(2)] _ 1(2)])
        (use that in auto)
    show ?thesis
      using True r1 r2 ih
      unfolding step [of "pre @ R @ post"] step [of R]
      by (simp add: Let_def len_def [symmetric] cong: if_cong)
  qed
qed


section \<open>The record layout\<close>

definition record_bytes :: "(bytes \<Rightarrow> bytes) \<Rightarrow> u64 \<Rightarrow> bytes \<Rightarrow> bytes" where
  "record_bytes hash sq payload =
     to_le 8 sq @ to_le 4 (of_nat (length payload) :: u32) @ replicate 4 0 @ hash payload @ payload"

text \<open>A record that the scan accepts.  The empty payload is excluded: its length field is
  zero, which the scan rejects.\<close>

definition rec_ok :: "scanned_record \<Rightarrow> bool" where
  "rec_ok r \<longleftrightarrow> sc_payload r \<noteq> [] \<and> length (sc_payload r) \<le> U32_MAX \<and>
     sc_total_size r = ENTRY_HEADER_SIZE + length (sc_payload r)"

definition rec_enc :: "(bytes \<Rightarrow> bytes) \<Rightarrow> scanned_record \<Rightarrow> bytes" where
  "rec_enc hash r = record_bytes hash (sc_sequence r) (sc_payload r)"

definition recs_enc :: "(bytes \<Rightarrow> bytes) \<Rightarrow> scanned_record list \<Rightarrow> bytes" where
  "recs_enc hash rs = concat (map (rec_enc hash) rs)"

lemma length_record_bytes [simp]:
  "hash_ok hash \<Longrightarrow> length (record_bytes hash sq p) = ENTRY_HEADER_SIZE + length p"
  by (simp add: record_bytes_def hash_ok_def ENTRY_HEADER_SIZE_def)

lemma length_rec_enc: "hash_ok hash \<Longrightarrow> rec_ok r \<Longrightarrow> length (rec_enc hash r) = sc_total_size r"
  by (simp add: rec_enc_def rec_ok_def)

lemma length_recs_enc:
  "hash_ok hash \<Longrightarrow> list_all rec_ok rs \<Longrightarrow>
     length (recs_enc hash rs) = sum_list (map sc_total_size rs)"
  by (induction rs) (simp_all add: recs_enc_def length_rec_enc)

lemma recs_enc_simps [simp]:
  "recs_enc hash [] = []" "recs_enc hash (r # rs) = rec_enc hash r @ recs_enc hash rs"
  "recs_enc hash (rs @ rs') = recs_enc hash rs @ recs_enc hash rs'"
  by (simp_all add: recs_enc_def)

lemma len_field: "n \<le> U32_MAX \<Longrightarrow> unat (of_nat n :: u32) = n"
  by (simp add: U32_MAX_def unat_of_nat take_bit_eq_mod)

lemma scan_one:
  assumes h: "hash_ok hash" and r: "rec_ok r" and R: "R = X @ rec_enc hash r @ Z"
  shows "scan_from hash R 0 (length R) (length X) =
    (case scan_from hash R 0 (length R) (length X + sc_total_size r) of
       Inl e \<Rightarrow> Inl e | Inr (rs, c) \<Rightarrow> Inr (r # rs, c))"
proof -
  let ?n = "length (sc_payload r)" and ?c = "length X"
  define hd where "hd = to_le 8 (sc_sequence r) @ to_le 4 (of_nat ?n :: u32) @
    replicate 4 0 @ hash (sc_payload r)"
  have lh: "length (hash (sc_payload r)) = 32" using h by (simp add: hash_ok_def)
  have n: "0 < ?n" "?n \<le> U32_MAX" "sc_total_size r = ENTRY_HEADER_SIZE + ?n"
    using r by (simp_all add: rec_ok_def)
  have R': "R = X @ hd @ sc_payload r @ Z"
    by (simp add: R rec_enc_def record_bytes_def hd_def)
  have lhd: "length hd = ENTRY_HEADER_SIZE" using lh by (simp add: hd_def ENTRY_HEADER_SIZE_def)
  have len: "?c + ENTRY_HEADER_SIZE + ?n \<le> length R" "?c + ENTRY_HEADER_SIZE \<le> length R"
    using h by (simp_all add: R rec_enc_def)
  have hd: "read_exact R (0 + ?c) ENTRY_HEADER_SIZE = Inr hd"
    unfolding R' using lhd by (simp add: read_exact_def buf_simps)
  have pl: "read_exact R (0 + ?c + ENTRY_HEADER_SIZE) ?n = Inr (sc_payload r)"
    unfolding R' using lhd by (simp add: read_exact_def buf_simps)
  have fields: "from_le (bslice hd 0 8) = sc_sequence r"
    "unat (from_le (bslice hd 8 4) :: u32) = ?n" "bslice hd 16 32 = hash (sc_payload r)"
    using lh n(2) by (simp_all add: hd_def buf_simps len_field)
  have rec: "\<lparr>sc_sequence = sc_sequence r, sc_payload = sc_payload r,
      sc_total_size = ENTRY_HEADER_SIZE + ?n\<rparr> = r" using n(3) by simp
  show ?thesis
    unfolding scan_from.simps [of hash R 0 "length R" ?c]
    using len n rec by (simp only: hd pl fields sum.case Let_def if_True) (simp add: add.assoc)
qed

lemma scan_recs:
  assumes h: "hash_ok hash"
  shows "list_all rec_ok rs \<Longrightarrow> R = X @ recs_enc hash rs @ Z \<Longrightarrow>
    scan_from hash R 0 (length R) (length X) =
    (case scan_from hash R 0 (length R) (length X + length (recs_enc hash rs)) of
       Inl e \<Rightarrow> Inl e | Inr (rs', c) \<Rightarrow> Inr (rs @ rs', c))"
proof (induction rs arbitrary: X)
  case Nil
  then show ?case by (simp split: sum.splits)
next
  case (Cons r rs)
  have r: "rec_ok r" using Cons.prems by simp
  have R: "R = (X @ rec_enc hash r) @ recs_enc hash rs @ Z" using Cons.prems by simp
  have "scan_from hash R 0 (length R) (length X) =
    (case scan_from hash R 0 (length R) (length X + sc_total_size r) of
       Inl e \<Rightarrow> Inl e | Inr (rs, c) \<Rightarrow> Inr (r # rs, c))"
    by (rule scan_one [OF h r, where Z = "recs_enc hash rs @ Z"]) (use R in simp)
  moreover have "length X + sc_total_size r = length (X @ rec_enc hash r)"
    by (simp add: length_rec_enc [OF h r])
  ultimately show ?case
    using Cons.IH [OF _ R] Cons.prems(1) by (simp add: add.assoc split: sum.splits)
qed

lemma scan_stop:
  "R = X @ replicate ENTRY_HEADER_SIZE 0 @ Z \<Longrightarrow>
     scan_from hash R 0 (length R) (length X) = Inr ([], length X)"
  by (subst scan_from.simps)
    (simp add: read_exact_def buf_simps ENTRY_HEADER_SIZE_def Let_def from_le_def
      le_dec_zeros)

lemma scan_full:
  "length R < length X + ENTRY_HEADER_SIZE \<Longrightarrow>
     scan_from hash R 0 (length R) (length X) = Inr ([], length X)"
  by (subst scan_from.simps) simp


section \<open>The region as a value\<close>

definition region :: "wal \<Rightarrow> bytes" where
  "region w = bslice (wfile w) (region_offset w) (region_size w)"

definition set_region :: "wal \<Rightarrow> bytes \<Rightarrow> wal" where
  "set_region w R = w\<lparr>wfile := take (region_offset w) (wfile w) @ R @
     drop (region_offset w + region_size w) (wfile w)\<rparr>"

definition fits :: "wal \<Rightarrow> bool" where
  "fits w \<longleftrightarrow> region_offset w + region_size w \<le> length (wfile w)"

lemma length_region [simp]: "fits w \<Longrightarrow> length (region w) = region_size w"
  by (simp add: region_def fits_def)

lemma file_split:
  "fits w \<Longrightarrow> wfile w = take (region_offset w) (wfile w) @ region w @
     drop (region_offset w + region_size w) (wfile w)"
  unfolding region_def bslice_def fits_def by (metis append_take_drop_id drop_drop add.commute)

lemma set_region_fields [simp]:
  "region_offset (set_region w R) = region_offset w" "region_size (set_region w R) = region_size w"
  "write_head (set_region w R) = write_head w" "pending_bytes (set_region w R) = pending_bytes w"
  "sequence (set_region w R) = sequence w" "read_only (set_region w R) = read_only w"
  "checkpoint_sequence (set_region w R) = checkpoint_sequence w"
  "checkpoint_head (set_region w R) = checkpoint_head w"
  "appends_since_checkpoint (set_region w R) = appends_since_checkpoint w"
  by (simp_all add: set_region_def)

lemma region_set_region [simp]:
  "fits w \<Longrightarrow> length R = region_size w \<Longrightarrow> region (set_region w R) = R"
  by (simp add: region_def set_region_def fits_def bslice_def)

lemma fits_set_region [simp]: "fits w \<Longrightarrow> length R = region_size w \<Longrightarrow> fits (set_region w R)"
  by (simp add: fits_def set_region_def)

lemma region_update [simp]:
  "region (w\<lparr>write_head := a\<rparr>) = region w" "region (w\<lparr>pending_bytes := n\<rparr>) = region w"
  "region (w\<lparr>sequence := q\<rparr>) = region w" "region (w\<lparr>appends_since_checkpoint := n\<rparr>) = region w"
  "region (w\<lparr>checkpoint_head := n\<rparr>) = region w" "region (w\<lparr>checkpoint_sequence := q\<rparr>) = region w"
  by (simp_all add: region_def)

lemma fits_update [simp]:
  "fits (w\<lparr>write_head := a\<rparr>) = fits w" "fits (w\<lparr>pending_bytes := n\<rparr>) = fits w"
  "fits (w\<lparr>sequence := q\<rparr>) = fits w" "fits (w\<lparr>appends_since_checkpoint := n\<rparr>) = fits w"
  "fits (w\<lparr>checkpoint_head := n\<rparr>) = fits w" "fits (w\<lparr>checkpoint_sequence := q\<rparr>) = fits w"
  by (simp_all add: fits_def)

lemma put_slice_at_end: "i = length A \<Longrightarrow> put_slice (A @ B) i xs = A @ xs @ drop (length xs) B"
  by (simp add: put_slice_def)

lemma seek_and_write_region:
  assumes "fits w" "\<not> read_only w" "p + length xs \<le> region_size w" "p < region_size w"
  shows "seek_and_write w p xs = Inr (set_region w (put_slice (region w) p xs))"
proof -
  have f: "wfile w = take (region_offset w) (wfile w) @ region w @
      drop (region_offset w + region_size w) (wfile w)" by (rule file_split) (rule assms)
  have "write_at (wfile w) (region_offset w + p) xs = take (region_offset w) (wfile w) @
      put_slice (region w) p xs @ drop (region_offset w + region_size w) (wfile w)"
    using assms by (subst f, subst write_at_region) (simp_all add: fits_def)
  then show ?thesis
    using assms by (simp add: seek_and_write_def assert_writable_def set_region_def Let_def)
qed

lemma write_record_region:
  assumes "fits w" "\<not> read_only w" "hash_ok hash" "length p \<le> U32_MAX"
    "pos + ENTRY_HEADER_SIZE + length p \<le> region_size w"
  shows "write_record hash w pos sq p =
    Inr (set_region w (put_slice (region w) pos (record_bytes hash sq p)))"
proof -
  have lh: "length (hash p) = 32" using assms(3) by (simp add: hash_ok_def)
  have e: "put_slice (put_slice (put_slice (replicate 48 0) 0 (to_le 8 sq)) 8
      (to_le 4 (of_nat (length p) :: u32))) 16 (hash p) @ p = record_bytes hash sq p"
    using lh by (simp add: buf_simps record_bytes_def)
  have "seek_and_write w pos (record_bytes hash sq p) =
      Inr (set_region w (put_slice (region w) pos (record_bytes hash sq p)))"
    using assms by (intro seek_and_write_region) (simp_all add: ENTRY_HEADER_SIZE_def)
  then show ?thesis
    using assms e by (simp add: write_record_def assert_writable_def ENTRY_HEADER_SIZE_def Let_def)
qed

lemma sentinel_room:
  assumes "fits w" "\<not> read_only w" "write_head w + ENTRY_HEADER_SIZE \<le> region_size w"
    "pending_bytes w < region_size w"
  shows "maybe_write_sentinel w =
    Inr (set_region w (put_slice (region w) (write_head w) (replicate ENTRY_HEADER_SIZE 0)))"
proof -
  have lt: "write_head w < region_size w" using assms(3) by (simp add: ENTRY_HEADER_SIZE_def)
  have "seek_and_write w (write_head w) (replicate ENTRY_HEADER_SIZE 0) =
      Inr (set_region w (put_slice (region w) (write_head w) (replicate ENTRY_HEADER_SIZE 0)))"
    using assms lt by (intro seek_and_write_region) simp_all
  moreover have "\<not> region_size w - write_head w < ENTRY_HEADER_SIZE" using assms(3) by simp
  ultimately have "write_zero_header w (write_head w) = Inr (set_region w (put_slice (region w)
      (write_head w) (replicate ENTRY_HEADER_SIZE 0)), write_head w)"
    using assms lt by (simp add: write_zero_header_def assert_writable_def Let_def)
  then show ?thesis
    using assms lt by (simp add: maybe_write_sentinel_def set_region_def)
qed

text \<open>Without room for a record header behind the write head the sentinel goes to the start of
  the region, over whatever record is there.\<close>

lemma sentinel_no_room:
  assumes "fits w" "\<not> read_only w" "ENTRY_HEADER_SIZE \<le> region_size w"
    "write_head w = 0 \<or> (write_head w < region_size w \<and>
       region_size w < write_head w + ENTRY_HEADER_SIZE)"
    "pending_bytes w < region_size w"
  shows "\<exists>w' Z. maybe_write_sentinel w = Inr w' \<and> fits w' \<and> write_head w' = 0 \<and>
    region w' = replicate ENTRY_HEADER_SIZE 0 @ Z \<and> region_offset w' = region_offset w \<and>
    region_size w' = region_size w \<and> sequence w' = sequence w \<and>
    pending_bytes w' = pending_bytes w \<and> checkpoint_sequence w' = checkpoint_sequence w \<and>
    read_only w' = read_only w"
proof (cases "write_head w = 0")
  case True
  then show ?thesis using assms sentinel_room [of w]
    by (auto simp: put_slice_def)
next
  case False
  let ?h = "write_head w" and ?r = "region_size w - write_head w"
  have pos: "0 < region_size w" using assms(3) by (simp add: ENTRY_HEADER_SIZE_def)
  define w1 where "w1 = set_region w (put_slice (region w) ?h (replicate ?r 0))"
  have s1: "seek_and_write w ?h (replicate ?r 0) = Inr w1"
    unfolding w1_def using assms False by (intro seek_and_write_region) simp_all
  have w1: "fits w1" "\<not> read_only w1" "region_size w1 = region_size w"
    using assms False by (simp_all add: w1_def)
  have s2: "seek_and_write w1 0 (replicate ENTRY_HEADER_SIZE 0) =
      Inr (set_region w1 (put_slice (region w1) 0 (replicate ENTRY_HEADER_SIZE 0)))"
    using assms w1 pos by (intro seek_and_write_region) simp_all
  have "?r < ENTRY_HEADER_SIZE" "0 < ?r" using False assms(4) by auto
  then have "maybe_write_sentinel w = Inr ((set_region w1 (put_slice (region w1) 0
      (replicate ENTRY_HEADER_SIZE 0)))\<lparr>write_head := 0\<rparr>)"
    using assms False pos s1 s2
    by (simp add: maybe_write_sentinel_def write_zero_header_def assert_writable_def Let_def)
  moreover have "put_slice (region w1) 0 (replicate ENTRY_HEADER_SIZE 0) =
      replicate ENTRY_HEADER_SIZE 0 @ drop ENTRY_HEADER_SIZE (region w1)"
    by (simp add: put_slice_def)
  ultimately show ?thesis using w1 assms(3) by (auto simp: w1_def)
qed

section \<open>The invariant\<close>

text \<open>\<open>wal_inv hash w rs\<close>: the region holds exactly the records \<open>rs\<close> and a sentinel behind
  them, and the write head is at the sentinel.\<close>

definition wal_inv :: "(bytes \<Rightarrow> bytes) \<Rightarrow> wal \<Rightarrow> scanned_record list \<Rightarrow> bool" where
  "wal_inv hash w rs \<longleftrightarrow> fits w \<and> \<not> read_only w \<and> list_all rec_ok rs \<and>
     (\<exists>Z. region w = recs_enc hash rs @ replicate ENTRY_HEADER_SIZE 0 @ Z) \<and>
     write_head w = length (recs_enc hash rs) \<and> pending_bytes w \<le> write_head w"

lemma wal_inv_room: "wal_inv hash w rs \<Longrightarrow> write_head w + ENTRY_HEADER_SIZE \<le> region_size w"
  by (auto simp: wal_inv_def dest: length_region)

lemma scan_region:
  "fits w \<Longrightarrow> scan_records hash (wfile w) (region_offset w) (region_size w) =
     scan_from hash (region w) 0 (length (region w)) 0"
  using scan_from_region [of "take (region_offset w) (wfile w)" "region_offset w" hash "region w"
      "drop (region_offset w + region_size w) (wfile w)" 0]
  by (simp add: scan_records_def file_split [symmetric]) (simp add: fits_def)

lemma scan_inv:
  assumes "hash_ok hash" "wal_inv hash w rs"
  shows "scan_records hash (wfile w) (region_offset w) (region_size w) = Inr (rs, write_head w)"
proof -
  from assms(2) obtain Z where Z: "region w = [] @ recs_enc hash rs @ (replicate ENTRY_HEADER_SIZE 0 @ Z)"
    and w: "fits w" "list_all rec_ok rs" "write_head w = length (recs_enc hash rs)"
    by (auto simp: wal_inv_def)
  have Z': "region w = recs_enc hash rs @ replicate ENTRY_HEADER_SIZE 0 @ Z" using Z by simp
  show ?thesis
    using scan_recs [OF assms(1) w(2) Z] scan_stop [OF Z'] w by (simp add: scan_region)
qed

lemma scan_zero_head:
  "fits w \<Longrightarrow> region w = replicate ENTRY_HEADER_SIZE 0 @ Z \<Longrightarrow>
     scan_records hash (wfile w) (region_offset w) (region_size w) = Inr ([], 0)"
  using scan_stop [of "region w" "[]" Z] by (simp add: scan_region)


section \<open>Appending\<close>

definition entry_size :: "bytes \<Rightarrow> nat" where
  "entry_size p = ENTRY_HEADER_SIZE + length p"

definition new_record :: "wal \<Rightarrow> bytes \<Rightarrow> scanned_record" where
  "new_record w p = \<lparr>sc_sequence = sequence w + 1, sc_payload = p, sc_total_size = entry_size p\<rparr>"

definition wraps :: "wal \<Rightarrow> bytes \<Rightarrow> bool" where
  "wraps w p \<longleftrightarrow> region_size w < write_head w + entry_size p"

text \<open>The record and its bookkeeping, before the sentinel is written.\<close>

definition written :: "(bytes \<Rightarrow> bytes) \<Rightarrow> wal \<Rightarrow> bytes \<Rightarrow> wal" where
  "written hash w p =
     (let h = (if wraps w p then 0 else write_head w) in
      (set_region w (put_slice (region w) h (record_bytes hash (sequence w + 1) p)))
        \<lparr>write_head := (h + entry_size p) mod region_size w,
         pending_bytes := pending_bytes w + entry_size p, sequence := sequence w + 1,
         appends_since_checkpoint := min U64_MAX (appends_since_checkpoint w + 1)\<rparr>)"

lemma append_written:
  assumes "fits w" "\<not> read_only w" "hash_ok hash" "length p \<le> U32_MAX"
    "pending_bytes w + entry_size p \<le> region_size w" "wraps w p \<longrightarrow> pending_bytes w = 0"
  shows "append_entry hash w p =
    (case maybe_write_sentinel (written hash w p) of Inl e \<Rightarrow> Inl e | Inr w' \<Rightarrow> Inr (w', sequence w'))"
proof -
  define h where "h = (if wraps w p then 0 else write_head w)"
  define w0 where "w0 = (if wraps w p then w\<lparr>write_head := 0\<rparr> else w)"
  have w0: "fits w0" "\<not> read_only w0" "write_head w0 = h" "sequence w0 = sequence w"
    "region_size w0 = region_size w" "pending_bytes w0 = pending_bytes w" "region w0 = region w"
    "appends_since_checkpoint w0 = appends_since_checkpoint w"
    using assms by (simp_all add: w0_def h_def)
  have room: "h + ENTRY_HEADER_SIZE + length p \<le> region_size w0"
    using assms(5) by (auto simp: h_def wraps_def entry_size_def w0)
  have wr: "write_record hash w0 (write_head w0) (sequence w0 + 1) p =
      Inr (set_region w0 (put_slice (region w0) h (record_bytes hash (sequence w0 + 1) p)))"
    unfolding w0(3) by (rule write_record_region) (use w0 assms room in simp_all)
  have "append_entry hash w p =
    (case write_record hash w0 (write_head w0) (sequence w0 + 1) p of
       Inl e \<Rightarrow> Inl e
     | Inr w1 \<Rightarrow> (case maybe_write_sentinel (w1\<lparr>write_head := (write_head w1 + entry_size p) mod region_size w1,
          pending_bytes := pending_bytes w1 + entry_size p, sequence := sequence w1 + 1,
          appends_since_checkpoint := min U64_MAX (appends_since_checkpoint w1 + 1)\<rparr>) of
          Inl e \<Rightarrow> Inl e | Inr w3 \<Rightarrow> Inr (w3, sequence w3)))"
    using assms unfolding append_entry_def assert_writable_def entry_size_def wraps_def w0_def
      Let_def by auto
  also have "\<dots> = (case maybe_write_sentinel (written hash w p) of
      Inl e \<Rightarrow> Inl e | Inr w' \<Rightarrow> Inr (w', sequence w'))"
    unfolding wr by (simp add: written_def Let_def h_def w0_def set_region_def region_def)
  finally show ?thesis .
qed

lemma written_fields:
  assumes "fits w" "hash_ok hash" "pending_bytes w + entry_size p \<le> region_size w"
  shows "fits (written hash w p)" "read_only (written hash w p) = read_only w"
    "region_size (written hash w p) = region_size w"
    "region_offset (written hash w p) = region_offset w"
    "sequence (written hash w p) = sequence w + 1"
    "checkpoint_sequence (written hash w p) = checkpoint_sequence w"
    "pending_bytes (written hash w p) = pending_bytes w + entry_size p"
    "write_head (written hash w p) =
      ((if wraps w p then 0 else write_head w) + entry_size p) mod region_size w"
    "region (written hash w p) = put_slice (region w) (if wraps w p then 0 else write_head w)
      (record_bytes hash (sequence w + 1) p)"
  using assms by (auto simp: written_def Let_def wraps_def entry_size_def not_less)

definition wal_room :: "wal \<Rightarrow> bytes \<Rightarrow> bool" where
  "wal_room w p \<longleftrightarrow> p \<noteq> [] \<and> length p \<le> U32_MAX \<and>
     write_head w + entry_size p + ENTRY_HEADER_SIZE \<le> region_size w"

lemma new_record_ok: "p \<noteq> [] \<Longrightarrow> length p \<le> U32_MAX \<Longrightarrow> rec_ok (new_record w p)"
  by (simp add: rec_ok_def new_record_def entry_size_def)

lemma rec_enc_new: "rec_enc hash (new_record w p) = record_bytes hash (sequence w + 1) p"
  by (simp add: rec_enc_def new_record_def)

text \<open>Space behind the write head, sentinel included: the log grows by the record.\<close>

lemma append_room:
  assumes h: "hash_ok hash" and inv: "wal_inv hash w rs" and r: "wal_room w p"
  shows "\<exists>w'. append_entry hash w p = Inr (w', sequence w + 1) \<and>
    wal_inv hash w' (rs @ [new_record w p]) \<and> sequence w' = sequence w + 1 \<and>
    pending_bytes w' = pending_bytes w + entry_size p \<and>
    checkpoint_sequence w' = checkpoint_sequence w \<and>
    region_size w' = region_size w \<and> region_offset w' = region_offset w \<and>
    write_head w' = write_head w + entry_size p"
proof -
  let ?e = "entry_size p" and ?rb = "record_bytes hash (sequence w + 1) p"
  obtain Z where w: "fits w" "\<not> read_only w" "list_all rec_ok rs"
      "region w = recs_enc hash rs @ replicate ENTRY_HEADER_SIZE 0 @ Z"
      "write_head w = length (recs_enc hash rs)" "pending_bytes w \<le> write_head w"
    using inv by (auto simp: wal_inv_def)
  have p: "p \<noteq> []" "length p \<le> U32_MAX" "write_head w + ?e + ENTRY_HEADER_SIZE \<le> region_size w"
    using r by (simp_all add: wal_room_def)
  have nw: "\<not> wraps w p" and pend: "pending_bytes w + ?e < region_size w"
    using p(3) w(6) by (simp_all add: wraps_def ENTRY_HEADER_SIZE_def)
  let ?W = "written hash w p"
  note wf = written_fields [OF w(1) h less_imp_le [OF pend]]
  have wh: "write_head ?W = write_head w + ?e"
    using wf(8) nw p(3) by (simp add: ENTRY_HEADER_SIZE_def)
  have lrb: "length ?rb = ?e" using h by (simp add: entry_size_def)
  obtain B where rg: "region ?W = (recs_enc hash rs @ ?rb) @ B"
    using wf(9) nw w(4,5) by (auto simp: put_slice_at_end)
  have s: "maybe_write_sentinel ?W =
      Inr (set_region ?W (put_slice (region ?W) (write_head ?W) (replicate ENTRY_HEADER_SIZE 0)))"
    using wf(1-3,7) w(2) pend wh p(3) by (intro sentinel_room) simp_all
  define w' where "w' = set_region ?W
      (put_slice (region ?W) (write_head ?W) (replicate ENTRY_HEADER_SIZE 0))"
  have fw: "fits w'" "region w' =
      put_slice (region ?W) (write_head ?W) (replicate ENTRY_HEADER_SIZE 0)"
    using wf(1,3) wh p(3) by (simp_all add: w'_def)
  have "region w' = (recs_enc hash rs @ ?rb) @ replicate ENTRY_HEADER_SIZE 0 @
      drop ENTRY_HEADER_SIZE B"
    unfolding fw(2) rg using wh w(5) lrb by (simp only: put_slice_at_end length_append) simp
  then have "\<exists>Z. region w' = recs_enc hash (rs @ [new_record w p]) @
      replicate ENTRY_HEADER_SIZE 0 @ Z"
    by (auto simp: rec_enc_new)
  moreover have "write_head w' = length (recs_enc hash (rs @ [new_record w p]))"
    using wh w(5) lrb by (simp add: w'_def rec_enc_new)
  ultimately have "wal_inv hash w' (rs @ [new_record w p])"
    using fw(1) wf(1-7) w(2,3,6) wh new_record_ok [OF p(1,2)]
    by (simp add: wal_inv_def) (simp add: w'_def)
  moreover have "append_entry hash w p = Inr (w', sequence w + 1)"
    using append_written [OF w(1,2) h p(2) less_imp_le [OF pend]] nw s wf(5)
    by (simp add: w'_def)
  ultimately show ?thesis using wf(1-7) wh by (auto simp: w'_def)
qed

text \<open>Everything committed and no room at the end: the log restarts at the region's start.\<close>

lemma append_wrap:
  assumes h: "hash_ok hash" and inv: "wal_inv hash w rs" and pz: "pending_bytes w = 0"
    and wr: "wraps w p" and p: "p \<noteq> []" "length p \<le> U32_MAX"
    and sz: "entry_size p + ENTRY_HEADER_SIZE \<le> region_size w"
  shows "\<exists>w'. append_entry hash w p = Inr (w', sequence w + 1) \<and>
    wal_inv hash w' [new_record w p]"
proof -
  let ?e = "entry_size p" and ?rb = "record_bytes hash (sequence w + 1) p"
  have w: "fits w" "\<not> read_only w" using inv by (simp_all add: wal_inv_def)
  have le: "pending_bytes w + ?e \<le> region_size w" using pz sz by simp
  let ?W = "written hash w p"
  note wf = written_fields [OF w(1) h le]
  have e: "?e < region_size w" using sz by (simp add: ENTRY_HEADER_SIZE_def)
  then have wh: "write_head ?W = ?e" using wf(8) wr by simp
  have lrb: "length ?rb = ?e" using h by (simp add: entry_size_def)
  obtain B where rg: "region ?W = ?rb @ B"
    using wf(9) wr by (auto simp: put_slice_def)
  define w' where "w' = set_region ?W
      (put_slice (region ?W) (write_head ?W) (replicate ENTRY_HEADER_SIZE 0))"
  have s: "maybe_write_sentinel ?W = Inr w'"
    unfolding w'_def using wf(1-3,7) w(2) pz e wh sz by (intro sentinel_room) simp_all
  have fw: "fits w'" "region w' =
      put_slice (region ?W) (write_head ?W) (replicate ENTRY_HEADER_SIZE 0)"
    using wf(1,3) wh sz by (simp_all add: w'_def)
  have "region w' = ?rb @ replicate ENTRY_HEADER_SIZE 0 @ drop ENTRY_HEADER_SIZE B"
    unfolding fw(2) rg using wh lrb by (simp add: put_slice_at_end)
  then have "\<exists>Z. region w' = recs_enc hash [new_record w p] @ replicate ENTRY_HEADER_SIZE 0 @ Z"
    by (auto simp: rec_enc_new)
  moreover have "write_head w' = length (recs_enc hash [new_record w p])"
    using wh lrb by (simp add: w'_def rec_enc_new)
  ultimately have "wal_inv hash w' [new_record w p]"
    using fw(1) wf(1-7) w(2) wh pz new_record_ok [OF p] by (simp add: wal_inv_def) (simp add: w'_def)
  then show ?thesis
    using append_written [OF w h p(2) le] pz s wf(5) by (simp add: w'_def)
qed

text \<open>The record fits but no record header fits behind it: the sentinel overwrites the first
  record and the whole log becomes unreadable.\<close>

lemma append_loses:
  assumes h: "hash_ok hash" and inv: "wal_inv hash w rs" and p: "length p \<le> U32_MAX"
    and fit: "write_head w + entry_size p \<le> region_size w"
    and tight: "region_size w < write_head w + entry_size p + ENTRY_HEADER_SIZE"
    and pend: "pending_bytes w + entry_size p < region_size w"
  shows "\<exists>w'. append_entry hash w p = Inr (w', sequence w + 1) \<and>
    scan_records hash (wfile w') (region_offset w') (region_size w') = Inr ([], 0)"
proof -
  have w: "fits w" "\<not> read_only w" using inv by (simp_all add: wal_inv_def)
  let ?W = "written hash w p"
  note wf = written_fields [OF w(1) h less_imp_le [OF pend]]
  have nw: "\<not> wraps w p" using fit by (simp add: wraps_def)
  have big: "ENTRY_HEADER_SIZE \<le> region_size w" using wal_inv_room [OF inv] by simp
  then have "write_head ?W = 0 \<or> (write_head ?W < region_size ?W \<and>
      region_size ?W < write_head ?W + ENTRY_HEADER_SIZE)"
    using wf(3,8) nw fit tight by (cases "write_head w + entry_size p = region_size w") simp_all
  then obtain w' Z where s: "maybe_write_sentinel ?W = Inr w'" "fits w'" "sequence w' = sequence ?W"
      "region w' = replicate ENTRY_HEADER_SIZE 0 @ Z"
    using sentinel_no_room [of ?W] wf(1-7) w(2) big pend by auto
  then show ?thesis
    using append_written [OF w h p less_imp_le [OF pend]] nw wf(5) scan_zero_head [OF s(2,4)]
    by simp
qed


section \<open>Reading back and reopening\<close>

lemma pending_of_le: "pending_of cs rs \<le> sum_list (map sc_total_size rs)"
  unfolding pending_of_def by (induction rs) auto

lemma sentinel_idle:
  assumes "hash_ok hash" "wal_inv hash w rs"
  shows "maybe_write_sentinel w = Inr w"
proof -
  obtain Z where w: "fits w" "\<not> read_only w" "pending_bytes w \<le> write_head w"
      "region w = recs_enc hash rs @ replicate ENTRY_HEADER_SIZE 0 @ Z"
      "write_head w = length (recs_enc hash rs)"
    using assms(2) by (auto simp: wal_inv_def)
  have le: "write_head w + ENTRY_HEADER_SIZE \<le> region_size w" by (rule wal_inv_room [OF assms(2)])
  then have "pending_bytes w < region_size w" using w(3) by (simp add: ENTRY_HEADER_SIZE_def)
  then have "maybe_write_sentinel w = Inr (set_region w
      (put_slice (region w) (write_head w) (replicate ENTRY_HEADER_SIZE 0)))"
    using w le by (intro sentinel_room)
  also have "put_slice (region w) (write_head w) (replicate ENTRY_HEADER_SIZE 0) = region w"
    unfolding w(4,5) by (simp add: put_slice_at_end)
  also have "set_region w (region w) = w"
    by (simp add: set_region_def file_split [OF w(1), symmetric])
  finally show ?thesis .
qed

lemma wal_inv_reset:
  assumes "hash_ok hash" "wal_inv hash w rs"
  shows "wal_inv hash (w\<lparr>sequence := q, pending_bytes := pending_of cs rs,
    write_head := write_head w mod region_size w\<rparr>) rs"
    "write_head w mod region_size w = write_head w"
proof -
  have "write_head w < region_size w"
    using wal_inv_room [OF assms(2)] by (simp add: ENTRY_HEADER_SIZE_def)
  moreover have "pending_of cs rs \<le> write_head w"
    using pending_of_le length_recs_enc [OF assms(1)] assms(2) by (simp add: wal_inv_def)
  ultimately show "wal_inv hash (w\<lparr>sequence := q, pending_bytes := pending_of cs rs,
      write_head := write_head w mod region_size w\<rparr>) rs"
    "write_head w mod region_size w = write_head w"
    using assms(2) by (simp_all add: wal_inv_def)
qed

lemma records_after_inv:
  assumes "hash_ok hash" "wal_inv hash w rs"
  shows "\<exists>w'. records_after hash w sq =
      Inr (w', map to_record (filter (\<lambda>e. sq < sc_sequence e) rs)) \<and>
    wal_inv hash w' rs \<and> wfile w' = wfile w \<and> write_head w' = write_head w"
proof -
  define w1 where "w1 = w\<lparr>sequence := (if rs = [] then sequence w else sc_sequence (last rs)),
    pending_bytes := pending_of (checkpoint_sequence w) rs,
    write_head := write_head w mod region_size w\<rparr>"
  note r = wal_inv_reset [OF assms]
  have inv: "wal_inv hash w1 rs" unfolding w1_def by (rule r)
  then have "\<not> read_only w1" by (simp add: wal_inv_def)
  then show ?thesis
    using scan_inv [OF assms] sentinel_idle [OF assms(1) inv] inv r(2)
    by (simp add: records_after_def w1_def Let_def)
qed

lemma open_inv:
  assumes "hash_ok hash" "wal_inv hash w rs"
    and h: "unat (wal_offset h) = region_offset w" "unat (wal_size h) = region_size w"
  shows "\<exists>w'. wal_open hash (wfile w) h = Inr w' \<and> wal_inv hash w' rs \<and> wfile w' = wfile w \<and>
    write_head w' = write_head w \<and> checkpoint_sequence w' = wal_sequence h \<and>
    region_offset w' = region_offset w \<and> region_size w' = region_size w \<and>
    pending_bytes w' = pending_of (wal_sequence h) rs \<and>
    sequence w' = (if rs = [] then wal_sequence h else sc_sequence (last rs))"
proof -
  define w1 where "w1 = \<lparr>wfile = wfile w, region_offset = region_offset w,
      region_size = region_size w, write_head = write_head w mod region_size w,
      checkpoint_head = unat (wal_checkpoint_pos h) mod region_size w,
      pending_bytes = pending_of (wal_sequence h) rs,
      sequence = (if rs = [] then wal_sequence h else sc_sequence (last rs)),
      checkpoint_sequence = wal_sequence h, appends_since_checkpoint = 0,
      read_only = False, skip_sync = False\<rparr>"
  note r = wal_inv_reset(1) [OF assms(1,2), where q = "sequence w1" and cs = "wal_sequence h"]
    wal_inv_reset(2) [OF assms(1,2)]
  have inv: "wal_inv hash w1 rs"
    using r(1) by (simp add: wal_inv_def w1_def fits_def region_def)
  have nz: "wal_size h \<noteq> 0"
    using h(2) wal_inv_room [OF assms(2)] by (auto simp: ENTRY_HEADER_SIZE_def)
  have "wal_open hash (wfile w) h = maybe_write_sentinel w1"
    using nz scan_inv [OF assms(1,2)] h
    by (simp add: wal_open_def open_internal_def Let_def w1_def)
  then have "wal_open hash (wfile w) h = Inr w1" using sentinel_idle [OF assms(1) inv] by simp
  then show ?thesis using inv r(2) by (simp add: w1_def)
qed

text \<open>A region of zeros opens as an empty log.\<close>

lemma open_fresh:
  assumes "hash_ok hash" "ENTRY_HEADER_SIZE \<le> unat (wal_size h)"
    and f: "f = pre @ replicate (unat (wal_size h)) 0 @ post" "length pre = unat (wal_offset h)"
  shows "\<exists>w. wal_open hash f h = Inr w \<and> wal_inv hash w [] \<and> wfile w = f \<and>
    region_size w = unat (wal_size h) \<and> region_offset w = unat (wal_offset h)"
proof -
  define w where "w = \<lparr>wfile = f, region_offset = unat (wal_offset h),
      region_size = unat (wal_size h), write_head = 0, checkpoint_head = 0,
      pending_bytes = 0, sequence = 0, checkpoint_sequence = 0, appends_since_checkpoint = 0,
      read_only = False, skip_sync = False\<rparr>"
  have "region w = replicate (unat (wal_size h)) 0"
    using f by (simp add: region_def w_def buf_simps)
  also have "\<dots> = replicate ENTRY_HEADER_SIZE 0 @ replicate (unat (wal_size h) - ENTRY_HEADER_SIZE) 0"
    using le_add_diff_inverse [OF assms(2)] by (metis replicate_add)
  finally have rg: "region w = recs_enc hash [] @ replicate ENTRY_HEADER_SIZE 0 @
      replicate (unat (wal_size h) - ENTRY_HEADER_SIZE) 0" by simp
  have "fits w" unfolding fits_def w_def f(1) by (simp add: f(2))
  then have "wal_inv hash w []"
    unfolding wal_inv_def using rg by (intro conjI exI) (simp_all add: w_def)
  from open_inv [OF assms(1) this, of h] show ?thesis
    unfolding w_def wal.select_convs by blast
qed

text \<open>The log as an \<open>append_log\<close>: \<open>located\<close> fixes where the region lies.\<close>

definition located :: "(bytes \<Rightarrow> bytes) \<Rightarrow> nat \<Rightarrow> nat \<Rightarrow> wal \<Rightarrow> bool" where
  "located hash off sz w \<longleftrightarrow> hash_ok hash \<and> region_offset w = off \<and> region_size w = sz \<and>
     (\<exists>rs. wal_inv hash w rs)"

definition append_state :: "(bytes \<Rightarrow> bytes) \<Rightarrow> wal \<Rightarrow> bytes \<Rightarrow> wal res" where
  "append_state hash w p = map_sum id fst (append_entry hash w p)"

definition log_records :: "(bytes \<Rightarrow> bytes) \<Rightarrow> wal \<Rightarrow> scanned_record list res" where
  "log_records hash w =
     map_sum id fst (scan_records hash (wfile w) (region_offset w) (region_size w))"

lemma log_records_inv: "hash_ok hash \<Longrightarrow> wal_inv hash w rs \<Longrightarrow> log_records hash w = Inr rs"
  by (simp add: log_records_def scan_inv)

interpretation wal_log: append_log
  "located hash off sz" wal_room "append_state hash" "log_records hash" sc_payload
  for hash off sz
proof (unfold_locales, goal_cases)
  case (1 w p)
  then obtain rs where "hash_ok hash" "wal_inv hash w rs" by (auto simp: located_def)
  from append_room [OF this 1(2)] 1(1) show ?case
    by (auto simp: located_def append_state_def)
next
  case (2 w)
  then show ?case by (auto simp: located_def log_records_inv)
next
  case (3 w p w' rs)
  then obtain rs0 where i: "hash_ok hash" "wal_inv hash w rs0" by (auto simp: located_def)
  from append_room [OF i 3(2)] obtain w1 where
    "append_entry hash w p = Inr (w1, sequence w + 1)" "wal_inv hash w1 (rs0 @ [new_record w p])"
    by blast
  with 3(3,4) i show ?case
    by (simp add: append_state_def log_records_inv new_record_def)
qed

section \<open>Checkpoints, errors, frame\<close>

lemma checkpoint_inv:
  assumes "hash_ok hash" "wal_inv hash w rs"
  shows "\<exists>w' h'. record_checkpoint w h = Inr (w', h') \<and> wal_inv hash w' rs \<and>
    pending_bytes w' = 0 \<and> checkpoint_sequence w' = sequence w \<and> sequence w' = sequence w \<and>
    write_head w' = write_head w \<and> region_size w' = region_size w \<and> wfile w' = wfile w \<and>
    wal_sequence h' = sequence w \<and> wal_checkpoint_pos h' = of_nat (write_head w)"
proof -
  define w1 where "w1 = w\<lparr>checkpoint_head := write_head w, pending_bytes := 0,
      appends_since_checkpoint := 0, checkpoint_sequence := sequence w\<rparr>"
  have "wal_inv hash w1 rs" using assms(2) by (simp add: wal_inv_def w1_def)
  from sentinel_idle [OF assms(1) this] this show ?thesis
    using assms(2) by (simp add: record_checkpoint_def assert_writable_def w1_def Let_def wal_inv_def)
qed

definition same_outside :: "wal \<Rightarrow> wal \<Rightarrow> bool" where
  "same_outside w w' \<longleftrightarrow> region_offset w' = region_offset w \<and> region_size w' = region_size w \<and>
     length (wfile w') = length (wfile w) \<and>
     take (region_offset w) (wfile w') = take (region_offset w) (wfile w) \<and>
     drop (region_offset w + region_size w) (wfile w') =
       drop (region_offset w + region_size w) (wfile w)"

lemma same_outside_set_region:
  "fits w \<Longrightarrow> length R = region_size w \<Longrightarrow> same_outside w (set_region w R)"
  by (simp add: same_outside_def set_region_def fits_def)

lemma same_outside_trans: "same_outside w w' \<Longrightarrow> same_outside w' w'' \<Longrightarrow> same_outside w w''"
  by (simp add: same_outside_def)

lemma sentinel_same_outside:
  assumes "fits w" "\<not> read_only w" "ENTRY_HEADER_SIZE \<le> region_size w"
    "write_head w < region_size w" "maybe_write_sentinel w = Inr w'"
  shows "same_outside w w'"
proof (cases "region_size w \<le> pending_bytes w")
  case True
  then show ?thesis using assms by (simp add: maybe_write_sentinel_def same_outside_def)
next
  case False
  let ?h = "write_head w" and ?r = "region_size w - write_head w"
  let ?z = "replicate ENTRY_HEADER_SIZE (0 :: u8)"
  have pos: "0 < region_size w" using assms(4) by simp
  show ?thesis
  proof (cases "?r < ENTRY_HEADER_SIZE")
    case True
    define w1 where "w1 = set_region w (put_slice (region w) ?h (replicate ?r 0))"
    have s1: "seek_and_write w ?h (replicate ?r 0) = Inr w1"
      unfolding w1_def using assms by (intro seek_and_write_region) simp_all
    have w1: "fits w1" "\<not> read_only w1" "region_size w1 = region_size w" "same_outside w w1"
      using assms by (simp_all add: w1_def same_outside_set_region)
    have s2: "seek_and_write w1 0 ?z = Inr (set_region w1 (put_slice (region w1) 0 ?z))"
      using assms w1 pos by (intro seek_and_write_region) simp_all
    have "w' = (set_region w1 (put_slice (region w1) 0 ?z))\<lparr>write_head := 0\<rparr>"
      using assms False True pos s1 s2
      by (simp add: maybe_write_sentinel_def write_zero_header_def assert_writable_def Let_def)
    moreover have "same_outside w1 (set_region w1 (put_slice (region w1) 0 ?z))"
      using w1 assms(3) by (intro same_outside_set_region) simp_all
    ultimately show ?thesis
      using w1(4) by (simp add: same_outside_def)
  next
    case big: False
    then have "maybe_write_sentinel w = Inr (set_region w (put_slice (region w) ?h ?z))"
      using assms False by (intro sentinel_room) simp_all
    then show ?thesis using assms big by (simp add: same_outside_set_region)
  qed
qed

lemma append_ok_guards:
  assumes "append_entry hash w p = Inr r"
  shows "\<not> read_only w" "length p \<le> U32_MAX" "pending_bytes w + entry_size p \<le> region_size w"
    "wraps w p \<longrightarrow> pending_bytes w = 0"
  using assms
  by (auto simp: append_entry_def assert_writable_def Let_def entry_size_def wraps_def
      split: if_splits)

lemma sentinel_total:
  assumes "\<not> read_only w"
  shows "\<exists>w'. maybe_write_sentinel w = Inr w' \<and> sequence w' = sequence w"
  using assms
  by (auto simp: maybe_write_sentinel_def write_zero_header_def seek_and_write_def
      assert_writable_def Let_def)


section \<open>What a scan accepts\<close>

text \<open>\<open>laid_out hash f pos rs\<close>: the bytes of \<open>f\<close> from \<open>pos\<close> on are the records \<open>rs\<close>,
  field by field, each with a matching checksum.\<close>

fun laid_out :: "(bytes \<Rightarrow> bytes) \<Rightarrow> bytes \<Rightarrow> nat \<Rightarrow> scanned_record list \<Rightarrow> bool" where
  "laid_out hash f pos [] = True"
| "laid_out hash f pos (r # rs) =
     (from_le (bslice f pos 8) = sc_sequence r \<and>
      unat (from_le (bslice f (pos + 8) 4) :: u32) = length (sc_payload r) \<and>
      bslice f (pos + 16) 32 = hash (sc_payload r) \<and>
      bslice f (pos + ENTRY_HEADER_SIZE) (length (sc_payload r)) = sc_payload r \<and>
      laid_out hash f (pos + sc_total_size r) rs)"

lemma slice_slice: "i + n \<le> m \<Longrightarrow> bslice (bslice b k m) i n = bslice b (k + i) n"
  by (simp add: bslice_def drop_take min_def add.commute)

lemma u32_le: "unat (x :: u32) \<le> U32_MAX"
proof -
  have "unat x < 2 ^ LENGTH(32)" by (rule unsigned_less)
  then show ?thesis by (simp add: U32_MAX_def)
qed

lemma scan_from_sound:
  "scan_from hash f off sz c = Inr (rs, c') \<Longrightarrow>
     laid_out hash f (off + c) rs \<and> list_all rec_ok rs \<and>
     c' = c + sum_list (map sc_total_size rs) \<and> (c \<le> sz \<longrightarrow> c' \<le> sz)"
proof (induction hash f off sz c arbitrary: rs c' rule: scan_from.induct)
  case (1 hash f off sz c)
  show ?case
  proof (cases "rs = []")
    case True
    with 1(2) show ?thesis
      by (subst (asm) scan_from.simps) (auto simp: Let_def split: if_splits sum.splits)
  next
    case False
    then obtain hd pl rs0 len where
      g: "c + ENTRY_HEADER_SIZE \<le> sz" "read_exact f (off + c) ENTRY_HEADER_SIZE = Inr hd"
      and len: "len = unat (from_le (bslice hd 8 4) :: u32)"
      and nz: "\<not> (from_le (bslice hd 0 8) = (0 :: u64) \<and> len = 0)"
      and fit: "\<not> (len = 0 \<or> sz < c + ENTRY_HEADER_SIZE + len)"
      and pl: "read_exact f (off + c + ENTRY_HEADER_SIZE) len = Inr pl"
      and cs: "\<not> hash pl \<noteq> bslice hd 16 32"
      and rest: "scan_from hash f off sz (c + ENTRY_HEADER_SIZE + len) = Inr (rs0, c')"
      and rs: "rs = \<lparr>sc_sequence = from_le (bslice hd 0 8), sc_payload = pl,
        sc_total_size = ENTRY_HEADER_SIZE + len\<rparr> # rs0"
      using 1(2) by (subst (asm) scan_from.simps)
        (auto simp: Let_def split: if_splits sum.splits prod.splits)
    note ih = 1(1) [OF g refl len refl nz fit pl cs rest]
    have hd: "hd = bslice f (off + c) ENTRY_HEADER_SIZE" and pl': "length pl = len"
        "pl = bslice f (off + c + ENTRY_HEADER_SIZE) len"
      using read_exact_Inr [OF g(2)] read_exact_Inr [OF pl] by blast+
    have "from_le (bslice f (off + c) 8) = (from_le (bslice hd 0 8) :: u64)"
      "unat (from_le (bslice f (off + c + 8) 4) :: u32) = len"
      "bslice f (off + c + 16) 32 = hash pl"
      using cs by (simp_all add: hd len slice_slice ENTRY_HEADER_SIZE_def)
    then show ?thesis
      using ih fit pl' u32_le len
      by (auto simp: rs rec_ok_def add.assoc)
  qed
qed

section \<open>Properties\<close>

definition sample_wal :: "nat \<Rightarrow> wal" where
  "sample_wal n = \<lparr>wfile = replicate n 0, region_offset = 0, region_size = n, write_head = 0,
     checkpoint_head = 0, pending_bytes = 0, sequence = 0, checkpoint_sequence = 0,
     appends_since_checkpoint = 0, read_only = False, skip_sync = False\<rparr>"

lemma sample_wal_inv: "48 \<le> n \<Longrightarrow> wal_inv hash (sample_wal n) []"
  unfolding wal_inv_def
  by (intro conjI exI [of _ "replicate (n - 48) 0"])
    (simp_all add: sample_wal_def fits_def region_def buf_simps ENTRY_HEADER_SIZE_def
      replicate_add [symmetric])

text \<open>C1. Durable append: while a record and a sentinel fit behind the write head, appending
  succeeds, returns the next sequence number, and a scan of the resulting file finds all earlier
  records followed by the new one.\<close>

theorem wal_append_durable:
  assumes "hash_ok hash" "wal_inv hash w rs" "wal_room w p"
  shows "\<exists>w'. append_entry hash w p = Inr (w', sequence w + 1) \<and>
    log_records hash w' = Inr (rs @ [new_record w p]) \<and> wal_inv hash w' (rs @ [new_record w p])"
  using append_room [OF assms] log_records_inv [OF assms(1)] by blast

theorem wal_append_durable_witness:
  "\<exists>w'. append_entry sum_hash (sample_wal 100) [1, 2, 3, 4] = Inr (w', 1) \<and>
    log_records sum_hash w' = Inr [new_record (sample_wal 100) [1, 2, 3, 4]]"
proof -
  have "wal_room (sample_wal 100) [1, 2, 3, 4]"
    by (simp add: wal_room_def sample_wal_def entry_size_def ENTRY_HEADER_SIZE_def U32_MAX_def)
  from wal_append_durable [OF sum_hash_ok sample_wal_inv this] show ?thesis
    by (auto simp: sample_wal_def)
qed

text \<open>C21. Crash recovery: after any run of appends that have room, reopening the file with a
  header that describes the same region finds the old records and then exactly the appended
  payloads, in order, and does not change the file.\<close>

theorem wal_appends_survive_reopen:
  assumes h: "hash_ok hash" and inv: "wal_inv hash w rs"
    and room: "all_room (append_state hash) wal_room w ps"
    and hd: "unat (wal_offset h) = region_offset w" "unat (wal_size h) = region_size w"
  shows "\<exists>w1 w2 rs'. run_appends (append_state hash) w ps = Inr w1 \<and>
    wal_open hash (wfile w1) h = Inr w2 \<and> wfile w2 = wfile w1 \<and>
    log_records hash w2 = Inr (rs @ rs') \<and> map sc_payload rs' = ps"
proof -
  have "located hash (region_offset w) (region_size w) w" using h inv by (auto simp: located_def)
  from wal_log.run_appends_ok [OF this room log_records_inv [OF h inv]]
  obtain w1 rs' where r: "run_appends (append_state hash) w ps = Inr w1"
      "located hash (region_offset w) (region_size w) w1"
      "log_records hash w1 = Inr (rs @ rs')" "map sc_payload rs' = ps" by blast
  then obtain rs1 where i: "wal_inv hash w1 rs1" by (auto simp: located_def)
  then have "rs1 = rs @ rs'" using r(3) log_records_inv [OF h i] by simp
  moreover have "unat (wal_offset h) = region_offset w1" "unat (wal_size h) = region_size w1"
    using r(2) hd by (simp_all add: located_def)
  ultimately show ?thesis
    using open_inv [OF h i, of h] r(1,4) log_records_inv [OF h] by blast
qed

theorem wal_appends_survive_reopen_witness:
  "\<exists>w1 w2 rs'. run_appends (append_state sum_hash) (sample_wal 200) [[1], [2, 3]] = Inr w1 \<and>
    wal_open sum_hash (wfile w1) (sample_header\<lparr>wal_offset := 0, wal_size := 200\<rparr>) = Inr w2 \<and>
    wfile w2 = wfile w1 \<and> log_records sum_hash w2 = Inr ([] @ rs') \<and>
    map sc_payload rs' = [[1], [2, 3]]"
proof (rule wal_appends_survive_reopen [OF sum_hash_ok])
  let ?w = "sample_wal 200"
  show i: "wal_inv sum_hash ?w []" by (rule sample_wal_inv) simp
  have r: "wal_room ?w [1]"
    by (simp add: wal_room_def sample_wal_def entry_size_def ENTRY_HEADER_SIZE_def U32_MAX_def)
  from append_room [OF sum_hash_ok i r] obtain w1 where
    w1: "append_entry sum_hash ?w [1] = Inr (w1, sequence ?w + 1)"
      "wal_inv sum_hash w1 ([] @ [new_record ?w [1]])" "region_size w1 = region_size ?w"
      "write_head w1 = write_head ?w + entry_size [1]" by blast
  have r1: "wal_room w1 [2, 3]"
    using w1(3,4)
    by (simp add: wal_room_def sample_wal_def entry_size_def ENTRY_HEADER_SIZE_def U32_MAX_def)
  show "all_room (append_state sum_hash) wal_room ?w [[1], [2, 3]]"
    using r r1 w1(1) append_room [OF sum_hash_ok w1(2) r1] by (auto simp: append_state_def)
qed (simp_all add: sample_wal_def sample_header_def)

text \<open>Wrap-around: when everything is committed and a record does not fit at the end, the
  append restarts at the beginning of the region and the log then holds exactly the new record.\<close>

theorem wal_wraps_when_committed:
  assumes "hash_ok hash" "wal_inv hash w rs" "pending_bytes w = 0" "wraps w p"
    "p \<noteq> []" "length p \<le> U32_MAX" "entry_size p + ENTRY_HEADER_SIZE \<le> region_size w"
  shows "\<exists>w'. append_entry hash w p = Inr (w', sequence w + 1) \<and>
    log_records hash w' = Inr [new_record w p]"
  using append_wrap [OF assms] log_records_inv [OF assms(1)] by blast

theorem wal_wraps_when_committed_witness:
  "\<exists>w w' p. wraps w p \<and> append_entry sum_hash w p = Inr (w', sequence w + 1) \<and>
    log_records sum_hash w' = Inr [new_record w p]"
proof -
  let ?w = "sample_wal 100" and ?p = "[1, 2, 3, 4]"
  have i: "wal_inv sum_hash ?w []" by (rule sample_wal_inv) simp
  have r: "wal_room ?w ?p"
    by (simp add: wal_room_def sample_wal_def entry_size_def ENTRY_HEADER_SIZE_def U32_MAX_def)
  from append_room [OF sum_hash_ok i r] obtain w1 where
    w1: "wal_inv sum_hash w1 ([] @ [new_record ?w ?p])" "region_size w1 = region_size ?w"
      "write_head w1 = write_head ?w + entry_size ?p" by blast
  from checkpoint_inv [OF sum_hash_ok w1(1), of sample_header] obtain w2 where
    w2: "wal_inv sum_hash w2 ([] @ [new_record ?w ?p])" "pending_bytes w2 = 0"
      "write_head w2 = write_head w1" "region_size w2 = region_size w1" by blast
  have "wraps w2 ?p" "entry_size ?p + ENTRY_HEADER_SIZE \<le> region_size w2"
    using w2(3,4) w1(2,3)
    by (simp_all add: wraps_def sample_wal_def entry_size_def ENTRY_HEADER_SIZE_def)
  with wal_wraps_when_committed [OF sum_hash_ok w2(1,2), of ?p] show ?thesis
    by (auto simp: U32_MAX_def)
qed

text \<open>C25. The gap at the end of the region: a record that fits, but leaves fewer than 48 bytes
  behind it while the region is not completely pending, is acknowledged with its sequence number
  and yet a scan of the file finds no record at all: the sentinel was written over the first
  record.\<close>

theorem wal_tail_gap_loses_log:
  assumes "hash_ok hash" "wal_inv hash w rs" "length p \<le> U32_MAX"
    "write_head w + entry_size p \<le> region_size w"
    "region_size w < write_head w + entry_size p + ENTRY_HEADER_SIZE"
    "pending_bytes w + entry_size p < region_size w"
  shows "\<exists>w'. append_entry hash w p = Inr (w', sequence w + 1) \<and> log_records hash w' = Inr []"
  using append_loses [OF assms] by (auto simp: log_records_def)

theorem wal_tail_gap_loses_log_witness:
  "\<exists>w'. append_entry sum_hash (sample_wal 100) [1, 2, 3, 4, 5, 6, 7, 8, 9, 10] = Inr (w', 0 + 1) \<and>
    log_records sum_hash w' = Inr []"
  using wal_tail_gap_loses_log [OF sum_hash_ok sample_wal_inv, of 100 "[1, 2, 3, 4, 5, 6, 7, 8, 9, 10]"]
  by (simp add: sample_wal_def entry_size_def ENTRY_HEADER_SIZE_def U32_MAX_def)


text \<open>The log stays in its region: a successful append keeps the length of the file and
  every byte outside the region, in all cases (wrap-around and sentinel included).\<close>

theorem wal_append_frame:
  assumes "fits w" "hash_ok hash" "append_entry hash w p = Inr (w', sq)"
  shows "same_outside w w'"
proof -
  note g = append_ok_guards [OF assms(3)]
  let ?W = "written hash w p"
  note wf = written_fields [OF assms(1,2) g(3)]
  have big: "ENTRY_HEADER_SIZE \<le> region_size w" "0 < region_size w"
    using g(3) by (simp_all add: entry_size_def ENTRY_HEADER_SIZE_def)
  have "length (put_slice (region w) (if wraps w p then 0 else write_head w)
      (record_bytes hash (sequence w + 1) p)) = region_size w"
    using g(3) assms(1,2) by (auto simp: wraps_def entry_size_def)
  from same_outside_set_region [OF assms(1) this] have "same_outside w ?W"
    by (simp add: written_def Let_def same_outside_def)
  moreover have "maybe_write_sentinel ?W = Inr w'"
    using append_written [OF assms(1) g(1) assms(2) g(2-4)] assms(3)
    by (auto split: sum.splits)
  then have "same_outside ?W w'"
    using wf(1-3,8) g(1) big by (intro sentinel_same_outside) simp_all
  ultimately show ?thesis by (rule same_outside_trans)
qed

theorem wal_append_frame_witness:
  "\<exists>w'. append_entry sum_hash (sample_wal 100) [1, 2, 3, 4] = Inr (w', 1) \<and>
    same_outside (sample_wal 100) w'"
proof -
  have "fits (sample_wal 100)" by (simp add: fits_def sample_wal_def)
  moreover have "wal_room (sample_wal 100) [1, 2, 3, 4]"
    by (simp add: wal_room_def sample_wal_def entry_size_def ENTRY_HEADER_SIZE_def U32_MAX_def)
  from append_room [OF sum_hash_ok sample_wal_inv this] obtain w' where
    "append_entry sum_hash (sample_wal 100) [1, 2, 3, 4] = Inr (w', 1)"
    by (auto simp: sample_wal_def)
  ultimately show ?thesis using wal_append_frame [OF _ sum_hash_ok] by blast
qed

text \<open>When an append is refused: on a writable log it succeeds exactly if the payload
  length fits 32 bits, the record fits beside the pending bytes, and no wrap-around would
  overwrite pending records; a read-only log refuses every append.\<close>

theorem wal_append_outcome:
  assumes "fits w" "hash_ok hash"
  shows "(\<exists>r. append_entry hash w p = Inr r) \<longleftrightarrow>
    \<not> read_only w \<and> length p \<le> U32_MAX \<and> pending_bytes w + entry_size p \<le> region_size w \<and>
    (wraps w p \<longrightarrow> pending_bytes w = 0)"
proof
  assume "\<exists>r. append_entry hash w p = Inr r"
  then show "\<not> read_only w \<and> length p \<le> U32_MAX \<and>
      pending_bytes w + entry_size p \<le> region_size w \<and> (wraps w p \<longrightarrow> pending_bytes w = 0)"
    using append_ok_guards by blast
next
  assume g: "\<not> read_only w \<and> length p \<le> U32_MAX \<and>
      pending_bytes w + entry_size p \<le> region_size w \<and> (wraps w p \<longrightarrow> pending_bytes w = 0)"
  then have "\<not> read_only (written hash w p)" using written_fields [OF assms] by simp
  then show "\<exists>r. append_entry hash w p = Inr r"
    using append_written [OF assms(1) _ assms(2)] g sentinel_total by fastforce
qed

theorem wal_append_outcome_witness:
  "\<not> (\<exists>r. append_entry sum_hash (sample_wal 100) (replicate 60 1) = Inr r)"
  using wal_append_outcome [of "sample_wal 100" sum_hash "replicate 60 1"] sum_hash_ok
  by (simp add: fits_def sample_wal_def entry_size_def ENTRY_HEADER_SIZE_def)

text \<open>Soundness of recovery: whatever the region holds, the records a scan returns lie in
  the region one behind the other, with non-empty payloads whose checksum on disk matches, and
  the returned head is the end of the last one.\<close>

theorem wal_scan_sound:
  assumes "scan_records hash f off sz = Inr (rs, c)"
  shows "laid_out hash f off rs \<and> list_all rec_ok rs \<and> c = sum_list (map sc_total_size rs) \<and>
    c \<le> sz"
  using scan_from_sound [OF assms [unfolded scan_records_def]] by simp

theorem wal_scan_sound_witness:
  "laid_out sum_hash (wfile (sample_wal 100)) 0 [] \<and> (0 :: nat) \<le> 100"
  using wal_scan_sound [of sum_hash "wfile (sample_wal 100)" 0 100 "[]" 0]
    scan_inv [OF sum_hash_ok sample_wal_inv [of 100]] by (simp add: sample_wal_def)

text \<open>Pending records: reading the log returns exactly the records with a sequence number
  above the given one, in order, and leaves file, write head and records as they were.\<close>

theorem wal_records_after_exact:
  assumes "hash_ok hash" "wal_inv hash w rs"
  shows "\<exists>w'. records_after hash w sq =
      Inr (w', map to_record (filter (\<lambda>e. sq < sc_sequence e) rs)) \<and>
    wal_inv hash w' rs \<and> wfile w' = wfile w \<and> write_head w' = write_head w"
  using records_after_inv [OF assms] .

theorem wal_records_after_exact_witness:
  "\<exists>w'. records_after sum_hash (sample_wal 100) 0 = Inr (w', []) \<and>
     wfile w' = wfile (sample_wal 100)"
  using wal_records_after_exact [OF sum_hash_ok sample_wal_inv [of 100], of 0] by auto

text \<open>C26. An empty payload is accepted but poisons the log: the append returns its sequence
  number, and from then on every scan of the region fails at the record's offset.\<close>

theorem wal_empty_payload_poisons:
  assumes h: "hash_ok hash" and inv: "wal_inv hash w rs"
    and room: "write_head w + 2 * ENTRY_HEADER_SIZE \<le> region_size w"
    and sq: "sequence w + 1 \<noteq> 0"
  shows "\<exists>w'. append_entry hash w [] = Inr (w', sequence w + 1) \<and>
    log_records hash w' = Inl (WalCorruption (write_head w) ''wal record length invalid'')"
proof -
  let ?rb = "record_bytes hash (sequence w + 1) []"
  obtain Z where w: "fits w" "\<not> read_only w" "list_all rec_ok rs"
      "region w = recs_enc hash rs @ replicate ENTRY_HEADER_SIZE 0 @ Z"
      "write_head w = length (recs_enc hash rs)" "pending_bytes w \<le> write_head w"
    using inv by (auto simp: wal_inv_def)
  have e: "entry_size [] = ENTRY_HEADER_SIZE" by (simp add: entry_size_def)
  have nw: "\<not> wraps w []" and pend: "pending_bytes w + entry_size [] < region_size w"
    using room w(6) by (simp_all add: wraps_def e) (simp add: ENTRY_HEADER_SIZE_def)
  let ?W = "written hash w []"
  note wf = written_fields [OF w(1) h less_imp_le [OF pend]]
  have wh: "write_head ?W = write_head w + ENTRY_HEADER_SIZE"
    using wf(8) nw room e by (simp add: ENTRY_HEADER_SIZE_def)
  obtain w' where s: "maybe_write_sentinel ?W = Inr w'" "w' = set_region ?W
      (put_slice (region ?W) (write_head ?W) (replicate ENTRY_HEADER_SIZE 0))"
    using sentinel_room [of ?W] wf(1-3,7) w(2) pend wh room by simp
  have lrb: "length ?rb = ENTRY_HEADER_SIZE" using h by simp
  obtain B where rg: "region ?W = (recs_enc hash rs @ ?rb) @ B"
    using wf(9) nw w(4,5) by (auto simp: put_slice_at_end)
  have fw: "fits w'" "region w' =
      put_slice (region ?W) (write_head ?W) (replicate ENTRY_HEADER_SIZE 0)"
    using wf(1,3) wh room by (simp_all add: s(2))
  have R: "region w' = recs_enc hash rs @ ?rb @ replicate ENTRY_HEADER_SIZE 0 @
      drop ENTRY_HEADER_SIZE B"
    unfolding fw(2) rg using wh w(5) lrb by (simp only: put_slice_at_end length_append) simp
  let ?c = "write_head w"
  have hd: "read_exact (region w') (0 + ?c) ENTRY_HEADER_SIZE = Inr ?rb"
    "?c + ENTRY_HEADER_SIZE \<le> length (region w')"
    unfolding R w(5) using lrb by (simp_all add: read_exact_def buf_simps)
  have fields: "from_le (bslice ?rb 0 8) = sequence w + 1"
    "unat (from_le (bslice ?rb 8 4) :: u32) = 0"
    by (simp_all add: record_bytes_def buf_simps)
  have "scan_from hash (region w') 0 (length (region w')) ?c =
      Inl (WalCorruption ?c ''wal record length invalid'')"
    unfolding scan_from.simps [of hash "region w'" 0 "length (region w')" ?c]
    using hd(2) sq by (simp only: hd(1) fields sum.case Let_def if_True) simp
  moreover have "scan_from hash (region w') 0 (length (region w')) (length ([] :: bytes)) =
      (case scan_from hash (region w') 0 (length (region w'))
         (length ([] :: bytes) + length (recs_enc hash rs)) of
       Inl e \<Rightarrow> Inl e | Inr (rs', c) \<Rightarrow> Inr (rs @ rs', c))"
    by (rule scan_recs [OF h w(3)]) (simp add: R)
  ultimately have "log_records hash w' = Inl (WalCorruption ?c ''wal record length invalid'')"
    using w(5) fw(1) by (simp add: log_records_def scan_region)
  then show ?thesis
    using append_written [OF w(1,2) h _ less_imp_le [OF pend]] nw s wf(5)
    by (auto simp: U32_MAX_def)
qed

theorem wal_empty_payload_poisons_witness:
  "\<exists>w'. append_entry sum_hash (sample_wal 100) [] = Inr (w', 0 + 1) \<and>
    log_records sum_hash w' = Inl (WalCorruption 0 ''wal record length invalid'')"
  using wal_empty_payload_poisons [OF sum_hash_ok sample_wal_inv, of 100]
  by (simp add: sample_wal_def ENTRY_HEADER_SIZE_def)

end
