(* ===== verification/Manifest_Wal.thy ===== *)
theory Manifest_Wal
  imports Footer
begin

text \<open>
  The manifest WAL (\<open>io/manifest_wal.rs\<close>, struct \<open>ManifestWal\<close>): an append-only file
  \<open>magic 8 | version u32\<close> followed by records \<open>len u32 | BLAKE3 32 | payload\<close>.
  Opening replays the intact records and truncates a torn one.

  The payload encoding (bincode) is a parameter: \<open>enc\<close> and \<open>dec\<close>, where \<open>dec\<close> also
  returns the number of bytes consumed.  \<open>bincode_ok\<close> is what the code relies on.
\<close>

definition FILE_MAGIC :: bytes where "FILE_MAGIC = [77, 86, 83, 71, 87, 65, 76, 49]"
definition FILE_VERSION :: u32 where "FILE_VERSION = 1"
definition FILE_HEADER_SIZE :: nat where "FILE_HEADER_SIZE = length FILE_MAGIC + 4"
definition RECORD_HEADER_SIZE :: nat where "RECORD_HEADER_SIZE = 4 + 32"
definition MAX_RECORD_BYTES :: nat where "MAX_RECORD_BYTES = 4 * 1024 * 1024"

lemma length_FILE_MAGIC [simp]: "length FILE_MAGIC = 8"
  by (simp add: FILE_MAGIC_def)

lemmas mwal_consts = FILE_HEADER_SIZE_def RECORD_HEADER_SIZE_def

definition bincode_ok :: "('a \<Rightarrow> bytes res) \<Rightarrow> (bytes \<Rightarrow> ('a \<times> nat) res) \<Rightarrow> bool" where
  "bincode_ok enc dec \<longleftrightarrow>
     (\<forall>x b. enc x = Inr b \<longrightarrow> b \<noteq> [] \<and> dec b = Inr (x, length b))"

record 'a manifest_wal =
  mfile :: bytes
  entries :: "'a list"
  write_offset :: nat

section \<open>Operations\<close>

definition truncate_at :: "bytes \<Rightarrow> nat \<Rightarrow> bytes" where
  "truncate_at f offset = set_len f offset"

definition ensure_header :: "bytes \<Rightarrow> bytes res" where
  "ensure_header f =
     (if length f < FILE_HEADER_SIZE then
        (let f1 = set_len f 0; f2 = write_at f1 0 FILE_MAGIC;
             f3 = write_at f2 (length FILE_MAGIC) (to_le 4 FILE_VERSION)
         in Inr f3)
      else
        (case read_exact f 0 (length FILE_MAGIC) of Inl e \<Rightarrow> Inl e | Inr magic \<Rightarrow>
         if magic \<noteq> FILE_MAGIC then Inl (InvalidHeader ''manifest wal magic mismatch'')
         else
           (case read_exact f (length FILE_MAGIC) 4 of Inl e \<Rightarrow> Inl e | Inr vb \<Rightarrow>
            if (from_le vb :: u32) \<noteq> FILE_VERSION
            then Inl (InvalidHeader ''manifest wal version mismatch'') else Inr f)))"

text \<open>The replay loop: the file (possibly truncated), the entries, and the end offset.\<close>

function scan_entries_from :: "(bytes \<Rightarrow> ('a \<times> nat) res) \<Rightarrow> (bytes \<Rightarrow> bytes) \<Rightarrow> bytes \<Rightarrow> nat \<Rightarrow>
    nat \<Rightarrow> (bytes \<times> 'a list \<times> nat) res" where
  "scan_entries_from dec hash f file_len offset =
     (if offset < file_len then
        (if file_len - offset < RECORD_HEADER_SIZE then Inr (truncate_at f offset, [], offset)
         else
           (case read_exact f offset RECORD_HEADER_SIZE of
              Inl e \<Rightarrow> Inr (truncate_at f offset, [], offset)
            | Inr header \<Rightarrow>
                (let payload_len = unat (from_le (bslice header 0 4) :: u32);
                     o1 = offset + RECORD_HEADER_SIZE in
                 if payload_len = 0 then
                   Inl (ManifestWalCorrupted offset ''record length is zero'')
                 else if MAX_RECORD_BYTES < payload_len then
                   Inl (ManifestWalCorrupted offset ''record length exceeds limit'')
                 else if file_len < o1 + payload_len then Inr (truncate_at f offset, [], offset)
                 else
                   (case read_exact f o1 payload_len of
                      Inl e \<Rightarrow> Inr (truncate_at f offset, [], offset)
                    | Inr payload \<Rightarrow>
                        (let o2 = o1 + payload_len in
                         if hash payload \<noteq> bslice header 4 32 then
                           Inl (ChecksumMismatch ''manifest_wal'')
                         else
                           (case dec payload of
                              Inl e \<Rightarrow> Inl e
                            | Inr (segment, consumed) \<Rightarrow>
                                if consumed \<noteq> length payload then
                                  Inl (ManifestWalCorrupted (o2 - payload_len)
                                    ''payload contains trailing bytes'')
                                else
                                  (case scan_entries_from dec hash f file_len o2 of
                                     Inl e \<Rightarrow> Inl e
                                   | Inr (f', es, o') \<Rightarrow> Inr (f', segment # es, o'))))))))
      else Inr (f, [], offset))"
  by pat_completeness auto
termination
  by (relation "measure (\<lambda>(dec, hash, f, file_len, offset). file_len - offset)")
    (auto simp: mwal_consts)

declare scan_entries_from.simps [simp del]

definition scan_entries :: "(bytes \<Rightarrow> ('a \<times> nat) res) \<Rightarrow> (bytes \<Rightarrow> bytes) \<Rightarrow> bytes \<Rightarrow>
    (bytes \<times> 'a list \<times> nat) res" where
  "scan_entries dec hash f = scan_entries_from dec hash f (length f) FILE_HEADER_SIZE"

definition bootstrap :: "(bytes \<Rightarrow> ('a \<times> nat) res) \<Rightarrow> (bytes \<Rightarrow> bytes) \<Rightarrow> 'a manifest_wal \<Rightarrow>
    'a manifest_wal res" where
  "bootstrap dec hash w =
     (case ensure_header (mfile w) of Inl e \<Rightarrow> Inl e | Inr f1 \<Rightarrow>
      case scan_entries dec hash f1 of Inl e \<Rightarrow> Inl e | Inr (f2, es, off) \<Rightarrow>
      Inr (w\<lparr>mfile := f2, entries := es, write_offset := off\<rparr>))"

definition mopen :: "(bytes \<Rightarrow> ('a \<times> nat) res) \<Rightarrow> (bytes \<Rightarrow> bytes) \<Rightarrow> bytes \<Rightarrow>
    'a manifest_wal res" where
  "mopen dec hash f =
     bootstrap dec hash \<lparr>mfile = f, entries = [], write_offset = FILE_HEADER_SIZE\<rparr>"

definition append_one :: "('a \<Rightarrow> bytes res) \<Rightarrow> (bytes \<Rightarrow> bytes) \<Rightarrow> 'a manifest_wal \<Rightarrow> 'a \<Rightarrow>
    'a manifest_wal res" where
  "append_one enc hash w segment =
     (case enc segment of Inl e \<Rightarrow> Inl e | Inr payload \<Rightarrow>
      if MAX_RECORD_BYTES < length payload then
        Inl (CheckpointFailed ''manifest wal payload exceeds limit'')
      else
        (let checksum = hash payload; p0 = write_offset w;
             f1 = write_at (mfile w) p0 (to_le 4 (of_nat (length payload) :: u32));
             f2 = write_at f1 (p0 + 4) checksum;
             f3 = write_at f2 (p0 + 4 + length checksum) payload
         in Inr \<lparr>mfile = f3, entries = entries w @ [segment],
              write_offset = write_offset w + (RECORD_HEADER_SIZE + length payload)\<rparr>))"

text \<open>A batch stops at the first error; the records appended before it stay.\<close>

fun append_segments :: "('a \<Rightarrow> bytes res) \<Rightarrow> (bytes \<Rightarrow> bytes) \<Rightarrow> 'a manifest_wal \<Rightarrow> 'a list \<Rightarrow>
    'a manifest_wal \<times> unit res" where
  "append_segments enc hash w [] = (w, Inr ())"
| "append_segments enc hash w (s # ss) =
     (case append_one enc hash w s of
        Inl e \<Rightarrow> (w, Inl e)
      | Inr w' \<Rightarrow> append_segments enc hash w' ss)"

definition replay :: "'a manifest_wal \<Rightarrow> 'a list" where
  "replay w = entries w"

definition truncate_all :: "'a manifest_wal \<Rightarrow> 'a manifest_wal" where
  "truncate_all w = w\<lparr>mfile := truncate_at (mfile w) FILE_HEADER_SIZE, entries := [],
     write_offset := FILE_HEADER_SIZE\<rparr>"

section \<open>Layout\<close>

definition file_header :: bytes where
  "file_header = FILE_MAGIC @ to_le 4 FILE_VERSION"

definition mrec :: "(bytes \<Rightarrow> bytes) \<Rightarrow> bytes \<Rightarrow> bytes" where
  "mrec hash p = to_le 4 (of_nat (length p) :: u32) @ hash p @ p"

definition enc_of :: "('a \<Rightarrow> bytes res) \<Rightarrow> 'a \<Rightarrow> bytes" where
  "enc_of enc x = (case enc x of Inl e \<Rightarrow> [] | Inr b \<Rightarrow> b)"

definition seg_ok :: "('a \<Rightarrow> bytes res) \<Rightarrow> 'a \<Rightarrow> bool" where
  "seg_ok enc x \<longleftrightarrow> (case enc x of Inl e \<Rightarrow> False | Inr b \<Rightarrow> length b \<le> MAX_RECORD_BYTES)"

definition mlayout :: "('a \<Rightarrow> bytes res) \<Rightarrow> (bytes \<Rightarrow> bytes) \<Rightarrow> 'a list \<Rightarrow> bytes" where
  "mlayout enc hash xs = concat (map (\<lambda>x. mrec hash (enc_of enc x)) xs)"

lemma length_file_header: "length file_header = FILE_HEADER_SIZE"
  by (simp add: file_header_def FILE_HEADER_SIZE_def)

lemma length_mrec: "hash_ok hash \<Longrightarrow> length (mrec hash p) = RECORD_HEADER_SIZE + length p"
  by (simp add: mrec_def hash_ok_def mwal_consts)

lemma mlayout_simps [simp]:
  "mlayout enc hash [] = []"
  "mlayout enc hash (x # xs) = mrec hash (enc_of enc x) @ mlayout enc hash xs"
  "mlayout enc hash (xs @ ys) = mlayout enc hash xs @ mlayout enc hash ys"
  by (simp_all add: mlayout_def)

lemma seg_ok_enc:
  "bincode_ok enc dec \<Longrightarrow> seg_ok enc x \<Longrightarrow>
     enc x = Inr (enc_of enc x) \<and> 0 < length (enc_of enc x) \<and>
     length (enc_of enc x) \<le> MAX_RECORD_BYTES \<and>
     dec (enc_of enc x) = Inr (x, length (enc_of enc x))"
  by (auto simp: seg_ok_def enc_of_def bincode_ok_def split: sum.splits)

lemma small_len: "n \<le> MAX_RECORD_BYTES \<Longrightarrow> unat (of_nat n :: u32) = n"
  by (simp add: MAX_RECORD_BYTES_def unat_of_nat take_bit_eq_mod)

text \<open>One intact record is replayed and the loop goes on behind it.\<close>

lemma scan_step:
  assumes h: "hash_ok hash" and b: "bincode_ok enc dec" and s: "seg_ok enc x"
    and f: "f = X @ mrec hash (enc_of enc x) @ Z"
  shows "scan_entries_from dec hash f (length f) (length X) =
    (case scan_entries_from dec hash f (length f) (length (X @ mrec hash (enc_of enc x))) of
       Inl e \<Rightarrow> Inl e | Inr (f', es, o') \<Rightarrow> Inr (f', x # es, o'))"
proof -
  let ?p = "enc_of enc x" and ?c = "length X"
  define hd where "hd = to_le 4 (of_nat (length ?p) :: u32) @ hash ?p"
  have lh: "length (hash ?p) = 32" using h by (simp add: hash_ok_def)
  have lhd: "length hd = RECORD_HEADER_SIZE" using lh by (simp add: hd_def mwal_consts)
  note e = seg_ok_enc [OF b s]
  have f': "f = X @ hd @ ?p @ Z" by (simp add: f mrec_def hd_def)
  have r1: "read_exact f ?c RECORD_HEADER_SIZE = Inr hd"
    and r2: "read_exact f (?c + RECORD_HEADER_SIZE) (length ?p) = Inr ?p"
    unfolding f' using lhd by (simp_all add: read_exact_def buf_simps)
  have fl: "unat (from_le (bslice hd 0 4) :: u32) = length ?p" "bslice hd 4 32 = hash ?p"
    using lh e by (simp_all add: hd_def buf_simps small_len)
  have len: "?c + RECORD_HEADER_SIZE + length ?p \<le> length f" unfolding f' using lhd by simp
  have guards: "?c < length f" "\<not> length f - ?c < RECORD_HEADER_SIZE"
    "length ?p \<noteq> 0" "\<not> MAX_RECORD_BYTES < length ?p"
    "\<not> length f < ?c + RECORD_HEADER_SIZE + length ?p"
    using len e by (simp_all add: mwal_consts)
  have lx: "length (X @ mrec hash ?p) = ?c + RECORD_HEADER_SIZE + length ?p"
    using h by (simp add: length_mrec)
  show ?thesis
    unfolding lx scan_entries_from.simps [of dec hash f "length f" ?c]
    using guards e by (simp only: r1 r2 fl sum.case Let_def if_True if_False prod.case simp_thms)
qed

lemma scan_layout:
  assumes h: "hash_ok hash" and b: "bincode_ok enc dec"
  shows "list_all (seg_ok enc) xs \<Longrightarrow> f = X @ mlayout enc hash xs @ Z \<Longrightarrow>
    scan_entries_from dec hash f (length f) (length X) =
    (case scan_entries_from dec hash f (length f) (length (X @ mlayout enc hash xs)) of
       Inl e \<Rightarrow> Inl e | Inr (f', es, o') \<Rightarrow> Inr (f', xs @ es, o'))"
proof (induction xs arbitrary: X)
  case Nil
  then show ?case by (simp split: sum.splits)
next
  case (Cons x xs)
  have s: "seg_ok enc x" and f: "f = X @ mrec hash (enc_of enc x) @ mlayout enc hash xs @ Z"
    using Cons.prems by simp_all
  then have f': "f = (X @ mrec hash (enc_of enc x)) @ mlayout enc hash xs @ Z" by simp
  show ?case
    using scan_step [OF h b s f] Cons.IH [OF _ f'] Cons.prems(1)
    by (simp add: add.assoc split: sum.splits)
qed

text \<open>A proper prefix of a record is cut off.\<close>

lemma scan_torn:
  assumes h: "hash_ok hash" and b: "bincode_ok enc dec" and s: "seg_ok enc x"
    and k: "k < length (mrec hash (enc_of enc x))"
    and f: "f = X @ take k (mrec hash (enc_of enc x))"
  shows "scan_entries_from dec hash f (length f) (length X) = Inr (X, [], length X)"
proof -
  let ?p = "enc_of enc x" and ?c = "length X"
  note e = seg_ok_enc [OF b s]
  have lf: "length f = ?c + k" using k by (simp add: f)
  have tr: "truncate_at f ?c = X" by (simp add: truncate_at_def set_len_def f)
  have lh: "length (hash ?p) = 32" using h by (simp add: hash_ok_def)
  consider "k = 0" | "0 < k" "k < RECORD_HEADER_SIZE" | "RECORD_HEADER_SIZE \<le> k" by linarith
  then show ?thesis
  proof cases
    case 1
    then show ?thesis by (simp add: f scan_entries_from.simps)
  next
    case 2
    then show ?thesis using lf tr by (simp add: scan_entries_from.simps)
  next
    case 3
    define hd where "hd = to_le 4 (of_nat (length ?p) :: u32) @ hash ?p"
    have lhd: "length hd = RECORD_HEADER_SIZE" using lh by (simp add: hd_def mwal_consts)
    have f': "f = X @ hd @ take (k - RECORD_HEADER_SIZE) ?p"
      using 3 lhd by (simp add: f mrec_def hd_def mwal_consts)
    have r1: "read_exact f ?c RECORD_HEADER_SIZE = Inr hd"
      unfolding f' using lhd by (simp add: read_exact_def buf_simps)
    have fl: "unat (from_le (bslice hd 0 4) :: u32) = length ?p"
      using lh e by (simp add: hd_def buf_simps small_len)
    have guards: "?c < length f" "\<not> length f - ?c < RECORD_HEADER_SIZE"
      "length ?p \<noteq> 0" "\<not> MAX_RECORD_BYTES < length ?p"
      "length f < ?c + RECORD_HEADER_SIZE + length ?p"
      using 3 k e lf h by (simp_all add: length_mrec mwal_consts)
    show ?thesis
      unfolding scan_entries_from.simps [of dec hash f "length f" ?c]
      using guards by (simp only: r1 fl sum.case Let_def if_True if_False tr simp_thms)
  qed
qed


section \<open>The invariant and the log interface\<close>

definition mw_inv :: "('a \<Rightarrow> bytes res) \<Rightarrow> (bytes \<Rightarrow> bytes) \<Rightarrow> 'a manifest_wal \<Rightarrow> bool" where
  "mw_inv enc hash w \<longleftrightarrow> mfile w = file_header @ mlayout enc hash (entries w) \<and>
     write_offset w = length (mfile w) \<and> list_all (seg_ok enc) (entries w)"

lemma ensure_header_ok: "ensure_header (file_header @ L) = Inr (file_header @ L)"
  by (simp add: ensure_header_def file_header_def FILE_HEADER_SIZE_def read_exact_def buf_simps)

lemma ensure_header_short: "length f < FILE_HEADER_SIZE \<Longrightarrow> ensure_header f = Inr file_header"
  using write_at_end [of "[]" FILE_MAGIC]
  by (simp add: ensure_header_def set_len_def file_header_def write_at_end Let_def
      del: length_FILE_MAGIC)

text \<open>Opening any file that starts with the header, holds intact records and possibly a proper
  prefix of one more.\<close>

lemma open_layout:
  assumes h: "hash_ok hash" and b: "bincode_ok enc dec" and s: "list_all (seg_ok enc) xs"
    and t: "tail = [] \<or> (\<exists>x k. seg_ok enc x \<and> k < length (mrec hash (enc_of enc x)) \<and>
      tail = take k (mrec hash (enc_of enc x)))"
  shows "mopen dec hash (file_header @ mlayout enc hash xs @ tail) =
    Inr \<lparr>mfile = file_header @ mlayout enc hash xs, entries = xs,
      write_offset = length (file_header @ mlayout enc hash xs)\<rparr>"
proof -
  let ?X = "file_header @ mlayout enc hash xs" and ?f = "file_header @ mlayout enc hash xs @ tail"
  have "scan_entries_from dec hash ?f (length ?f) (length ?X) = Inr (?X, [], length ?X)"
  proof (cases "tail = []")
    case True
    then show ?thesis by (simp add: scan_entries_from.simps)
  next
    case False
    with t obtain x k where "seg_ok enc x" "k < length (mrec hash (enc_of enc x))"
      "?f = ?X @ take k (mrec hash (enc_of enc x))" by auto
    from scan_torn [OF h b this] show ?thesis .
  qed
  then have "scan_entries dec hash ?f = Inr (?X, xs, length ?X)"
    using scan_layout [OF h b s, of ?f file_header tail]
    by (simp add: scan_entries_def length_file_header [symmetric])
  then show ?thesis
    using ensure_header_ok [of "mlayout enc hash xs @ tail"]
    by (simp add: mopen_def bootstrap_def)
qed

lemma append_one_inv:
  assumes h: "hash_ok hash" and b: "bincode_ok enc dec" and inv: "mw_inv enc hash w"
    and s: "seg_ok enc x"
  shows "append_one enc hash w x = Inr \<lparr>mfile = mfile w @ mrec hash (enc_of enc x),
      entries = entries w @ [x], write_offset = length (mfile w @ mrec hash (enc_of enc x))\<rparr>"
proof -
  let ?p = "enc_of enc x"
  have lh: "length (hash ?p) = 32" using h by (simp add: hash_ok_def)
  note e = seg_ok_enc [OF b s]
  have wo: "write_offset w = length (mfile w)" using inv by (simp add: mw_inv_def)
  have f1: "write_at (mfile w) (length (mfile w)) (to_le 4 (of_nat (length ?p) :: u32)) =
      mfile w @ to_le 4 (of_nat (length ?p) :: u32)" by (rule write_at_end)
  have f2: "write_at (mfile w @ to_le 4 (of_nat (length ?p) :: u32)) (length (mfile w) + 4) (hash ?p) =
      (mfile w @ to_le 4 (of_nat (length ?p) :: u32)) @ hash ?p"
    using write_at_end [of "mfile w @ to_le 4 (of_nat (length ?p) :: u32)"] by simp
  have f3: "write_at ((mfile w @ to_le 4 (of_nat (length ?p) :: u32)) @ hash ?p)
      (length (mfile w) + 4 + length (hash ?p)) ?p =
      ((mfile w @ to_le 4 (of_nat (length ?p) :: u32)) @ hash ?p) @ ?p"
    using write_at_end [of "(mfile w @ to_le 4 (of_nat (length ?p) :: u32)) @ hash ?p"]
    by (simp add: add.assoc)
  show ?thesis
    using e h unfolding append_one_def wo
    by (simp add: Let_def f1 f2 f3 del: append_assoc) (simp add: mrec_def length_mrec lh mwal_consts)
qed

lemma append_one_keeps:
  assumes "hash_ok hash" "bincode_ok enc dec" "mw_inv enc hash w" "seg_ok enc x"
  shows "\<exists>w'. append_one enc hash w x = Inr w' \<and> mw_inv enc hash w' \<and> entries w' = entries w @ [x]"
  using append_one_inv [OF assms] assms(3,4) by (simp add: mw_inv_def)

lemma mopen_inv:
  assumes "hash_ok hash" "bincode_ok enc dec" "mw_inv enc hash w"
  shows "mopen dec hash (mfile w) = Inr w"
  using open_layout [OF assms(1,2), of "entries w" "[]"] assms(3) by (simp add: mw_inv_def)

definition reopened :: "(bytes \<Rightarrow> ('a \<times> nat) res) \<Rightarrow> (bytes \<Rightarrow> bytes) \<Rightarrow> 'a manifest_wal \<Rightarrow>
    'a list res" where
  "reopened dec hash w = map_sum id replay (mopen dec hash (mfile w))"

lemma reopened_inv:
  "hash_ok hash \<Longrightarrow> bincode_ok enc dec \<Longrightarrow> mw_inv enc hash w \<Longrightarrow>
     reopened dec hash w = Inr (entries w)"
  using mopen_inv [of hash enc dec w] by (simp add: reopened_def replay_def)

interpretation manifest_log: append_log
  "\<lambda>w. hash_ok hash \<and> bincode_ok enc dec \<and> mw_inv enc hash w" "\<lambda>w. seg_ok enc"
  "append_one enc hash" "reopened dec hash" id
  for enc dec hash
proof (unfold_locales, goal_cases)
  case (1 w x)
  then show ?case using append_one_keeps [of hash enc dec w x] by blast
next
  case (2 w)
  then show ?case using reopened_inv [of hash enc dec w] by blast
next
  case (3 w x w' rs)
  then have "append_one enc hash w x = Inr w'" "mw_inv enc hash w'" "entries w' = entries w @ [x]"
    using append_one_keeps [of hash enc dec w x] by auto
  then show ?case using 3 reopened_inv [of hash enc dec w] reopened_inv [of hash enc dec w'] by simp
qed

lemma run_appends_segments:
  "run_appends (append_one enc hash) w xs = Inr w' \<Longrightarrow>
     append_segments enc hash w xs = (w', Inr ())"
  by (induction xs arbitrary: w) (auto split: sum.splits)

lemma all_room_segments:
  assumes "hash_ok hash" "bincode_ok enc dec"
  shows "mw_inv enc hash w \<Longrightarrow> list_all (seg_ok enc) xs \<Longrightarrow>
    all_room (append_one enc hash) (\<lambda>w. seg_ok enc) w xs"
proof (induction xs arbitrary: w)
  case Nil
  then show ?case by simp
next
  case (Cons x xs)
  then obtain w' where "append_one enc hash w x = Inr w'" "mw_inv enc hash w'"
    using append_one_keeps [OF assms, of w x] by auto
  with Cons show ?case by simp
qed

text \<open>Any cut of a layout is a layout of a prefix and a torn record.\<close>

lemma mlayout_take:
  assumes "k \<le> length (mlayout enc hash xs)"
  shows "\<exists>n \<le> length xs. \<exists>tail. take k (mlayout enc hash xs) = mlayout enc hash (take n xs) @ tail \<and>
    (tail = [] \<or> n < length xs \<and> (\<exists>j < length (mrec hash (enc_of enc (xs ! n))).
       tail = take j (mrec hash (enc_of enc (xs ! n)))))"
  using assms
proof (induction xs arbitrary: k)
  case Nil
  then show ?case by simp
next
  case (Cons x xs)
  let ?r = "mrec hash (enc_of enc x)"
  show ?case
  proof (cases "k < length ?r")
    case True
    then show ?thesis
      by (intro exI [of _ 0] conjI exI [of _ "take k ?r"]) auto
  next
    case False
    with Cons.prems have "k - length ?r \<le> length (mlayout enc hash xs)" by simp
    from Cons.IH [OF this] obtain n tail where n: "n \<le> length xs"
      "take (k - length ?r) (mlayout enc hash xs) = mlayout enc hash (take n xs) @ tail"
      "tail = [] \<or> n < length xs \<and> (\<exists>j < length (mrec hash (enc_of enc (xs ! n))).
       tail = take j (mrec hash (enc_of enc (xs ! n))))" by blast
    then show ?thesis using False
      by (intro exI [of _ "Suc n"] conjI exI [of _ tail]) auto
  qed
qed

section \<open>Properties\<close>

definition byte_enc :: "u8 \<Rightarrow> bytes res" where "byte_enc x = Inr [x]"

definition byte_dec :: "bytes \<Rightarrow> (u8 \<times> nat) res" where
  "byte_dec b = (case b of [] \<Rightarrow> Inl Decode_Error | x # xs \<Rightarrow> Inr (x, 1))"

lemma byte_bincode: "bincode_ok byte_enc byte_dec"
  by (auto simp: bincode_ok_def byte_enc_def byte_dec_def)

lemma byte_seg_ok: "seg_ok byte_enc x"
  by (simp add: seg_ok_def byte_enc_def MAX_RECORD_BYTES_def)

definition sample_mwal :: "u8 manifest_wal" where
  "sample_mwal = \<lparr>mfile = file_header, entries = [], write_offset = FILE_HEADER_SIZE\<rparr>"

lemma sample_mwal_inv: "mw_inv byte_enc sum_hash sample_mwal"
  by (simp add: mw_inv_def sample_mwal_def length_file_header)

text \<open>C22. Manifest WAL round trip: appending a batch of encodable segments succeeds, and
  reopening the file replays all earlier segments followed by the batch, in order.\<close>

theorem manifest_append_replay:
  assumes "hash_ok hash" "bincode_ok enc dec" "mw_inv enc hash w" "list_all (seg_ok enc) xs"
  shows "\<exists>w'. append_segments enc hash w xs = (w', Inr ()) \<and> mw_inv enc hash w' \<and>
    reopened dec hash w' = Inr (entries w @ xs)"
proof -
  have "reopened dec hash w = Inr (entries w)" by (rule reopened_inv [OF assms(1-3)])
  from manifest_log.run_appends_ok [OF _ all_room_segments [OF assms] this] assms(1-3)
  show ?thesis using run_appends_segments by (fastforce simp: list.map_id0)
qed

theorem manifest_append_replay_witness:
  "\<exists>w'. append_segments byte_enc sum_hash sample_mwal [5, 6] = (w', Inr ()) \<and>
    reopened byte_dec sum_hash w' = Inr [5, 6]"
  using manifest_append_replay [OF sum_hash_ok byte_bincode sample_mwal_inv, of "[5, 6]"]
  by (auto simp: byte_seg_ok sample_mwal_def)

text \<open>C11. Torn writes: cut the manifest WAL file at any byte.  Opening it still succeeds, replays
  a prefix of the segments, the longest one whose records are complete, and truncates the file to
  exactly these records.\<close>

theorem manifest_torn_write:
  assumes h: "hash_ok hash" and b: "bincode_ok enc dec" and inv: "mw_inv enc hash w"
    and k: "k \<le> length (mfile w)"
  shows "\<exists>n w'. n \<le> length (entries w) \<and> mopen dec hash (take k (mfile w)) = Inr w' \<and>
    entries w' = take n (entries w) \<and> mw_inv enc hash w' \<and>
    (n < length (entries w) \<longrightarrow>
       k < length (file_header @ mlayout enc hash (take (Suc n) (entries w))))"
proof (cases "k < FILE_HEADER_SIZE")
  case True
  then have "mopen dec hash (take k (mfile w)) = mopen dec hash (file_header @ mlayout enc hash [] @ [])"
    using ensure_header_ok [of "[]"] ensure_header_short [of "take k (mfile w)"]
    by (auto simp: mopen_def bootstrap_def split: sum.split)
  then show ?thesis
    using open_layout [OF h b, of "[]" "[]"] True
    by (intro exI [of _ 0]) (simp add: mw_inv_def length_file_header)
next
  case False
  let ?xs = "entries w" and ?k = "k - FILE_HEADER_SIZE"
  have f: "mfile w = file_header @ mlayout enc hash ?xs" and s: "list_all (seg_ok enc) ?xs"
    using inv by (simp_all add: mw_inv_def)
  have cut: "take k (mfile w) = file_header @ take ?k (mlayout enc hash ?xs)"
    using False by (simp add: f length_file_header)
  have "?k \<le> length (mlayout enc hash ?xs)" using k f by (simp add: length_file_header)
  from mlayout_take [OF this] obtain n tail where n: "n \<le> length ?xs"
    "take ?k (mlayout enc hash ?xs) = mlayout enc hash (take n ?xs) @ tail"
    "tail = [] \<or> n < length ?xs \<and> (\<exists>j < length (mrec hash (enc_of enc (?xs ! n))).
       tail = take j (mrec hash (enc_of enc (?xs ! n))))" by blast
  have sn: "list_all (seg_ok enc) (take n ?xs)"
    using s by (auto simp: list_all_iff dest: in_set_takeD)
  have "tail = [] \<or> (\<exists>x k. seg_ok enc x \<and> k < length (mrec hash (enc_of enc x)) \<and>
      tail = take k (mrec hash (enc_of enc x)))"
    using n(3) s by (auto simp: list_all_length)
  note o = open_layout [OF h b sn this]
  have "k < length (file_header @ mlayout enc hash (take (Suc n) ?xs))" if "n < length ?xs"
  proof -
    have "?k = length (take ?k (mlayout enc hash ?xs))"
      using \<open>?k \<le> length (mlayout enc hash ?xs)\<close> by simp
    also have "\<dots> = length (mlayout enc hash (take n ?xs)) + length tail" using n(2) by simp
    also have "length tail < length (mrec hash (enc_of enc (?xs ! n)))"
      using n(3) h by (auto simp: length_mrec mwal_consts)
    finally show ?thesis
      using that False by (simp add: take_Suc_conv_app_nth length_file_header)
  qed
  then show ?thesis
    using o n(1,2) sn cut by (intro exI [of _ n]) (simp add: mw_inv_def)
qed

theorem manifest_torn_write_witness:
  "\<exists>n w'. n \<le> length (entries sample_mwal) \<and>
    mopen byte_dec sum_hash (take 5 (mfile sample_mwal)) = Inr w' \<and>
    entries w' = take n (entries sample_mwal) \<and> mw_inv byte_enc sum_hash w'"
  using manifest_torn_write [OF sum_hash_ok byte_bincode sample_mwal_inv, of 5]
  by (auto simp: sample_mwal_def length_file_header FILE_HEADER_SIZE_def)

end
