(* ===== verification/Time_Index.thy ===== *)
theory Time_Index
  imports Footer "HOL-Library.Product_Lexorder" "HOL-Library.Multiset"
begin

text \<open>
  The time index track (\<open>io/time_index.rs\<close>): entries \<open>(timestamp i64, frame id u64)\<close>
  sorted by time, written as \<open>magic 4 | count u64 | entries\<close>, read back with a check of
  the declared length and of the order.  A writer or reader over a seekable stream is the
  file and a position.
\<close>

definition TIME_INDEX_MAGIC :: bytes where "TIME_INDEX_MAGIC = [77, 86, 84, 73]"

lemma length_TIME_INDEX_MAGIC [simp]: "length TIME_INDEX_MAGIC = 4"
  by (simp add: TIME_INDEX_MAGIC_def)

record time_entry =
  timestamp :: i64
  frame_id :: u64

text \<open>The sort key of the code, \<open>(entry.timestamp, entry.frame_id)\<close>: signed, then unsigned.\<close>

definition entry_key :: "time_entry \<Rightarrow> int \<times> nat" where
  "entry_key e = (sint (timestamp e), unat (frame_id e))"

definition entry_bytes :: "time_entry \<Rightarrow> bytes" where
  "entry_bytes e = to_le 8 (timestamp e) @ to_le 8 (frame_id e)"

definition track_bytes :: "time_entry list \<Rightarrow> bytes" where
  "track_bytes es = TIME_INDEX_MAGIC @ to_le 8 (of_nat (length es) :: u64) @
     concat (map entry_bytes es)"

section \<open>Operations\<close>

text \<open>\<open>append_track\<close>: the file, the slice sorted in place, and \<open>(offset, length, checksum)\<close>.\<close>

definition append_track :: "(bytes \<Rightarrow> bytes) \<Rightarrow> bytes \<Rightarrow> nat \<Rightarrow> time_entry list \<Rightarrow>
    bytes \<times> time_entry list \<times> nat \<times> nat \<times> bytes" where
  "append_track hash f pos es =
     (let sorted_es = sort_key entry_key es;
          offset = pos;
          f1 = write_at f pos TIME_INDEX_MAGIC;
          count_bytes = to_le 8 (of_nat (length sorted_es) :: u64);
          f2 = write_at f1 (pos + 4) count_bytes;
          body = concat (map entry_bytes sorted_es);
          f3 = write_at f2 (pos + 12) body;
          end_pos = pos + 12 + length body;
          len = end_pos - offset
      in (f3, sorted_es, offset, len, hash (TIME_INDEX_MAGIC @ count_bytes @ body)))"

text \<open>The loop of \<open>read_track\<close>: \<open>n\<close> entries from \<open>pos\<close>, each compared with the one before.\<close>

fun read_entries :: "bytes \<Rightarrow> nat \<Rightarrow> nat \<Rightarrow> time_entry option \<Rightarrow> time_entry list res" where
  "read_entries f pos 0 prev = Inr []"
| "read_entries f pos (Suc n) prev =
     (case read_exact f pos 8 of Inl e \<Rightarrow> Inl e | Inr ts_buf \<Rightarrow>
      case read_exact f (pos + 8) 8 of Inl e \<Rightarrow> Inl e | Inr id_buf \<Rightarrow>
      let entry = \<lparr>timestamp = from_le ts_buf, frame_id = from_le id_buf\<rparr> in
      if (case prev of None \<Rightarrow> False
          | Some p \<Rightarrow> sint (timestamp entry) < sint (timestamp p) \<or>
              (timestamp entry = timestamp p \<and> frame_id entry < frame_id p))
      then Inl (InvalidTimeIndex ''entries not sorted'')
      else (case read_entries f (pos + 16) n (Some entry) of
              Inl e \<Rightarrow> Inl e | Inr es \<Rightarrow> Inr (entry # es)))"

definition read_track :: "bytes \<Rightarrow> nat \<Rightarrow> nat \<Rightarrow> time_entry list res" where
  "read_track f offset len =
     (case read_exact f offset 4 of Inl e \<Rightarrow> Inl e | Inr magic \<Rightarrow>
      if magic \<noteq> TIME_INDEX_MAGIC then Inl (InvalidTimeIndex ''magic mismatch'') else
      case read_exact f (offset + 4) 8 of Inl e \<Rightarrow> Inl e | Inr count_buf \<Rightarrow>
      let count = unat (from_le count_buf :: u64); header_len = 4 + 8 in
      if len < header_len then Inl (InvalidTimeIndex ''length shorter than header'')
      else
        (let payload_bytes = len - header_len in
         if 2 ^ 64 \<le> count * 16 then Inl (InvalidTimeIndex ''entry count overflow'')
         else if payload_bytes \<noteq> count * 16 then
           Inl (InvalidTimeIndex ''length does not match declared count'')
         else read_entries f (offset + 12) count None))"

definition calculate_checksum :: "(bytes \<Rightarrow> bytes) \<Rightarrow> time_entry list \<Rightarrow> bytes" where
  "calculate_checksum hash es =
     (let s = sort_key entry_key es in
      hash (TIME_INDEX_MAGIC @ to_le 8 (of_nat (length s) :: u64) @
        concat (map entry_bytes s)))"

section \<open>Lemmas\<close>

lemma entry_key_inj: "entry_key a = entry_key b \<Longrightarrow> a = b"
  by (cases a; cases b) (auto simp: entry_key_def signed_word_eqI dest: word_unat_eq_iff [THEN iffD2])

definition entry_dec :: "bytes \<Rightarrow> time_entry option" where
  "entry_dec b = Some \<lparr>timestamp = from_le (bslice b 0 8), frame_id = from_le (bslice b 8 8)\<rparr>"

interpretation entry_codec: fixed_codec entry_bytes entry_dec "\<lambda>_. True" 16
  by unfold_locales (simp_all add: entry_bytes_def entry_dec_def buf_simps)

lemma length_entries: "length (concat (map entry_bytes es)) = length es * 16"
  by (rule entry_codec.stream_length) (simp add: list_all_iff)

lemma read_entries_encoded:
  "sorted (map entry_key es) \<Longrightarrow> (case prev of None \<Rightarrow> True
     | Some p \<Rightarrow> \<forall>e \<in> set es. entry_key p \<le> entry_key e) \<Longrightarrow>
   f = X @ concat (map entry_bytes es) @ Z \<Longrightarrow>
   read_entries f (length X) (length es) prev = Inr es"
proof (induction es arbitrary: X prev)
  case Nil
  then show ?case by simp
next
  case (Cons e es)
  have f: "f = X @ to_le 8 (timestamp e) @ to_le 8 (frame_id e) @ concat (map entry_bytes es) @ Z"
    using Cons.prems(3) by (simp add: entry_bytes_def [of e])
  have r: "read_exact f (length X) 8 = Inr (to_le 8 (timestamp e))"
    "read_exact f (length X + 8) 8 = Inr (to_le 8 (frame_id e))"
    unfolding f by (simp_all add: read_exact_def buf_simps)
  have ord: "\<not> (case prev of None \<Rightarrow> False
      | Some p \<Rightarrow> sint (timestamp e) < sint (timestamp p) \<or>
          (timestamp e = timestamp p \<and> frame_id e < frame_id p))"
    using Cons.prems(2)
    by (auto simp: entry_key_def less_eq_prod_def word_less_nat_alt split: option.splits)
  have "read_entries f (length (X @ entry_bytes e)) (length es) (Some e) = Inr es"
    using Cons.prems by (intro Cons.IH) simp_all
  then have "read_entries f (length X + 16) (length es) (Some e) = Inr es"
    by (simp add: entry_bytes_def)
  then show ?case using r ord by (cases e; cases prev) (simp_all add: Let_def)
qed

lemma read_entries_sorted:
  "read_entries f pos n prev = Inr es \<Longrightarrow> length es = n \<and> sorted (map entry_key es) \<and>
     (case prev of None \<Rightarrow> True | Some p \<Rightarrow> \<forall>e \<in> set es. entry_key p \<le> entry_key e)"
proof (induction f pos n prev arbitrary: es rule: read_entries.induct)
  case (1 f pos prev)
  then show ?case by (simp split: option.splits)
next
  case (2 f pos n prev)
  from 2(2) obtain tb ib es' e where r: "read_exact f pos 8 = Inr tb"
    "read_exact f (pos + 8) 8 = Inr ib"
    and e: "e = \<lparr>timestamp = from_le tb, frame_id = from_le ib\<rparr>"
    and ord: "\<not> (case prev of None \<Rightarrow> False
      | Some p \<Rightarrow> sint (timestamp e) < sint (timestamp p) \<or>
          (timestamp e = timestamp p \<and> frame_id e < frame_id p))"
    and rest: "read_entries f (pos + 16) n (Some e) = Inr es'" "es = e # es'"
    by (auto simp: Let_def split: sum.splits if_splits)
  have ih: "length es' = n" "sorted (map entry_key es')" "\<forall>x \<in> set es'. entry_key e \<le> entry_key x"
    using 2(1) [OF r e ord rest(1)] by simp_all
  have eqI: "timestamp p = timestamp e" if "sint (timestamp p) = sint (timestamp e)" for p
    using that by (rule signed_word_eqI)
  have "entry_key p \<le> entry_key e" if "prev = Some p" for p
  proof (cases "sint (timestamp p) = sint (timestamp e)")
    case True
    with eqI [OF True] ord that show ?thesis
      by (simp add: entry_key_def less_eq_prod_def word_le_nat_alt not_less)
  next
    case False
    with ord that show ?thesis by (simp add: entry_key_def less_eq_prod_def not_less)
  qed
  then show ?case using ih rest(2)
    by (auto split: option.splits intro: order_trans)
qed

lemma append_track_eq:
  assumes "pos \<le> length f"
  shows "append_track hash f pos es =
    (let s = sort_key entry_key es in
     (write_at f pos (track_bytes s), s, pos, 12 + 16 * length es, hash (track_bytes s)))"
proof -
  let ?s = "sort_key entry_key es"
  let ?n = "to_le 8 (of_nat (length ?s) :: u64)" and ?b = "concat (map entry_bytes ?s)"
  have "write_at (write_at (write_at f pos TIME_INDEX_MAGIC) (pos + 4) ?n) (pos + 12) ?b =
      write_at f pos (track_bytes ?s)"
    using write_at_twice [OF assms, of TIME_INDEX_MAGIC ?n]
      write_at_twice [OF assms, of "TIME_INDEX_MAGIC @ ?n" ?b]
    by (simp add: track_bytes_def)
  then show ?thesis
    by (simp add: append_track_def Let_def track_bytes_def length_entries)
qed

lemma sort_key_perm:
  assumes "mset xs = mset ys"
  shows "sort_key entry_key xs = sort_key entry_key ys"
  by (rule sort_key_inj_key_eq) (use assms in \<open>auto simp: inj_on_def dest: entry_key_inj\<close>)


section \<open>Properties\<close>

text \<open>Time index round trip: reading the track that was appended at any position of a file
  returns the entries sorted by (timestamp, frame id), a permutation of the input; the reported
  length is the declared one and the reported checksum is the one \<open>calculate_checksum\<close> gives.\<close>

theorem time_index_roundtrip:
  assumes "pos \<le> length f" "length es * 16 < 2 ^ 64"
  shows "\<exists>f' s len cs. append_track hash f pos es = (f', s, pos, len, cs) \<and>
    read_track f' pos len = Inr s \<and> mset s = mset es \<and> sorted (map entry_key s) \<and>
    cs = calculate_checksum hash es"
proof -
  let ?s = "sort_key entry_key es"
  define f' where "f' = write_at f pos (track_bytes ?s)"
  define c :: bytes where "c = to_le 8 (of_nat (length ?s) :: u64)"
  have lc: "length c = 8" by (simp add: c_def)
  have fc: "unat (from_le c :: u64) = length es"
    using assms(2) by (simp add: c_def unat_of_nat take_bit_eq_mod)
  obtain Z where f': "f' = take pos f @ TIME_INDEX_MAGIC @ c @ concat (map entry_bytes ?s) @ Z"
    using assms(1) by (simp add: f'_def write_at_mid track_bytes_def c_def)
  have r1: "read_exact f' pos 4 = Inr TIME_INDEX_MAGIC" "read_exact f' (pos + 4) 8 = Inr c"
    unfolding f' using assms(1) lc by (simp_all add: read_exact_def buf_simps)
  have "read_entries f' (length (take pos f @ TIME_INDEX_MAGIC @ c)) (length ?s) None = Inr ?s"
    by (rule read_entries_encoded [where Z = Z]) (simp_all add: f')
  then have r2: "read_entries f' (pos + 12) (length es) None = Inr ?s"
    using assms(1) lc by (simp add: add.commute)
  have "read_track f' pos (12 + 16 * length es) = Inr ?s"
    using r1 r2 fc assms(2) by (simp add: read_track_def Let_def)
  moreover have "calculate_checksum hash es = hash (track_bytes ?s)"
    by (simp add: calculate_checksum_def track_bytes_def Let_def)
  ultimately show ?thesis
    using append_track_eq [OF assms(1), of hash es] by (simp add: Let_def f'_def)
qed

theorem time_index_roundtrip_witness:
  "\<exists>f' s len cs. append_track sum_hash [9] 1 [\<lparr>timestamp = 30, frame_id = 2\<rparr>,
      \<lparr>timestamp = - 10, frame_id = 0\<rparr>] = (f', s, 1, len, cs) \<and> read_track f' 1 len = Inr s"
  using time_index_roundtrip [of 1 "[9]" "[\<lparr>timestamp = 30, frame_id = 2\<rparr>,
      \<lparr>timestamp = - 10, frame_id = 0\<rparr>]" sum_hash] by auto

text \<open>A time index is never accepted unsorted: whatever the bytes, the entries returned by a
  successful read are in order and their number matches the declared track length.\<close>

theorem time_index_read_sorted:
  assumes "read_track f off len = Inr es"
  shows "sorted (map entry_key es) \<and> len = 12 + 16 * length es \<and> off + 12 \<le> length f"
  using assms read_entries_sorted [of f "off + 12" _ None es]
  by (fastforce simp: read_track_def Let_def read_exact_def split: sum.splits if_splits)

theorem time_index_read_sorted_witness:
  "let f = TIME_INDEX_MAGIC @ replicate 8 0 in read_track f 0 12 = Inr [] \<and> 0 + 12 \<le> length f"
proof -
  have "read_track (TIME_INDEX_MAGIC @ replicate 8 0) 0 12 = Inr []"
    by (simp add: read_track_def read_exact_def buf_simps from_le_def le_dec_zeros Let_def)
  from time_index_read_sorted [OF this] this show ?thesis by simp
qed

text \<open>The manifest checksum of the time index does not depend on the order in which the
  entries were collected.\<close>

theorem time_index_checksum_canonical:
  assumes "mset xs = mset ys"
  shows "calculate_checksum hash xs = calculate_checksum hash ys"
  by (simp add: calculate_checksum_def sort_key_perm [OF assms])

theorem time_index_checksum_canonical_witness:
  "calculate_checksum sum_hash [\<lparr>timestamp = 5, frame_id = 1\<rparr>, \<lparr>timestamp = 3, frame_id = 2\<rparr>] =
   calculate_checksum sum_hash [\<lparr>timestamp = 3, frame_id = 2\<rparr>, \<lparr>timestamp = 5, frame_id = 1\<rparr>]"
  by (rule time_index_checksum_canonical) simp

end
