(* ===== verification/Text_Base.thy ===== *)
theory Text_Base
  imports Main "HOL-Library.Code_Target_Nat"
begin

text \<open>
  Rust strings and the \<open>str\<close> methods the crate calls.  A \<open>char\<close> is its Unicode
  scalar value (a \<open>nat\<close>), a \<open>String\<close>/\<open>&str\<close> is the list of its chars, so
  \<open>chars().count()\<close> is \<open>length\<close>; \<open>len()\<close>, which counts UTF-8 bytes, is
  \<open>byte_len\<close>.  \<open>lit\<close> turns a string literal into such a list.
\<close>

named_theorems str_simps \<open>unfolding of the string library\<close>

type_synonym uchar = nat
type_synonym ustr = "uchar list"

definition lit :: "string \<Rightarrow> ustr" where
  "lit s = map of_char s"

lemma lit_Nil [simp]: "lit [] = []" and length_lit [simp]: "length (lit s) = length s"
  by (simp_all add: lit_def)

text \<open>\<open>char::len_utf8\<close> and \<open>str::len\<close>.\<close>

definition utf8_len :: "uchar \<Rightarrow> nat" where
  "utf8_len c = (if c < 128 then 1 else if c < 2048 then 2 else if c < 65536 then 3 else 4)"

definition byte_len :: "ustr \<Rightarrow> nat" where
  "byte_len s = sum_list (map utf8_len s)"

lemma utf8_len_pos [simp]: "0 < utf8_len c"
  by (simp add: utf8_len_def)

lemma byte_len_simps [simp]: "byte_len [] = 0" "byte_len (c # s) = utf8_len c + byte_len s"
  "byte_len (s @ t) = byte_len s + byte_len t"
  by (simp_all add: byte_len_def)

lemma length_le_byte_len: "length s \<le> byte_len s"
proof (induction s)
  case (Cons c s)
  have "1 \<le> utf8_len c" using utf8_len_pos [of c] by linarith
  with Cons show ?case by simp
qed simp

lemma byte_len_0 [simp]: "byte_len s = 0 \<longleftrightarrow> s = []"
  by (cases s) simp_all

text \<open>\<open>char::is_whitespace\<close> (the Unicode property White_Space) and \<open>char::is_control\<close>
  (category Cc).\<close>

definition is_whitespace :: "uchar \<Rightarrow> bool" where
  "is_whitespace c =
     ((9 \<le> c \<and> c \<le> 13) \<or> c = 32 \<or> c = 133 \<or> c = 160 \<or> c = 5760 \<or>
      (8192 \<le> c \<and> c \<le> 8202) \<or> c = 8232 \<or> c = 8233 \<or> c = 8239 \<or> c = 8287 \<or> c = 12288)"

definition is_control :: "uchar \<Rightarrow> bool" where
  "is_control c = (c < 32 \<or> (127 \<le> c \<and> c \<le> 159))"

definition to_ascii_lowercase :: "ustr \<Rightarrow> ustr" where
  "to_ascii_lowercase = map (\<lambda>c. if 65 \<le> c \<and> c \<le> 90 then c + 32 else c)"

text \<open>Trimming.\<close>

definition trim_start :: "ustr \<Rightarrow> ustr" where
  "trim_start = dropWhile is_whitespace"

definition trim_end :: "ustr \<Rightarrow> ustr" where
  "trim_end s = rev (dropWhile is_whitespace (rev s))"

definition trim :: "ustr \<Rightarrow> ustr" where
  "trim s = trim_end (trim_start s)"

lemma dropWhile_eq_Nil: "dropWhile P xs = [] \<longleftrightarrow> list_all P xs"
  by (induction xs) simp_all

lemma trim_end_hd: "trim_end s = [] \<or> (\<not> is_whitespace (last (trim_end s)))"
proof (cases "dropWhile is_whitespace (rev s)")
  case Nil
  then show ?thesis by (simp add: trim_end_def)
next
  case (Cons c r)
  then have "\<not> is_whitespace c" by (metis dropWhile_eq_Cons_conv)
  with Cons show ?thesis by (simp add: trim_end_def)
qed

lemma trim_end_prefix: "\<exists>w. s = trim_end s @ w \<and> list_all is_whitespace w"
proof -
  let ?t = "takeWhile is_whitespace (rev s)"
  have "rev s = ?t @ dropWhile is_whitespace (rev s)" by simp
  then have "s = trim_end s @ rev ?t" unfolding trim_end_def by (metis rev_append rev_rev_ident)
  moreover have "list_all is_whitespace (rev ?t)"
    by (auto simp: list_all_iff dest: set_takeWhileD)
  ultimately show ?thesis by blast
qed

lemma trim_start_suffix: "\<exists>w. s = w @ trim_start s \<and> list_all is_whitespace w"
  unfolding trim_start_def
  by (metis list_all_iff set_takeWhileD takeWhile_dropWhile_id)

lemma trim_infix:
  "\<exists>v w. s = v @ trim s @ w \<and> list_all is_whitespace v \<and> list_all is_whitespace w"
  using trim_start_suffix [of s] trim_end_prefix [of "trim_start s"]
  unfolding trim_def by metis

lemma trim_eq_Nil: "trim s = [] \<longleftrightarrow> list_all is_whitespace s"
proof
  assume "trim s = []"
  then show "list_all is_whitespace s" using trim_infix [of s] by (metis append_Nil list_all_append)
next
  assume "list_all is_whitespace s"
  then have "trim_start s = []" by (simp add: trim_start_def list_all_iff)
  then show "trim s = []" by (simp add: trim_def trim_end_def)
qed

lemma hd_trim_start: "trim_start s = [] \<or> \<not> is_whitespace (hd (trim_start s))"
  unfolding trim_start_def by (metis hd_dropWhile)

lemma trim_ends:
  assumes "trim s \<noteq> []"
  shows "\<not> is_whitespace (hd (trim s))" "\<not> is_whitespace (last (trim s))"
proof -
  show "\<not> is_whitespace (last (trim s))"
    using assms trim_end_hd [of "trim_start s"] by (simp add: trim_def)
  obtain w where w: "trim_start s = trim s @ w"
    using trim_end_prefix [of "trim_start s"] by (auto simp: trim_def)
  then show "\<not> is_whitespace (hd (trim s))"
    using assms hd_trim_start [of s] by (cases "trim s") auto
qed

lemma trim_fix:
  assumes "s \<noteq> []" "\<not> is_whitespace (hd s)" "\<not> is_whitespace (last s)"
  shows "trim s = s"
proof -
  have "trim_start s = s" using assms(1,2) by (cases s) (simp_all add: trim_start_def)
  moreover have "trim_end s = s"
    using assms(1,3) by (cases s rule: rev_cases) (simp_all add: trim_end_def)
  ultimately show ?thesis by (simp add: trim_def)
qed

text \<open>\<open>split(c)\<close> for a char (or a set of chars), \<open>split_whitespace\<close>, \<open>join\<close>, \<open>lines\<close>.\<close>

fun split_by :: "(uchar \<Rightarrow> bool) \<Rightarrow> ustr \<Rightarrow> ustr list" where
  "split_by P [] = [[]]"
| "split_by P (c # s) =
     (if P c then [] # split_by P s
      else (case split_by P s of [] \<Rightarrow> [[c]] | w # ws \<Rightarrow> (c # w) # ws))"

definition split_whitespace :: "ustr \<Rightarrow> ustr list" where
  "split_whitespace s = filter (\<lambda>w. w \<noteq> []) (split_by is_whitespace s)"

fun join :: "ustr \<Rightarrow> ustr list \<Rightarrow> ustr" where
  "join sep [] = []"
| "join sep [x] = x"
| "join sep (x # y # zs) = x @ sep @ join sep (y # zs)"

lemma split_by_not_Nil [simp]: "split_by P s \<noteq> []"
  by (induction s) (auto split: list.splits)

lemma concat_split_by: "concat (split_by P s) = filter (\<lambda>c. \<not> P c) s"
  by (induction s) (auto split: list.splits)

lemma split_by_pure: "w \<in> set (split_by P s) \<Longrightarrow> \<not> list_ex P w"
proof (induction s arbitrary: w)
  case (Cons c s)
  then show ?case by (cases "split_by P s") (auto split: if_splits)
qed simp

lemma concat_split_whitespace:
  "concat (split_whitespace s) = filter (\<lambda>c. \<not> is_whitespace c) s"
proof -
  have "concat (filter (\<lambda>w. w \<noteq> []) ws) = concat ws" for ws :: "ustr list"
    by (induction ws) auto
  then show ?thesis by (simp add: split_whitespace_def concat_split_by)
qed

lemma split_whitespace_word:
  "w \<in> set (split_whitespace s) \<Longrightarrow> w \<noteq> [] \<and> \<not> list_ex is_whitespace w"
  by (auto simp: split_whitespace_def dest: split_by_pure)

lemma filter_join:
  "\<forall>c \<in> set sep. \<not> P c \<Longrightarrow> filter P (join sep ws) = concat (map (filter P) ws)"
  by (induction sep ws rule: join.induct) (auto simp: filter_empty_conv)

lemma byte_len_join:
  "byte_len (join [10] ls) = sum_list (map (\<lambda>l. byte_len l + 1) ls) - 1"
  by (induction "[10::nat]" ls rule: join.induct) (auto simp: utf8_len_def)

definition strip_cr :: "ustr \<Rightarrow> ustr" where
  "strip_cr l = (if l \<noteq> [] \<and> last l = 13 then butlast l else l)"

function (sequential) lines_of :: "ustr \<Rightarrow> ustr list" where
  "lines_of [] = []"
| "lines_of s =
     (case dropWhile (\<lambda>c. c \<noteq> 10) s of
        [] \<Rightarrow> [s]
      | _ # r \<Rightarrow> strip_cr (takeWhile (\<lambda>c. c \<noteq> 10) s) # lines_of r)"
  by pat_completeness auto
termination
proof (relation "measure length")
  fix c s d r assume "dropWhile (\<lambda>c. c \<noteq> 10) (c # s) = d # (r :: ustr)"
  then have "length (d # r) \<le> length (c # s)" by (metis length_dropWhile_le)
  then show "(r, c # s) \<in> measure length" by simp
qed simp

text \<open>Decimal formatting, \<open>{}\<close> and \<open>{:04}\<close>.\<close>

fun dec_str :: "nat \<Rightarrow> ustr" where
  "dec_str n = (if n < 10 then [48 + n] else dec_str (n div 10) @ [48 + n mod 10])"

declare dec_str.simps [simp del]

definition dec_str04 :: "nat \<Rightarrow> ustr" where
  "dec_str04 n = (let d = dec_str n in replicate (4 - length d) 48 @ d)"

text \<open>\<open>starts_with\<close>, \<open>contains\<close> and \<open>ends_with\<close> for strings.\<close>

definition starts_with :: "ustr \<Rightarrow> ustr \<Rightarrow> bool" where
  "starts_with s p = (take (length p) s = p)"

definition str_contains :: "ustr \<Rightarrow> ustr \<Rightarrow> bool" where
  "str_contains s p = list_ex (\<lambda>i. starts_with (drop i s) p) [0..<Suc (length s)]"

definition ends_with :: "ustr \<Rightarrow> ustr \<Rightarrow> bool" where
  "ends_with s p = (length p \<le> length s \<and> drop (length s - length p) s = p)"

lemma starts_with_append [simp]: "starts_with (p @ s) p"
  by (simp add: starts_with_def)

lemma starts_with_iff: "starts_with s p \<longleftrightarrow> (\<exists>r. s = p @ r)"
  unfolding starts_with_def by (metis append_eq_conv_conj append_take_drop_id)

lemma ends_with_single: "ends_with s [c] \<longleftrightarrow> s \<noteq> [] \<and> last s = c"
  by (cases s rule: rev_cases) (auto simp: ends_with_def)

text \<open>The digits of a number, and \<open>str::parse\<close> to \<open>u32\<close>.\<close>

fun digits_value :: "nat \<Rightarrow> ustr \<Rightarrow> nat option" where
  "digits_value acc [] = Some acc"
| "digits_value acc (c # s) = (if 48 \<le> c \<and> c \<le> 57 then digits_value (10 * acc + (c - 48)) s else None)"

definition parse_digits :: "ustr \<Rightarrow> nat option" where
  "parse_digits s = (if s = [] then None else digits_value 0 s)"

definition parse_u32 :: "ustr \<Rightarrow> nat option" where
  "parse_u32 s =
     (case parse_digits (case s of c # r \<Rightarrow> if c = 43 then r else s | [] \<Rightarrow> []) of
        None \<Rightarrow> None | Some n \<Rightarrow> if n < 4294967296 then Some n else None)"

lemma digits_value_append:
  "digits_value acc (s @ t) = (case digits_value acc s of None \<Rightarrow> None | Some n \<Rightarrow> digits_value n t)"
  by (induction s arbitrary: acc) simp_all

lemma digits_value_dec_str: "digits_value 0 (dec_str n) = Some n"
proof (induction n rule: dec_str.induct)
  case (1 n)
  moreover have "n mod 10 \<le> 9" using pos_mod_bound [of 10 "int n"] by (simp flip: zmod_int)
  ultimately show ?case by (subst dec_str.simps) (simp add: digits_value_append)
qed

lemma dec_str_digits: "c \<in> set (dec_str n) \<Longrightarrow> 48 \<le> c \<and> c \<le> 57"
proof (induction n rule: dec_str.induct)
  case (1 n)
  show ?case
  proof (cases "n < 10")
    case True
    then show ?thesis using 1(2) by (subst (asm) dec_str.simps) simp
  next
    case False
    then show ?thesis using 1 by (subst (asm) (2) dec_str.simps) auto
  qed
qed

lemma dec_str_not_Nil [simp]: "dec_str n \<noteq> []"
  by (subst dec_str.simps) simp

lemma parse_u32_dec_str [simp]: "n < 4294967296 \<Longrightarrow> parse_u32 (dec_str n) = Some n"
proof -
  assume n: "n < 4294967296"
  obtain c r where cr: "dec_str n = c # r" by (cases "dec_str n") simp_all
  then have "c \<noteq> 43" using dec_str_digits [of c n] by simp
  then show ?thesis using n digits_value_dec_str [of n] cr by (simp add: parse_u32_def parse_digits_def)
qed

lemma trim_idem [simp]: "trim (trim s) = trim s"
proof -
  have "dropWhile P (dropWhile P xs) = dropWhile P xs" for P and xs :: ustr
    by (induction xs) simp_all
  then have e: "trim_end (trim_end t) = trim_end t" for t by (simp add: trim_end_def)
  have "trim_start (trim_end (trim_start s)) = trim_end (trim_start s)"
  proof (cases "trim_start s")
    case Nil
    show ?thesis unfolding Nil by (simp add: trim_start_def trim_end_def)
  next
    case (Cons c r)
    then have c: "\<not> is_whitespace c" using hd_dropWhile [of is_whitespace s] by (auto simp: trim_start_def)
    have "trim_end (c # r) = c # trim_end r"
      using c by (auto simp: trim_end_def dropWhile_append)
    then show ?thesis using Cons c by (simp add: trim_start_def)
  qed
  then show ?thesis by (simp add: trim_def e)
qed

end
