(* ===== verification/Temporal_Index.thy ===== *)
theory Temporal_Index
  imports Footer Text_Base "HOL-Library.Product_Lexorder" "HOL-Library.Multiset"
begin

text \<open>
  The temporal mentions track (\<open>io/temporal_index.rs\<close>, \<open>types/temporal.rs\<close>): a 56-byte
  header, 32-byte mention records sorted by (timestamp, frame, byte start) and 24-byte anchor
  records with strictly increasing frame ids, covered by a BLAKE3 checksum (parameter \<open>hash\<close>)
  that is computed with the checksum field zero and patched in afterwards.
\<close>

unbundle bit_operations_syntax

section \<open>Types\<close>

datatype mention_kind = Date | DateTime | RangeStart | RangeEnd | Recurring | Approximate

definition kind_to_u8 :: "mention_kind \<Rightarrow> u8" where
  "kind_to_u8 k = (case k of Date \<Rightarrow> 0 | DateTime \<Rightarrow> 1 | RangeStart \<Rightarrow> 2 | RangeEnd \<Rightarrow> 3
     | Recurring \<Rightarrow> 4 | Approximate \<Rightarrow> 5)"

definition kind_from_u8 :: "u8 \<Rightarrow> mention_kind option" where
  "kind_from_u8 v = (if v = 0 then Some Date else if v = 1 then Some DateTime
     else if v = 2 then Some RangeStart else if v = 3 then Some RangeEnd
     else if v = 4 then Some Recurring else if v = 5 then Some Approximate else None)"

definition flags_contains :: "u8 \<Rightarrow> u8 \<Rightarrow> bool" where
  "flags_contains fl flag = (fl AND flag \<noteq> 0)"

definition flags_set :: "u8 \<Rightarrow> u8 \<Rightarrow> bool \<Rightarrow> u8" where
  "flags_set fl flag enabled = (if enabled then fl OR flag else fl AND NOT flag)"

record temporal_mention =
  ts_utc :: i64
  m_frame_id :: u64
  m_byte_start :: u32
  m_byte_len :: u32
  kind :: mention_kind
  confidence :: u16
  tz_hint_minutes :: i16
  m_flags :: u8

datatype anchor_source = Explicit | FrameTimestamp | Metadata | IngestionClock

record temporal_anchor =
  a_frame_id :: u64
  anchor_ts :: i64
  a_source :: anchor_source

record temporal_track =
  mentions :: "temporal_mention list"
  anchors :: "temporal_anchor list"
  t_flags :: u32

record temporal_capabilities =
  has_anchors :: bool
  has_mentions :: bool

definition TEMPORAL_TRACK_FLAG_HAS_ANCHORS :: u32 where "TEMPORAL_TRACK_FLAG_HAS_ANCHORS = 1"

definition TEMPORAL_TRACK_FLAG_HAS_MENTIONS :: u32 where "TEMPORAL_TRACK_FLAG_HAS_MENTIONS = 2"

definition track_is_empty :: "temporal_track \<Rightarrow> bool" where
  "track_is_empty t = (mentions t = [])"

definition capabilities :: "temporal_track \<Rightarrow> temporal_capabilities" where
  "capabilities t =
     \<lparr>has_anchors = (t_flags t AND TEMPORAL_TRACK_FLAG_HAS_ANCHORS \<noteq> 0 \<or> anchors t \<noteq> []),
      has_mentions = (t_flags t AND TEMPORAL_TRACK_FLAG_HAS_MENTIONS \<noteq> 0 \<or> mentions t \<noteq> [])\<rparr>"

text \<open>\<open>binary_search_by_key\<close> on the strictly increasing anchors of a track.\<close>

definition anchor_for_frame :: "temporal_track \<Rightarrow> u64 \<Rightarrow> temporal_anchor option" where
  "anchor_for_frame t i = List.find (\<lambda>a. a_frame_id a = i) (anchors t)"

record temporal_filter =
  start_utc :: "i64 option"
  end_utc :: "i64 option"
  phrase :: "ustr option"
  tz :: "ustr option"

definition filter_is_empty :: "temporal_filter \<Rightarrow> bool" where
  "filter_is_empty q =
     (let phrase_empty = (case phrase q of None \<Rightarrow> True | Some p \<Rightarrow> trim p = [])
      in start_utc q = None \<and> end_utc q = None \<and> phrase_empty)"

section \<open>Records on disk\<close>

definition TEMPORAL_TRACK_MAGIC :: bytes where "TEMPORAL_TRACK_MAGIC = [0x4D, 0x56, 0x54, 0x4E]"

definition TEMPORAL_TRACK_VERSION :: u16 where "TEMPORAL_TRACK_VERSION = 1"

definition HEADER_LEN :: nat where [simp]: "HEADER_LEN = 56"

definition CHECKSUM_OFFSET :: nat where [simp]: "CHECKSUM_OFFSET = 24"

definition MENTION_RECORD_SIZE :: nat where [simp]: "MENTION_RECORD_SIZE = 32"

definition ANCHOR_RECORD_SIZE :: nat where [simp]: "ANCHOR_RECORD_SIZE = 24"

definition MAX_TEMPORAL_TRACK_BYTES :: nat where "MAX_TEMPORAL_TRACK_BYTES = 2 ^ 34"

record raw_mention =
  r_ts_utc :: i64
  r_frame_id :: u64
  r_byte_start :: u32
  r_byte_len :: u32
  r_kind :: u8
  r_confidence :: u16
  r_tz_hint_minutes :: i16
  r_flags :: u8
  r_reserved :: u16

definition mention_from_high_level :: "temporal_mention \<Rightarrow> raw_mention" where
  "mention_from_high_level m = \<lparr>r_ts_utc = ts_utc m, r_frame_id = m_frame_id m,
     r_byte_start = m_byte_start m, r_byte_len = m_byte_len m, r_kind = kind_to_u8 (kind m),
     r_confidence = confidence m, r_tz_hint_minutes = tz_hint_minutes m, r_flags = m_flags m,
     r_reserved = 0\<rparr>"

definition mention_encode :: "raw_mention \<Rightarrow> bytes" where
  "mention_encode r =
     (let b = replicate MENTION_RECORD_SIZE 0;
          b = put_slice b 0 (to_le 8 (r_ts_utc r));
          b = put_slice b 8 (to_le 8 (r_frame_id r));
          b = put_slice b 16 (to_le 4 (r_byte_start r));
          b = put_slice b 20 (to_le 4 (r_byte_len r));
          b = put_slice b 24 [r_kind r];
          b = put_slice b 25 (to_le 2 (r_confidence r));
          b = put_slice b 27 (to_le 2 (r_tz_hint_minutes r));
          b = put_slice b 29 [r_flags r];
          b = put_slice b 30 (to_le 2 (r_reserved r))
      in b)"

text \<open>Decoding indexes a 32-byte chunk; it cannot fail.\<close>

definition mention_decode :: "bytes \<Rightarrow> raw_mention" where
  "mention_decode b = \<lparr>r_ts_utc = from_le (bslice b 0 8), r_frame_id = from_le (bslice b 8 8),
     r_byte_start = from_le (bslice b 16 4), r_byte_len = from_le (bslice b 20 4),
     r_kind = hd (bslice b 24 1), r_confidence = from_le (bslice b 25 2),
     r_tz_hint_minutes = from_le (bslice b 27 2), r_flags = hd (bslice b 29 1),
     r_reserved = from_le (bslice b 30 2)\<rparr>"

definition mention_into_high_level :: "raw_mention \<Rightarrow> temporal_mention res" where
  "mention_into_high_level r = (case kind_from_u8 (r_kind r) of
       None \<Rightarrow> Inl (InvalidTemporalTrack ''unknown mention kind'')
     | Some k \<Rightarrow> Inr \<lparr>ts_utc = r_ts_utc r, m_frame_id = r_frame_id r,
         m_byte_start = r_byte_start r, m_byte_len = r_byte_len r, kind = k,
         confidence = r_confidence r, tz_hint_minutes = r_tz_hint_minutes r, m_flags = r_flags r\<rparr>)"

record raw_anchor =
  ra_frame_id :: u64
  ra_anchor_ts :: i64
  ra_source :: u8
  ra_reserved :: bytes

definition source_to_u8 :: "anchor_source \<Rightarrow> u8" where
  "source_to_u8 s = (case s of Explicit \<Rightarrow> 0 | FrameTimestamp \<Rightarrow> 1 | Metadata \<Rightarrow> 2
     | IngestionClock \<Rightarrow> 3)"

definition anchor_from_high_level :: "temporal_anchor \<Rightarrow> raw_anchor" where
  "anchor_from_high_level a = \<lparr>ra_frame_id = a_frame_id a, ra_anchor_ts = anchor_ts a,
     ra_source = source_to_u8 (a_source a), ra_reserved = replicate 7 0\<rparr>"

definition anchor_encode :: "raw_anchor \<Rightarrow> bytes" where
  "anchor_encode r =
     (let b = replicate ANCHOR_RECORD_SIZE 0;
          b = put_slice b 0 (to_le 8 (ra_frame_id r));
          b = put_slice b 8 (to_le 8 (ra_anchor_ts r));
          b = put_slice b 16 [ra_source r];
          b = put_slice b 17 (ra_reserved r)
      in b)"

definition anchor_decode :: "bytes \<Rightarrow> raw_anchor" where
  "anchor_decode b = \<lparr>ra_frame_id = from_le (bslice b 0 8), ra_anchor_ts = from_le (bslice b 8 8),
     ra_source = hd (bslice b 16 1), ra_reserved = bslice b 17 7\<rparr>"

definition anchor_into_high_level :: "raw_anchor \<Rightarrow> temporal_anchor res" where
  "anchor_into_high_level r =
     (let mk = (\<lambda>s. Inr \<lparr>a_frame_id = ra_frame_id r, anchor_ts = ra_anchor_ts r, a_source = s\<rparr>) in
      if ra_source r = 0 then mk Explicit
      else if ra_source r = 1 then mk FrameTimestamp
      else if ra_source r = 2 then mk Metadata
      else if ra_source r = 3 then mk IngestionClock
      else Inl (InvalidTemporalTrack ''unknown anchor source''))"

section \<open>Order\<close>

text \<open>\<open>mention_cmp\<close> compares lexicographically by this key.\<close>

definition mention_key :: "temporal_mention \<Rightarrow> int \<times> nat \<times> nat" where
  "mention_key m = (sint (ts_utc m), unat (m_frame_id m), unat (m_byte_start m))"

text \<open>\<open>windows(2).any(P)\<close>\<close>

fun any_pair :: "('a \<Rightarrow> 'a \<Rightarrow> bool) \<Rightarrow> 'a list \<Rightarrow> bool" where
  "any_pair P (a # b # xs) = (P a b \<or> any_pair P (b # xs))"
| "any_pair P xs = False"

definition validate_mentions_sorted :: "temporal_mention list \<Rightarrow> unit res" where
  "validate_mentions_sorted ms =
     (if any_pair (\<lambda>a b. mention_key b < mention_key a) ms
      then Inl (InvalidTemporalTrack ''mentions not sorted'') else Inr ())"

definition validate_anchors_sorted :: "temporal_anchor list \<Rightarrow> unit res" where
  "validate_anchors_sorted as =
     (if any_pair (\<lambda>a b. a_frame_id b \<le> a_frame_id a) as
      then Inl (InvalidTemporalTrack ''anchors not strictly increasing'') else Inr ())"

definition sort_mentions :: "temporal_mention list \<Rightarrow> temporal_mention list" where
  "sort_mentions = sort_key mention_key"

definition sort_anchors :: "temporal_anchor list \<Rightarrow> temporal_anchor list" where
  "sort_anchors = sort_key (\<lambda>a. unat (a_frame_id a))"

section \<open>Writing\<close>

definition track_header :: "u64 \<Rightarrow> u64 \<Rightarrow> u16 \<Rightarrow> bytes" where
  "track_header entry_count anchor_count fl =
     (let h = replicate HEADER_LEN 0;
          h = put_slice h 0 TEMPORAL_TRACK_MAGIC;
          h = put_slice h 4 (to_le 2 TEMPORAL_TRACK_VERSION);
          h = put_slice h 6 (to_le 2 fl);
          h = put_slice h 8 (to_le 8 entry_count);
          h = put_slice h 16 (to_le 8 anchor_count)
      in h)"

text \<open>The writer is a file and its position; the header is written and returned.\<close>

definition write_header :: "bytes \<Rightarrow> nat \<Rightarrow> u64 \<Rightarrow> u64 \<Rightarrow> u16 \<Rightarrow> bytes \<times> nat \<times> bytes" where
  "write_header f pos entry_count anchor_count fl =
     (let h = track_header entry_count anchor_count fl in (write_at f pos h, pos, h))"

definition patch_checksum :: "bytes \<Rightarrow> nat \<Rightarrow> bytes \<Rightarrow> bytes" where
  "patch_checksum f header_offset checksum = write_at f (header_offset + CHECKSUM_OFFSET) checksum"

definition encode_mentions :: "temporal_mention list \<Rightarrow> bytes" where
  "encode_mentions ms = concat (map (mention_encode \<circ> mention_from_high_level) ms)"

definition encode_anchors :: "temporal_anchor list \<Rightarrow> bytes" where
  "encode_anchors as = concat (map (anchor_encode \<circ> anchor_from_high_level) as)"

text \<open>The result holds the file, the slices as sorted in place, the offset, the length and the
  checksum.\<close>

definition append_track ::
  "(bytes \<Rightarrow> bytes) \<Rightarrow> bytes \<Rightarrow> nat \<Rightarrow> temporal_mention list \<Rightarrow> temporal_anchor list \<Rightarrow> u32 \<Rightarrow>
   (bytes \<times> temporal_mention list \<times> temporal_anchor list \<times> nat \<times> nat \<times> bytes) res" where
  "append_track hash f pos ms0 as0 fl =
     (let ms = sort_mentions ms0; as = sort_anchors as0 in
      case validate_mentions_sorted ms of Inl e \<Rightarrow> Inl e | Inr _ \<Rightarrow>
      case validate_anchors_sorted as of Inl e \<Rightarrow> Inl e | Inr _ \<Rightarrow>
      (let entry_count = of_nat (length ms); anchor_count = of_nat (length as);
           header_flags = ucast fl;
           (f1, header_offset, header) = write_header f pos entry_count anchor_count header_flags;
           header = put_slice header CHECKSUM_OFFSET (replicate 32 0);
           pos1 = pos + length header;
           mb = encode_mentions ms; f2 = write_at f1 pos1 mb; pos2 = pos1 + length mb;
           ab = encode_anchors as; f3 = write_at f2 pos2 ab; en = pos2 + length ab;
           checksum = hash (header @ mb @ ab);
           f4 = patch_checksum f3 header_offset checksum
       in Inr (f4, ms, as, header_offset, en - header_offset, checksum)))"

section \<open>Reading\<close>

fun map_res :: "('a \<Rightarrow> 'b res) \<Rightarrow> 'a list \<Rightarrow> 'b list res" where
  "map_res g [] = Inr []"
| "map_res g (x # xs) =
     (case g x of Inl e \<Rightarrow> Inl e
      | Inr y \<Rightarrow> (case map_res g xs of Inl e \<Rightarrow> Inl e | Inr ys \<Rightarrow> Inr (y # ys)))"

text \<open>The sum of the sizes is computed in \<open>u64\<close> and wraps (in a release build); a declared
  size that exceeds the body then makes the slice \<open>body[..mentions_bytes]\<close> panic.\<close>

definition read_track :: "(bytes \<Rightarrow> bytes) \<Rightarrow> bytes \<Rightarrow> nat \<Rightarrow> nat \<Rightarrow> temporal_track res" where
  "read_track hash f offset len =
     (if MAX_TEMPORAL_TRACK_BYTES < len then
        Inl (InvalidTemporalTrack ''length exceeds supported limit'')
      else if len < HEADER_LEN then Inl (InvalidTemporalTrack ''length shorter than header'')
      else
      case read_exact f offset HEADER_LEN of Inl e \<Rightarrow> Inl e | Inr header \<Rightarrow>
      if bslice header 0 4 \<noteq> TEMPORAL_TRACK_MAGIC then Inl (InvalidTemporalTrack ''magic mismatch'')
      else
      let version = from_le (bslice header 4 2) :: u16 in
      if TEMPORAL_TRACK_VERSION < version then
        Inl (InvalidTemporalTrack ''unsupported track version'')
      else
      let fl = ucast (from_le (bslice header 6 2) :: u16) :: u32;
          entry_count = unat (from_le (bslice header 8 8) :: u64);
          anchor_count = unat (from_le (bslice header 16 8) :: u64);
          checksum = bslice header CHECKSUM_OFFSET 32;
          entries_bytes = entry_count * MENTION_RECORD_SIZE;
          anchor_bytes = anchor_count * ANCHOR_RECORD_SIZE in
      if 2 ^ 64 \<le> entries_bytes then Inl (InvalidTemporalTrack ''entry count overflow'')
      else if 2 ^ 64 \<le> anchor_bytes then Inl (InvalidTemporalTrack ''anchor count overflow'')
      else if (HEADER_LEN + entries_bytes + anchor_bytes) mod 2 ^ 64 \<noteq> len then
        Inl (InvalidTemporalTrack ''length does not match declared counts'')
      else
      case read_exact f (offset + HEADER_LEN) (len - HEADER_LEN) of Inl e \<Rightarrow> Inl e | Inr body \<Rightarrow>
      let header_for_hash = put_slice header CHECKSUM_OFFSET (replicate 32 0);
          computed = hash (header_for_hash @ body) in
      if computed \<noteq> checksum then Inl (InvalidTemporalTrack ''checksum mismatch'')
      else if length body < entries_bytes then Inl (Panic ''range end index out of range'')
      else
      case map_res (\<lambda>c. mention_into_high_level (mention_decode c))
             (chunks_exact MENTION_RECORD_SIZE (take entries_bytes body)) of
        Inl e \<Rightarrow> Inl e | Inr ms \<Rightarrow>
      case map_res (\<lambda>c. anchor_into_high_level (anchor_decode c))
             (chunks_exact ANCHOR_RECORD_SIZE (drop entries_bytes body)) of
        Inl e \<Rightarrow> Inl e | Inr as \<Rightarrow>
      case validate_mentions_sorted ms of Inl e \<Rightarrow> Inl e | Inr _ \<Rightarrow>
      case validate_anchors_sorted as of Inl e \<Rightarrow> Inl e | Inr _ \<Rightarrow>
      Inr \<lparr>mentions = ms, anchors = as, t_flags = fl\<rparr>)"

definition calculate_checksum ::
  "(bytes \<Rightarrow> bytes) \<Rightarrow> temporal_mention list \<Rightarrow> temporal_anchor list \<Rightarrow> u32 \<Rightarrow> bytes" where
  "calculate_checksum hash ms as fl =
     (let sm = sort_mentions ms; sa = sort_anchors as;
          header = track_header (of_nat (length sm)) (of_nat (length sa)) (ucast fl)
      in hash (header @ encode_mentions sm @ encode_anchors sa))"

text \<open>\<open>partition_point\<close>, on the sorted slices its contract asks for.\<close>

definition partition_point :: "('a \<Rightarrow> bool) \<Rightarrow> 'a list \<Rightarrow> nat" where
  "partition_point P xs = length (takeWhile P xs)"

definition window :: "temporal_mention list \<Rightarrow> i64 \<Rightarrow> i64 \<Rightarrow> nat \<times> nat" where
  "window ms start en =
     (if ms = [] \<or> sint en < sint start then (0, 0)
      else (partition_point (\<lambda>m. sint (ts_utc m) < sint start) ms,
            partition_point (\<lambda>m. sint (ts_utc m) \<le> sint en) ms))"


section \<open>Lemmas: records\<close>

lemma kind_roundtrip [simp]: "kind_from_u8 (kind_to_u8 k) = Some k"
  by (cases k) (simp_all add: kind_from_u8_def kind_to_u8_def)

lemma mention_encode_layout:
  "mention_encode r = to_le 8 (r_ts_utc r) @ to_le 8 (r_frame_id r) @ to_le 4 (r_byte_start r) @
     to_le 4 (r_byte_len r) @ [r_kind r] @ to_le 2 (r_confidence r) @
     to_le 2 (r_tz_hint_minutes r) @ [r_flags r] @ to_le 2 (r_reserved r)"
  by (simp add: mention_encode_def Let_def buf_simps)

lemma hd_slice [buf_simps]: "hd (bslice (x # xs) 0 (Suc n)) = x"
  by (simp add: bslice_def)

lemma mention_decode_encode: "mention_decode (mention_encode r) = r"
  by (simp add: mention_encode_layout mention_decode_def buf_simps)

lemma anchor_encode_layout:
  "length (ra_reserved r) = 7 \<Longrightarrow>
     anchor_encode r = to_le 8 (ra_frame_id r) @ to_le 8 (ra_anchor_ts r) @ [ra_source r] @ ra_reserved r"
  by (simp add: anchor_encode_def Let_def buf_simps)

definition mention_enc :: "temporal_mention \<Rightarrow> bytes" where
  "mention_enc = mention_encode \<circ> mention_from_high_level"

definition mention_dec :: "bytes \<Rightarrow> temporal_mention option" where
  "mention_dec b = ok_opt (mention_into_high_level (mention_decode b))"

definition anchor_enc :: "temporal_anchor \<Rightarrow> bytes" where
  "anchor_enc = anchor_encode \<circ> anchor_from_high_level"

definition anchor_dec :: "bytes \<Rightarrow> temporal_anchor option" where
  "anchor_dec b = ok_opt (anchor_into_high_level (anchor_decode b))"

interpretation mention_codec: fixed_codec mention_enc mention_dec "\<lambda>_. True" 32
  by unfold_locales
    (simp_all add: mention_enc_def mention_dec_def mention_decode_encode mention_from_high_level_def
      mention_into_high_level_def, simp add: mention_encode_layout)

interpretation anchor_codec: fixed_codec anchor_enc anchor_dec "\<lambda>_. True" 24
proof unfold_locales
  fix a :: temporal_anchor
  show "anchor_dec (anchor_enc a) = Some a"
    by (cases a; cases "a_source a")
      (simp_all add: anchor_dec_def anchor_enc_def anchor_from_high_level_def anchor_encode_layout
        anchor_decode_def anchor_into_high_level_def source_to_u8_def buf_simps Let_def)
  show "length (anchor_enc a) = 24"
    by (simp add: anchor_enc_def anchor_from_high_level_def anchor_encode_layout)
qed simp

lemma map_res_Some: "map (\<lambda>c. ok_opt (g c)) cs = map Some xs \<Longrightarrow> map_res g cs = Inr xs"
  by (induction cs arbitrary: xs) auto

lemma length_encode_tracks [simp]:
  "length (encode_mentions ms) = length ms * 32" "length (encode_anchors as) = length as * 24"
  using mention_codec.stream_length [of ms] anchor_codec.stream_length [of as]
  by (simp_all add: encode_mentions_def encode_anchors_def mention_enc_def anchor_enc_def
      list_all_iff comp_def)

lemma decode_mentions:
  "map_res (\<lambda>c. mention_into_high_level (mention_decode c)) (chunks_exact 32 (encode_mentions ms)) = Inr ms"
  using mention_codec.stream_decode [of ms]
  by (intro map_res_Some) (simp add: encode_mentions_def mention_enc_def mention_dec_def [abs_def]
      list_all_iff comp_def)

lemma decode_anchors:
  "map_res (\<lambda>c. anchor_into_high_level (anchor_decode c)) (chunks_exact 24 (encode_anchors as)) = Inr as"
  using anchor_codec.stream_decode [of as]
  by (intro map_res_Some) (simp add: encode_anchors_def anchor_enc_def anchor_dec_def [abs_def]
      list_all_iff comp_def)

section \<open>Lemmas: order\<close>

lemma any_pair_iff: "any_pair P xs \<longleftrightarrow> \<not> successively (\<lambda>a b. \<not> P a b) xs"
  by (induction P xs rule: any_pair.induct) auto

lemma validate_mentions_iff: "validate_mentions_sorted ms = Inr () \<longleftrightarrow> sorted (map mention_key ms)"
proof -
  have "successively (\<lambda>a b. \<not> mention_key b < mention_key a) ms \<longleftrightarrow>
      sorted_wrt (\<lambda>a b. mention_key a \<le> mention_key b) ms"
    by (subst successively_conv_sorted_wrt [symmetric]) (auto simp: transp_def not_less)
  then show ?thesis
    by (simp add: validate_mentions_sorted_def any_pair_iff sorted_wrt_map)
qed

lemma validate_anchors_iff:
  "validate_anchors_sorted as = Inr () \<longleftrightarrow> sorted_wrt (<) (map a_frame_id as)"
proof -
  have "successively (\<lambda>a b. \<not> a_frame_id b \<le> a_frame_id a) as \<longleftrightarrow>
      sorted_wrt (\<lambda>a b. a_frame_id a < a_frame_id b) as"
    by (subst successively_conv_sorted_wrt [symmetric]) (auto simp: transp_def not_le)
  then show ?thesis
    by (simp add: validate_anchors_sorted_def any_pair_iff sorted_wrt_map)
qed

lemma sort_mentions_valid: "validate_mentions_sorted (sort_mentions ms) = Inr ()"
  by (simp add: validate_mentions_iff sort_mentions_def)

lemma sort_anchors_valid:
  assumes "distinct (map a_frame_id as)"
  shows "validate_anchors_sorted (sort_anchors as) = Inr ()"
proof -
  let ?s = "sort_anchors as"
  have "sorted (map (\<lambda>a. unat (a_frame_id a)) ?s)" by (simp add: sort_anchors_def)
  then have le: "sorted_wrt (\<le>) (map a_frame_id ?s)"
    by (simp add: sorted_wrt_map word_le_nat_alt)
  have "mset (map a_frame_id ?s) = mset (map a_frame_id as)" by (simp add: sort_anchors_def)
  with assms have "distinct (map a_frame_id ?s)" by (metis mset_eq_imp_distinct_iff)
  with le show ?thesis by (simp add: validate_anchors_iff strict_sorted_iff)
qed

section \<open>Lemmas: the track\<close>

lemma track_header_layout:
  "track_header e a fl = TEMPORAL_TRACK_MAGIC @ to_le 2 TEMPORAL_TRACK_VERSION @ to_le 2 fl @
     to_le 8 e @ to_le 8 a @ replicate 32 0"
  by (simp add: track_header_def Let_def TEMPORAL_TRACK_MAGIC_def buf_simps)

lemma length_track_header [simp]: "length (track_header e a fl) = 56"
  by (simp add: track_header_layout TEMPORAL_TRACK_MAGIC_def)

definition signed_header :: "u64 \<Rightarrow> u64 \<Rightarrow> u16 \<Rightarrow> bytes \<Rightarrow> bytes" where
  "signed_header e a fl cs = TEMPORAL_TRACK_MAGIC @ to_le 2 TEMPORAL_TRACK_VERSION @ to_le 2 fl @
     to_le 8 e @ to_le 8 a @ cs"

lemma length_magic [simp]: "length TEMPORAL_TRACK_MAGIC = 4"
  by (simp add: TEMPORAL_TRACK_MAGIC_def)

lemma length_signed_header [simp]: "length (signed_header e a fl cs) = 24 + length cs"
  by (simp add: signed_header_def)

lemma put_checksum:
  "length cs = 32 \<Longrightarrow> put_slice (track_header e a fl @ xs) 24 cs = signed_header e a fl cs @ xs"
  "put_slice (track_header e a fl) 24 (replicate 32 0) = track_header e a fl"
  "length cs = 32 \<Longrightarrow> put_slice (signed_header e a fl cs) 24 (replicate 32 0) = track_header e a fl"
  by (simp_all add: track_header_layout signed_header_def buf_simps)

lemma write_at_patch:
  assumes "pos \<le> length f" "i + length ys \<le> length xs"
  shows "write_at (write_at f pos xs) (pos + i) ys = write_at f pos (put_slice xs i ys)"
  using assms by (simp add: write_at_mid put_slice_def)

lemma signed_header_fields:
  assumes "length cs = 32"
  shows "bslice (signed_header e a fl cs) 0 4 = TEMPORAL_TRACK_MAGIC"
    "bslice (signed_header e a fl cs) 4 2 = to_le 2 TEMPORAL_TRACK_VERSION"
    "bslice (signed_header e a fl cs) 6 2 = to_le 2 fl"
    "bslice (signed_header e a fl cs) 8 8 = to_le 8 e"
    "bslice (signed_header e a fl cs) 16 8 = to_le 8 a"
    "bslice (signed_header e a fl cs) 24 32 = cs"
  using assms by (simp_all add: signed_header_def buf_simps)

lemma append_track_bytes:
  fixes ms :: "temporal_mention list" and fl :: u32
  assumes h: "hash_ok hash" and pos: "pos \<le> length f" and d: "distinct (map a_frame_id as)"
  defines "ms' \<equiv> sort_mentions ms" and "as' \<equiv> sort_anchors as"
  defines "e \<equiv> of_nat (length ms')" and "a \<equiv> of_nat (length as')"
  defines "b \<equiv> encode_mentions ms' @ encode_anchors as'"
  defines "cs \<equiv> hash (track_header e a (ucast fl) @ b)"
  shows "append_track hash f pos ms as fl =
    Inr (write_at f pos (signed_header e a (ucast fl) cs @ b), ms', as', pos, 56 + length b, cs)"
proof -
  have lc: "length cs = 32" using h by (simp add: cs_def hash_ok_def)
  let ?h = "track_header e a (ucast fl)"
  have w: "write_at (write_at (write_at f pos ?h) (pos + 56) (encode_mentions ms'))
      (pos + 56 + length (encode_mentions ms')) (encode_anchors as') = write_at f pos (?h @ b)"
    using write_at_twice [OF pos, of ?h "encode_mentions ms'"]
      write_at_twice [OF pos, of "?h @ encode_mentions ms'" "encode_anchors as'"]
    by (simp add: b_def add.assoc)
  have "write_at (write_at f pos (?h @ b)) (pos + 24) cs =
      write_at f pos (signed_header e a (ucast fl) cs @ b)"
    using write_at_patch [OF pos, of 24 cs "?h @ b"] lc put_checksum(1) by simp
  with w show ?thesis
    using sort_mentions_valid [of ms] sort_anchors_valid [OF d]
    unfolding append_track_def
    by (simp add: Let_def write_header_def patch_checksum_def put_checksum(2) ms'_def [symmetric]
        as'_def [symmetric] e_def [symmetric] a_def [symmetric] b_def [symmetric] cs_def [symmetric]
        add.assoc) (simp add: b_def)
qed


lemma validate_unit: "validate_mentions_sorted ms = Inr u \<longleftrightarrow> sorted (map mention_key ms)"
  "validate_anchors_sorted as = Inr u \<longleftrightarrow> sorted_wrt (<) (map a_frame_id as)"
  using validate_mentions_iff [of ms] validate_anchors_iff [of as] by simp_all

lemma map_res_length: "map_res g xs = Inr ys \<Longrightarrow> length ys = length xs"
  by (induction xs arbitrary: ys) (auto split: sum.splits)

lemma chunks_exact_aux_length [simp]: "length (chunks_exact_aux k n xs) = k"
  by (induction k n xs rule: chunks_exact_aux.induct) simp_all

lemma length_chunks_exact: "length (chunks_exact n xs) = length xs div n"
  by (simp add: chunks_exact_def)

lemma ucast_flags: "(ucast (from_le (to_le 2 (ucast (fl :: u32) :: u16)) :: u16) :: u32) = ucast (ucast fl :: u16)"
  by simp

text \<open>Reading a track whose bytes stand at \<open>pos\<close>.\<close>

lemma read_track_at:
  assumes h: "hash_ok hash" and f: "f = X @ signed_header e a fl cs @ mb @ ab @ Z"
    and e: "length mb = unat e * 32" "mb = encode_mentions ms" "sorted (map mention_key ms)"
    and a: "length ab = unat a * 24" "ab = encode_anchors as" "sorted_wrt (<) (map a_frame_id as)"
    and cs: "cs = hash (track_header e a fl @ mb @ ab)"
    and len: "len = 56 + length mb + length ab" "len \<le> MAX_TEMPORAL_TRACK_BYTES"
  shows "read_track hash f (length X) len = Inr \<lparr>mentions = ms, anchors = as, t_flags = ucast fl\<rparr>"
proof -
  have lc: "length cs = 32" using h by (simp add: cs hash_ok_def)
  let ?h = "signed_header e a fl cs"
  have r: "read_exact f (length X) 56 = Inr ?h"
    "read_exact f (length X + 56) (len - 56) = Inr (mb @ ab)"
    unfolding f using lc len(1) by (simp_all add: read_exact_def buf_simps bslice_def)
  have n: "\<not> MAX_TEMPORAL_TRACK_BYTES < len" "\<not> len < 56" "\<not> 2 ^ 64 \<le> unat e * 32"
    "\<not> 2 ^ 64 \<le> unat a * 24" "(56 + unat e * 32 + unat a * 24) mod 2 ^ 64 = len"
    "\<not> length (mb @ ab) < unat e * 32"
    using len e(1) a(1) by (simp_all add: MAX_TEMPORAL_TRACK_BYTES_def)
  have c: "hash (put_slice ?h 24 (replicate 32 0) @ mb @ ab) = cs"
    unfolding put_checksum(3) [OF lc] by (rule cs [symmetric])
  have d: "map_res (\<lambda>c. mention_into_high_level (mention_decode c))
      (chunks_exact 32 (take (unat e * 32) (mb @ ab))) = Inr ms"
    "map_res (\<lambda>c. anchor_into_high_level (anchor_decode c))
      (chunks_exact 24 (drop (unat e * 32) (mb @ ab))) = Inr as"
    using decode_mentions [of ms] decode_anchors [of as] e(1) by (simp_all add: e(2) a(2))
  have v: "validate_mentions_sorted ms = Inr ()" "validate_anchors_sorted as = Inr ()"
    using e(3) a(3) by (simp_all add: validate_unit)
  have w: "from_le (to_le 2 TEMPORAL_TRACK_VERSION) = TEMPORAL_TRACK_VERSION"
    "from_le (to_le 2 fl) = fl" "from_le (to_le 8 e) = e" "from_le (to_le 8 a) = a" by simp_all
  show ?thesis
    unfolding read_track_def HEADER_LEN_def CHECKSUM_OFFSET_def MENTION_RECORD_SIZE_def
      ANCHOR_RECORD_SIZE_def Let_def
    by (simp only: n r signed_header_fields [OF lc] w c d v if_False sum.case not_True_eq_False
        less_irrefl simp_thms)
qed

section \<open>Properties\<close>

text \<open>Temporal track round trip: appending mentions and anchors (at most one anchor per frame,
  within the size limit) at any position and reading the track back gives the mentions and
  anchors, sorted, and the low 16 bits of the flags; the checksum reported is the one
  \<open>calculate_checksum\<close> gives for the manifest.\<close>

theorem temporal_track_roundtrip:
  assumes "hash_ok hash" "pos \<le> length f" "distinct (map a_frame_id as)"
    and "56 + length ms * 32 + length as * 24 \<le> MAX_TEMPORAL_TRACK_BYTES"
  shows "\<exists>f' ms' as' len cs. append_track hash f pos ms as fl = Inr (f', ms', as', pos, len, cs) \<and>
    read_track hash f' pos len =
      Inr \<lparr>mentions = ms', anchors = as', t_flags = ucast (ucast fl :: u16)\<rparr> \<and>
    mset ms' = mset ms \<and> mset as' = mset as \<and> sorted (map mention_key ms') \<and>
    sorted_wrt (<) (map a_frame_id as') \<and> cs = calculate_checksum hash ms as fl"
proof -
  let ?ms = "sort_mentions ms" and ?as = "sort_anchors as"
  define e :: u64 where "e = of_nat (length ?ms)"
  define a :: u64 where "a = of_nat (length ?as)"
  define mb where "mb = encode_mentions ?ms"
  define ab where "ab = encode_anchors ?as"
  define cs where "cs = hash (track_header e a (ucast fl) @ mb @ ab)"
  define f' where "f' = write_at f pos (signed_header e a (ucast fl) cs @ mb @ ab)"
  have l: "length ?ms = length ms" "length ?as = length as"
    by (simp_all add: sort_mentions_def sort_anchors_def)
  have "length ms < 2 ^ 64" "length as < 2 ^ 64"
    using assms(4) by (simp_all add: MAX_TEMPORAL_TRACK_BYTES_def)
  then have n: "unat e = length ms" "unat a = length as"
    by (simp_all add: e_def a_def l unat_of_nat take_bit_eq_mod)
  obtain Z where f': "f' = take pos f @ signed_header e a (ucast fl) cs @ mb @ ab @ Z"
    using assms(2) by (simp add: f'_def write_at_mid)
  have app: "append_track hash f pos ms as fl = Inr (f', ?ms, ?as, pos, 56 + length mb + length ab, cs)"
    using append_track_bytes [OF assms(1-3), of ms fl]
    by (simp add: e_def a_def mb_def ab_def cs_def f'_def add.assoc)
  have v: "sorted (map mention_key ?ms)" "sorted_wrt (<) (map a_frame_id ?as)"
    using sort_mentions_valid [of ms] sort_anchors_valid [OF assms(3)]
    by (simp_all add: validate_mentions_iff validate_anchors_iff)
  have "read_track hash f' (length (take pos f)) (56 + length mb + length ab) =
      Inr \<lparr>mentions = ?ms, anchors = ?as, t_flags = ucast (ucast fl :: u16)\<rparr>"
    by (rule read_track_at [OF assms(1) f' _ mb_def v(1) _ ab_def v(2) cs_def refl])
      (use n l assms(4) in \<open>simp_all add: mb_def ab_def\<close>)
  moreover have "cs = calculate_checksum hash ms as fl"
    by (simp add: calculate_checksum_def cs_def e_def a_def mb_def ab_def Let_def)
  ultimately show ?thesis
    using app v assms(2) by (simp add: sort_mentions_def sort_anchors_def)
qed

definition sample_mention :: "i64 \<Rightarrow> temporal_mention" where
  "sample_mention t = \<lparr>ts_utc = t, m_frame_id = 1, m_byte_start = 0, m_byte_len = 5, kind = Date,
     confidence = 900, tz_hint_minutes = 0, m_flags = 0\<rparr>"

theorem temporal_track_roundtrip_witness:
  "\<exists>f' ms' as' len cs. append_track sum_hash [7] 1 [sample_mention 20, sample_mention (- 10)]
      [\<lparr>a_frame_id = 1, anchor_ts = 5, a_source = Metadata\<rparr>] 3 = Inr (f', ms', as', 1, len, cs) \<and>
    read_track sum_hash f' 1 len = Inr \<lparr>mentions = ms', anchors = as', t_flags = 3\<rparr>"
  using temporal_track_roundtrip [OF sum_hash_ok, of 1 "[7]"
      "[\<lparr>a_frame_id = 1, anchor_ts = 5, a_source = Metadata\<rparr>]"
      "[sample_mention 20, sample_mention (- 10)]" 3]
  by (fastforce simp: MAX_TEMPORAL_TRACK_BYTES_def)

text \<open>A temporal track is accepted only if it is consistent: the mentions are sorted, the anchors
  strictly increasing, the declared length is exactly that of the records (no wrap-around), and
  the stored checksum is the hash of the header, with the checksum field zeroed, and the body.\<close>

theorem temporal_read_sound:
  assumes "read_track hash f off len = Inr t"
  shows "sorted (map mention_key (mentions t)) \<and> sorted_wrt (<) (map a_frame_id (anchors t)) \<and>
    len = 56 + 32 * length (mentions t) + 24 * length (anchors t) \<and> off + len \<le> length f \<and>
    bslice f (off + 24) 32 =
      hash (put_slice (bslice f off 56) 24 (replicate 32 0) @ bslice f (off + 56) (len - 56))"
proof -
  define h where "h = bslice f off 56"
  define b where "b = bslice f (off + 56) (len - 56)"
  define en where "en = unat (from_le (bslice h 8 8) :: u64) * 32"
  define an where "an = unat (from_le (bslice h 16 8) :: u64) * 24"
  have bounds: "56 \<le> len" "len \<le> MAX_TEMPORAL_TRACK_BYTES" "off + 56 \<le> length f"
    "off + 56 + (len - 56) \<le> length f"
    and sizes: "en < 2 ^ 64" "an < 2 ^ 64" "(56 + en + an) mod 2 ^ 64 = len" "en \<le> length b"
    and cs: "hash (put_slice h 24 (replicate 32 0) @ b) = bslice h 24 32"
    and dec: "map_res (\<lambda>c. mention_into_high_level (mention_decode c)) (chunks_exact 32 (take en b)) =
        Inr (mentions t)"
      "map_res (\<lambda>c. anchor_into_high_level (anchor_decode c)) (chunks_exact 24 (drop en b)) =
        Inr (anchors t)"
    and ord: "sorted (map mention_key (mentions t))" "sorted_wrt (<) (map a_frame_id (anchors t))"
    using assms unfolding read_track_def h_def b_def en_def an_def
    by (auto simp: read_exact_def Let_def validate_unit split: if_splits sum.splits)
  have lb: "length b = len - 56" using bounds by (simp add: b_def)
  have "len < 2 ^ 64" using bounds(2) by (simp add: MAX_TEMPORAL_TRACK_BYTES_def)
  have total: "56 + en + an = len"
  proof (rule ccontr)
    assume "56 + en + an \<noteq> len"
    with sizes(3) have "2 ^ 64 \<le> 56 + en + an" by (metis mod_less not_le)
    then obtain k where k: "56 + en + an = 2 ^ 64 + k" using le_Suc_ex by blast
    have "k < 2 ^ 64" using k sizes(1,2,4) lb bounds(1) \<open>len < 2 ^ 64\<close> by linarith
    then have "k = len" using sizes(3) k by simp
    with k sizes(2,4) lb bounds(1) show False by linarith
  qed
  have "length (mentions t) * 32 = en" "length (anchors t) * 24 = an"
    using map_res_length [OF dec(1)] map_res_length [OF dec(2)] total lb sizes(4)
    by (simp_all add: length_chunks_exact en_def an_def min_def)
  moreover have "bslice h 24 32 = bslice f (off + 24) 32"
    by (simp add: h_def bslice_def drop_take min_def add.commute)
  ultimately show ?thesis using ord total cs bounds by (simp add: h_def b_def)
qed

theorem temporal_read_sound_witness:
  "\<exists>f' t cs. append_track sum_hash [] 0 [sample_mention 20] [] 0 =
      Inr (f', [sample_mention 20], [], 0, 88, cs) \<and> read_track sum_hash f' 0 88 = Inr t \<and>
      0 + 88 \<le> length f'"
proof -
  have d: "distinct (map a_frame_id ([] :: temporal_anchor list))" by simp
  note app = append_track_bytes [OF sum_hash_ok le0 d, of "[]" "[sample_mention 20]" 0]
  have s: "sort_mentions [sample_mention 20] = [sample_mention 20]" "sort_anchors [] = []"
    by (simp_all add: sort_mentions_def sort_anchors_def)
  let ?cs = "sum_hash (track_header 1 0 0 @ encode_mentions [sample_mention 20] @ encode_anchors [])"
  have w: "write_at [] 0 x = x" for x by (simp add: write_at_def put_slice_def)
  let ?f = "[] @ signed_header 1 0 0 ?cs @ encode_mentions [sample_mention 20] @ encode_anchors [] @ []"
  have r: "read_track sum_hash ?f 0 88 =
      Inr \<lparr>mentions = [sample_mention 20], anchors = [], t_flags = ucast (0 :: u16)\<rparr>"
    using read_track_at [where hash = sum_hash and X = "[]" and Z = "[]" and e = 1 and a = 0 and fl = 0
        and cs = ?cs and ms = "[sample_mention 20]" and as = "[]" and f = ?f and len = 88
        and mb = "encode_mentions [sample_mention 20]" and ab = "encode_anchors []"]
    by (simp add: sum_hash_ok MAX_TEMPORAL_TRACK_BYTES_def)
  have "append_track sum_hash [] 0 [sample_mention 20] [] 0 = Inr (?f, [sample_mention 20], [], 0, 88, ?cs)"
    using app by (simp add: s w)
  with temporal_read_sound [OF r] r show ?thesis by auto
qed


lemma length_le_take: "xs = take (length xs) ys \<Longrightarrow> length xs \<le> length ys"
  by (metis length_take min.cobounded1)

text \<open>The window of a sorted mention list is exactly the mentions whose timestamp lies in the
  closed interval (and is empty for an interval that ends before it starts).\<close>

theorem temporal_window_exact:
  assumes "sorted (map mention_key ms)"
  shows "let (lo, hi) = window ms s e in lo \<le> hi \<and> hi \<le> length ms \<and>
    take (hi - lo) (drop lo ms) =
      filter (\<lambda>m. sint s \<le> sint (ts_utc m) \<and> sint (ts_utc m) \<le> sint e) ms"
proof (cases "ms = [] \<or> sint e < sint s")
  case True
  then show ?thesis by (auto simp: window_def filter_empty_conv)
next
  case False
  have srt: "sorted (map (\<lambda>m. sint (ts_utc m)) ms)"
    using assms by (simp add: sorted_wrt_map mention_key_def less_eq_prod_def)
      (auto elim!: sorted_wrt_mono_rel [rotated])
  let ?lt = "\<lambda>m. sint (ts_utc m) < sint s" and ?le = "\<lambda>m. sint (ts_utc m) \<le> sint e"
  from srt have "takeWhile ?lt ms = take (length (takeWhile ?lt ms)) (takeWhile ?le ms) \<and>
      drop (length (takeWhile ?lt ms)) (takeWhile ?le ms) =
        filter (\<lambda>m. sint s \<le> sint (ts_utc m) \<and> sint (ts_utc m) \<le> sint e) ms"
  proof (induction ms)
    case (Cons m ms)
    have "filter (\<lambda>m. sint s \<le> sint (ts_utc m) \<and> sint (ts_utc m) \<le> sint e) ms = takeWhile ?le ms"
      if "sint s \<le> sint (ts_utc m)"
      using Cons.prems that
    proof (induction ms)
      case (Cons a ms)
      have "takeWhile ?le ms = []" if "\<not> ?le a"
        using Cons.prems that by (cases ms) auto
      with Cons show ?case by auto
    qed simp
    moreover have "\<forall>x \<in> set ms. sint e < sint (ts_utc x)" if "sint e < sint (ts_utc m)"
      using Cons.prems that by auto
    ultimately show ?case using Cons False by (auto simp: filter_empty_conv not_le not_less)
  qed simp
  then have pre: "takeWhile ?lt ms = take (length (takeWhile ?lt ms)) (takeWhile ?le ms)"
    and d0: "drop (length (takeWhile ?lt ms)) (takeWhile ?le ms) =
      filter (\<lambda>m. sint s \<le> sint (ts_utc m) \<and> sint (ts_utc m) \<le> sint e) ms"
    by (rule conjunct1, elim conjunct2)
  have d: "drop (length (takeWhile ?lt ms)) (take (length (takeWhile ?le ms)) ms) =
      filter (\<lambda>m. sint s \<le> sint (ts_utc m) \<and> sint (ts_utc m) \<le> sint e) ms"
    by (subst takeWhile_eq_take [symmetric]) (rule d0)
  from pre have t: "length (takeWhile ?lt ms) \<le> length (takeWhile ?le ms)" by (rule length_le_take)
  have "window ms s e = (length (takeWhile ?lt ms), length (takeWhile ?le ms))"
    using False by (simp add: window_def partition_point_def)
  then show ?thesis using d t by (simp only: drop_take length_takeWhile_le Let_def prod.case simp_thms)
qed

theorem temporal_window_exact_witness:
  "let (lo, hi) = window [sample_mention 3, sample_mention 5] 4 9 in
     take (hi - lo) (drop lo [sample_mention 3, sample_mention 5]) = [sample_mention 5]"
proof -
  have "sorted (map mention_key [sample_mention 3, sample_mention 5])"
    by (simp add: mention_key_def sample_mention_def less_eq_prod_def)
  from temporal_window_exact [OF this, of 4 9] show ?thesis
    by (auto simp: sample_mention_def split: prod.splits)
qed

text \<open>The declared counts are multiplied without overflow, but their sum with the header size is
  not checked: with \<open>2 ^ 58\<close> mentions and \<open>(2 ^ 63 + 16) div 24\<close> anchors the sum wraps to 72,
  a 72-byte track passes the length check, and with a matching checksum the reader panics at the
  slice of the mention bytes.\<close>

theorem temporal_count_wrap_panics:
  fixes e a :: u64
  defines "e \<equiv> of_nat (2 ^ 58)" and "a \<equiv> of_nat ((2 ^ 63 + 16) div 24)"
  assumes "hash_ok hash"
  shows "read_track hash (signed_header e a 0 (hash (track_header e a 0 @ replicate 16 0)) @
    replicate 16 0) 0 72 = Inl (Panic ''range end index out of range'')"
proof -
  let ?cs = "hash (track_header e a 0 @ replicate 16 0)"
  let ?h = "signed_header e a 0 ?cs"
  have lc: "length ?cs = 32" using assms(3) by (simp add: hash_ok_def)
  have u: "unat e = 2 ^ 58" "unat a = (2 ^ 63 + 16) div 24"
    unfolding e_def a_def by (simp_all add: unat_of_nat take_bit_eq_mod)
  have n: "\<not> MAX_TEMPORAL_TRACK_BYTES < 72" "\<not> (72 :: nat) < 56" "\<not> 2 ^ 64 \<le> unat e * 32"
    "\<not> 2 ^ 64 \<le> unat a * 24" "(56 + unat e * 32 + unat a * 24) mod 2 ^ 64 = 72"
    "length (replicate 16 (0 :: u8)) < unat e * 32"
    by (simp_all add: u MAX_TEMPORAL_TRACK_BYTES_def)
  have r: "read_exact (?h @ replicate 16 0) 0 56 = Inr ?h"
    "read_exact (?h @ replicate 16 0) (0 + 56) (72 - 56) = Inr (replicate 16 0)"
    using lc by (simp_all add: read_exact_def buf_simps)
  have w: "from_le (to_le 2 TEMPORAL_TRACK_VERSION) = TEMPORAL_TRACK_VERSION"
    "from_le (to_le 8 e) = e" "from_le (to_le 8 a) = a" by simp_all
  show ?thesis
    unfolding read_track_def HEADER_LEN_def CHECKSUM_OFFSET_def MENTION_RECORD_SIZE_def
      ANCHOR_RECORD_SIZE_def Let_def
    by (simp only: n r signed_header_fields [OF lc] w put_checksum(3) [OF lc] if_False if_True
        sum.case not_True_eq_False less_irrefl simp_thms)
qed

end
