(* ===== verification/Text_Norm.thy ===== *)
theory Text_Norm
  imports Text_Base
begin

text \<open>
  Text normalisation (\<open>text.rs\<close>): \<open>normalize_text\<close>, \<open>truncate_at_grapheme_boundary\<close> and
  the PDF word-repair pass \<open>fix_pdf_spacing\<close>.  The crates \<open>unicode_normalization\<close> and
  \<open>unicode_segmentation\<close> are the parameters \<open>nfkc\<close> and \<open>graphemes\<close>; what is relied
  on is that the graphemes of a string are not empty and concatenate to it.  The Unicode table
  behind \<open>char::is_alphabetic\<close> is the parameter \<open>alpha\<close>.
\<close>

section \<open>normalize text\<close>

record normalized_text =
  norm_text :: ustr
  truncated :: bool

definition is_truncated :: "normalized_text \<Rightarrow> bool" where
  "is_truncated t = truncated t"

text \<open>\<open>while cleaned.ends_with(' ') { cleaned.pop(); }\<close>\<close>

definition pop_spaces :: "ustr \<Rightarrow> ustr" where
  "pop_spaces s = rev (dropWhile (\<lambda>c. c = 32) (rev s))"

text \<open>One turn of the cleaning loop; the state is \<open>(cleaned, last_was_space, last_was_newline)\<close>.\<close>

definition clean_step :: "ustr \<times> bool \<times> bool \<Rightarrow> uchar \<Rightarrow> ustr \<times> bool \<times> bool" where
  "clean_step st ch0 = (case st of (cleaned, last_was_space, last_was_newline) \<Rightarrow>
     let ch1 = (if ch0 = 13 then 10 else ch0); ch = (if ch1 = 9 then 32 else ch1) in
     if is_control ch \<and> ch \<noteq> 10 then st
     else if ch = 10 then
       (if last_was_newline then st else (pop_spaces cleaned @ [10], False, True))
     else if is_whitespace ch then
       (if last_was_space \<or> ends_with cleaned [10] then st else (cleaned @ [32], True, False))
     else (cleaned @ [ch], False, False))"

definition clean :: "ustr \<Rightarrow> ustr" where
  "clean s = fst (foldl clean_step ([], False, False) s)"

text \<open>The truncation loop over the graphemes.\<close>

fun take_graphemes :: "nat \<Rightarrow> nat \<Rightarrow> ustr \<Rightarrow> ustr list \<Rightarrow> ustr \<times> bool" where
  "take_graphemes limit consumed out [] = (out, False)"
| "take_graphemes limit consumed out (g # gs) =
     (let next = consumed + byte_len g in
      if limit < next then (out, True) else take_graphemes limit next (out @ g) gs)"

definition normalize_text ::
  "(ustr \<Rightarrow> ustr) \<Rightarrow> (ustr \<Rightarrow> ustr list) \<Rightarrow> ustr \<Rightarrow> nat \<Rightarrow> normalized_text option" where
  "normalize_text nfkc graphemes input limit0 =
     (let limit = max limit0 1;
          cleaned = clean (nfkc input);
          trimmed = trim cleaned
      in if trimmed = [] then None
         else
           (let (out, trunc) = take_graphemes limit 0 [] (graphemes trimmed);
                (out, trunc) =
                  (if out = [] then
                     (case graphemes trimmed of
                        [] \<Rightarrow> (out, trunc) | first # _ \<Rightarrow> (out @ first, True))
                   else (out, trunc))
            in Some \<lparr>norm_text = out, truncated = trunc\<rparr>))"

text \<open>The loop of \<open>truncate_at_grapheme_boundary\<close>: \<open>idx\<close> runs over \<open>grapheme_indices\<close>.\<close>

fun boundary_loop :: "nat \<Rightarrow> nat \<Rightarrow> nat \<Rightarrow> ustr list \<Rightarrow> nat" where
  "boundary_loop limit idx en [] = en"
| "boundary_loop limit idx en (g # gs) =
     (let next = idx + byte_len g in
      if limit < next then en else boundary_loop limit next next gs)"

definition truncate_at_grapheme_boundary :: "(ustr \<Rightarrow> ustr list) \<Rightarrow> ustr \<Rightarrow> nat \<Rightarrow> nat" where
  "truncate_at_grapheme_boundary graphemes s limit =
     (if byte_len s \<le> limit then byte_len s
      else
        (let en = boundary_loop limit 0 0 (graphemes s) in
         if en = 0 then (case graphemes s of [] \<Rightarrow> 0 | g # _ \<Rightarrow> byte_len g) else en))"

section \<open>fix pdf spacing\<close>

definition VALID_SINGLE_CHARS :: "uchar list" where
  "VALID_SINGLE_CHARS = lit ''aiAI''"

definition COMMON_WORDS :: "ustr list" where
  "COMMON_WORDS = map lit
    [''a'', ''an'', ''as'', ''at'', ''be'', ''by'', ''do'', ''go'', ''he'', ''if'', ''in'',
     ''is'', ''it'', ''me'', ''my'', ''no'', ''of'', ''on'', ''or'', ''so'', ''to'', ''up'',
     ''us'', ''we'', ''am'', ''are'', ''can'', ''did'', ''for'', ''get'', ''got'', ''had'',
     ''has'', ''her'', ''him'', ''his'', ''its'', ''let'', ''may'', ''nor'', ''not'', ''now'',
     ''off'', ''old'', ''one'', ''our'', ''out'', ''own'', ''ran'', ''run'', ''saw'', ''say'',
     ''see'', ''set'', ''she'', ''the'', ''too'', ''two'', ''use'', ''was'', ''way'', ''who'',
     ''why'', ''yet'', ''you'', ''all'', ''and'', ''any'', ''but'', ''few'', ''how'', ''man'',
     ''new'', ''per'', ''put'', ''via'']"

definition is_common_word :: "ustr \<Rightarrow> bool" where
  "is_common_word s = (to_ascii_lowercase s \<in> set COMMON_WORDS)"

definition is_valid_single_char :: "ustr \<Rightarrow> bool" where
  "is_valid_single_char s =
     (byte_len s = 1 \<and> (case s of [] \<Rightarrow> False | c # _ \<Rightarrow> c \<in> set VALID_SINGLE_CHARS))"

definition is_purely_alpha :: "(uchar \<Rightarrow> bool) \<Rightarrow> ustr \<Rightarrow> bool" where
  "is_purely_alpha alpha s = (s \<noteq> [] \<and> list_all alpha s)"

definition alpha_len :: "(uchar \<Rightarrow> bool) \<Rightarrow> ustr \<Rightarrow> nat" where
  "alpha_len alpha s = length (filter alpha s)"

definition is_orphan :: "(uchar \<Rightarrow> bool) \<Rightarrow> ustr \<Rightarrow> bool" where
  "is_orphan alpha word =
     (alpha_len alpha word = 1 \<and> is_purely_alpha alpha word \<and> \<not> is_valid_single_char word)"

definition is_short_fragment :: "(uchar \<Rightarrow> bool) \<Rightarrow> ustr \<Rightarrow> bool" where
  "is_short_fragment alpha word =
     (let len = alpha_len alpha word in
      2 \<le> len \<and> len \<le> 3 \<and> is_purely_alpha alpha word \<and> \<not> is_common_word word)"

definition is_likely_suffix :: "(uchar \<Rightarrow> bool) \<Rightarrow> ustr \<Rightarrow> bool" where
  "is_likely_suffix alpha word =
     (alpha_len alpha word = 4 \<and> is_purely_alpha alpha word \<and> \<not> is_common_word word)"

definition should_start_merge :: "(uchar \<Rightarrow> bool) \<Rightarrow> ustr \<Rightarrow> ustr \<Rightarrow> bool" where
  "should_start_merge alpha word next =
     (if \<not> is_purely_alpha alpha word \<or> \<not> is_purely_alpha alpha next then False
      else
        (let word_len = alpha_len alpha word; next_len = alpha_len alpha next;
             word_common = is_common_word word; next_common = is_common_word next;
             word_orphan = is_orphan alpha word; next_orphan = is_orphan alpha next;
             word_fragment = is_short_fragment alpha word;
             next_fragment = is_short_fragment alpha next;
             next_suffix = is_likely_suffix alpha next
         in if word_orphan then True
            else if next_orphan then True
            else if word_fragment \<and> (next_fragment \<or> next_orphan \<or> next_suffix) then True
            else if is_valid_single_char word \<and> next_len \<le> 3 \<and> \<not> next_common then True
            else if word_common \<and> word_len \<le> 3 \<and> (next_fragment \<or> next_suffix) then True
            else False))"

definition should_continue_merge :: "(uchar \<Rightarrow> bool) \<Rightarrow> ustr \<Rightarrow> ustr \<Rightarrow> bool \<Rightarrow> bool" where
  "should_continue_merge alpha current next had_short_fragment =
     (if \<not> had_short_fragment \<or> \<not> is_purely_alpha alpha next then False
      else
        (let next_len = alpha_len alpha next in
         if next_len \<le> 3 then True
         else if next_len = 4 \<and> \<not> is_common_word next \<and> alpha_len alpha current \<le> 5 then True
         else False))"

text \<open>The inner loop that keeps merging; it returns the merged word and the words left.\<close>

fun merge_loop :: "(uchar \<Rightarrow> bool) \<Rightarrow> ustr \<Rightarrow> bool \<Rightarrow> ustr list \<Rightarrow> ustr \<times> ustr list" where
  "merge_loop alpha merged had [] = (merged, [])"
| "merge_loop alpha merged had (w # ws) =
     (if should_continue_merge alpha merged w had
      then merge_loop alpha (merged @ w)
        (had \<or> is_short_fragment alpha w \<or> is_orphan alpha w) ws
      else (merged, w # ws))"

lemma merge_loop_length: "length (snd (merge_loop alpha m had ws)) \<le> length ws"
  by (induction alpha m had ws rule: merge_loop.induct) (auto intro: le_SucI)

function (sequential) fix_words :: "(uchar \<Rightarrow> bool) \<Rightarrow> ustr list \<Rightarrow> ustr list" where
  "fix_words alpha [] = []"
| "fix_words alpha [word] = [word]"
| "fix_words alpha (word # next # ws) =
     (if should_start_merge alpha word next then
        (let had = (is_short_fragment alpha word \<or> is_short_fragment alpha next \<or>
               is_orphan alpha word \<or> is_orphan alpha next \<or>
               (is_valid_single_char word \<and> alpha_len alpha next \<le> 3));
             r = merge_loop alpha (word @ next) had ws
         in fst r # fix_words alpha (snd r))
      else word # fix_words alpha (next # ws))"
  by pat_completeness auto
termination
  by (relation "measure (\<lambda>(alpha, ws). length ws)")
    (auto simp: less_Suc_eq_le intro: le_trans [OF merge_loop_length])

definition fix_pdf_spacing :: "(uchar \<Rightarrow> bool) \<Rightarrow> ustr \<Rightarrow> ustr" where
  "fix_pdf_spacing alpha input =
     (if byte_len input < 3 \<or> 32 \<notin> set input then input
      else
        (let words = split_whitespace input in
         if length words < 2 then input
         else join [32] (fix_words alpha words)))"

section \<open>Lemmas: the cleaning pass\<close>

text \<open>A canonical text has no control character but the newline, no white space but space and
  newline, and never two white-space characters in a row.\<close>

definition clean_char :: "uchar \<Rightarrow> bool" where
  "clean_char c = ((\<not> is_control c \<or> c = 10) \<and> (is_whitespace c \<longrightarrow> c = 10 \<or> c = 32))"

definition spaced :: "ustr \<Rightarrow> bool" where
  "spaced s = (list_all clean_char s \<and> successively (\<lambda>a b. \<not> (is_whitespace a \<and> is_whitespace b)) s)"

definition canonical :: "ustr \<Rightarrow> bool" where
  "canonical s = (s \<noteq> [] \<and> spaced s \<and> \<not> is_whitespace (hd s) \<and> \<not> is_whitespace (last s))"

lemma spaced_append: "spaced (s @ t) \<Longrightarrow> spaced s \<and> spaced t"
  by (auto simp: spaced_def successively_append_iff)

lemma spaced_snoc: "spaced s \<Longrightarrow> clean_char c \<Longrightarrow>
    (s \<noteq> [] \<Longrightarrow> is_whitespace c \<Longrightarrow> \<not> is_whitespace (last s)) \<Longrightarrow> spaced (s @ [c])"
  by (auto simp: spaced_def successively_append_iff)

lemma space_chars [simp]: "is_whitespace 32" "is_whitespace 10" "clean_char 32" "clean_char 10"
  by (simp_all add: is_whitespace_def clean_char_def is_control_def)

lemma pop_spaces_snoc [simp]:
  "pop_spaces (s @ [c]) = (if c = 32 then pop_spaces s else s @ [c])" "pop_spaces [] = []"
  by (simp_all add: pop_spaces_def)

lemma pop_spaces_spaced:
  "spaced s \<Longrightarrow> s = [] \<or> last s \<noteq> 10 \<Longrightarrow>
     spaced (pop_spaces s) \<and> (pop_spaces s \<noteq> [] \<longrightarrow> \<not> is_whitespace (last (pop_spaces s)))"
proof (cases s rule: rev_cases)
  case (snoc t c)
  assume s: "spaced s" and l: "s = [] \<or> last s \<noteq> 10"
  show ?thesis
  proof (cases "c = 32")
    case True
    from s snoc have t: "spaced t" by (auto dest: spaced_append)
    from s snoc True have "t \<noteq> [] \<Longrightarrow> \<not> is_whitespace (last t)"
      by (auto simp: spaced_def successively_append_iff)
    then have "pop_spaces t = t" by (cases t rule: rev_cases) auto
    with t snoc True \<open>t \<noteq> [] \<Longrightarrow> \<not> is_whitespace (last t)\<close> show ?thesis by simp
  next
    case False
    with s l snoc show ?thesis by (auto simp: spaced_def clean_char_def)
  qed
qed (simp add: spaced_def)

definition clean_inv :: "ustr \<times> bool \<times> bool \<Rightarrow> bool" where
  "clean_inv st = (case st of (s, sp, nl) \<Rightarrow>
     spaced s \<and> (sp \<longleftrightarrow> ends_with s [32]) \<and> (nl \<longleftrightarrow> ends_with s [10]))"

lemma clean_step_inv: "clean_inv st \<Longrightarrow> clean_inv (clean_step st c)"
proof -
  assume inv: "clean_inv st"
  obtain s sp nl where st: "st = (s, sp, nl)" by (cases st) auto
  define ch where "ch = (let ch1 = (if c = 13 then 10 else c) in if ch1 = 9 then 32 else ch1)"
  have step: "clean_step st c =
     (if is_control ch \<and> ch \<noteq> 10 then st
      else if ch = 10 then (if nl then st else (pop_spaces s @ [10], False, True))
      else if is_whitespace ch then
        (if sp \<or> ends_with s [10] then st else (s @ [32], True, False))
      else (s @ [ch], False, False))"
    by (simp add: clean_step_def st ch_def Let_def)
  have sp: "spaced s" "sp \<longleftrightarrow> ends_with s [32]" "nl \<longleftrightarrow> ends_with s [10]"
    using inv by (simp_all add: clean_inv_def st)
  have ws: "s \<noteq> [] \<Longrightarrow> is_whitespace (last s) \<Longrightarrow> last s = 10 \<or> last s = 32"
    using sp(1) by (cases s rule: rev_cases) (auto simp: spaced_def clean_char_def)
  show ?thesis
  proof (cases "ch = 10 \<and> \<not> nl")
    case True
    then have "s = [] \<or> last s \<noteq> 10" using sp(3) by (auto simp: ends_with_single)
    from pop_spaces_spaced [OF sp(1) this] have "spaced (pop_spaces s @ [10])"
      by (auto intro: spaced_snoc)
    with True show ?thesis unfolding step by (simp add: is_control_def clean_inv_def ends_with_single)
  next
    case False
    have "spaced (s @ [32])" if "\<not> sp" "\<not> ends_with s [10]"
      using that sp ws by (auto simp: ends_with_single intro!: spaced_snoc)
    moreover have "spaced (s @ [ch])" if "\<not> is_whitespace ch" "\<not> (is_control ch \<and> ch \<noteq> 10)"
      using that sp(1) by (auto simp: clean_char_def intro!: spaced_snoc)
    ultimately show ?thesis
      unfolding step using False sp
      by (auto simp: st clean_inv_def ends_with_single is_control_def)
  qed
qed

lemma clean_spaced: "spaced (clean s)"
proof -
  have "clean_inv st \<Longrightarrow> clean_inv (foldl clean_step st s)" for st
    by (induction s arbitrary: st) (simp_all add: clean_step_inv)
  then have "clean_inv (foldl clean_step ([], False, False) s)"
    by (simp add: clean_inv_def spaced_def ends_with_def)
  then show ?thesis by (simp add: clean_def clean_inv_def case_prod_beta)
qed

lemma canonical_trim_clean: "trim (clean s) \<noteq> [] \<Longrightarrow> canonical (trim (clean s))"
  using trim_infix [of "clean s"] clean_spaced [of s] trim_ends [of "clean s"]
  unfolding canonical_def by (metis spaced_append)

lemma clean_fix_state:
  "spaced s \<Longrightarrow> foldl clean_step ([], False, False) s = (s, ends_with s [32], ends_with s [10])"
proof (induction s rule: rev_induct)
  case Nil
  then show ?case by (simp add: ends_with_def)
next
  case (snoc c s)
  then have sp: "spaced s" and c: "clean_char c"
    and w: "s \<noteq> [] \<Longrightarrow> is_whitespace c \<Longrightarrow> \<not> is_whitespace (last s)"
    by (auto simp: spaced_def successively_append_iff)
  have nr: "c \<noteq> 13" "c \<noteq> 9" using c by (auto simp: clean_char_def is_control_def)
  have "pop_spaces s = s" if "c = 10"
    using w that by (cases s rule: rev_cases) auto
  then show ?case
    using snoc.IH [OF sp] c w nr
    by (auto simp: clean_step_def Let_def clean_char_def ends_with_single)
qed

lemma clean_fix: "spaced s \<Longrightarrow> clean s = s"
  by (simp add: clean_def clean_fix_state)

section \<open>Lemmas: truncation\<close>

lemma take_graphemes_prefix:
  "take_graphemes limit n out gs = (r, t) \<Longrightarrow>
     \<exists>k \<le> length gs. r = out @ concat (take k gs) \<and> (t \<longleftrightarrow> k < length gs) \<and>
       (k = 0 \<or> n + byte_len (concat (take k gs)) \<le> limit)"
proof (induction limit n out gs rule: take_graphemes.induct)
  case (2 limit n out g gs)
  show ?case
  proof (cases "limit < n + byte_len g")
    case True
    with 2 have "r = out" "t" by simp_all
    then show ?thesis by (intro exI [of _ 0]) simp
  next
    case False
    with 2 obtain k where "k \<le> length gs" "r = (out @ g) @ concat (take k gs)"
      "t \<longleftrightarrow> k < length gs" "k = 0 \<or> n + byte_len g + byte_len (concat (take k gs)) \<le> limit"
      by auto
    with False show ?thesis by (intro exI [of _ "Suc k"]) auto
  qed
qed simp

lemma take_graphemes_all:
  "n + byte_len (concat gs) \<le> limit \<Longrightarrow> take_graphemes limit n out gs = (out @ concat gs, False)"
  by (induction limit n out gs rule: take_graphemes.induct) simp_all

definition segments :: "(ustr \<Rightarrow> ustr list) \<Rightarrow> bool" where
  "segments graphemes = (\<forall>s. concat (graphemes s) = s \<and> [] \<notin> set (graphemes s))"

lemma normalize_text_all:
  assumes "segments g" "byte_len (trim (clean (nfkc s))) \<le> limit" "trim (clean (nfkc s)) \<noteq> []"
  shows "normalize_text nfkc g s limit =
    Some \<lparr>norm_text = trim (clean (nfkc s)), truncated = False\<rparr>"
  using assms take_graphemes_all [of 0 "g (trim (clean (nfkc s)))" "max limit 1" "[]"]
  by (simp add: normalize_text_def Let_def segments_def)

lemma boundary_loop_cut:
  "idx \<le> en \<or> en = idx \<Longrightarrow> en = idx \<Longrightarrow> \<exists>k \<le> length gs. boundary_loop limit idx en gs =
     idx + byte_len (concat (take k gs)) \<and> (k = 0 \<or> boundary_loop limit idx en gs \<le> limit)"
proof (induction limit idx en gs rule: boundary_loop.induct)
  case (1 limit idx en)
  then show ?case by simp
next
  case (2 limit idx en g gs)
  show ?case
  proof (cases "limit < idx + byte_len g")
    case True
    with 2(3) show ?thesis by (intro exI [of _ 0]) simp
  next
    case False
    with 2 obtain k where "k \<le> length gs"
      "boundary_loop limit (idx + byte_len g) (idx + byte_len g) gs =
         idx + byte_len g + byte_len (concat (take k gs))"
      "k = 0 \<or> boundary_loop limit (idx + byte_len g) (idx + byte_len g) gs \<le> limit"
      by auto
    with False show ?thesis by (intro exI [of _ "Suc k"]) auto
  qed
qed

section \<open>Lemmas: word repair\<close>

lemma merge_loop_groups:
  "merge_loop alpha m had ws = (m', r) \<Longrightarrow> \<exists>gs. m' = m @ concat gs \<and> ws = gs @ r \<and>
     list_all (is_purely_alpha alpha) gs"
proof (induction alpha m had ws rule: merge_loop.induct)
  case (2 alpha m had w ws)
  show ?case
  proof (cases "should_continue_merge alpha m w had")
    case True
    with 2 obtain gs where "m' = (m @ w) @ concat gs" "ws = gs @ r"
      "list_all (is_purely_alpha alpha) gs" by auto
    moreover have "is_purely_alpha alpha w"
      using True by (simp add: should_continue_merge_def split: if_splits)
    ultimately show ?thesis by (intro exI [of _ "w # gs"]) simp
  next
    case False
    with 2(2) show ?thesis by (intro exI [of _ "[]"]) simp
  qed
qed simp

definition word_groups :: "(uchar \<Rightarrow> bool) \<Rightarrow> ustr list \<Rightarrow> ustr list list \<Rightarrow> bool" where
  "word_groups alpha ws wss = (concat wss = ws \<and>
     (\<forall>g \<in> set wss. g \<noteq> [] \<and> (length g = 1 \<or> list_all (is_purely_alpha alpha) g)))"

lemma word_groups_Cons:
  "word_groups alpha ws wss \<Longrightarrow> g \<noteq> [] \<Longrightarrow> length g = 1 \<or> list_all (is_purely_alpha alpha) g \<Longrightarrow>
     word_groups alpha (g @ ws) (g # wss)"
  by (auto simp: word_groups_def)

lemma fix_words_groups: "\<exists>wss. fix_words alpha ws = map concat wss \<and> word_groups alpha ws wss"
proof (induction alpha ws rule: fix_words.induct)
  case (1 alpha)
  then show ?case by (intro exI [of _ "[]"]) (simp add: word_groups_def)
next
  case (2 alpha w)
  then show ?case by (intro exI [of _ "[[w]]"]) (simp add: word_groups_def)
next
  case (3 alpha w n ws)
  show ?case
  proof (cases "should_start_merge alpha w n")
    case True
    define had where "had \<longleftrightarrow> is_short_fragment alpha w \<or> is_short_fragment alpha n \<or>
      is_orphan alpha w \<or> is_orphan alpha n \<or> (is_valid_single_char w \<and> alpha_len alpha n \<le> 3)"
    obtain m r where mr: "merge_loop alpha (w @ n) had ws = (m, r)" by fastforce
    from merge_loop_groups [OF mr] obtain gs where gs: "m = w @ n @ concat gs" "ws = gs @ r"
      "list_all (is_purely_alpha alpha) gs" by auto
    have "\<exists>wss. fix_words alpha r = map concat wss \<and> word_groups alpha r wss"
      using 3(1) [OF True had_def refl] by (simp add: mr)
    then obtain wss where wss: "fix_words alpha r = map concat wss" "word_groups alpha r wss" by blast
    have a: "fix_words alpha (w # n # ws) = map concat ((w # n # gs) # wss)"
      using True wss(1) gs(1) mr by (simp add: had_def [symmetric])
    have "list_all (is_purely_alpha alpha) (w # n # gs)"
      using True gs(3) by (simp add: should_start_merge_def split: if_splits)
    then have "word_groups alpha ((w # n # gs) @ r) ((w # n # gs) # wss)"
      by (intro word_groups_Cons [OF wss(2)]) auto
    then have b: "word_groups alpha (w # n # ws) ((w # n # gs) # wss)" using gs(2) by simp
    from a b show ?thesis by blast
  next
    case False
    then obtain wss where "fix_words alpha (n # ws) = map concat wss"
      "word_groups alpha (n # ws) wss" using 3(2) by blast
    with False show ?thesis
      using word_groups_Cons [of alpha "n # ws" wss "[w]"] by (intro exI [of _ "[w] # wss"]) simp
  qed
qed

section \<open>Lemmas: the visible characters\<close>

definition visible :: "ustr \<Rightarrow> ustr" where
  "visible s = filter (\<lambda>c. \<not> is_whitespace c \<and> \<not> is_control c) s"

lemma visible_append [simp]: "visible (s @ t) = visible s @ visible t" "visible [] = []"
  "visible (c # s) = (if \<not> is_whitespace c \<and> \<not> is_control c then [c] else []) @ visible s"
  by (simp_all add: visible_def)

lemma visible_pop_spaces [simp]: "visible (pop_spaces s) = visible s"
  by (induction s rule: rev_induct) simp_all

lemma tab_cr_chars [simp]: "is_whitespace 9" "is_whitespace 13" "is_control 9" "is_control 13"
  "is_control 10" "\<not> is_control 32"
  by (simp_all add: is_whitespace_def is_control_def)

lemma visible_clean_step:
  "visible (fst (clean_step st c)) = visible (fst st) @ visible [c]"
  by (cases st; cases "c = 9"; cases "c = 13") (simp_all add: clean_step_def Let_def)

lemma visible_clean: "visible (clean s) = visible s"
proof -
  have "visible (fst (foldl clean_step st s)) = visible (fst st) @ visible s" for st
    by (induction s arbitrary: st) (simp_all add: visible_clean_step)
  then show ?thesis by (simp add: clean_def)
qed

lemma visible_whitespace: "list_all is_whitespace w \<Longrightarrow> visible w = []"
  by (simp add: visible_def list_all_iff)

lemma visible_trim: "visible (trim s) = visible s"
  using trim_infix [of s] by (metis append_Nil append_Nil2 visible_append(1) visible_whitespace)

lemma visible_spaced: "spaced s \<Longrightarrow> visible s = filter (\<lambda>c. \<not> is_whitespace c) s"
  by (auto simp: visible_def spaced_def list_all_iff clean_char_def intro!: filter_cong)

section \<open>Properties\<close>

text \<open>Normalisation returns nothing exactly when the NFKC form has no visible character.
  Otherwise the result is a non-empty prefix of a canonical text (no control characters, single
  separators, no blank line, no white space at the ends) that keeps every visible character in
  order; a strict prefix is reported as truncated; the result fits the byte limit or is the first
  grapheme; and normalising a complete result again changes nothing.\<close>

theorem normalize_text_spec:
  assumes g: "segments graphemes"
  shows "case normalize_text nfkc graphemes input limit of
      None \<Rightarrow> visible (nfkc input) = []
    | Some n \<Rightarrow> norm_text n \<noteq> [] \<and> visible (nfkc input) \<noteq> [] \<and>
        (\<exists>rest. canonical (norm_text n @ rest) \<and>
          visible (norm_text n @ rest) = visible (nfkc input) \<and>
          (rest \<noteq> [] \<longrightarrow> truncated n) \<and>
          (byte_len (norm_text n) \<le> max limit 1 \<or> norm_text n = hd (graphemes (norm_text n @ rest)))) \<and>
        (\<not> truncated n \<and> nfkc (norm_text n) = norm_text n \<longrightarrow>
          normalize_text nfkc graphemes (norm_text n) limit = Some n)"
proof -
  define c where "c = trim (clean (nfkc input))"
  have vis: "visible c = visible (nfkc input)" by (simp add: c_def visible_trim visible_clean)
  show ?thesis
  proof (cases "c = []")
    case True
    with vis show ?thesis by (simp add: normalize_text_def c_def [symmetric])
  next
    case False
    then have can: "canonical c" using canonical_trim_clean c_def by simp
    then have vc: "visible c \<noteq> []"
      by (cases c) (auto simp: canonical_def spaced_def clean_char_def)
    obtain gs where gs: "graphemes c = gs" "concat gs = c" "[] \<notin> set gs" "gs \<noteq> []"
      using g False by (metis concat.simps(1) segments_def)
    obtain r t where rt: "take_graphemes (max limit 1) 0 [] gs = (r, t)" by fastforce
    from take_graphemes_prefix [OF rt] obtain k where k: "k \<le> length gs" "r = concat (take k gs)"
      "t \<longleftrightarrow> k < length gs" "k = 0 \<or> byte_len r \<le> max limit 1" by auto
    define n where "n = (if r = [] then \<lparr>norm_text = hd gs, truncated = True\<rparr>
      else \<lparr>norm_text = r, truncated = t\<rparr>)"
    have norm: "normalize_text nfkc graphemes input limit = Some n"
      using False gs rt by (auto simp: normalize_text_def c_def [symmetric] n_def Let_def
          split: list.splits)
    have hd: "hd gs \<noteq> []" using gs by (metis hd_in_set)
    have pre: "\<exists>rest. c = norm_text n @ rest \<and> (rest \<noteq> [] \<longrightarrow> truncated n)"
    proof (cases "r = []")
      case True
      with gs show ?thesis by (intro exI [of _ "concat (tl gs)"]) (cases gs; simp add: n_def)
    next
      case False
      then have nr: "norm_text n = r" by (simp add: n_def)
      have "c = concat (take k gs) @ concat (drop k gs)"
        using gs(2) by (metis append_take_drop_id concat_append)
      then have "c = norm_text n @ concat (drop k gs)" unfolding nr k(2) .
      moreover have "concat (drop k gs) \<noteq> [] \<longrightarrow> truncated n"
        using False k(1,3) by (auto simp: n_def)
      ultimately show ?thesis by blast
    qed
    have lim: "byte_len (norm_text n) \<le> max limit 1 \<or> norm_text n = hd (graphemes c)"
      using k gs(1) by (auto simp: n_def)
    have "normalize_text nfkc graphemes (norm_text n) limit = Some n"
      if "\<not> truncated n" "nfkc (norm_text n) = norm_text n"
    proof -
      from that(1) have "r \<noteq> []" "\<not> t" by (auto simp: n_def split: if_splits)
      moreover from this k gs(2) have "r = c" by simp
      ultimately have n: "n = \<lparr>norm_text = c, truncated = False\<rparr>" by (simp add: n_def)
      have "trim (clean (nfkc c)) = c"
        using that(2) can trim_fix [of c] by (simp add: n clean_fix canonical_def)
      then show ?thesis using rt n gs(1) False \<open>r \<noteq> []\<close> \<open>\<not> t\<close> k(1,2,3) gs(2)
        by (simp add: normalize_text_def Let_def)
    qed
    moreover have "norm_text n \<noteq> []" using hd by (simp add: n_def)
    ultimately show ?thesis using norm pre lim can vis vc by auto
  qed
qed

theorem normalize_text_spec_witness:
  "normalize_text id (map (\<lambda>c. [c])) (lit '' a  b'') 9 = Some \<lparr>norm_text = lit ''a b'', truncated = False\<rparr>
   \<and> visible (lit '' a  b'') \<noteq> []"
proof -
  have e: "normalize_text id (map (\<lambda>c. [c])) (lit '' a  b'') 9 =
      Some \<lparr>norm_text = lit ''a b'', truncated = False\<rparr>" by code_simp
  moreover have "concat (map (\<lambda>c. [c]) s) = s" for s :: ustr by (induction s) simp_all
  then have "segments (map (\<lambda>c. [c]))" by (auto simp: segments_def)
  from normalize_text_spec [OF this, of id "lit '' a  b''" 9] e
  have "visible (lit '' a  b'') \<noteq> []" by simp
  ultimately show ?thesis by simp
qed

text \<open>The PDF word repair only ever joins adjacent words, all of them purely alphabetic: no
  character other than white space is lost, added or moved, and words with digits or
  punctuation keep their boundaries.\<close>

theorem fix_pdf_spacing_merges_words:
  "fix_pdf_spacing alpha s = s \<or>
   (\<exists>wss. fix_pdf_spacing alpha s = join [32] (map concat wss) \<and>
      concat wss = split_whitespace s \<and>
      (\<forall>g \<in> set wss. g \<noteq> [] \<and> (length g = 1 \<or> list_all (is_purely_alpha alpha) g)) \<and>
      filter (\<lambda>c. \<not> is_whitespace c) (fix_pdf_spacing alpha s) = filter (\<lambda>c. \<not> is_whitespace c) s)"
proof -
  obtain wss where w: "fix_words alpha (split_whitespace s) = map concat wss"
    "word_groups alpha (split_whitespace s) wss" using fix_words_groups by blast
  have f: "concat (map (filter (\<lambda>c. \<not> is_whitespace c)) (map concat wss)) =
      filter (\<lambda>c. \<not> is_whitespace c) (concat (concat wss))" for wss :: "ustr list list"
    by (induction wss) (simp_all add: filter_concat)
  have "filter (\<lambda>c. \<not> is_whitespace c) (concat (split_whitespace s)) =
      filter (\<lambda>c. \<not> is_whitespace c) s" by (simp add: concat_split_whitespace)
  with w f [of wss] have "filter (\<lambda>c. \<not> is_whitespace c) (join [32] (map concat wss)) =
      filter (\<lambda>c. \<not> is_whitespace c) s"
    by (simp add: filter_join word_groups_def)
  with w show ?thesis by (auto simp: fix_pdf_spacing_def word_groups_def Let_def)
qed

theorem fix_pdf_spacing_merges_words_witness:
  "fix_pdf_spacing (\<lambda>c. 97 \<le> c \<and> c \<le> 122) (lit ''x z 4'') = lit ''xz 4''"
proof -
  let ?al = "\<lambda>c. 97 \<le> c \<and> c \<le> (122 :: nat)"
  have "fix_pdf_spacing ?al (lit ''x z 4'') = lit ''xz 4''"
    by (simp add: fix_pdf_spacing_def lit_def of_char_def split_whitespace_def is_whitespace_def
        byte_len_def utf8_len_def should_start_merge_def is_purely_alpha_def is_orphan_def
        alpha_len_def is_valid_single_char_def VALID_SINGLE_CHARS_def should_continue_merge_def)
  with fix_pdf_spacing_merges_words [of ?al "lit ''x z 4''"] show ?thesis by simp
qed

end
