(* ===== verification/Structure.thy ===== *)
theory Structure
  imports Prelude Text_Base
begin

text \<open>
  The document model shared by the structure detector and the structural chunker
  (\<open>types/structure.rs\<close>): cells, rows, tables, code blocks, lists, headings, elements,
  documents, chunks and chunking options, with their constructors and formatters.
  Field names carry a prefix where two structs of the source use the same one.
\<close>

named_theorems structure_defs \<open>constructors and formatters of the document model\<close>

section \<open>Data\<close>

datatype element_type =
    ET_Paragraph | ET_Table | ET_CodeBlock | ET_List | ET_Heading | ET_BlockQuote
  | ET_Separator | ET_Raw

datatype chunk_type =
    CT_Text | CT_Table | CT_TableContinuation | CT_CodeBlock | CT_CodeBlockContinuation
  | CT_List | CT_Section | CT_Mixed

definition show_element_type :: "element_type \<Rightarrow> string" where
  "show_element_type t = (case t of
     ET_Paragraph \<Rightarrow> ''paragraph'' | ET_Table \<Rightarrow> ''table'' | ET_CodeBlock \<Rightarrow> ''code_block''
   | ET_List \<Rightarrow> ''list'' | ET_Heading \<Rightarrow> ''heading'' | ET_BlockQuote \<Rightarrow> ''block_quote''
   | ET_Separator \<Rightarrow> ''separator'' | ET_Raw \<Rightarrow> ''raw'')"

definition show_chunk_type :: "chunk_type \<Rightarrow> string" where
  "show_chunk_type t = (case t of
     CT_Text \<Rightarrow> ''text'' | CT_Table \<Rightarrow> ''table'' | CT_TableContinuation \<Rightarrow> ''table_continuation''
   | CT_CodeBlock \<Rightarrow> ''code_block'' | CT_CodeBlockContinuation \<Rightarrow> ''code_block_continuation''
   | CT_List \<Rightarrow> ''list'' | CT_Section \<Rightarrow> ''section'' | CT_Mixed \<Rightarrow> ''mixed'')"

record structured_cell =
  cell_text :: ustr
  col :: nat
  row_span :: nat
  col_span :: nat

record structured_row =
  row :: nat
  cells :: "structured_cell list"
  is_header :: bool

record structured_table =
  table_id :: ustr
  headers :: "ustr list"
  rows :: "structured_row list"
  n_cols :: nat
  table_raw :: ustr
  caption :: "ustr option"

record structured_code_block =
  language :: "ustr option"
  content :: ustr
  is_indented :: bool

record structured_list =
  ordered :: bool
  items :: "ustr list"
  list_start :: nat

record structured_heading =
  level :: u8
  heading_text :: ustr

datatype element_data =
    Paragraph ustr
  | Table structured_table
  | CodeBlock structured_code_block
  | DList structured_list
  | Heading structured_heading
  | BlockQuote ustr
  | Separator
  | Raw ustr

record document_element =
  element_type :: element_type
  char_start :: nat
  char_end :: nat
  data :: element_data

record structured_document =
  elements :: "document_element list"
  doc_raw :: ustr
  source :: "ustr option"
  total_chars :: nat
  table_count :: nat
  code_block_count :: nat

record structured_chunk =
  chunk_text :: ustr
  chunk_type :: chunk_type
  chunk_index :: nat
  element_id :: "ustr option"
  part :: "u32 option"
  total_parts :: "u32 option"
  chunk_context :: "ustr option"
  chunk_start :: nat
  chunk_end :: nat

datatype table_strategy = Table_PreserveWhole | SplitWithHeader | Table_Naive

datatype code_strategy = Code_PreserveWhole | SplitAtBoundaries | SplitWithOverlap

record chunking_options =
  max_chars :: nat
  table_handling :: table_strategy
  code_handling :: code_strategy
  preserve_lists :: bool
  include_section_headers :: bool
  overlap_chars :: nat

record chunking_result =
  chunks :: "structured_chunk list"
  tables_processed :: nat
  tables_split :: nat
  code_blocks_processed :: nat
  warnings :: "ustr list"

section \<open>Constructors and formatters\<close>

definition default_span :: nat where [structure_defs]: "default_span = 1"

definition default_start :: nat where [structure_defs]: "default_start = 1"

definition new_cell :: "ustr \<Rightarrow> nat \<Rightarrow> structured_cell" where [structure_defs]:
  "new_cell t c = \<lparr>cell_text = t, col = c, row_span = 1, col_span = 1\<rparr>"

definition new_row :: "nat \<Rightarrow> structured_cell list \<Rightarrow> structured_row" where [structure_defs]:
  "new_row r cs = \<lparr>row = r, cells = cs, is_header = False\<rparr>"

definition as_header :: "structured_row \<Rightarrow> structured_row" where [structure_defs]:
  "as_header r = r\<lparr>is_header := True\<rparr>"

definition cell_texts :: "structured_row \<Rightarrow> ustr list" where [structure_defs]:
  "cell_texts r = map cell_text (cells r)"

definition new_table :: "ustr \<Rightarrow> structured_table" where [structure_defs]:
  "new_table i = \<lparr>table_id = i, headers = [], rows = [], n_cols = 0, table_raw = [], caption = None\<rparr>"

definition data_rows :: "structured_table \<Rightarrow> structured_row list" where
  "data_rows t = filter (\<lambda>r. \<not> is_header r) (rows t)"

definition data_row_count :: "structured_table \<Rightarrow> nat" where
  "data_row_count t = length (filter (\<lambda>r. \<not> is_header r) (rows t))"

definition format_header :: "structured_table \<Rightarrow> ustr" where
  "format_header t =
     (if headers t = [] then []
      else
        (let header_row = lit ''| '' @ join (lit '' | '') (headers t) @ lit '' |'';
             separator = lit ''|'' @ join (lit ''|'') (map (\<lambda>_. lit ''---'') (headers t)) @ lit ''|''
         in header_row @ [10] @ separator))"

definition format_row :: "structured_row \<Rightarrow> ustr" where
  "format_row r = lit ''| '' @ join (lit '' | '') (map cell_text (cells r)) @ lit '' |''"

definition table_char_count :: "structured_table \<Rightarrow> nat" where
  "table_char_count t = length (table_raw t)"

definition new_code_block :: "ustr \<Rightarrow> structured_code_block" where [structure_defs]:
  "new_code_block c = \<lparr>language = None, content = c, is_indented = False\<rparr>"

definition with_language :: "structured_code_block \<Rightarrow> ustr \<Rightarrow> structured_code_block"
  where [structure_defs]: "with_language b l = b\<lparr>language := Some l\<rparr>"

definition or_empty :: "ustr option \<Rightarrow> ustr" where
  "or_empty x = (case x of None \<Rightarrow> [] | Some s \<Rightarrow> s)"

definition format_code_block :: "structured_code_block \<Rightarrow> ustr" where
  "format_code_block b =
     (let fence = lit ''```''; lang = or_empty (language b)
      in fence @ lang @ [10] @ content b @ [10] @ fence)"

definition code_char_count :: "structured_code_block \<Rightarrow> nat" where
  "code_char_count b = length (content b) + 10"

definition unordered_list :: "ustr list \<Rightarrow> structured_list" where [structure_defs]:
  "unordered_list xs = \<lparr>ordered = False, items = xs, list_start = 1\<rparr>"

definition ordered_list :: "ustr list \<Rightarrow> structured_list" where [structure_defs]:
  "ordered_list xs = \<lparr>ordered = True, items = xs, list_start = 1\<rparr>"

definition format_list :: "structured_list \<Rightarrow> ustr" where
  "format_list l = join [10]
     (map (\<lambda>(i, item). if ordered l then dec_str (list_start l + i) @ lit ''. '' @ item
                        else lit ''- '' @ item)
       (enumerate 0 (items l)))"

definition list_char_count :: "structured_list \<Rightarrow> nat" where
  "list_char_count l = sum_list (map (\<lambda>s. length s + 3) (items l))"

definition new_heading :: "u8 \<Rightarrow> ustr \<Rightarrow> structured_heading" where
  "new_heading l t = \<lparr>level = max (min l 6) 1, heading_text = t\<rparr>"

definition format_heading :: "structured_heading \<Rightarrow> ustr" where
  "format_heading h = concat (replicate (unat (level h)) (lit ''#'')) @ lit '' '' @ heading_text h"

definition paragraph_element :: "ustr \<Rightarrow> nat \<Rightarrow> nat \<Rightarrow> document_element" where [structure_defs]:
  "paragraph_element t s e =
     \<lparr>element_type = ET_Paragraph, char_start = s, char_end = e, data = Paragraph t\<rparr>"

definition table_element :: "structured_table \<Rightarrow> nat \<Rightarrow> nat \<Rightarrow> document_element"
  where [structure_defs]: "table_element t s e =
     \<lparr>element_type = ET_Table, char_start = s, char_end = e, data = Table t\<rparr>"

definition code_block_element :: "structured_code_block \<Rightarrow> nat \<Rightarrow> nat \<Rightarrow> document_element"
  where [structure_defs]: "code_block_element b s e =
     \<lparr>element_type = ET_CodeBlock, char_start = s, char_end = e, data = CodeBlock b\<rparr>"

definition list_element :: "structured_list \<Rightarrow> nat \<Rightarrow> nat \<Rightarrow> document_element"
  where [structure_defs]: "list_element l s e =
     \<lparr>element_type = ET_List, char_start = s, char_end = e, data = DList l\<rparr>"

definition heading_element :: "structured_heading \<Rightarrow> nat \<Rightarrow> nat \<Rightarrow> document_element"
  where [structure_defs]: "heading_element h s e =
     \<lparr>element_type = ET_Heading, char_start = s, char_end = e, data = Heading h\<rparr>"

definition element_text :: "document_element \<Rightarrow> ustr" where
  "element_text el = (case data el of
     Paragraph t \<Rightarrow> t | Table t \<Rightarrow> table_raw t | CodeBlock b \<Rightarrow> format_code_block b
   | DList l \<Rightarrow> format_list l | Heading h \<Rightarrow> format_heading h | BlockQuote t \<Rightarrow> t
   | Separator \<Rightarrow> lit ''---'' | Raw t \<Rightarrow> t)"

definition element_char_count :: "document_element \<Rightarrow> nat" where
  "element_char_count el = char_end el - char_start el"

definition element_is_table :: "document_element \<Rightarrow> bool" where
  "element_is_table el = (element_type el = ET_Table)"

definition as_table :: "document_element \<Rightarrow> structured_table option" where
  "as_table el = (case data el of Table t \<Rightarrow> Some t | _ \<Rightarrow> None)"

definition new_document :: structured_document where
  "new_document = \<lparr>elements = [], doc_raw = [], source = None, total_chars = 0,
     table_count = 0, code_block_count = 0\<rparr>"

definition document_from_text :: "ustr \<Rightarrow> structured_document" where
  "document_from_text t = \<lparr>elements = [], doc_raw = t, source = None, total_chars = length t,
     table_count = 0, code_block_count = 0\<rparr>"

definition with_source :: "structured_document \<Rightarrow> ustr \<Rightarrow> structured_document" where
  "with_source d s = d\<lparr>source := Some s\<rparr>"

definition add_element :: "structured_document \<Rightarrow> document_element \<Rightarrow> structured_document" where
  "add_element d el =
     (let d' = (case element_type el of
          ET_Table \<Rightarrow> d\<lparr>table_count := table_count d + 1\<rparr>
        | ET_CodeBlock \<Rightarrow> d\<lparr>code_block_count := code_block_count d + 1\<rparr>
        | _ \<Rightarrow> d)
      in d'\<lparr>elements := elements d' @ [el]\<rparr>)"

definition doc_tables :: "structured_document \<Rightarrow> structured_table list" where
  "doc_tables d = List.map_filter as_table (elements d)"

definition has_structure :: "structured_document \<Rightarrow> bool" where
  "has_structure d = (0 < table_count d \<or> 0 < code_block_count d)"

definition update_counts :: "structured_document \<Rightarrow> structured_document" where
  "update_counts d = d\<lparr>
     table_count := length (filter element_is_table (elements d)),
     code_block_count := length (filter (\<lambda>el. element_type el = ET_CodeBlock) (elements d)),
     total_chars := length (doc_raw d)\<rparr>"

definition chunk_of_text :: "ustr \<Rightarrow> nat \<Rightarrow> nat \<Rightarrow> nat \<Rightarrow> structured_chunk" where
  "chunk_of_text t i s e = \<lparr>chunk_text = t, chunk_type = CT_Text, chunk_index = i,
     element_id = None, part = None, total_parts = None, chunk_context = None,
     chunk_start = s, chunk_end = e\<rparr>"

definition chunk_of_table :: "ustr \<Rightarrow> nat \<Rightarrow> ustr \<Rightarrow> nat \<Rightarrow> nat \<Rightarrow> structured_chunk" where
  "chunk_of_table t i tid s e = \<lparr>chunk_text = t, chunk_type = CT_Table, chunk_index = i,
     element_id = Some tid, part = None, total_parts = None, chunk_context = None,
     chunk_start = s, chunk_end = e\<rparr>"

definition chunk_table_continuation ::
  "ustr \<Rightarrow> nat \<Rightarrow> ustr \<Rightarrow> u32 \<Rightarrow> u32 \<Rightarrow> ustr \<Rightarrow> nat \<Rightarrow> nat \<Rightarrow> structured_chunk" where
  "chunk_table_continuation t i tid p tot header s e = \<lparr>chunk_text = t,
     chunk_type = CT_TableContinuation, chunk_index = i, element_id = Some tid, part = Some p,
     total_parts = Some tot, chunk_context = Some header, chunk_start = s, chunk_end = e\<rparr>"

definition chunk_is_table :: "structured_chunk \<Rightarrow> bool" where
  "chunk_is_table c = (chunk_type c = CT_Table \<or> chunk_type c = CT_TableContinuation)"

definition is_continuation :: "structured_chunk \<Rightarrow> bool" where
  "is_continuation c = (case part c of None \<Rightarrow> False | Some p \<Rightarrow> 1 < p)"

definition chunk_char_count :: "structured_chunk \<Rightarrow> nat" where
  "chunk_char_count c = length (chunk_text c)"

definition default_options :: chunking_options where
  "default_options = \<lparr>max_chars = 1200, table_handling = SplitWithHeader,
     code_handling = Code_PreserveWhole, preserve_lists = True,
     include_section_headers = True, overlap_chars = 0\<rparr>"

definition empty_result :: chunking_result where
  "empty_result = \<lparr>chunks = [], tables_processed = 0, tables_split = 0,
     code_blocks_processed = 0, warnings = []\<rparr>"

definition chunk_count :: "chunking_result \<Rightarrow> nat" where
  "chunk_count r = length (chunks r)"

definition warn :: "chunking_result \<Rightarrow> ustr \<Rightarrow> chunking_result" where
  "warn r m = r\<lparr>warnings := warnings r @ [m]\<rparr>"

section \<open>Lemmas\<close>

text \<open>The document counters agree with the elements; \<open>add_element\<close> maintains this, so
  \<open>update_counts\<close> changes nothing on a document built with \<open>add_element\<close>.\<close>

definition doc_ok :: "structured_document \<Rightarrow> bool" where
  "doc_ok d = (update_counts d = d)"

lemma doc_ok_from_text [simp]: "doc_ok (document_from_text t)"
  by (simp add: doc_ok_def update_counts_def document_from_text_def)

lemma doc_ok_add [simp]: "doc_ok d \<Longrightarrow> doc_ok (add_element d el)"
  by (cases d; cases "element_type el")
    (simp_all add: doc_ok_def update_counts_def add_element_def element_is_table_def)

lemma add_element_fields [simp]:
  "elements (add_element d el) = elements d @ [el]"
  "doc_raw (add_element d el) = doc_raw d"
  by (simp_all add: add_element_def Let_def split: element_type.split)

lemma has_structure_iff:
  "doc_ok d \<Longrightarrow> has_structure d \<longleftrightarrow>
     (\<exists>el \<in> set (elements d). element_type el = ET_Table \<or> element_type el = ET_CodeBlock)"
proof -
  assume "doc_ok d"
  then have u: "update_counts d = d" by (simp add: doc_ok_def)
  have "table_count d = length (filter element_is_table (elements d))"
    using arg_cong [OF u, of table_count] by (simp add: update_counts_def)
  moreover have "code_block_count d =
      length (filter (\<lambda>el. element_type el = ET_CodeBlock) (elements d))"
    using arg_cong [OF u, of code_block_count] by (simp add: update_counts_def)
  ultimately show ?thesis
    by (auto simp: has_structure_def filter_empty_conv element_is_table_def)
qed

lemma heading_level_bounds: "1 \<le> level (new_heading l t) \<and> level (new_heading l t) \<le> 6"
proof -
  have "(1 :: u8) \<le> 6" by simp
  then show ?thesis by (auto simp: new_heading_def max_def min_def)
qed

lemma data_row_count_eq: "data_row_count t = length (data_rows t)"
  by (simp add: data_row_count_def data_rows_def)

lemma format_code_block_fences:
  "format_code_block b = (lit ''```'' @ or_empty (language b)) @ 10 # content b @ 10 # lit ''```''"
  by (simp add: format_code_block_def Let_def)

end
