(* ===== verification/Detector.thy ===== *)
theory Detector
  imports Structure
begin

text \<open>
  Structure detection (\<open>structure/detector.rs\<close>): a text is cut into lines and each position is
  tried as table, code block, list, heading and rule, in this order; other lines form paragraphs.
  The compiled regular expressions of \<open>struct Patterns\<close> are the parameter \<open>p\<close>, a record with
  one matcher per field: it returns the capture groups the code reads, or only whether it matches.
  A position \<open>i\<close> of \<open>lines\<close> is represented by the remaining lines \<open>lines[i..]\<close>.
\<close>

section \<open>Patterns\<close>

record patterns =
  table_row :: "ustr \<Rightarrow> bool"
  table_separator :: "ustr \<Rightarrow> bool"
  code_fence_start :: "ustr \<Rightarrow> ustr option"
  code_fence_end :: "ustr \<Rightarrow> bool"
  unordered_item :: "ustr \<Rightarrow> (ustr \<times> ustr) option"
  ordered_item :: "ustr \<Rightarrow> (ustr \<times> ustr \<times> ustr) option"
  heading :: "ustr \<Rightarrow> (ustr \<times> ustr) option"
  horizontal_rule :: "ustr \<Rightarrow> bool"

text \<open>\<open>lines[a..b].iter().map(|l| l.len() + 1).sum()\<close>\<close>

definition lines_len :: "ustr list \<Rightarrow> nat" where
  "lines_len ls = sum_list (map (\<lambda>l. byte_len l + 1) ls)"

section \<open>Tables\<close>

text \<open>The slice \<open>trimmed[1..len - 1]\<close> panics for the line consisting of one bar, which no
  table row is (the pattern asks for text between two bars); here it is one empty cell.\<close>

definition parse_table_row :: "ustr \<Rightarrow> ustr list" where
  "parse_table_row line =
     (let trimmed = trim line;
          inner = (if starts_with trimmed [124] \<and> ends_with trimmed [124]
                   then butlast (tl trimmed) else trimmed)
      in map trim (split_by (\<lambda>c. c = 124) inner))"

definition make_row :: "nat \<Rightarrow> ustr list \<Rightarrow> structured_row" where
  "make_row i cs = new_row i (map (\<lambda>(j, t). new_cell t j) (enumerate 0 cs))"

definition try_detect_table ::
  "patterns \<Rightarrow> ustr list \<Rightarrow> nat \<Rightarrow> nat \<Rightarrow> (document_element \<times> nat \<times> nat) option" where
  "try_detect_table p ls start counter = (case ls of
     first_line # second_line # rest \<Rightarrow>
       (if \<not> table_row p first_line then None
        else if \<not> table_separator p second_line then None
        else
          (let tid = lit ''tbl_'' @ dec_str04 (counter + 1);
               header_cells = parse_table_row first_line;
               header_row = as_header (make_row 0 header_cells);
               data_lines = takeWhile (table_row p) rest;
               drows = map (\<lambda>(i, l). make_row i (parse_table_row l)) (enumerate 1 data_lines);
               raw = join [10] (first_line # second_line # data_lines);
               t = (new_table tid)\<lparr>headers := header_cells, n_cols := length header_cells,
                     rows := header_row # drows, table_raw := raw\<rparr>;
               en = start + byte_len raw
           in Some (table_element t start en, 2 + length data_lines, en)))
   | _ \<Rightarrow> None)"

section \<open>Code blocks\<close>

definition try_detect_code_block ::
  "patterns \<Rightarrow> ustr list \<Rightarrow> nat \<Rightarrow> (document_element \<times> nat \<times> nat) option" where
  "try_detect_code_block p ls start = (case ls of
     [] \<Rightarrow> None
   | first_line # rest \<Rightarrow>
       (case code_fence_start p first_line of
          None \<Rightarrow> None
        | Some lang \<Rightarrow>
            (let content_lines = takeWhile (\<lambda>l. \<not> code_fence_end p l) rest in
             if length rest \<le> length content_lines then None
             else
               (let consumed = length content_lines + 2;
                    raw = join [10] (take consumed ls);
                    en = start + byte_len raw;
                    block = new_code_block (join [10] content_lines);
                    block = (if lang \<noteq> [] then with_language block lang else block)
                in Some (code_block_element block start en, consumed, en)))))"

section \<open>Lists and headings\<close>

definition parse_usize :: "ustr \<Rightarrow> nat option" where
  "parse_usize s0 =
     (let s = (if starts_with s0 [43] then tl s0 else s0) in
      if s \<noteq> [] \<and> list_all (\<lambda>c. 48 \<le> c \<and> c \<le> 57) s
      then (let n = foldl (\<lambda>a c. 10 * a + (c - 48)) 0 s in if n < 2 ^ 64 then Some n else None)
      else None)"

text \<open>The following items at the same indentation.\<close>

fun same_indent :: "(ustr \<Rightarrow> (ustr \<times> ustr) option) \<Rightarrow> nat \<Rightarrow> ustr list \<Rightarrow> ustr list" where
  "same_indent m indent [] = []"
| "same_indent m indent (l # ls) = (case m l of
     None \<Rightarrow> []
   | Some (ind, item) \<Rightarrow>
       (if byte_len ind = indent then item # same_indent m indent ls else []))"

definition try_detect_list ::
  "patterns \<Rightarrow> ustr list \<Rightarrow> nat \<Rightarrow> (document_element \<times> nat) option" where
  "try_detect_list p ls start = (case ls of
     [] \<Rightarrow> None
   | first_line # rest \<Rightarrow>
       (case unordered_item p first_line of
          Some (ind, item) \<Rightarrow>
            (let its = item # same_indent (unordered_item p) (byte_len ind) rest;
                 consumed = length its;
                 raw = join [10] (take consumed ls)
             in Some (list_element (unordered_list its) start (start + byte_len raw), consumed))
        | None \<Rightarrow>
            (case ordered_item p first_line of
               Some (ind, num, item) \<Rightarrow>
                 (let start_num = (case parse_usize num of None \<Rightarrow> 1 | Some n \<Rightarrow> n);
                      next = (\<lambda>l. map_option (\<lambda>(i, n, t). (i, t)) (ordered_item p l));
                      its = item # same_indent next (byte_len ind) rest;
                      consumed = length its;
                      raw = join [10] (take consumed ls)
                  in Some (list_element ((ordered_list its)\<lparr>list_start := start_num\<rparr>) start
                             (start + byte_len raw), consumed))
             | None \<Rightarrow> None)))"

definition try_detect_heading :: "patterns \<Rightarrow> ustr \<Rightarrow> nat \<Rightarrow> document_element option" where
  "try_detect_heading p line start = (case heading p line of
     None \<Rightarrow> None
   | Some (hashes, t) \<Rightarrow>
       (let lv = (if byte_len hashes < 256 then of_nat (byte_len hashes) else 0)
        in Some (heading_element (new_heading lv t) start (start + byte_len line))))"

section \<open>The detection loop\<close>

definition breaks_paragraph :: "patterns \<Rightarrow> ustr \<Rightarrow> bool" where
  "breaks_paragraph p l =
     (trim l = [] \<or> table_row p l \<or> code_fence_start p l \<noteq> None \<or> unordered_item p l \<noteq> None \<or>
      ordered_item p l \<noteq> None \<or> heading p l \<noteq> None \<or> horizontal_rule p l)"

text \<open>One turn of the loop at the remaining lines \<open>line # rest\<close>: the element found, if any, the
  lines consumed, and the table counter.\<close>

definition detect_at ::
  "patterns \<Rightarrow> ustr list \<Rightarrow> nat \<Rightarrow> nat \<Rightarrow> document_element option \<times> nat \<times> nat" where
  "detect_at p ls off counter =
     (let line = hd ls in
      case try_detect_table p ls off counter of
        Some (el, consumed, _) \<Rightarrow> (Some el, consumed, counter + 1)
      | None \<Rightarrow>
     (case try_detect_code_block p ls off of
        Some (el, consumed, _) \<Rightarrow> (Some el, consumed, counter)
      | None \<Rightarrow>
     (case try_detect_list p ls off of
        Some (el, consumed) \<Rightarrow> (Some el, consumed, counter)
      | None \<Rightarrow>
     (case try_detect_heading p line off of
        Some el \<Rightarrow> (Some el, 1, counter)
      | None \<Rightarrow>
      if horizontal_rule p line then
        (Some \<lparr>element_type = ET_Separator, char_start = off, char_end = off + byte_len line,
           data = Separator\<rparr>, 1, counter)
      else
        (let para = takeWhile (\<lambda>l. \<not> breaks_paragraph p l) ls in
         if para \<noteq> [] then
           (let para_text = join [10] para;
                char_offset = off + lines_len para
            in (if trim para_text \<noteq> [] then Some (paragraph_element para_text off (char_offset - 1))
                else None, length para, counter))
         else (None, 1, counter))))))"

lemma try_detect_table_consumed:
  "try_detect_table p ls s c = Some (el, n, en) \<Longrightarrow> 0 < n \<and> n \<le> length ls"
  by (auto simp: try_detect_table_def Let_def length_takeWhile_le split: list.splits if_splits)

lemma try_detect_code_block_consumed:
  "try_detect_code_block p ls s = Some (el, n, en) \<Longrightarrow> 0 < n \<and> n \<le> length ls"
  by (auto simp: try_detect_code_block_def Let_def split: list.splits if_splits option.splits)

lemma same_indent_length: "length (same_indent m k ls) \<le> length ls"
  by (induction m k ls rule: same_indent.induct) (auto split: option.split)

lemma try_detect_list_consumed:
  "try_detect_list p ls s = Some (el, n) \<Longrightarrow> 0 < n \<and> n \<le> length ls"
  by (auto simp: try_detect_list_def Let_def same_indent_length split: list.splits option.splits)

lemma detect_at_consumed:
  "ls \<noteq> [] \<Longrightarrow> detect_at p ls off counter = (r, n, c) \<Longrightarrow> 0 < n \<and> n \<le> length ls"
proof -
  assume ls: "ls \<noteq> []" and d: "detect_at p ls off counter = (r, n, c)"
  have "Suc 0 \<le> length ls" using ls by (cases ls) simp_all
  with d show ?thesis
    unfolding detect_at_def Let_def
    by (auto split: option.splits if_splits prod.splits simp: length_takeWhile_le takeWhile_eq_Nil_iff
        dest: try_detect_table_consumed try_detect_code_block_consumed try_detect_list_consumed)
qed

function detect_loop ::
  "patterns \<Rightarrow> ustr list \<Rightarrow> nat \<Rightarrow> nat \<Rightarrow> structured_document \<Rightarrow> structured_document" where
  "detect_loop p ls off counter doc =
     (if ls = [] then doc
      else
        (let (r, consumed, counter') = detect_at p ls off counter;
             doc' = (case r of None \<Rightarrow> doc | Some el \<Rightarrow> add_element doc el)
         in detect_loop p (drop consumed ls) (off + lines_len (take consumed ls)) counter' doc'))"
  by pat_completeness auto
termination
  by (relation "measure (\<lambda>(p, ls, _). length ls)") (auto dest: detect_at_consumed [OF _ sym])

declare detect_loop.simps [simp del]

definition detect_structure :: "patterns \<Rightarrow> ustr \<Rightarrow> structured_document" where
  "detect_structure p txt =
     update_counts (detect_loop p (lines_of txt) 0 0 (document_from_text txt))"

section \<open>Space-aligned tables\<close>

text \<open>The scan of \<open>detect_column_positions\<close> over \<open>char_indices\<close>: byte index, positions,
  \<open>in_word\<close> and \<open>space_run\<close>.\<close>

fun column_scan :: "ustr \<Rightarrow> nat \<Rightarrow> nat list \<Rightarrow> bool \<Rightarrow> nat \<Rightarrow> nat list" where
  "column_scan [] i positions in_word space_run = positions"
| "column_scan (ch # s) i positions in_word space_run =
     (if is_whitespace ch then
        (if in_word then column_scan s (i + utf8_len ch) positions False 1
         else column_scan s (i + utf8_len ch) positions False (space_run + 1))
      else
        (let positions = (if \<not> in_word \<and> (positions = [] \<or> 2 \<le> space_run)
                          then positions @ [i] else positions)
         in column_scan s (i + utf8_len ch) positions True 0))"

definition detect_column_positions :: "ustr \<Rightarrow> nat list" where
  "detect_column_positions line = column_scan line 0 [] False 0"

definition columns_roughly_match :: "nat list \<Rightarrow> nat list \<Rightarrow> bool" where
  "columns_roughly_match cols1 cols2 =
     (length cols1 = length cols2 \<and>
      list_all (\<lambda>(c1, c2). nat \<bar>int c1 - int c2\<bar> \<le> 3) (zip cols1 cols2))"

fun split_by_columns :: "ustr \<Rightarrow> nat list \<Rightarrow> ustr list" where
  "split_by_columns line [] = []"
| "split_by_columns line (start # cols) =
     (let n = length line;
          en = (case cols of [] \<Rightarrow> n | c # _ \<Rightarrow> c);
          cell = take (min en n - min start n) (drop (min start n) line)
      in trim cell # split_by_columns line cols)"

definition try_detect_ascii_table ::
  "ustr list \<Rightarrow> nat \<Rightarrow> (structured_table \<times> nat) option" where
  "try_detect_ascii_table ls counter = (case ls of
     first_line # next_line # rest \<Rightarrow>
       (if trim first_line = [] then None
        else
          (let columns = detect_column_positions first_line in
           if length columns < 2 then None
           else
             (let following = takeWhile (\<lambda>l. trim l \<noteq> [] \<and>
                    columns_roughly_match columns (detect_column_positions l)) (next_line # rest);
                  consistent_lines = 1 + length following
              in if consistent_lines < 2 then None
                 else
                   (let header_cells = split_by_columns first_line columns;
                        drows = map (\<lambda>(i, l). make_row i (split_by_columns l columns))
                                  (enumerate 1 following);
                        t = (new_table (lit ''ascii_tbl_'' @ dec_str04 (counter + 1)))\<lparr>
                              headers := header_cells, n_cols := length header_cells,
                              rows := as_header (make_row 0 header_cells) # drows,
                              table_raw := join [10] (take consistent_lines ls)\<rparr>
                    in Some (t, consistent_lines)))))
   | _ \<Rightarrow> None)"

lemma try_detect_ascii_consumed:
  "try_detect_ascii_table ls c = Some (t, n) \<Longrightarrow> 0 < n \<and> n \<le> length ls"
  by (auto simp: try_detect_ascii_table_def Let_def length_takeWhile_le
      split: list.splits if_splits)

function ascii_loop ::
  "ustr list \<Rightarrow> nat \<Rightarrow> nat \<Rightarrow> (nat \<times> nat \<times> structured_table) list" where
  "ascii_loop ls off counter =
     (if ls = [] then []
      else (case try_detect_ascii_table ls counter of
          Some (t, consumed) \<Rightarrow>
            (let en = off + lines_len (take consumed ls)
             in (off, en, t) # ascii_loop (drop consumed ls) en (counter + 1))
        | None \<Rightarrow> ascii_loop (tl ls) (off + lines_len [hd ls]) counter))"
  by pat_completeness auto
termination
  by (relation "measure (\<lambda>(ls, _). length ls)") (auto dest: try_detect_ascii_consumed)

definition detect_ascii_tables :: "ustr \<Rightarrow> (nat \<times> nat \<times> structured_table) list" where
  "detect_ascii_tables txt = ascii_loop (lines_of txt) 0 0"

declare ascii_loop.simps [simp del]

section \<open>Lemmas: offsets\<close>

lemma lines_len_simps [simp]: "lines_len [] = 0" "lines_len (l # ls) = byte_len l + 1 + lines_len ls"
  "lines_len (xs @ ys) = lines_len xs + lines_len ys"
  by (simp_all add: lines_len_def)

lemma byte_len_joined: "ls \<noteq> [] \<Longrightarrow> byte_len (join [10] ls) + 1 = lines_len ls"
proof -
  assume "ls \<noteq> []"
  then have "0 < lines_len ls" by (cases ls) simp_all
  then show ?thesis using byte_len_join [of ls] by (simp add: lines_len_def)
qed

lemma lines_len_take_drop: "lines_len (take n ls) + lines_len (drop n ls) = lines_len ls"
  by (metis append_take_drop_id lines_len_simps(3))

lemma byte_len_strip_cr: "byte_len (strip_cr l) \<le> byte_len l"
proof (cases l rule: rev_cases)
  case (snoc xs x)
  then show ?thesis by (simp add: strip_cr_def)
qed (simp add: strip_cr_def)

lemma lines_len_lines_of: "lines_len (lines_of t) \<le> byte_len t + 1"
proof (induction t rule: lines_of.induct)
  case (2 c s)
  let ?t = "c # s"
  show ?case
  proof (cases "dropWhile (\<lambda>c. c \<noteq> 10) ?t")
    case Nil
    have "lines_of ?t = [?t]" by (subst lines_of.simps(2)) (simp only: Nil list.case)
    then show ?thesis by simp
  next
    case (Cons d r)
    have "?t = takeWhile (\<lambda>c. c \<noteq> 10) ?t @ d # r" using Cons by (metis takeWhile_dropWhile_id)
    then have "byte_len ?t = byte_len (takeWhile (\<lambda>c. c \<noteq> 10) ?t) + utf8_len d + byte_len r"
      by (metis add.assoc byte_len_simps(2,3))
    moreover have "1 \<le> utf8_len d" using utf8_len_pos [of d] by linarith
    moreover have "lines_len (lines_of r) \<le> byte_len r + 1" using 2 Cons by blast
    moreover have "lines_of ?t = strip_cr (takeWhile (\<lambda>c. c \<noteq> 10) ?t) # lines_of r"
      by (subst lines_of.simps(2)) (simp only: Cons list.case)
    ultimately show ?thesis using byte_len_strip_cr [of "takeWhile (\<lambda>c. c \<noteq> 10) ?t"] by simp
  qed
qed simp

text \<open>The element found at a position starts there and ends before the next position.\<close>

definition fits :: "nat \<Rightarrow> nat \<Rightarrow> document_element \<Rightarrow> bool" where
  "fits lo hi el = (lo \<le> char_start el \<and> char_start el \<le> char_end el \<and> char_end el + 1 \<le> hi)"

lemma take_takeWhile: "take (length (takeWhile P xs)) xs = takeWhile P xs"
  by (metis append_eq_conv_conj takeWhile_dropWhile_id)

definition spans :: "nat \<Rightarrow> ustr list \<Rightarrow> document_element \<Rightarrow> bool" where
  "spans off ls el = (char_start el = off \<and> char_end el = off + byte_len (join [10] ls))"

lemma spans_fits: "ls \<noteq> [] \<Longrightarrow> spans off ls el \<Longrightarrow> fits off (off + lines_len ls) el"
  using byte_len_joined [of ls] by (simp add: spans_def fits_def)

lemma table_span:
  "try_detect_table p ls off c = Some (el, n, en) \<Longrightarrow> spans off (take n ls) el"
  by (auto simp: try_detect_table_def Let_def spans_def table_element_def take_takeWhile
      simp del: join.simps split: list.splits if_splits)

lemma code_span:
  "try_detect_code_block p ls off = Some (el, n, en) \<Longrightarrow> spans off (take n ls) el"
  by (auto simp: try_detect_code_block_def Let_def spans_def code_block_element_def
      simp del: join.simps split: list.splits if_splits option.splits)

lemma list_span:
  assumes "try_detect_list p ls off = Some (el, n)"
  shows "spans off (take n ls) el"
proof -
  obtain l rest where ls: "ls = l # rest" using assms by (cases ls) (simp_all add: try_detect_list_def)
  have "\<exists>d. el = list_element d off (off + byte_len (join [10] (take n ls)))"
  proof (cases "unordered_item p l")
    case (Some x)
    with assms show ?thesis
      by (cases x) (auto simp: try_detect_list_def ls Let_def simp del: join.simps)
  next
    case None
    with assms obtain i m t where "ordered_item p l = Some (i, m, t)"
      by (auto simp: try_detect_list_def ls split: option.splits)
    with None assms show ?thesis
      by (auto simp: try_detect_list_def ls Let_def simp del: join.simps)
  qed
  then show ?thesis by (auto simp: spans_def list_element_def)
qed

lemma heading_range:
  "try_detect_heading p l off = Some el \<Longrightarrow> char_start el = off \<and> char_end el = off + byte_len l"
  by (auto simp: try_detect_heading_def Let_def structure_defs split: option.splits)

lemma detect_at_range:
  assumes "ls \<noteq> []" "detect_at p ls off counter = (Some el, n, c)"
  shows "fits off (off + lines_len (take n ls)) el"
proof -
  obtain l rest where ls: "ls = l # rest" using assms(1) by (cases ls) auto
  let ?para = "takeWhile (\<lambda>l. \<not> breaks_paragraph p l) ls"
  show ?thesis
  proof (cases "(\<exists>en. try_detect_table p ls off counter = Some (el, n, en)) \<or>
      (\<exists>en. try_detect_code_block p ls off = Some (el, n, en)) \<or> try_detect_list p ls off = Some (el, n)")
    case True
    then have "spans off (take n ls) el \<and> 0 < n"
      by (elim disjE exE) (simp_all add: table_span code_span list_span try_detect_table_consumed
          try_detect_code_block_consumed try_detect_list_consumed)
    with assms(1) show ?thesis by (intro spans_fits) simp_all
  next
    case False
    have t: "try_detect_table p ls off counter = None"
    proof (cases "try_detect_table p ls off counter")
      case (Some x)
      with assms(2) False show ?thesis by (cases x) (simp add: detect_at_def)
    qed
    have c: "try_detect_code_block p ls off = None"
    proof (cases "try_detect_code_block p ls off")
      case (Some x)
      with assms(2) False t show ?thesis by (cases x) (simp add: detect_at_def)
    qed
    have l: "try_detect_list p ls off = None"
    proof (cases "try_detect_list p ls off")
      case (Some x)
      with assms(2) False t c show ?thesis by (cases x) (simp add: detect_at_def)
    qed
    note none = t c l
    show ?thesis
    proof (cases "n = 1 \<and> char_start el = off \<and> char_end el = off + byte_len l")
      case True
      then show ?thesis by (simp add: fits_def ls)
    next
      case F: False
      with assms(2) none have para: "?para \<noteq> []" "n = length ?para"
        "el = paragraph_element (join [10] ?para) off (off + lines_len ?para - 1)"
        by (auto simp: detect_at_def Let_def ls dest: heading_range split: option.splits if_splits)
      have "0 < lines_len ?para" using para(1) by (cases ?para) simp_all
      then show ?thesis by (simp add: para(2,3) fits_def paragraph_element_def take_takeWhile)
    qed
  qed
qed

definition in_order :: "nat \<Rightarrow> nat \<Rightarrow> document_element list \<Rightarrow> bool" where
  "in_order lo hi els = (sorted_wrt (\<lambda>a b. char_end a < char_start b) els \<and> list_all (fits lo hi) els)"

lemma in_order_Cons:
  "fits lo mid el \<Longrightarrow> in_order mid hi els \<Longrightarrow> mid \<le> hi \<Longrightarrow> in_order lo hi (el # els)"
  by (auto simp: in_order_def list_all_iff fits_def)

lemma in_order_weaken: "in_order mid hi els \<Longrightarrow> lo \<le> mid \<Longrightarrow> in_order lo hi els"
  by (auto simp: in_order_def list_all_iff fits_def)

lemma detect_loop_order:
  "\<exists>new. elements (detect_loop p ls off c doc) = elements doc @ new \<and>
     in_order off (off + lines_len ls) new \<and> (doc_ok doc \<longrightarrow> doc_ok (detect_loop p ls off c doc)) \<and>
     doc_raw (detect_loop p ls off c doc) = doc_raw doc"
proof (induction p ls off c doc rule: detect_loop.induct)
  case (1 p ls off c doc)
  show ?case
  proof (cases "ls = []")
    case True
    then show ?thesis
      by (simp add: detect_loop.simps [of p "[]"] in_order_def)
  next
    case False
    obtain r n c' where d: "detect_at p ls off c = (r, n, c')" by (cases "detect_at p ls off c") auto
    define doc' where "doc' = (case r of None \<Rightarrow> doc | Some el \<Rightarrow> add_element doc el)"
    define mid where "mid = off + lines_len (take n ls)"
    let ?d = "detect_loop p (drop n ls) mid c' doc'"
    have eq: "detect_loop p ls off c doc = ?d"
      using False by (subst detect_loop.simps) (simp add: d doc'_def mid_def)
    have hi: "mid + lines_len (drop n ls) = off + lines_len ls" "mid \<le> off + lines_len ls"
      using lines_len_take_drop [of n ls] by (simp_all add: mid_def)
    have "\<exists>new. elements ?d = elements doc' @ new \<and>
        in_order mid (mid + lines_len (drop n ls)) new \<and> (doc_ok doc' \<longrightarrow> doc_ok ?d) \<and>
        doc_raw ?d = doc_raw doc'"
      using 1 [OF False, of "(r, n, c')" r "(n, c')" n c' doc'] by (simp add: d doc'_def mid_def)
    then obtain new where new: "elements ?d = elements doc' @ new"
      "in_order mid (off + lines_len ls) new" "doc_ok doc' \<longrightarrow> doc_ok ?d" "doc_raw ?d = doc_raw doc'"
      using hi(1) by auto
    show ?thesis
    proof (cases r)
      case None
      with new have "in_order off (off + lines_len ls) new"
        by (intro in_order_weaken [OF new(2)]) (simp add: mid_def)
      with None new eq show ?thesis by (auto simp: doc'_def)
    next
      case (Some el)
      with d False have "fits off mid el" unfolding mid_def by (intro detect_at_range) simp_all
      from in_order_Cons [OF this new(2) hi(2)] Some new eq show ?thesis
        by (intro exI [of _ "el # new"]) (simp add: doc'_def)
    qed
  qed
qed

section \<open>Properties\<close>

text \<open>Detection of any text, with any patterns, returns (the loop always consumes a line);
  the elements are in document order, do not overlap, lie inside the text (the offsets count
  bytes), and the table and code-block counters are those of the elements.\<close>

theorem detect_structure_ranges:
  "let d = detect_structure p txt in
     sorted_wrt (\<lambda>a b. char_end a < char_start b) (elements d) \<and>
     list_all (\<lambda>el. char_start el \<le> char_end el \<and> char_end el \<le> byte_len txt) (elements d) \<and>
     has_structure d =
       list_ex (\<lambda>el. element_type el = ET_Table \<or> element_type el = ET_CodeBlock) (elements d) \<and>
     doc_raw d = txt \<and> total_chars d = length txt"
proof -
  let ?l = "detect_loop p (lines_of txt) 0 0 (document_from_text txt)"
  have fields: "elements (document_from_text txt) = []" "doc_raw (document_from_text txt) = txt"
    by (simp_all add: document_from_text_def)
  from detect_loop_order [of p "lines_of txt" 0 0 "document_from_text txt"]
  have ord: "in_order 0 (lines_len (lines_of txt)) (elements ?l)" and ok: "doc_ok ?l"
    and raw: "doc_raw ?l = txt"
    using doc_ok_from_text [of "txt"] by (auto simp: fields)
  have e: "detect_structure p txt = ?l" using ok by (simp add: detect_structure_def doc_ok_def)
  have "list_all (\<lambda>el. char_start el \<le> char_end el \<and> char_end el \<le> byte_len txt) (elements ?l)"
    using ord lines_len_lines_of [of "txt"] by (fastforce simp: in_order_def list_all_iff fits_def)
  moreover have "total_chars ?l = length txt"
    using arg_cong [OF ok [unfolded doc_ok_def], of total_chars] raw by (simp add: update_counts_def)
  ultimately show ?thesis
    using ord raw has_structure_iff [OF ok] by (simp add: e in_order_def list_ex_iff)
qed

text \<open>A line that looks like a table row but starts no table, or opens a fence that is never
  closed, and matches nothing else.\<close>

definition stray_line :: "patterns \<Rightarrow> ustr \<Rightarrow> ustr list \<Rightarrow> bool" where
  "stray_line p l rest =
     ((table_row p l \<or> code_fence_start p l \<noteq> None) \<and>
      (table_row p l \<longrightarrow> rest = [] \<or> \<not> table_separator p (hd rest)) \<and>
      (code_fence_start p l \<noteq> None \<longrightarrow> list_all (\<lambda>x. \<not> code_fence_end p x) rest) \<and>
      unordered_item p l = None \<and> ordered_item p l = None \<and> heading p l = None \<and>
      \<not> horizontal_rule p l)"

lemma detect_at_stray: "stray_line p l rest \<Longrightarrow> detect_at p (l # rest) off c = (None, 1, c)"
proof -
  assume s: "stray_line p l rest"
  have "try_detect_table p (l # rest) off c = None"
    using s by (cases rest) (auto simp: stray_line_def try_detect_table_def)
  moreover have "try_detect_code_block p (l # rest) off = None"
  proof (cases "code_fence_start p l")
    case (Some lang)
    with s have tw: "takeWhile (\<lambda>x. \<not> code_fence_end p x) rest = rest"
      by (simp add: stray_line_def list_all_iff)
    have "length rest \<le> length (takeWhile (\<lambda>x. \<not> code_fence_end p x) rest)" by (simp only: tw)
    with Some show ?thesis by (simp add: try_detect_code_block_def Let_def)
  qed (simp add: try_detect_code_block_def)
  ultimately show ?thesis
    using s by (auto simp: detect_at_def stray_line_def try_detect_list_def try_detect_heading_def
        breaks_paragraph_def Let_def)
qed

text \<open>Lines that look like table rows but have no separator line below them, and the line that
  opens a fence which is never closed, are dropped: they contribute no element, whatever their
  text, although the comment in the code says such a block is treated as a paragraph.\<close>

theorem stray_lines_dropped:
  assumes "\<forall>i < length ls. stray_line p (ls ! i) (drop (i + 1) ls @ rest)"
  shows "detect_loop p (ls @ rest) off c doc = detect_loop p rest (off + lines_len ls) c doc"
  using assms
proof (induction ls arbitrary: off)
  case (Cons l ls)
  have "stray_line p l (ls @ rest)" using Cons.prems by (auto dest: spec [of _ 0])
  moreover have "\<forall>i < length ls. stray_line p (ls ! i) (drop (i + 1) ls @ rest)"
    using Cons.prems by (auto dest: spec [of _ "Suc _"])
  ultimately show ?case
    using Cons.IH [of "off + lines_len [l]"]
    by (subst detect_loop.simps) (simp add: detect_at_stray add.assoc)
qed simp

text \<open>Matchers over ASCII for a small instance of the patterns.\<close>

definition sample_patterns :: patterns where
  "sample_patterns = \<lparr>
     table_row = (\<lambda>l. 3 \<le> length l \<and> hd l = 124 \<and> last l = 124),
     table_separator = (\<lambda>l. 3 \<le> length l \<and> list_all (\<lambda>c. c = 124 \<or> c = 45 \<or> c = 58 \<or> c = 32) l),
     code_fence_start = (\<lambda>l. if starts_with l [96, 96, 96] then Some (drop 3 l) else None),
     code_fence_end = (\<lambda>l. l = [96, 96, 96]),
     unordered_item = (\<lambda>l. if starts_with l [45, 32] then Some ([], drop 2 l) else None),
     ordered_item = (\<lambda>l. None), heading = (\<lambda>l. None),
     horizontal_rule = (\<lambda>l. l = [45, 45, 45])\<rparr>"

theorem stray_lines_dropped_witness:
  "elements (detect_structure sample_patterns (lit ''|a|'')) = []"
proof -
  have l: "lines_of (lit ''|a|'') = [lit ''|a|'']"
    by (simp add: lit_def of_char_def)
  have "\<forall>i < length [lit ''|a|'']. stray_line sample_patterns ([lit ''|a|''] ! i)
      (drop (i + 1) [lit ''|a|''] @ [])"
    by (simp add: stray_line_def sample_patterns_def lit_def of_char_def starts_with_def)
  from stray_lines_dropped [OF this, of 0 0 "document_from_text (lit ''|a|'')"] show ?thesis
    by (simp add: detect_structure_def l detect_loop.simps [of _ "[]"] update_counts_def
        document_from_text_def)
qed

end
