(* ===== verification/Chunker.thy ===== *)
theory Chunker
  imports Structure "HOL-Library.Sublist"
begin

text \<open>
  The structural chunker (\<open>structure/chunker.rs\<close>): a structured document is turned into
  chunks that keep tables and code blocks together.  Loops of the source that are not bounded
  by their data are \<open>partial_function (option)\<close>: \<open>None\<close> is a run that does not return (or
  the panic of the slice \<open>lines[1..n - 1]\<close>), so that returning is something to prove.
\<close>

section \<open>Emitting chunks\<close>

definition push_chunk :: "chunking_result \<Rightarrow> structured_chunk \<Rightarrow> chunking_result" where
  "push_chunk r c = r\<lparr>chunks := chunks r @ [c]\<rparr>"

definition emit_text_chunk :: "chunking_result \<Rightarrow> ustr \<Rightarrow> nat \<Rightarrow> nat \<Rightarrow> chunking_result" where
  "emit_text_chunk r t s e =
     (let index = length (chunks r) in push_chunk r (chunk_of_text (trim t) index s e))"

text \<open>\<open>u32::try_from(n).unwrap_or(0)\<close>\<close>

definition try_u32 :: "nat \<Rightarrow> u32" where
  "try_u32 n = (if n < 2 ^ 32 then of_nat n else 0)"

section \<open>Tables\<close>

definition calculate_rows_per_chunk :: "chunking_options \<Rightarrow> structured_table \<Rightarrow> nat \<Rightarrow> nat" where
  "calculate_rows_per_chunk opts t header_chars =
     (let available = max_chars opts - (header_chars + 10) in
      if available = 0 then 1
      else
        (let total_row_chars = sum_list (map (\<lambda>r. sum_list (map (\<lambda>c. length (cell_text c)) (cells r))
               + length (cells r) * 3) (data_rows t));
             row_count = data_row_count t in
         if row_count = 0 then 1
         else
           (let avg_row_chars = total_row_chars div row_count in
            if avg_row_chars = 0 then row_count else max (available div avg_row_chars) 1)))"

definition part_text :: "ustr \<Rightarrow> structured_row list \<Rightarrow> ustr" where
  "part_text header rs = header @ concat (map (\<lambda>r. 10 # format_row r) rs)"

definition part_chunk ::
  "structured_table \<Rightarrow> ustr \<Rightarrow> nat \<Rightarrow> nat \<Rightarrow> nat \<Rightarrow> nat \<Rightarrow> ustr \<Rightarrow> nat \<Rightarrow> structured_chunk" where
  "part_chunk t header tot cs ce p txt index =
     (if p = 1 then chunk_of_table txt index (table_id t) cs ce
      else chunk_table_continuation txt index (table_id t) (of_nat p) (try_u32 tot) header cs ce)"

text \<open>The \<open>while row_idx < data_rows.len()\<close> loop.\<close>

partial_function (option) part_loop ::
  "structured_table \<Rightarrow> ustr \<Rightarrow> nat \<Rightarrow> nat \<Rightarrow> nat \<Rightarrow> nat \<Rightarrow> structured_row list \<Rightarrow> nat \<Rightarrow> nat \<Rightarrow>
   chunking_result \<Rightarrow> chunking_result option" where
  "part_loop t header max_rows tot cs ce rs p row_idx r =
     (if length rs \<le> row_idx then Some r
      else
        (let end_idx = min (row_idx + max_rows) (length rs);
             rows_in_chunk = take (end_idx - row_idx) (drop row_idx rs);
             txt = part_text header rows_in_chunk;
             index = length (chunks r)
         in part_loop t header max_rows tot cs ce rs (p + 1) end_idx
              (push_chunk r (part_chunk t header tot cs ce p txt index))))"

definition div_ceil :: "nat \<Rightarrow> nat \<Rightarrow> nat" where
  "div_ceil a b = (a + b - 1) div b"

definition chunk_table ::
  "chunking_options \<Rightarrow> chunking_result \<Rightarrow> structured_table \<Rightarrow> nat \<Rightarrow> nat \<Rightarrow> chunking_result option" where
  "chunk_table opts r0 t cs ce =
     (let r = r0\<lparr>tables_processed := tables_processed r0 + 1\<rparr>; index = length (chunks r) in
      case table_handling opts of
        Table_PreserveWhole \<Rightarrow>
          Some (push_chunk r (chunk_of_table (table_raw t) index (table_id t) cs ce))
      | SplitWithHeader \<Rightarrow>
          (let header_text = format_header t; header_chars = length header_text in
           if table_char_count t \<le> max_chars opts then
             Some (push_chunk r (chunk_of_table (table_raw t) index (table_id t) cs ce))
           else
             (let r = r\<lparr>tables_split := tables_split r + 1\<rparr>; drs = data_rows t in
              if drs = [] then
                Some (push_chunk r (chunk_of_table header_text index (table_id t) cs ce))
              else
                (let max_rows = calculate_rows_per_chunk opts t header_chars;
                     tot = div_ceil (length drs) max_rows
                 in part_loop t header_text max_rows tot cs ce drs 1 0 r)))
      | Table_Naive \<Rightarrow> Some (push_chunk r (chunk_of_text (table_raw t) index cs ce)))"

section \<open>Code blocks\<close>

definition code_chunk ::
  "ustr \<Rightarrow> chunk_type \<Rightarrow> nat \<Rightarrow> u32 option \<Rightarrow> u32 option \<Rightarrow> ustr option \<Rightarrow> nat \<Rightarrow> nat \<Rightarrow> structured_chunk" where
  "code_chunk t ty i p tot lang cs ce = \<lparr>chunk_text = t, chunk_type = ty, chunk_index = i,
     element_id = None, part = p, total_parts = tot, chunk_context = lang,
     chunk_start = cs, chunk_end = ce\<rparr>"

text \<open>\<open>lines.first()\<close>, \<open>lines.last()\<close> and \<open>&lines[1..lines.len() - 1]\<close> (saturating), which
  panics for fewer than two lines.\<close>

definition first_or_fence :: "ustr list \<Rightarrow> ustr" where
  "first_or_fence ls = (case ls of [] \<Rightarrow> lit ''```'' | l # _ \<Rightarrow> l)"

definition last_or_fence :: "ustr list \<Rightarrow> ustr" where
  "last_or_fence ls = (if ls = [] then lit ''```'' else last ls)"

definition inner_lines :: "ustr list \<Rightarrow> ustr list option" where
  "inner_lines ls = (if length ls - 1 < 1 then None else Some (butlast (tl ls)))"

definition fenced :: "ustr \<Rightarrow> ustr \<Rightarrow> ustr option \<Rightarrow> ustr \<Rightarrow> ustr" where
  "fenced fence_start fence_end lang c =
     fence_start @ or_empty lang @ [10] @ c @ [10] @ fence_end"

definition is_boundary :: "ustr \<Rightarrow> bool" where
  "is_boundary line =
     (trim line = [] \<or> starts_with (trim line) (lit ''fn '') \<or> starts_with (trim line) (lit ''def '') \<or>
      starts_with (trim line) (lit ''function '') \<or> starts_with (trim line) (lit ''class '') \<or>
      starts_with (trim line) (lit ''impl ''))"

text \<open>One turn of the line loop; the state is \<open>(chunks, current_chunk, current_chars)\<close>.\<close>

definition boundary_step ::
  "nat \<Rightarrow> ustr list \<times> ustr list \<times> nat \<Rightarrow> nat \<times> ustr \<Rightarrow> ustr list \<times> ustr list \<times> nat" where
  "boundary_step maxc st il = (case (st, il) of ((out, cur, n), (i, line)) \<Rightarrow>
     (let line_chars = length line + 1;
          (out, cur, n) =
            (if is_boundary line \<and> maxc div 2 < n \<and> 0 < i \<and> cur \<noteq> []
             then (out @ [join [10] cur], [], 0) else (out, cur, n))
      in (out, cur @ [line], n + line_chars)))"

definition boundary_chunks :: "nat \<Rightarrow> ustr list \<Rightarrow> ustr list" where
  "boundary_chunks maxc ls =
     (let (out, cur, n) = foldl (boundary_step maxc) ([], [], 0) (enumerate 0 ls)
      in if cur \<noteq> [] then out @ [join [10] cur] else out)"

text \<open>The emission loop shared by both splitters: the first part is a code block, the others
  are continuations.\<close>

definition emit_code_part ::
  "ustr \<Rightarrow> ustr \<Rightarrow> ustr option \<Rightarrow> nat \<Rightarrow> nat \<Rightarrow> nat \<Rightarrow> chunking_result \<Rightarrow> nat \<times> ustr \<Rightarrow> chunking_result" where
  "emit_code_part fs fe lang cs ce tot r ic = (case ic of (i, c) \<Rightarrow>
     (let index = length (chunks r); txt = fenced fs fe lang c in
      if i = 0 then push_chunk r (code_chunk txt CT_CodeBlock index (Some 1) (Some (try_u32 tot)) lang cs ce)
      else push_chunk r (code_chunk txt CT_CodeBlockContinuation index (Some (try_u32 (i + 1)))
             (Some (try_u32 tot)) lang cs ce)))"

definition split_code_at_boundaries ::
  "chunking_options \<Rightarrow> chunking_result \<Rightarrow> ustr \<Rightarrow> ustr option \<Rightarrow> nat \<Rightarrow> nat \<Rightarrow> chunking_result option" where
  "split_code_at_boundaries opts r txt lang cs ce =
     (let ls = lines_of txt; fs = first_or_fence ls; fe = last_or_fence ls in
      case inner_lines ls of None \<Rightarrow> None
      | Some content_lines \<Rightarrow>
          (let parts = boundary_chunks (max_chars opts) content_lines; tot = length parts
           in Some (foldl (emit_code_part fs fe lang cs ce tot) r (enumerate 0 parts))))"

text \<open>The inner loop of the overlapping splitter: how many lines fit.\<close>

fun fit_lines :: "nat \<Rightarrow> nat \<Rightarrow> ustr list \<Rightarrow> nat" where
  "fit_lines maxc cur [] = 0"
| "fit_lines maxc cur (l # ls) =
     (let cur = cur + (length l + 1) in if maxc < cur then 0 else Suc (fit_lines maxc cur ls))"

partial_function (option) overlap_loop :: "nat \<Rightarrow> nat \<Rightarrow> ustr list \<Rightarrow> nat \<Rightarrow> ustr list option" where
  "overlap_loop maxc overlap ls start_line =
     (if length ls \<le> start_line then Some []
      else
        (let e0 = start_line + fit_lines maxc 0 (drop start_line ls);
             end_line = (if e0 = start_line then start_line + 1 else e0);
             c = join [10] (take (end_line - start_line) (drop start_line ls));
             next = (if length ls \<le> end_line then length ls else end_line - overlap)
         in Option.bind (overlap_loop maxc overlap ls next) (\<lambda>cs. Some (c # cs))))"

definition overlap_lines :: "chunking_options \<Rightarrow> nat" where
  "overlap_lines opts = max (overlap_chars opts div 40) 2"

definition split_code_with_overlap ::
  "chunking_options \<Rightarrow> chunking_result \<Rightarrow> ustr \<Rightarrow> ustr option \<Rightarrow> nat \<Rightarrow> nat \<Rightarrow> chunking_result option" where
  "split_code_with_overlap opts r txt lang cs ce =
     (let ls = lines_of txt; fs = first_or_fence ls; fe = last_or_fence ls in
      case inner_lines ls of None \<Rightarrow> None
      | Some content_lines \<Rightarrow>
          (case overlap_loop (max_chars opts) (overlap_lines opts) content_lines 0 of
             None \<Rightarrow> None
           | Some parts \<Rightarrow>
               (let tot = length parts
                in Some (foldl (emit_code_part fs fe lang cs ce tot) r (enumerate 0 parts)))))"

definition chunk_code_block ::
  "chunking_options \<Rightarrow> chunking_result \<Rightarrow> ustr \<Rightarrow> ustr option \<Rightarrow> nat \<Rightarrow> nat \<Rightarrow> chunking_result option" where
  "chunk_code_block opts r0 txt lang cs ce =
     (let r = r0\<lparr>code_blocks_processed := code_blocks_processed r0 + 1\<rparr>;
          index = length (chunks r);
          whole = push_chunk r (code_chunk txt CT_CodeBlock index None None lang cs ce)
      in case code_handling opts of
           Code_PreserveWhole \<Rightarrow> Some whole
         | SplitAtBoundaries \<Rightarrow>
             (let block_chars = length txt in
              if block_chars \<le> max_chars opts then Some whole
              else split_code_at_boundaries opts r txt lang cs ce)
         | SplitWithOverlap \<Rightarrow> split_code_with_overlap opts r txt lang cs ce)"

section \<open>The document loop\<close>

record chunk_state =
  c_result :: chunking_result
  current_text :: ustr
  current_start :: nat
  pending_heading :: "ustr option"

text \<open>\<open>if !current_text.trim().is_empty() { emit; current_text.clear() }\<close>\<close>

definition flush_text :: "chunk_state \<Rightarrow> nat \<Rightarrow> chunk_state" where
  "flush_text st e =
     (if trim (current_text st) \<noteq> [] then
        st\<lparr>c_result := emit_text_chunk (c_result st) (current_text st) (current_start st) e,
           current_text := []\<rparr>
      else st)"

definition push_text :: "chunk_state \<Rightarrow> ustr \<Rightarrow> ustr \<Rightarrow> chunk_state" where
  "push_text st sep t =
     st\<lparr>current_text := (if current_text st \<noteq> [] then current_text st @ sep else current_text st) @ t\<rparr>"

definition chunk_paragraph :: "chunking_options \<Rightarrow> chunk_state \<Rightarrow> document_element \<Rightarrow> ustr \<Rightarrow> chunk_state" where
  "chunk_paragraph opts st el t =
     (let st =
        (if max_chars opts < length (current_text st) + length t \<and> trim (current_text st) \<noteq> [] then
           (let st = (flush_text st (char_start el))\<lparr>current_start := char_start el\<rparr> in
            case pending_heading st of
              None \<Rightarrow> st
            | Some heading \<Rightarrow>
                st\<lparr>pending_heading := None, current_text := current_text st @ heading @ [10, 10]\<rparr>)
         else st);
        cur = current_text st;
        cur = (if cur \<noteq> [] \<and> \<not> ends_with cur [10] then cur @ [10, 10] else cur)
      in st\<lparr>current_text := cur @ t\<rparr>)"

definition chunk_element ::
  "chunking_options \<Rightarrow> chunk_state \<Rightarrow> document_element \<Rightarrow> chunk_state option" where
  "chunk_element opts st el = (case data el of
     Table t \<Rightarrow>
       (let st = flush_text st (char_start el) in
        case chunk_table opts (c_result st) t (char_start el) (char_end el) of
          None \<Rightarrow> None
        | Some r \<Rightarrow> Some (st\<lparr>c_result := r, current_start := char_end el\<rparr>))
   | CodeBlock b \<Rightarrow>
       (let st = flush_text st (char_start el) in
        case chunk_code_block opts (c_result st) (format_code_block b) (language b)
               (char_start el) (char_end el) of
          None \<Rightarrow> None
        | Some r \<Rightarrow> Some (st\<lparr>c_result := r, current_start := char_end el\<rparr>))
   | Heading h \<Rightarrow>
       (let st = (if include_section_headers opts
                  then st\<lparr>pending_heading := Some (format_heading h)\<rparr> else st)
        in Some (push_text st [10] (format_heading h)))
   | DList l \<Rightarrow>
       (if preserve_lists opts then
          (let list_text = format_list l;
               combined_len = length (current_text st) + length list_text;
               st = (if max_chars opts < combined_len \<and> trim (current_text st) \<noteq> []
                     then (flush_text st (char_start el))\<lparr>current_start := char_start el\<rparr> else st)
           in Some (push_text st [10, 10] list_text))
        else Some (push_text st [10, 10] (element_text el)))
   | Paragraph t \<Rightarrow> Some (chunk_paragraph opts st el t)
   | BlockQuote t \<Rightarrow> Some (push_text st [10, 10] (lit ''> '' @ t))
   | Separator \<Rightarrow>
       (let st = flush_text st (char_start el)
        in Some (st\<lparr>current_start := char_end el, pending_heading := None\<rparr>))
   | Raw t \<Rightarrow> Some (push_text st [10, 10] t))"

fun chunk_elements ::
  "chunking_options \<Rightarrow> chunk_state \<Rightarrow> document_element list \<Rightarrow> chunk_state option" where
  "chunk_elements opts st [] = Some st"
| "chunk_elements opts st (el # els) =
     (case chunk_element opts st el of None \<Rightarrow> None | Some st' \<Rightarrow> chunk_elements opts st' els)"

definition chunk_init :: chunk_state where
  "chunk_init = \<lparr>c_result = empty_result, current_text = [], current_start = 0, pending_heading = None\<rparr>"

definition chunk :: "chunking_options \<Rightarrow> structured_document \<Rightarrow> chunking_result option" where
  "chunk opts doc = (case chunk_elements opts chunk_init (elements doc) of
       None \<Rightarrow> None
     | Some st \<Rightarrow>
         Some (if trim (current_text st) \<noteq> []
               then emit_text_chunk (c_result st) (current_text st) (current_start st) (total_chars doc)
               else c_result st))"

definition with_max_chars :: "nat \<Rightarrow> chunking_options" where
  "with_max_chars n = default_options\<lparr>max_chars := n\<rparr>"

definition chunk_structured :: "structured_document \<Rightarrow> chunking_result option" where
  "chunk_structured doc = chunk default_options doc"

definition chunk_structured_with_max :: "structured_document \<Rightarrow> nat \<Rightarrow> chunking_result option" where
  "chunk_structured_with_max doc n = chunk (with_max_chars n) doc"


section \<open>Lemmas: table parts\<close>

function row_groups :: "nat \<Rightarrow> 'a list \<Rightarrow> 'a list list" where
  "row_groups n rs = (if rs = [] \<or> n = 0 then [] else take n rs # row_groups n (drop n rs))"
  by pat_completeness auto
termination by (relation "measure (\<lambda>(n, rs). length rs)") auto

declare row_groups.simps [simp del]

lemma concat_row_groups: "0 < n \<Longrightarrow> concat (row_groups n rs) = rs"
  by (induction n rs rule: row_groups.induct) (subst row_groups.simps, auto)

lemma row_groups_nonempty: "[] \<notin> set (row_groups n rs)"
  by (induction n rs rule: row_groups.induct) (subst row_groups.simps, auto)

lemma row_groups_bound: "g \<in> set (row_groups n rs) \<Longrightarrow> length g \<le> n"
proof (induction n rs rule: row_groups.induct)
  case (1 n rs)
  then show ?case using row_groups.simps [of n rs] by (auto split: if_splits)
qed

lemma length_row_groups: "0 < n \<Longrightarrow> length (row_groups n rs) = div_ceil (length rs) n"
proof (induction n rs rule: row_groups.induct)
  case (1 n rs)
  show ?case
  proof (cases "rs = []")
    case True
    with 1(2) show ?thesis by (simp add: row_groups.simps [of n "[]"] div_ceil_def)
  next
    case False
    with 1 have ih: "length (row_groups n (drop n rs)) = div_ceil (length rs - n) n" by simp
    have "div_ceil (length rs) n = Suc (div_ceil (length rs - n) n)"
    proof (cases "n \<le> length rs")
      case True
      then have "length rs + n - 1 = (length rs - n + n - 1) + n" using 1(2) by simp
      with 1(2) show ?thesis unfolding div_ceil_def by (metis add.commute div_add_self2 less_irrefl Suc_eq_plus1)
    next
      case F: False
      have "(length rs + n - 1) div n = Suc ((length rs - 1) div n)"
        using 1(2) False by (metis Suc_eq_plus1 add.commute add_diff_assoc2 div_add_self2 length_greater_0_conv
            less_irrefl Suc_leI One_nat_def)
      with F 1(2) show ?thesis by (simp add: div_ceil_def)
    qed
    with ih False 1(2) show ?thesis by (simp add: row_groups.simps [of n rs])
  qed
qed

fun parts_of ::
  "structured_table \<Rightarrow> ustr \<Rightarrow> nat \<Rightarrow> nat \<Rightarrow> nat \<Rightarrow> nat \<Rightarrow> nat \<Rightarrow> structured_row list list \<Rightarrow> structured_chunk list" where
  "parts_of t h tot cs ce p i [] = []"
| "parts_of t h tot cs ce p i (g # gs) =
     part_chunk t h tot cs ce p (part_text h g) i # parts_of t h tot cs ce (p + 1) (i + 1) gs"

lemma length_parts_of [simp]: "length (parts_of t h tot cs ce p i gs) = length gs"
  by (induction t h tot cs ce p i gs rule: parts_of.induct) simp_all

lemma nth_parts_of: "k < length gs \<Longrightarrow> parts_of t h tot cs ce p i gs ! k =
    part_chunk t h tot cs ce (p + k) (part_text h (gs ! k)) (i + k)"
proof (induction t h tot cs ce p i gs arbitrary: k rule: parts_of.induct)
  case (2 t h tot cs ce p i g gs)
  then show ?case by (cases k) simp_all
qed simp

lemma part_loop_eq:
  assumes "0 < n" "i \<le> length rs"
  shows "part_loop t h n tot cs ce rs p i r = Some (r\<lparr>chunks := chunks r @
    parts_of t h tot cs ce p (length (chunks r)) (row_groups n (drop i rs))\<rparr>)"
  using assms(2)
proof (induction "length rs - i" arbitrary: i p r rule: less_induct)
  case less
  show ?case
  proof (cases "length rs \<le> i")
    case True
    then show ?thesis
      by (simp add: part_loop.simps [of t h n tot cs ce rs p i] row_groups.simps [of n "[]"])
  next
    case False
    let ?e = "min (i + n) (length rs)" and ?g = "take n (drop i rs)"
    let ?r = "push_chunk r (part_chunk t h tot cs ce p (part_text h ?g) (length (chunks r)))"
    have g: "take (?e - i) (drop i rs) = ?g"
      by (simp add: min_def take_all)
    have "part_loop t h n tot cs ce rs (p + 1) ?e ?r = Some (?r\<lparr>chunks := chunks ?r @
        parts_of t h tot cs ce (p + 1) (length (chunks ?r)) (row_groups n (drop ?e rs))\<rparr>)"
      using False assms(1) by (intro less) auto
    moreover have "row_groups n (drop i rs) = ?g # row_groups n (drop ?e rs)"
      using False assms(1) by (subst row_groups.simps) (simp add: min_def add.commute)
    ultimately show ?thesis
      using False g by (subst part_loop.simps) (simp add: push_chunk_def Let_def)
  qed
qed

lemma rows_per_chunk_pos: "0 < calculate_rows_per_chunk opts t n"
  by (simp add: calculate_rows_per_chunk_def Let_def less_max_iff_disj)

lemma chunk_table_split_eq:
  assumes "table_handling opts = SplitWithHeader" "max_chars opts < table_char_count t"
    and "data_rows t \<noteq> []"
  defines "n \<equiv> calculate_rows_per_chunk opts t (length (format_header t))"
  shows "chunk_table opts r t cs ce = Some (r\<lparr>tables_processed := tables_processed r + 1,
     tables_split := tables_split r + 1, chunks := chunks r @
       parts_of t (format_header t) (length (row_groups n (data_rows t))) cs ce 1
         (length (chunks r)) (row_groups n (data_rows t))\<rparr>)"
proof -
  have "0 < n" by (simp add: n_def rows_per_chunk_pos)
  then show ?thesis
    using assms part_loop_eq [of n 0 "data_rows t"]
    by (simp add: chunk_table_def Let_def length_row_groups)
qed


section \<open>Lemmas: results only grow, and are numbered\<close>

text \<open>\<open>grows r r'\<close>: the chunks of \<open>r\<close> are kept, and if they are numbered by position so
  are those of \<open>r'\<close>.\<close>

definition numbered :: "chunking_result \<Rightarrow> bool" where
  "numbered r = (map chunk_index (chunks r) = [0..<length (chunks r)])"

definition grows :: "chunking_result \<Rightarrow> chunking_result \<Rightarrow> bool" where
  "grows r r' = (prefix (chunks r) (chunks r') \<and> (numbered r \<longrightarrow> numbered r'))"

lemma grows_refl [simp, intro]: "grows r r"
  by (simp add: grows_def)

lemma grows_trans [trans]: "grows a b \<Longrightarrow> grows b c \<Longrightarrow> grows a c"
  by (auto simp: grows_def intro: prefix_order.trans)

lemma grows_push [simp]: "chunk_index c = length (chunks r) \<Longrightarrow> grows r (push_chunk r c)"
  by (simp add: grows_def numbered_def push_chunk_def)

lemma grows_same_chunks: "chunks r' = chunks r \<Longrightarrow> grows r r'"
  by (simp add: grows_def numbered_def)

lemma grows_count [simp]:
  "grows (r\<lparr>tables_processed := n\<rparr>) r' \<longleftrightarrow> grows r r'"
  "grows (r\<lparr>tables_split := n\<rparr>) r' \<longleftrightarrow> grows r r'"
  "grows (r\<lparr>code_blocks_processed := n\<rparr>) r' \<longleftrightarrow> grows r r'"
  by (simp_all add: grows_def numbered_def)

lemma index_simps [simp]:
  "chunk_index (chunk_of_text t i s e) = i" "chunk_index (chunk_of_table t i k s e) = i"
  "chunk_index (chunk_table_continuation t i k p n h s e) = i"
  "chunk_index (code_chunk t ty i p' n' l s e) = i"
  "chunk_index (part_chunk tb h tot s e q t i) = i"
  "chunk_text (chunk_of_text t i s e) = t" "chunk_text (chunk_of_table t i k s e) = t"
  "chunk_text (code_chunk t ty i p' n' l s e) = t"
  by (simp_all add: chunk_of_text_def chunk_of_table_def chunk_table_continuation_def
      code_chunk_def part_chunk_def)

lemma push_chunk_simps [simp]:
  "chunks (push_chunk r c) = chunks r @ [c]"
  "tables_processed (push_chunk r c) = tables_processed r"
  "code_blocks_processed (push_chunk r c) = code_blocks_processed r"
  by (simp_all add: push_chunk_def)

lemma grows_emit [simp]: "grows r (emit_text_chunk r t s e)"
  by (simp add: emit_text_chunk_def Let_def)

lemma parts_of_index: "map chunk_index (parts_of t h tot cs ce p i gs) = [i..<i + length gs]"
proof (induction t h tot cs ce p i gs rule: parts_of.induct)
  case (2 t h tot cs ce p i g gs)
  then show ?case using upt_conv_Cons [of i "i + length (g # gs)"] by simp
qed simp

lemma part_loop_grows:
  assumes "0 < n"
  shows "\<exists>r'. part_loop t h n tot cs ce rs p 0 r = Some r' \<and> grows r r' \<and>
    tables_processed r' = tables_processed r \<and> code_blocks_processed r' = code_blocks_processed r"
proof -
  have "map chunk_index (chunks r @ parts_of t h tot cs ce p (length (chunks r)) gs) =
      [0..<length (chunks r) + length gs]" if "numbered r" for gs
    using that parts_of_index [of t h tot cs ce p "length (chunks r)" gs]
      upt_add_eq_append [of 0 "length (chunks r)" "length gs"]
    by (simp add: numbered_def)
  then show ?thesis
    using part_loop_eq [OF assms, of 0 rs t h tot cs ce p r] by (simp add: grows_def numbered_def)
qed

lemma chunk_table_grows:
  "\<exists>r'. chunk_table opts r t cs ce = Some r' \<and> grows r r' \<and>
     tables_processed r' = tables_processed r + 1 \<and> code_blocks_processed r' = code_blocks_processed r"
proof (cases "table_handling opts = SplitWithHeader \<and> max_chars opts < table_char_count t \<and> data_rows t \<noteq> []")
  case True
  define r1 where "r1 = r\<lparr>tables_processed := tables_processed r + 1, tables_split := tables_split r + 1\<rparr>"
  from part_loop_grows [OF rows_per_chunk_pos, of t _ opts t _ _ _ _ _ 1 r1] True
  show ?thesis by (fastforce simp: chunk_table_def Let_def r1_def)
next
  case False
  then show ?thesis
    by (auto simp: chunk_table_def Let_def not_less grows_same_chunks
        intro!: grows_trans [OF _ grows_push] split: table_strategy.split)
qed

lemma emit_code_grows:
  "grows r (foldl (emit_code_part fs fe lang cs ce tot) r ics)"
proof (induction ics arbitrary: r)
  case (Cons ic ics)
  have "grows r (emit_code_part fs fe lang cs ce tot r ic)"
    by (simp add: emit_code_part_def Let_def split: prod.split)
  also note Cons
  finally show ?case by simp
qed simp

lemma emit_code_counts:
  "tables_processed (foldl (emit_code_part fs fe lang cs ce tot) r ics) = tables_processed r"
  "code_blocks_processed (foldl (emit_code_part fs fe lang cs ce tot) r ics) = code_blocks_processed r"
  by (induction ics arbitrary: r) (simp_all add: emit_code_part_def Let_def split: prod.split)

lemma chunk_code_grows:
  "chunk_code_block opts r t lang cs ce = Some r' \<Longrightarrow> grows r r' \<and>
     code_blocks_processed r' = code_blocks_processed r + 1 \<and> tables_processed r' = tables_processed r"
  unfolding chunk_code_block_def split_code_at_boundaries_def split_code_with_overlap_def Let_def
  using emit_code_grows [of "r\<lparr>code_blocks_processed := code_blocks_processed r + 1\<rparr>"]
  by (auto simp: emit_code_counts grows_def numbered_def push_chunk_def
      split: code_strategy.splits if_splits option.splits)

lemma flush_text_grows [simp]: "grows (c_result st) (c_result (flush_text st e))"
  by (simp add: flush_text_def)


definition is_table_data :: "element_data \<Rightarrow> bool" where
  "is_table_data d = (case d of Table _ \<Rightarrow> True | _ \<Rightarrow> False)"

definition is_code_data :: "element_data \<Rightarrow> bool" where
  "is_code_data d = (case d of CodeBlock _ \<Rightarrow> True | _ \<Rightarrow> False)"

lemma flush_counts [simp]:
  "tables_processed (c_result (flush_text st e)) = tables_processed (c_result st)"
  "code_blocks_processed (c_result (flush_text st e)) = code_blocks_processed (c_result st)"
  by (simp_all add: flush_text_def emit_text_chunk_def Let_def)

lemma chunk_paragraph_grows:
  "grows (c_result st) (c_result (chunk_paragraph opts st el t)) \<and>
   tables_processed (c_result (chunk_paragraph opts st el t)) = tables_processed (c_result st) \<and>
   code_blocks_processed (c_result (chunk_paragraph opts st el t)) =
     code_blocks_processed (c_result st)"
  by (simp add: chunk_paragraph_def Let_def split: option.split)

lemma chunk_element_grows:
  assumes "chunk_element opts st el = Some st'"
  shows "grows (c_result st) (c_result st') \<and>
    tables_processed (c_result st') =
      tables_processed (c_result st) + (if is_table_data (data el) then 1 else 0) \<and>
    code_blocks_processed (c_result st') =
      code_blocks_processed (c_result st) + (if is_code_data (data el) then 1 else 0)"
proof (cases "data el")
  case (Table t)
  from assms Table obtain r where
    "chunk_table opts (c_result (flush_text st (char_start el))) t (char_start el) (char_end el) = Some r"
    "c_result st' = r"
    by (auto simp: chunk_element_def Let_def split: option.splits)
  with chunk_table_grows [of opts "c_result (flush_text st (char_start el))" t "char_start el" "char_end el"]
    Table show ?thesis
    using grows_trans [OF flush_text_grows [of st "char_start el"]]
    by (auto simp: is_table_data_def is_code_data_def)
next
  case (CodeBlock b)
  from assms CodeBlock obtain r where
    "chunk_code_block opts (c_result (flush_text st (char_start el))) (format_code_block b)
       (language b) (char_start el) (char_end el) = Some r"
    "c_result st' = r"
    by (auto simp: chunk_element_def Let_def split: option.splits)
  with chunk_code_grows [of opts "c_result (flush_text st (char_start el))" "format_code_block b"]
    CodeBlock show ?thesis
    using grows_trans [OF flush_text_grows [of st "char_start el"]]
    by (auto simp: is_table_data_def is_code_data_def)
next
  case (Paragraph t)
  with assms chunk_paragraph_grows [of st opts el t] show ?thesis
    by (auto simp: chunk_element_def is_table_data_def is_code_data_def)
qed (use assms in \<open>auto simp: chunk_element_def Let_def push_text_def is_table_data_def
    is_code_data_def split: if_splits\<close>)

definition no_overlap :: "chunking_options \<Rightarrow> bool" where
  "no_overlap opts = (code_handling opts \<noteq> SplitWithOverlap)"

section \<open>Lemmas: fenced text and its lines\<close>

lemma lines_of_split:
  assumes "10 \<notin> set a"
  shows "lines_of (a @ 10 # b) = strip_cr a # lines_of b"
proof -
  have a: "\<And>x. x \<in> set a \<Longrightarrow> x \<noteq> 10" using assms by auto
  have t: "takeWhile (\<lambda>c. c \<noteq> 10) (a @ 10 # b) = a" "dropWhile (\<lambda>c. c \<noteq> 10) (a @ 10 # b) = 10 # b"
    using a takeWhile_append2 [of a "\<lambda>c. c \<noteq> 10"] dropWhile_append2 [of a "\<lambda>c. c \<noteq> 10"]
    by simp_all
  obtain c s where cs: "a @ 10 # b = c # s" by (cases "a @ 10 # b") auto
  show ?thesis using t unfolding cs by simp
qed

lemma lines_of_single: "10 \<notin> set a \<Longrightarrow> a \<noteq> [] \<Longrightarrow> lines_of a = [a]"
proof -
  assume a: "10 \<notin> set a" "a \<noteq> []"
  then have "dropWhile (\<lambda>c. c \<noteq> 10) a = []" by auto
  with a(2) show ?thesis by (cases a) simp_all
qed

lemma lines_of_snoc:
  assumes "10 \<notin> set x" "x \<noteq> []"
  shows "lines_of (c @ 10 # x) = lines_of (c @ [10]) @ [x]"
proof (induction "length c" arbitrary: c rule: less_induct)
  case less
  show ?case
  proof (cases "10 \<in> set c")
    case False
    then show ?thesis using assms by (simp add: lines_of_split lines_of_single)
  next
    case True
    then obtain a b where c: "c = a @ 10 # b" "10 \<notin> set a" using split_list_first by fastforce
    with less [of b] show ?thesis by (simp add: lines_of_split)
  qed
qed

lemma length_lines_content: "lines_of (c @ [10]) \<noteq> []"
proof (cases "10 \<in> set c")
  case True
  then obtain a b where c: "c = a @ 10 # b" "10 \<notin> set a" using split_list_first by fastforce
  then show ?thesis by (simp add: lines_of_split)
next
  case False
  then show ?thesis by (simp add: lines_of_split)
qed

lemma fence_lit: "lit ''```'' = [96, 96, 96]"
  by (simp add: lit_def of_char_def)

text \<open>The lines of a formatted code block: the opening fence with the language, the content
  lines, the closing fence.\<close>

lemma lines_of_code_block:
  assumes "10 \<notin> set (or_empty (language b))" "13 \<notin> set (or_empty (language b))"
  shows "lines_of (format_code_block b) =
    (lit ''```'' @ or_empty (language b)) # lines_of (content b @ [10]) @ [lit ''```'']"
proof -
  let ?f = "lit ''```'' @ or_empty (language b)"
  have f: "10 \<notin> set ?f" "?f \<noteq> []" "13 \<notin> set ?f" using assms by (auto simp: fence_lit)
  then have "last ?f \<noteq> 13" using last_in_set by metis
  then have cr: "strip_cr ?f = ?f" by (simp add: strip_cr_def)
  have "lines_of (format_code_block b) = strip_cr ?f # lines_of (content b @ 10 # lit ''```'')"
    unfolding format_code_block_fences by (rule lines_of_split) (rule f(1))
  with cr show ?thesis by (simp add: lines_of_snoc fence_lit)
qed

lemma inner_lines_code_block:
  assumes "10 \<notin> set (or_empty (language b))" "13 \<notin> set (or_empty (language b))"
  shows "inner_lines (lines_of (format_code_block b)) = Some (lines_of (content b @ [10]))"
  using length_lines_content [of "content b"]
  by (simp add: lines_of_code_block [OF assms] inner_lines_def butlast_append)

lemma inner_lines_some: "\<exists>ls. inner_lines (lines_of (format_code_block b)) = Some ls"
proof -
  let ?a = "lit ''```'' @ or_empty (language b)"
  have "2 \<le> length (lines_of (c @ 10 # x @ 10 # y))" if "y \<noteq> []" "10 \<notin> set y" for c x y
    using lines_of_snoc [OF that(2,1), of "c @ 10 # x"] length_lines_content [of "c @ 10 # x"]
    by (cases "lines_of ((c @ 10 # x) @ [10])") simp_all
  from this [of "lit ''```''" ?a "content b"] have "2 \<le> length (lines_of (format_code_block b))"
    unfolding format_code_block_fences by (simp add: fence_lit)
  then show ?thesis by (simp add: inner_lines_def)
qed


section \<open>Lemmas: splitting code\<close>

lemma boundary_steps_groups:
  assumes "\<exists>gs. st = (map (join [10]) gs, cur, n) \<and> concat gs @ cur = pre \<and> [] \<notin> set gs"
  shows "\<exists>gs cur n. foldl (boundary_step m) st (enumerate i ls) = (map (join [10]) gs, cur, n) \<and>
    concat gs @ cur = pre @ ls \<and> [] \<notin> set gs"
  using assms
proof (induction ls arbitrary: st cur n pre i)
  case Nil
  then obtain gs where "st = (map (join [10]) gs, cur, n)" "concat gs @ cur = pre" "[] \<notin> set gs"
    by blast
  then show ?case by (intro exI [of _ gs] exI [of _ cur] exI [of _ n]) simp
next
  case (Cons l ls)
  then obtain gs where st: "st = (map (join [10]) gs, cur, n)" "concat gs @ cur = pre" "[] \<notin> set gs"
    by blast
  have "\<exists>gs' cur' n'. boundary_step m st (i, l) = (map (join [10]) gs', cur', n') \<and>
      concat gs' @ cur' = pre @ [l] \<and> [] \<notin> set gs'"
  proof (cases "is_boundary l \<and> m div 2 < n \<and> 0 < i \<and> cur \<noteq> []")
    case True
    with st show ?thesis
      by (intro exI [of _ "gs @ [cur]"] exI) (auto simp: boundary_step_def Let_def)
  next
    case False
    with st show ?thesis by (intro exI [of _ gs] exI) (auto simp: boundary_step_def Let_def)
  qed
  then obtain gs' cur' n' where st': "boundary_step m st (i, l) = (map (join [10]) gs', cur', n')"
    "concat gs' @ cur' = pre @ [l]" "[] \<notin> set gs'" by blast
  from Cons.IH [of "boundary_step m st (i, l)" cur' n' "pre @ [l]" "Suc i"] st' show ?case by auto
qed

lemma boundary_chunks_groups:
  "\<exists>gs. boundary_chunks m ls = map (join [10]) gs \<and> concat gs = ls \<and> [] \<notin> set gs"
proof -
  obtain gs cur n where "foldl (boundary_step m) ([], [], 0) (enumerate 0 ls) =
      (map (join [10]) gs, cur, n)" "concat gs @ cur = ls" "[] \<notin> set gs"
    using boundary_steps_groups [of "([], [], 0)" "[]" 0 "[]" m 0 ls] by auto
  then show ?thesis
    by (cases "cur = []") (auto simp: boundary_chunks_def intro: exI [of _ "gs @ [cur]"])
qed

lemma emit_code_texts:
  "map chunk_text (chunks (foldl (emit_code_part fs fe lang cs ce tot) r (enumerate i parts))) =
     map chunk_text (chunks r) @ map (fenced fs fe lang) parts"
  by (induction parts arbitrary: r i) (simp_all add: emit_code_part_def Let_def)

lemma overlap_stuck_aux:
  assumes "max 1 (fit_lines m 0 ls) < length ls" "max 1 (fit_lines m 0 ls) \<le> ov"
    and "overlap_loop m' ov' ls' start = Some y"
  shows "\<not> (start = 0 \<and> m' = m \<and> ov' = ov \<and> ls' = ls)"
proof (rule overlap_loop.raw_induct
    [where P = "\<lambda>m' ov' ls' start y. \<not> (start = 0 \<and> m' = m \<and> ov' = ov \<and> ls' = ls)"])
  show "overlap_loop m' ov' ls' start = Some y" by (rule assms(3))
next
  fix rec :: "nat \<Rightarrow> nat \<Rightarrow> ustr list \<Rightarrow> nat \<Rightarrow> ustr list option" and m' ov' ls' start y
  assume ih: "\<And>m' ov' ls' start y. rec m' ov' ls' start = Some y \<Longrightarrow>
      \<not> (start = 0 \<and> m' = m \<and> ov' = ov \<and> ls' = ls)"
    and body: "(if length ls' \<le> start then Some []
      else
        (let e0 = start + fit_lines m' 0 (drop start ls');
             end_line = (if e0 = start then start + 1 else e0);
             c = join [10] (take (end_line - start) (drop start ls'));
             next = (if length ls' \<le> end_line then length ls' else end_line - ov')
         in Option.bind (rec m' ov' ls' next) (\<lambda>cs. Some (c # cs)))) = Some y"
  show "\<not> (start = 0 \<and> m' = m \<and> ov' = ov \<and> ls' = ls)"
  proof
    assume eqs: "start = 0 \<and> m' = m \<and> ov' = ov \<and> ls' = ls"
    define e where "e = (if fit_lines m 0 ls = 0 then 1 else fit_lines m 0 ls)"
    have e: "e < length ls" "e \<le> ov" using assms(1,2) by (auto simp: e_def max_def split: if_splits)
    from body eqs e obtain cs where "rec m ov ls 0 = Some cs"
      by (auto simp: Let_def e_def bind_eq_Some_conv split: if_splits)
    from ih [OF this] show False by simp
  qed
qed

lemma overlap_stuck:
  assumes "max 1 (fit_lines m 0 ls) < length ls" "max 1 (fit_lines m 0 ls) \<le> ov"
  shows "overlap_loop m ov ls 0 = None"
  using overlap_stuck_aux [OF assms, of m ov ls 0] by (cases "overlap_loop m ov ls 0") auto

lemma fit_lines_ge:
  "\<forall>l \<in> set ls. length l + 1 \<le> w \<Longrightarrow> cur + k * w \<le> m \<Longrightarrow> k \<le> length ls \<Longrightarrow> k \<le> fit_lines m cur ls"
proof (induction m cur ls arbitrary: k rule: fit_lines.induct)
  case (2 m cur l ls)
  show ?case
  proof (cases k)
    case (Suc j)
    have "cur + (length l + 1) + j * w \<le> m" using 2(2,3) Suc by simp
    moreover from this have "\<not> m < cur + (length l + 1)" by linarith
    ultimately show ?thesis using 2(1) [of "cur + (length l + 1)" j] 2(2,4) Suc by simp
  qed simp
qed simp

lemma overlap_returns:
  assumes w: "\<forall>l \<in> set ls. (ov + 1) * (length l + 1) \<le> m"
  shows "\<exists>parts. overlap_loop m ov ls start = Some parts"
proof (induction "length ls - start" arbitrary: start rule: less_induct)
  case less
  show ?case
  proof (cases "length ls \<le> start")
    case True
    then show ?thesis by (simp add: overlap_loop.simps)
  next
    case False
    define f where "f = fit_lines m 0 (drop start ls)"
    define e where "e = (if start + f = start then start + 1 else start + f)"
    define nx where "nx = (if length ls \<le> e then length ls else e - ov)"
    define w' where "w' = Max (insert 1 ((\<lambda>l. length l + 1) ` set ls))"
    have w': "\<forall>l \<in> set (drop start ls). length l + 1 \<le> w'"
      using in_set_dropD by (fastforce simp: w'_def intro!: Max_ge)
    have "(ov + 1) * w' \<le> m"
    proof -
      have "w' \<in> insert 1 ((\<lambda>l. length l + 1) ` set ls)" unfolding w'_def by (rule Max_in) auto
      moreover have "(ov + 1) * 1 \<le> m"
      proof -
        from False have "ls \<noteq> []" by auto
        then have "(ov + 1) * (length (hd ls) + 1) \<le> m" using w by auto
        then show ?thesis by simp
      qed
      ultimately show ?thesis using w by auto
    qed
    then have ge: "min (ov + 1) (length ls - start) \<le> f"
      unfolding f_def by (intro fit_lines_ge [OF w']) (auto intro: le_trans [OF mult_le_mono1 [of _ "ov + 1"]])
    have "start < nx" using ge False by (auto simp: nx_def e_def min_def split: if_splits)
    then have "length ls - nx < length ls - start" using False by linarith
    from less [OF this] obtain parts where "overlap_loop m ov ls nx = Some parts" by blast
    moreover have "overlap_loop m ov ls start = Option.bind (overlap_loop m ov ls nx)
        (\<lambda>cs. Some (join [10] (take (e - start) (drop start ls)) # cs))"
      using False by (subst overlap_loop.simps) (simp only: Let_def f_def e_def nx_def if_False)
    ultimately show ?thesis by simp
  qed
qed

section \<open>Lemmas: no text is lost\<close>

text \<open>A text with no white space at its ends survives trimming of any text that contains it.\<close>

definition solid :: "ustr \<Rightarrow> bool" where
  "solid t = (t \<noteq> [] \<and> \<not> is_whitespace (hd t) \<and> \<not> is_whitespace (last t))"

lemma solid_trim: "trim t \<noteq> [] \<Longrightarrow> solid (trim t)"
  by (simp add: solid_def trim_ends)

lemma solid_sublist_trim:
  assumes "solid t" "sublist t s"
  shows "sublist t (trim s)"
proof -
  from assms(2) obtain a b where s: "s = a @ t @ b" by (auto simp: sublist_def)
  from assms(1) obtain c t' where t: "t = c # t'" "\<not> is_whitespace c"
    by (cases t) (auto simp: solid_def)
  obtain a' where a': "trim_start s = a' @ t @ b"
  proof (cases "list_all is_whitespace a")
    case True
    then have "trim_start s = [] @ t @ b"
      using t by (simp add: trim_start_def s dropWhile_append2 list_all_iff)
    with that show ?thesis by blast
  next
    case False
    then obtain x where "x \<in> set a" "\<not> is_whitespace x" by (auto simp: list_all_iff)
    then have "trim_start s = dropWhile is_whitespace a @ t @ b"
      unfolding trim_start_def s by (rule dropWhile_append1)
    with that show ?thesis by blast
  qed
  from assms(1) obtain d t'' where t2: "rev t = d # t''" "\<not> is_whitespace d"
    by (cases t rule: rev_cases) (auto simp: solid_def)
  have "\<exists>b'. dropWhile is_whitespace (rev b @ rev t @ rev a') = b' @ rev t @ rev a'"
  proof (cases "list_all is_whitespace (rev b)")
    case True
    then have "dropWhile is_whitespace (rev b @ ys) = dropWhile is_whitespace ys" for ys
      by (intro dropWhile_append2) (simp add: list_all_iff)
    then show ?thesis using t2 by (intro exI [of _ "[]"]) simp
  next
    case False
    then obtain x where "x \<in> set (rev b)" "\<not> is_whitespace x" by (auto simp: list_all_iff)
    then have "dropWhile is_whitespace (rev b @ rev t @ rev a') =
        dropWhile is_whitespace (rev b) @ rev t @ rev a'"
      by (rule dropWhile_append1)
    then show ?thesis by blast
  qed
  then obtain b' where "dropWhile is_whitespace (rev b @ rev t @ rev a') = b' @ rev t @ rev a'" by blast
  then have "trim s = a' @ t @ rev b'" by (simp add: trim_def trim_end_def a')
  then show ?thesis by (auto simp: sublist_def)
qed

definition holds :: "chunk_state \<Rightarrow> ustr \<Rightarrow> bool" where
  "holds st t = ((\<exists>c \<in> set (chunks (c_result st)). sublist t (chunk_text c)) \<or> sublist t (current_text st))"

lemma holds_flush: "solid t \<Longrightarrow> holds st t \<Longrightarrow> holds (flush_text st e) t"
  using solid_sublist_trim [of t "current_text st"]
  by (auto simp: holds_def flush_text_def emit_text_chunk_def Let_def)

lemma holds_flush_at: "solid t \<Longrightarrow> holds st t \<Longrightarrow> holds ((flush_text st e)\<lparr>current_start := n\<rparr>) t"
  using holds_flush [of t st e] by (simp add: holds_def)

lemma holds_push: "holds st t \<Longrightarrow> holds (push_text st sep u) t"
  by (auto simp: holds_def push_text_def sublist_append)

lemma push_holds: "sublist t u \<Longrightarrow> holds (push_text st sep u) t"
  by (auto simp: holds_def push_text_def sublist_append)

lemma holds_grow:
  "holds st t \<Longrightarrow> grows (c_result st) r \<Longrightarrow> holds (st\<lparr>c_result := r, current_start := n\<rparr>) t"
  by (auto simp: holds_def grows_def prefix_def)

lemma holds_paragraph:
  assumes "solid t"
  shows "holds st t \<or> sublist t u \<Longrightarrow> holds (chunk_paragraph opts st el u) t"
proof (erule disjE)
  assume h: "holds st t"
  let ?f = "(flush_text st (char_start el))\<lparr>current_start := char_start el\<rparr>"
  have "holds ?f t" using h assms by (rule holds_flush_at [rotated])
  then show "holds (chunk_paragraph opts st el u) t"
    using h by (auto simp: chunk_paragraph_def holds_def Let_def sublist_append split: option.split)
next
  assume "sublist t u"
  then show "holds (chunk_paragraph opts st el u) t"
    by (auto simp: chunk_paragraph_def holds_def Let_def sublist_append split: option.split)
qed


definition kept_element :: "chunking_options \<Rightarrow> document_element \<Rightarrow> bool" where
  "kept_element opts el = (case data el of
     Table _ \<Rightarrow> table_handling opts \<noteq> SplitWithHeader
   | CodeBlock _ \<Rightarrow> code_handling opts = Code_PreserveWhole
   | Separator \<Rightarrow> False
   | _ \<Rightarrow> True)"

lemma holds_chunk_element:
  assumes "chunk_element opts st el = Some st'" "solid t"
    and "holds st t \<or> (kept_element opts el \<and> sublist t (element_text el))"
  shows "holds st' t"
proof (cases "data el")
  case (Table tb)
  let ?f = "flush_text st (char_start el)"
  from assms(1) Table obtain r where r:
    "chunk_table opts (c_result ?f) tb (char_start el) (char_end el) = Some r"
    "st' = ?f\<lparr>c_result := r, current_start := char_end el\<rparr>"
    by (auto simp: chunk_element_def Let_def split: option.splits)
  have g: "grows (c_result ?f) r"
    using chunk_table_grows [of opts "c_result ?f" tb "char_start el" "char_end el"] r(1) by simp
  show ?thesis
  proof (cases "holds st t")
    case True
    with assms(2) show ?thesis unfolding r(2) by (intro holds_grow [OF holds_flush g])
  next
    case False
    with assms(3) Table r show ?thesis
      by (auto simp: kept_element_def element_text_def holds_def chunk_table_def Let_def
          split: table_strategy.splits)
  qed
next
  case (CodeBlock b)
  let ?f = "flush_text st (char_start el)"
  from assms(1) CodeBlock obtain r where r:
    "chunk_code_block opts (c_result ?f) (format_code_block b) (language b)
       (char_start el) (char_end el) = Some r"
    "st' = ?f\<lparr>c_result := r, current_start := char_end el\<rparr>"
    by (auto simp: chunk_element_def Let_def split: option.splits)
  have g: "grows (c_result ?f) r" using chunk_code_grows [OF r(1)] by blast
  show ?thesis
  proof (cases "holds st t")
    case True
    with assms(2) show ?thesis unfolding r(2) by (intro holds_grow [OF holds_flush g])
  next
    case False
    with assms(3) CodeBlock r show ?thesis
      by (auto simp: kept_element_def element_text_def holds_def chunk_code_block_def Let_def)
  qed
next
  case (DList l)
  let ?f = "(flush_text st (char_start el))\<lparr>current_start := char_start el\<rparr>"
  have t: "element_text el = format_list l" using DList by (simp add: element_text_def)
  have "holds (push_text ?f [10, 10] (format_list l)) t \<and> holds (push_text st [10, 10] (format_list l)) t"
    using assms(3) holds_flush_at [OF assms(2), of st] holds_push push_holds t by metis
  with assms(1) DList t show ?thesis
    by (auto simp: chunk_element_def Let_def split: if_splits)
next
  case (Heading h)
  let ?p = "st\<lparr>pending_heading := Some (format_heading h)\<rparr>"
  have t: "element_text el = format_heading h" using Heading by (simp add: element_text_def)
  have "holds st t \<longleftrightarrow> holds ?p t" by (simp add: holds_def)
  then have "holds (push_text ?p [10] (format_heading h)) t \<and> holds (push_text st [10] (format_heading h)) t"
    using assms(3) holds_push push_holds t by metis
  with assms(1) Heading show ?thesis by (auto simp: chunk_element_def Let_def split: if_splits)
next
  case Separator
  let ?f = "flush_text st (char_start el)"
  have "holds ?f t" using assms(2,3) Separator by (auto simp: kept_element_def intro: holds_flush)
  with assms(1) Separator show ?thesis by (auto simp: chunk_element_def Let_def holds_def)
next
  case (Paragraph u)
  then show ?thesis using assms holds_paragraph [OF assms(2), of st u opts el]
    by (auto simp: chunk_element_def element_text_def)
next
  case (BlockQuote u)
  have "holds (push_text st [10, 10] (lit ''> '' @ u)) t"
    using assms(3) holds_push push_holds [of t "lit ''> '' @ u" st "[10, 10]"] BlockQuote
    by (auto simp: element_text_def sublist_append)
  with assms(1) BlockQuote show ?thesis by (auto simp: chunk_element_def)
next
  case (Raw u)
  then show ?thesis using assms(1,3) holds_push push_holds
    by (auto simp: chunk_element_def element_text_def)
qed

lemma holds_chunk_elements:
  assumes "chunk_elements opts st els = Some st'" "solid t"
    and "holds st t \<or> (\<exists>el \<in> set els. kept_element opts el \<and> sublist t (element_text el))"
  shows "holds st' t"
  using assms
proof (induction els arbitrary: st)
  case (Cons el els)
  then obtain st1 where s: "chunk_element opts st el = Some st1" "chunk_elements opts st1 els = Some st'"
    by (auto split: option.splits)
  have "holds st1 t \<or> (\<exists>el \<in> set els. kept_element opts el \<and> sublist t (element_text el))"
    using holds_chunk_element [OF s(1) Cons.prems(2)] Cons.prems(3) by auto
  from Cons.IH [OF s(2) Cons.prems(2) this] show ?case .
qed simp

lemma chunk_elements_returns:
  assumes "no_overlap opts"
  shows "\<exists>st'. chunk_elements opts st els = Some st' \<and> grows (c_result st) (c_result st') \<and>
    tables_processed (c_result st') =
      tables_processed (c_result st) + length (filter (\<lambda>el. is_table_data (data el)) els) \<and>
    code_blocks_processed (c_result st') =
      code_blocks_processed (c_result st) + length (filter (\<lambda>el. is_code_data (data el)) els)"
proof (induction els arbitrary: st)
  case (Cons el els)
  have "\<exists>st1. chunk_element opts st el = Some st1"
  proof (cases "data el")
    case (Table t)
    with chunk_table_grows [of opts "c_result (flush_text st (char_start el))" t "char_start el" "char_end el"]
    show ?thesis by (auto simp: chunk_element_def Let_def)
  next
    case (CodeBlock b)
    obtain ls where "inner_lines (lines_of (format_code_block b)) = Some ls"
      using inner_lines_some by blast
    with CodeBlock assms show ?thesis
      by (auto simp: chunk_element_def chunk_code_block_def split_code_at_boundaries_def Let_def
          no_overlap_def split: code_strategy.split)
  qed (auto simp: chunk_element_def Let_def)
  then obtain st1 where s: "chunk_element opts st el = Some st1" by blast
  from Cons [of st1] obtain st' where s': "chunk_elements opts st1 els = Some st'"
    "grows (c_result st1) (c_result st')"
    "tables_processed (c_result st') =
      tables_processed (c_result st1) + length (filter (\<lambda>el. is_table_data (data el)) els)"
    "code_blocks_processed (c_result st') =
      code_blocks_processed (c_result st1) + length (filter (\<lambda>el. is_code_data (data el)) els)" by blast
  with s chunk_element_grows [OF s] show ?case
    using grows_trans [OF _ s'(2), of "c_result st"] by auto
qed simp

lemma chunk_elements_None:
  "el \<in> set els \<Longrightarrow> (\<And>st. chunk_element opts st el = None) \<Longrightarrow> chunk_elements opts st els = None"
  by (induction els arbitrary: st) (auto split: option.splits)

text \<open>The overlapping splitter returns when the lines are short: if one more line than the
  overlap fits every part, all parts are produced.\<close>

lemma overlap_split_returns:
  assumes "inner_lines (lines_of txt) = Some ls"
    and "\<forall>l \<in> set ls. (overlap_lines opts + 1) * (length l + 1) \<le> max_chars opts"
  shows "\<exists>r'. split_code_with_overlap opts r txt lang cs ce = Some r' \<and> prefix (chunks r) (chunks r')"
proof -
  from overlap_returns [OF assms(2), of 0] obtain parts where
    "overlap_loop (max_chars opts) (overlap_lines opts) ls 0 = Some parts" by blast
  with assms(1) show ?thesis
    using emit_code_grows [of r] by (simp add: split_code_with_overlap_def Let_def grows_def)
qed


lemma chunk_total:
  assumes "code_handling opts \<noteq> SplitWithOverlap"
  shows "\<exists>r. chunk opts doc = Some r \<and> map chunk_index (chunks r) = [0..<length (chunks r)] \<and>
    tables_processed r = length (filter (\<lambda>el. is_table_data (data el)) (elements doc)) \<and>
    code_blocks_processed r = length (filter (\<lambda>el. is_code_data (data el)) (elements doc))"
proof -
  have z: "numbered (c_result chunk_init)" "tables_processed (c_result chunk_init) = 0"
    "code_blocks_processed (c_result chunk_init) = 0"
    by (simp_all add: chunk_init_def empty_result_def numbered_def)
  from assms have "no_overlap opts" by (simp add: no_overlap_def)
  from chunk_elements_returns [OF this, of chunk_init "elements doc"] z obtain st where
    st: "chunk_elements opts chunk_init (elements doc) = Some st" "grows (c_result chunk_init) (c_result st)"
    and c: "tables_processed (c_result st) = length (filter (\<lambda>el. is_table_data (data el)) (elements doc))"
    "code_blocks_processed (c_result st) = length (filter (\<lambda>el. is_code_data (data el)) (elements doc))"
    by auto
  have "numbered (c_result st)"
    "numbered (emit_text_chunk (c_result st) (current_text st) (current_start st) (total_chars doc))"
    using z st(2) grows_emit [of "c_result st" "current_text st" "current_start st" "total_chars doc"]
    by (simp_all add: grows_def)
  with st(1) c show ?thesis
    by (auto simp: chunk_def numbered_def emit_text_chunk_def Let_def)
qed

lemma kept_text_in_chunk:
  assumes "chunk opts doc = Some r" "el \<in> set (elements doc)" "kept_element opts el"
    and "trim (element_text el) \<noteq> []"
  shows "\<exists>c \<in> set (chunks r). sublist (trim (element_text el)) (chunk_text c)"
proof -
  let ?t = "trim (element_text el)"
  from assms(1) obtain st where st: "chunk_elements opts chunk_init (elements doc) = Some st"
    and r: "r = (if trim (current_text st) \<noteq> []
      then emit_text_chunk (c_result st) (current_text st) (current_start st) (total_chars doc)
      else c_result st)"
    by (auto simp: chunk_def split: option.splits)
  have solid: "solid ?t" using assms(4) by (rule solid_trim)
  have "sublist ?t (element_text el)"
    using trim_infix [of "element_text el"] by (auto simp: sublist_def)
  with assms(2,3) have "holds st ?t" by (intro holds_chunk_elements [OF st solid]) blast
  then show ?thesis
    using solid_sublist_trim [OF solid, of "current_text st"] assms(4)
    by (auto simp: holds_def r emit_text_chunk_def Let_def)
qed

section \<open>Properties\<close>

text \<open>A table too long for one chunk is split between rows: the parts cover the data rows in
  order, each row exactly once and no part empty; every part repeats the table header before its
  rows; parts are numbered, carry the table's id, and the chunks already emitted are untouched.\<close>

theorem chunk_table_split:
  assumes "table_handling opts = SplitWithHeader" "max_chars opts < table_char_count t"
    and "data_rows t \<noteq> []"
  shows "\<exists>gs r. chunk_table opts r0 t cs ce = Some r \<and> concat gs = data_rows t \<and> [] \<notin> set gs \<and>
    length (chunks r) = length (chunks r0) + length gs \<and> prefix (chunks r0) (chunks r) \<and>
    tables_split r = tables_split r0 + 1 \<and>
    (\<forall>k < length gs. let c = chunks r ! (length (chunks r0) + k) in
       chunk_text c = format_header t @ concat (map (\<lambda>x. 10 # format_row x) (gs ! k)) \<and>
       chunk_index c = length (chunks r0) + k \<and> element_id c = Some (table_id t) \<and>
       (0 < k \<longrightarrow> part c = Some (of_nat (k + 1)) \<and> total_parts c = Some (try_u32 (length gs)) \<and>
          chunk_context c = Some (format_header t)))"
proof -
  define n where "n = calculate_rows_per_chunk opts t (length (format_header t))"
  have n: "0 < n" by (simp add: n_def rows_per_chunk_pos)
  let ?gs = "row_groups n (data_rows t)"
  let ?ps = "parts_of t (format_header t) (length ?gs) cs ce 1 (length (chunks r0)) ?gs"
  obtain r where r: "chunk_table opts r0 t cs ce = Some r" "chunks r = chunks r0 @ ?ps"
    "tables_split r = tables_split r0 + 1"
    using chunk_table_split_eq [OF assms, of r0 cs ce] by (auto simp: n_def [symmetric])
  have "let c = chunks r ! (length (chunks r0) + k) in
       chunk_text c = format_header t @ concat (map (\<lambda>x. 10 # format_row x) (?gs ! k)) \<and>
       chunk_index c = length (chunks r0) + k \<and> element_id c = Some (table_id t) \<and>
       (0 < k \<longrightarrow> part c = Some (of_nat (k + 1)) \<and> total_parts c = Some (try_u32 (length ?gs)) \<and>
          chunk_context c = Some (format_header t))" if "k < length ?gs" for k
    using that by (simp add: r(2) nth_append nth_parts_of Let_def part_chunk_def chunk_of_table_def
        chunk_table_continuation_def part_text_def)
  with r show ?thesis
    using concat_row_groups [OF n, of "data_rows t"] row_groups_nonempty [of n "data_rows t"]
    by (intro exI [of _ ?gs] exI [of _ r]) simp
qed

definition sample_table :: structured_table where
  "sample_table = (new_table (lit ''tbl_0001''))\<lparr>
     headers := [lit ''h''], n_cols := 1, table_raw := lit ''|h|-|aa|bb|cc|'',
     rows := [as_header (new_row 0 [new_cell (lit ''h'') 0]), new_row 1 [new_cell (lit ''aa'') 0],
       new_row 2 [new_cell (lit ''bb'') 0], new_row 3 [new_cell (lit ''cc'') 0]]\<rparr>"

theorem chunk_table_split_witness:
  "\<exists>gs r. chunk_table (with_max_chars 8) empty_result sample_table 0 15 = Some r \<and>
     concat gs = data_rows sample_table \<and> length (chunks r) = length gs \<and> tables_split r = 1"
proof -
  have "table_handling (with_max_chars 8) = SplitWithHeader"
    "max_chars (with_max_chars 8) < table_char_count sample_table" "data_rows sample_table \<noteq> []"
    by (simp_all add: with_max_chars_def default_options_def sample_table_def table_char_count_def
        data_rows_def structure_defs)
  from chunk_table_split [OF this, of empty_result 0 15] show ?thesis
    by (auto simp: empty_result_def)
qed

text \<open>C27. Chunking a document returns whenever code blocks are not split with overlap (the
  default keeps them whole): every table and code block is processed once, and each chunk's index
  is its position.\<close>

theorem chunk_document_returns:
  assumes "code_handling opts \<noteq> SplitWithOverlap"
  shows "\<exists>r. chunk opts doc = Some r \<and> map chunk_index (chunks r) = [0..<length (chunks r)] \<and>
    tables_processed r = length (filter (\<lambda>el. is_table_data (data el)) (elements doc)) \<and>
    code_blocks_processed r = length (filter (\<lambda>el. is_code_data (data el)) (elements doc))"
  using assms by (rule chunk_total)

theorem chunk_document_returns_witness:
  "\<exists>r. chunk default_options (add_element new_document (table_element sample_table 0 15)) = Some r \<and>
     tables_processed r = 1"
proof -
  have "code_handling default_options \<noteq> SplitWithOverlap" by (simp add: default_options_def)
  from chunk_document_returns [OF this, of "add_element new_document (table_element sample_table 0 15)"]
  show ?thesis by (auto simp: new_document_def structure_defs is_table_data_def)
qed



text \<open>Splitting a long code block at boundaries keeps every content line in order, but the
  opening fence line already carries the language, so every part opens with the language twice
  (a block in rust is emitted as rustrust).\<close>

theorem split_code_keeps_lines:
  assumes "language b = Some l" "10 \<notin> set l" "13 \<notin> set l"
  shows "\<exists>gs r. split_code_at_boundaries opts r0 (format_code_block b) (language b) cs ce = Some r \<and>
    concat gs = lines_of (content b @ [10]) \<and> [] \<notin> set gs \<and>
    map chunk_text (chunks r) = map chunk_text (chunks r0) @
      map (\<lambda>g. lit ''```'' @ l @ l @ [10] @ join [10] g @ [10] @ lit ''```'') gs"
proof -
  have lb: "or_empty (language b) = l" using assms(1) by (simp add: or_empty_def)
  have nl: "10 \<notin> set (or_empty (language b))" "13 \<notin> set (or_empty (language b))"
    using assms(2,3) by (simp_all add: lb)
  let ?cl = "lines_of (content b @ [10])"
  obtain gs where gs: "boundary_chunks (max_chars opts) ?cl = map (join [10]) gs"
    "concat gs = ?cl" "[] \<notin> set gs" using boundary_chunks_groups by blast
  let ?fs = "lit ''```'' @ l"
  have "split_code_at_boundaries opts r0 (format_code_block b) (language b) cs ce =
      Some (foldl (emit_code_part ?fs (lit ''```'') (language b) cs ce (length gs)) r0
        (enumerate 0 (map (join [10]) gs)))"
    using inner_lines_code_block [OF nl] gs(1)
    by (simp add: split_code_at_boundaries_def Let_def lines_of_code_block [OF nl]
        first_or_fence_def last_or_fence_def lb)
  moreover have "map chunk_text (chunks (foldl (emit_code_part ?fs (lit ''```'') (language b) cs ce
      (length gs)) r0 (enumerate 0 (map (join [10]) gs)))) = map chunk_text (chunks r0) @
      map (\<lambda>g. lit ''```'' @ l @ l @ [10] @ join [10] g @ [10] @ lit ''```'') gs"
    unfolding emit_code_texts by (simp add: fenced_def lb)
  ultimately show ?thesis using gs(2,3) by blast
qed

theorem split_code_keeps_lines_witness:
  "let b = with_language (new_code_block (lit ''x'')) (lit ''rust'') in
   \<exists>gs r. split_code_at_boundaries default_options empty_result (format_code_block b) (language b) 0 9 = Some r \<and>
     map chunk_text (chunks r) = map (\<lambda>g. lit ''```'' @ lit ''rust'' @ lit ''rust'' @ [10] @ join [10] g @
       [10] @ lit ''```'') gs \<and> concat gs = lines_of (lit ''x'' @ [10])"
proof -
  let ?b = "with_language (new_code_block (lit ''x'')) (lit ''rust'')"
  have "language ?b = Some (lit ''rust'')" "10 \<notin> set (lit ''rust'')" "13 \<notin> set (lit ''rust'')"
    by (simp_all add: structure_defs lit_def of_char_def)
  from split_code_keeps_lines [OF this, of default_options empty_result 0 9] show ?thesis
    by (auto simp: empty_result_def structure_defs)
qed

text \<open>The overlapping splitter steps back by at least two lines after each part, so it makes no
  progress when the first part is not longer than the overlap: if a code block has more lines than
  its first part, and that part holds at most \<open>overlap_lines\<close> of them, chunking the document
  never returns.\<close>

theorem overlap_split_diverges:
  assumes "code_handling opts = SplitWithOverlap"
    and "el \<in> set (elements doc)" "data el = CodeBlock b"
    and "inner_lines (lines_of (format_code_block b)) = Some ls"
    and "max 1 (fit_lines (max_chars opts) 0 ls) < length ls"
    and "max 1 (fit_lines (max_chars opts) 0 ls) \<le> overlap_lines opts"
  shows "chunk opts doc = None"
proof -
  have "chunk_element opts st el = None" for st
    using assms(1,3,4) overlap_stuck [OF assms(5,6)]
    by (simp add: chunk_element_def chunk_code_block_def split_code_with_overlap_def Let_def)
  from chunk_elements_None [OF assms(2) this] show ?thesis by (simp add: chunk_def)
qed

theorem overlap_split_diverges_witness:
  "let b = new_code_block (lit ''aa'' @ [10] @ lit ''bb'' @ [10] @ lit ''cc'') in
   chunk (default_options\<lparr>code_handling := SplitWithOverlap, max_chars := 5\<rparr>)
     (add_element new_document (code_block_element b 0 16)) = None"
proof -
  let ?b = "new_code_block (lit ''aa'' @ [10] @ lit ''bb'' @ [10] @ lit ''cc'')"
  let ?o = "default_options\<lparr>code_handling := SplitWithOverlap, max_chars := 5\<rparr>"
  have l: "inner_lines (lines_of (format_code_block ?b)) = Some [lit ''aa'', lit ''bb'', lit ''cc'']"
    by (simp add: format_code_block_def or_empty_def structure_defs lit_def of_char_def
        inner_lines_def strip_cr_def)
  have "chunk ?o (add_element new_document (code_block_element ?b 0 16)) = None"
    by (rule overlap_split_diverges [OF _ _ _ l, of ?o "code_block_element ?b 0 16"])
      (simp_all add: default_options_def new_document_def structure_defs overlap_lines_def)
  then show ?thesis by simp
qed

end
