(* ===== verification/Utf8.thy ===== *)
theory Utf8
  imports Prelude Text_Base
begin

text \<open>
  UTF-8, as the standard library of Rust reads and writes it: the encoding of a \<open>char\<close>,
  \<open>String::from_utf8\<close>, which accepts exactly the well-formed strings, and
  \<open>String::from_utf8_lossy\<close>, which replaces every maximal ill-formed piece by U+FFFD.
  \<open>utf8_next\<close> reads one character, or tells how many bytes are ill-formed.
\<close>

definition scalar :: "uchar \<Rightarrow> bool" where
  "scalar c = (c < 55296 \<or> (57344 \<le> c \<and> c < 1114112))"

definition byte :: "nat \<Rightarrow> u8" where
  "byte n = of_nat n"

lemma byte_simps [simp]: "n < 256 \<Longrightarrow> unat (byte n) = n" "byte (unat b) = b"
  by (simp_all add: byte_def unat_of_nat take_bit_eq_mod)

definition utf8_enc :: "uchar \<Rightarrow> bytes" where
  "utf8_enc c =
     (if c < 128 then [byte c]
      else if c < 2048 then [byte (192 + c div 64), byte (128 + c mod 64)]
      else if c < 65536 then
        [byte (224 + c div 4096), byte (128 + c div 64 mod 64), byte (128 + c mod 64)]
      else [byte (240 + c div 262144), byte (128 + c div 4096 mod 64),
            byte (128 + c div 64 mod 64), byte (128 + c mod 64)])"

definition utf8_encode :: "ustr \<Rightarrow> bytes" where
  "utf8_encode s = concat (map utf8_enc s)"

definition byte_at :: "bytes \<Rightarrow> nat \<Rightarrow> nat" where
  "byte_at bs i = (if i < length bs then unat (bs ! i) else 0)"

definition cont :: "nat \<Rightarrow> bool" where
  "cont b = (128 \<le> b \<and> b < 192)"

definition second3 :: "nat \<Rightarrow> nat \<Rightarrow> bool" where
  "second3 b0 b1 = (cont b1 \<and> (b0 = 224 \<longrightarrow> 160 \<le> b1) \<and> (b0 = 237 \<longrightarrow> b1 < 160))"

definition second4 :: "nat \<Rightarrow> nat \<Rightarrow> bool" where
  "second4 b0 b1 = (cont b1 \<and> (b0 = 240 \<longrightarrow> 144 \<le> b1) \<and> (b0 = 244 \<longrightarrow> b1 < 144))"

definition utf8_next :: "bytes \<Rightarrow> nat + (uchar \<times> nat)" where
  "utf8_next bs =
     (let b0 = byte_at bs 0; b1 = byte_at bs (Suc 0); b2 = byte_at bs 2; b3 = byte_at bs 3 in
      if b0 < 128 then Inr (b0, 1)
      else if 194 \<le> b0 \<and> b0 < 224 then
        (if cont b1 then Inr ((b0 - 192) * 64 + (b1 - 128), 2) else Inl 1)
      else if 224 \<le> b0 \<and> b0 < 240 then
        (if \<not> second3 b0 b1 then Inl 1
         else if \<not> cont b2 then Inl 2
         else Inr ((b0 - 224) * 4096 + (b1 - 128) * 64 + (b2 - 128), 3))
      else if 240 \<le> b0 \<and> b0 < 245 then
        (if \<not> second4 b0 b1 then Inl 1
         else if \<not> cont b2 then Inl 2
         else if \<not> cont b3 then Inl 3
         else Inr ((b0 - 240) * 262144 + (b1 - 128) * 4096 + (b2 - 128) * 64 + (b3 - 128), 4))
      else Inl 1)"

lemma utf8_next_Inr_pos: "utf8_next bs = Inr (c, n) \<Longrightarrow> 0 < n"
  and utf8_next_Inl_pos: "utf8_next bs = Inl n \<Longrightarrow> 0 < n"
  by (auto simp: utf8_next_def Let_def split: if_splits)

function from_utf8 :: "bytes \<Rightarrow> ustr option" where
  "from_utf8 bs =
     (if bs = [] then Some []
      else (case utf8_next bs of
        Inl n \<Rightarrow> None
      | Inr p \<Rightarrow> (case from_utf8 (drop (snd p) bs) of
          None \<Rightarrow> None | Some s \<Rightarrow> Some (fst p # s))))"
  by pat_completeness auto
termination
proof (relation "measure length")
  fix bs :: bytes and p assume "bs \<noteq> []" "utf8_next bs = Inr p"
  then show "(drop (snd p) bs, bs) \<in> measure length"
    using utf8_next_Inr_pos [of bs "fst p" "snd p"] by (cases bs) simp_all
qed simp

definition REPLACEMENT :: uchar where
  "REPLACEMENT = 65533"

function from_utf8_lossy :: "bytes \<Rightarrow> ustr" where
  "from_utf8_lossy bs =
     (if bs = [] then []
      else (case utf8_next bs of
        Inl n \<Rightarrow> REPLACEMENT # from_utf8_lossy (drop n bs)
      | Inr p \<Rightarrow> fst p # from_utf8_lossy (drop (snd p) bs)))"
  by pat_completeness auto
termination
proof (relation "measure length")
  fix bs :: bytes and n assume "bs \<noteq> []" "utf8_next bs = Inl n"
  then show "(drop n bs, bs) \<in> measure length"
    using utf8_next_Inl_pos [of bs n] by (cases bs) simp_all
next
  fix bs :: bytes and p assume "bs \<noteq> []" "utf8_next bs = Inr p"
  then show "(drop (snd p) bs, bs) \<in> measure length"
    using utf8_next_Inr_pos [of bs "fst p" "snd p"] by (cases bs) simp_all
qed simp

declare from_utf8.simps [simp del] from_utf8_lossy.simps [simp del]

section \<open>Decoding inverts encoding\<close>

lemma byte_at_simps [simp]:
  "byte_at (b # bs) 0 = unat b" "byte_at (b # bs) (Suc i) = byte_at bs i"
  "byte_at (b # bs) (numeral k) = byte_at bs (pred_numeral k)" "byte_at [] i = 0"
  by (simp_all add: byte_at_def nth_Cons' numeral_eq_Suc)

lemma scalar_split:
  assumes "scalar c"
  obtains (one) "c < 128"
    | (two) a b where "c = a * 64 + b" "2 \<le> a" "a < 32" "b < 64"
    | (three) a b d where "c = (a * 64 + b) * 64 + d" "a < 16" "b < 64" "d < 64"
        "a = 0 \<Longrightarrow> 32 \<le> b" "a = 13 \<Longrightarrow> b < 32"
    | (four) a b d e where "c = ((a * 64 + b) * 64 + d) * 64 + e" "a < 5" "b < 64" "d < 64" "e < 64"
        "a = 0 \<Longrightarrow> 16 \<le> b" "a = 4 \<Longrightarrow> b < 16"
proof -
  consider "c < 128" | "128 \<le> c" "c < 2048" | "2048 \<le> c" "c < 65536" | "65536 \<le> c" by linarith
  then show thesis
  proof cases
    case 1
    then show thesis by (rule one)
  next
    case 2
    have c: "c = c div 64 * 64 + c mod 64" "c mod 64 < 64" by simp_all
    show thesis by (rule two [OF c(1)]) (use 2 c in linarith)+
  next
    case 3
    define q where "q = c div 64"
    have c: "c = q * 64 + c mod 64" "c mod 64 < 64" by (simp_all add: q_def)
    have q: "q = q div 64 * 64 + q mod 64" "q mod 64 < 64" by simp_all
    have "c = (q div 64 * 64 + q mod 64) * 64 + c mod 64" by (simp add: q_def)
    then show thesis
      by (rule three) (use 3 assms c q in \<open>unfold scalar_def; linarith\<close>)+
  next
    case 4
    define q where "q = c div 64"
    define r where "r = q div 64"
    have c: "c = q * 64 + c mod 64" "c mod 64 < 64" by (simp_all add: q_def)
    have q: "q = r * 64 + q mod 64" "q mod 64 < 64" by (simp_all add: r_def)
    have r: "r = r div 64 * 64 + r mod 64" "r mod 64 < 64" by simp_all
    have "c = ((r div 64 * 64 + r mod 64) * 64 + q mod 64) * 64 + c mod 64"
      by (simp add: q_def r_def)
    then show thesis
      by (rule four) (use 4 assms c q r in \<open>unfold scalar_def; linarith\<close>)+
  qed
qed

lemma digit:
  fixes d :: nat
  assumes "d < 64"
  shows "(x * 64 + d) div 64 = x" "(x * 64 + d) mod 64 = d"
    "(x * 64 + d) div 4096 = x div 64" "(x * 64 + d) div 262144 = x div 4096"
proof -
  show d: "(x * 64 + d) div 64 = x" and "(x * 64 + d) mod 64 = d" using assms by simp_all
  show "(x * 64 + d) div 4096 = x div 64"
    using div_mult2_eq [of "x * 64 + d" 64 64] by (simp add: d)
  show "(x * 64 + d) div 262144 = x div 4096"
    using div_mult2_eq [of "x * 64 + d" 64 4096] by (simp add: d)
qed

lemma lead: "(a = 0 \<Longrightarrow> k \<le> b) \<Longrightarrow> k \<le> 64 \<Longrightarrow> k \<le> a * 64 + (b :: nat)"
  by (cases a) auto

lemma utf8_enc_two:
  assumes "2 \<le> a" "a < 32" "b < 64"
  shows "utf8_enc (a * 64 + b) = [byte (192 + a), byte (128 + b)]"
proof -
  have "\<not> a * 64 + b < 128" "a * 64 + b < 2048" using assms by linarith+
  then show ?thesis unfolding utf8_enc_def by (simp only: if_True if_False digit [OF assms(3)])
qed

lemma utf8_enc_three:
  assumes "a < 16" "b < 64" "d < 64" "a = 0 \<Longrightarrow> 32 \<le> b"
  shows "utf8_enc ((a * 64 + b) * 64 + d) = [byte (224 + a), byte (128 + b), byte (128 + d)]"
proof -
  have "\<not> (a * 64 + b) * 64 + d < 128" "\<not> (a * 64 + b) * 64 + d < 2048" "(a * 64 + b) * 64 + d < 65536"
    using lead [of a 32 b, OF assms(4)] assms(1-3) by simp_all
  then show ?thesis unfolding utf8_enc_def
    by (simp only: if_True if_False digit [OF assms(2)] digit [OF assms(3)])
qed

lemma utf8_enc_four:
  assumes "a < 5" "b < 64" "d < 64" "e < 64" "a = 0 \<Longrightarrow> 16 \<le> b"
  shows "utf8_enc (((a * 64 + b) * 64 + d) * 64 + e) =
    [byte (240 + a), byte (128 + b), byte (128 + d), byte (128 + e)]"
proof -
  let ?c = "((a * 64 + b) * 64 + d) * 64 + e"
  have "\<not> ?c < 128" "\<not> ?c < 2048" "\<not> ?c < 65536"
    using lead [of a 16 b, OF assms(5)] assms(1-4) by simp_all
  then show ?thesis unfolding utf8_enc_def
    by (simp only: if_True if_False digit [OF assms(2)] digit [OF assms(3)] digit [OF assms(4)])
qed

lemma utf8_next_enc:
  assumes "scalar c"
  shows "utf8_next (utf8_enc c @ r) = Inr (c, length (utf8_enc c))"
  using assms
proof (cases c rule: scalar_split)
  case one
  then show ?thesis by (simp add: utf8_next_def utf8_enc_def Let_def)
next
  case (two a b)
  have n: "utf8_next (byte (192 + a) # byte (128 + b) # r) = Inr (a * 64 + b, 2)"
    using two by (simp add: utf8_next_def Let_def cont_def)
  show ?thesis unfolding two(1) utf8_enc_two [OF two(2-)] using n by simp
next
  case (three a b d)
  have n: "utf8_next (byte (224 + a) # byte (128 + b) # byte (128 + d) # r) = Inr ((a * 64 + b) * 64 + d, 3)"
    using three by (simp add: utf8_next_def Let_def cont_def second3_def)
  have e: "utf8_enc ((a * 64 + b) * 64 + d) = [byte (224 + a), byte (128 + b), byte (128 + d)]"
    by (rule utf8_enc_three) (use three in auto)
  show ?thesis unfolding three(1) e using n by simp
next
  case (four a b d e)
  have n: "utf8_next (byte (240 + a) # byte (128 + b) # byte (128 + d) # byte (128 + e) # r) =
      Inr (((a * 64 + b) * 64 + d) * 64 + e, 4)"
    using four by (simp add: utf8_next_def Let_def cont_def second4_def)
  have e: "utf8_enc (((a * 64 + b) * 64 + d) * 64 + e) =
      [byte (240 + a), byte (128 + b), byte (128 + d), byte (128 + e)]"
    by (rule utf8_enc_four) (use four in auto)
  show ?thesis unfolding four(1) e using n by simp
qed

lemma length_utf8_enc: "length (utf8_enc c) = utf8_len c"
  by (simp add: utf8_enc_def utf8_len_def)

lemma utf8_enc_not_Nil [simp]: "utf8_enc c \<noteq> []"
  by (simp add: utf8_enc_def)

lemma utf8_encode_simps [simp]:
  "utf8_encode [] = []" "utf8_encode (c # s) = utf8_enc c @ utf8_encode s"
  by (simp_all add: utf8_encode_def)

lemma length_utf8_encode: "length (utf8_encode s) = byte_len s"
  by (induction s) (simp_all add: length_utf8_enc)

lemma from_utf8_encode: "list_all scalar s \<Longrightarrow> from_utf8 (utf8_encode s) = Some s"
  by (induction s) (simp_all add: from_utf8.simps utf8_next_enc)

lemma from_utf8_lossy_valid: "from_utf8 bs = Some s \<Longrightarrow> from_utf8_lossy bs = s"
proof (induction bs arbitrary: s rule: from_utf8.induct)
  case (1 bs)
  show ?case using 1(2)
    by (subst (asm) from_utf8.simps, subst from_utf8_lossy.simps)
      (auto split: if_splits sum.splits option.splits dest: 1(1))
qed

section \<open>Encoding inverts decoding\<close>

lemma length_ge:
  "byte_at bs (Suc 0) \<noteq> 0 \<Longrightarrow> 2 \<le> length bs" "byte_at bs 2 \<noteq> 0 \<Longrightarrow> 3 \<le> length bs"
  "byte_at bs 3 \<noteq> 0 \<Longrightarrow> 4 \<le> length bs"
  by (auto simp: byte_at_def split: if_splits)

lemma byte_byte_at: "i < length bs \<Longrightarrow> byte (byte_at bs i) = bs ! i"
  by (simp add: byte_at_def)

lemma take_nth:
  "1 \<le> length bs \<Longrightarrow> bs = [bs ! 0] @ drop 1 bs"
  "2 \<le> length bs \<Longrightarrow> bs = [bs ! 0, bs ! 1] @ drop 2 bs"
  "3 \<le> length bs \<Longrightarrow> bs = [bs ! 0, bs ! 1, bs ! 2] @ drop 3 bs"
  "4 \<le> length bs \<Longrightarrow> bs = [bs ! 0, bs ! 1, bs ! 2, bs ! 3] @ drop 4 bs"
  by (auto simp: Suc_le_length_iff numeral_eq_Suc)

lemma contE:
  assumes "cont b"
  obtains x where "b = 128 + x" "x < 64"
  using assms that [of "b - 128"] by (auto simp: cont_def)

lemma utf8_next_cases:
  assumes "utf8_next bs = Inr (c, n)"
  obtains (one) "byte_at bs 0 = c" "c < 128" "n = 1"
    | (two) a b where "byte_at bs 0 = 192 + a" "byte_at bs (Suc 0) = 128 + b" "2 \<le> a" "a < 32" "b < 64"
        "c = a * 64 + b" "n = 2"
    | (three) a b d where "byte_at bs 0 = 224 + a" "byte_at bs (Suc 0) = 128 + b" "byte_at bs 2 = 128 + d"
        "a < 16" "b < 64" "d < 64" "a = 0 \<Longrightarrow> 32 \<le> b" "a = 13 \<Longrightarrow> b < 32"
        "c = (a * 64 + b) * 64 + d" "n = 3"
    | (four) a b d e where "byte_at bs 0 = 240 + a" "byte_at bs (Suc 0) = 128 + b" "byte_at bs 2 = 128 + d"
        "byte_at bs 3 = 128 + e" "a < 5" "b < 64" "d < 64" "e < 64" "a = 0 \<Longrightarrow> 16 \<le> b"
        "a = 4 \<Longrightarrow> b < 16" "c = ((a * 64 + b) * 64 + d) * 64 + e" "n = 4"
proof -
  define b0 where "b0 = byte_at bs 0"
  define b1 where "b1 = byte_at bs (Suc 0)"
  define b2 where "b2 = byte_at bs 2"
  define b3 where "b3 = byte_at bs 3"
  note bb = b0_def [symmetric] b1_def [symmetric] b2_def [symmetric] b3_def [symmetric]
  note a = assms [unfolded utf8_next_def Let_def bb]
  consider "b0 < 128" | "194 \<le> b0" "b0 < 224" | "224 \<le> b0" "b0 < 240" | "240 \<le> b0" "b0 < 245"
    using a by (auto split: if_splits)
  then show thesis
  proof cases
    case 1
    then show thesis using a by (intro one) (simp_all add: b0_def)
  next
    case 2
    then have c: "cont b1" "c = (b0 - 192) * 64 + (b1 - 128)" "n = 2"
      using a by (auto split: if_splits)
    from c(1) obtain y where "b1 = 128 + y" "y < 64" by (rule contE)
    with c 2 show thesis by (intro two [of "b0 - 192" y]) (simp_all add: bb)
  next
    case 3
    then have c: "second3 b0 b1" "cont b2" "c = (b0 - 224) * 4096 + (b1 - 128) * 64 + (b2 - 128)" "n = 3"
      using a by (auto split: if_splits)
    from c(1) have "cont b1" by (simp add: second3_def)
    then obtain y where y: "b1 = 128 + y" "y < 64" by (rule contE)
    from c(2) obtain z where z: "b2 = 128 + z" "z < 64" by (rule contE)
    show thesis
      by (rule three [of "b0 - 224" y z]) (use c 3 y z in \<open>auto simp: bb second3_def\<close>)
  next
    case 4
    then have c: "second4 b0 b1" "cont b2" "cont b3"
        "c = (b0 - 240) * 262144 + (b1 - 128) * 4096 + (b2 - 128) * 64 + (b3 - 128)" "n = 4"
      using a by (auto split: if_splits)
    from c(1) have "cont b1" by (simp add: second4_def)
    then obtain y where y: "b1 = 128 + y" "y < 64" by (rule contE)
    from c(2) obtain z where z: "b2 = 128 + z" "z < 64" by (rule contE)
    from c(3) obtain x where x: "b3 = 128 + x" "x < 64" by (rule contE)
    show thesis
      by (rule four [of "b0 - 240" y z x]) (use c 4 y z x in \<open>auto simp: bb second4_def\<close>)
  qed
qed

lemma utf8_next_take:
  assumes "bs \<noteq> []" "utf8_next bs = Inr (c, n)"
  shows "scalar c \<and> bs = utf8_enc c @ drop n bs"
  using assms(2)
proof (cases rule: utf8_next_cases)
  case one
  then show ?thesis using assms(1) by (cases bs) (auto simp: scalar_def utf8_enc_def)
next
  case (two a b)
  then have l: "2 \<le> length bs" by (intro length_ge) simp
  have "bs ! 0 = byte (192 + a)" "bs ! 1 = byte (128 + b)"
    using l two(1,2) byte_byte_at [of 0 bs] byte_byte_at [of "Suc 0" bs] by (cases "bs = []"; simp)+
  then show ?thesis using take_nth(2) [OF l] two by (simp add: utf8_enc_two scalar_def)
next
  case (three a b d)
  then have l: "3 \<le> length bs" by (intro length_ge) simp
  have "bs ! 0 = byte (224 + a)" "bs ! 1 = byte (128 + b)" "bs ! 2 = byte (128 + d)"
    using l three(1-3) byte_byte_at [of 0 bs] byte_byte_at [of "Suc 0" bs] byte_byte_at [of 2 bs] by (cases "bs = []"; simp)+
  moreover have "scalar c"
  proof -
    consider "a < 13" | "a = 13" "b < 32" | "13 < a" using three(8) by linarith
    then show ?thesis using three(4-6,9) unfolding scalar_def by cases (simp; linarith)+
  qed
  moreover have "utf8_enc c = [byte (224 + a), byte (128 + b), byte (128 + d)]"
    unfolding three(9) by (rule utf8_enc_three) (use three in auto)
  ultimately show ?thesis using take_nth(3) [OF l] three(10) by simp
next
  case (four a b d e)
  then have l: "4 \<le> length bs" by (intro length_ge) simp
  have "bs ! 0 = byte (240 + a)" "bs ! 1 = byte (128 + b)" "bs ! 2 = byte (128 + d)" "bs ! 3 = byte (128 + e)"
    using l four(1-4) byte_byte_at [of 0 bs] byte_byte_at [of "Suc 0" bs] byte_byte_at [of 2 bs]
      byte_byte_at [of 3 bs] by (cases "bs = []"; simp)+
  moreover have "scalar c"
  proof -
    consider "a = 0" "16 \<le> b" | "0 < a" "a < 4" | "a = 4" "b < 16" using four(5,9,10) by linarith
    then show ?thesis using four(6-8,11) unfolding scalar_def by cases (simp; linarith)+
  qed
  moreover have "utf8_enc c = [byte (240 + a), byte (128 + b), byte (128 + d), byte (128 + e)]"
    unfolding four(11) by (rule utf8_enc_four) (use four in auto)
  ultimately show ?thesis using take_nth(4) [OF l] four(12) by simp
qed

lemma from_utf8_SomeD: "from_utf8 bs = Some s \<Longrightarrow> list_all scalar s \<and> utf8_encode s = bs"
proof (induction bs arbitrary: s rule: from_utf8.induct)
  case (1 bs)
  show ?case
  proof (cases "bs = []")
    case True
    then show ?thesis using 1(2) by (simp add: from_utf8.simps)
  next
    case False
    then obtain c n t where n: "utf8_next bs = Inr (c, n)" and t: "from_utf8 (drop n bs) = Some t"
      and s: "s = c # t"
      using 1(2) by (subst (asm) from_utf8.simps) (auto split: sum.splits option.splits)
    with 1(1) [OF False n] utf8_next_take [OF False n] show ?thesis by simp
  qed
qed

lemma from_utf8_iff: "from_utf8 bs = Some s \<longleftrightarrow> list_all scalar s \<and> utf8_encode s = bs"
  using from_utf8_SomeD from_utf8_encode by blast

end
