(* ===== verification/Chunk_Manifest.thy ===== *)
theory Chunk_Manifest
  imports Main
begin

text \<open>The chunk manifest of a document frame (\<open>types/metadata.rs\<close>): shared by the planner that
  writes it and the frame store that reads it.\<close>

record text_chunk_range =
  range_start :: nat
  range_end :: nat

record text_chunk_manifest =
  chunk_chars :: nat
  ranges :: "text_chunk_range list"

end
