(* ===== verification/Chunks.thy ===== *)
theory Chunks
  imports Text_Norm Detector Chunker Utf8 Chunk_Manifest
begin

text \<open>
  Chunk planning (\<open>memvid/chunks.rs\<close>): the text of a document is normalised, its structure
  is detected, and it is chunked either by the structural chunker or, without tables and code
  blocks, by cutting the characters near sentence or line boundaries.
\<close>

definition DEFAULT_CHUNK_CHARS :: nat where "DEFAULT_CHUNK_CHARS = 1200"

definition CHUNK_MIN_CHARS :: nat where "CHUNK_MIN_CHARS = DEFAULT_CHUNK_CHARS * 2"

record document_chunk_plan =
  manifest :: text_chunk_manifest
  plan_chunks :: "ustr list"

section \<open>Naive chunking\<close>

definition is_sentence_terminal :: "uchar \<Rightarrow> bool" where
  "is_sentence_terminal ch = (ch = 46 \<or> ch = 33 \<or> ch = 63)"

text \<open>The first two loops of \<open>choose_chunk_boundary\<close> over their index lists; \<open>Inl\<close> is an
  early return, \<open>Inr\<close> the candidates.  All indices are below the number of characters, so the
  sentinel entry of \<open>char_positions\<close> is never read.\<close>

fun forward_scan :: "ustr \<Rightarrow> nat list \<Rightarrow> nat list \<Rightarrow> nat + nat list" where
  "forward_scan t [] cands = Inr cands"
| "forward_scan t (i # ks) cands =
     (if t ! i = 10 then Inl (i + 1)
      else forward_scan t ks (if is_sentence_terminal (t ! i) then cands @ [i + 1] else cands))"

fun backward_scan :: "ustr \<Rightarrow> nat list \<Rightarrow> nat list \<Rightarrow> nat + nat list" where
  "backward_scan t [] cands = Inr cands"
| "backward_scan t (i # ks) cands =
     (if t ! i = 10 then Inl (i + 1)
      else if is_sentence_terminal (t ! i) then Inr (cands @ [i + 1])
      else backward_scan t ks cands)"

text \<open>\<open>Iterator::min_by_key\<close>: the first element with the least key.\<close>

fun min_by_key :: "('a \<Rightarrow> nat) \<Rightarrow> 'a list \<Rightarrow> 'a option" where
  "min_by_key f [] = None"
| "min_by_key f (x # xs) =
     (case min_by_key f xs of None \<Rightarrow> Some x | Some y \<Rightarrow> if f x \<le> f y then Some x else Some y)"

definition choose_chunk_boundary :: "ustr \<Rightarrow> nat \<Rightarrow> nat \<Rightarrow> nat \<Rightarrow> nat \<Rightarrow> nat" where
  "choose_chunk_boundary t start target tot slack =
     (if tot \<le> target then tot
      else
        (let forward_limit = min (target + slack) tot in
         case forward_scan t [target..<forward_limit] [] of
           Inl r \<Rightarrow> r
         | Inr cands \<Rightarrow>
        (case backward_scan t (rev [start..<target]) cands of
           Inl r \<Rightarrow> r
         | Inr cands \<Rightarrow>
        (case min_by_key (\<lambda>pos. pos - target) cands of
           Some choice \<Rightarrow> choice
         | None \<Rightarrow>
        (case List.find (\<lambda>i. is_whitespace (t ! i)) [target..<forward_limit] of
           Some i \<Rightarrow> i + 1
         | None \<Rightarrow>
        (case List.find (\<lambda>i. is_whitespace (t ! i)) (rev [start..<target]) of
           Some i \<Rightarrow> i + 1
         | None \<Rightarrow> target))))))"

text \<open>The loop of \<open>build_chunk_manifest\<close>.  The caller has excluded \<open>chunk_chars = 0\<close>, for
  which the loop would not advance; the guard repeats that.\<close>

function chunk_ranges :: "ustr \<Rightarrow> nat \<Rightarrow> nat \<Rightarrow> text_chunk_range list" where
  "chunk_ranges t cc start =
     (if length t \<le> start \<or> cc = 0 then []
      else
        (let tot = length t; slack = max (cc div 5) 32;
             target = min (start + cc) tot;
             en = choose_chunk_boundary t start target tot slack
         in if en \<le> start
            then (let fallback_end = min (start + cc) tot
                  in \<lparr>range_start = start, range_end = fallback_end\<rparr> # chunk_ranges t cc fallback_end)
            else \<lparr>range_start = start, range_end = en\<rparr> # chunk_ranges t cc en))"
  by pat_completeness auto
termination
  by (relation "measure (\<lambda>(t, cc, start). length t - start)") auto

declare chunk_ranges.simps [simp del]

definition build_chunk_manifest :: "ustr \<Rightarrow> nat \<Rightarrow> text_chunk_manifest option" where
  "build_chunk_manifest t cc =
     (if cc = 0 then None
      else if length t \<le> cc then None
      else Some \<lparr>chunk_chars = cc, ranges = chunk_ranges t cc 0\<rparr>)"

definition slice_text_range :: "ustr \<Rightarrow> text_chunk_range \<Rightarrow> ustr" where
  "slice_text_range t r =
     (if range_end r \<le> range_start r then []
      else take (range_end r - range_start r) (drop (range_start r) t))"

definition plan_naive_chunks :: "ustr \<Rightarrow> document_chunk_plan option" where
  "plan_naive_chunks t =
     (case build_chunk_manifest t DEFAULT_CHUNK_CHARS of
        None \<Rightarrow> None
      | Some m \<Rightarrow>
          (if length (ranges m) \<le> 1 then None
           else Some \<lparr>manifest = m, plan_chunks = map (slice_text_range t) (ranges m)\<rparr>))"

section \<open>Structural chunking and planning\<close>

definition build_manifest_from_structural :: "structured_chunk list \<Rightarrow> ustr \<Rightarrow> text_chunk_manifest" where
  "build_manifest_from_structural cs t =
     \<lparr>chunk_chars = DEFAULT_CHUNK_CHARS,
      ranges = map (\<lambda>c. \<lparr>range_start = chunk_start c, range_end = min (chunk_end c) (length t)\<rparr>) cs\<rparr>"

text \<open>With the default options the chunker returns (\<open>chunk_document_returns\<close>), so the first
  \<open>None\<close> is never taken.\<close>

definition plan_structural_chunks :: "ustr \<Rightarrow> structured_document \<Rightarrow> document_chunk_plan option" where
  "plan_structural_chunks t doc =
     (let options = default_options\<lparr>max_chars := DEFAULT_CHUNK_CHARS\<rparr> in
      case chunk options doc of
        None \<Rightarrow> None
      | Some result \<Rightarrow>
          (if length (chunks result) \<le> 1 then None
           else Some \<lparr>manifest = build_manifest_from_structural (chunks result) t,
                      plan_chunks = map chunk_text (chunks result)\<rparr>))"

definition plan_text_chunks ::
  "(ustr \<Rightarrow> ustr) \<Rightarrow> (ustr \<Rightarrow> ustr list) \<Rightarrow> patterns \<Rightarrow> ustr \<Rightarrow> document_chunk_plan option" where
  "plan_text_chunks nfkc graphemes p txt =
     (case normalize_text nfkc graphemes txt (2 ^ 64 - 1) of
        None \<Rightarrow> None
      | Some n \<Rightarrow>
          (let normalized = norm_text n in
           if length normalized < CHUNK_MIN_CHARS then None
           else
             (let doc = detect_structure p normalized in
              if has_structure doc then plan_structural_chunks normalized doc
              else plan_naive_chunks normalized)))"

definition plan_document_chunks ::
  "(ustr \<Rightarrow> ustr) \<Rightarrow> (ustr \<Rightarrow> ustr list) \<Rightarrow> patterns \<Rightarrow> bytes \<Rightarrow> document_chunk_plan option" where
  "plan_document_chunks nfkc graphemes p raw =
     (case from_utf8 raw of None \<Rightarrow> None | Some txt \<Rightarrow> plan_text_chunks nfkc graphemes p txt)"

section \<open>Lemmas\<close>

lemma forward_scan_bounds:
  "(case forward_scan t ks cs of Inl r \<Rightarrow> \<exists>i \<in> set ks. r = i + 1
    | Inr cs' \<Rightarrow> \<forall>c \<in> set cs'. c \<in> set cs \<or> (\<exists>i \<in> set ks. c = i + 1))"
  by (induction t ks cs rule: forward_scan.induct) (auto split: sum.splits, blast+)

lemma backward_scan_bounds:
  "(case backward_scan t ks cs of Inl r \<Rightarrow> \<exists>i \<in> set ks. r = i + 1
    | Inr cs' \<Rightarrow> \<forall>c \<in> set cs'. c \<in> set cs \<or> (\<exists>i \<in> set ks. c = i + 1))"
  by (induction t ks cs rule: backward_scan.induct) (auto split: sum.splits, blast+)

lemma min_by_key_mem: "min_by_key f xs = Some x \<Longrightarrow> x \<in> set xs"
  by (induction xs arbitrary: x) (auto split: option.splits if_splits)

lemma find_mem: "List.find P xs = Some x \<Longrightarrow> x \<in> set xs"
  by (induction xs) (auto split: if_splits)

lemma choose_chunk_boundary_bounds:
  assumes "start < target" "target \<le> tot"
  shows "start < choose_chunk_boundary t start target tot slack \<and>
    choose_chunk_boundary t start target tot slack \<le> min (target + slack) tot"
proof -
  let ?l = "min (target + slack) tot"
  let ?in = "\<lambda>r. start < r \<and> r \<le> ?l"
  have idx: "?in (i + 1)" if "i \<in> set [target..<?l] \<or> (i \<in> set (rev [start..<target]) \<and> target \<le> tot)" for i
    using that assms by auto
  show ?thesis
  proof (cases "tot \<le> target")
    case True
    with assms show ?thesis by (simp add: choose_chunk_boundary_def)
  next
    case False
    note ch = choose_chunk_boundary_def [of t start target tot slack]
    show ?thesis
    proof (cases "forward_scan t [target..<?l] []")
      case (Inl r)
      with forward_scan_bounds [where t = t and ks = "[target..<?l]" and cs = "[]"] idx False show ?thesis
        unfolding ch by auto
    next
      case (Inr cands)
      then have c1: "\<forall>c \<in> set cands. ?in c"
        using forward_scan_bounds [where t = t and ks = "[target..<?l]" and cs = "[]"] idx by auto
      show ?thesis
      proof (cases "backward_scan t (rev [start..<target]) cands")
        case (Inl r)
        with backward_scan_bounds [where t = t and ks = "rev [start..<target]" and cs = cands] idx Inr False assms(2) show ?thesis
          unfolding ch by auto
      next
        case (Inr cands2)
        then have c2: "\<forall>c \<in> set cands2. ?in c"
          using backward_scan_bounds [where t = t and ks = "rev [start..<target]" and cs = cands] idx c1 assms(2) by auto
        show ?thesis
          using False Inr \<open>forward_scan t [target..<?l] [] = Inr cands\<close> c2 assms idx
          unfolding ch Let_def
          by (auto split: option.split dest!: min_by_key_mem find_mem)
      qed
    qed
  qed
qed

text \<open>\<open>tiles\<close>: the ranges follow each other from \<open>lo\<close> to \<open>hi\<close>, none empty, none longer
  than \<open>w\<close>.\<close>

fun tiles :: "nat \<Rightarrow> nat \<Rightarrow> nat \<Rightarrow> text_chunk_range list \<Rightarrow> bool" where
  "tiles w lo hi [] = (lo = hi)"
| "tiles w lo hi (r # rs) =
     (range_start r = lo \<and> lo < range_end r \<and> range_end r - lo \<le> w \<and> tiles w (range_end r) hi rs)"

lemma chunk_ranges_tiles:
  "0 < cc \<Longrightarrow> start \<le> length t \<Longrightarrow>
     tiles (cc + max (cc div 5) 32) start (length t) (chunk_ranges t cc start)"
proof (induction t cc start rule: chunk_ranges.induct)
  case (1 t cc start)
  show ?case
  proof (cases "length t \<le> start")
    case True
    with 1 show ?thesis by (simp add: chunk_ranges.simps [of t cc "length t"])
  next
    case False
    let ?target = "min (start + cc) (length t)" and ?slack = "max (cc div 5) 32"
    let ?e = "choose_chunk_boundary t start ?target (length t) ?slack"
    have e: "start < ?e" "?e \<le> min (?target + ?slack) (length t)"
      using choose_chunk_boundary_bounds [of start ?target "length t" t ?slack] False 1(3) by auto
    then have "chunk_ranges t cc start = \<lparr>range_start = start, range_end = ?e\<rparr> # chunk_ranges t cc ?e"
      using False 1(3) by (subst chunk_ranges.simps) (simp add: Let_def)
    moreover have "tiles (cc + ?slack) ?e (length t) (chunk_ranges t cc ?e)"
      using 1(2) [OF _ refl refl refl refl] e False 1(3) by auto
    moreover have "?e - start \<le> cc + ?slack" using e(2) by linarith
    ultimately show ?thesis using e by simp
  qed
qed

lemma tiles_slices:
  "tiles w lo hi rs \<Longrightarrow> hi \<le> length t \<Longrightarrow>
     lo \<le> hi \<and> concat (map (slice_text_range t) rs) = take (hi - lo) (drop lo t)"
proof (induction rs arbitrary: lo)
  case (Cons r rs)
  then have ih: "range_end r \<le> hi"
    "concat (map (slice_text_range t) rs) = take (hi - range_end r) (drop (range_end r) t)" by auto
  have "take (hi - lo) (drop lo t) =
      take (range_end r - lo) (drop lo t) @ take (hi - range_end r) (drop (range_end r) t)"
    using Cons.prems ih(1) take_add [of "range_end r - lo" "hi - range_end r" "drop lo t"] by simp
  moreover have "slice_text_range t r = take (range_end r - lo) (drop lo t)"
    using Cons.prems by (simp add: slice_text_range_def)
  ultimately show ?case using Cons.prems ih by simp
qed simp

lemma tiles_length: "tiles w lo hi rs \<Longrightarrow> hi - lo \<le> length rs * w"
  by (induction rs arbitrary: lo) (auto, fastforce)

lemma tiles_count: "tiles w lo hi rs \<Longrightarrow> lo + length rs \<le> hi"
  by (induction rs arbitrary: lo) (auto, fastforce)

section \<open>Properties\<close>

text \<open>Naive chunking cuts a text into consecutive non-empty ranges that are never longer than
  the chunk size plus the slack, and whose slices, concatenated, are the text; it succeeds for
  every text longer than one chunk.\<close>

theorem naive_chunks_partition:
  assumes "0 < cc" "cc < length t"
  shows "\<exists>m. build_chunk_manifest t cc = Some m \<and>
    concat (map (slice_text_range t) (ranges m)) = t \<and>
    tiles (cc + max (cc div 5) 32) 0 (length t) (ranges m) \<and>
    length t \<le> length (ranges m) * (cc + max (cc div 5) 32)"
proof -
  have "tiles (cc + max (cc div 5) 32) 0 (length t) (chunk_ranges t cc 0)"
    using assms(1) by (intro chunk_ranges_tiles) simp_all
  with tiles_slices [OF this] tiles_length [OF this] assms show ?thesis
    by (simp add: build_chunk_manifest_def)
qed

theorem naive_chunks_partition_witness:
  "\<exists>m. build_chunk_manifest (lit ''ab. cd. ef'') 4 = Some m \<and>
     concat (map (slice_text_range (lit ''ab. cd. ef'')) (ranges m)) = lit ''ab. cd. ef''"
  using naive_chunks_partition [of 4 "lit ''ab. cd. ef''"] by auto

lemma document_plan:
  assumes "plan_document_chunks nfkc graphemes p raw = Some plan"
  shows "\<exists>txt n. from_utf8 raw = Some txt \<and> normalize_text nfkc graphemes txt (2 ^ 64 - 1) = Some n \<and>
    2 \<le> length (plan_chunks plan) \<and> length (ranges (manifest plan)) = length (plan_chunks plan) \<and>
    (let doc = detect_structure p (norm_text n) in
     if has_structure doc then
       \<forall>el \<in> set (elements doc). kept_element default_options el \<and> trim (element_text el) \<noteq> [] \<longrightarrow>
         (\<exists>c \<in> set (plan_chunks plan). sublist (trim (element_text el)) c)
     else concat (plan_chunks plan) = norm_text n)"
proof -
  from assms obtain tx n where t: "from_utf8 raw = Some tx"
    "normalize_text nfkc graphemes tx (2 ^ 64 - 1) = Some n"
    and len: "CHUNK_MIN_CHARS \<le> length (norm_text n)"
    and pl: "(let doc = detect_structure p (norm_text n) in
       if has_structure doc then plan_structural_chunks (norm_text n) doc
       else plan_naive_chunks (norm_text n)) = Some plan"
    by (auto simp: plan_document_chunks_def plan_text_chunks_def Let_def split: option.splits if_splits)
  let ?doc = "detect_structure p (norm_text n)"
  have opts: "default_options\<lparr>max_chars := DEFAULT_CHUNK_CHARS\<rparr> = default_options"
    by (simp add: default_options_def DEFAULT_CHUNK_CHARS_def)
  show ?thesis
  proof (cases "has_structure ?doc")
    case True
    with pl obtain r where r: "chunk default_options ?doc = Some r" "2 \<le> length (chunks r)"
      "plan = \<lparr>manifest = build_manifest_from_structural (chunks r) (norm_text n),
         plan_chunks = map chunk_text (chunks r)\<rparr>"
      by (auto simp: plan_structural_chunks_def opts Let_def not_le split: option.splits if_splits)
    then show ?thesis
      using t True kept_text_in_chunk [OF r(1)]
      by (simp add: build_manifest_from_structural_def Let_def)
  next
    case False
    with pl obtain m where m: "build_chunk_manifest (norm_text n) DEFAULT_CHUNK_CHARS = Some m"
      "2 \<le> length (ranges m)"
      "plan = \<lparr>manifest = m, plan_chunks = map (slice_text_range (norm_text n)) (ranges m)\<rparr>"
      by (auto simp: plan_naive_chunks_def Let_def not_le split: option.splits if_splits)
    have "concat (map (slice_text_range (norm_text n)) (ranges m)) = norm_text n"
      using tiles_slices [OF chunk_ranges_tiles [of DEFAULT_CHUNK_CHARS 0 "norm_text n"], of "norm_text n"]
        m(1) by (auto simp: build_chunk_manifest_def DEFAULT_CHUNK_CHARS_def split: if_splits)
    with t m False show ?thesis by simp
  qed
qed

text \<open>A chunk plan for raw bytes always has at least two chunks and one range per chunk.  For a
  document without tables and code blocks the chunks concatenate to the normalised text; otherwise
  every element that the chunker keeps whole has its text in some chunk.\<close>

theorem document_plan_complete:
  assumes "plan_document_chunks nfkc graphemes p raw = Some plan"
  shows "\<exists>txt n. from_utf8 raw = Some txt \<and> normalize_text nfkc graphemes txt (2 ^ 64 - 1) = Some n \<and>
    2 \<le> length (plan_chunks plan) \<and> length (ranges (manifest plan)) = length (plan_chunks plan) \<and>
    (let doc = detect_structure p (norm_text n) in
     if has_structure doc then
       \<forall>el \<in> set (elements doc). kept_element default_options el \<and> trim (element_text el) \<noteq> [] \<longrightarrow>
         (\<exists>c \<in> set (plan_chunks plan). sublist (trim (element_text el)) c)
     else concat (plan_chunks plan) = norm_text n)"
  by (rule document_plan [OF assms])


text \<open>An instance without any structure: no pattern matches, and the text is one long word.\<close>

definition no_patterns :: patterns where
  "no_patterns = \<lparr>table_row = (\<lambda>l. False), table_separator = (\<lambda>l. False),
     code_fence_start = (\<lambda>l. None), code_fence_end = (\<lambda>l. False), unordered_item = (\<lambda>l. None),
     ordered_item = (\<lambda>l. None), heading = (\<lambda>l. None), horizontal_rule = (\<lambda>l. False)\<rparr>"

lemma no_patterns_at:
  "ls \<noteq> [] \<Longrightarrow> detect_at no_patterns ls off c = (r, n, c') \<Longrightarrow>
     (case r of None \<Rightarrow> True | Some el \<Rightarrow> element_type el = ET_Paragraph)"
  by (cases ls) (auto simp: detect_at_def no_patterns_def try_detect_table_def try_detect_code_block_def
      try_detect_list_def try_detect_heading_def Let_def paragraph_element_def
      split: list.splits if_splits)

lemma no_patterns_loop:
  "list_all (\<lambda>el. element_type el = ET_Paragraph) (elements doc) \<Longrightarrow> p = no_patterns \<Longrightarrow>
     list_all (\<lambda>el. element_type el = ET_Paragraph) (elements (detect_loop p ls off c doc))"
proof (induction p ls off c doc rule: detect_loop.induct)
  case (1 p ls off c doc)
  show ?case
  proof (cases "ls = []")
    case True
    with 1(2) show ?thesis by (simp add: detect_loop.simps [of p "[]"])
  next
    case False
    obtain r n c' where d: "detect_at p ls off c = (r, n, c')" by (cases "detect_at p ls off c") auto
    let ?doc' = "case r of None \<Rightarrow> doc | Some el \<Rightarrow> add_element doc el"
    have "list_all (\<lambda>el. element_type el = ET_Paragraph) (elements ?doc')"
      using no_patterns_at [OF False, of off c r n c'] d 1(2,3) by (cases r) auto
    with 1(1) [OF False, of "(r, n, c')" r "(n, c')" n c' ?doc'] 1(3) d False show ?thesis
      by (subst detect_loop.simps) simp
  qed
qed

lemma no_patterns_plain: "\<not> has_structure (detect_structure no_patterns t)"
proof -
  have "list_all (\<lambda>el. element_type el = ET_Paragraph)
      (elements (detect_loop no_patterns (lines_of t) 0 0 (document_from_text t)))"
    by (rule no_patterns_loop) (simp_all add: document_from_text_def)
  then have "list_all (\<lambda>el. element_type el = ET_Paragraph) (elements (detect_structure no_patterns t))"
    by (simp add: detect_structure_def update_counts_def)
  moreover have "doc_ok (detect_structure no_patterns t)"
    by (simp add: detect_structure_def doc_ok_def update_counts_def)
  ultimately show ?thesis by (auto simp: has_structure_iff list_all_iff)
qed

lemma from_utf8_replicate: "from_utf8 (replicate n 97) = Some (replicate n 97)"
proof -
  have "utf8_encode (replicate n 97) = replicate n 97"
    by (induction n) (simp_all add: utf8_enc_def byte_def)
  moreover have "list_all scalar (replicate n 97)" by (induction n) (simp_all add: scalar_def)
  ultimately show ?thesis using from_utf8_encode by metis
qed

lemma spaced_replicate: "spaced (replicate n 97)"
  by (induction n) (auto simp: spaced_def clean_char_def is_control_def is_whitespace_def
      successively_Cons)

lemma normalize_replicate:
  assumes "0 < n" "n \<le> lim"
  shows "normalize_text id (map (\<lambda>c. [c])) (replicate n 97) lim =
    Some \<lparr>norm_text = replicate n 97, truncated = False\<rparr>"
proof -
  have t: "trim (replicate n 97) = replicate n 97"
    using assms(1) by (intro trim_fix) (simp_all add: is_whitespace_def hd_replicate last_replicate)
  have "concat (map (\<lambda>c. [c]) u) = u" for u :: ustr by (induction u) simp_all
  then have g: "segments (map (\<lambda>c. [c]))" by (auto simp: segments_def)
  have "byte_len (replicate n 97) = n" for n by (induction n) (simp_all add: utf8_len_def)
  with t g show ?thesis
    using normalize_text_all [of "map (\<lambda>c. [c])" id "replicate n 97" lim] assms
    by (simp add: clean_fix [OF spaced_replicate])
qed

lemma tiles_slice_nonempty: "tiles w lo hi rs \<Longrightarrow> hi \<le> length t \<Longrightarrow> r \<in> set rs \<Longrightarrow> slice_text_range t r \<noteq> []"
proof (induction rs arbitrary: lo)
  case (Cons x rs)
  have "range_end x \<le> hi" using tiles_count [of w "range_end x" hi rs] Cons(2) by simp
  then show ?case using Cons by (auto simp: slice_text_range_def)
qed simp

lemma example_plan:
  "\<exists>plan. plan_document_chunks id (map (\<lambda>c. [c])) no_patterns (replicate 2400 97) = Some plan \<and>
     length (plan_chunks plan) \<le> 2400 \<and> concat (plan_chunks plan) = replicate 2400 97 \<and>
     (\<forall>c \<in> set (plan_chunks plan). c \<noteq> [])"
proof -
  let ?t = "replicate 2400 97 :: ustr" and ?rs = "chunk_ranges (replicate 2400 97) 1200 0"
  have t: "tiles 1440 0 2400 ?rs" using chunk_ranges_tiles [of 1200 0 ?t] by simp
  from tiles_length [OF t] have "1 < length ?rs" by simp
  then obtain plan where naive: "plan_naive_chunks ?t = Some plan"
    and cs: "plan_chunks plan = map (slice_text_range ?t) ?rs"
    by (simp add: plan_naive_chunks_def build_chunk_manifest_def DEFAULT_CHUNK_CHARS_def)
  have nt: "normalize_text id (map (\<lambda>c. [c])) ?t (2 ^ 64 - 1) = Some \<lparr>norm_text = ?t, truncated = False\<rparr>"
    by (rule normalize_replicate) simp_all
  have pl: "plan_document_chunks id (map (\<lambda>c. [c])) no_patterns (replicate 2400 97) = Some plan"
    using nt naive from_utf8_replicate [of 2400]
    by (simp add: plan_document_chunks_def plan_text_chunks_def CHUNK_MIN_CHARS_def
        DEFAULT_CHUNK_CHARS_def no_patterns_plain)
  have "concat (plan_chunks plan) = ?t"
    using document_plan [OF pl] nt from_utf8_replicate [of 2400] no_patterns_plain [of ?t]
    by (auto simp: Let_def)
  moreover have "c \<noteq> []" if "c \<in> set (plan_chunks plan)" for c
    using that tiles_slice_nonempty [OF t, of ?t] cs by auto
  ultimately show ?thesis using pl tiles_count [OF t] cs by auto
qed

theorem document_plan_complete_witness:
  "\<exists>plan. plan_document_chunks id (map (\<lambda>c. [c])) no_patterns (replicate 2400 97) = Some plan \<and>
     2 \<le> length (plan_chunks plan)"
  using example_plan document_plan_complete [of id "map (\<lambda>c. [c])" no_patterns "replicate 2400 97"] by blast


text \<open>The manifest of a structural plan mixes units: the detector counts bytes, the manifest is read
  as characters.  With four two-byte characters in the first line, the range recorded for the last
  chunk starts behind its end and denotes the empty text.\<close>

definition accented_text :: ustr where
  "accented_text = [233, 233, 233, 233, 10] @ lit ''```'' @ [10] @ lit ''x'' @ [10] @ lit ''```'' @
     [10] @ lit ''z''"

theorem structural_manifest_misplaced:
  "map_option (\<lambda>r. (map chunk_text (chunks r),
       map (slice_text_range accented_text)
         (ranges (build_manifest_from_structural (chunks r) accented_text))))
     (chunk default_options (detect_structure sample_patterns accented_text)) =
   Some ([[233, 233, 233, 233], lit ''```'' @ [10] @ lit ''x'' @ [10] @ lit ''```'', lit ''z''],
     [take 9 accented_text, drop 9 accented_text, []])"
  by code_simp

end
