(* ===== verification/Frame_Types.thy ===== *)
theory Frame_Types
  imports Prelude Text_Base Chunk_Manifest
begin

unbundle bit_operations_syntax

text \<open>
  The data of the table of contents: the enums of \<open>types/common.rs\<close>, the metadata structs of
  \<open>types/metadata.rs\<close>, and \<open>Frame\<close> with the timeline query of \<open>types/frame.rs\<close>.
  Field names carry a prefix where two structs share one.  \<open>f32\<close>/\<open>f64\<close> fields hold
  the bit pattern; a \<open>BTreeMap\<close> is its entry list in key order.
\<close>

type_synonym f32 = "32 word"
type_synonym f64 = "64 word"
type_synonym frame_id = u64
type_synonym str_map = "(ustr \<times> ustr) list"

section \<open>Enums\<close>

datatype canonical_encoding = Plain | Zstd

definition from_byte :: "u8 \<Rightarrow> canonical_encoding" where
  "from_byte v = (if v = 0 then Plain else if v = 1 then Zstd else Plain)"

fun as_byte :: "canonical_encoding \<Rightarrow> u8" where
  "as_byte Plain = 0"
| "as_byte Zstd = 1"

text \<open>The serde codec goes through a \<open>u32\<close> and looks at its low byte only.\<close>

definition serialize_encoding :: "canonical_encoding \<Rightarrow> u32" where
  "serialize_encoding e = ucast (as_byte e)"

definition deserialize_encoding :: "u32 \<Rightarrow> canonical_encoding" where
  "deserialize_encoding v = from_byte (ucast (v AND 0xFF))"

lemma deserialize_serialize_encoding: "deserialize_encoding (serialize_encoding e) = e"
  by (cases e) (simp_all add: deserialize_encoding_def serialize_encoding_def from_byte_def)

fun capacity_bytes :: "tier \<Rightarrow> u64" where
  "capacity_bytes Free = 50 * 1024 * 1024"
| "capacity_bytes Dev = 2 * 1024 * 1024 * 1024"
| "capacity_bytes Enterprise = 10 * 1024 * 1024 * 1024"

datatype frame_status = Active | Superseded | Deleted

datatype frame_role = Document | DocumentChunk | ExtractedImage

datatype enrichment_state = Searchable | Enriched

definition needs_enrichment :: "enrichment_state \<Rightarrow> bool" where
  "needs_enrichment s = (s = Searchable)"

definition has_embeddings :: "enrichment_state \<Rightarrow> bool" where
  "has_embeddings s = (s = Enriched)"

record enrichment_task =
  task_frame_id :: frame_id
  created_at :: u64
  chunks_done :: u32
  chunks_total :: u32

section \<open>Metadata\<close>

record media_manifest =
  media_kind :: ustr
  media_mime :: ustr
  media_bytes :: u64
  filename :: "ustr option"
  duration_ms :: "u64 option"
  media_width :: "u32 option"
  media_height :: "u32 option"
  media_codec :: "ustr option"

record audio_segment =
  start_seconds :: f32
  end_seconds :: f32
  seg_label :: "ustr option"

record audio_metadata =
  duration_secs :: "f32 option"
  sample_rate_hz :: "u32 option"
  channels :: "u8 option"
  bitrate_kbps :: "u32 option"
  audio_codec :: "ustr option"
  segments :: "audio_segment list"
  audio_tags :: str_map

definition audio_is_empty :: "audio_metadata \<Rightarrow> bool" where
  "audio_is_empty a =
     (duration_secs a = None \<and> sample_rate_hz a = None \<and> channels a = None \<and>
      bitrate_kbps a = None \<and> audio_codec a = None \<and> segments a = [] \<and> audio_tags a = [])"

record gps_metadata =
  latitude :: f64
  longitude :: f64

record exif_metadata =
  exif_make :: "ustr option"
  exif_model :: "ustr option"
  lens :: "ustr option"
  datetime :: "ustr option"
  gps :: "gps_metadata option"

record doc_metadata =
  mime :: "ustr option"
  doc_bytes :: "u64 option"
  doc_hash :: "ustr option"
  width :: "u32 option"
  height :: "u32 option"
  colors :: "ustr list option"
  caption :: "ustr option"
  exif :: "exif_metadata option"
  audio :: "audio_metadata option"
  media :: "media_manifest option"

definition default_metadata :: doc_metadata where
  "default_metadata =
     \<lparr>mime = None, doc_bytes = None, doc_hash = None, width = None, height = None, colors = None,
      caption = None, exif = None, audio = None, media = None\<rparr>"

definition metadata_is_empty :: "doc_metadata \<Rightarrow> bool" where
  "metadata_is_empty m =
     (mime m = None \<and> doc_bytes m = None \<and> doc_hash m = None \<and> width m = None \<and> height m = None \<and>
      (case colors m of None \<Rightarrow> True | Some cs \<Rightarrow> cs = []) \<and> caption m = None \<and> exif m = None \<and>
      (case audio m of None \<Rightarrow> True | Some a \<Rightarrow> audio_is_empty a) \<and> media m = None)"

lemma default_metadata_is_empty [simp]: "metadata_is_empty default_metadata"
  by (simp add: metadata_is_empty_def default_metadata_def)

section \<open>Frames\<close>

record frame =
  id_of :: frame_id
  ftimestamp :: i64
  anchor_ts :: "i64 option"
  anchor_src :: "nat option"
  fkind :: "ustr option"
  ftrack :: "ustr option"
  payload_offset :: u64
  payload_length :: u64
  fchecksum :: bytes
  furi :: "ustr option"
  ftitle :: "ustr option"
  encoding :: canonical_encoding
  canonical_length :: "u64 option"
  metadata :: "doc_metadata option"
  search_text :: "ustr option"
  tags :: "ustr list"
  labels :: "ustr list"
  extra_metadata :: str_map
  content_dates :: "ustr list"
  chunk_manifest :: "text_chunk_manifest option"
  role :: frame_role
  parent_id :: "frame_id option"
  chunk_index :: "u32 option"
  chunk_count_of :: "u32 option"
  status :: frame_status
  supersedes :: "frame_id option"
  superseded_by :: "frame_id option"
  source_sha256 :: "bytes option"
  source_path :: "ustr option"
  enrichment :: enrichment_state

record timeline_query =
  limit :: "u64 option"
  since :: "i64 option"
  until :: "i64 option"
  reverse :: bool

definition default_query :: timeline_query where
  "default_query = \<lparr>limit = None, since = None, until = None, reverse = False\<rparr>"

text \<open>The builder; \<open>no_limit\<close> clears the limit, and \<open>build\<close> puts the default of 100
  back when there is none.\<close>

definition with_limit :: "u64 \<Rightarrow> timeline_query \<Rightarrow> timeline_query" where
  "with_limit n q = q\<lparr>limit := Some n\<rparr>"

definition with_since :: "i64 \<Rightarrow> timeline_query \<Rightarrow> timeline_query" where
  "with_since ts q = q\<lparr>since := Some ts\<rparr>"

definition with_until :: "i64 \<Rightarrow> timeline_query \<Rightarrow> timeline_query" where
  "with_until ts q = q\<lparr>until := Some ts\<rparr>"

definition with_reverse :: "bool \<Rightarrow> timeline_query \<Rightarrow> timeline_query" where
  "with_reverse b q = q\<lparr>reverse := b\<rparr>"

definition no_limit :: "timeline_query \<Rightarrow> timeline_query" where
  "no_limit q = q\<lparr>limit := None\<rparr>"

definition build_query :: "timeline_query \<Rightarrow> timeline_query" where
  "build_query q = (if limit q = None then q\<lparr>limit := Some 100\<rparr> else q)"

lemma no_limit_is_hundred: "limit (build_query (no_limit q)) = Some 100"
  by (simp add: build_query_def no_limit_def)

text \<open>A frame without content, for examples.\<close>

definition blank_frame :: frame where
  "blank_frame =
     \<lparr>id_of = 0, ftimestamp = 0, anchor_ts = None, anchor_src = None, fkind = None, ftrack = None,
      payload_offset = 0, payload_length = 0, fchecksum = [], furi = None, ftitle = None,
      encoding = Plain, canonical_length = None, metadata = None, search_text = None, tags = [],
      labels = [], extra_metadata = [], content_dates = [], chunk_manifest = None, role = Document,
      parent_id = None, chunk_index = None, chunk_count_of = None, status = Active, supersedes = None,
      superseded_by = None, source_sha256 = None, source_path = None, enrichment = Enriched\<rparr>"

end
