(* ===== verification/Frames.thy ===== *)
theory Frames
  imports Frame_Types Header Time_Index Utf8
begin

text \<open>
  The frame store (\<open>memvid/frame.rs\<close>, \<open>memvid/timeline.rs\<close>, the preview and URI helpers of
  \<open>lib.rs\<close>): looking frames up, reading their payloads within the bounds of the data region,
  assembling a chunked document from its children, resolving the context of a chunk, the blob
  reader, and the timeline.  \<open>store\<close> holds what these operations read of \<open>Memvid\<close>: the
  file, the header, the end of the data region, the frames and the time index manifest.
  Parameters: \<open>unzstd\<close> is \<open>zstd::decode_all\<close>, \<open>lower\<close> is \<open>str::to_lowercase\<close>, and
  \<open>secs\<close> formats milliseconds as seconds with one decimal.
\<close>

definition TIMELINE_PREVIEW_BYTES :: nat where "TIMELINE_PREVIEW_BYTES = 120"

definition MAX_FRAME_BYTES :: u64 where "MAX_FRAME_BYTES = 256 * 1024 * 1024"

record store =
  sfile :: bytes
  sheader :: header
  data_end :: u64
  frames :: "frame list"
  time_manifest :: "(u64 \<times> u64) option"

section \<open>Helpers of lib.rs and helpers.rs\<close>

fun split_once :: "ustr \<Rightarrow> ustr \<Rightarrow> (ustr \<times> ustr) option" where
  "split_once pat [] = (if pat = [] then Some ([], []) else None)"
| "split_once pat (c # s) =
     (if starts_with (c # s) pat then Some ([], drop (length pat) (c # s))
      else map_option (\<lambda>p. (c # fst p, snd p)) (split_once pat s))"

definition default_uri :: "frame_id \<Rightarrow> ustr" where
  "default_uri fid = lit ''mv2://frames/'' @ dec_str (unat fid)"

definition upper1 :: "uchar \<Rightarrow> uchar" where
  "upper1 c = (if 97 \<le> c \<and> c \<le> 122 then c - 32 else c)"

definition title_word :: "ustr \<Rightarrow> ustr" where
  "title_word w = (case w of [] \<Rightarrow> [] | c # cs \<Rightarrow> upper1 c # to_ascii_lowercase cs)"

text \<open>\<open>rsplit(c).next()\<close> is what follows the last \<open>c\<close>, \<open>rsplit_once(c)\<close> cuts there.\<close>

definition after_last :: "uchar \<Rightarrow> ustr \<Rightarrow> ustr" where
  "after_last c s = rev (takeWhile (\<lambda>d. d \<noteq> c) (rev s))"

definition before_last :: "uchar \<Rightarrow> ustr \<Rightarrow> ustr" where
  "before_last c s = (if c \<in> set s then rev (tl (dropWhile (\<lambda>d. d \<noteq> c) (rev s))) else s)"

definition trim_end_char :: "uchar \<Rightarrow> ustr \<Rightarrow> ustr" where
  "trim_end_char c s = rev (dropWhile (\<lambda>d. d = c) (rev s))"

definition infer_title_from_uri :: "ustr \<Rightarrow> ustr option" where
  "infer_title_from_uri uri =
     (let trimmed = trim uri in
      if trimmed = [] then None else
      (let without_scheme = (case split_once (lit ''://'') trimmed of None \<Rightarrow> trimmed | Some x \<Rightarrow> snd x);
           without_fragment = hd (split_by (\<lambda>c. c = 35) without_scheme);
           without_query = hd (split_by (\<lambda>c. c = 63) without_fragment);
           segment = trim (after_last 47 (trim_end_char 47 without_query)) in
       if segment = [] then None else
       (let stem = trim (before_last 46 segment) in
        if stem = [] then None else
        (let words = filter (\<lambda>w. w \<noteq> []) (map title_word
               (filter (\<lambda>p. p \<noteq> []) (split_by (\<lambda>c. c = 45 \<or> c = 95 \<or> c = 32) stem))) in
         if words = [] then None else Some (join [32] words)))))"

definition truncate_preview :: "ustr \<Rightarrow> ustr" where
  "truncate_preview t = take TIMELINE_PREVIEW_BYTES t"

definition non_blank :: "ustr option \<Rightarrow> ustr option" where
  "non_blank s = (case s of None \<Rightarrow> None | Some t \<Rightarrow> if trim t = [] then None else Some (trim t))"

definition image_preview_from_metadata :: "doc_metadata \<Rightarrow> ustr option" where
  "image_preview_from_metadata m =
     (case mime m of None \<Rightarrow> None | Some mm \<Rightarrow>
      if \<not> starts_with mm (lit ''image/'') then None else
      (case non_blank (caption m) of Some c \<Rightarrow> Some (truncate_preview c) | None \<Rightarrow>
       (let size = (case (width m, height m) of
              (Some w, Some h) \<Rightarrow> [dec_str (unat w) @ [215] @ dec_str (unat h) @ lit '' px'']
            | _ \<Rightarrow> []);
            from_exif = (case exif m of None \<Rightarrow> [] | Some e \<Rightarrow>
              (case non_blank (exif_model e) of Some t \<Rightarrow> [t]
               | None \<Rightarrow> (case non_blank (exif_make e) of Some t \<Rightarrow> [t] | None \<Rightarrow> [])) @
              (case non_blank (datetime e) of Some t \<Rightarrow> [t] | None \<Rightarrow> []));
            segs = size @ from_exif in
        if segs = [] then Some (lit ''Image frame'')
        else Some (truncate_preview (join [32, 183, 32] segs)))))"

definition decode_canonical_bytes ::
  "(bytes \<Rightarrow> bytes option) \<Rightarrow> bytes \<Rightarrow> canonical_encoding \<Rightarrow> frame_id \<Rightarrow> bytes res" where
  "decode_canonical_bytes unzstd payload enc fid =
     (case enc of
        Plain \<Rightarrow> Inr payload
      | Zstd \<Rightarrow> (case unzstd payload of
          None \<Rightarrow> Inl (InvalidFrame fid ''failed to decode canonical payload'')
        | Some d \<Rightarrow> Inr d))"

definition render_binary_summary :: "nat \<Rightarrow> ustr" where
  "render_binary_summary len =
     (if len = 0 then lit ''<binary payload: 0 bytes>''
      else lit ''<binary payload: '' @ dec_str len @ lit '' bytes>'')"

section \<open>Looking frames up\<close>

definition mime_is_text :: "ustr \<Rightarrow> bool" where
  "mime_is_text mm =
     (let normalized = to_ascii_lowercase (trim (hd (split_by (\<lambda>c. c = 59) mm))) in
      starts_with normalized (lit ''text/'') \<or>
      normalized \<in> set (map lit [''application/json'', ''application/xml'', ''application/javascript'',
        ''application/xhtml+xml'', ''application/rss+xml'', ''application/rtf'', ''application/toml'',
        ''application/yaml'', ''application/x-yaml'', ''application/x-toml'']))"

definition nth_opt :: "'a list \<Rightarrow> nat \<Rightarrow> 'a option" where
  "nth_opt xs i = (if i < length xs then Some (xs ! i) else None)"

definition frame_by_id :: "'z store_scheme \<Rightarrow> frame_id \<Rightarrow> frame res" where
  "frame_by_id s fid =
     (case nth_opt (frames s) (unat fid) of None \<Rightarrow> Inl (FrameNotFound fid) | Some fr \<Rightarrow> Inr fr)"

definition frame_by_uri :: "'z store_scheme \<Rightarrow> ustr \<Rightarrow> frame res" where
  "frame_by_uri s u =
     (case find (\<lambda>fr. furi fr = Some u \<and> status fr = Active) (rev (frames s)) of
        Some fr \<Rightarrow> Inr fr
      | None \<Rightarrow> (case find (\<lambda>fr. furi fr = Some u) (rev (frames s)) of
          Some fr \<Rightarrow> Inr fr
        | None \<Rightarrow> Inl (FrameNotFoundByUri u)))"

definition find_frame_by_hash :: "'z store_scheme \<Rightarrow> bytes \<Rightarrow> frame option" where
  "find_frame_by_hash s h = find (\<lambda>fr. status fr = Active \<and> fchecksum fr = h) (rev (frames s))"

definition media_manifest :: "'z store_scheme \<Rightarrow> frame_id \<Rightarrow> media_manifest option res" where
  "media_manifest s fid =
     (case frame_by_id s fid of Inl e \<Rightarrow> Inl e
      | Inr fr \<Rightarrow> Inr (case metadata fr of None \<Rightarrow> None | Some m \<Rightarrow> media m))"

definition media_manifest_by_uri :: "'z store_scheme \<Rightarrow> ustr \<Rightarrow> media_manifest option res" where
  "media_manifest_by_uri s u =
     (case frame_by_uri s u of Inl e \<Rightarrow> Inl e
      | Inr fr \<Rightarrow> Inr (case metadata fr of None \<Rightarrow> None | Some m \<Rightarrow> media m))"

definition frame_in_range :: "'z store_scheme \<Rightarrow> frame_id \<Rightarrow> frame res" where
  "frame_in_range s fid =
     (case nth_opt (frames s) (unat fid) of
        None \<Rightarrow> Inl (InvalidTimeIndex ''frame id out of range'') | Some fr \<Rightarrow> Inr fr)"

section \<open>Payloads\<close>

definition validate_frame_bounds :: "'z store_scheme \<Rightarrow> frame \<Rightarrow> unit res" where
  "validate_frame_bounds s fr =
     (if payload_length fr = 0 then Inr ()
      else if MAX_FRAME_BYTES < payload_length fr
        then Inl (InvalidFrame (id_of fr) ''payload length exceeds maximum'')
      else (case checked_add (wal_offset (sheader s)) (wal_size (sheader s)) of
        None \<Rightarrow> Inl (InvalidFrame (id_of fr) ''wal region overflow'')
      | Some wal_region_end \<Rightarrow>
        if payload_offset fr < wal_region_end
          then Inl (InvalidFrame (id_of fr) ''payload overlaps wal region'')
        else (case checked_add (payload_offset fr) (payload_length fr) of
          None \<Rightarrow> Inl (InvalidFrame (id_of fr) ''payload range overflow'')
        | Some frame_end \<Rightarrow>
          if data_end s < frame_end
            then Inl (InvalidFrame (id_of fr) ''payload extends past data region'')
          else if length (sfile s) < unat frame_end
            then Inl (InvalidFrame (id_of fr) ''payload extends past file length'')
          else Inr ())))"

definition read_frame_payload_bytes :: "'z store_scheme \<Rightarrow> frame \<Rightarrow> bytes res" where
  "read_frame_payload_bytes s fr =
     (case validate_frame_bounds s fr of Inl e \<Rightarrow> Inl e | Inr _ \<Rightarrow>
      read_exact (sfile s) (unat (payload_offset fr)) (unat (payload_length fr)))"

text \<open>The children of a document in chunk order; \<open>unwrap_or(u32::MAX)\<close> puts a frame without
  an index last.\<close>

definition chunk_key :: "frame \<Rightarrow> nat \<times> nat" where
  "chunk_key fr = ((case chunk_index fr of None \<Rightarrow> 2 ^ 32 - 1 | Some i \<Rightarrow> unat i), unat (id_of fr))"

definition document_chunk_frames :: "'z store_scheme \<Rightarrow> frame_id \<Rightarrow> frame list" where
  "document_chunk_frames s pid =
     sort_key chunk_key (filter (\<lambda>c. status c = Active \<and> role c = DocumentChunk \<and>
       parent_id c = Some pid) (frames s))"

fun load_chunks :: "(bytes \<Rightarrow> bytes option) \<Rightarrow> 'z store_scheme \<Rightarrow> frame list \<Rightarrow> (frame \<times> bytes) list res" where
  "load_chunks unzstd s [] = Inr []"
| "load_chunks unzstd s (c # cs) =
     (case read_frame_payload_bytes s c of Inl e \<Rightarrow> Inl e | Inr raw \<Rightarrow>
      case decode_canonical_bytes unzstd raw (encoding c) (id_of c) of Inl e \<Rightarrow> Inl e | Inr d \<Rightarrow>
      if (case canonical_length c of None \<Rightarrow> False | Some n \<Rightarrow> of_nat (length d) \<noteq> n)
      then Inl (InvalidFrame (id_of c) ''chunk canonical length mismatch'')
      else (case load_chunks unzstd s cs of Inl e \<Rightarrow> Inl e | Inr r \<Rightarrow> Inr ((c, d) # r)))"

definition document_chunk_payloads ::
  "(bytes \<Rightarrow> bytes option) \<Rightarrow> 'z store_scheme \<Rightarrow> frame \<Rightarrow> (frame \<times> bytes) list res" where
  "document_chunk_payloads unzstd s fr =
     (case chunk_manifest fr of
        None \<Rightarrow> Inl (InvalidFrame (id_of fr) ''document missing chunk manifest'')
      | Some m \<Rightarrow>
        (let children = document_chunk_frames s (id_of fr) in
         if children = [] then
           Inl (InvalidFrame (id_of fr) ''document chunk manifest missing children'')
         else if length children \<noteq> length (ranges m) then
           Inl (InvalidFrame (id_of fr) ''chunk manifest length mismatch'')
         else load_chunks unzstd s (sort_key chunk_key children)))"

definition frame_canonical_bytes :: "(bytes \<Rightarrow> bytes option) \<Rightarrow> 'z store_scheme \<Rightarrow> frame \<Rightarrow> bytes res" where
  "frame_canonical_bytes unzstd s fr =
     (if role fr = Document \<and> chunk_manifest fr \<noteq> None then
        (case document_chunk_payloads unzstd s fr of Inl e \<Rightarrow> Inl e
         | Inr ps \<Rightarrow> Inr (concat (map snd ps)))
      else
        (case read_frame_payload_bytes s fr of Inl e \<Rightarrow> Inl e | Inr raw \<Rightarrow>
         case decode_canonical_bytes unzstd raw (encoding fr) (id_of fr) of Inl e \<Rightarrow> Inl e | Inr d \<Rightarrow>
         if (case canonical_length fr of None \<Rightarrow> False | Some n \<Rightarrow> of_nat (length d) \<noteq> n)
         then Inl (InvalidFrame (id_of fr) ''canonical length mismatch'')
         else Inr d))"

definition frame_canonical_payload :: "(bytes \<Rightarrow> bytes option) \<Rightarrow> 'z store_scheme \<Rightarrow> frame_id \<Rightarrow> bytes res" where
  "frame_canonical_payload unzstd s fid =
     (case frame_by_id s fid of Inl e \<Rightarrow> Inl e | Inr fr \<Rightarrow> frame_canonical_bytes unzstd s fr)"

section \<open>Text\<close>

definition text_or_summary :: "bytes \<Rightarrow> ustr" where
  "text_or_summary b =
     (case from_utf8 b of Some t \<Rightarrow> t | None \<Rightarrow> render_binary_summary (length b))"

definition frame_canonical_text :: "(bytes \<Rightarrow> bytes option) \<Rightarrow> 'z store_scheme \<Rightarrow> frame \<Rightarrow> ustr res" where
  "frame_canonical_text unzstd s fr =
     (if role fr = Document \<and> chunk_manifest fr \<noteq> None then
        (case frame_canonical_bytes unzstd s fr of Inl e \<Rightarrow> Inl e | Inr b \<Rightarrow> Inr (text_or_summary b))
      else (case search_text fr of Some t \<Rightarrow> Inr t | None \<Rightarrow>
        if (case metadata fr of None \<Rightarrow> False | Some m \<Rightarrow>
              (case mime m of None \<Rightarrow> False | Some mm \<Rightarrow> \<not> mime_is_text mm))
        then Inr (render_binary_summary (unat (case canonical_length fr of
               Some n \<Rightarrow> n | None \<Rightarrow> payload_length fr)))
        else (case frame_canonical_bytes unzstd s fr of Inl e \<Rightarrow> Inl e
              | Inr b \<Rightarrow> Inr (text_or_summary b))))"

definition frame_content :: "(bytes \<Rightarrow> bytes option) \<Rightarrow> 'z store_scheme \<Rightarrow> frame \<Rightarrow> ustr res" where
  "frame_content unzstd s fr =
     (if (case search_text fr of None \<Rightarrow> False | Some t \<Rightarrow> t \<noteq> []) then Inr (the (search_text fr))
      else if payload_length fr = 0 \<and> chunk_manifest fr = None then Inr []
      else frame_canonical_text unzstd s fr)"

definition video_preview :: "(u64 \<Rightarrow> ustr) \<Rightarrow> frame \<Rightarrow> media_manifest \<Rightarrow> ustr" where
  "video_preview secs fr video =
     (let label = (case filename video of Some x \<Rightarrow> x | None \<Rightarrow>
              (case ftitle fr of Some x \<Rightarrow> x | None \<Rightarrow>
              (case furi fr of Some x \<Rightarrow> x | None \<Rightarrow> lit ''video'')))
      in join [32, 183, 32]
        ([lit ''Video: '' @ label] @
         (case duration_ms video of None \<Rightarrow> [] | Some d \<Rightarrow> [secs d @ lit ''s'']) @
         (case (media_width video, media_height video) of
            (Some w, Some h) \<Rightarrow> [dec_str (unat w) @ lit ''x'' @ dec_str (unat h)] | _ \<Rightarrow> []) @
         (case media_codec video of None \<Rightarrow> []
          | Some c \<Rightarrow> if trim c \<noteq> [] then [c] else [])))"

definition video_of :: "frame \<Rightarrow> media_manifest option" where
  "video_of fr =
     (case metadata fr of None \<Rightarrow> None | Some m \<Rightarrow>
      (case media m of None \<Rightarrow> None
       | Some v \<Rightarrow> if to_ascii_lowercase (media_kind v) = lit ''video'' then Some v else None))"

definition frame_preview ::
  "(bytes \<Rightarrow> bytes option) \<Rightarrow> (u64 \<Rightarrow> ustr) \<Rightarrow> 'z store_scheme \<Rightarrow> frame \<Rightarrow> ustr res" where
  "frame_preview unzstd secs s fr =
     (case (case metadata fr of None \<Rightarrow> None | Some m \<Rightarrow> image_preview_from_metadata m) of
        Some t \<Rightarrow> Inr t
      | None \<Rightarrow> (case video_of fr of Some v \<Rightarrow> Inr (video_preview secs fr v)
      | None \<Rightarrow> (case search_text fr of Some t \<Rightarrow> Inr (truncate_preview t)
      | None \<Rightarrow> if payload_length fr = 0 then Inr []
          else (case frame_canonical_text unzstd s fr of
            Inr t \<Rightarrow> Inr (truncate_preview t)
          | Inl _ \<Rightarrow> Inr (lit ''<invalid frame>'')))))"

definition frame_preview_by_id ::
  "(bytes \<Rightarrow> bytes option) \<Rightarrow> (u64 \<Rightarrow> ustr) \<Rightarrow> 'z store_scheme \<Rightarrow> frame_id \<Rightarrow> ustr res" where
  "frame_preview_by_id unzstd secs s fid =
     (case frame_in_range s fid of Inl e \<Rightarrow> Inl e | Inr fr \<Rightarrow> frame_preview unzstd secs s fr)"

definition frame_text_by_id :: "(bytes \<Rightarrow> bytes option) \<Rightarrow> 'z store_scheme \<Rightarrow> frame_id \<Rightarrow> ustr res" where
  "frame_text_by_id unzstd s fid =
     (case frame_in_range s fid of Inl e \<Rightarrow> Inl e | Inr fr \<Rightarrow> frame_content unzstd s fr)"

text \<open>\<open>matches(needle).count()\<close>: disjoint occurrences, from the left.\<close>

function count_matches :: "ustr \<Rightarrow> ustr \<Rightarrow> nat" where
  "count_matches needle s =
     (if needle = [] then length s + 1
      else if s = [] then 0
      else if starts_with s needle then Suc (count_matches needle (drop (length needle) s))
      else count_matches needle (tl s))"
  by pat_completeness auto
termination
  by (relation "measure (\<lambda>(n, s). length s)") (auto simp: neq_Nil_conv)

declare count_matches.simps [simp del]

definition frame_context ::
  "(bytes \<Rightarrow> bytes option) \<Rightarrow> (u64 \<Rightarrow> ustr) \<Rightarrow> (ustr \<Rightarrow> ustr) \<Rightarrow> 'z store_scheme \<Rightarrow> frame_id \<Rightarrow> ustr
     \<Rightarrow> (ustr \<times> nat) res" where
  "frame_context unzstd secs lower s fid query =
     (case frame_in_range s fid of Inl e \<Rightarrow> Inl e | Inr fr \<Rightarrow>
      case frame_preview unzstd secs s fr of Inl e \<Rightarrow> Inl e | Inr preview \<Rightarrow>
      case frame_content unzstd s fr of Inl e \<Rightarrow> Inl e | Inr content \<Rightarrow>
      Inr (preview, sum_list (map (\<lambda>tok. count_matches (lower tok) (lower content))
        (filter (\<lambda>tok. tok \<noteq> []) (split_whitespace query)))))"

section \<open>Chunk context\<close>

record chunk_info =
  ci_start :: nat
  ci_end :: nat
  ci_text :: ustr

definition own_context :: "(bytes \<Rightarrow> bytes option) \<Rightarrow> 'z store_scheme \<Rightarrow> frame \<Rightarrow> chunk_info res" where
  "own_context unzstd s fr =
     (case search_text fr of
        Some t \<Rightarrow> Inr \<lparr>ci_start = 0, ci_end = byte_len t, ci_text = t\<rparr>
      | None \<Rightarrow> (case frame_canonical_bytes unzstd s fr of Inl e \<Rightarrow> Inl e
         | Inr b \<Rightarrow> Inr \<lparr>ci_start = 0, ci_end = length b, ci_text = from_utf8_lossy b\<rparr>))"

definition parent_context ::
  "(bytes \<Rightarrow> bytes option) \<Rightarrow> 'z store_scheme \<Rightarrow> frame \<Rightarrow> chunk_info option" where
  "parent_context unzstd s fr =
     (case parent_id fr of None \<Rightarrow> None | Some pid \<Rightarrow>
      case nth_opt (frames s) (unat pid) of None \<Rightarrow> None | Some par \<Rightarrow>
      if chunk_manifest par = None then None else
      case document_chunk_payloads unzstd s par of Inl _ \<Rightarrow> None | Inr payloads \<Rightarrow>
      case chunk_index fr of None \<Rightarrow> None | Some i \<Rightarrow>
      if unat i < length payloads then
        (let offset = sum_list (map (length \<circ> snd) (take (unat i) payloads));
             b = snd (payloads ! unat i) in
         Some \<lparr>ci_start = offset, ci_end = offset + length b, ci_text = from_utf8_lossy b\<rparr>)
      else None)"

definition resolve_chunk_context ::
  "(bytes \<Rightarrow> bytes option) \<Rightarrow> 'z store_scheme \<Rightarrow> frame \<Rightarrow> chunk_info res" where
  "resolve_chunk_context unzstd s fr =
     (case role fr of
        Document \<Rightarrow>
          if chunk_manifest fr \<noteq> None then
            (case document_chunk_payloads unzstd s fr of Inl e \<Rightarrow> Inl e
             | Inr [] \<Rightarrow> Inl (InvalidFrame (id_of fr) ''document chunk manifest missing payloads'')
             | Inr (p # _) \<Rightarrow>
                 Inr \<lparr>ci_start = 0, ci_end = length (snd p), ci_text = from_utf8_lossy (snd p)\<rparr>)
          else own_context unzstd s fr
      | DocumentChunk \<Rightarrow>
          (case parent_context unzstd s fr of Some ci \<Rightarrow> Inr ci | None \<Rightarrow> own_context unzstd s fr)
      | ExtractedImage \<Rightarrow> Inr \<lparr>ci_start = 0, ci_end = 0, ci_text = []\<rparr>)"

section \<open>Blob reader\<close>

text \<open>A reader over the payload: a window of the file, or decoded bytes in memory with the
  cursor of \<open>io::Cursor\<close>.  \<open>blob_seek\<close> and \<open>blob_read\<close> return the moved reader; a file
  read returns what the file has behind the position.\<close>

datatype blob_reader = Blob_File u64 u64 u64 | Blob_Memory bytes nat

datatype seek_from = Seek_Start u64 | Seek_End i64 | Seek_Current i64

definition blob_len :: "blob_reader \<Rightarrow> nat" where
  "blob_len r = (case r of Blob_File st len pos \<Rightarrow> unat len | Blob_Memory b pos \<Rightarrow> length b)"

definition blob_read :: "bytes \<Rightarrow> blob_reader \<Rightarrow> nat \<Rightarrow> blob_reader \<times> bytes res" where
  "blob_read file r n =
     (case r of
        Blob_File st len pos \<Rightarrow>
          (let remaining = unat len - unat pos in
           if remaining = 0 then (r, Inr [])
           else (case checked_add st pos of
               None \<Rightarrow> (r, Inl (Panic ''attempt to add with overflow''))
             | Some at \<Rightarrow>
                 (let to_read = min remaining n; got = bslice file (unat at) to_read in
                  (Blob_File st len (pos + of_nat (length got)), Inr got))))
      | Blob_Memory b pos \<Rightarrow>
          (let got = bslice b pos n in (Blob_Memory b (pos + length got), Inr got)))"

definition checked_target :: "int \<Rightarrow> i64 \<Rightarrow> u64 res" where
  "checked_target base delta =
     (let result = base + sint delta in
      if result < - (2 ^ 63) \<or> 2 ^ 63 \<le> result then Inl (Io_InvalidInput ''seek overflow'')
      else if result < 0 then Inl (Io_InvalidInput ''seek before start'')
      else Inr (word_of_int result))"

definition cursor_target :: "nat \<Rightarrow> i64 \<Rightarrow> nat res" where
  "cursor_target base delta =
     (let result = int base + sint delta in
      if result < 0 \<or> 2 ^ 64 \<le> result
      then Inl (Io_InvalidInput ''invalid seek to a negative or overflowing position'')
      else Inr (nat result))"

definition blob_seek :: "blob_reader \<Rightarrow> seek_from \<Rightarrow> blob_reader \<times> nat res" where
  "blob_seek r position =
     (case r of
        Blob_File st len pos \<Rightarrow>
          (case (case position of
                   Seek_Start off \<Rightarrow> Inr off
                 | Seek_End delta \<Rightarrow> checked_target (sint len) delta
                 | Seek_Current delta \<Rightarrow> checked_target (sint pos) delta) of
             Inl e \<Rightarrow> (r, Inl e)
           | Inr absolute \<Rightarrow>
               if len < absolute then (r, Inl (Io_InvalidInput ''seek beyond end''))
               else (case checked_add st absolute of
                   None \<Rightarrow> (Blob_File st len absolute, Inl (Panic ''attempt to add with overflow''))
                 | Some _ \<Rightarrow> (Blob_File st len absolute, Inr (unat absolute))))
      | Blob_Memory b pos \<Rightarrow>
          (case (case position of
                   Seek_Start off \<Rightarrow> Inr (unat off)
                 | Seek_End delta \<Rightarrow> cursor_target (length b) delta
                 | Seek_Current delta \<Rightarrow> cursor_target pos delta) of
             Inl e \<Rightarrow> (r, Inl e)
           | Inr p \<Rightarrow> (Blob_Memory b p, Inr p)))"

definition blob_reader_from_frame :: "(bytes \<Rightarrow> bytes option) \<Rightarrow> 'z store_scheme \<Rightarrow> frame \<Rightarrow> blob_reader res" where
  "blob_reader_from_frame unzstd s fr =
     (case encoding fr of
        Plain \<Rightarrow> Inr (Blob_File (payload_offset fr) (payload_length fr) 0)
      | Zstd \<Rightarrow> (case frame_canonical_bytes unzstd s fr of
          Inl e \<Rightarrow> Inl e | Inr b \<Rightarrow> Inr (Blob_Memory b 0)))"

definition blob_reader :: "(bytes \<Rightarrow> bytes option) \<Rightarrow> 'z store_scheme \<Rightarrow> frame_id \<Rightarrow> blob_reader res" where
  "blob_reader unzstd s fid =
     (case frame_by_id s fid of Inl e \<Rightarrow> Inl e | Inr fr \<Rightarrow> blob_reader_from_frame unzstd s fr)"

definition blob_reader_by_uri :: "(bytes \<Rightarrow> bytes option) \<Rightarrow> 'z store_scheme \<Rightarrow> ustr \<Rightarrow> blob_reader res" where
  "blob_reader_by_uri unzstd s u =
     (case frame_by_uri s u of Inl e \<Rightarrow> Inl e | Inr fr \<Rightarrow> blob_reader_from_frame unzstd s fr)"

section \<open>Timeline\<close>

record timeline_entry =
  te_frame_id :: frame_id
  te_timestamp :: i64
  te_preview :: ustr
  te_uri :: "ustr option"
  te_children :: "frame_id list"

text \<open>The entries to show: the time index with the extracted images it misses behind it, or
  all active frames.\<close>

definition timeline_source :: "'z store_scheme \<Rightarrow> time_entry list res" where
  "timeline_source s =
     (case time_manifest s of
        Some m \<Rightarrow> (case read_track (sfile s) (unat (fst m)) (unat (snd m)) of
          Inl e \<Rightarrow> Inl e
        | Inr indexed \<Rightarrow> Inr (indexed @
            map (\<lambda>fr. \<lparr>timestamp = ftimestamp fr, frame_id = id_of fr\<rparr>)
              (filter (\<lambda>fr. status fr = Active \<and> role fr = ExtractedImage \<and>
                 id_of fr \<notin> frame_id ` set indexed) (frames s))))
      | None \<Rightarrow> Inr (map (\<lambda>fr. \<lparr>timestamp = ftimestamp fr, frame_id = id_of fr\<rparr>)
          (filter (\<lambda>fr. status fr = Active) (frames s))))"

definition in_window :: "timeline_query \<Rightarrow> time_entry \<Rightarrow> bool" where
  "in_window q e =
     ((case since q of None \<Rightarrow> True | Some t \<Rightarrow> sint t \<le> sint (timestamp e)) \<and>
      (case until q of None \<Rightarrow> True | Some t \<Rightarrow> sint (timestamp e) \<le> sint t))"

definition timeline_entry_of ::
  "(bytes \<Rightarrow> bytes option) \<Rightarrow> (u64 \<Rightarrow> ustr) \<Rightarrow> 'z store_scheme \<Rightarrow> frame \<Rightarrow> timeline_entry res" where
  "timeline_entry_of unzstd secs s fr =
     (case frame_preview unzstd secs s fr of Inl e \<Rightarrow> Inl e | Inr p \<Rightarrow>
      Inr \<lparr>te_frame_id = id_of fr, te_timestamp = ftimestamp fr, te_preview = p,
        te_uri = Some (case furi fr of Some u \<Rightarrow> u | None \<Rightarrow> default_uri (id_of fr)),
        te_children = map id_of (filter (\<lambda>c. status c = Active \<and> parent_id c = Some (id_of fr))
          (frames s))\<rparr>)"

fun timeline_loop ::
  "(bytes \<Rightarrow> bytes option) \<Rightarrow> (u64 \<Rightarrow> ustr) \<Rightarrow> 'z store_scheme \<Rightarrow> time_entry list \<Rightarrow> timeline_entry list res" where
  "timeline_loop unzstd secs s [] = Inr []"
| "timeline_loop unzstd secs s (e # es) =
     (case nth_opt (frames s) (unat (frame_id e)) of
        None \<Rightarrow> timeline_loop unzstd secs s es
      | Some fr \<Rightarrow>
          if status fr \<noteq> Active then timeline_loop unzstd secs s es
          else (case timeline_entry_of unzstd secs s fr of Inl err \<Rightarrow> Inl err | Inr x \<Rightarrow>
                case timeline_loop unzstd secs s es of Inl err \<Rightarrow> Inl err | Inr r \<Rightarrow> Inr (x # r)))"

definition build_timeline ::
  "(bytes \<Rightarrow> bytes option) \<Rightarrow> (u64 \<Rightarrow> ustr) \<Rightarrow> 'z store_scheme \<Rightarrow> timeline_query \<Rightarrow> timeline_entry list res" where
  "build_timeline unzstd secs s q =
     (case timeline_source s of Inl e \<Rightarrow> Inl e | Inr src \<Rightarrow>
      (let kept = filter (in_window q) src;
           entries = (if reverse q then rev kept else kept);
           lim = (case limit q of None \<Rightarrow> length entries | Some n \<Rightarrow> unat n) in
       timeline_loop unzstd secs s (take lim entries)))"

section \<open>Payload reads stay in the data region\<close>

text \<open>The specification of the bounds check, over unbounded naturals.\<close>

definition payload_in_region :: "'z store_scheme \<Rightarrow> frame \<Rightarrow> bool" where
  "payload_in_region s fr \<longleftrightarrow>
     (let off = unat (payload_offset fr); len = unat (payload_length fr);
          wal_end = unat (wal_offset (sheader s)) + unat (wal_size (sheader s)) in
      len = 0 \<or> (len \<le> 256 * 1024 * 1024 \<and> wal_end < 2 ^ 64 \<and> wal_end \<le> off \<and>
        off + len \<le> unat (data_end s) \<and> off + len \<le> length (sfile s)))"

lemma unat_u64_less: "unat (x :: u64) < 2 ^ 64"
  using unsigned_less [of x] by simp

lemma checked_add_u64: "checked_add a (b :: u64) = (if unat a + unat b < 2 ^ 64 then Some (a + b) else None)"
  by (simp add: checked_add_def)

lemma unat_add_u64: "unat a + unat b < 2 ^ 64 \<Longrightarrow> unat (a + b :: u64) = unat a + unat b"
  by (simp add: unat_plus_if')

lemma validate_frame_bounds_iff:
  "(validate_frame_bounds s fr = Inr () \<longleftrightarrow> payload_in_region s fr) \<and>
   (\<not> payload_in_region s fr \<longrightarrow> (\<exists>why. validate_frame_bounds s fr = Inl (InvalidFrame (id_of fr) why)))"
proof -
  define len where "len = unat (payload_length fr)"
  have z: "payload_length fr = 0 \<longleftrightarrow> len = 0" by (simp add: len_def unat_eq_0)
  have m: "MAX_FRAME_BYTES < payload_length fr \<longleftrightarrow> \<not> len \<le> 256 * 1024 * 1024"
    by (simp add: MAX_FRAME_BYTES_def word_less_nat_alt len_def not_le)
  show ?thesis
    using unat_u64_less [of "data_end s"]
    unfolding validate_frame_bounds_def payload_in_region_def Let_def z m checked_add_u64
      len_def [symmetric]
    by (cases "len = 0"; cases "len \<le> 256 * 1024 * 1024")
      (auto simp: unat_add_u64 word_less_nat_alt len_def [symmetric])
qed

lemma payload_read:
  "if payload_in_region s fr
   then read_frame_payload_bytes s fr =
     Inr (bslice (sfile s) (unat (payload_offset fr)) (unat (payload_length fr)))
   else \<exists>why. read_frame_payload_bytes s fr = Inl (InvalidFrame (id_of fr) why)"
proof (cases "payload_in_region s fr")
  case True
  then have "unat (payload_length fr) = 0 \<or>
      unat (payload_offset fr) + unat (payload_length fr) \<le> length (sfile s)"
    by (auto simp: payload_in_region_def Let_def)
  then show ?thesis
    using True validate_frame_bounds_iff [of s fr]
    by (auto simp: read_frame_payload_bytes_def read_exact_def)
next
  case False
  then show ?thesis
    using validate_frame_bounds_iff [of s fr] by (auto simp: read_frame_payload_bytes_def)
qed

text \<open>C18. Reading the payload of a frame succeeds exactly when the payload is empty or lies, with
  at most 256 MiB, behind the write-ahead log and before the ends of the data region and of the
  file, computed without wrap-around; then it returns that slice of the file.  Every refusal is an
  \<open>InvalidFrame\<close> of this frame: no frame of a damaged table of contents makes it read elsewhere,
  run past the file or panic.\<close>

theorem payload_read_exact:
  "if payload_in_region s fr
   then read_frame_payload_bytes s fr =
     Inr (bslice (sfile s) (unat (payload_offset fr)) (unat (payload_length fr)))
   else \<exists>why. read_frame_payload_bytes s fr = Inl (InvalidFrame (id_of fr) why)"
  by (rule payload_read)

section \<open>Chunked documents\<close>

lemma bslice_concat:
  "i < length xss \<Longrightarrow> bslice (concat xss) (sum_list (map length (take i xss))) (length (xss ! i)) = xss ! i"
proof (induction xss arbitrary: i)
  case (Cons xs xss)
  then show ?case by (cases i) (simp_all add: bslice_def)
qed simp

lemma sum_list_take_le:
  "i < length xss \<Longrightarrow>
     sum_list (map length (take i xss)) + length (xss ! i) \<le> length (concat xss)"
proof (induction xss arbitrary: i)
  case (Cons xs xss)
  then show ?case by (cases i) simp_all
qed simp

lemma load_chunks_Inr:
  assumes "load_chunks unzstd s cs = Inr ps" "\<forall>c \<in> set cs. role c = DocumentChunk"
  shows "map fst ps = cs \<and> (\<forall>p \<in> set ps. frame_canonical_bytes unzstd s (fst p) = Inr (snd p))"
  using assms
proof (induction unzstd s cs arbitrary: ps rule: load_chunks.induct)
  case (2 unzstd s c cs)
  from 2(2) obtain raw d r where
    r: "read_frame_payload_bytes s c = Inr raw"
    "decode_canonical_bytes unzstd raw (encoding c) (id_of c) = Inr d"
    "\<not> (case canonical_length c of None \<Rightarrow> False | Some n \<Rightarrow> of_nat (length d) \<noteq> n)"
    "load_chunks unzstd s cs = Inr r" "ps = (c, d) # r"
    by (auto split: sum.splits if_splits)
  moreover have "frame_canonical_bytes unzstd s c = Inr d"
    using r(1-3) 2(3) by (simp add: frame_canonical_bytes_def)
  ultimately show ?case using 2(1) [OF r(1-4)] 2(3) by simp
qed simp

lemma document_chunk_frames_props:
  "c \<in> set (document_chunk_frames s pid) \<longleftrightarrow>
     c \<in> set (frames s) \<and> status c = Active \<and> role c = DocumentChunk \<and> parent_id c = Some pid"
  "sort_key chunk_key (document_chunk_frames s pid) = document_chunk_frames s pid"
  by (auto simp: document_chunk_frames_def intro!: sort_key_id_if_sorted)

lemma document_chunk_payloads_Inr:
  assumes "document_chunk_payloads unzstd s doc = Inr ps"
  shows "map fst ps = document_chunk_frames s (id_of doc) \<and>
    (\<forall>p \<in> set ps. frame_canonical_bytes unzstd s (fst p) = Inr (snd p))"
proof -
  have "load_chunks unzstd s (document_chunk_frames s (id_of doc)) = Inr ps"
    using assms by (auto simp: document_chunk_payloads_def Let_def document_chunk_frames_props(2)
        split: option.splits if_splits)
  then show ?thesis by (rule load_chunks_Inr) (simp add: document_chunk_frames_props(1))
qed

text \<open>A chunk's context lies where its own bytes lie in the document.  When the children of
  a readable chunked document carry the indexes 0, 1, 2, .. and \<open>c\<close> is one of them, then
  \<open>resolve_chunk_context\<close> of \<open>c\<close> returns a range of the document's canonical bytes, the bytes
  of \<open>c\<close> itself are exactly that range, and the text is their decoding.\<close>

theorem chunk_context_slices_document:
  assumes "nth_opt (frames s) (unat pid) = Some doc" "id_of doc = pid" "role doc = Document"
    "chunk_manifest doc \<noteq> None" "frame_canonical_bytes unzstd s doc = Inr b"
    and c: "c \<in> set (document_chunk_frames s pid)"
    and dense: "map chunk_index (document_chunk_frames s pid) = map (\<lambda>k. Some (of_nat k)) [0..<n]"
      "n < 2 ^ 32"
  shows "\<exists>ci d. resolve_chunk_context unzstd s c = Inr ci \<and> frame_canonical_bytes unzstd s c = Inr d \<and>
    ci_end ci \<le> length b \<and> bslice b (ci_start ci) (ci_end ci - ci_start ci) = d \<and>
    ci_text ci = from_utf8_lossy d"
proof -
  obtain ps where ps: "document_chunk_payloads unzstd s doc = Inr ps" and b: "b = concat (map snd ps)"
    using assms(3-5) by (auto simp: frame_canonical_bytes_def split: sum.splits)
  have kids: "map fst ps = document_chunk_frames s pid"
    and own: "\<And>p. p \<in> set ps \<Longrightarrow> frame_canonical_bytes unzstd s (fst p) = Inr (snd p)"
    using document_chunk_payloads_Inr [OF ps] assms(2) by auto
  obtain man where man: "chunk_manifest doc = Some man" using assms(4) by auto
  have "c \<in> fst ` set ps" using c kids by (metis list.set_map)
  then obtain k where k: "k < length ps" "fst (ps ! k) = c" by (auto simp: in_set_conv_nth)
  have len: "length ps = n" using arg_cong [OF kids, of length] arg_cong [OF dense(1), of length] by simp
  have "map chunk_index (map fst ps) ! k = Some (of_nat k)"
    using dense(1) k(1) len unfolding kids by simp
  then have "chunk_index c = Some (of_nat k)" using k by simp
  moreover have u: "unat (of_nat k :: u32) = k" using k len dense(2) by (simp add: unat_of_nat take_bit_eq_mod)
  moreover have "role c = DocumentChunk" "parent_id c = Some pid"
    using c by (simp_all add: document_chunk_frames_props(1))
  ultimately have "resolve_chunk_context unzstd s c =
      Inr \<lparr>ci_start = sum_list (map (length \<circ> snd) (take k ps)),
        ci_end = sum_list (map (length \<circ> snd) (take k ps)) + length (snd (ps ! k)),
        ci_text = from_utf8_lossy (snd (ps ! k))\<rparr>"
    using assms(1) man ps k(1) by (simp add: resolve_chunk_context_def parent_context_def Let_def)
  moreover have "frame_canonical_bytes unzstd s c = Inr (snd (ps ! k))"
    using own [of "ps ! k"] k by simp
  moreover have "sum_list (map (length \<circ> snd) (take k ps)) = sum_list (map length (take k (map snd ps)))"
    by (simp add: take_map)
  ultimately show ?thesis
    using bslice_concat [of k "map snd ps"] sum_list_take_le [of k "map snd ps"] k(1) b by simp
qed

section \<open>Timeline\<close>

lemma timeline_loop_Inr:
  assumes "timeline_loop unzstd secs s es = Inr r"
  shows "length r \<le> length es \<and> (\<forall>x \<in> set r. \<exists>e \<in> set es. \<exists>fr \<in> set (frames s).
    status fr = Active \<and> nth_opt (frames s) (unat (frame_id e)) = Some fr \<and>
    timeline_entry_of unzstd secs s fr = Inr x)"
  using assms
proof (induction unzstd secs s es arbitrary: r rule: timeline_loop.induct)
  case (2 unzstd secs s e es)
  have mem: "nth_opt (frames s) i = Some fr \<Longrightarrow> fr \<in> set (frames s)" for i fr
    by (auto simp: nth_opt_def split: if_splits)
  show ?case
  proof (cases "nth_opt (frames s) (unat (frame_id e))")
    case None
    then show ?thesis using 2 by fastforce
  next
    case (Some fr)
    show ?thesis
    proof (cases "status fr = Active")
      case False
      then show ?thesis using 2(2) [OF Some] 2(4) Some by fastforce
    next
      case True
      then obtain x t where x: "timeline_entry_of unzstd secs s fr = Inr x"
        and t: "timeline_loop unzstd secs s es = Inr t" and r: "r = x # t"
        using 2(4) Some by (auto split: sum.splits)
      have "length t \<le> length es \<and> (\<forall>x \<in> set t. \<exists>e \<in> set es. \<exists>fr \<in> set (frames s).
          status fr = Active \<and> nth_opt (frames s) (unat (frame_id e)) = Some fr \<and>
          timeline_entry_of unzstd secs s fr = Inr x)"
        using 2(3) [OF Some _ x t] True by simp
      then show ?thesis using mem [OF Some] Some True x r by fastforce
    qed
  qed
qed simp

text \<open>Frames know their position and the index agrees with them.\<close>

definition ids_dense :: "frame list \<Rightarrow> bool" where
  "ids_dense fs \<longleftrightarrow> (\<forall>i < length fs. id_of (fs ! i) = of_nat i) \<and> length fs < 2 ^ 64"

definition index_agrees :: "'z store_scheme \<Rightarrow> bool" where
  "index_agrees s \<longleftrightarrow> (\<forall>m es. time_manifest s = Some m \<longrightarrow>
     read_track (sfile s) (unat (fst m)) (unat (snd m)) = Inr es \<longrightarrow>
     (\<forall>e \<in> set es. \<forall>fr. nth_opt (frames s) (unat (frame_id e)) = Some fr \<longrightarrow> ftimestamp fr = timestamp e))"

lemma ids_dense_nth:
  assumes "ids_dense fs" "fr \<in> set fs"
  shows "nth_opt fs (unat (id_of fr)) = Some fr"
proof -
  obtain i where i: "i < length fs" "fs ! i = fr" using assms(2) by (auto simp: in_set_conv_nth)
  then have "unat (of_nat i :: u64) = i" using assms(1)
    by (simp add: ids_dense_def unat_of_nat take_bit_eq_mod)
  with i assms(1) show ?thesis by (auto simp: ids_dense_def nth_opt_def)
qed

lemma timeline_source_agrees:
  assumes "timeline_source s = Inr src" "ids_dense (frames s)" "index_agrees s"
    and "e \<in> set src" "nth_opt (frames s) (unat (frame_id e)) = Some fr"
  shows "ftimestamp fr = timestamp e"
proof (cases "\<exists>f \<in> set (frames s). e = \<lparr>timestamp = ftimestamp f, frame_id = id_of f\<rparr>")
  case True
  then show ?thesis using ids_dense_nth [OF assms(2)] assms(5) by auto
next
  case False
  then obtain m es where m: "time_manifest s = Some m"
    and es: "read_track (sfile s) (unat (fst m)) (unat (snd m)) = Inr es" and "e \<in> set es"
    using assms(1,4) by (auto simp: timeline_source_def split: option.splits sum.splits)
  then show ?thesis using assms(3,5) unfolding index_agrees_def by blast
qed

text \<open>Every entry of a timeline shows an active frame whose own timestamp lies in the
  requested window, and there are at most \<open>limit\<close> of them: for a store whose frame ids are the
  positions (the invariant of the table of contents) and whose time index holds the frames'
  timestamps.\<close>

theorem timeline_sound:
  assumes "build_timeline unzstd secs s q = Inr r" "ids_dense (frames s)" "index_agrees s"
  shows "(\<forall>x \<in> set r. \<exists>fr \<in> set (frames s). status fr = Active \<and> te_frame_id x = id_of fr \<and>
      te_timestamp x = ftimestamp fr \<and>
      in_window q \<lparr>timestamp = ftimestamp fr, frame_id = id_of fr\<rparr>) \<and>
    (\<forall>n. limit q = Some n \<longrightarrow> length r \<le> unat n)"
proof -
  obtain src lim where src: "timeline_source s = Inr src"
    and loop: "timeline_loop unzstd secs s
      (take lim (if reverse q then rev (filter (in_window q) src) else filter (in_window q) src)) = Inr r"
    and lim: "\<And>n. limit q = Some n \<Longrightarrow> lim = unat n"
    using assms(1) by (auto simp: build_timeline_def Let_def split: sum.splits option.splits)
  have "\<exists>fr \<in> set (frames s). status fr = Active \<and> te_frame_id x = id_of fr \<and>
      te_timestamp x = ftimestamp fr \<and> in_window q \<lparr>timestamp = ftimestamp fr, frame_id = id_of fr\<rparr>"
    if "x \<in> set r" for x
  proof -
    obtain e fr where e: "e \<in> set src" "in_window q e" and fr: "fr \<in> set (frames s)"
      "status fr = Active" "nth_opt (frames s) (unat (frame_id e)) = Some fr"
      "timeline_entry_of unzstd secs s fr = Inr x"
      using timeline_loop_Inr [OF loop] \<open>x \<in> set r\<close>
      by (auto dest!: in_set_takeD bspec [where x = x] split: if_splits)
    have "ftimestamp fr = timestamp e" by (rule timeline_source_agrees [OF src assms(2,3) e(1) fr(3)])
    then have "in_window q \<lparr>timestamp = ftimestamp fr, frame_id = id_of fr\<rparr>"
      using e(2) by (auto simp: in_window_def split: option.splits)
    moreover have "te_frame_id x = id_of fr \<and> te_timestamp x = ftimestamp fr"
      using fr(4) by (auto simp: timeline_entry_of_def split: sum.splits)
    ultimately show ?thesis using fr(1,2) by blast
  qed
  moreover have "length r \<le> unat n" if "limit q = Some n" for n
    using timeline_loop_Inr [OF loop] lim [OF that] by auto
  ultimately show ?thesis by blast
qed

section \<open>Examples\<close>

definition ex_doc :: frame where
  "ex_doc = blank_frame\<lparr>ftimestamp := 7, search_text := Some [97],
     chunk_manifest := Some \<lparr>chunk_chars = 2, ranges =
       [\<lparr>range_start = 0, range_end = 2\<rparr>, \<lparr>range_start = 2, range_end = 3\<rparr>]\<rparr>\<rparr>"

definition ex_chunk :: "nat \<Rightarrow> u64 \<Rightarrow> u64 \<Rightarrow> frame" where
  "ex_chunk i off len = blank_frame\<lparr>id_of := of_nat (i + 1), role := DocumentChunk, parent_id := Some 0,
     chunk_index := Some (of_nat i), payload_offset := off, payload_length := len,
     search_text := Some [97]\<rparr>"

definition ex_store :: store where
  "ex_store = \<lparr>sfile = replicate 20 0 @ [97, 98, 99],
     sheader = \<lparr>magic = MAGIC, version = 0, footer_offset = 0, wal_offset = 4, wal_size = 8,
       wal_checkpoint_pos = 0, wal_sequence = 0, toc_checksum = []\<rparr>,
     data_end = 23, frames = [ex_doc, ex_chunk 0 20 2, ex_chunk 1 22 1], time_manifest = None\<rparr>"

lemma ex_store_eval:
  "nth_opt (frames ex_store) (unat 0) = Some ex_doc" "id_of ex_doc = 0" "role ex_doc = Document"
  "chunk_manifest ex_doc \<noteq> None"
  "frame_canonical_bytes (\<lambda>_. None) ex_store ex_doc = Inr [97, 98, 99]"
  "document_chunk_frames ex_store 0 = [ex_chunk 0 20 2, ex_chunk 1 22 1]"
  by code_simp+

theorem chunk_context_slices_document_witness:
  "\<exists>ci d. resolve_chunk_context (\<lambda>_. None) ex_store (ex_chunk 1 22 1) = Inr ci \<and>
    frame_canonical_bytes (\<lambda>_. None) ex_store (ex_chunk 1 22 1) = Inr d \<and>
    ci_end ci \<le> length ([97, 98, 99] :: bytes) \<and>
    bslice [97, 98, 99] (ci_start ci) (ci_end ci - ci_start ci) = d \<and> ci_text ci = from_utf8_lossy d"
  by (rule chunk_context_slices_document [where pid = 0 and doc = ex_doc and n = 2, OF ex_store_eval(1-5)])
    (simp_all add: ex_store_eval(6) ex_chunk_def upt_rec)

lemma ex_timeline_eval:
  "build_timeline (\<lambda>_. None) (\<lambda>_. []) ex_store (default_query\<lparr>since := Some 5\<rparr>) =
     Inr [\<lparr>te_frame_id = 0, te_timestamp = 7, te_preview = [97],
       te_uri = Some (default_uri 0), te_children = [1, 2]\<rparr>]"
  "ids_dense (frames ex_store)" "index_agrees ex_store"
  by (code_simp, auto simp: ids_dense_def index_agrees_def ex_store_def nth_Cons' ex_doc_def
      ex_chunk_def blank_frame_def less_Suc_eq)

theorem timeline_sound_witness:
  "\<exists>fr \<in> set (frames ex_store). status fr = Active \<and> 0 = id_of fr \<and> 7 = ftimestamp fr"
  using timeline_sound [OF ex_timeline_eval] by auto

end
