(* ===== verification/Mutation.thy ===== *)
theory Mutation
  imports Frames Wal
begin

text \<open>
  Applying the write-ahead log to the table of contents (\<open>apply_records\<close> of
  \<open>memvid/mutation.rs\<close>): an insert record writes its payload behind the data region, builds the
  \<open>Frame\<close>, links it to its parent document, hands it to the search engine and supersedes its
  predecessor; a tombstone marks its target deleted; a second pass adopts orphan chunks.

  \<open>memvid\<close> extends the frame store by the fields these operations change; the engines are
  parameters, collected in \<open>env\<close> with the bincode decoders, BLAKE3 and zstd: \<open>'e\<close> is the Tantivy
  engine, \<open>'x\<close> the sketch track with the two in-memory indexes, \<open>'b\<close> a lexical batch.  The
  model is the default feature set: \<open>lex\<close> on, \<open>temporal_track\<close> off.
  An operation that fails returns the state it leaves behind.
\<close>

datatype wal_op = Insert | Tombstone

record wal_entry_data =
  we_timestamp :: i64
  we_kind :: "ustr option"
  we_track :: "ustr option"
  we_payload :: bytes
  we_embedding :: "f32 list option"
  we_uri :: "ustr option"
  we_title :: "ustr option"
  we_encoding :: canonical_encoding
  we_canonical_length :: "u64 option"
  we_metadata :: "doc_metadata option"
  we_search_text :: "ustr option"
  we_tags :: "ustr list"
  we_labels :: "ustr list"
  we_extra_metadata :: str_map
  we_content_dates :: "ustr list"
  we_chunk_manifest :: "text_chunk_manifest option"
  we_role :: frame_role
  we_parent_sequence :: "u64 option"
  we_chunk_index :: "u32 option"
  we_chunk_count :: "u32 option"
  we_op :: wal_op
  we_target :: "frame_id option"
  we_supersedes :: "frame_id option"
  we_reuse_from :: "frame_id option"
  we_source_sha256 :: "bytes option"
  we_source_path :: "ustr option"
  we_enrichment :: enrichment_state

datatype 'b wal_entry = Frame_Entry wal_entry_data | Lex_Entry 'b

record ('e, 'x) memvid = store +
  cached_payload_end :: u64
  tantivy :: "'e option"
  tantivy_dirty :: bool
  aux :: 'x

record ('b, 'e, 'x) env =
  decode_entry :: "bytes \<Rightarrow> 'b wal_entry option"
  decode_legacy :: "bytes \<Rightarrow> wal_entry_data option"
  blake3 :: "bytes \<Rightarrow> bytes"
  unzstd :: "bytes \<Rightarrow> bytes option"
  engine_add :: "'e \<Rightarrow> frame \<Rightarrow> ustr \<Rightarrow> 'e res"
  engine_delete :: "'e \<Rightarrow> frame_id \<Rightarrow> 'e res"
  add_sketch :: "'x \<Rightarrow> frame_id \<Rightarrow> ustr \<Rightarrow> 'x"
  remove_doc :: "'x \<Rightarrow> frame_id \<Rightarrow> 'x"
  apply_lex_wal :: "'b \<Rightarrow> ('e, 'x) memvid \<Rightarrow> ('e, 'x) memvid \<times> unit res"

record ingestion_delta =
  inserted_frames :: "frame_id list"
  inserted_embeddings :: "(frame_id \<times> f32 list) list"
  inserted_time_entries :: "time_entry list"
  mutated_frames :: bool

definition default_delta :: ingestion_delta where
  "default_delta = \<lparr>inserted_frames = [], inserted_embeddings = [], inserted_time_entries = [],
     mutated_frames = False\<rparr>"

definition delta_is_empty :: "ingestion_delta \<Rightarrow> bool" where
  "delta_is_empty d = (inserted_frames d = [] \<and> inserted_embeddings d = [] \<and>
     inserted_time_entries d = [] \<and> \<not> mutated_frames d)"

definition decode_wal_entry :: "('b, 'e, 'x) env \<Rightarrow> bytes \<Rightarrow> 'b wal_entry res" where
  "decode_wal_entry env b =
     (case decode_entry env b of Some e \<Rightarrow> Inr e | None \<Rightarrow>
      (case decode_legacy env b of Some e \<Rightarrow> Inr (Frame_Entry e) | None \<Rightarrow> Inl Decode_Error))"

section \<open>Marking frames\<close>

definition remove_frame_from_indexes ::
  "('b, 'e, 'x) env \<Rightarrow> frame_id \<Rightarrow> ('e, 'x) memvid \<Rightarrow> ('e, 'x) memvid \<times> unit res" where
  "remove_frame_from_indexes env fid m =
     (case tantivy m of
        None \<Rightarrow> (m\<lparr>aux := remove_doc env (aux m) fid\<rparr>, Inr ())
      | Some eng \<Rightarrow> (case engine_delete env eng fid of
          Inl err \<Rightarrow> (m, Inl err)
        | Inr eng' \<Rightarrow> (m\<lparr>tantivy := Some eng', tantivy_dirty := True,
              aux := remove_doc env (aux m) fid\<rparr>, Inr ())))"

definition mark_frame_superseded ::
  "('b, 'e, 'x) env \<Rightarrow> frame_id \<Rightarrow> frame_id \<Rightarrow> ('e, 'x) memvid \<Rightarrow> ('e, 'x) memvid \<times> unit res" where
  "mark_frame_superseded env fid successor m =
     (case nth_opt (frames m) (unat fid) of
        None \<Rightarrow> (m, Inl (InvalidFrame fid ''supersede target missing''))
      | Some fr \<Rightarrow> remove_frame_from_indexes env fid
          (m\<lparr>frames := (frames m)[unat fid := fr\<lparr>status := Superseded, superseded_by := Some successor\<rparr>]\<rparr>))"

definition mark_frame_deleted ::
  "('b, 'e, 'x) env \<Rightarrow> frame_id \<Rightarrow> ('e, 'x) memvid \<Rightarrow> ('e, 'x) memvid \<times> unit res" where
  "mark_frame_deleted env fid m =
     (case nth_opt (frames m) (unat fid) of
        None \<Rightarrow> (m, Inl (InvalidFrame fid ''delete target missing''))
      | Some fr \<Rightarrow> remove_frame_from_indexes env fid
          (m\<lparr>frames := (frames m)[unat fid := fr\<lparr>status := Deleted, superseded_by := None\<rparr>]\<rparr>))"

definition frame_is_active :: "'z store_scheme \<Rightarrow> frame_id \<Rightarrow> bool" where
  "frame_is_active s fid = (case nth_opt (frames s) (unat fid) of None \<Rightarrow> False | Some fr \<Rightarrow> status fr = Active)"

section \<open>Inserting a frame\<close>

text \<open>Where the payload goes: the slice of the reused source, or the bytes written at the cursor.
  The result is the moved cursor with offset, length, checksum and canonical length.\<close>

definition place_payload ::
  "('b, 'e, 'x) env \<Rightarrow> ('e, 'x) memvid \<Rightarrow> u64 \<Rightarrow> frame_id \<Rightarrow> wal_entry_data
     \<Rightarrow> ('e, 'x) memvid \<times> (u64 \<times> u64 \<times> u64 \<times> bytes \<times> u64) res" where
  "place_payload env m cursor fid e =
     (case we_reuse_from e of
        Some src_id \<Rightarrow>
          if we_payload e \<noteq> []
          then (m, Inl (InvalidFrame src_id ''reused payload entry contained inline bytes''))
          else (case nth_opt (frames m) (unat src_id) of
            None \<Rightarrow> (m, Inl (InvalidFrame src_id ''reused payload source missing''))
          | Some src \<Rightarrow> (m, Inr (cursor, payload_offset src, payload_length src, fchecksum src,
              (case we_canonical_length e of Some n \<Rightarrow> n | None \<Rightarrow>
                (case canonical_length src of Some n \<Rightarrow> n | None \<Rightarrow> payload_length src)))))
      | None \<Rightarrow>
          (let m1 = m\<lparr>sfile := write_at (sfile m) (unat cursor) (we_payload e)\<rparr>;
               len = (of_nat (length (we_payload e)) :: u64) in
           case (case we_canonical_length e of Some n \<Rightarrow> Inr n | None \<Rightarrow>
                   if we_encoding e = Zstd then
                     (case decode_canonical_bytes (unzstd env) (we_payload e) Zstd fid of
                        Inl err \<Rightarrow> Inl err | Inr d \<Rightarrow> Inr (of_nat (length d)))
                   else Inr len) of
             Inl err \<Rightarrow> (m1, Inl err)
           | Inr canonical \<Rightarrow>
               (case checked_add cursor len of
                  None \<Rightarrow> (m1, Inl (Panic ''attempt to add with overflow''))
                | Some cursor' \<Rightarrow>
                    (m1\<lparr>cached_payload_end := max (cached_payload_end m) cursor'\<rparr>,
                     Inr (cursor', cursor, len, blake3 env (we_payload e), canonical)))))"

definition build_frame :: "frame_id \<Rightarrow> wal_entry_data \<Rightarrow> u64 \<Rightarrow> u64 \<Rightarrow> bytes \<Rightarrow> u64 \<Rightarrow> frame" where
  "build_frame fid e off len checksum canonical =
     (let u = (case we_uri e of Some u \<Rightarrow> u | None \<Rightarrow> default_uri fid) in
      \<lparr>id_of = fid, ftimestamp = we_timestamp e, anchor_ts = None, anchor_src = None,
       fkind = we_kind e, ftrack = we_track e, payload_offset = off, payload_length = len,
       fchecksum = checksum, furi = Some u,
       ftitle = (case we_title e of Some t \<Rightarrow> Some t | None \<Rightarrow> infer_title_from_uri u),
       encoding = we_encoding e, canonical_length = Some canonical, metadata = we_metadata e,
       search_text = we_search_text e, tags = we_tags e, labels = we_labels e,
       extra_metadata = we_extra_metadata e, content_dates = we_content_dates e,
       chunk_manifest = we_chunk_manifest e, role = we_role e, parent_id = None,
       chunk_index = we_chunk_index e, chunk_count_of = we_chunk_count e, status = Active,
       supersedes = we_supersedes e, superseded_by = None, source_sha256 = we_source_sha256 e,
       source_path = we_source_path e, enrichment = we_enrichment e\<rparr>)"

definition can_adopt :: "frame list \<Rightarrow> frame_id \<Rightarrow> bool" where
  "can_adopt fs cand = (case nth_opt fs (unat cand) of
     None \<Rightarrow> False | Some c \<Rightarrow> role c = Document \<and> chunk_manifest c \<noteq> None)"

definition first_pass_parent ::
  "(u64 \<rightharpoonup> frame_id) \<Rightarrow> frame_id list \<Rightarrow> frame list \<Rightarrow> wal_entry_data \<Rightarrow> frame_id option" where
  "first_pass_parent seqs inserted fs e =
     (case we_parent_sequence e of None \<Rightarrow> None | Some ps \<Rightarrow>
      (case seqs ps of Some pid \<Rightarrow> Some pid | None \<Rightarrow>
       if we_role e = DocumentChunk then find (can_adopt fs) (rev inserted) else None))"

definition index_frame ::
  "('b, 'e, 'x) env \<Rightarrow> frame \<Rightarrow> wal_entry_data \<Rightarrow> ('e, 'x) memvid \<Rightarrow> ('e, 'x) memvid \<times> unit res" where
  "index_frame env fr e m =
     (case tantivy m of None \<Rightarrow> (m, Inr ()) | Some eng \<Rightarrow>
      (case (case we_search_text e of
               Some t \<Rightarrow> Inr (if trim t = [] then None else Some t)
             | None \<Rightarrow> (case frame_content (unzstd env) m fr of Inl err \<Rightarrow> Inl err | Inr t \<Rightarrow> Inr (Some t))) of
         Inl err \<Rightarrow> (m, Inl err)
       | Inr None \<Rightarrow> (m, Inr ())
       | Inr (Some t) \<Rightarrow> (case engine_add env eng fr t of
           Inl err \<Rightarrow> (m, Inl err)
         | Inr eng' \<Rightarrow>
             (m\<lparr>tantivy := Some eng', tantivy_dirty := True,
                aux := (if trim t \<noteq> [] then add_sketch env (aux m) (id_of fr) t else aux m)\<rparr>, Inr ()))))"

definition record_insert :: "wal_entry_data \<Rightarrow> frame_id \<Rightarrow> ingestion_delta \<Rightarrow> ingestion_delta" where
  "record_insert e fid d =
     d\<lparr>inserted_embeddings := inserted_embeddings d @
          (case we_embedding e of None \<Rightarrow> [] | Some v \<Rightarrow> [(fid, v)]),
       inserted_time_entries := inserted_time_entries d @
          (if we_role e = Document then [\<lparr>timestamp = we_timestamp e, frame_id = fid\<rparr>] else []),
       inserted_frames := inserted_frames d @ [fid]\<rparr>"

type_synonym progress = "ingestion_delta \<times> u64 \<times> (u64 \<rightharpoonup> frame_id)"

definition apply_insert ::
  "('b, 'e, 'x) env \<Rightarrow> u64 \<Rightarrow> wal_entry_data \<Rightarrow> ('e, 'x) memvid \<Rightarrow> progress
     \<Rightarrow> ('e, 'x) memvid \<times> progress res" where
  "apply_insert env sq e m p =
     (case p of (delta, cursor, seqs) \<Rightarrow>
      let fid = of_nat (length (frames m)) in
      case place_payload env m cursor fid e of
        (m1, Inl err) \<Rightarrow> (m1, Inl err)
      | (m1, Inr (cursor', off, len, checksum, canonical)) \<Rightarrow>
          (let fr = (build_frame fid e off len checksum canonical)
                      \<lparr>parent_id := first_pass_parent seqs (inserted_frames delta) (frames m1) e\<rparr> in
           case index_frame env fr e m1 of
             (m2, Inl err) \<Rightarrow> (m2, Inl err)
           | (m2, Inr _) \<Rightarrow>
               (case (case supersedes fr of None \<Rightarrow> (m2, Inr ())
                      | Some pred_id \<Rightarrow> mark_frame_superseded env pred_id fid m2) of
                  (m3, Inl err) \<Rightarrow> (m3, Inl err)
                | (m3, Inr _) \<Rightarrow>
                    (m3\<lparr>frames := frames m3 @ [fr]\<rparr>,
                     Inr (record_insert e fid delta, cursor', seqs(sq \<mapsto> fid))))))"

section \<open>The loop over the records\<close>

definition apply_record ::
  "('b, 'e, 'x) env \<Rightarrow> wal_record \<Rightarrow> ('e, 'x) memvid \<Rightarrow> progress \<Rightarrow> ('e, 'x) memvid \<times> progress res" where
  "apply_record env r m p =
     (case decode_wal_entry env (rec_payload r) of
        Inl err \<Rightarrow> (m, Inl err)
      | Inr (Lex_Entry b) \<Rightarrow> (case apply_lex_wal env b m of
          (m1, Inl err) \<Rightarrow> (m1, Inl err) | (m1, Inr _) \<Rightarrow> (m1, Inr p))
      | Inr (Frame_Entry e) \<Rightarrow> (case we_op e of
          Insert \<Rightarrow> apply_insert env (rec_sequence r) e m p
        | Tombstone \<Rightarrow> (case we_target e of
            None \<Rightarrow> (m, Inl (InvalidFrame 0 ''tombstone missing frame reference''))
          | Some target \<Rightarrow> (case mark_frame_deleted env target m of
              (m1, Inl err) \<Rightarrow> (m1, Inl err)
            | (m1, Inr _) \<Rightarrow> (m1, Inr ((fst p)\<lparr>mutated_frames := True\<rparr>, snd p))))))"

fun apply_loop ::
  "('b, 'e, 'x) env \<Rightarrow> wal_record list \<Rightarrow> ('e, 'x) memvid \<Rightarrow> progress \<Rightarrow> ('e, 'x) memvid \<times> progress res" where
  "apply_loop env [] m p = (m, Inr p)"
| "apply_loop env (r # rs) m p =
     (case apply_record env r m p of
        (m1, Inl err) \<Rightarrow> (m1, Inl err)
      | (m1, Inr p1) \<Rightarrow> apply_loop env rs m1 p1)"

text \<open>The second pass: an inserted chunk without a parent goes to the nearest active document
  with a manifest before it.\<close>

definition is_orphan_chunk :: "frame list \<Rightarrow> frame_id \<Rightarrow> bool" where
  "is_orphan_chunk fs fid = (case nth_opt fs (unat fid) of
     None \<Rightarrow> False | Some fr \<Rightarrow> role fr = DocumentChunk \<and> parent_id fr = None)"

definition orphan_resolutions :: "frame list \<Rightarrow> frame_id list \<Rightarrow> (frame_id \<times> frame_id) list" where
  "orphan_resolutions fs inserted =
     concat (map (\<lambda>fid. if \<not> is_orphan_chunk fs fid then [] else
       (case find (\<lambda>c. can_adopt fs c \<and> (case nth_opt fs (unat c) of None \<Rightarrow> False | Some fr \<Rightarrow> status fr = Active))
               (rev (map of_nat [0..<unat fid])) of
          None \<Rightarrow> [] | Some c \<Rightarrow> [(fid, c)])) inserted)"

definition apply_resolutions :: "(frame_id \<times> frame_id) list \<Rightarrow> frame list \<Rightarrow> frame list" where
  "apply_resolutions rs fs =
     fold (\<lambda>(c, par) fs. case nth_opt fs (unat c) of None \<Rightarrow> fs
        | Some fr \<Rightarrow> fs[unat c := fr\<lparr>parent_id := Some par\<rparr>]) rs fs"

definition apply_records ::
  "('b, 'e, 'x) env \<Rightarrow> wal_record list \<Rightarrow> ('e, 'x) memvid \<Rightarrow> ('e, 'x) memvid \<times> ingestion_delta res" where
  "apply_records env recs m =
     (if recs = [] then (m, Inr default_delta)
      else (case apply_loop env recs m (default_delta, data_end m, Map.empty) of
        (m1, Inl err) \<Rightarrow> (m1, Inl err)
      | (m1, Inr (delta, cursor, seqs)) \<Rightarrow>
          (m1\<lparr>data_end := max (data_end m1) cursor,
              frames := apply_resolutions (orphan_resolutions (frames m1) (inserted_frames delta)) (frames m1)\<rparr>,
           Inr delta)))"

end
