(* ===== verification/Toc_Invariant.thy ===== *)
theory Toc_Invariant
  imports Mutation
begin

text \<open>
  The invariant of the table of contents under \<open>apply_records\<close>: frame ids are the positions and
  a frame's parent is an earlier frame.  It depends on \<open>links\<close> only, so the operations that
  leave ids and parents alone need one equation each.
\<close>

named_theorems links_simps \<open>operations that keep the links\<close>

definition links :: "frame list \<Rightarrow> (frame_id \<times> frame_id option) list" where
  "links fs = map (\<lambda>fr. (id_of fr, parent_id fr)) fs"

definition links_wf :: "(frame_id \<times> frame_id option) list \<Rightarrow> bool" where
  "links_wf ls \<longleftrightarrow> length ls < 2 ^ 64 \<and>
     (\<forall>i < length ls. fst (ls ! i) = of_nat i \<and> (\<forall>p. snd (ls ! i) = Some p \<longrightarrow> unat p < i))"

definition toc_wf :: "frame list \<Rightarrow> bool" where
  "toc_wf fs \<longleftrightarrow> links_wf (links fs)"

lemma length_links [simp]: "length (links fs) = length fs"
  by (simp add: links_def)

lemma links_update [links_simps]:
  assumes "nth_opt fs i = Some fr" "id_of fr' = id_of fr" "parent_id fr' = parent_id fr"
  shows "links (fs[i := fr']) = links fs"
proof -
  from assms(1) have "i < length fs" "fr = fs ! i" by (auto simp: nth_opt_def split: if_splits)
  with assms(2,3) show ?thesis
    by (simp add: links_def map_update list_update_same_conv)
qed

lemma links_wf_snoc:
  "links_wf ls \<Longrightarrow> Suc (length ls) < 2 ^ 64 \<Longrightarrow> (\<forall>p. par = Some p \<longrightarrow> unat p < length ls) \<Longrightarrow>
     links_wf (ls @ [(of_nat (length ls), par)])"
  by (auto simp: links_wf_def nth_append less_Suc_eq)

lemma links_wf_update:
  "links_wf ls \<Longrightarrow> i < length ls \<Longrightarrow> unat p < i \<Longrightarrow> links_wf (ls[i := (fst (ls ! i), Some p)])"
  by (auto simp: links_wf_def nth_list_update)

lemma toc_wf_imp_ids_dense: "toc_wf fs \<Longrightarrow> ids_dense fs"
  by (auto simp: toc_wf_def links_wf_def ids_dense_def links_def)

section \<open>What each operation does to the links\<close>

lemma frames_remove_frame [links_simps]: "frames (fst (remove_frame_from_indexes env fid m)) = frames m"
  by (auto simp: remove_frame_from_indexes_def split: option.splits sum.splits)

lemma links_mark_superseded [links_simps]:
  "links (frames (fst (mark_frame_superseded env fid q m))) = links (frames m)"
  by (cases "nth_opt (frames m) (unat fid)")
    (simp_all add: mark_frame_superseded_def links_simps)

lemma links_mark_deleted [links_simps]:
  "links (frames (fst (mark_frame_deleted env fid m))) = links (frames m)"
  by (cases "nth_opt (frames m) (unat fid)")
    (simp_all add: mark_frame_deleted_def links_simps)

lemma frames_index_frame [links_simps]: "frames (fst (index_frame env fr e m)) = frames m"
  by (auto simp: index_frame_def split: option.splits sum.splits)

lemma frames_place_payload [links_simps]: "frames (fst (place_payload env m c fid e)) = frames m"
  by (auto simp: place_payload_def Let_def split: option.splits sum.splits)

lemma build_frame_simps [simp]:
  "id_of (build_frame fid e off len cs n) = fid" "parent_id (build_frame fid e off len cs n) = None"
  "supersedes (build_frame fid e off len cs n) = we_supersedes e"
  by (simp_all add: build_frame_def Let_def)

text \<open>The record of the batch points into the table of contents.\<close>

definition progress_ok :: "nat \<Rightarrow> progress \<Rightarrow> bool" where
  "progress_ok n p \<longleftrightarrow> (\<forall>fid \<in> set (inserted_frames (fst p)). unat fid < n) \<and>
     (\<forall>q fid. snd (snd p) q = Some fid \<longrightarrow> unat fid < n)"

lemma first_pass_parent_bound:
  assumes "progress_ok n (d, c, seqs)" "first_pass_parent seqs (inserted_frames d) fs e = Some p"
  shows "unat p < n"
  using assms by (auto simp: progress_ok_def first_pass_parent_def find_Some_iff split: option.splits if_splits)
    (metis length_rev nth_mem set_rev)

text \<open>One record: success appends at most one frame with well-formed links, failure none.\<close>

lemma apply_insert_links:
  assumes "apply_insert env sq e m p = (m', r)" "progress_ok (length (frames m)) p"
  shows "(\<exists>err. r = Inl err \<and> links (frames m') = links (frames m)) \<or>
    (\<exists>p' par. r = Inr p' \<and> links (frames m') = links (frames m) @ [(of_nat (length (frames m)), par)] \<and>
      (\<forall>q. par = Some q \<longrightarrow> unat q < length (frames m)) \<and>
      (Suc (length (frames m)) < 2 ^ 64 \<longrightarrow> progress_ok (Suc (length (frames m))) p'))"
proof -
  obtain delta cursor seqs where p: "p = (delta, cursor, seqs)" by (cases p) auto
  let ?fid = "of_nat (length (frames m)) :: u64"
  obtain m1 r1 where pp: "place_payload env m cursor ?fid e = (m1, r1)" by (cases "place_payload env m cursor ?fid e")
  have f1: "frames m1 = frames m" using frames_place_payload [of env m cursor ?fid e] pp by simp
  show ?thesis
  proof (cases r1)
    case (Inl err)
    then show ?thesis using assms(1) pp f1 by (auto simp: apply_insert_def p Let_def)
  next
    case (Inr x)
    obtain c' off len cs canon where x: "x = (c', off, len, cs, canon)" by (cases x) auto
    let ?par = "first_pass_parent seqs (inserted_frames delta) (frames m1) e"
    let ?fr = "(build_frame ?fid e off len cs canon)\<lparr>parent_id := ?par\<rparr>"
    obtain m2 r2 where ix: "index_frame env ?fr e m1 = (m2, r2)" by (cases "index_frame env ?fr e m1")
    have f2: "frames m2 = frames m" using frames_index_frame [of env ?fr e m1] ix f1 by simp
    obtain m3 r3 where mk: "(case supersedes ?fr of None \<Rightarrow> (m2, Inr ())
        | Some q \<Rightarrow> mark_frame_superseded env q ?fid m2) = (m3, r3)"
      by (cases "case supersedes ?fr of None \<Rightarrow> (m2, Inr ())
        | Some q \<Rightarrow> mark_frame_superseded env q ?fid m2")
    have f3: "links (frames m3) = links (frames m)"
      using mk f2 links_mark_superseded [of env _ ?fid m2] by (auto split: option.splits) (metis fst_conv)
    have par: "unat q < length (frames m)" if "?par = Some q" for q
      using first_pass_parent_bound [OF _ that] assms(2) p by simp
    have step: "apply_insert env sq e m p = (case r2 of Inl err \<Rightarrow> (m2, Inl err) | Inr _ \<Rightarrow>
        (case r3 of Inl err \<Rightarrow> (m3, Inl err) | Inr _ \<Rightarrow>
          (m3\<lparr>frames := frames m3 @ [?fr]\<rparr>,
           Inr (record_insert e ?fid delta, c', seqs(sq \<mapsto> ?fid)))))"
      using pp ix mk by (simp add: apply_insert_def p Let_def Inr x split: sum.splits)
    have prog: "progress_ok (Suc (length (frames m))) (record_insert e ?fid delta, c', seqs(sq \<mapsto> ?fid))"
      if "Suc (length (frames m)) < 2 ^ 64"
      using assms(2) p that
      by (auto simp: progress_ok_def record_insert_def unat_of_nat take_bit_eq_mod less_Suc_eq)
    show ?thesis
      using step assms(1) f2 f3 par prog by (auto simp: links_def split: sum.splits)
  qed
qed

section \<open>The loop and the second pass\<close>

text \<open>What is asked of the parameter for lexical batches: it does not touch the frames.\<close>

definition lex_keeps_frames :: "('b, 'e, 'x) env \<Rightarrow> bool" where
  "lex_keeps_frames env \<longleftrightarrow> (\<forall>b m. frames (fst (apply_lex_wal env b m)) = frames m)"

lemma progress_ok_mono: "progress_ok n p \<Longrightarrow> n \<le> n' \<Longrightarrow> progress_ok n' p"
  by (auto simp: progress_ok_def intro: less_le_trans)

lemma apply_record_links:
  assumes "apply_record env r m p = (m', res)" "lex_keeps_frames env"
    and "toc_wf (frames m)" "progress_ok (length (frames m)) p" "Suc (length (frames m)) < 2 ^ 64"
  shows "toc_wf (frames m') \<and> length (frames m') \<le> Suc (length (frames m)) \<and>
    (\<forall>p'. res = Inr p' \<longrightarrow> progress_ok (length (frames m')) p')"
proof -
  have same: ?thesis if "links (frames m') = links (frames m)" and keep: "\<forall>p'. res = Inr p' \<longrightarrow> fst (snd p') = fst (snd p) \<and>
      snd (snd p') = snd (snd p) \<and> inserted_frames (fst p') = inserted_frames (fst p)"
  proof -
    have len: "length (frames m') = length (frames m)" using arg_cong [OF that(1), of length] by simp
    moreover have "toc_wf (frames m')" using assms(3) that(1) by (simp add: toc_wf_def)
    moreover have "progress_ok (length (frames m')) p'" if "res = Inr p'" for p'
      using assms(4) keep [rule_format, OF that] len by (simp add: progress_ok_def)
    ultimately show ?thesis by simp
  qed
  show ?thesis
  proof (cases "decode_wal_entry env (rec_payload r)")
    case (Inl err)
    then show ?thesis using assms(1) by (intro same) (auto simp: apply_record_def)
  next
    case (Inr x)
    show ?thesis
    proof (cases x)
      case (Lex_Entry b)
      have "frames m' = frames m \<and> (\<forall>p'. res = Inr p' \<longrightarrow> p' = p)"
        using assms(1,2) Inr Lex_Entry
        by (auto simp: apply_record_def lex_keeps_frames_def split: sum.splits prod.splits)
          (metis fst_conv)+
      then show ?thesis by (intro same) auto
    next
      case (Frame_Entry e)
      show ?thesis
      proof (cases "we_op e")
        case Insert
        then have "apply_insert env (rec_sequence r) e m p = (m', res)"
          using assms(1) Inr Frame_Entry by (simp add: apply_record_def)
        from apply_insert_links [OF this assms(4)] show ?thesis
        proof (elim disjE exE conjE)
          fix p' par
          assume p': "res = Inr p'" and l: "links (frames m') = links (frames m) @ [(of_nat (length (frames m)), par)]"
            and par: "\<forall>q. par = Some q \<longrightarrow> unat q < length (frames m)"
            and ok: "Suc (length (frames m)) < 2 ^ 64 \<longrightarrow> progress_ok (Suc (length (frames m))) p'"
          have "length (frames m') = Suc (length (frames m))" using arg_cong [OF l, of length] by simp
          moreover have "toc_wf (frames m')"
            using links_wf_snoc [of "links (frames m)" par] assms(3,5) par l by (simp add: toc_wf_def)
          ultimately show ?thesis using ok assms(5) p' by simp
        qed (intro same; simp)
      next
        case Tombstone
        have "links (frames m') = links (frames m) \<and> (\<forall>p'. res = Inr p' \<longrightarrow>
            p' = ((fst p)\<lparr>mutated_frames := True\<rparr>, snd p))"
        proof (cases "we_target e")
          case None
          then show ?thesis using assms(1) Inr Frame_Entry Tombstone by (auto simp: apply_record_def)
        next
          case (Some t)
          then show ?thesis
            using assms(1) Inr Frame_Entry Tombstone links_mark_deleted [of env t m]
            by (cases "mark_frame_deleted env t m") (auto simp: apply_record_def split: sum.splits)
        qed
        then show ?thesis by (intro same) auto
      qed
    qed
  qed
qed

lemma apply_loop_links:
  assumes "apply_loop env rs m p = (m', res)" "lex_keeps_frames env"
    and "toc_wf (frames m)" "progress_ok (length (frames m)) p" "length (frames m) + length rs < 2 ^ 64"
  shows "toc_wf (frames m') \<and> length (frames m') \<le> length (frames m) + length rs \<and>
    (\<forall>p'. res = Inr p' \<longrightarrow> progress_ok (length (frames m')) p')"
  using assms
proof (induction env rs m p arbitrary: m' res rule: apply_loop.induct)
  case (2 env r rs m p)
  obtain m1 r1 where step: "apply_record env r m p = (m1, r1)" by (cases "apply_record env r m p")
  from apply_record_links [OF step 2(3-5)] 2(6)
  have one: "toc_wf (frames m1)" "length (frames m1) \<le> Suc (length (frames m))"
    "\<And>p'. r1 = Inr p' \<Longrightarrow> progress_ok (length (frames m1)) p'" by auto
  show ?case
  proof (cases r1)
    case (Inl err)
    then show ?thesis using 2(2) step one(1,2) by auto
  next
    case (Inr p1)
    then have "apply_loop env rs m1 p1 = (m', res)" using 2(2) step by simp
    from 2(1) [OF step [symmetric] Inr this 2(3) one(1) one(3) [OF Inr]] one(2) 2(6)
    show ?thesis by auto
  qed
qed auto

lemma orphan_resolutions_earlier:
  assumes "(c, par) \<in> set (orphan_resolutions fs ids)"
  shows "unat par < unat c"
proof -
  obtain P where "find P (rev (map of_nat [0..<unat c])) = Some par"
    using assms by (auto simp: orphan_resolutions_def split: if_splits option.splits)
  then have "par \<in> set (rev (map of_nat [0..<unat c]))"
    by (metis find_Some_iff nth_mem)
  then obtain j where j: "par = of_nat j" "j < unat c" by auto
  have "unat (of_nat j :: u64) \<le> j" by (simp add: unat_of_nat take_bit_eq_mod)
  with j show ?thesis by simp
qed

lemma apply_resolutions_wf:
  assumes "toc_wf fs" "\<forall>(c, par) \<in> set rs. unat par < unat c"
  shows "toc_wf (apply_resolutions rs fs) \<and> length (apply_resolutions rs fs) = length fs"
  using assms
proof (induction rs arbitrary: fs)
  case Nil
  then show ?case by (simp add: apply_resolutions_def)
next
  case (Cons x rs)
  obtain c par where x: "x = (c, par)" by (cases x)
  let ?fs = "case nth_opt fs (unat c) of None \<Rightarrow> fs | Some fr \<Rightarrow> fs[unat c := fr\<lparr>parent_id := Some par\<rparr>]"
  have "toc_wf ?fs \<and> length ?fs = length fs"
  proof (cases "nth_opt fs (unat c)")
    case (Some fr)
    then have c: "unat c < length fs" "fr = fs ! unat c" by (auto simp: nth_opt_def split: if_splits)
    have "links ?fs = (links fs)[unat c := (fst (links fs ! unat c), Some par)]"
      using Some c by (simp add: links_def map_update)
    then show ?thesis
      using Cons(2,3) x c Some links_wf_update [of "links fs" "unat c" par] by (simp add: toc_wf_def)
  qed (use Cons(2) in simp)
  moreover have "apply_resolutions (x # rs) fs = apply_resolutions rs ?fs"
    by (simp add: apply_resolutions_def x)
  ultimately show ?case using Cons(1) [of ?fs] Cons(3) by simp
qed

lemma apply_records_wf:
  assumes "lex_keeps_frames env" "toc_wf (frames m)" "length (frames m) + length recs < 2 ^ 64"
  shows "toc_wf (frames (fst (apply_records env recs m)))"
proof (cases "recs = []")
  case True
  then show ?thesis using assms(2) by (simp add: apply_records_def)
next
  case False
  obtain m1 r1 where loop: "apply_loop env recs m (default_delta, data_end m, Map.empty) = (m1, r1)"
    by (cases "apply_loop env recs m (default_delta, data_end m, Map.empty)")
  have "toc_wf (frames m1)"
    using apply_loop_links [OF loop assms(1,2) _ assms(3)] by (simp add: default_delta_def progress_ok_def)
  then show ?thesis
    using False loop apply_resolutions_wf [of "frames m1"] orphan_resolutions_earlier [of _ _ "frames m1"]
    by (auto simp: apply_records_def split: sum.splits prod.splits)
qed

section \<open>Reachable tables of contents\<close>

text \<open>A memory file starts without frames; every commit or recovery applies the pending records,
  and may fail half-way.\<close>

inductive reachable :: "('b, 'e, 'x) env \<Rightarrow> ('e, 'x) memvid \<Rightarrow> bool" for env where
  created: "frames m = [] \<Longrightarrow> reachable env m"
| committed: "reachable env m \<Longrightarrow> length (frames m) + length recs < 2 ^ 64 \<Longrightarrow>
    reachable env (fst (apply_records env recs m))"
| elsewhere: "reachable env m \<Longrightarrow> frames m' = frames m \<Longrightarrow> reachable env m'"

text \<open>C4. In every table of contents that commits and recoveries can build, also half-way through
  a failing one, the id of a frame is its position and its parent is an earlier frame: so
  \<open>frame_by_id\<close> returns the frame with that id, and following parents ends.\<close>

theorem reachable_toc_wf:
  assumes "reachable env m" "lex_keeps_frames env"
  shows "ids_dense (frames m) \<and>
    (\<forall>fr \<in> set (frames m). frame_by_id m (id_of fr) = Inr fr \<and>
       (\<forall>p. parent_id fr = Some p \<longrightarrow> unat p < unat (id_of fr)))"
proof -
  have wf: "toc_wf (frames m)"
    using assms(1)
  proof induction
    case (created m)
    then show ?case by (simp add: toc_wf_def links_wf_def links_def)
  next
    case (committed m recs)
    then show ?case using apply_records_wf [OF assms(2)] by blast
  qed simp
  then have dense: "ids_dense (frames m)" by (rule toc_wf_imp_ids_dense)
  have "frame_by_id m (id_of fr) = Inr fr \<and> (\<forall>p. parent_id fr = Some p \<longrightarrow> unat p < unat (id_of fr))"
    if "fr \<in> set (frames m)" for fr
  proof -
    have n: "nth_opt (frames m) (unat (id_of fr)) = Some fr" by (rule ids_dense_nth [OF dense that])
    then have i: "unat (id_of fr) < length (frames m)" "frames m ! unat (id_of fr) = fr"
      by (auto simp: nth_opt_def split: if_splits)
    then show ?thesis using n wf by (auto simp: frame_by_id_def toc_wf_def links_wf_def links_def)
  qed
  with dense show ?thesis by blast
qed

text \<open>An instance: a document with a manifest and an orphan chunk, which the second pass adopts.\<close>

definition blank_entry :: wal_entry_data where
  "blank_entry = \<lparr>we_timestamp = 0, we_kind = None, we_track = None, we_payload = [], we_embedding = None,
     we_uri = None, we_title = None, we_encoding = Plain, we_canonical_length = None, we_metadata = None,
     we_search_text = None, we_tags = [], we_labels = [], we_extra_metadata = [], we_content_dates = [],
     we_chunk_manifest = None, we_role = Document, we_parent_sequence = None, we_chunk_index = None,
     we_chunk_count = None, we_op = Insert, we_target = None, we_supersedes = None, we_reuse_from = None,
     we_source_sha256 = None, we_source_path = None, we_enrichment = Enriched\<rparr>"

definition toy_env :: "(unit, unit, unit) env" where
  "toy_env =
     \<lparr>decode_entry = (\<lambda>b. Some (Frame_Entry (if b = [] then
          blank_entry\<lparr>we_chunk_manifest := Some \<lparr>chunk_chars = 1, ranges = []\<rparr>\<rparr>
        else blank_entry\<lparr>we_role := DocumentChunk, we_payload := b\<rparr>))),
      decode_legacy = (\<lambda>_. None), blake3 = (\<lambda>_. []), unzstd = Some,
      engine_add = (\<lambda>_ _ _. Inr ()), engine_delete = (\<lambda>_ _. Inr ()), add_sketch = (\<lambda>_ _ _. ()),
      remove_doc = (\<lambda>_ _. ()), apply_lex_wal = (\<lambda>_ m. (m, Inr ()))\<rparr>"

definition toy_mem :: "(unit, unit) memvid" where
  "toy_mem = \<lparr>sfile = [], sheader = \<lparr>magic = [], version = 0, footer_offset = 0, wal_offset = 0, wal_size = 0,
       wal_checkpoint_pos = 0, wal_sequence = 0, toc_checksum = []\<rparr>,
     data_end = 0, frames = [], time_manifest = None, cached_payload_end = 0, tantivy = None,
     tantivy_dirty = False, aux = ()\<rparr>"

definition toy_records :: "wal_record list" where
  "toy_records = [\<lparr>rec_sequence = 1, rec_payload = []\<rparr>, \<lparr>rec_sequence = 2, rec_payload = [7]\<rparr>]"

lemma toy_links: "links (frames (fst (apply_records toy_env toy_records toy_mem))) = [(0, None), (1, Some 0)]"
  by code_simp

theorem reachable_toc_wf_witness:
  "let fs = frames (fst (apply_records toy_env toy_records toy_mem)) in
     length fs = 2 \<and> ids_dense fs \<and> parent_id (fs ! 1) = Some 0"
proof -
  have r: "reachable toy_env (fst (apply_records toy_env toy_records toy_mem))"
    by (intro reachable.committed reachable.created) (simp_all add: toy_mem_def toy_records_def)
  have "lex_keeps_frames toy_env" by (simp add: lex_keeps_frames_def toy_env_def)
  with reachable_toc_wf [OF r] have d: "ids_dense (frames (fst (apply_records toy_env toy_records toy_mem)))" by blast
  have len: "length (frames (fst (apply_records toy_env toy_records toy_mem))) = 2"
    using arg_cong [OF toy_links, of length] by simp
  have "parent_id (frames (fst (apply_records toy_env toy_records toy_mem)) ! 1) = Some 0"
    using arg_cong [OF toy_links, of "\<lambda>l. snd (l ! 1)"] len by (simp add: links_def)
  with d len show ?thesis by (simp add: Let_def)
qed

end
