(* ===== verification/Put_Plan.thy ===== *)
theory Put_Plan
  imports Chunks Toc_Invariant
begin

text \<open>
  From a document to its log records: the parts of \<open>put_internal\<close> (\<open>memvid/mutation.rs\<close>) that
  choose what is stored and build the entries of the document and of its chunks, the payload
  preparation, and the search text.  The end-to-end theorem joins the chunk planner, these
  entries, \<open>apply_records\<close> and the reading side of the frame store.
  Parameters: \<open>zst\<close> is \<open>zstd::encode_all\<close> with its level, \<open>json\<close> is \<open>serde_json::to_string\<close> of the
  document metadata, \<open>nfkc\<close> and \<open>graphemes\<close> as in \<open>Text_Norm\<close>.
\<close>

definition DEFAULT_SEARCH_TEXT_LIMIT :: nat where "DEFAULT_SEARCH_TEXT_LIMIT = 32768"

definition prepare_canonical_payload_with_level ::
  "(int \<Rightarrow> bytes \<Rightarrow> bytes option) \<Rightarrow> bytes \<Rightarrow> int \<Rightarrow> (bytes \<times> canonical_encoding \<times> u64 option) res" where
  "prepare_canonical_payload_with_level zst payload lvl =
     (if lvl = 0 then Inr (payload, Plain, Some (of_nat (length payload)))
      else if from_utf8 payload \<noteq> None then
        (case zst lvl payload of
           None \<Rightarrow> Inl (Io_Other ''zstd'')
         | Some c \<Rightarrow> Inr (c, Zstd, Some (of_nat (length payload))))
      else Inr (payload, Plain, Some (of_nat (length payload))))"

definition prepare_canonical_payload ::
  "(int \<Rightarrow> bytes \<Rightarrow> bytes option) \<Rightarrow> bytes \<Rightarrow> (bytes \<times> canonical_encoding \<times> u64 option) res" where
  "prepare_canonical_payload zst payload = prepare_canonical_payload_with_level zst payload 3"

fun merge_loop :: "ustr set \<Rightarrow> ustr list \<Rightarrow> ustr list \<Rightarrow> ustr list" where
  "merge_loop seen target [] = target"
| "merge_loop seen target (v # vs) =
     (let t = trim v in
      if t = [] then merge_loop seen target vs
      else if t \<in> seen then merge_loop seen target vs
      else merge_loop (insert t seen) (target @ [t]) vs)"

definition merge_unique :: "ustr list \<Rightarrow> ustr list \<Rightarrow> ustr list" where
  "merge_unique target additions =
     (if additions = [] then target else merge_loop (set target) target additions)"

definition labelled :: "string \<Rightarrow> ustr option \<Rightarrow> ustr list" where
  "labelled name s = (case non_blank s of None \<Rightarrow> [] | Some t \<Rightarrow> [lit name @ t])"

definition augment_search_text ::
  "(doc_metadata \<Rightarrow> ustr option) \<Rightarrow> ustr option \<Rightarrow> ustr option \<Rightarrow> ustr option \<Rightarrow> ustr option
     \<Rightarrow> ustr list \<Rightarrow> ustr list \<Rightarrow> str_map \<Rightarrow> ustr list \<Rightarrow> doc_metadata option \<Rightarrow> ustr option" where
  "augment_search_text json base u title track tgs lbs extra dates meta =
     (let segs = labelled '''' base @ labelled ''title: '' title @ labelled ''uri: '' u @
            labelled ''track: '' track @
            (if tgs = [] then [] else [lit ''tags: '' @ join [32] tgs]) @
            (if lbs = [] then [] else [lit ''labels: '' @ join [32] lbs]) @
            map (\<lambda>(k, v). k @ lit '': '' @ v) (filter (\<lambda>(k, v). trim v \<noteq> []) extra) @
            (if dates = [] then [] else [lit ''dates: '' @ join [32] dates]) @
            (case meta of None \<Rightarrow> [] | Some d \<Rightarrow>
              (case json d of None \<Rightarrow> [] | Some j \<Rightarrow> [lit ''metadata: '' @ j]))
      in if segs = [] then None else Some (join [10] segs))"

text \<open>What is stored in the document frame itself: nothing for a chunked text or with \<open>no_raw\<close>
  (then the BLAKE3 hash of the bytes), the prepared payload, or a reference to the reused frame.
  The result is payload, encoding, canonical length, reused frame and source hash.\<close>

definition choose_storage ::
  "(bytes \<Rightarrow> bytes) \<Rightarrow> (int \<Rightarrow> bytes \<Rightarrow> bytes option) \<Rightarrow> int \<Rightarrow> bool \<Rightarrow> bool \<Rightarrow> bytes option \<Rightarrow> frame option
     \<Rightarrow> (bytes \<times> canonical_encoding \<times> u64 option \<times> frame_id option \<times> bytes option) res" where
  "choose_storage hash zst lvl has_plan no_raw payload reuse =
     (if has_plan then Inr ([], Plain, Some 0, None, None)
      else if no_raw then
        (case payload of
           Some b \<Rightarrow> Inr ([], Plain, Some 0, None, Some (hash b))
         | None \<Rightarrow> Inl (InvalidFrame 0 ''payload required for --no-raw mode''))
      else (case payload of
        Some b \<Rightarrow> (case prepare_canonical_payload_with_level zst b lvl of
            Inl err \<Rightarrow> Inl err
          | Inr (p, enc, len) \<Rightarrow> Inr (p, enc, len, None, None))
      | None \<Rightarrow> (case reuse of
          Some fr \<Rightarrow> Inr ([], encoding fr, canonical_length fr, Some (id_of fr), None)
        | None \<Rightarrow> Inl (InvalidFrame 0 ''payload required for frame insertion''))))"

section \<open>The log entries of a document\<close>

text \<open>The attributes that the document and its chunks share, after tagging.\<close>

record put_attrs =
  pa_timestamp :: i64
  pa_kind :: "ustr option"
  pa_track :: "ustr option"
  pa_uri :: "ustr option"
  pa_title :: "ustr option"
  pa_metadata :: "doc_metadata option"
  pa_tags :: "ustr list"
  pa_labels :: "ustr list"
  pa_extra :: str_map
  pa_dates :: "ustr list"

definition chunk_search_text ::
  "(ustr \<Rightarrow> ustr) \<Rightarrow> (ustr \<Rightarrow> ustr list) \<Rightarrow> ustr \<Rightarrow> ustr option" where
  "chunk_search_text nfkc graphemes t =
     (case normalize_text nfkc graphemes t DEFAULT_SEARCH_TEXT_LIMIT of
        None \<Rightarrow> None
      | Some n \<Rightarrow> if trim (norm_text n) = [] then None else Some (norm_text n))"

definition u32_or_0 :: "nat \<Rightarrow> u32" where
  "u32_or_0 n = (if n < 2 ^ 32 then of_nat n else 0)"

definition chunk_entry ::
  "(int \<Rightarrow> bytes \<Rightarrow> bytes option) \<Rightarrow> (ustr \<Rightarrow> ustr option) \<Rightarrow> put_attrs \<Rightarrow> f32 list list option
     \<Rightarrow> u32 \<Rightarrow> nat \<Rightarrow> ustr \<Rightarrow> wal_entry_data res" where
  "chunk_entry zst stext at embs tot idx t =
     (case prepare_canonical_payload zst (utf8_encode t) of
        Inl err \<Rightarrow> Inl err
      | Inr (p, enc, len) \<Rightarrow> Inr
          \<lparr>we_timestamp = pa_timestamp at, we_kind = pa_kind at, we_track = pa_track at,
           we_payload = p,
           we_embedding = (case embs of None \<Rightarrow> None | Some es \<Rightarrow> nth_opt es idx),
           we_uri = map_option (\<lambda>u. u @ lit ''#page-'' @ dec_str (idx + 1)) (pa_uri at),
           we_title = map_option (\<lambda>ti. ti @ lit '' (page '' @ dec_str (idx + 1) @ lit ''/'' @
             dec_str (unat tot) @ lit '')'') (pa_title at),
           we_encoding = enc, we_canonical_length = len, we_metadata = pa_metadata at,
           we_search_text = stext t, we_tags = pa_tags at, we_labels = pa_labels at,
           we_extra_metadata = pa_extra at, we_content_dates = pa_dates at,
           we_chunk_manifest = None, we_role = DocumentChunk, we_parent_sequence = None,
           we_chunk_index = Some (u32_or_0 idx), we_chunk_count = Some tot, we_op = Insert,
           we_target = None, we_supersedes = None, we_reuse_from = None, we_source_sha256 = None,
           we_source_path = None, we_enrichment = Enriched\<rparr>)"

fun chunk_entries ::
  "(int \<Rightarrow> bytes \<Rightarrow> bytes option) \<Rightarrow> (ustr \<Rightarrow> ustr option) \<Rightarrow> put_attrs \<Rightarrow> f32 list list option
     \<Rightarrow> u32 \<Rightarrow> nat \<Rightarrow> ustr list \<Rightarrow> wal_entry_data list res" where
  "chunk_entries zst stext at embs tot idx [] = Inr []"
| "chunk_entries zst stext at embs tot idx (t # ts) =
     (case chunk_entry zst stext at embs tot idx t of Inl err \<Rightarrow> Inl err | Inr e \<Rightarrow>
      case chunk_entries zst stext at embs tot (idx + 1) ts of Inl err \<Rightarrow> Inl err | Inr es \<Rightarrow>
      Inr (e # es))"

text \<open>The search text of a document with a plan is the normalised first chunk.\<close>

definition parent_search_text :: "(ustr \<Rightarrow> ustr option) \<Rightarrow> document_chunk_plan option \<Rightarrow> ustr option \<Rightarrow> ustr option" where
  "parent_search_text stext plan base =
     (case plan of None \<Rightarrow> base | Some pl \<Rightarrow>
      (case plan_chunks pl of [] \<Rightarrow> base | c # _ \<Rightarrow>
       (case stext c of None \<Rightarrow> base | Some t \<Rightarrow> Some t)))"

definition parent_sequence_of :: "frame list \<Rightarrow> frame_id option \<Rightarrow> u64 option" where
  "parent_sequence_of fs pid =
     (case pid of None \<Rightarrow> None | Some p \<Rightarrow>
      (case nth_opt fs (unat p) of None \<Rightarrow> None | Some _ \<Rightarrow> Some (p + 2)))"

definition document_entry ::
  "(ustr \<Rightarrow> ustr option) \<Rightarrow> put_attrs \<Rightarrow> f32 list option \<Rightarrow> ustr option \<Rightarrow> document_chunk_plan option
     \<Rightarrow> (bytes \<times> canonical_encoding \<times> u64 option \<times> frame_id option \<times> bytes option)
     \<Rightarrow> frame_role \<Rightarrow> u64 option \<Rightarrow> frame_id option \<Rightarrow> ustr option \<Rightarrow> enrichment_state \<Rightarrow> wal_entry_data" where
  "document_entry stext at emb base plan storage rl pseq prev path enr =
     (case storage of (p, enc, len, reuse, sha) \<Rightarrow>
        \<lparr>we_timestamp = pa_timestamp at, we_kind = pa_kind at, we_track = pa_track at,
         we_payload = p, we_embedding = emb, we_uri = pa_uri at, we_title = pa_title at,
         we_encoding = enc, we_canonical_length = len, we_metadata = pa_metadata at,
         we_search_text = parent_search_text stext plan base, we_tags = pa_tags at,
         we_labels = pa_labels at, we_extra_metadata = pa_extra at, we_content_dates = pa_dates at,
         we_chunk_manifest = map_option manifest plan, we_role = rl, we_parent_sequence = pseq,
         we_chunk_index = None,
         we_chunk_count = map_option (\<lambda>pl. u32_or_0 (length (plan_chunks pl))) plan,
         we_op = Insert, we_target = None, we_supersedes = prev, we_reuse_from = reuse,
         we_source_sha256 = sha, we_source_path = path, we_enrichment = enr\<rparr>)"

text \<open>The records as they are appended: the document first, then the chunks with its sequence
  number as their parent's; \<open>enc\<close> is the bincode encoder.\<close>

definition put_records ::
  "(wal_entry_data \<Rightarrow> bytes) \<Rightarrow> u64 \<Rightarrow> wal_entry_data \<Rightarrow> wal_entry_data list \<Rightarrow> wal_record list" where
  "put_records enc sq doc kids =
     \<lparr>rec_sequence = sq, rec_payload = enc doc\<rparr> #
     map (\<lambda>i. \<lparr>rec_sequence = sq + of_nat (i + 1),
               rec_payload = enc ((kids ! i)\<lparr>we_parent_sequence := Some sq\<rparr>)\<rparr>) [0..<length kids]"

end
