(* ===== verification/Put_Commit.thy ===== *)
theory Put_Commit
  imports Put_Plan
begin

text \<open>
  A chunked document from \<open>put\<close> to \<open>read\<close>: what \<open>apply_records\<close> makes of the records of a
  document and its chunks, and what the frame store reads from the result.
\<close>

section \<open>Applying one insert\<close>

text \<open>When the search engine cannot refuse the entry: there is none (bulk ingestion), or it
  accepts everything and the entry brings its search text.\<close>

definition indexable :: "('b, 'e, 'x) env \<Rightarrow> ('e, 'x) memvid \<Rightarrow> wal_entry_data \<Rightarrow> bool" where
  "indexable env m e \<longleftrightarrow> tantivy m = None \<or>
     ((\<forall>eng fr t. \<exists>eng'. engine_add env eng fr t = Inr eng') \<and> we_search_text e \<noteq> None)"

definition same_region :: "('e, 'x) memvid \<Rightarrow> ('e, 'x) memvid \<Rightarrow> bool" where
  "same_region m m' \<longleftrightarrow> sheader m' = sheader m \<and> data_end m' = data_end m \<and>
     (tantivy m' = None \<longleftrightarrow> tantivy m = None)"

lemma same_region_trans: "same_region a b \<Longrightarrow> same_region b c \<Longrightarrow> same_region a c"
  by (simp add: same_region_def)

lemma indexable_same_region: "same_region m m' \<Longrightarrow> indexable env m' e = indexable env m e"
  by (simp add: indexable_def same_region_def)

lemma index_frame_ok:
  assumes "indexable env m e"
  shows "\<exists>m'. index_frame env fr e m = (m', Inr ()) \<and> same_region m m' \<and>
    frames m' = frames m \<and> sfile m' = sfile m"
proof (cases "tantivy m")
  case None
  then show ?thesis by (simp add: index_frame_def same_region_def)
next
  case (Some eng)
  then obtain t where t: "we_search_text e = Some t" using assms by (auto simp: indexable_def)
  have "\<exists>eng'. engine_add env eng fr t = Inr eng'" using assms Some by (simp add: indexable_def)
  then obtain eng' where "engine_add env eng fr t = Inr eng'" by blast
  with Some t show ?thesis by (auto simp: index_frame_def same_region_def)
qed

definition fresh_entry :: "wal_entry_data \<Rightarrow> bool" where
  "fresh_entry e \<longleftrightarrow> we_op e = Insert \<and> we_reuse_from e = None \<and> we_supersedes e = None \<and>
     we_canonical_length e \<noteq> None"

definition inserted_frame ::
  "(bytes \<Rightarrow> bytes) \<Rightarrow> nat \<Rightarrow> nat \<Rightarrow> frame_id option \<Rightarrow> wal_entry_data \<Rightarrow> frame" where
  "inserted_frame hash n c par e =
     (build_frame (of_nat n) e (of_nat c) (of_nat (length (we_payload e))) (hash (we_payload e))
        (the (we_canonical_length e)))\<lparr>parent_id := par\<rparr>"

lemma unat_of_nat_u64: "n < 2 ^ 64 \<Longrightarrow> unat (of_nat n :: u64) = n"
  by (simp add: unat_of_nat take_bit_eq_mod)

lemma apply_insert_fresh:
  assumes "fresh_entry e" "indexable env m e" "c + length (we_payload e) < 2 ^ 64"
  shows "\<exists>m'. apply_insert env sq e m (d, of_nat c, seqs) =
      (m', Inr (record_insert e (of_nat (length (frames m))) d, of_nat (c + length (we_payload e)),
         seqs(sq \<mapsto> of_nat (length (frames m))))) \<and>
    same_region m m' \<and> sfile m' = write_at (sfile m) c (we_payload e) \<and>
    frames m' = frames m @ [inserted_frame (blake3 env) (length (frames m)) c
      (first_pass_parent seqs (inserted_frames d) (frames m) e) e]"
proof -
  let ?fid = "of_nat (length (frames m)) :: u64"
  obtain n where n: "we_canonical_length e = Some n" using assms(1) by (auto simp: fresh_entry_def)
  have c: "unat (of_nat c :: u64) = c" "unat (of_nat (length (we_payload e)) :: u64) = length (we_payload e)"
    using assms(3) by (simp_all add: unat_of_nat_u64)
  then have add: "checked_add (of_nat c :: u64) (of_nat (length (we_payload e))) = Some (of_nat (c + length (we_payload e)))"
    using assms(3) by (simp add: checked_add_def)
  define m1 where "m1 = m\<lparr>sfile := write_at (sfile m) c (we_payload e),
    cached_payload_end := max (cached_payload_end m) (of_nat (c + length (we_payload e)))\<rparr>"
  have pp: "place_payload env m (of_nat c) ?fid e = (m1, Inr (of_nat (c + length (we_payload e)), of_nat c,
      of_nat (length (we_payload e)), blake3 env (we_payload e), n))"
    using assms(1) n add c by (simp add: place_payload_def fresh_entry_def Let_def m1_def)
  have r1: "same_region m m1" by (simp add: m1_def same_region_def)
  define fr where "fr = (build_frame ?fid e (of_nat c) (of_nat (length (we_payload e)))
    (blake3 env (we_payload e)) n)\<lparr>parent_id := first_pass_parent seqs (inserted_frames d) (frames m1) e\<rparr>"
  obtain m2 where m2: "index_frame env fr e m1 = (m2, Inr ())" "same_region m1 m2"
    "frames m2 = frames m1" "sfile m2 = sfile m1"
    using index_frame_ok [of env m1 e fr] assms(2) indexable_same_region [OF r1] by auto
  have "supersedes fr = None" using assms(1) by (simp add: fr_def fresh_entry_def)
  then have "apply_insert env sq e m (d, of_nat c, seqs) =
      (m2\<lparr>frames := frames m2 @ [fr]\<rparr>,
       Inr (record_insert e ?fid d, of_nat (c + length (we_payload e)), seqs(sq \<mapsto> ?fid)))"
    using pp m2(1) by (simp add: apply_insert_def Let_def fr_def)
  moreover have "same_region m (m2\<lparr>frames := frames m2 @ [fr]\<rparr>)"
    using same_region_trans [OF r1 m2(2)] by (simp add: same_region_def)
  ultimately show ?thesis
    using m2(3,4) n by (simp add: m1_def fr_def inserted_frame_def)
qed

section \<open>The chunks\<close>

definition kid_entry :: "u64 \<Rightarrow> wal_entry_data \<Rightarrow> bool" where
  "kid_entry sq e \<longleftrightarrow> fresh_entry e \<and> we_role e = DocumentChunk \<and> we_parent_sequence e = Some sq"

fun kid_frames :: "(bytes \<Rightarrow> bytes) \<Rightarrow> frame_id \<Rightarrow> nat \<Rightarrow> nat \<Rightarrow> wal_entry_data list \<Rightarrow> frame list" where
  "kid_frames hash pid n c [] = []"
| "kid_frames hash pid n c (e # es) =
     inserted_frame hash n c (Some pid) e # kid_frames hash pid (Suc n) (c + length (we_payload e)) es"

abbreviation payloads :: "wal_entry_data list \<Rightarrow> bytes" where
  "payloads es \<equiv> concat (map we_payload es)"

lemma length_kid_frames [simp]: "length (kid_frames hash pid n c es) = length es"
  by (induction es arbitrary: n c) simp_all

lemma apply_record_fresh:
  "decode_wal_entry env (rec_payload r) = Inr (Frame_Entry e) \<Longrightarrow> fresh_entry e \<Longrightarrow>
     apply_record env r m p = apply_insert env (rec_sequence r) e m p"
  by (simp add: apply_record_def fresh_entry_def)

lemma apply_loop_kids:
  assumes "list_all2 (\<lambda>r e. decode_wal_entry env (rec_payload r) = Inr (Frame_Entry e)) rs es"
    and "\<forall>e \<in> set es. kid_entry sq e \<and> indexable env m e"
    and "\<forall>r \<in> set rs. rec_sequence r \<noteq> sq" "seqs sq = Some pid"
    and "c + length (payloads es) < 2 ^ 64" "c \<le> length (sfile m)"
  shows "\<exists>m' d' seqs'. apply_loop env rs m (d, of_nat c, seqs) =
      (m', Inr (d', of_nat (c + length (payloads es)), seqs')) \<and> same_region m m' \<and>
    sfile m' = write_at (sfile m) c (payloads es) \<and>
    frames m' = frames m @ kid_frames (blake3 env) pid (length (frames m)) c es \<and>
    inserted_frames d' = inserted_frames d @ map of_nat [length (frames m)..<length (frames m) + length es]"
  using assms
proof (induction rs es arbitrary: m d c seqs rule: list_all2_induct)
  case Nil
  then show ?case by (auto simp: same_region_def write_at_def)
next
  case (Cons r rs e es)
  let ?l = "length (we_payload e)"
  have e: "fresh_entry e" "indexable env m e" "we_parent_sequence e = Some sq"
    using Cons(4) by (auto simp: kid_entry_def)
  have par: "first_pass_parent seqs (inserted_frames d) (frames m) e = Some pid"
    using e(3) Cons(6) by (simp add: first_pass_parent_def)
  obtain m1 where ins: "apply_insert env (rec_sequence r) e m (d, of_nat c, seqs) =
      (m1, Inr (record_insert e (of_nat (length (frames m))) d, of_nat (c + ?l),
         seqs(rec_sequence r \<mapsto> of_nat (length (frames m)))))"
    and m1: "same_region m m1" "sfile m1 = write_at (sfile m) c (we_payload e)"
      "frames m1 = frames m @ [inserted_frame (blake3 env) (length (frames m)) c (Some pid) e]"
    using apply_insert_fresh [OF e(1,2), of c "rec_sequence r" d seqs] Cons(7) par by auto
  have step: "apply_record env r m (d, of_nat c, seqs) = apply_insert env (rec_sequence r) e m (d, of_nat c, seqs)"
    by (rule apply_record_fresh [OF Cons(1) e(1)])
  let ?d = "record_insert e (of_nat (length (frames m))) d"
  let ?seqs = "seqs(rec_sequence r \<mapsto> of_nat (length (frames m)))"
  have pre: "\<forall>e \<in> set es. kid_entry sq e \<and> indexable env m1 e"
    "\<forall>r \<in> set rs. rec_sequence r \<noteq> sq" "?seqs sq = Some pid"
    "c + ?l + length (payloads es) < 2 ^ 64" "c + ?l \<le> length (sfile m1)"
    using Cons(4-8) indexable_same_region [OF m1(1)] m1(2) by (auto simp: length_write_at)
  obtain m' d' seqs' where rest: "apply_loop env rs m1 (?d, of_nat (c + ?l), ?seqs) =
      (m', Inr (d', of_nat (c + ?l + length (payloads es)), seqs'))" "same_region m1 m'"
    "sfile m' = write_at (sfile m1) (c + ?l) (payloads es)"
    "frames m' = frames m1 @ kid_frames (blake3 env) pid (length (frames m1)) (c + ?l) es"
    "inserted_frames d' = inserted_frames ?d @
       map of_nat [length (frames m1)..<length (frames m1) + length es]"
    using Cons(3) [of m1 ?seqs "c + ?l" ?d, OF pre] by blast
  have "sfile m' = write_at (sfile m) c (payloads (e # es))"
    using rest(3) m1(2) write_at_twice [OF Cons(8)] by simp
  moreover have "inserted_frames d' = inserted_frames d @
      map of_nat [length (frames m)..<length (frames m) + length (e # es)]"
    using rest(5) m1(3) by (simp add: record_insert_def upt_conv_Cons del: upt_Suc)
  ultimately show ?case
    using rest(1,4) ins step m1(3) same_region_trans [OF m1(1) rest(2)]
    by (simp add: add.assoc del: upt_Suc)
qed

section \<open>Reading the chunks back\<close>

text \<open>\<open>b\<close> is what \<open>e\<close>'s payload decodes to.\<close>

definition stored :: "(bytes \<Rightarrow> bytes option) \<Rightarrow> wal_entry_data \<Rightarrow> bytes \<Rightarrow> bool" where
  "stored unz e b \<longleftrightarrow> (\<forall>fid. decode_canonical_bytes unz (we_payload e) (we_encoding e) fid = Inr b) \<and>
     we_canonical_length e = Some (of_nat (length b)) \<and> length (we_payload e) \<le> 256 * 1024 * 1024"

lemma inserted_frame_simps [simp]:
  "id_of (inserted_frame hash n c par e) = of_nat n" "status (inserted_frame hash n c par e) = Active"
  "role (inserted_frame hash n c par e) = we_role e" "parent_id (inserted_frame hash n c par e) = par"
  "chunk_index (inserted_frame hash n c par e) = we_chunk_index e"
  "chunk_manifest (inserted_frame hash n c par e) = we_chunk_manifest e"
  "search_text (inserted_frame hash n c par e) = we_search_text e"
  "encoding (inserted_frame hash n c par e) = we_encoding e"
  "payload_offset (inserted_frame hash n c par e) = of_nat c"
  "payload_length (inserted_frame hash n c par e) = of_nat (length (we_payload e))"
  "canonical_length (inserted_frame hash n c par e) = Some (the (we_canonical_length e))"
  "fchecksum (inserted_frame hash n c par e) = hash (we_payload e)"
  by (simp_all add: inserted_frame_def build_frame_def Let_def)

lemma read_inserted:
  assumes "stored unz e b" "bslice (sfile s) c (length (we_payload e)) = we_payload e"
    and "unat (wal_offset (sheader s)) + unat (wal_size (sheader s)) \<le> c"
      "c + length (we_payload e) \<le> unat (data_end s)" "c + length (we_payload e) \<le> length (sfile s)"
  shows "read_frame_payload_bytes s (inserted_frame hash n c par e) = Inr (we_payload e)"
    "decode_canonical_bytes unz (we_payload e) (we_encoding e) fid = Inr b"
    "of_nat (length b) = (the (we_canonical_length e) :: u64)"
proof -
  have lim: "c + length (we_payload e) < 2 ^ 64" using assms(4) unat_u64_less [of "data_end s"] by linarith
  then have c: "unat (of_nat c :: u64) = c" "unat (of_nat (length (we_payload e)) :: u64) = length (we_payload e)"
    by (simp_all add: unat_of_nat_u64)
  have "payload_in_region s (inserted_frame hash n c par e)"
    using assms lim c by (auto simp: payload_in_region_def Let_def stored_def)
  then show "read_frame_payload_bytes s (inserted_frame hash n c par e) = Inr (we_payload e)"
    using payload_read [of s "inserted_frame hash n c par e"] assms(2) c by simp
qed (use assms(1) in \<open>simp_all add: stored_def\<close>)

lemma bslice_split:
  assumes "bslice f c (length x + length y) = x @ y"
  shows "bslice f c (length x) = x" "bslice f (c + length x) (length y) = y"
proof -
  have "take (length x) (bslice f c (length x + length y)) = x"
    "drop (length x) (bslice f c (length x + length y)) = y" using assms by simp_all
  then show "bslice f c (length x) = x" "bslice f (c + length x) (length y) = y"
    by (simp_all add: bslice_def drop_take add.commute)
qed

lemma load_kids:
  assumes "list_all2 (stored unz) es bs" "bslice (sfile s) c (length (payloads es)) = payloads es"
    and "unat (wal_offset (sheader s)) + unat (wal_size (sheader s)) \<le> c"
      "c + length (payloads es) \<le> unat (data_end s)" "c + length (payloads es) \<le> length (sfile s)"
  shows "load_chunks unz s (kid_frames hash pid n c es) = Inr (zip (kid_frames hash pid n c es) bs)"
  using assms
proof (induction es bs arbitrary: n c rule: list_all2_induct)
  case (Cons e es b bs)
  have sl: "bslice (sfile s) c (length (we_payload e)) = we_payload e"
    "bslice (sfile s) (c + length (we_payload e)) (length (payloads es)) = payloads es"
    using bslice_split [of "sfile s" c "we_payload e" "payloads es"] Cons(4) by simp_all
  have r: "read_frame_payload_bytes s (inserted_frame hash n c (Some pid) e) = Inr (we_payload e)"
    "\<And>fid. decode_canonical_bytes unz (we_payload e) (we_encoding e) fid = Inr b"
    "of_nat (length b) = (the (we_canonical_length e) :: u64)"
    using read_inserted [OF Cons(1) sl(1) Cons(5)] Cons(6,7) by simp_all
  show ?case
    using Cons(3) [of "c + length (we_payload e)" "Suc n"] Cons(5-7) sl(2) r by (simp add: add.assoc)
qed simp

lemma kid_frames_nth:
  "i < length es \<Longrightarrow> \<exists>c'. kid_frames hash pid n c es ! i = inserted_frame hash (n + i) c' (Some pid) (es ! i)"
proof (induction es arbitrary: n c i)
  case (Cons e es)
  show ?case
  proof (cases i)
    case (Suc j)
    then show ?thesis using Cons(1) [of j "Suc n" "c + length (we_payload e)"] Cons(2) by simp
  qed auto
qed simp

lemma kid_frames_sorted:
  assumes "map we_chunk_index es = map (\<lambda>i. Some (of_nat i)) [0..<length es]" "length es < 2 ^ 32"
  shows "sorted (map chunk_key (kid_frames hash pid n c es))"
    "map chunk_index (kid_frames hash pid n c es) = map (\<lambda>i. Some (of_nat i)) [0..<length es]"
proof -
  have idx: "chunk_index (kid_frames hash pid n c es ! i) = Some (of_nat i)" if "i < length es" for i
  proof -
    have "we_chunk_index (es ! i) = map we_chunk_index es ! i" using that by simp
    also have "\<dots> = Some (of_nat i)" unfolding assms(1) using that by simp
    finally show ?thesis using kid_frames_nth [OF that, of hash pid n c] by auto
  qed
  have key: "fst (chunk_key (kid_frames hash pid n c es ! i)) = i" if "i < length es" for i
  proof -
    have "i < 2 ^ 32" using that assms(2) by linarith
    then have "unat (of_nat i :: u32) = i" by (simp add: unat_of_nat take_bit_eq_mod)
    then show ?thesis using idx [OF that] by (simp add: chunk_key_def)
  qed
  show "sorted (map chunk_key (kid_frames hash pid n c es))"
    unfolding sorted_iff_nth_mono_less using key by (simp add: less_eq_prod_def)
  show "map chunk_index (kid_frames hash pid n c es) = map (\<lambda>i. Some (of_nat i)) [0..<length es]"
    using idx by (intro nth_equalityI) simp_all
qed

lemma kid_frames_all:
  assumes "\<forall>e \<in> set es. we_role e = DocumentChunk"
  shows "filter (\<lambda>x. status x = Active \<and> role x = DocumentChunk \<and> parent_id x = Some pid)
    (kid_frames hash pid n c es) = kid_frames hash pid n c es"
  using assms by (induction es arbitrary: n c) simp_all

lemma toc_wf_no_child:
  assumes "toc_wf fs" "length fs < 2 ^ 64" "fr \<in> set fs"
  shows "parent_id fr \<noteq> Some (of_nat (length fs))"
proof
  assume p: "parent_id fr = Some (of_nat (length fs))"
  from assms(3) obtain i where i: "i < length fs" "fs ! i = fr" by (auto simp: in_set_conv_nth)
  then have "snd (links fs ! i) = Some (of_nat (length fs))" using p by (simp add: links_def)
  then have "unat (of_nat (length fs) :: u64) < i" using assms(1) i by (simp add: toc_wf_def links_wf_def)
  with i assms(2) show False by (simp add: unat_of_nat_u64)
qed

lemma document_chunk_frames_put:
  assumes "frames s = old @ doc # kid_frames hash pid (Suc (length old)) c es" "pid = of_nat (length old)"
    "toc_wf old" "length old < 2 ^ 64" "role doc = Document"
    "\<forall>e \<in> set es. we_role e = DocumentChunk"
    "map we_chunk_index es = map (\<lambda>i. Some (of_nat i)) [0..<length es]" "length es < 2 ^ 32"
  shows "document_chunk_frames s pid = kid_frames hash pid (Suc (length old)) c es"
proof -
  have "filter (\<lambda>x. status x = Active \<and> role x = DocumentChunk \<and> parent_id x = Some pid) old = []"
    using toc_wf_no_child [OF assms(3,4)] assms(2) by (auto simp: filter_empty_conv)
  then have "filter (\<lambda>x. status x = Active \<and> role x = DocumentChunk \<and> parent_id x = Some pid) (frames s)
      = kid_frames hash pid (Suc (length old)) c es"
    using assms(1,5) kid_frames_all [OF assms(6)] by simp
  then show ?thesis
    unfolding document_chunk_frames_def
    by (simp add: sort_key_id_if_sorted [OF kid_frames_sorted(1) [OF assms(7,8)]])
qed

end
