(* ===== verification/Put_Read.thy ===== *)
theory Put_Read
  imports Put_Commit
begin

text \<open>Committing the records of a chunked document, and what reading it returns.\<close>

abbreviation adopted :: "u64 \<Rightarrow> wal_entry_data list \<Rightarrow> wal_entry_data list" where
  "adopted sq kids \<equiv> map (\<lambda>e. e\<lparr>we_parent_sequence := Some sq\<rparr>) kids"

lemma no_orphans:
  assumes "fs = old @ doc # kid_frames hash pid (Suc (length old)) c es" "role doc = Document"
    and "length old + length es + 1 < 2 ^ 64"
    and "set ids \<subseteq> of_nat ` {length old..<length old + length es + 1}"
  shows "orphan_resolutions fs ids = []"
proof -
  have "\<not> is_orphan_chunk fs fid" if mem: "fid \<in> set ids" for fid
  proof -
    obtain j where j: "fid = of_nat j" "length old \<le> j" "j < length old + length es + 1"
      using subsetD [OF assms(4) mem] by auto
    then have u: "unat fid = j" using assms(3) by (simp add: unat_of_nat_u64)
    show ?thesis
    proof (cases "j = length old")
      case True
      then show ?thesis using u assms(1,2) by (simp add: is_orphan_chunk_def nth_opt_def)
    next
      case False
      define i where "i = j - Suc (length old)"
      have i: "j = Suc (length old + i)" "i < length es" using False j by (simp_all add: i_def)
      obtain c' where "kid_frames hash pid (Suc (length old)) c es ! i =
          inserted_frame hash (Suc (length old) + i) c' (Some pid) (es ! i)"
        using kid_frames_nth [OF i(2)] by blast
      then show ?thesis using u i assms(1) by (simp add: is_orphan_chunk_def nth_opt_def nth_append)
    qed
  qed
  then show ?thesis by (simp add: orphan_resolutions_def)
qed

lemma apply_put:
  assumes codec: "\<forall>e \<in> set (doc # adopted sq kids). decode_entry env (enc e) = Some (Frame_Entry e)"
    and doc: "fresh_entry doc" "we_payload doc = []" "we_role doc = Document" "we_parent_sequence doc = None"
    and kids: "\<forall>e \<in> set kids. fresh_entry e \<and> we_role e = DocumentChunk"
    and idx: "\<forall>e \<in> set (doc # kids). indexable env m e"
    and room: "length (frames m) + length kids + 1 < 2 ^ 64"
      "unat (data_end m) + length (payloads kids) < 2 ^ 64" "unat (data_end m) \<le> length (sfile m)"
  shows "\<exists>m' d. apply_records env (put_records enc sq doc kids) m = (m', Inr d) \<and>
    sheader m' = sheader m \<and> unat (data_end m') = unat (data_end m) + length (payloads kids) \<and>
    sfile m' = write_at (sfile m) (unat (data_end m)) (payloads kids) \<and>
    frames m' = frames m @ inserted_frame (blake3 env) (length (frames m)) (unat (data_end m)) None doc #
      kid_frames (blake3 env) (of_nat (length (frames m))) (Suc (length (frames m)))
        (unat (data_end m)) (adopted sq kids)"
proof -
  let ?n = "length (frames m)" and ?D = "unat (data_end m)" and ?es = "adopted sq kids"
  let ?d1 = "record_insert doc (of_nat ?n) default_delta"
  have pay: "payloads ?es = payloads kids" by (simp add: comp_def)
  obtain m1 where ins: "apply_insert env sq doc m (default_delta, of_nat ?D, Map.empty) =
      (m1, Inr (?d1, of_nat ?D, [sq \<mapsto> of_nat ?n]))"
    and m1: "same_region m m1" "sfile m1 = sfile m"
      "frames m1 = frames m @ [inserted_frame (blake3 env) ?n ?D None doc]"
    using apply_insert_fresh [OF doc(1), of env m ?D sq default_delta Map.empty] idx room(2) doc(2,4)
    by (auto simp: first_pass_parent_def write_at_def)
  define rs where "rs = map (\<lambda>i. \<lparr>rec_sequence = sq + of_nat (i + 1),
    rec_payload = enc ((kids ! i)\<lparr>we_parent_sequence := Some sq\<rparr>)\<rparr>) [0..<length kids]"
  have dec: "decode_wal_entry env (enc e) = Inr (Frame_Entry e)" if "e \<in> set (doc # ?es)" for e
    using bspec [OF codec that] by (simp add: decode_wal_entry_def)
  have first: "apply_record env \<lparr>rec_sequence = sq, rec_payload = enc doc\<rparr> m p = apply_insert env sq doc m p" for p
    using apply_record_fresh [of env "\<lparr>rec_sequence = sq, rec_payload = enc doc\<rparr>" doc] dec doc(1) by simp
  have rs2: "list_all2 (\<lambda>r e. decode_wal_entry env (rec_payload r) = Inr (Frame_Entry e)) rs ?es"
    by (simp add: rs_def list_all2_conv_all_nth dec)
  have seqs: "\<forall>r \<in> set rs. rec_sequence r \<noteq> sq"
  proof -
    have "(of_nat (i + 1) :: u64) \<noteq> 0" if "i < length kids" for i
    proof
      assume "(of_nat (i + 1) :: u64) = 0"
      then have "unat (of_nat (i + 1) :: u64) = 0" by simp
      then show False using that room(1) unat_of_nat_u64 [of "i + 1"] by simp
    qed
    then show ?thesis by (auto simp: rs_def)
  qed
  have same: "indexable env m1 (e\<lparr>we_parent_sequence := Some sq\<rparr>) = indexable env m e" for e
    using m1(1) by (simp add: indexable_def same_region_def)
  have kid: "\<forall>e \<in> set ?es. kid_entry sq e \<and> indexable env m1 e"
    using kids idx by (auto simp: kid_entry_def fresh_entry_def same)
  obtain m2 d2 seqs2 where loop: "apply_loop env rs m1 (?d1, of_nat ?D, [sq \<mapsto> of_nat ?n]) =
      (m2, Inr (d2, of_nat (?D + length (payloads ?es)), seqs2))" "same_region m1 m2"
    "sfile m2 = write_at (sfile m1) ?D (payloads ?es)"
    "frames m2 = frames m1 @ kid_frames (blake3 env) (of_nat ?n) (length (frames m1)) ?D ?es"
    "inserted_frames d2 = inserted_frames ?d1 @ map of_nat [length (frames m1)..<length (frames m1) + length ?es]"
    using apply_loop_kids [OF rs2 kid seqs, of "[sq \<mapsto> of_nat ?n]" "of_nat ?n" ?D ?d1] room m1(2) pay by auto
  have fr: "frames m2 = frames m @ inserted_frame (blake3 env) ?n ?D None doc #
      kid_frames (blake3 env) (of_nat ?n) (Suc ?n) ?D ?es"
    using loop(4) m1(3) by simp
  have "set (inserted_frames d2) \<subseteq> of_nat ` {?n..<?n + length ?es + 1}"
    using loop(5) m1(3) by (auto simp: record_insert_def default_delta_def)
  then have orph: "orphan_resolutions (frames m2) (inserted_frames d2) = []"
    using no_orphans [OF fr] doc(3) room(1) by simp
  have reg: "same_region m m2" by (rule same_region_trans [OF m1(1) loop(2)])
  have "apply_loop env (put_records enc sq doc kids) m (default_delta, data_end m, Map.empty) =
      (m2, Inr (d2, of_nat (?D + length (payloads ?es)), seqs2))"
    using ins first loop(1) by (simp add: put_records_def rs_def)
  then have "apply_records env (put_records enc sq doc kids) m =
      (m2\<lparr>data_end := max (data_end m2) (of_nat (?D + length (payloads kids)))\<rparr>, Inr d2)"
    using orph pay by (simp add: apply_records_def put_records_def apply_resolutions_def)
  moreover have "unat (max (data_end m2) (of_nat (?D + length (payloads kids)))) = ?D + length (payloads kids)"
    using reg room(2) unat_of_nat_u64 [OF room(2)]
    by (simp add: same_region_def max_def word_le_nat_alt)
  ultimately show ?thesis using fr loop(3) m1(2) reg pay by (simp add: same_region_def)
qed

section \<open>The entries of a plan\<close>

lemma prepare_text:
  assumes "list_all scalar t" "prepare_canonical_payload zst (utf8_encode t) = Inr (p, enc, len)"
    and "\<forall>l b z. zst l b = Some z \<longrightarrow> unz z = Some b"
  shows "decode_canonical_bytes unz p enc fid = Inr (utf8_encode t)"
    "len = Some (of_nat (length (utf8_encode t)))"
  using assms from_utf8_encode [OF assms(1)]
  by (auto simp: prepare_canonical_payload_def prepare_canonical_payload_with_level_def
      decode_canonical_bytes_def split: option.splits)

lemma chunk_entries_Inr:
  assumes "chunk_entries zst stext at embs tot i ts = Inr es" "\<forall>t \<in> set ts. list_all scalar t"
    and "\<forall>l b z. zst l b = Some z \<longrightarrow> unz z = Some b"
    and "\<forall>e \<in> set es. length (we_payload e) \<le> 256 * 1024 * 1024" "i + length ts < 2 ^ 32"
  shows "list_all2 (stored unz) es (map utf8_encode ts) \<and>
    (\<forall>e \<in> set es. fresh_entry e \<and> we_role e = DocumentChunk) \<and>
    map we_chunk_index es = map (\<lambda>k. Some (of_nat k)) [i..<i + length ts]"
  using assms(1,2,4,5)
proof (induction ts arbitrary: i es)
  case (Cons t ts)
  obtain p enc len where prep: "prepare_canonical_payload zst (utf8_encode t) = Inr (p, enc, len)"
    using Cons(2) by (cases "prepare_canonical_payload zst (utf8_encode t)") (auto simp: chunk_entry_def)
  from Cons(2) obtain e r where e: "chunk_entry zst stext at embs tot i t = Inr e"
    and r: "chunk_entries zst stext at embs tot (i + 1) ts = Inr r" and es: "es = e # r"
    by (auto split: sum.splits)
  have fields: "we_payload e = p" "we_encoding e = enc" "we_canonical_length e = len"
    "fresh_entry e \<longleftrightarrow> len \<noteq> None" "we_role e = DocumentChunk" "we_chunk_index e = Some (u32_or_0 i)"
    using e prep by (auto simp: chunk_entry_def fresh_entry_def)
  have "stored unz e (utf8_encode t)"
    using prepare_text [OF _ prep assms(3)] Cons(3,4) fields es by (simp add: stored_def)
  moreover have "u32_or_0 i = of_nat i" using Cons(5) by (simp add: u32_or_0_def)
  moreover have "len \<noteq> None" using prepare_text(2) [OF _ prep assms(3)] Cons(3) by simp
  ultimately show ?case
    using Cons(1) [OF r] Cons(3-5) es fields by (simp add: upt_conv_Cons del: upt_Suc)
qed simp

lemma utf8_encode_concat: "utf8_encode (concat ts) = concat (map utf8_encode ts)"
  by (induction ts) (simp_all add: utf8_encode_def)

section \<open>Reading a committed document\<close>

text \<open>The situation after planning: a chunk plan for the bytes, its entries, and room for them.\<close>

definition put_ready ::
  "('b, 'e, 'x) env \<Rightarrow> ('e, 'x) memvid \<Rightarrow> wal_entry_data list \<Rightarrow> wal_entry_data \<Rightarrow> bool" where
  "put_ready env m kids doc \<longleftrightarrow>
     toc_wf (frames m) \<and> (\<forall>e \<in> set (doc # kids). indexable env m e) \<and>
     (\<forall>e \<in> set kids. length (we_payload e) \<le> 256 * 1024 * 1024) \<and>
     length (frames m) + length kids + 1 < 2 ^ 64 \<and>
     unat (data_end m) + length (payloads kids) < 2 ^ 64 \<and> unat (data_end m) \<le> length (sfile m) \<and>
     unat (wal_offset (sheader m)) + unat (wal_size (sheader m)) \<le> unat (data_end m)"

lemma document_put:
  assumes codec: "\<forall>e \<in> set (doc # adopted sq kids). decode_entry env (enc e) = Some (Frame_Entry e)"
    and zstd: "\<forall>l b z. zst l b = Some z \<longrightarrow> unzstd env z = Some b"
    and plan: "length (ranges (manifest plan)) = length (plan_chunks plan)" "plan_chunks plan \<noteq> []"
      "\<forall>t \<in> set (plan_chunks plan). list_all scalar t" "length (plan_chunks plan) < 2 ^ 32"
    and kids: "chunk_entries zst stext at embs tot 0 (plan_chunks plan) = Inr kids"
    and doc: "doc = document_entry stext at emb base (Some plan) ([], Plain, Some 0, None, None)
      Document None None path enr"
    and ready: "put_ready env m kids doc"
  shows "\<exists>m' d. apply_records env (put_records enc sq doc kids) m = (m', Inr d) \<and>
    frame_canonical_payload (unzstd env) m' (of_nat (length (frames m))) =
      Inr (utf8_encode (concat (plan_chunks plan))) \<and>
    map chunk_index (document_chunk_frames m' (of_nat (length (frames m)))) =
      map (\<lambda>k. Some (of_nat k)) [0..<length (plan_chunks plan)] \<and>
    nth_opt (frames m') (length (frames m)) =
      Some (inserted_frame (blake3 env) (length (frames m)) (unat (data_end m)) None doc)"
proof -
  let ?n = "length (frames m)" and ?D = "unat (data_end m)" and ?es = "adopted sq kids"
  let ?doc = "inserted_frame (blake3 env) ?n ?D None doc" and ?bs = "map utf8_encode (plan_chunks plan)"
  note r = ready [unfolded put_ready_def]
  have d: "fresh_entry doc" "we_payload doc = []" "we_role doc = Document" "we_parent_sequence doc = None"
    "we_chunk_manifest doc = Some (manifest plan)"
    by (simp_all add: doc document_entry_def fresh_entry_def)
  have k: "list_all2 (stored (unzstd env)) kids ?bs"
    "\<forall>e \<in> set kids. fresh_entry e \<and> we_role e = DocumentChunk"
    "map we_chunk_index kids = map (\<lambda>k. Some (of_nat k)) [0..<length (plan_chunks plan)]"
    using chunk_entries_Inr [OF kids plan(3) zstd] r plan(4) by simp_all
  have len: "length kids = length (plan_chunks plan)" using list_all2_lengthD [OF k(1)] by simp
  obtain m' dl where m': "apply_records env (put_records enc sq doc kids) m = (m', Inr dl)"
    "sheader m' = sheader m" "unat (data_end m') = ?D + length (payloads kids)"
    "sfile m' = write_at (sfile m) ?D (payloads kids)"
    "frames m' = frames m @ ?doc # kid_frames (blake3 env) (of_nat ?n) (Suc ?n) ?D ?es"
    using apply_put [OF codec d(1-4) k(2), of m] r by blast
  have es: "payloads ?es = payloads kids" by (simp add: comp_def)
  have st: "list_all2 (stored (unzstd env)) ?es ?bs"
    using k(1) by (simp add: list_all2_conv_all_nth stored_def)
  have ci: "map we_chunk_index ?es = map (\<lambda>i. Some (of_nat i)) [0..<length ?es]"
    using k(3) len by (simp add: comp_def)
  have kf: "document_chunk_frames m' (of_nat ?n) = kid_frames (blake3 env) (of_nat ?n) (Suc ?n) ?D ?es"
    by (rule document_chunk_frames_put [OF m'(5)])
      (use r k(2) ci len plan(4) d(3) in \<open>auto simp: inserted_frame_simps\<close>)
  have slice: "bslice (sfile m') ?D (length (payloads ?es)) = payloads ?es"
    "?D + length (payloads ?es) \<le> length (sfile m')"
    using r es unfolding m'(4) by (auto simp: write_at_mid bslice_def)
  have load: "load_chunks (unzstd env) m' (kid_frames (blake3 env) (of_nat ?n) (Suc ?n) ?D ?es) =
      Inr (zip (kid_frames (blake3 env) (of_nat ?n) (Suc ?n) ?D ?es) ?bs)"
    by (rule load_kids [OF st slice(1)]) (use r m'(2,3) es slice(2) in auto)
  have idn: "unat (of_nat ?n :: u64) = ?n" using r by (simp add: unat_of_nat_u64)
  have nth: "nth_opt (frames m') ?n = Some ?doc" by (simp add: m'(5) nth_opt_def)
  have "kid_frames (blake3 env) (of_nat ?n) (Suc ?n) ?D ?es \<noteq> []"
    using plan(2) len by (metis length_0_conv length_kid_frames length_map)
  then have "document_chunk_payloads (unzstd env) m' ?doc =
      Inr (zip (kid_frames (blake3 env) (of_nat ?n) (Suc ?n) ?D ?es) ?bs)"
    using kf load plan(1) len d(5) document_chunk_frames_props(2) [of m' "of_nat ?n"]
    by (simp add: document_chunk_payloads_def Let_def)
  then have "frame_canonical_bytes (unzstd env) m' ?doc = Inr (utf8_encode (concat (plan_chunks plan)))"
    using d(3,5) len by (simp add: frame_canonical_bytes_def utf8_encode_concat)
  then have "frame_canonical_payload (unzstd env) m' (of_nat ?n) = Inr (utf8_encode (concat (plan_chunks plan)))"
    using nth idn by (simp add: frame_canonical_payload_def frame_by_id_def)
  moreover have "map chunk_index (document_chunk_frames m' (of_nat ?n)) =
      map (\<lambda>k. Some (of_nat k)) [0..<length (plan_chunks plan)]"
    unfolding kf using kid_frames_sorted(2) [OF ci] len plan(4) by simp
  ultimately show ?thesis using m'(1) nth by blast
qed

text \<open>A planned put: the plan of the raw bytes, the storage chosen for the document, the entries.\<close>

definition planned_put ::
  "(ustr \<Rightarrow> ustr) \<Rightarrow> (ustr \<Rightarrow> ustr list) \<Rightarrow> patterns \<Rightarrow> (int \<Rightarrow> bytes \<Rightarrow> bytes option) \<Rightarrow> bytes \<Rightarrow> put_attrs
     \<Rightarrow> document_chunk_plan \<Rightarrow> wal_entry_data \<Rightarrow> wal_entry_data list \<Rightarrow> bool" where
  "planned_put nfkc graphemes p zst raw at plan doc kids \<longleftrightarrow>
     plan_document_chunks nfkc graphemes p raw = Some plan \<and>
     (\<forall>t \<in> set (plan_chunks plan). list_all scalar t) \<and> length (plan_chunks plan) < 2 ^ 32 \<and>
     chunk_entries zst (chunk_search_text nfkc graphemes) at None (u32_or_0 (length (plan_chunks plan))) 0
       (plan_chunks plan) = Inr kids \<and>
     (\<exists>h lvl noraw storage base path enr.
        choose_storage h zst lvl True noraw (Some raw) None = Inr storage \<and>
        doc = document_entry (chunk_search_text nfkc graphemes) at None base (Some plan) storage
          Document None None path enr)"

lemma planned_put_commit:
  assumes codec: "\<forall>e \<in> set (doc # adopted sq kids). decode_entry env (enc e) = Some (Frame_Entry e)"
    and zstd: "\<forall>l b z. zst l b = Some z \<longrightarrow> unzstd env z = Some b"
    and put: "planned_put nfkc graphemes p zst raw at plan doc kids" and ready: "put_ready env m kids doc"
  shows "\<exists>m' d. apply_records env (put_records enc sq doc kids) m = (m', Inr d) \<and>
    frame_canonical_payload (unzstd env) m' (of_nat (length (frames m))) =
      Inr (utf8_encode (concat (plan_chunks plan))) \<and>
    map chunk_index (document_chunk_frames m' (of_nat (length (frames m)))) =
      map (\<lambda>k. Some (of_nat k)) [0..<length (plan_chunks plan)] \<and>
    nth_opt (frames m') (length (frames m)) =
      Some (inserted_frame (blake3 env) (length (frames m)) (unat (data_end m)) None doc)"
proof -
  have len: "length (ranges (manifest plan)) = length (plan_chunks plan)" "plan_chunks plan \<noteq> []"
    using document_plan put by (fastforce simp: planned_put_def)+
  from put obtain storage base path enr where st: "storage = ([], Plain, Some 0, None, None)"
    and doc: "doc = document_entry (chunk_search_text nfkc graphemes) at None base (Some plan) storage
      Document None None path enr"
    by (auto simp: planned_put_def choose_storage_def)
  show ?thesis
    by (rule document_put [OF codec zstd len _ _ _ doc [unfolded st] ready])
      (use put in \<open>auto simp: planned_put_def\<close>)
qed


text \<open>The full text of a chunked document is lost to \<open>frame_text_by_id\<close>, which promises the
  complete text: the document frame carries the normalised first chunk as its search text, and that
  is what the operation returns, without looking at the other chunks.\<close>

theorem document_text_is_first_chunk:
  assumes "\<forall>e \<in> set (doc # adopted sq kids). decode_entry env (enc e) = Some (Frame_Entry e)"
    and "\<forall>l b z. zst l b = Some z \<longrightarrow> unzstd env z = Some b"
    and "planned_put nfkc graphemes p zst raw at plan doc kids" and "put_ready env m kids doc"
    and first: "chunk_search_text nfkc graphemes (hd (plan_chunks plan)) = Some t"
  shows "frame_text_by_id (unzstd env) (fst (apply_records env (put_records enc sq doc kids) m))
    (of_nat (length (frames m))) = Inr t"
proof -
  have "plan_chunks plan \<noteq> []" using document_plan assms(3) by (fastforce simp: planned_put_def)
  then have "we_search_text doc = Some t"
    using assms(3) first
    by (cases "plan_chunks plan") (auto simp: planned_put_def document_entry_def parent_search_text_def
        split: prod.splits)
  moreover have "t \<noteq> []"
    using first by (auto simp: chunk_search_text_def trim_def trim_start_def trim_end_def split: option.splits if_splits)
  moreover have "unat (of_nat (length (frames m)) :: u64) = length (frames m)"
    using assms(4) by (simp add: put_ready_def unat_of_nat_u64)
  ultimately show ?thesis
    using planned_put_commit [OF assms(1-4)]
    by (auto simp: frame_text_by_id_def frame_in_range_def frame_content_def)
qed

section \<open>An instance\<close>

text \<open>The smallest planned text, in an empty memory, with the identity for zstd and a codec that
  tells the entries apart by their chunk index.\<close>

definition ex_enc :: "wal_entry_data \<Rightarrow> bytes" where
  "ex_enc e = (case we_chunk_index e of None \<Rightarrow> [] | Some i \<Rightarrow> to_le 4 i)"

definition ex_env :: "wal_entry_data \<Rightarrow> wal_entry_data list \<Rightarrow> (unit, unit, unit) env" where
  "ex_env doc es =
     \<lparr>decode_entry = (\<lambda>b. Some (Frame_Entry (if b = [] then doc else es ! unat (from_le b :: u32)))),
      decode_legacy = (\<lambda>_. None), blake3 = (\<lambda>_. []), unzstd = Some,
      engine_add = (\<lambda>_ _ _. Inr ()), engine_delete = (\<lambda>_ _. Inr ()), add_sketch = (\<lambda>_ _ _. ()),
      remove_doc = (\<lambda>_ _. ()), apply_lex_wal = (\<lambda>_ m. (m, Inr ()))\<rparr>"

definition ex_mem :: "(unit, unit) memvid" where
  "ex_mem = \<lparr>sfile = replicate 100 0,
     sheader = \<lparr>magic = MAGIC, version = 0, footer_offset = 0, wal_offset = 10, wal_size = 20,
       wal_checkpoint_pos = 0, wal_sequence = 0, toc_checksum = []\<rparr>,
     data_end = 100, frames = [], time_manifest = None, cached_payload_end = 100, tantivy = None,
     tantivy_dirty = False, aux = ()\<rparr>"

definition ex_attrs :: put_attrs where
  "ex_attrs = \<lparr>pa_timestamp = 0, pa_kind = None, pa_track = None, pa_uri = None, pa_title = None,
     pa_metadata = None, pa_tags = [], pa_labels = [], pa_extra = [], pa_dates = []\<rparr>"

lemma chunk_entry_identity:
  "\<exists>e. chunk_entry (\<lambda>l. Some) stext at embs tot i t = Inr e \<and> we_payload e = utf8_encode t"
  by (auto simp: chunk_entry_def prepare_canonical_payload_def prepare_canonical_payload_with_level_def)

lemma chunk_entries_identity:
  "\<exists>es. chunk_entries (\<lambda>l. Some) stext at embs tot i ts = Inr es \<and> map we_payload es = map utf8_encode ts"
proof (induction ts arbitrary: i)
  case (Cons t ts)
  obtain e where "chunk_entry (\<lambda>l. Some) stext at embs tot i t = Inr e" "we_payload e = utf8_encode t"
    using chunk_entry_identity by blast
  with Cons [of "i + 1"] show ?case by auto
qed simp

lemma length_concat_le: "t \<in> set ts \<Longrightarrow> length t \<le> length (concat ts)"
  by (induction ts) auto

lemma ex_codec:
  assumes "map we_chunk_index es = map (\<lambda>k. Some (of_nat k)) [0..<length es]" "length es < 2 ^ 32"
    and "we_chunk_index doc = None" "e \<in> set (doc # es)"
  shows "decode_entry (ex_env doc es) (ex_enc e) = Some (Frame_Entry e)"
proof (cases "e = doc")
  case True
  then show ?thesis using assms(3) by (simp add: ex_env_def ex_enc_def)
next
  case False
  then obtain i where i: "i < length es" "es ! i = e" using assms(4) by (auto simp: in_set_conv_nth)
  have "we_chunk_index (es ! i) = map we_chunk_index es ! i" using i by simp
  also have "\<dots> = Some (of_nat i)" unfolding assms(1) using i by simp
  finally have c: "we_chunk_index e = Some (of_nat i)" using i by simp
  have "i < 2 ^ 32" using i assms(2) by linarith
  then have "unat (of_nat i :: u32) = i" by (simp add: unat_of_nat take_bit_eq_mod)
  moreover have "to_le 4 (of_nat i :: u32) \<noteq> []" using length_to_le [of 4 "of_nat i :: u32"] by fastforce
  ultimately show ?thesis using c i by (simp add: ex_env_def ex_enc_def from_le_to_le)
qed

text \<open>The instance satisfies every hypothesis of the two theorems.\<close>

lemma ex_put:
  "\<exists>plan doc kids. planned_put id (map (\<lambda>c. [c])) no_patterns (\<lambda>l. Some) (replicate 2400 97) ex_attrs plan doc kids \<and>
     put_ready (ex_env doc (adopted 7 kids)) ex_mem kids doc \<and>
     (\<forall>e \<in> set (doc # adopted 7 kids). decode_entry (ex_env doc (adopted 7 kids)) (ex_enc e) = Some (Frame_Entry e)) \<and>
     concat (plan_chunks plan) = replicate 2400 97 \<and>
     (\<exists>t. chunk_search_text id (map (\<lambda>c. [c])) (hd (plan_chunks plan)) = Some t \<and> length t < 2400)"
proof -
  obtain plan where plan: "plan_document_chunks id (map (\<lambda>c. [c])) no_patterns (replicate 2400 97) = Some plan"
    "length (plan_chunks plan) \<le> 2400" "concat (plan_chunks plan) = replicate 2400 97"
    "\<forall>c \<in> set (plan_chunks plan). c \<noteq> []"
    using example_plan by blast
  let ?stext = "chunk_search_text id (map (\<lambda>c. [c]))"
  let ?tot = "u32_or_0 (length (plan_chunks plan))"
  obtain kids where kids: "chunk_entries (\<lambda>l. Some) ?stext ex_attrs None ?tot 0 (plan_chunks plan) = Inr kids"
    "map we_payload kids = map utf8_encode (plan_chunks plan)"
    using chunk_entries_identity by blast
  define doc where "doc = document_entry ?stext ex_attrs None None (Some plan) ([], Plain, Some 0, None, None)
    Document None None None Enriched"
  have in_a: "c = 97" if "t \<in> set (plan_chunks plan)" "c \<in> set t" for t c
  proof -
    have "c \<in> set (concat (plan_chunks plan))" using that by auto
    then show ?thesis unfolding plan(3) by simp
  qed
  have scalars: "\<forall>t \<in> set (plan_chunks plan). list_all scalar t"
    unfolding list_all_iff scalar_def using in_a by fastforce
  have st: "choose_storage (\<lambda>_. []) (\<lambda>l. Some) 3 True False (Some (replicate 2400 97)) None =
      Inr ([], Plain, Some 0, None, None)" by (simp add: choose_storage_def)
  have put: "planned_put id (map (\<lambda>c. [c])) no_patterns (\<lambda>l. Some) (replicate 2400 97) ex_attrs plan doc kids"
    unfolding planned_put_def using plan(1,2) scalars kids(1) st doc_def by fastforce
  have "payloads kids = utf8_encode (replicate 2400 97)"
    unfolding kids(2) utf8_encode_concat [symmetric] plan(3) ..
  then have pay: "length (payloads kids) = 2400" by (simp add: utf8_encode_def utf8_enc_def)
  have small: "\<forall>e \<in> set kids. length (we_payload e) \<le> 256 * 1024 * 1024"
    using length_concat_le [of _ "map we_payload kids"] pay by fastforce
  have k: "map we_chunk_index kids = map (\<lambda>k. Some (of_nat k)) [0..<length (plan_chunks plan)]"
    using chunk_entries_Inr [OF kids(1) scalars _ small, of Some] plan(2) by simp
  have len: "length kids = length (plan_chunks plan)" using arg_cong [OF kids(2), of length] by simp
  have "put_ready (ex_env doc (adopted 7 kids)) ex_mem kids doc"
    using small pay len plan(2)
    by (simp add: put_ready_def ex_mem_def toc_wf_def links_wf_def links_def indexable_def)
  moreover have "decode_entry (ex_env doc (adopted 7 kids)) (ex_enc e) = Some (Frame_Entry e)"
    if "e \<in> set (doc # adopted 7 kids)" for e
    by (rule ex_codec [OF _ _ _ that])
      (use k len plan(2) in \<open>simp_all add: comp_def doc_def document_entry_def\<close>)
  moreover have "\<exists>t. ?stext (hd (plan_chunks plan)) = Some t \<and> length t < 2400"
  proof -
    have "2 \<le> length (plan_chunks plan)" using document_plan [OF plan(1)] by auto
    then obtain c c' cs where cs: "plan_chunks plan = c # c' # cs"
      by (auto simp: Suc_le_length_iff numeral_2_eq_2)
    define n where "n = length c"
    have c: "c = replicate n 97" unfolding n_def using in_a [of c] cs by (intro replicate_eqI) auto
    have "0 < n" "0 < length c'" using plan(4) cs by (auto simp: n_def)
    moreover have "n + length c' \<le> 2400" using arg_cong [OF plan(3), of length] cs by (simp add: n_def)
    ultimately have n: "0 < n" "n < 2400" by linarith+
    have "normalize_text id (map (\<lambda>c. [c])) c DEFAULT_SEARCH_TEXT_LIMIT = Some \<lparr>norm_text = c, truncated = False\<rparr>"
      unfolding c using n by (intro normalize_replicate) (simp_all add: DEFAULT_SEARCH_TEXT_LIMIT_def)
    moreover have "trim c \<noteq> []"
      using n by (simp add: c trim_eq_Nil list_all_iff is_whitespace_def)
    moreover have "length c < 2400" using n by (simp add: n_def)
    ultimately have "?stext c = Some c" "length c < 2400" by (simp_all add: chunk_search_text_def)
    then show ?thesis using cs by simp
  qed
  ultimately show ?thesis using put plan(3) by blast
qed


theorem document_text_is_first_chunk_witness:
  "\<exists>(env :: (unit, unit, unit) env) doc kids (plan :: document_chunk_plan) t. concat (plan_chunks plan) = replicate 2400 97 \<and>
     frame_text_by_id (unzstd env) (fst (apply_records env (put_records ex_enc 7 doc kids) ex_mem)) 0 = Inr t \<and>
     length t < 2400"
proof -
  obtain plan doc kids t where x: "planned_put id (map (\<lambda>c. [c])) no_patterns (\<lambda>l. Some) (replicate 2400 97) ex_attrs plan doc kids"
    "put_ready (ex_env doc (adopted 7 kids)) ex_mem kids doc"
    "\<forall>e \<in> set (doc # adopted 7 kids). decode_entry (ex_env doc (adopted 7 kids)) (ex_enc e) = Some (Frame_Entry e)"
    "concat (plan_chunks plan) = replicate 2400 97"
    "chunk_search_text id (map (\<lambda>c. [c])) (hd (plan_chunks plan)) = Some t" "length t < 2400"
    using ex_put by blast
  have "frame_text_by_id (unzstd (ex_env doc (adopted 7 kids)))
      (fst (apply_records (ex_env doc (adopted 7 kids)) (put_records ex_enc 7 doc kids) ex_mem)) 0 = Inr t"
    using document_text_is_first_chunk [OF x(3) _ x(1,2,5)] by (simp add: ex_env_def ex_mem_def)
  with x(4,6) show ?thesis by blast
qed

end
