(* ===== verification/Acl.thy ===== *)
theory Acl
  imports Frames
begin

text \<open>
  Access control on search hits (\<open>memvid/acl.rs\<close>, \<open>types/acl.rs\<close>): parsing the policy of a frame
  from its metadata, the decision, its statistics, and the filter over the hits in audit and in
  enforce mode.  \<open>unjson\<close> and \<open>unjson_list\<close> are \<open>serde_json::from_str\<close> at \<open>String\<close> and at
  \<open>Vec<String>\<close>.  A \<open>HashSet\<close> of the code is a set.
\<close>

named_theorems acl_simps \<open>unfolding of the decision\<close>

definition ACL_TENANT_ID_KEY :: ustr where "ACL_TENANT_ID_KEY = lit ''acl_tenant_id''"
definition ACL_VISIBILITY_KEY :: ustr where "ACL_VISIBILITY_KEY = lit ''acl_visibility''"
definition ACL_READ_ROLES_KEY :: ustr where "ACL_READ_ROLES_KEY = lit ''acl_read_roles''"
definition ACL_READ_GROUPS_KEY :: ustr where "ACL_READ_GROUPS_KEY = lit ''acl_read_groups''"
definition ACL_READ_PRINCIPALS_KEY :: ustr where "ACL_READ_PRINCIPALS_KEY = lit ''acl_read_principals''"

datatype acl_mode = Audit | Enforce

record acl_context =
  tenant_id :: "ustr option"
  subject_id :: "ustr option"
  roles :: "ustr list"
  group_ids :: "ustr list"

record acl_stats =
  allowed :: nat
  denied :: nat
  cross_tenant :: nat
  missing_metadata :: nat

record normalized_context =
  n_tenant :: ustr
  n_subject :: "ustr option"
  n_roles :: "ustr set"
  n_groups :: "ustr set"

datatype frame_visibility = Public | Restricted

record parsed_acl =
  p_tenant :: ustr
  p_visibility :: frame_visibility
  p_roles :: "ustr set"
  p_groups :: "ustr set"
  p_principals :: "ustr set"

record acl_decision =
  is_allowed :: bool
  cross_tenant_denied :: bool
  missing_metadata_denied :: bool

definition allow :: acl_decision where
  "allow = \<lparr>is_allowed = True, cross_tenant_denied = False, missing_metadata_denied = False\<rparr>"

definition deny_cross_tenant :: acl_decision where
  "deny_cross_tenant = \<lparr>is_allowed = False, cross_tenant_denied = True, missing_metadata_denied = False\<rparr>"

definition deny_missing_metadata :: acl_decision where
  "deny_missing_metadata = \<lparr>is_allowed = False, cross_tenant_denied = False, missing_metadata_denied = True\<rparr>"

definition deny_restricted :: acl_decision where
  "deny_restricted = \<lparr>is_allowed = False, cross_tenant_denied = False, missing_metadata_denied = False\<rparr>"

definition default_stats :: acl_stats where
  "default_stats = \<lparr>allowed = 0, denied = 0, cross_tenant = 0, missing_metadata = 0\<rparr>"

text \<open>\<open>AclFilterStats::record\<close>.\<close>

definition record_decision :: "acl_stats \<Rightarrow> acl_decision \<Rightarrow> acl_stats" where
  "record_decision s d =
     (if is_allowed d then s\<lparr>allowed := allowed s + 1\<rparr>
      else (let s1 = s\<lparr>denied := denied s + 1\<rparr>;
                s2 = (if cross_tenant_denied d then s1\<lparr>cross_tenant := cross_tenant s1 + 1\<rparr> else s1)
            in if missing_metadata_denied d
               then s2\<lparr>missing_metadata := missing_metadata s2 + 1\<rparr> else s2))"

section \<open>Parsing\<close>

definition normalize_scalar :: "(ustr \<Rightarrow> ustr option) \<Rightarrow> ustr option \<Rightarrow> ustr option" where
  "normalize_scalar unjson v =
     (case v of None \<Rightarrow> None | Some s \<Rightarrow>
      (let trimmed = trim s in
       if trimmed = [] then None
       else (let unwrapped = (case unjson trimmed of Some p \<Rightarrow> trim p | None \<Rightarrow> trimmed) in
             if unwrapped = [] then None else Some (to_ascii_lowercase unwrapped))))"

definition normalize_acl_context ::
  "(ustr \<Rightarrow> ustr option) \<Rightarrow> acl_context option \<Rightarrow> normalized_context option" where
  "normalize_acl_context unjson c =
     (case c of None \<Rightarrow> None | Some ctx \<Rightarrow>
      (case normalize_scalar unjson (tenant_id ctx) of None \<Rightarrow> None | Some t \<Rightarrow>
       Some \<lparr>n_tenant = t,
         n_subject = (case subject_id ctx of None \<Rightarrow> None | Some v \<Rightarrow> normalize_scalar unjson (Some v)),
         n_roles = set (List.map_filter (\<lambda>r. normalize_scalar unjson (Some r)) (roles ctx)),
         n_groups = set (List.map_filter (\<lambda>g. normalize_scalar unjson (Some g)) (group_ids ctx))\<rparr>))"

definition quoted_enforce :: string where
  "quoted_enforce = [CHR 0x27] @ ''enforce'' @ [CHR 0x27]"

definition validate_enforce_acl_context ::
  "(ustr \<Rightarrow> ustr option) \<Rightarrow> acl_context option \<Rightarrow> normalized_context res" where
  "validate_enforce_acl_context unjson c =
     (case c of
        None \<Rightarrow> Inl (InvalidQuery (''acl_context is required when acl_enforcement_mode is '' @ quoted_enforce))
      | Some ctx \<Rightarrow> (case normalize_acl_context unjson (Some ctx) of
          None \<Rightarrow> Inl (InvalidQuery (''acl_context.tenant_id is required when acl_enforcement_mode is '' @ quoted_enforce))
        | Some n \<Rightarrow> Inr n))"

fun collect_scalars :: "(ustr \<Rightarrow> ustr option) \<Rightarrow> ustr list \<Rightarrow> ustr set option" where
  "collect_scalars unjson [] = Some {}"
| "collect_scalars unjson (v # vs) =
     (case normalize_scalar unjson (Some v) of None \<Rightarrow> None | Some n \<Rightarrow>
      (case collect_scalars unjson vs of None \<Rightarrow> None | Some s \<Rightarrow> Some (insert n s)))"

definition parse_acl_list ::
  "(ustr \<Rightarrow> ustr option) \<Rightarrow> (ustr \<Rightarrow> ustr list option) \<Rightarrow> str_map \<Rightarrow> ustr \<Rightarrow> ustr set option" where
  "parse_acl_list unjson unjson_list md key =
     (case map_of md key of None \<Rightarrow> Some {} | Some raw \<Rightarrow>
      (case unjson_list raw of None \<Rightarrow> None | Some vs \<Rightarrow> collect_scalars unjson vs))"

definition parse_acl_metadata ::
  "(ustr \<Rightarrow> ustr option) \<Rightarrow> (ustr \<Rightarrow> ustr list option) \<Rightarrow> str_map \<Rightarrow> parsed_acl option" where
  "parse_acl_metadata unjson unjson_list md =
     (case normalize_scalar unjson (map_of md ACL_TENANT_ID_KEY) of None \<Rightarrow> None | Some t \<Rightarrow>
      case normalize_scalar unjson (map_of md ACL_VISIBILITY_KEY) of None \<Rightarrow> None | Some v \<Rightarrow>
      case (if v = lit ''public'' then Some Public
            else if v = lit ''restricted'' then Some Restricted else None) of None \<Rightarrow> None | Some vis \<Rightarrow>
      case parse_acl_list unjson unjson_list md ACL_READ_ROLES_KEY of None \<Rightarrow> None | Some rs \<Rightarrow>
      case parse_acl_list unjson unjson_list md ACL_READ_GROUPS_KEY of None \<Rightarrow> None | Some gs \<Rightarrow>
      case parse_acl_list unjson unjson_list md ACL_READ_PRINCIPALS_KEY of None \<Rightarrow> None | Some ps \<Rightarrow>
      Some \<lparr>p_tenant = t, p_visibility = vis, p_roles = rs, p_groups = gs, p_principals = ps\<rparr>)"

section \<open>The decision\<close>

definition evaluate_acl_metadata ::
  "(ustr \<Rightarrow> ustr option) \<Rightarrow> (ustr \<Rightarrow> ustr list option) \<Rightarrow> str_map \<Rightarrow> normalized_context option \<Rightarrow> acl_decision" where
  "evaluate_acl_metadata unjson unjson_list md c =
     (case c of None \<Rightarrow> allow | Some ctx \<Rightarrow>
      (case parse_acl_metadata unjson unjson_list md of None \<Rightarrow> deny_missing_metadata | Some p \<Rightarrow>
       if p_tenant p \<noteq> n_tenant ctx then deny_cross_tenant
       else if p_visibility p = Public then allow
       else (let principal_allowed = (case n_subject ctx of None \<Rightarrow> False | Some s \<Rightarrow> s \<in> p_principals p);
                 role_allowed = (\<exists>r \<in> n_roles ctx. r \<in> p_roles p);
                 group_allowed = (\<exists>g \<in> n_groups ctx. g \<in> p_groups p)
             in if principal_allowed \<or> role_allowed \<or> group_allowed then allow else deny_restricted)))"

section \<open>Filtering the hits\<close>

text \<open>\<open>SearchHit\<close> with the fields that the filter reads and writes; the rest is carried in
  \<open>'a\<close>.\<close>

record 'a search_hit =
  rank :: nat
  hit_frame_id :: frame_id
  hit_rest :: 'a

definition hit_decision ::
  "(ustr \<Rightarrow> ustr option) \<Rightarrow> (ustr \<Rightarrow> ustr list option) \<Rightarrow> 'z store_scheme \<Rightarrow> normalized_context option
     \<Rightarrow> 'a search_hit \<Rightarrow> acl_decision" where
  "hit_decision unjson unjson_list s c hit =
     (case frame_by_id s (hit_frame_id hit) of
        Inr fr \<Rightarrow> evaluate_acl_metadata unjson unjson_list (extra_metadata fr) c
      | Inl _ \<Rightarrow> deny_missing_metadata)"

definition filter_step ::
  "('h \<Rightarrow> acl_decision) \<Rightarrow> acl_mode \<Rightarrow> acl_stats \<times> 'h list \<Rightarrow> 'h \<Rightarrow> acl_stats \<times> 'h list" where
  "filter_step decide mode acc hit =
     (let d = decide hit in
      (record_decision (fst acc) d,
       if is_allowed d \<or> mode = Audit then snd acc @ [hit] else snd acc))"

definition apply_acl_to_search_hits ::
  "(ustr \<Rightarrow> ustr option) \<Rightarrow> (ustr \<Rightarrow> ustr list option) \<Rightarrow> 'z store_scheme \<Rightarrow> 'a search_hit list
     \<Rightarrow> acl_context option \<Rightarrow> acl_mode \<Rightarrow> 'a search_hit list \<times> acl_stats res" where
  "apply_acl_to_search_hits unjson unjson_list s hits ctx mode =
     (case (case mode of
              Audit \<Rightarrow> Inr (normalize_acl_context unjson ctx)
            | Enforce \<Rightarrow> (case validate_enforce_acl_context unjson ctx of Inl e \<Rightarrow> Inl e | Inr n \<Rightarrow> Inr (Some n))) of
        Inl e \<Rightarrow> (hits, Inl e)
      | Inr None \<Rightarrow> (hits, Inr (default_stats\<lparr>allowed := length hits\<rparr>))
      | Inr (Some n) \<Rightarrow>
          (let (stats, kept) = foldl (filter_step (hit_decision unjson unjson_list s (Some n)) mode)
                 (default_stats, []) hits
           in (if mode = Enforce
               then map (\<lambda>(i, hit). hit\<lparr>rank := i + 1\<rparr>) (enumerate 0 kept) else hits, Inr stats)))"

section \<open>Properties\<close>

text \<open>The policy, declaratively: the metadata parse, the tenants agree, and the frame is public or
  one of the caller's identities is on a read list.\<close>

definition may_read ::
  "(ustr \<Rightarrow> ustr option) \<Rightarrow> (ustr \<Rightarrow> ustr list option) \<Rightarrow> normalized_context \<Rightarrow> str_map \<Rightarrow> bool" where
  "may_read unjson unjson_list n md \<longleftrightarrow>
     (\<exists>p. parse_acl_metadata unjson unjson_list md = Some p \<and> p_tenant p = n_tenant n \<and>
        (p_visibility p = Public \<or> (\<exists>s. n_subject n = Some s \<and> s \<in> p_principals p) \<or>
         n_roles n \<inter> p_roles p \<noteq> {} \<or> n_groups n \<inter> p_groups p \<noteq> {}))"

definition readable ::
  "(ustr \<Rightarrow> ustr option) \<Rightarrow> (ustr \<Rightarrow> ustr list option) \<Rightarrow> 'z store_scheme \<Rightarrow> normalized_context
     \<Rightarrow> 'a search_hit \<Rightarrow> bool" where
  "readable unjson unjson_list s n hit \<longleftrightarrow>
     (\<exists>fr. frame_by_id s (hit_frame_id hit) = Inr fr \<and> may_read unjson unjson_list n (extra_metadata fr))"

lemmas decision_simps [acl_simps] = allow_def deny_cross_tenant_def deny_missing_metadata_def deny_restricted_def

lemma evaluate_allowed [acl_simps]:
  "is_allowed (evaluate_acl_metadata unjson unjson_list md (Some n)) \<longleftrightarrow> may_read unjson unjson_list n md"
  by (auto simp: evaluate_acl_metadata_def may_read_def decision_simps Let_def split: option.splits)

lemma hit_decision_allowed [acl_simps]:
  "is_allowed (hit_decision unjson unjson_list s (Some n) hit) \<longleftrightarrow> readable unjson unjson_list s n hit"
  by (auto simp: hit_decision_def readable_def acl_simps split: sum.splits)

lemma hit_decision_one_reason:
  "\<not> (cross_tenant_denied (hit_decision unjson unjson_list s c hit) \<and>
      missing_metadata_denied (hit_decision unjson unjson_list s c hit))"
  by (auto simp: hit_decision_def evaluate_acl_metadata_def decision_simps Let_def
      split: sum.splits option.splits)

text \<open>The loop: the kept hits are a filter, the statistics are counts.\<close>

definition count_stats :: "('h \<Rightarrow> acl_decision) \<Rightarrow> 'h list \<Rightarrow> acl_stats \<Rightarrow> acl_stats" where
  "count_stats dec hits st =
     \<lparr>allowed = allowed st + length (filter (\<lambda>h. is_allowed (dec h)) hits),
      denied = denied st + length (filter (\<lambda>h. \<not> is_allowed (dec h)) hits),
      cross_tenant = cross_tenant st + length (filter (\<lambda>h. \<not> is_allowed (dec h) \<and> cross_tenant_denied (dec h)) hits),
      missing_metadata = missing_metadata st +
        length (filter (\<lambda>h. \<not> is_allowed (dec h) \<and> missing_metadata_denied (dec h)) hits)\<rparr>"

lemma acl_loop:
  "foldl (filter_step dec mode) (st, ks) hits =
     (count_stats dec hits st, ks @ filter (\<lambda>h. is_allowed (dec h) \<or> mode = Audit) hits)"
  by (induction hits arbitrary: st ks)
    (auto simp: filter_step_def count_stats_def record_decision_def Let_def)

lemma count_stats_bounds:
  assumes "\<And>h. \<not> (cross_tenant_denied (dec h) \<and> missing_metadata_denied (dec h))"
  shows "allowed (count_stats dec hits default_stats) + denied (count_stats dec hits default_stats) = length hits \<and>
    cross_tenant (count_stats dec hits default_stats) + missing_metadata (count_stats dec hits default_stats)
      \<le> denied (count_stats dec hits default_stats)"
  using assms by (induction hits) (auto simp: count_stats_def default_stats_def)

text \<open>C10. Enforcement returns exactly the readable hits.  Without a context or a tenant it refuses
  and leaves the hits alone; otherwise the result is the sublist of the hits whose frame exists and
  whose policy admits the caller (same tenant, and public or on a read list), in order and ranked
  1, 2, 3, ...; the statistics count all hits, and at most one reason per denied hit.\<close>

theorem acl_enforce_exact:
  "case validate_enforce_acl_context unjson ctx of
     Inl e \<Rightarrow> apply_acl_to_search_hits unjson unjson_list s hits ctx Enforce = (hits, Inl e)
   | Inr n \<Rightarrow> \<exists>st. apply_acl_to_search_hits unjson unjson_list s hits ctx Enforce =
        (map (\<lambda>(i, hit). hit\<lparr>rank := i + 1\<rparr>) (enumerate 0 (filter (readable unjson unjson_list s n) hits)), Inr st) \<and>
        allowed st = length (filter (readable unjson unjson_list s n) hits) \<and>
        allowed st + denied st = length hits \<and> cross_tenant st + missing_metadata st \<le> denied st"
proof (cases "validate_enforce_acl_context unjson ctx")
  case (Inr n)
  let ?d = "hit_decision unjson unjson_list s (Some n)"
  have "allowed (count_stats ?d hits default_stats) = length (filter (readable unjson unjson_list s n) hits)"
    by (simp add: count_stats_def default_stats_def acl_simps)
  with Inr show ?thesis
    using count_stats_bounds [of ?d hits, OF hit_decision_one_reason]
    by (simp add: apply_acl_to_search_hits_def acl_loop acl_simps)
qed (simp add: apply_acl_to_search_hits_def)

text \<open>Audit never changes the hits and never fails, and with a usable context it reports exactly
  the statistics that enforcement would report.\<close>

theorem acl_audit_equivalent:
  "fst (apply_acl_to_search_hits unjson unjson_list s hits ctx Audit) = hits \<and>
   (\<exists>st. snd (apply_acl_to_search_hits unjson unjson_list s hits ctx Audit) = Inr st \<and>
     (case validate_enforce_acl_context unjson ctx of
        Inl e \<Rightarrow> st = default_stats\<lparr>allowed := length hits\<rparr>
      | Inr n \<Rightarrow> snd (apply_acl_to_search_hits unjson unjson_list s hits ctx Enforce) = Inr st))"
proof (cases "normalize_acl_context unjson ctx")
  case None
  moreover from this have "\<exists>e. validate_enforce_acl_context unjson ctx = Inl e"
    by (cases ctx) (simp_all add: validate_enforce_acl_context_def)
  ultimately show ?thesis by (auto simp: apply_acl_to_search_hits_def)
next
  case (Some n)
  moreover from this have "validate_enforce_acl_context unjson ctx = Inr n"
    by (cases ctx) (simp_all add: validate_enforce_acl_context_def normalize_acl_context_def)
  ultimately show ?thesis
    by (simp add: apply_acl_to_search_hits_def acl_loop)
qed

end
