(* ===== verification/Memory_Card.thy ===== *)
theory Memory_Card
  imports Prelude Text_Base
begin

text \<open>
  Memory cards (\<open>types/memory_card.rs\<close>): the enums with their string codecs, the card with its
  temporal order and supersession, and the builder.  \<open>lower\<close> is \<open>str::to_lowercase\<close>; a
  confidence is the bit pattern of its \<open>f32\<close>, \<open>clamp01\<close> is \<open>f32::clamp(0.0, 1.0)\<close>, and \<open>now\<close> is
  the clock.
\<close>

type_synonym card_id = u64

datatype memory_kind = Fact | Preference | Event | Profile | Relationship | Goal | Other

fun kind_str :: "memory_kind \<Rightarrow> ustr" where
  "kind_str Fact = lit ''fact''"
| "kind_str Preference = lit ''preference''"
| "kind_str Event = lit ''event''"
| "kind_str Profile = lit ''profile''"
| "kind_str Relationship = lit ''relationship''"
| "kind_str Goal = lit ''goal''"
| "kind_str Other = lit ''other''"

definition kind_from_str :: "(ustr \<Rightarrow> ustr) \<Rightarrow> ustr \<Rightarrow> memory_kind" where
  "kind_from_str lower s =
     (let l = lower s in
      if l = lit ''fact'' then Fact else if l = lit ''preference'' then Preference
      else if l = lit ''event'' then Event else if l = lit ''profile'' then Profile
      else if l = lit ''relationship'' then Relationship else if l = lit ''goal'' then Goal
      else Other)"

datatype version_relation = Sets | Updates | Extends | Retracts

fun relation_str :: "version_relation \<Rightarrow> ustr" where
  "relation_str Sets = lit ''sets''"
| "relation_str Updates = lit ''updates''"
| "relation_str Extends = lit ''extends''"
| "relation_str Retracts = lit ''retracts''"

definition relation_from_str :: "(ustr \<Rightarrow> ustr) \<Rightarrow> ustr \<Rightarrow> version_relation" where
  "relation_from_str lower s =
     (let l = lower s in
      if l = lit ''updates'' then Updates else if l = lit ''extends'' then Extends
      else if l = lit ''retracts'' then Retracts else Sets)"

datatype polarity = Positive | Negative | Neutral

fun polarity_str :: "polarity \<Rightarrow> ustr" where
  "polarity_str Positive = lit ''positive''"
| "polarity_str Negative = lit ''negative''"
| "polarity_str Neutral = lit ''neutral''"

definition polarity_from_str :: "(ustr \<Rightarrow> ustr) \<Rightarrow> ustr \<Rightarrow> polarity option" where
  "polarity_from_str lower s =
     (let l = lower s in
      if l = lit ''positive'' then Some Positive else if l = lit ''negative'' then Some Negative
      else if l = lit ''neutral'' then Some Neutral else None)"

text \<open>Writing and parsing agree, as soon as lower-casing leaves the names alone.\<close>

lemma names_roundtrip:
  assumes "\<And>s. s \<in> range kind_str \<union> range relation_str \<union> range polarity_str \<Longrightarrow> lower s = s"
  shows "kind_from_str lower (kind_str k) = k" "relation_from_str lower (relation_str r) = r"
    "polarity_from_str lower (polarity_str p) = Some p"
proof -
  have l: "lower (kind_str k) = kind_str k" "lower (relation_str r) = relation_str r"
    "lower (polarity_str p) = polarity_str p" by (simp_all add: assms)
  show "kind_from_str lower (kind_str k) = k"
    by (cases k) (use l(1) in \<open>simp_all add: kind_from_str_def Let_def lit_def\<close>)
  show "relation_from_str lower (relation_str r) = r"
    by (cases r) (use l(2) in \<open>simp_all add: relation_from_str_def Let_def lit_def\<close>)
  show "polarity_from_str lower (polarity_str p) = Some p"
    by (cases p) (use l(3) in \<open>simp_all add: polarity_from_str_def Let_def lit_def\<close>)
qed

section \<open>Cards\<close>

record memory_card =
  mc_id :: card_id
  mc_kind :: memory_kind
  mc_entity :: ustr
  mc_slot :: ustr
  mc_value :: ustr
  mc_polarity :: "polarity option"
  mc_event_date :: "i64 option"
  mc_document_date :: "i64 option"
  mc_version_key :: "ustr option"
  mc_relation :: version_relation
  mc_source_frame :: u64
  mc_source_uri :: "ustr option"
  mc_source_offset :: "(nat \<times> nat) option"
  mc_engine :: ustr
  mc_engine_version :: ustr
  mc_confidence :: "32 word option"
  mc_created_at :: i64

definition default_version_key :: "memory_card \<Rightarrow> ustr" where
  "default_version_key c = mc_entity c @ lit '':'' @ mc_slot c"

definition card_key :: "memory_card \<Rightarrow> ustr" where
  "card_key c = (case mc_version_key c of Some k \<Rightarrow> k | None \<Rightarrow> default_version_key c)"

definition dated :: "memory_card \<Rightarrow> i64" where
  "dated c = (case mc_event_date c of Some t \<Rightarrow> t | None \<Rightarrow>
     (case mc_document_date c of Some t \<Rightarrow> t | None \<Rightarrow> 0))"

definition supersedes_card :: "memory_card \<Rightarrow> memory_card \<Rightarrow> bool" where
  "supersedes_card c other =
     (if card_key c \<noteq> card_key other then False
      else (case mc_relation c of
        Updates \<Rightarrow> sint (dated other) < sint (dated c)
      | Retracts \<Rightarrow> sint (dated other) < sint (dated c)
      | Sets \<Rightarrow> False
      | Extends \<Rightarrow> False))"

definition effective_timestamp :: "memory_card \<Rightarrow> i64" where
  "effective_timestamp c = (case mc_event_date c of Some t \<Rightarrow> t | None \<Rightarrow>
     (case mc_document_date c of Some t \<Rightarrow> t | None \<Rightarrow> mc_created_at c))"

definition is_retracted :: "memory_card \<Rightarrow> bool" where
  "is_retracted c = (mc_relation c = Retracts)"

text \<open>Supersession is a strict partial order.\<close>

lemma supersedes_asym: "supersedes_card a b \<Longrightarrow> \<not> supersedes_card b a"
  by (auto simp: supersedes_card_def split: if_splits version_relation.splits)

lemma supersedes_trans: "supersedes_card a b \<Longrightarrow> supersedes_card b c \<Longrightarrow> supersedes_card a c"
  by (auto simp: supersedes_card_def split: if_splits version_relation.splits)

section \<open>The builder\<close>

record card_builder =
  cb_kind :: "memory_kind option"
  cb_entity :: "ustr option"
  cb_slot :: "ustr option"
  cb_value :: "ustr option"
  cb_polarity :: "polarity option"
  cb_event_date :: "i64 option"
  cb_document_date :: "i64 option"
  cb_version_key :: "ustr option"
  cb_relation :: version_relation
  cb_source_frame :: "u64 option"
  cb_source_uri :: "ustr option"
  cb_source_offset :: "(nat \<times> nat) option"
  cb_engine :: "ustr option"
  cb_engine_version :: "ustr option"
  cb_confidence :: "32 word option"

definition new_builder :: card_builder where
  "new_builder = \<lparr>cb_kind = None, cb_entity = None, cb_slot = None, cb_value = None, cb_polarity = None,
     cb_event_date = None, cb_document_date = None, cb_version_key = None, cb_relation = Sets,
     cb_source_frame = None, cb_source_uri = None, cb_source_offset = None, cb_engine = None,
     cb_engine_version = None, cb_confidence = None\<rparr>"

definition set_kind :: "memory_kind \<Rightarrow> card_builder \<Rightarrow> card_builder" where
  "set_kind k b = b\<lparr>cb_kind := Some k\<rparr>"

definition set_entity :: "ustr \<Rightarrow> card_builder \<Rightarrow> card_builder" where
  "set_entity e b = b\<lparr>cb_entity := Some e\<rparr>"

definition set_slot :: "ustr \<Rightarrow> card_builder \<Rightarrow> card_builder" where
  "set_slot s b = b\<lparr>cb_slot := Some s\<rparr>"

definition set_value :: "ustr \<Rightarrow> card_builder \<Rightarrow> card_builder" where
  "set_value v b = b\<lparr>cb_value := Some v\<rparr>"

definition set_polarity :: "polarity \<Rightarrow> card_builder \<Rightarrow> card_builder" where
  "set_polarity p b = b\<lparr>cb_polarity := Some p\<rparr>"

definition set_event_date :: "i64 \<Rightarrow> card_builder \<Rightarrow> card_builder" where
  "set_event_date t b = b\<lparr>cb_event_date := Some t\<rparr>"

definition set_document_date :: "i64 \<Rightarrow> card_builder \<Rightarrow> card_builder" where
  "set_document_date t b = b\<lparr>cb_document_date := Some t\<rparr>"

definition set_version_key :: "ustr \<Rightarrow> card_builder \<Rightarrow> card_builder" where
  "set_version_key k b = b\<lparr>cb_version_key := Some k\<rparr>"

definition set_relation :: "version_relation \<Rightarrow> card_builder \<Rightarrow> card_builder" where
  "set_relation r b = b\<lparr>cb_relation := r\<rparr>"

definition set_source :: "u64 \<Rightarrow> ustr option \<Rightarrow> card_builder \<Rightarrow> card_builder" where
  "set_source f u b = b\<lparr>cb_source_frame := Some f, cb_source_uri := u\<rparr>"

definition set_source_offset :: "nat \<Rightarrow> nat \<Rightarrow> card_builder \<Rightarrow> card_builder" where
  "set_source_offset i j b = b\<lparr>cb_source_offset := Some (i, j)\<rparr>"

definition set_engine :: "ustr \<Rightarrow> ustr \<Rightarrow> card_builder \<Rightarrow> card_builder" where
  "set_engine n v b = b\<lparr>cb_engine := Some n, cb_engine_version := Some v\<rparr>"

definition set_confidence :: "(32 word \<Rightarrow> 32 word) \<Rightarrow> 32 word \<Rightarrow> card_builder \<Rightarrow> card_builder" where
  "set_confidence clamp01 c b = b\<lparr>cb_confidence := Some (clamp01 c)\<rparr>"

text \<open>\<open>build\<close> names the first missing field, in the order of the code.\<close>

definition build_card :: "i64 \<Rightarrow> card_id \<Rightarrow> card_builder \<Rightarrow> string + memory_card" where
  "build_card now cid b =
     (case cb_kind b of None \<Rightarrow> Inl ''kind'' | Some k \<Rightarrow>
      case cb_entity b of None \<Rightarrow> Inl ''entity'' | Some e \<Rightarrow>
      case cb_slot b of None \<Rightarrow> Inl ''slot'' | Some s \<Rightarrow>
      case cb_value b of None \<Rightarrow> Inl ''value'' | Some v \<Rightarrow>
      case cb_source_frame b of None \<Rightarrow> Inl ''source_frame_id'' | Some f \<Rightarrow>
      case cb_engine b of None \<Rightarrow> Inl ''engine'' | Some en \<Rightarrow>
      case cb_engine_version b of None \<Rightarrow> Inl ''engine_version'' | Some ev \<Rightarrow>
      Inr \<lparr>mc_id = cid, mc_kind = k, mc_entity = e, mc_slot = s, mc_value = v,
        mc_polarity = cb_polarity b, mc_event_date = cb_event_date b,
        mc_document_date = cb_document_date b, mc_version_key = cb_version_key b,
        mc_relation = cb_relation b, mc_source_frame = f, mc_source_uri = cb_source_uri b,
        mc_source_offset = cb_source_offset b, mc_engine = en, mc_engine_version = ev,
        mc_confidence = cb_confidence b, mc_created_at = now\<rparr>)"

lemma build_card_complete:
  "(\<exists>c. build_card now cid b = Inr c) \<longleftrightarrow>
     cb_kind b \<noteq> None \<and> cb_entity b \<noteq> None \<and> cb_slot b \<noteq> None \<and> cb_value b \<noteq> None \<and>
     cb_source_frame b \<noteq> None \<and> cb_engine b \<noteq> None \<and> cb_engine_version b \<noteq> None"
  by (auto simp: build_card_def split: option.splits)

end
