(* ===== verification/Track_Blob.thy ===== *)
theory Track_Blob
  imports Prelude
begin

text \<open>
  The layout that the memories track and the logic mesh share: four magic bytes, a version
  (\<open>u16\<close>), the length of the compressed body (\<open>u64\<close>) and the body.  The bounds check
  \<open>data.len() < 14 + len\<close> adds in \<open>usize\<close>: a declared length within 14 of \<open>2^64\<close>
  overflows, which panics in a debug build; in a release build the wrapped bound passes and the
  slice \<open>14..14 + len\<close>, whose end lies before its start, panics.
\<close>

definition track_blob :: "bytes \<Rightarrow> u16 \<Rightarrow> bytes \<Rightarrow> bytes" where
  "track_blob magic ver body = magic @ to_le 2 ver @ to_le 8 (of_nat (length body) :: u64) @ body"

definition blob_body :: "mv_error \<Rightarrow> bytes \<Rightarrow> bytes res" where
  "blob_body short data =
     (let len = le_dec (bslice data 6 8) in
      if 2 ^ 64 \<le> 14 + len then Inl (Panic ''arithmetic overflow or slice out of range'')
      else if length data < 14 + len then Inl short
      else Inr (bslice data 14 len))"

lemma track_blob_parts:
  assumes "length magic = 4" "length body < 2 ^ 64"
  shows "length (track_blob magic ver body) = 14 + length body"
    "bslice (track_blob magic ver body) 0 4 = magic"
    "bslice (track_blob magic ver body) 4 2 = to_le 2 ver"
    "le_dec (bslice (track_blob magic ver body) 6 8) = length body"
    "bslice (track_blob magic ver body) 14 (length body) = body"
proof -
  have "le_dec (to_le 8 (of_nat (length body) :: u64)) = length body"
    using assms(2) by (simp add: to_le_def unat_of_nat take_bit_eq_mod le_dec_enc)
  then show "le_dec (bslice (track_blob magic ver body) 6 8) = length body"
    by (simp add: track_blob_def bslice_def assms(1))
qed (simp_all add: track_blob_def bslice_def assms(1))

lemma blob_body_blob:
  assumes "length magic = 4" "14 + length body < 2 ^ 64"
  shows "blob_body short (track_blob magic ver body) = Inr body"
proof -
  have "length body < 2 ^ 64" using assms(2) by simp
  note parts = track_blob_parts [OF assms(1) this]
  show ?thesis using assms(2) by (simp add: blob_body_def Let_def parts)
qed

text \<open>Every other declared length is checked against the bytes present.\<close>

lemma blob_body_cases:
  assumes "14 \<le> length data"
  shows "blob_body short data =
     (if 2 ^ 64 \<le> 14 + le_dec (bslice data 6 8) then Inl (Panic ''arithmetic overflow or slice out of range'')
      else if length data < 14 + le_dec (bslice data 6 8) then Inl short
      else Inr (take (le_dec (bslice data 6 8)) (drop 14 data)))"
  by (simp add: blob_body_def Let_def bslice_def)

end
