(* ===== verification/Memories_Track.thy ===== *)
theory Memories_Track
  imports Memory_Card Track_Blob "HOL-Library.AList" "HOL-Library.List_Lexorder" "HOL-Library.Multiset"
begin

text \<open>
  The memories track (\<open>types/memories_track.rs\<close>): the slot index, the enrichment manifest, the
  track with its queries, and its storage format.  A \<open>HashMap\<close> is the list of its entries in
  the order in which it iterates; since that order is arbitrary, reachability below has a rule
  that permutes it.  \<open>lower\<close> is \<open>str::to_lowercase\<close>, \<open>now\<close> the clock in seconds; the
  \<open>serde_json\<close> and \<open>zstd\<close> calls are parameters of the storage functions.
\<close>

definition MEMORIES_TRACK_MAGIC :: bytes where "MEMORIES_TRACK_MAGIC = [77, 86, 77, 67]"
definition MEMORIES_TRACK_VERSION :: u16 where "MEMORIES_TRACK_VERSION = 1"

section \<open>Slot index\<close>

definition slot_key :: "(ustr \<Rightarrow> ustr) \<Rightarrow> ustr \<Rightarrow> ustr \<Rightarrow> ustr" where
  "slot_key lower entity slot = lower entity @ lit '':'' @ lower slot"

definition parse_slot_key :: "ustr \<Rightarrow> (ustr \<times> ustr) option" where
  "parse_slot_key key =
     (case dropWhile (\<lambda>c. c \<noteq> 58) key of
        [] \<Rightarrow> None
      | _ # r \<Rightarrow> Some (takeWhile (\<lambda>c. c \<noteq> 58) key, r))"

record slot_index =
  entries :: "(ustr \<times> card_id list) list"

definition si_insert :: "(ustr \<Rightarrow> ustr) \<Rightarrow> slot_index \<Rightarrow> memory_card \<Rightarrow> slot_index" where
  "si_insert lower si c =
     si\<lparr>entries := AList.map_default (slot_key lower (mc_entity c) (mc_slot c)) [mc_id c]
                    (\<lambda>ids. mc_id c # ids) (entries si)\<rparr>"

definition si_get :: "(ustr \<Rightarrow> ustr) \<Rightarrow> slot_index \<Rightarrow> ustr \<Rightarrow> ustr \<Rightarrow> card_id list option" where
  "si_get lower si entity slot =
     (let key = slot_key lower entity slot in
      case map_of (entries si) key of
        Some ids \<Rightarrow> Some ids
      | None \<Rightarrow> map_option snd (find (\<lambda>(k, ids). lower k = key) (entries si)))"

definition get_by_entity :: "(ustr \<Rightarrow> ustr) \<Rightarrow> slot_index \<Rightarrow> ustr \<Rightarrow> card_id list" where
  "get_by_entity lower si entity =
     concat (map snd (filter (\<lambda>(k, ids). starts_with (lower k) (lower entity @ lit '':'')) (entries si)))"

definition si_entities :: "slot_index \<Rightarrow> ustr list" where
  "si_entities si =
     remdups_adj (sort (List.map_filter (\<lambda>(k, ids). map_option fst (parse_slot_key k)) (entries si)))"

definition slots_for_entity :: "(ustr \<Rightarrow> ustr) \<Rightarrow> slot_index \<Rightarrow> ustr \<Rightarrow> ustr list" where
  "slots_for_entity lower si entity =
     remdups_adj (sort (List.map_filter (\<lambda>(k, ids). map_option snd (parse_slot_key k))
       (filter (\<lambda>(k, ids). starts_with k (lower entity @ lit '':'')) (entries si))))"

definition si_clear :: "slot_index \<Rightarrow> slot_index" where
  "si_clear si = si\<lparr>entries := []\<rparr>"

definition si_len :: "slot_index \<Rightarrow> nat" where
  "si_len si = sum_list (map (\<lambda>(k, ids). length ids) (entries si))"

section \<open>Enrichment manifest\<close>

record engine_stamp =
  engine_kind :: ustr
  engine_version :: ustr
  enriched_at :: i64
  card_ids :: "card_id list"

record enrichment_record =
  er_frame_id :: u64
  stamps :: "engine_stamp list"

record enrichment_manifest =
  em_frames :: "(u64 \<times> enrichment_record) list"
  total_frames_enriched :: nat
  total_cards_created :: nat
  last_enrichment :: "i64 option"

definition empty_manifest :: enrichment_manifest where
  "empty_manifest = \<lparr>em_frames = [], total_frames_enriched = 0, total_cards_created = 0,
     last_enrichment = None\<rparr>"

definition needs_engine :: "enrichment_manifest \<Rightarrow> u64 \<Rightarrow> ustr \<Rightarrow> ustr \<Rightarrow> bool" where
  "needs_engine m fid kind ver =
     (case map_of (em_frames m) fid of
        None \<Rightarrow> True
      | Some r \<Rightarrow> \<not> list_ex (\<lambda>s. engine_kind s = kind \<and> engine_version s = ver) (stamps r))"

definition frames_needing_enrichment ::
  "enrichment_manifest \<Rightarrow> u64 list \<Rightarrow> ustr \<Rightarrow> ustr \<Rightarrow> u64 list" where
  "frames_needing_enrichment m fids kind ver = filter (\<lambda>fid. needs_engine m fid kind ver) fids"

definition record_engine ::
  "i64 \<Rightarrow> enrichment_manifest \<Rightarrow> u64 \<Rightarrow> ustr \<Rightarrow> ustr \<Rightarrow> card_id list \<Rightarrow> enrichment_manifest" where
  "record_engine now m fid kind ver ids =
     (let stamp = \<lparr>engine_kind = kind, engine_version = ver, enriched_at = now, card_ids = ids\<rparr>;
          fresh = (map_of (em_frames m) fid = None) in
      m\<lparr>em_frames := AList.map_default fid \<lparr>er_frame_id = fid, stamps = [stamp]\<rparr>
                       (\<lambda>r. r\<lparr>stamps := stamps r @ [stamp]\<rparr>) (em_frames m),
        total_frames_enriched := total_frames_enriched m + (if fresh then 1 else 0),
        total_cards_created := total_cards_created m + length ids,
        last_enrichment := Some now\<rparr>)"

definition get_record :: "enrichment_manifest \<Rightarrow> u64 \<Rightarrow> enrichment_record option" where
  "get_record m fid = map_of (em_frames m) fid"

definition enriched_frames :: "enrichment_manifest \<Rightarrow> u64 list" where
  "enriched_frames m = map fst (em_frames m)"

definition manifest_clear :: "enrichment_manifest \<Rightarrow> enrichment_manifest" where
  "manifest_clear m = m\<lparr>em_frames := [], total_frames_enriched := 0, total_cards_created := 0,
     last_enrichment := None\<rparr>"

section \<open>The track\<close>

record memories_track =
  mt_cards :: "memory_card list"
  next_id :: card_id
  mt_index :: slot_index
  mt_manifest :: enrichment_manifest

definition empty_track :: memories_track where
  "empty_track = \<lparr>mt_cards = [], next_id = 0, mt_index = \<lparr>entries = []\<rparr>, mt_manifest = empty_manifest\<rparr>"

definition stored_card :: "card_id \<Rightarrow> memory_card \<Rightarrow> memory_card" where
  "stored_card cid c =
     c\<lparr>mc_id := cid,
       mc_version_key := (case mc_version_key c of
          None \<Rightarrow> Some (default_version_key c) | Some k \<Rightarrow> Some k)\<rparr>"

definition add_card :: "(ustr \<Rightarrow> ustr) \<Rightarrow> memories_track \<Rightarrow> memory_card \<Rightarrow> card_id \<times> memories_track" where
  "add_card lower t c =
     (let cid = next_id t; c' = stored_card cid c in
      (cid, t\<lparr>next_id := cid + 1, mt_index := si_insert lower (mt_index t) c',
              mt_cards := mt_cards t @ [c']\<rparr>))"

fun add_cards ::
  "(ustr \<Rightarrow> ustr) \<Rightarrow> memories_track \<Rightarrow> memory_card list \<Rightarrow> card_id list \<times> memories_track" where
  "add_cards lower t [] = ([], t)"
| "add_cards lower t (c # cs) =
     (let (i, t1) = add_card lower t c; (is', t2) = add_cards lower t1 cs in (i # is', t2))"

definition get_card :: "memories_track \<Rightarrow> card_id \<Rightarrow> memory_card option" where
  "get_card t cid = find (\<lambda>c. mc_id c = cid) (mt_cards t)"

definition record_enrichment ::
  "i64 \<Rightarrow> memories_track \<Rightarrow> u64 \<Rightarrow> ustr \<Rightarrow> ustr \<Rightarrow> card_id list \<Rightarrow> memories_track" where
  "record_enrichment now t fid kind ver ids =
     t\<lparr>mt_manifest := record_engine now (mt_manifest t) fid kind ver ids\<rparr>"

definition is_enriched_by :: "memories_track \<Rightarrow> u64 \<Rightarrow> ustr \<Rightarrow> ustr \<Rightarrow> bool" where
  "is_enriched_by t fid kind ver = (\<not> needs_engine (mt_manifest t) fid kind ver)"

definition get_cards :: "(ustr \<Rightarrow> ustr) \<Rightarrow> memories_track \<Rightarrow> ustr \<Rightarrow> ustr \<Rightarrow> memory_card list" where
  "get_cards lower t entity slot =
     (case si_get lower (mt_index t) entity slot of
        None \<Rightarrow> []
      | Some ids \<Rightarrow> List.map_filter (get_card t) ids)"

definition newest_first :: "memory_card list \<Rightarrow> memory_card list" where
  "newest_first = sort_key (\<lambda>c. - sint (effective_timestamp c))"

definition get_current :: "(ustr \<Rightarrow> ustr) \<Rightarrow> memories_track \<Rightarrow> ustr \<Rightarrow> ustr \<Rightarrow> memory_card option" where
  "get_current lower t entity slot =
     find (\<lambda>c. \<not> is_retracted c) (newest_first (get_cards lower t entity slot))"

definition get_at_time ::
  "(ustr \<Rightarrow> ustr) \<Rightarrow> memories_track \<Rightarrow> ustr \<Rightarrow> ustr \<Rightarrow> i64 \<Rightarrow> memory_card option" where
  "get_at_time lower t entity slot ts =
     find (\<lambda>c. \<not> is_retracted c)
       (newest_first (filter (\<lambda>c. sint (effective_timestamp c) \<le> sint ts) (get_cards lower t entity slot)))"

definition get_entity_cards :: "(ustr \<Rightarrow> ustr) \<Rightarrow> memories_track \<Rightarrow> ustr \<Rightarrow> memory_card list" where
  "get_entity_cards lower t entity = List.map_filter (get_card t) (get_by_entity lower (mt_index t) entity)"

definition aggregate_step :: "ustr list \<Rightarrow> memory_card \<Rightarrow> ustr list" where
  "aggregate_step vals c =
     (case mc_relation c of
        Extends \<Rightarrow> if mc_value c \<in> set vals then vals else vals @ [mc_value c]
      | Retracts \<Rightarrow> filter (\<lambda>v. v \<noteq> mc_value c) vals
      | Sets \<Rightarrow> if mc_value c \<in> set vals then vals else vals @ [mc_value c]
      | Updates \<Rightarrow> if mc_value c \<in> set vals then vals else vals @ [mc_value c])"

definition aggregate_slot :: "(ustr \<Rightarrow> ustr) \<Rightarrow> memories_track \<Rightarrow> ustr \<Rightarrow> ustr \<Rightarrow> ustr list" where
  "aggregate_slot lower t entity slot = foldl aggregate_step [] (get_cards lower t entity slot)"

definition count_occurrences ::
  "(ustr \<Rightarrow> ustr) \<Rightarrow> memories_track \<Rightarrow> ustr \<Rightarrow> ustr \<Rightarrow> ustr option \<Rightarrow> nat" where
  "count_occurrences lower t entity slot value_filter =
     length (filter (\<lambda>c. case value_filter of
         Some v \<Rightarrow> str_contains (lower (mc_value c)) (lower v)
       | None \<Rightarrow> True) (get_cards lower t entity slot))"

definition get_timeline :: "(ustr \<Rightarrow> ustr) \<Rightarrow> memories_track \<Rightarrow> ustr \<Rightarrow> memory_card list" where
  "get_timeline lower t entity =
     sort_key (\<lambda>c. sint (effective_timestamp c))
       (filter (\<lambda>c. mc_kind c = Event) (get_entity_cards lower t entity))"

definition get_preferences :: "(ustr \<Rightarrow> ustr) \<Rightarrow> memories_track \<Rightarrow> ustr \<Rightarrow> memory_card list" where
  "get_preferences lower t entity =
     filter (\<lambda>c. mc_kind c = Preference) (get_entity_cards lower t entity)"

definition get_positive_preferences :: "(ustr \<Rightarrow> ustr) \<Rightarrow> memories_track \<Rightarrow> ustr \<Rightarrow> memory_card list" where
  "get_positive_preferences lower t entity =
     filter (\<lambda>c. mc_polarity c = Some Positive) (get_preferences lower t entity)"

definition clear_track :: "memories_track \<Rightarrow> memories_track" where
  "clear_track t = t\<lparr>mt_cards := [], next_id := 0, mt_index := si_clear (mt_index t),
     mt_manifest := manifest_clear (mt_manifest t)\<rparr>"

record memories_stats =
  card_count :: nat
  entity_count :: nat
  slot_count :: nat
  cards_by_kind :: "(ustr \<times> nat) list"
  stat_enriched_frames :: nat
  stat_last_enrichment :: "i64 option"

definition track_stats :: "memories_track \<Rightarrow> memories_stats" where
  "track_stats t =
     \<lparr>card_count = length (mt_cards t), entity_count = length (si_entities (mt_index t)),
      slot_count = si_len (mt_index t),
      cards_by_kind = foldl (\<lambda>m c. AList.map_default (kind_str (mc_kind c)) 1 Suc m) [] (mt_cards t),
      stat_enriched_frames = total_frames_enriched (mt_manifest t),
      stat_last_enrichment = last_enrichment (mt_manifest t)\<rparr>"

section \<open>Storage\<close>

definition serialize_track ::
  "(memories_track \<Rightarrow> bytes option) \<Rightarrow> (bytes \<Rightarrow> bytes option) \<Rightarrow> memories_track \<Rightarrow> bytes res" where
  "serialize_track to_json zstd t =
     (case to_json t of
        None \<Rightarrow> Inl (InvalidHeader ''failed to serialize memories track'')
      | Some j \<Rightarrow>
          (case zstd j of
             None \<Rightarrow> Inl (InvalidHeader ''failed to compress memories track'')
           | Some z \<Rightarrow> Inr (track_blob MEMORIES_TRACK_MAGIC MEMORIES_TRACK_VERSION z)))"

definition deserialize_track ::
  "(bytes \<Rightarrow> memories_track option) \<Rightarrow> (bytes \<Rightarrow> bytes option) \<Rightarrow> bytes \<Rightarrow> memories_track res" where
  "deserialize_track from_json unzstd data =
     (if length data < 14 then Inl (InvalidHeader ''memories track too short'')
      else if bslice data 0 4 \<noteq> MEMORIES_TRACK_MAGIC then Inl (InvalidHeader ''invalid memories track magic'')
      else if from_le (bslice data 4 2) \<noteq> MEMORIES_TRACK_VERSION
        then Inl (InvalidHeader ''unsupported memories version'')
      else (case blob_body (InvalidHeader ''memories track data truncated'') data of
          Inl e \<Rightarrow> Inl e
        | Inr z \<Rightarrow>
            (case unzstd z of
               None \<Rightarrow> Inl (InvalidHeader ''failed to decompress memories track'')
             | Some j \<Rightarrow>
                 (case from_json j of
                    None \<Rightarrow> Inl (InvalidHeader ''failed to deserialize memories track'')
                  | Some t \<Rightarrow> Inr t))))"

section \<open>The index as an interface\<close>

text \<open>
  What the queries need of the slot index: after an insert, a lookup gives the new identifier in
  front of the earlier ones when the card belongs to the key, and what it gave before otherwise.
  Hence an index filled from a list of cards answers with the matching cards, newest first.
\<close>

definition indexes ::
  "('i \<Rightarrow> 'k \<Rightarrow> 'n list) \<Rightarrow> ('c \<Rightarrow> 'n) \<Rightarrow> ('c \<Rightarrow> 'k \<Rightarrow> bool) \<Rightarrow> 'i \<Rightarrow> 'c list \<Rightarrow> bool" where
  "indexes look ident hit i cs \<longleftrightarrow> (\<forall>k. look i k = map ident (rev (filter (\<lambda>c. hit c k) cs)))"

locale multi_index =
  fixes ok :: "'i \<Rightarrow> bool"
    and ins :: "'i \<Rightarrow> 'c \<Rightarrow> 'i"
    and look :: "'i \<Rightarrow> 'k \<Rightarrow> 'n list"
    and ident :: "'c \<Rightarrow> 'n"
    and hit :: "'c \<Rightarrow> 'k \<Rightarrow> bool"
  assumes ok_ins: "ok i \<Longrightarrow> ok (ins i c)"
    and look_ins: "ok i \<Longrightarrow> look (ins i c) k = (if hit c k then [ident c] else []) @ look i k"
begin

lemma indexes_ins:
  "ok i \<Longrightarrow> indexes look ident hit i cs \<Longrightarrow> indexes look ident hit (ins i c) (cs @ [c])"
  by (simp add: indexes_def look_ins)

lemma ok_foldl: "ok i \<Longrightarrow> ok (foldl ins i cs)"
  by (induction cs arbitrary: i) (simp_all add: ok_ins)

lemma indexes_foldl:
  "ok i \<Longrightarrow> indexes look ident hit i cs \<Longrightarrow> indexes look ident hit (foldl ins i ds) (cs @ ds)"
proof (induction ds arbitrary: i cs)
  case (Cons d ds)
  then show ?case using Cons.IH [OF ok_ins indexes_ins] by fastforce
qed simp

end

definition card_slot :: "(ustr \<Rightarrow> ustr) \<Rightarrow> memory_card \<Rightarrow> ustr" where
  "card_slot lower c = slot_key lower (mc_entity c) (mc_slot c)"

definition slot_hit :: "(ustr \<Rightarrow> ustr) \<Rightarrow> memory_card \<Rightarrow> ustr \<times> ustr \<Rightarrow> bool" where
  "slot_hit lower c k = (card_slot lower c = slot_key lower (fst k) (snd k))"

definition slot_ids :: "(ustr \<Rightarrow> ustr) \<Rightarrow> slot_index \<Rightarrow> ustr \<times> ustr \<Rightarrow> card_id list" where
  "slot_ids lower si k = (case si_get lower si (fst k) (snd k) of None \<Rightarrow> [] | Some ids \<Rightarrow> ids)"

text \<open>Lower-casing leaves an already lower-cased key alone.\<close>

definition lower_fixes :: "(ustr \<Rightarrow> ustr) \<Rightarrow> bool" where
  "lower_fixes lower \<longleftrightarrow> (\<forall>e s. lower (slot_key lower e s) = slot_key lower e s)"

definition slots_ok :: "(ustr \<Rightarrow> ustr) \<Rightarrow> slot_index \<Rightarrow> bool" where
  "slots_ok lower si \<longleftrightarrow> lower_fixes lower \<and> distinct (map fst (entries si)) \<and>
     (\<forall>k \<in> fst ` set (entries si). lower k = k)"

lemma slot_ids_map_of:
  assumes "slots_ok lower si"
  shows "slot_ids lower si k =
     (case map_of (entries si) (slot_key lower (fst k) (snd k)) of None \<Rightarrow> [] | Some ids \<Rightarrow> ids)"
proof (cases "map_of (entries si) (slot_key lower (fst k) (snd k))")
  case None
  have "find (\<lambda>(k', ids). lower k' = slot_key lower (fst k) (snd k)) (entries si) = None"
  proof -
    have "lower k' \<noteq> slot_key lower (fst k) (snd k)" if "(k', ids) \<in> set (entries si)" for k' ids
    proof -
      have "k' \<in> fst ` set (entries si)" using that by force
      moreover from this have "lower k' = k'" using assms unfolding slots_ok_def by blast
      ultimately show ?thesis using None by (metis map_of_eq_None_iff)
    qed
    then show ?thesis by (auto simp: find_None_iff)
  qed
  with None show ?thesis by (simp add: slot_ids_def si_get_def Let_def)
qed (simp add: slot_ids_def si_get_def Let_def)

lemma slots_ok_insert: "slots_ok lower si \<Longrightarrow> slots_ok lower (si_insert lower si c)"
  by (simp add: slots_ok_def si_insert_def AList.distinct_map_default AList.dom_map_default lower_fixes_def)

interpretation slots: multi_index "slots_ok lower" "si_insert lower" "slot_ids lower" mc_id
    "slot_hit lower" for lower
proof
  fix si c k
  assume ok: "slots_ok lower si"
  then show "slots_ok lower (si_insert lower si c)" by (rule slots_ok_insert)
  show "slot_ids lower (si_insert lower si c) k =
      (if slot_hit lower c k then [mc_id c] else []) @ slot_ids lower si k"
    using ok by (simp add: slot_ids_map_of slots_ok_insert)
      (simp add: si_insert_def AList.map_of_map_default slot_hit_def card_slot_def split: option.split)
qed

section \<open>Reachable tracks\<close>

inductive track_reach :: "(ustr \<Rightarrow> ustr) \<Rightarrow> memories_track \<Rightarrow> bool" for lower where
  start: "track_reach lower empty_track"
| add: "track_reach lower t \<Longrightarrow> track_reach lower (snd (add_card lower t c))"
| enrich: "track_reach lower t \<Longrightarrow> track_reach lower (record_enrichment now t fid kind ver ids)"
| clear: "track_reach lower t \<Longrightarrow> track_reach lower (clear_track t)"
| rehash: "track_reach lower t \<Longrightarrow> mset es = mset (entries (mt_index t)) \<Longrightarrow>
     track_reach lower (t\<lparr>mt_index := \<lparr>entries = es\<rparr>\<rparr>)"

definition track_inv :: "(ustr \<Rightarrow> ustr) \<Rightarrow> memories_track \<Rightarrow> bool" where
  "track_inv lower t \<longleftrightarrow>
     slots_ok lower (mt_index t) \<and>
     indexes (slot_ids lower) mc_id (slot_hit lower) (mt_index t) (mt_cards t) \<and>
     next_id t = of_nat (length (mt_cards t)) \<and>
     map mc_id (mt_cards t) = map of_nat [0..<length (mt_cards t)]"

lemma inv_empty: "lower_fixes lower \<Longrightarrow> track_inv lower empty_track"
  by (simp add: track_inv_def empty_track_def slots_ok_def indexes_def slot_ids_def si_get_def Let_def)

lemma inv_add:
  assumes "track_inv lower t"
  shows "track_inv lower (snd (add_card lower t c))"
proof -
  have i: "slots_ok lower (mt_index t)"
    "indexes (slot_ids lower) mc_id (slot_hit lower) (mt_index t) (mt_cards t)"
    using assms by (simp_all add: track_inv_def)
  show ?thesis
    using assms slots.indexes_ins [OF i] slots.ok_ins [OF i(1)]
    by (simp add: track_inv_def add_card_def Let_def) (simp add: stored_card_def)
qed

lemma inv_rehash:
  assumes "track_inv lower t" "mset es = mset (entries (mt_index t))"
  shows "track_inv lower (t\<lparr>mt_index := \<lparr>entries = es\<rparr>\<rparr>)"
proof -
  let ?o = "mt_index t" and ?n = "\<lparr>entries = es\<rparr>"
  have o: "slots_ok lower ?o" using assms(1) by (simp add: track_inv_def)
  then have d: "distinct (map fst (entries ?o))" by (simp add: slots_ok_def)
  have "mset (map fst es) = mset (map fst (entries ?o))" using assms(2) by simp
  then have d': "distinct (map fst es)" using d by (metis mset_eq_imp_distinct_iff)
  have st: "set es = set (entries ?o)" using assms(2) by (metis set_mset_mset)
  then have m: "map_of es = map_of (entries ?o)" using d d' by (metis map_of_inject_set)
  have n: "slots_ok lower ?n" using o d' st by (simp add: slots_ok_def)
  have "slot_ids lower ?n k = slot_ids lower ?o k" for k
    by (simp add: slot_ids_map_of [OF o] slot_ids_map_of [OF n] m)
  with n assms(1) show ?thesis by (simp add: track_inv_def indexes_def)
qed

lemma reach_inv:
  assumes "track_reach lower t" "lower_fixes lower"
  shows "track_inv lower t"
  using assms(1)
proof induction
  case (clear t)
  then show ?case
    by (simp add: track_inv_def clear_track_def si_clear_def slots_ok_def indexes_def slot_ids_def
        si_get_def Let_def)
next
  case (enrich t now fid kind ver ids)
  then show ?case by (simp add: track_inv_def record_enrichment_def)
qed (simp_all add: inv_empty inv_add inv_rehash assms(2))

lemma inv_get_card:
  assumes "track_inv lower t" "length (mt_cards t) \<le> 2 ^ 64" "i < length (mt_cards t)"
  shows "mc_id (mt_cards t ! i) = of_nat i" "get_card t (of_nat i) = Some (mt_cards t ! i)"
proof -
  have ids: "mc_id (mt_cards t ! j) = of_nat j" if "j < length (mt_cards t)" for j
  proof -
    have "map mc_id (mt_cards t) ! j = map of_nat [0..<length (mt_cards t)] ! j"
      using assms(1) by (simp add: track_inv_def)
    with that show ?thesis by simp
  qed
  show "mc_id (mt_cards t ! i) = of_nat i" by (rule ids [OF assms(3)])
  have "(of_nat j :: u64) \<noteq> of_nat i" if "j < i" for j
  proof
    assume "(of_nat j :: u64) = of_nat i"
    then have "unat (of_nat j :: u64) = unat (of_nat i :: u64)" by simp
    with that assms(2,3) show False by (simp add: unat_of_nat take_bit_eq_mod)
  qed
  with ids assms(3) show "get_card t (of_nat i) = Some (mt_cards t ! i)"
    unfolding get_card_def find_Some_iff by (intro exI [of _ i]) auto
qed

lemma inv_get_card_in:
  assumes "track_inv lower t" "length (mt_cards t) \<le> 2 ^ 64" "c \<in> set (mt_cards t)"
  shows "get_card t (mc_id c) = Some c"
  using assms(3) inv_get_card [OF assms(1,2)] by (auto simp: in_set_conv_nth)

lemma map_filter_total: "(\<And>x. x \<in> set xs \<Longrightarrow> f (g x) = Some x) \<Longrightarrow> List.map_filter f (map g xs) = xs"
  by (induction xs) (simp_all add: map_filter_simps)

lemma inv_get_cards:
  assumes "track_inv lower t" "length (mt_cards t) \<le> 2 ^ 64"
  shows "get_cards lower t e s = rev (filter (\<lambda>c. card_slot lower c = slot_key lower e s) (mt_cards t))"
proof -
  have "slot_ids lower (mt_index t) (e, s) =
      map mc_id (rev (filter (\<lambda>c. card_slot lower c = slot_key lower e s) (mt_cards t)))"
    using assms(1) by (simp add: track_inv_def indexes_def slot_hit_def)
  moreover have "get_cards lower t e s = List.map_filter (get_card t) (slot_ids lower (mt_index t) (e, s))"
    by (simp add: get_cards_def slot_ids_def map_filter_simps split: option.split)
  ultimately show ?thesis
    by (simp only:) (rule map_filter_total, simp add: inv_get_card_in [OF assms])
qed


section \<open>Retractions\<close>

lemma find_filter: "find P xs = (case filter P xs of [] \<Rightarrow> None | x # _ \<Rightarrow> Some x)"
  by (induction xs) auto

text \<open>The first element of a stable sort.\<close>

lemma sort_key_first:
  assumes "sort_key f xs = y # r"
  shows "y \<in> set xs" "\<forall>x \<in> set xs. f y \<le> f x" "y = hd (filter (\<lambda>x. f x = f y) xs)"
proof -
  have st: "set xs = insert y (set r)" using assms by (metis list.set(2) set_sort)
  then show "y \<in> set xs" by simp
  have "sorted (map f (y # r))" using sorted_sort_key [of f xs] assms by simp
  with st show "\<forall>x \<in> set xs. f y \<le> f x" by auto
  have "filter (\<lambda>x. f x = f y) xs = filter (\<lambda>x. f x = f y) (y # r)"
    using sort_key_stable [of f "f y" xs] assms by simp
  then show "y = hd (filter (\<lambda>x. f x = f y) xs)" by simp
qed

lemma current_filter:
  "get_current lower t e s =
     (case newest_first (filter (\<lambda>c. \<not> is_retracted c) (get_cards lower t e s)) of
        [] \<Rightarrow> None | c # _ \<Rightarrow> Some c)"
  by (simp add: get_current_def find_filter newest_first_def filter_sort)

lemma at_time_filter:
  "get_at_time lower t e s ts =
     (case newest_first (filter (\<lambda>c. sint (effective_timestamp c) \<le> sint ts)
          (filter (\<lambda>c. \<not> is_retracted c) (get_cards lower t e s))) of
        [] \<Rightarrow> None | c # _ \<Rightarrow> Some c)"
  by (simp add: get_at_time_def find_filter newest_first_def filter_sort conj_commute)

lemma get_cards_add:
  assumes "track_reach lower t" "lower_fixes lower" "length (mt_cards t) < 2 ^ 64"
  shows "get_cards lower (snd (add_card lower t c)) e s =
     (if card_slot lower c = slot_key lower e s then [stored_card (next_id t) c] else [])
       @ get_cards lower t e s"
proof -
  have i: "track_inv lower t" by (rule reach_inv [OF assms(1,2)])
  have l: "length (mt_cards (snd (add_card lower t c))) \<le> 2 ^ 64"
    using assms(3) by (simp add: add_card_def Let_def)
  have "length (mt_cards t) \<le> 2 ^ 64" using assms(3) by simp
  from inv_get_cards [OF i this] inv_get_cards [OF inv_add [OF i] l] show ?thesis
    by (simp add: add_card_def Let_def card_slot_def) (simp add: stored_card_def)
qed

lemma is_retracted_stored [simp]: "is_retracted (stored_card i c) = is_retracted c"
  by (simp add: is_retracted_def stored_card_def)

section \<open>Properties\<close>


definition live_cards :: "(ustr \<Rightarrow> ustr) \<Rightarrow> memories_track \<Rightarrow> ustr \<Rightarrow> ustr \<Rightarrow> memory_card list" where
  "live_cards lower t e s =
     filter (\<lambda>c. slot_key lower (mc_entity c) (mc_slot c) = slot_key lower e s \<and>
       mc_relation c \<noteq> Retracts) (mt_cards t)"

text \<open>\<open>get_current\<close> gives a card of the slot that is no retraction, of the latest effective
  time among these and, of those, the one added last; it gives none exactly when the slot holds
  retractions only.\<close>

theorem current_is_latest:
  assumes "lower_fixes lower" "track_reach lower t" "length (mt_cards t) \<le> 2 ^ 64"
  shows "case get_current lower t e s of
      None \<Rightarrow> live_cards lower t e s = []
    | Some c \<Rightarrow> c \<in> set (live_cards lower t e s) \<and>
        (\<forall>d \<in> set (live_cards lower t e s). sint (effective_timestamp d) \<le> sint (effective_timestamp c)) \<and>
        c = last (filter (\<lambda>d. sint (effective_timestamp d) = sint (effective_timestamp c))
                   (live_cards lower t e s))"
proof -
  let ?live = "live_cards lower t e s"
  have "filter (\<lambda>c. \<not> is_retracted c) (get_cards lower t e s) = rev ?live"
    by (simp add: inv_get_cards [OF reach_inv [OF assms(2,1)] assms(3)] live_cards_def card_slot_def
        is_retracted_def rev_filter [symmetric] conj_commute)
  then have cur: "get_current lower t e s = (case newest_first (rev ?live) of [] \<Rightarrow> None | c # _ \<Rightarrow> Some c)"
    by (simp add: current_filter)
  show ?thesis
  proof (cases "newest_first (rev ?live)")
    case Nil
    then have "?live = []" by (metis newest_first_def length_sort list.size(3) length_0_conv length_rev)
    with cur Nil show ?thesis by simp
  next
    case (Cons c r)
    then have "sort_key (\<lambda>c. - sint (effective_timestamp c)) (rev ?live) = c # r"
      by (simp add: newest_first_def)
    from sort_key_first [OF this] show ?thesis
      by (simp add: cur Cons rev_filter [symmetric] hd_rev)
  qed
qed

text \<open>C29. A retraction has no effect: adding a card whose relation is \<open>Retracts\<close>, whatever its
  entity, slot, value and date, changes neither the current value of any slot, nor the value at
  any time, nor the aggregated values.\<close>

theorem retraction_without_effect:
  assumes "lower_fixes lower" "track_reach lower t" "length (mt_cards t) < 2 ^ 64"
    "mc_relation c = Retracts"
  shows "get_current lower (snd (add_card lower t c)) e s = get_current lower t e s \<and>
    get_at_time lower (snd (add_card lower t c)) e s ts = get_at_time lower t e s ts \<and>
    aggregate_slot lower (snd (add_card lower t c)) e s = aggregate_slot lower t e s"
proof (intro conjI)
  have r: "is_retracted c" using assms(4) by (simp add: is_retracted_def)
  note add = get_cards_add [OF assms(2,1,3)]
  show "get_current lower (snd (add_card lower t c)) e s = get_current lower t e s"
    by (simp add: current_filter add r)
  show "get_at_time lower (snd (add_card lower t c)) e s ts = get_at_time lower t e s ts"
    by (simp add: at_time_filter add r)
  show "aggregate_slot lower (snd (add_card lower t c)) e s = aggregate_slot lower t e s"
    using assms(4) by (simp add: aggregate_slot_def add aggregate_step_def stored_card_def)
qed

section \<open>Storage\<close>

lemma track_storage_roundtrip:
  assumes "to_json t = Some j" "from_json j = Some t" "zstd j = Some z" "unzstd z = Some j"
    "14 + length z < 2 ^ 64"
  shows "\<exists>data. serialize_track to_json zstd t = Inr data \<and>
     deserialize_track from_json unzstd data = Inr t"
proof -
  have m: "length MEMORIES_TRACK_MAGIC = 4" by (simp add: MEMORIES_TRACK_MAGIC_def)
  have "length z < 2 ^ 64" using assms(5) by simp
  note parts = track_blob_parts [OF m this]
  show ?thesis
    by (simp add: serialize_track_def deserialize_track_def assms parts blob_body_blob [OF m assms(5)])
qed

text \<open>A declared length of \<open>2^64 - 1\<close> panics instead of being refused.\<close>

lemma oversized_track_panics:
  "deserialize_track from_json unzstd (MEMORIES_TRACK_MAGIC @ to_le 2 (1 :: u16) @ to_le 8 (- 1 :: u64))
     = Inl (Panic ''arithmetic overflow or slice out of range'')"
proof -
  have "le_dec (to_le 8 (- 1 :: u64)) = 2 ^ 64 - 1"
    by (simp add: to_le_def le_dec_enc unsigned_minus_1_eq_mask mask_eq_exp_minus_1)
  then show ?thesis
    by (simp add: deserialize_track_def MEMORIES_TRACK_MAGIC_def MEMORIES_TRACK_VERSION_def
        bslice_def blob_body_def Let_def)
qed

section \<open>Example\<close>

lemma ascii_lower_fixes: "lower_fixes to_ascii_lowercase"
  by (simp add: lower_fixes_def slot_key_def to_ascii_lowercase_def lit_def)

definition example_card :: "string \<Rightarrow> version_relation \<Rightarrow> i64 \<Rightarrow> memory_card" where
  "example_card v r ts =
     \<lparr>mc_id = 0, mc_kind = Fact, mc_entity = lit ''User'', mc_slot = lit ''city'', mc_value = lit v,
      mc_polarity = None, mc_event_date = None, mc_document_date = Some ts, mc_version_key = None,
      mc_relation = r, mc_source_frame = 1, mc_source_uri = None, mc_source_offset = None,
      mc_engine = lit ''rules'', mc_engine_version = lit ''1'', mc_confidence = None, mc_created_at = 0\<rparr>"

definition example_track :: memories_track where
  "example_track = snd (add_cards to_ascii_lowercase empty_track
     [example_card ''Rome'' Sets 10, example_card ''Oslo'' Updates 20])"

lemma example_track_reach: "track_reach to_ascii_lowercase example_track"
  by (auto simp: example_track_def Let_def split_beta intro: track_reach.intros)

lemma example_track_length: "length (mt_cards example_track) = 2"
  by (simp add: example_track_def add_card_def Let_def split_beta empty_track_def)


theorem current_is_latest_witness:
  "map_option mc_value (get_current to_ascii_lowercase example_track (lit ''user'') (lit ''CITY'')) = Some (lit ''Oslo'') \<and>
   (case get_current to_ascii_lowercase example_track (lit ''user'') (lit ''CITY'') of
      None \<Rightarrow> False
    | Some c \<Rightarrow> c \<in> set (mt_cards example_track))"
proof -
  have l: "length (mt_cards example_track) \<le> 2 ^ 64" by (simp add: example_track_length)
  have v: "map_option mc_value (get_current to_ascii_lowercase example_track (lit ''user'') (lit ''CITY''))
      = Some (lit ''Oslo'')" by code_simp
  with current_is_latest [OF ascii_lower_fixes example_track_reach l, of "lit ''user''" "lit ''CITY''"]
  show ?thesis by (auto simp: live_cards_def split: option.splits)
qed

theorem retraction_without_effect_witness:
  "map_option mc_value (get_current to_ascii_lowercase
      (snd (add_card to_ascii_lowercase example_track (example_card ''Oslo'' Retracts 30)))
      (lit ''user'') (lit ''city'')) = Some (lit ''Oslo'')"
proof -
  have l: "length (mt_cards example_track) < 2 ^ 64" by (simp add: example_track_length)
  have r: "mc_relation (example_card ''Oslo'' Retracts 30) = Retracts" by (simp add: example_card_def)
  have e: "get_current to_ascii_lowercase
      (snd (add_card to_ascii_lowercase example_track (example_card ''Oslo'' Retracts 30)))
      (lit ''user'') (lit ''city'') = get_current to_ascii_lowercase example_track (lit ''user'') (lit ''city'')"
    using retraction_without_effect [OF ascii_lower_fixes example_track_reach l r] by blast
  show ?thesis unfolding e by code_simp
qed

end
