(* ===== verification/Logic_Mesh.thy ===== *)
theory Logic_Mesh
  imports Memories_Track "HOL-Library.Product_Lexorder"
begin

text \<open>
  The entity graph (\<open>types/logic_mesh.rs\<close>): nodes, edges, adjacency, merging, traversal and
  storage.  \<open>node_hash\<close> stands for the standard library's \<open>DefaultHasher\<close> on a name and a kind byte;
  \<open>percent\<close> is \<open>(confidence * 100.0).min(100.0) as u8\<close>.  A confidence is kept as that byte also in
  the results of a traversal: \<open>confidence_f32\<close> divides it by 100, which is strictly increasing, so
  sorting by it is sorting by the byte.  The \<open>bincode\<close> and \<open>zstd\<close> calls are parameters.
\<close>

definition LOGIC_MESH_MAGIC :: bytes where "LOGIC_MESH_MAGIC = [77, 86, 76, 77]"
definition LOGIC_MESH_VERSION :: u16 where "LOGIC_MESH_VERSION = 1"
definition MAX_MESH_NODES :: nat where "MAX_MESH_NODES = 1000000"
definition MAX_MESH_EDGES :: nat where "MAX_MESH_EDGES = 5000000"

section \<open>Kinds and links\<close>

datatype entity_kind =
    K_Person | K_Organization | K_Project | K_Email | K_Date | K_Location | K_Product | K_Event
  | K_Money | K_Url | K_Other

fun entity_byte :: "entity_kind \<Rightarrow> u8" where
  "entity_byte K_Person = 0"
| "entity_byte K_Organization = 1"
| "entity_byte K_Project = 2"
| "entity_byte K_Email = 3"
| "entity_byte K_Date = 4"
| "entity_byte K_Location = 5"
| "entity_byte K_Product = 6"
| "entity_byte K_Event = 7"
| "entity_byte K_Money = 8"
| "entity_byte K_Url = 9"
| "entity_byte K_Other = 255"

definition entity_from_label :: "(ustr \<Rightarrow> ustr) \<Rightarrow> ustr \<Rightarrow> entity_kind" where
  "entity_from_label lower label =
     (let l = lower label in
      if l \<in> {lit ''person'', lit ''per''} then K_Person
      else if l \<in> {lit ''organization'', lit ''org'', lit ''company''} then K_Organization
      else if l \<in> {lit ''project'', lit ''product''} then K_Project
      else if l = lit ''email'' then K_Email
      else if l \<in> {lit ''date'', lit ''time''} then K_Date
      else if l \<in> {lit ''location'', lit ''loc'', lit ''gpe''} then K_Location
      else if l \<in> {lit ''money'', lit ''currency''} then K_Money
      else if l \<in> {lit ''url'', lit ''link''} then K_Url
      else if l = lit ''event'' then K_Event
      else K_Other)"

fun entity_str :: "entity_kind \<Rightarrow> ustr" where
  "entity_str K_Person = lit ''person''"
| "entity_str K_Organization = lit ''organization''"
| "entity_str K_Project = lit ''project''"
| "entity_str K_Email = lit ''email''"
| "entity_str K_Date = lit ''date''"
| "entity_str K_Location = lit ''location''"
| "entity_str K_Product = lit ''product''"
| "entity_str K_Event = lit ''event''"
| "entity_str K_Money = lit ''money''"
| "entity_str K_Url = lit ''url''"
| "entity_str K_Other = lit ''other''"

datatype link_type =
    L_Manager | L_Member | L_Owner | L_Author | L_Email | L_Deadline | L_Location | L_Employer
  | L_Parent | L_Child | L_Related | L_Custom ustr

fun link_str :: "link_type \<Rightarrow> ustr" where
  "link_str L_Manager = lit ''manager''"
| "link_str L_Member = lit ''member''"
| "link_str L_Owner = lit ''owner''"
| "link_str L_Author = lit ''author''"
| "link_str L_Email = lit ''email''"
| "link_str L_Deadline = lit ''deadline''"
| "link_str L_Location = lit ''location''"
| "link_str L_Employer = lit ''employer''"
| "link_str L_Parent = lit ''parent''"
| "link_str L_Child = lit ''child''"
| "link_str L_Related = lit ''related''"
| "link_str (L_Custom s) = s"

definition link_from_str :: "(ustr \<Rightarrow> ustr) \<Rightarrow> ustr \<Rightarrow> link_type" where
  "link_from_str lower s =
     (let l = lower s in
      if l \<in> {lit ''manager'', lit ''manages'', lit ''managed_by''} then L_Manager
      else if l \<in> {lit ''member'', lit ''member_of''} then L_Member
      else if l \<in> {lit ''owner'', lit ''owns'', lit ''owned_by''} then L_Owner
      else if l \<in> {lit ''author'', lit ''wrote'', lit ''written_by''} then L_Author
      else if l \<in> {lit ''email'', lit ''contact''} then L_Email
      else if l \<in> {lit ''deadline'', lit ''due'', lit ''due_date''} then L_Deadline
      else if l \<in> {lit ''location'', lit ''located_in'', lit ''at''} then L_Location
      else if l \<in> {lit ''employer'', lit ''works_at'', lit ''employed_by''} then L_Employer
      else if l \<in> {lit ''parent'', lit ''parent_of''} then L_Parent
      else if l \<in> {lit ''child'', lit ''child_of''} then L_Child
      else if l \<in> {lit ''related'', lit ''related_to''} then L_Related
      else L_Custom l)"

text \<open>Writing a kind and reading it as a label loses products only.\<close>

lemma entity_label_roundtrip:
  assumes "\<And>k. lower (entity_str k) = entity_str k"
  shows "entity_from_label lower (entity_str k) = (if k = K_Product then K_Project else k)"
  using assms [of k] by (cases k) (simp_all add: entity_from_label_def Let_def lit_def)

section \<open>The mesh\<close>

record mesh_node =
  mn_id :: u64
  canonical_name :: ustr
  display_name :: ustr
  mn_kind :: entity_kind
  mn_confidence :: u8
  frame_ids :: "u64 list"
  mentions :: "(u64 \<times> u32 \<times> u16) list"

definition new_node ::
  "(ustr \<Rightarrow> u8 \<Rightarrow> u64) \<Rightarrow> ('f \<Rightarrow> u8) \<Rightarrow> ustr \<Rightarrow> ustr \<Rightarrow> entity_kind \<Rightarrow> 'f \<Rightarrow> u64 \<Rightarrow> u32 \<Rightarrow> u16 \<Rightarrow> mesh_node" where
  "new_node node_hash percent cname dname k conf fid start len =
     \<lparr>mn_id = node_hash cname (entity_byte k), canonical_name = cname, display_name = dname, mn_kind = k,
      mn_confidence = percent conf, frame_ids = [fid], mentions = [(fid, start, len)]\<rparr>"

record mesh_edge =
  from_node :: u64
  to_node :: u64
  link :: link_type
  me_confidence :: u8
  me_frame_id :: u64

definition new_edge :: "('f \<Rightarrow> u8) \<Rightarrow> u64 \<Rightarrow> u64 \<Rightarrow> link_type \<Rightarrow> 'f \<Rightarrow> u64 \<Rightarrow> mesh_edge" where
  "new_edge percent a b l conf fid =
     \<lparr>from_node = a, to_node = b, link = l, me_confidence = percent conf, me_frame_id = fid\<rparr>"

datatype edge_direction = Outgoing | Incoming

record logic_mesh =
  nodes :: "mesh_node list"
  edges :: "mesh_edge list"
  adjacency :: "(u64 \<times> (nat \<times> edge_direction) list) list"

definition empty_mesh :: logic_mesh where
  "empty_mesh = \<lparr>nodes = [], edges = [], adjacency = []\<rparr>"

definition mesh_is_empty :: "logic_mesh \<Rightarrow> bool" where
  "mesh_is_empty m = (nodes m = [] \<and> edges m = [])"

record mesh_stats =
  node_count :: nat
  edge_count :: nat
  entity_kinds :: "(ustr \<times> nat) list"
  link_types :: "(ustr \<times> nat) list"

definition stats_of_mesh :: "logic_mesh \<Rightarrow> mesh_stats" where
  "stats_of_mesh m =
     \<lparr>node_count = length (nodes m), edge_count = length (edges m),
      entity_kinds = foldl (\<lambda>t n. AList.map_default (entity_str (mn_kind n)) 1 Suc t) [] (nodes m),
      link_types = foldl (\<lambda>t e. AList.map_default (link_str (link e)) 1 Suc t) [] (edges m)\<rparr>"

section \<open>Merging\<close>

definition merge_frame_ids :: "u64 list \<Rightarrow> u64 list \<Rightarrow> u64 list" where
  "merge_frame_ids = foldl (\<lambda>acc f. if f \<in> set acc then acc else acc @ [f])"

definition absorb :: "mesh_node \<Rightarrow> mesh_node \<Rightarrow> mesh_node" where
  "absorb existing n =
     existing\<lparr>frame_ids := merge_frame_ids (frame_ids existing) (frame_ids n),
              mentions := mentions existing @ mentions n,
              mn_confidence := max (mn_confidence existing) (mn_confidence n)\<rparr>"

definition same_entity :: "mesh_node \<Rightarrow> mesh_node \<Rightarrow> bool" where
  "same_entity n existing = (canonical_name existing = canonical_name n \<and> mn_kind existing = mn_kind n)"

fun merge_into :: "mesh_node \<Rightarrow> mesh_node list \<Rightarrow> mesh_node list" where
  "merge_into n [] = [n]"
| "merge_into n (x # xs) = (if same_entity n x then absorb x n # xs else x # merge_into n xs)"

definition merge_node :: "logic_mesh \<Rightarrow> mesh_node \<Rightarrow> logic_mesh" where
  "merge_node m n = m\<lparr>nodes := merge_into n (nodes m)\<rparr>"

definition same_edge :: "mesh_edge \<Rightarrow> mesh_edge \<Rightarrow> bool" where
  "same_edge a b = (from_node a = from_node b \<and> to_node a = to_node b \<and> link_str (link a) = link_str (link b))"

definition merge_edge :: "logic_mesh \<Rightarrow> mesh_edge \<Rightarrow> logic_mesh" where
  "merge_edge m e = (if list_ex (\<lambda>x. same_edge x e) (edges m) then m else m\<lparr>edges := edges m @ [e]\<rparr>)"

section \<open>Adjacency and lookup\<close>

definition add_adjacent ::
  "u64 \<Rightarrow> nat \<times> edge_direction \<Rightarrow> (u64 \<times> (nat \<times> edge_direction) list) list
     \<Rightarrow> (u64 \<times> (nat \<times> edge_direction) list) list" where
  "add_adjacent v x adj = AList.map_default v [x] (\<lambda>xs. xs @ [x]) adj"

definition adjacency_step ::
  "(u64 \<times> (nat \<times> edge_direction) list) list \<Rightarrow> nat \<times> mesh_edge
     \<Rightarrow> (u64 \<times> (nat \<times> edge_direction) list) list" where
  "adjacency_step adj ie =
     add_adjacent (to_node (snd ie)) (fst ie, Incoming) (add_adjacent (from_node (snd ie)) (fst ie, Outgoing) adj)"

definition build_adjacency :: "logic_mesh \<Rightarrow> logic_mesh" where
  "build_adjacency m = m\<lparr>adjacency := foldl adjacency_step [] (enumerate 0 (edges m))\<rparr>"

definition edge_key :: "mesh_edge \<Rightarrow> u64 \<times> u64 \<times> ustr" where
  "edge_key e = (from_node e, to_node e, link_str (link e))"

definition finalize :: "logic_mesh \<Rightarrow> logic_mesh" where
  "finalize m = build_adjacency (m\<lparr>nodes := sort_key mn_id (nodes m), edges := sort_key edge_key (edges m)\<rparr>)"

definition find_node :: "(ustr \<Rightarrow> ustr) \<Rightarrow> logic_mesh \<Rightarrow> ustr \<Rightarrow> mesh_node option" where
  "find_node lower m name =
     (let canonical = trim (lower name) in
      find (\<lambda>n. canonical_name n = canonical \<or> lower (display_name n) = canonical) (nodes m))"

definition find_node_by_id :: "logic_mesh \<Rightarrow> u64 \<Rightarrow> mesh_node option" where
  "find_node_by_id m i = find (\<lambda>n. mn_id n = i) (nodes m)"

section \<open>Following links\<close>

record follow_result =
  fr_node :: ustr
  fr_kind :: entity_kind
  fr_confidence :: u8
  fr_frame_ids :: "u64 list"
  path_length :: nat

text \<open>One node's adjacency entries: the results they add and the frontier entries they push.\<close>

definition edge_target :: "mesh_edge \<Rightarrow> edge_direction \<Rightarrow> u64" where
  "edge_target e d = (case d of Outgoing \<Rightarrow> to_node e | Incoming \<Rightarrow> from_node e)"

fun expand ::
  "logic_mesh \<Rightarrow> link_type \<Rightarrow> nat \<Rightarrow> nat \<Rightarrow> (nat \<times> edge_direction) list
     \<Rightarrow> (follow_result list \<times> (u64 \<times> nat) list) res" where
  "expand m lt hops depth [] = Inr ([], [])"
| "expand m lt hops depth ((i, d) # adj) =
     (if length (edges m) \<le> i then Inl (Panic ''index out of bounds'')
      else let e = edges m ! i; target = edge_target e d in
        if link_str (link e) \<noteq> link_str lt then expand m lt hops depth adj
        else (case find_node_by_id m target of
            None \<Rightarrow> expand m lt hops depth adj
          | Some n \<Rightarrow>
              (case expand m lt hops depth adj of
                 Inl err \<Rightarrow> Inl err
               | Inr (rs, fs) \<Rightarrow>
                   Inr (\<lparr>fr_node = display_name n, fr_kind = mn_kind n, fr_confidence = me_confidence e,
                         fr_frame_ids = frame_ids n, path_length = depth + 1\<rparr> # rs,
                        (if depth + 1 < hops then [(target, depth + 1)] else []) @ fs))))"

lemma find_node_by_id_Some: "find_node_by_id m i = Some n \<Longrightarrow> n \<in> set (nodes m) \<and> mn_id n = i"
  by (auto simp: find_node_by_id_def find_Some_iff)

definition arrives :: "logic_mesh \<Rightarrow> link_type \<Rightarrow> nat \<Rightarrow> edge_direction \<Rightarrow> mesh_node \<Rightarrow> bool" where
  "arrives m lt i d n \<longleftrightarrow> i < length (edges m) \<and> link_str (link (edges m ! i)) = link_str lt \<and>
     find_node_by_id m (edge_target (edges m ! i) d) = Some n"

definition hop_result :: "logic_mesh \<Rightarrow> nat \<Rightarrow> nat \<Rightarrow> mesh_node \<Rightarrow> follow_result" where
  "hop_result m depth i n =
     \<lparr>fr_node = display_name n, fr_kind = mn_kind n, fr_confidence = me_confidence (edges m ! i),
      fr_frame_ids = frame_ids n, path_length = depth + 1\<rparr>"

lemma expand_Cons:
  assumes "expand m lt hops depth ((i, d) # adj) = Inr (rs, fs)"
  obtains "expand m lt hops depth adj = Inr (rs, fs)"
  | n rs' fs' where "arrives m lt i d n" "expand m lt hops depth adj = Inr (rs', fs')"
      "rs = hop_result m depth i n # rs'"
      "fs = (if depth + 1 < hops then [(mn_id n, depth + 1)] else []) @ fs'"
  using assms
  by (auto simp: Let_def arrives_def hop_result_def split: if_splits option.splits sum.splits
      dest: find_node_by_id_Some)

lemma expand_sound:
  "expand m lt hops depth adj = Inr (rs, fs) \<Longrightarrow>
     (\<forall>r \<in> set rs. \<exists>i d n. (i, d) \<in> set adj \<and> arrives m lt i d n \<and> r = hop_result m depth i n) \<and>
     (\<forall>f \<in> set fs. \<exists>i d n. (i, d) \<in> set adj \<and> arrives m lt i d n \<and> f = (mn_id n, depth + 1) \<and> depth + 1 < hops)"
proof (induction adj arbitrary: rs fs)
  case (Cons a adj)
  obtain i d where "a = (i, d)" by fastforce
  with Cons.prems have "expand m lt hops depth ((i, d) # adj) = Inr (rs, fs)" by simp
  then show ?case
  proof (cases rule: expand_Cons)
    case 1
    from Cons.IH [OF this] show ?thesis by (meson list.set_intros(2))
  next
    case (2 n rs' fs')
    note ih = Cons.IH [OF 2(2)]
    show ?thesis
    proof (intro conjI ballI)
      fix r assume "r \<in> set rs"
      then have "r = hop_result m depth i n \<or> r \<in> set rs'" using 2(3) by simp
      then show "\<exists>i d n. (i, d) \<in> set (a # adj) \<and> arrives m lt i d n \<and> r = hop_result m depth i n"
      proof
        assume "r = hop_result m depth i n"
        with 2(1) \<open>a = (i, d)\<close> show ?thesis by (intro exI [of _ i] exI [of _ d] exI [of _ n]) simp
      next
        assume "r \<in> set rs'"
        with ih show ?thesis by (meson list.set_intros(2))
      qed
    next
      fix f assume "f \<in> set fs"
      then have "f = (mn_id n, depth + 1) \<and> depth + 1 < hops \<or> f \<in> set fs'"
        using 2(4) by (auto split: if_splits)
      then show "\<exists>i d n. (i, d) \<in> set (a # adj) \<and> arrives m lt i d n \<and> f = (mn_id n, depth + 1) \<and>
          depth + 1 < hops"
      proof
        assume "f = (mn_id n, depth + 1) \<and> depth + 1 < hops"
        with 2(1) \<open>a = (i, d)\<close> show ?thesis by (intro exI [of _ i] exI [of _ d] exI [of _ n]) simp
      next
        assume "f \<in> set fs'"
        with ih show ?thesis by (meson list.set_intros(2))
      qed
    qed
  qed
qed simp

lemma expand_targets:
  assumes "expand m lt hops depth adj = Inr (rs, fs)"
  shows "fst ` set fs \<subseteq> mn_id ` set (nodes m)"
proof
  fix v assume "v \<in> fst ` set fs"
  then obtain i d n where "arrives m lt i d n" "v = mn_id n" using expand_sound [OF assms] by force
  then show "v \<in> mn_id ` set (nodes m)" by (auto simp: arrives_def dest: find_node_by_id_Some)
qed

text \<open>The loop; the frontier is a stack whose top is the last element of the vector.  A node is
  expanded once, so the loop ends: each step expands a fresh node or shortens the stack.\<close>

definition unseen :: "logic_mesh \<Rightarrow> u64 list \<Rightarrow> (u64 \<times> nat) list \<Rightarrow> u64 set" where
  "unseen m visited frontier = (mn_id ` set (nodes m) \<union> fst ` set frontier) - set visited"

function follow_loop ::
  "logic_mesh \<Rightarrow> link_type \<Rightarrow> nat \<Rightarrow> u64 list \<Rightarrow> (u64 \<times> nat) list \<Rightarrow> follow_result list
     \<Rightarrow> follow_result list res" where
  "follow_loop m lt hops visited frontier results =
     (if frontier = [] then Inr results
      else let (v, depth) = last frontier; rest = butlast frontier in
        if hops \<le> depth \<or> v \<in> set visited then follow_loop m lt hops visited rest results
        else (case map_of (adjacency m) v of
            None \<Rightarrow> follow_loop m lt hops (v # visited) rest results
          | Some adj \<Rightarrow>
              (case expand m lt hops depth adj of
                 Inl err \<Rightarrow> Inl err
               | Inr (rs, fs) \<Rightarrow> follow_loop m lt hops (v # visited) (rest @ fs) (results @ rs))))"
  by pat_completeness auto

lemma unseen_finite: "finite (unseen m visited frontier)"
  by (simp add: unseen_def)

lemma unseen_visit:
  assumes "frontier \<noteq> []" "last frontier = (v, depth)" "v \<notin> set visited"
    "fst ` set fs \<subseteq> mn_id ` set (nodes m)"
  shows "card (unseen m (v # visited) (butlast frontier @ fs)) < card (unseen m visited frontier)"
proof (rule psubset_card_mono [OF unseen_finite])
  have "(v, depth) \<in> set frontier" using assms(1,2) by (metis last_in_set)
  then have "v \<in> unseen m visited frontier" using assms(3) by (force simp: unseen_def)
  moreover have "v \<notin> unseen m (v # visited) (butlast frontier @ fs)" by (simp add: unseen_def)
  moreover have "unseen m (v # visited) (butlast frontier @ fs) \<subseteq> unseen m visited frontier"
    using assms(4) by (auto simp: unseen_def dest: in_set_butlastD)
  ultimately show "unseen m (v # visited) (butlast frontier @ fs) \<subset> unseen m visited frontier" by blast
qed

lemma unseen_skip: "card (unseen m visited (butlast frontier)) \<le> card (unseen m visited frontier)"
  by (rule card_mono [OF unseen_finite]) (auto simp: unseen_def dest: in_set_butlastD)

termination follow_loop
proof (relation "measures [\<lambda>(m, lt, hops, visited, frontier, results). card (unseen m visited frontier),
    \<lambda>(m, lt, hops, visited, frontier, results). length frontier]", goal_cases)
  case (2 m lt hops visited frontier results p v depth rest)
  then show ?case using unseen_skip [of m visited frontier] by (auto simp: le_less)
next
  case (3 m lt hops visited frontier results p v depth rest)
  then show ?case using unseen_visit [of frontier v depth visited "[]" m] by auto
next
  case (4 m lt hops visited frontier results p v depth rest adj q rs fs)
  then show ?case
    using unseen_visit [of frontier v depth visited fs m] expand_targets [of m lt hops depth adj rs fs]
    by auto
qed simp

declare follow_loop.simps [simp del]

definition follow :: "(ustr \<Rightarrow> ustr) \<Rightarrow> logic_mesh \<Rightarrow> ustr \<Rightarrow> ustr \<Rightarrow> nat \<Rightarrow> follow_result list res" where
  "follow lower m start lnk hops =
     (case find_node lower m start of
        None \<Rightarrow> Inr []
      | Some n \<Rightarrow>
          (case follow_loop m (link_from_str lower lnk) hops [] [(mn_id n, 0)] [] of
             Inl err \<Rightarrow> Inl err
           | Inr rs \<Rightarrow> Inr (sort_key (\<lambda>r. - int (unat (fr_confidence r))) rs)))"

section \<open>Storage\<close>

definition serialize_mesh ::
  "(mesh_node list \<times> mesh_edge list \<Rightarrow> bytes option) \<Rightarrow> (bytes \<Rightarrow> bytes option) \<Rightarrow> logic_mesh \<Rightarrow> bytes res" where
  "serialize_mesh encode zstd m =
     (case encode (sort_key mn_id (nodes m), sort_key edge_key (edges m)) of
        None \<Rightarrow> Inl (InvalidLogicMesh ''serialization failed'')
      | Some p \<Rightarrow>
          (case zstd p of
             None \<Rightarrow> Inl (InvalidLogicMesh ''compression failed'')
           | Some z \<Rightarrow> Inr (track_blob LOGIC_MESH_MAGIC LOGIC_MESH_VERSION z)))"

definition deserialize_mesh ::
  "(bytes \<Rightarrow> (mesh_node list \<times> mesh_edge list) option) \<Rightarrow> (bytes \<Rightarrow> bytes option) \<Rightarrow> bytes \<Rightarrow> logic_mesh res" where
  "deserialize_mesh decode unzstd data =
     (if length data < 14 then Inl (InvalidLogicMesh ''blob too short'')
      else if bslice data 0 4 \<noteq> LOGIC_MESH_MAGIC then Inl (InvalidLogicMesh ''invalid magic bytes'')
      else if LOGIC_MESH_VERSION < from_le (bslice data 4 2) then Inl (InvalidLogicMesh ''unsupported version'')
      else (case blob_body (InvalidLogicMesh ''truncated blob'') data of
          Inl e \<Rightarrow> Inl e
        | Inr z \<Rightarrow>
            (case unzstd z of
               None \<Rightarrow> Inl (InvalidLogicMesh ''decompression failed'')
             | Some p \<Rightarrow>
                 (case decode p of
                    None \<Rightarrow> Inl (InvalidLogicMesh ''deserialization failed'')
                  | Some (ns, es) \<Rightarrow>
                      if MAX_MESH_NODES < length ns then Inl (InvalidLogicMesh ''too many nodes'')
                      else if MAX_MESH_EDGES < length es then Inl (InvalidLogicMesh ''too many edges'')
                      else Inr (build_adjacency \<lparr>nodes = ns, edges = es, adjacency = []\<rparr>)))))"

section \<open>Merging groups the nodes\<close>

definition node_key :: "mesh_node \<Rightarrow> ustr \<times> entity_kind" where
  "node_key n = (canonical_name n, mn_kind n)"

text \<open>The reference: one node per name and kind, in the order of first occurrence, which takes its
  identity from the first node and absorbs the others.\<close>

definition fuse :: "mesh_node list \<Rightarrow> mesh_node" where
  "fuse g = foldl absorb (hd g) (tl g)"

fun first_keys :: "mesh_node list \<Rightarrow> (ustr \<times> entity_kind) list" where
  "first_keys [] = []"
| "first_keys (n # ns) = node_key n # filter (\<lambda>k. k \<noteq> node_key n) (first_keys ns)"

lemma same_entity_key: "same_entity n x \<longleftrightarrow> node_key x = node_key n"
  by (simp add: same_entity_def node_key_def)

lemma key_absorb [simp]: "node_key (absorb x n) = node_key x"
  by (simp add: node_key_def absorb_def)

lemma key_fuse: "g \<noteq> [] \<Longrightarrow> node_key (fuse g) = node_key (hd g)"
proof -
  have "node_key (foldl absorb x ns) = node_key x" for x ns
    by (induction ns arbitrary: x) simp_all
  then show "g \<noteq> [] \<Longrightarrow> node_key (fuse g) = node_key (hd g)" by (simp add: fuse_def)
qed

lemma fuse_snoc: "g \<noteq> [] \<Longrightarrow> fuse (g @ [n]) = absorb (fuse g) n"
  by (cases g) (simp_all add: fuse_def)

lemma set_first_keys: "set (first_keys ns) = node_key ` set ns"
  by (induction ns) auto

lemma distinct_first_keys: "distinct (first_keys ns)"
  by (induction ns) (simp_all add: distinct_filter)

lemma first_keys_snoc:
  "first_keys (ns @ [n]) = first_keys ns @ (if node_key n \<in> node_key ` set ns then [] else [node_key n])"
  by (induction ns) auto

lemma merge_into_new: "node_key n \<notin> node_key ` set xs \<Longrightarrow> merge_into n xs = xs @ [n]"
  by (induction xs) (auto simp: same_entity_key)

lemma merge_into_old:
  "distinct (map node_key xs) \<Longrightarrow> node_key n \<in> node_key ` set xs \<Longrightarrow>
     merge_into n xs = map (\<lambda>x. if node_key x = node_key n then absorb x n else x) xs"
proof (induction xs)
  case (Cons x xs)
  show ?case
  proof (cases "node_key x = node_key n")
    case True
    then have "map (\<lambda>x. if node_key x = node_key n then absorb x n else x) xs = xs"
      using Cons.prems(1) by (intro map_idI) (force simp: image_iff)
    with True show ?thesis by (simp add: same_entity_key)
  next
    case False
    then have "node_key n \<in> node_key ` set xs" using Cons.prems(2) by auto
    with False Cons show ?thesis by (simp add: same_entity_key)
  qed
qed simp

definition grouped :: "mesh_node list \<Rightarrow> mesh_node list" where
  "grouped ns = map (\<lambda>k. fuse (filter (\<lambda>n. node_key n = k) ns)) (first_keys ns)"

lemma group_nonempty: "k \<in> set (first_keys ns) \<Longrightarrow> filter (\<lambda>n. node_key n = k) ns \<noteq> []"
  by (auto simp: set_first_keys filter_empty_conv)

lemma group_key:
  assumes "k \<in> set (first_keys ns)"
  shows "node_key (fuse (filter (\<lambda>n. node_key n = k) ns)) = k"
proof -
  note ne = group_nonempty [OF assms]
  have "hd (filter (\<lambda>n. node_key n = k) ns) \<in> set (filter (\<lambda>n. node_key n = k) ns)"
    by (rule hd_in_set [OF ne])
  then show ?thesis by (simp add: key_fuse [OF ne])
qed

lemma keys_grouped: "map node_key (grouped ns) = first_keys ns"
  unfolding grouped_def map_map by (rule map_idI) (simp add: group_key)

lemma merge_into_grouped: "merge_into n (grouped ns) = grouped (ns @ [n])"
proof (cases "node_key n \<in> node_key ` set ns")
  case False
  have ks: "node_key ` set (grouped ns) = node_key ` set ns"
    by (metis keys_grouped set_first_keys set_map)
  have old: "map (\<lambda>k. fuse (filter (\<lambda>x. node_key x = k) (ns @ [n]))) (first_keys ns) = grouped ns"
    unfolding grouped_def using False by (intro map_cong refl) (auto simp: set_first_keys)
  have "filter (\<lambda>x. node_key x = node_key n) ns = []"
    using False by (metis (mono_tags, lifting) filter_False imageI)
  then have "fuse (filter (\<lambda>x. node_key x = node_key n) (ns @ [n])) = n" by (simp add: fuse_def)
  then have "grouped (ns @ [n]) = grouped ns @ [n]"
    using False by (simp add: grouped_def [of "ns @ [n]"] first_keys_snoc old del: filter_append)
  moreover have "node_key n \<notin> node_key ` set (grouped ns)" using False by (simp only: ks not_False_eq_True)
  ultimately show ?thesis by (simp add: merge_into_new)
next
  case True
  have "node_key n \<in> node_key ` set (grouped ns)" using True by (metis keys_grouped set_first_keys set_map)
  moreover have "distinct (map node_key (grouped ns))" by (simp add: keys_grouped distinct_first_keys)
  ultimately have "merge_into n (grouped ns) =
      map (\<lambda>x. if node_key x = node_key n then absorb x n else x) (grouped ns)"
    by (rule merge_into_old [rotated])
  also have "\<dots> = map (\<lambda>k. fuse (filter (\<lambda>x. node_key x = k) (ns @ [n]))) (first_keys ns)"
    unfolding grouped_def map_map
  proof (rule map_cong [OF refl])
    fix k assume k: "k \<in> set (first_keys ns)"
    show "((\<lambda>x. if node_key x = node_key n then absorb x n else x) \<circ>
        (\<lambda>k. fuse (filter (\<lambda>n. node_key n = k) ns))) k = fuse (filter (\<lambda>x. node_key x = k) (ns @ [n]))"
      using fuse_snoc [OF group_nonempty [OF k], of n] by (auto simp: group_key [OF k])
  qed
  also have "\<dots> = grouped (ns @ [n])" using True by (simp add: grouped_def first_keys_snoc)
  finally show ?thesis .
qed

lemma nodes_merged: "nodes (foldl merge_node empty_mesh ns) = grouped ns"
proof (induction ns rule: rev_induct)
  case Nil
  then show ?case by (simp add: empty_mesh_def grouped_def)
next
  case (snoc n ns)
  then show ?case by (simp add: merge_node_def merge_into_grouped)
qed

text \<open>What a fused node holds.\<close>

lemma set_merge_frame_ids: "set (merge_frame_ids a b) = set a \<union> set b"
  unfolding merge_frame_ids_def by (induction b arbitrary: a) auto

lemma distinct_merge_frame_ids: "distinct a \<Longrightarrow> distinct (merge_frame_ids a b)"
  unfolding merge_frame_ids_def by (induction b arbitrary: a) auto

lemma fuse_content:
  assumes "g \<noteq> []"
  shows "set (frame_ids (fuse g)) = (\<Union>n \<in> set g. set (frame_ids n))"
    "mentions (fuse g) = concat (map mentions g)"
    "\<forall>n \<in> set g. mn_confidence n \<le> mn_confidence (fuse g)"
    "mn_id (fuse g) = mn_id (hd g)"
  using assms
proof (induction g rule: rev_nonempty_induct)
  case (single x)
  { case 1 show ?case by (simp add: fuse_def) }
  { case 2 show ?case by (simp add: fuse_def) }
  { case 3 show ?case by (simp add: fuse_def) }
  { case 4 show ?case by (simp add: fuse_def) }
next
  case (snoc x xs)
  { case 1 then show ?case using snoc by (auto simp: fuse_snoc absorb_def set_merge_frame_ids) }
  { case 2 then show ?case using snoc by (simp add: fuse_snoc absorb_def) }
  { case 3 then show ?case using snoc by (auto simp: fuse_snoc absorb_def le_max_iff_disj) }
  { case 4 then show ?case using snoc by (simp add: fuse_snoc absorb_def) }
qed

text \<open>Edges: the first of each endpoint pair and link wins.\<close>

lemma same_edge_key: "same_edge a b \<longleftrightarrow> edge_key a = edge_key b"
  by (auto simp: same_edge_def edge_key_def)

lemma edges_merged:
  "distinct (map edge_key (edges (foldl merge_edge empty_mesh es))) \<and>
   edge_key ` set (edges (foldl merge_edge empty_mesh es)) = edge_key ` set es"
proof (induction es rule: rev_induct)
  case Nil
  then show ?case by (simp add: empty_mesh_def)
next
  case (snoc e es)
  let ?m = "foldl merge_edge empty_mesh es"
  have "list_ex (\<lambda>x. same_edge x e) (edges ?m) \<longleftrightarrow> edge_key e \<in> edge_key ` set (edges ?m)"
    unfolding list_ex_iff same_edge_key image_iff by metis
  then have "edges (merge_edge ?m e) =
      (if edge_key e \<in> edge_key ` set (edges ?m) then edges ?m else edges ?m @ [e])"
    by (simp add: merge_edge_def)
  with snoc show ?case by (simp add: insert_absorb)
qed

section \<open>Adjacency\<close>

definition endpoint :: "mesh_edge \<Rightarrow> edge_direction \<Rightarrow> u64" where
  "endpoint e d = (case d of Outgoing \<Rightarrow> from_node e | Incoming \<Rightarrow> to_node e)"

text \<open>The entries of a vertex are the edges it is an endpoint of, with their direction.\<close>

definition adj_ok :: "logic_mesh \<Rightarrow> bool" where
  "adj_ok m \<longleftrightarrow> (\<forall>v i d.
     (\<exists>l. map_of (adjacency m) v = Some l \<and> (i, d) \<in> set l) \<longleftrightarrow>
     i < length (edges m) \<and> endpoint (edges m ! i) d = v)"

definition listed :: "(u64 \<times> (nat \<times> edge_direction) list) list \<Rightarrow> u64 \<Rightarrow> nat \<times> edge_direction \<Rightarrow> bool" where
  "listed adj v x \<longleftrightarrow> (\<exists>l. map_of adj v = Some l \<and> x \<in> set l)"

lemma listed_add: "listed (add_adjacent w y adj) v x \<longleftrightarrow> listed adj v x \<or> (v = w \<and> x = y)"
  by (auto simp: listed_def add_adjacent_def AList.map_of_map_default split: option.splits)

lemma listed_step:
  "listed (adjacency_step adj (j, e)) v (i, d) \<longleftrightarrow> listed adj v (i, d) \<or> (i = j \<and> endpoint e d = v)"
  by (cases d) (auto simp: adjacency_step_def listed_add endpoint_def)

lemma listed_foldl:
  "listed (foldl adjacency_step adj (enumerate k es)) v (i, d) \<longleftrightarrow>
     listed adj v (i, d) \<or> (k \<le> i \<and> i < k + length es \<and> endpoint (es ! (i - k)) d = v)"
proof (induction es arbitrary: k adj)
  case (Cons e es)
  have "(k \<le> i \<and> i < k + length (e # es) \<and> endpoint ((e # es) ! (i - k)) d = v) \<longleftrightarrow>
      (i = k \<and> endpoint e d = v) \<or> (Suc k \<le> i \<and> i < Suc k + length es \<and> endpoint (es ! (i - Suc k)) d = v)"
  proof (cases i k rule: linorder_cases)
    case greater
    then have "i - k = Suc (i - Suc k)" by simp
    then have "(e # es) ! (i - k) = es ! (i - Suc k)" by simp
    with greater show ?thesis by simp
  qed simp_all
  then show ?case by (simp add: Cons.IH listed_step)
qed auto

lemma adj_ok_build: "adj_ok (build_adjacency m)"
proof -
  have "listed (adjacency (build_adjacency m)) v (i, d) \<longleftrightarrow>
      i < length (edges (build_adjacency m)) \<and> endpoint (edges (build_adjacency m) ! i) d = v" for v i d
    using listed_foldl [of "[]" 0 "edges m" v i d] by (simp add: build_adjacency_def listed_def)
  then show ?thesis by (simp add: adj_ok_def listed_def)
qed

section \<open>Following links\<close>

definition linked :: "logic_mesh \<Rightarrow> link_type \<Rightarrow> u64 \<Rightarrow> u64 \<Rightarrow> bool" where
  "linked m lt u v \<longleftrightarrow> (\<exists>e \<in> set (edges m). link_str (link e) = link_str lt \<and>
     (from_node e = u \<and> to_node e = v \<or> to_node e = u \<and> from_node e = v))"

text \<open>\<open>r\<close> describes a node that is \<open>path_length r\<close> links of the type away from \<open>s\<close>.\<close>

definition on_walk :: "logic_mesh \<Rightarrow> link_type \<Rightarrow> nat \<Rightarrow> u64 \<Rightarrow> follow_result \<Rightarrow> bool" where
  "on_walk m lt hops s r \<longleftrightarrow> (\<exists>n. find_node_by_id m (mn_id n) = Some n \<and>
     fr_node r = display_name n \<and> fr_kind r = mn_kind n \<and> fr_frame_ids r = frame_ids n \<and>
     1 \<le> path_length r \<and> path_length r \<le> hops \<and> (linked m lt ^^ path_length r) s (mn_id n))"

lemma adj_ok_entry:
  assumes "adj_ok m" "map_of (adjacency m) v = Some adj" "(i, d) \<in> set adj"
  shows "i < length (edges m)" "endpoint (edges m ! i) d = v"
  using assms unfolding adj_ok_def by blast+

lemma arrives_linked:
  assumes "arrives m lt i d n" "endpoint (edges m ! i) d = v"
  shows "linked m lt v (mn_id n)" "find_node_by_id m (mn_id n) = Some n"
proof -
  have i: "i < length (edges m)" "link_str (link (edges m ! i)) = link_str lt"
    "find_node_by_id m (edge_target (edges m ! i) d) = Some n"
    using assms(1) by (simp_all add: arrives_def)
  then have n: "mn_id n = edge_target (edges m ! i) d" by (simp add: find_node_by_id_Some)
  with i show "find_node_by_id m (mn_id n) = Some n" by simp
  show "linked m lt v (mn_id n)"
    unfolding linked_def using i(1,2) assms(2) n
    by (intro bexI [of _ "edges m ! i"]) (cases d, auto simp: endpoint_def edge_target_def)
qed

lemma expand_total:
  "\<forall>(i, d) \<in> set adj. i < length (edges m) \<Longrightarrow> \<exists>rs fs. expand m lt hops depth adj = Inr (rs, fs)"
proof (induction adj)
  case (Cons a adj)
  then obtain rs fs where "expand m lt hops depth adj = Inr (rs, fs)" by auto
  with Cons.prems show ?case by (cases a) (auto simp: Let_def split: option.split)
qed simp

lemma expand_on_walk:
  assumes ok: "adj_ok m" and adj: "map_of (adjacency m) v = Some adj" and d: "depth < hops"
    and walk: "(linked m lt ^^ depth) s v" and e: "expand m lt hops depth adj = Inr (rs, fs)"
  shows "\<forall>r \<in> set rs. on_walk m lt hops s r" "\<forall>(u, k) \<in> set fs. (linked m lt ^^ k) s u"
proof -
  have step: "(linked m lt ^^ (depth + 1)) s (mn_id n) \<and> find_node_by_id m (mn_id n) = Some n"
    if "(i, d) \<in> set adj" "arrives m lt i d n" for i d n
    using arrives_linked [OF that(2) adj_ok_entry(2) [OF ok adj that(1)]] walk by auto
  note sound = expand_sound [OF e]
  show "\<forall>r \<in> set rs. on_walk m lt hops s r"
  proof
    fix r assume "r \<in> set rs"
    then obtain i d n where h: "(i, d) \<in> set adj" "arrives m lt i d n" "r = hop_result m depth i n"
      using sound by blast
    from step [OF h(1,2)] d show "on_walk m lt hops s r"
      unfolding on_walk_def by (intro exI [of _ n]) (simp add: h(3) hop_result_def)
  qed
  show "\<forall>(u, k) \<in> set fs. (linked m lt ^^ k) s u"
    using sound step by (fastforce simp del: relpowp.simps)
qed

lemma follow_loop_sound:
  assumes "adj_ok m"
  shows "\<forall>(v, d) \<in> set frontier. (linked m lt ^^ d) s v \<Longrightarrow> \<forall>r \<in> set results. on_walk m lt hops s r \<Longrightarrow>
    \<exists>rs. follow_loop m lt hops visited frontier results = Inr rs \<and> set results \<subseteq> set rs \<and>
      (\<forall>r \<in> set rs. on_walk m lt hops s r)"
  using assms
proof (induction m lt hops visited frontier results rule: follow_loop.induct)
  case (1 m lt hops visited frontier results)
  show ?case
  proof (cases "frontier = []")
    case True
    then show ?thesis using 1(5) by (simp add: follow_loop.simps [of m lt hops visited "[]"])
  next
    case False
    obtain v d where last: "last frontier = (v, d)" by fastforce
    have rest: "\<forall>(v, d) \<in> set (butlast frontier). (linked m lt ^^ d) s v"
      using 1(4) by (auto dest: in_set_butlastD)
    have v: "(linked m lt ^^ d) s v" using 1(4) last last_in_set [OF False] by fastforce
    note unfold = follow_loop.simps [of m lt hops visited frontier results]
    show ?thesis
    proof (cases "hops \<le> d \<or> v \<in> set visited")
      case True
      from 1(1) [OF False refl last [symmetric] refl True rest 1(5,6)] show ?thesis
        unfolding unfold using False True last by simp
    next
      case nv: False
      show ?thesis
      proof (cases "map_of (adjacency m) v")
        case None
        from 1(2) [OF False refl last [symmetric] refl nv None rest 1(5,6)] show ?thesis
          unfolding unfold using False nv last None by simp
      next
        case (Some adj)
        have "\<forall>(i, d) \<in> set adj. i < length (edges m)" using adj_ok_entry(1) [OF 1(6) Some] by blast
        then obtain rs fs where e: "expand m lt hops d adj = Inr (rs, fs)" using expand_total by blast
        from nv have "d < hops" by simp
        note ex = expand_on_walk [OF 1(6) Some this v e]
        have "\<forall>(v, d) \<in> set (butlast frontier @ fs). (linked m lt ^^ d) s v" using rest ex(2) by auto
        moreover have "\<forall>r \<in> set (results @ rs). on_walk m lt hops s r" using 1(5) ex(1) by auto
        ultimately obtain rs' where
          "follow_loop m lt hops (v # visited) (butlast frontier @ fs) (results @ rs) = Inr rs'"
          "set (results @ rs) \<subseteq> set rs'" "\<forall>r \<in> set rs'. on_walk m lt hops s r"
          using 1(3) [OF False refl last [symmetric] refl nv Some e refl _ _ 1(6)] by blast
        with nv last Some e False show ?thesis unfolding unfold by simp
      qed
    qed
  qed
qed

text \<open>Neighbours of the start are always found.\<close>

lemma expand_complete:
  "expand m lt hops depth adj = Inr (rs, fs) \<Longrightarrow> (i, d) \<in> set adj \<Longrightarrow> arrives m lt i d n \<Longrightarrow>
     hop_result m depth i n \<in> set rs"
proof (induction adj arbitrary: rs fs)
  case (Cons a adj)
  show ?case
  proof (cases "a = (i, d)")
    case True
    with Cons.prems show ?thesis by (auto simp: arrives_def hop_result_def Let_def split: sum.splits)
  next
    case False
    obtain j d' where a: "a = (j, d')" by fastforce
    with Cons.prems(1) have "expand m lt hops depth ((j, d') # adj) = Inr (rs, fs)" by simp
    then obtain rs' fs' where "expand m lt hops depth adj = Inr (rs', fs')" "set rs' \<subseteq> set rs"
      by (cases rule: expand_Cons) auto
    with Cons False show ?thesis by auto
  qed
qed simp

lemma find_node_id:
  assumes "find_node_by_id m v = Some t"
  shows "find_node_by_id m (mn_id t) = Some t"
  using assms find_node_by_id_Some [OF assms] by simp

lemma follow_neighbours:
  assumes ok: "adj_ok m" and n: "find_node lower m start = Some n" and h: "1 \<le> hops"
    and l: "linked m (link_from_str lower lnk) (mn_id n) v" and t: "find_node_by_id m v = Some t"
  shows "\<exists>rs. follow lower m start lnk hops = Inr rs \<and>
    (\<exists>r \<in> set rs. fr_node r = display_name t \<and> path_length r = 1)"
proof -
  let ?lt = "link_from_str lower lnk" and ?s = "mn_id n"
  obtain e d where "e \<in> set (edges m)" "link_str (link e) = link_str ?lt"
    "endpoint e d = ?s" "edge_target e d = v"
    using l unfolding linked_def endpoint_def edge_target_def
    by (metis (mono_tags, lifting) edge_direction.simps(3,4))
  then obtain i where i: "i < length (edges m)" "link_str (link (edges m ! i)) = link_str ?lt"
    "endpoint (edges m ! i) d = ?s" "edge_target (edges m ! i) d = v"
    by (auto simp: in_set_conv_nth)
  then have ar: "arrives m ?lt i d t" using t by (simp add: arrives_def)
  obtain adj where adj: "map_of (adjacency m) ?s = Some adj" "(i, d) \<in> set adj"
    using ok i(1,3) unfolding adj_ok_def by blast
  have "\<forall>(i, d) \<in> set adj. i < length (edges m)" using adj_ok_entry(1) [OF ok adj(1)] by blast
  then obtain rs fs where e: "expand m ?lt hops 0 adj = Inr (rs, fs)" using expand_total by blast
  have z: "(linked m ?lt ^^ 0) ?s ?s" "0 < hops" using h by simp_all
  from follow_loop_sound [OF ok, of fs ?lt ?s rs hops "[?s]"] expand_on_walk [OF ok adj(1) z(2,1) e]
  obtain rs' where rs': "follow_loop m ?lt hops [?s] fs rs = Inr rs'" "set rs \<subseteq> set rs'" by blast
  have "follow_loop m ?lt hops [] [(?s, 0)] [] = Inr rs'"
    using rs'(1) z(2) by (simp add: follow_loop.simps [of m ?lt hops "[]"] adj(1) e)
  moreover have "hop_result m 0 i t \<in> set rs'" using expand_complete [OF e adj(2) ar] rs'(2) by blast
  ultimately show ?thesis
    by (simp add: follow_def n) (rule bexI [of _ "hop_result m 0 i t"], simp_all add: hop_result_def)
qed

section \<open>Properties\<close>

text \<open>Merging nodes one by one into an empty mesh is grouping: one node per canonical name and
  kind, in the order of first occurrence, with the identifier of the first; its frames are those
  of the group, its mentions the concatenation, and its confidence at least that of each member.\<close>

theorem mesh_merge_groups:
  "nodes (foldl merge_node empty_mesh ns) = grouped ns \<and>
   map node_key (grouped ns) = first_keys ns \<and> distinct (first_keys ns) \<and>
   list_all (\<lambda>k. let g = filter (\<lambda>n. node_key n = k) ns; f = fuse g in
     mn_id f = mn_id (hd g) \<and> set (frame_ids f) = (\<Union>n \<in> set g. set (frame_ids n)) \<and>
     mentions f = concat (map mentions g) \<and> list_all (\<lambda>n. mn_confidence n \<le> mn_confidence f) g)
     (first_keys ns)"
proof (intro conjI nodes_merged keys_grouped distinct_first_keys)
  show "list_all (\<lambda>k. let g = filter (\<lambda>n. node_key n = k) ns; f = fuse g in
     mn_id f = mn_id (hd g) \<and> set (frame_ids f) = (\<Union>n \<in> set g. set (frame_ids n)) \<and>
     mentions f = concat (map mentions g) \<and> list_all (\<lambda>n. mn_confidence n \<le> mn_confidence f) g)
     (first_keys ns)"
    unfolding list_all_iff Let_def
  proof (intro ballI conjI)
    fix k assume "k \<in> set (first_keys ns)"
    note c = fuse_content [OF group_nonempty [OF this]]
    let ?g = "filter (\<lambda>n. node_key n = k) ns"
    show "mn_id (fuse ?g) = mn_id (hd ?g)" by (rule c(4))
    show "set (frame_ids (fuse ?g)) = (\<Union>n \<in> set ?g. set (frame_ids n))" by (rule c(1))
    show "mentions (fuse ?g) = concat (map mentions ?g)" by (rule c(2))
    fix n assume "n \<in> set ?g"
    then show "mn_confidence n \<le> mn_confidence (fuse ?g)" using c(3) by blast
  qed
qed

text \<open>C19. On a mesh whose adjacency has been built, following a link returns without an index out
  of bounds, and every result is a node at the end of a walk of exactly \<open>path_length\<close> edges of the
  link type from the start node, taken in either direction, with \<open>path_length\<close> between 1 and the
  number of hops; the results come by decreasing confidence.  An unknown start gives none.\<close>

theorem follow_sound:
  "\<exists>rs. follow lower (build_adjacency m) start lnk hops = Inr rs \<and>
     sorted_wrt (\<lambda>a b. fr_confidence b \<le> fr_confidence a) rs \<and>
     (case find_node lower m start of
        None \<Rightarrow> rs = []
      | Some n \<Rightarrow> list_all (on_walk (build_adjacency m) (link_from_str lower lnk) hops (mn_id n)) rs)"
proof (cases "find_node lower m start")
  case None
  then show ?thesis by (simp add: follow_def find_node_def build_adjacency_def)
next
  case (Some n)
  let ?m = "build_adjacency m" and ?lt = "link_from_str lower lnk"
  obtain rs where rs: "follow_loop ?m ?lt hops [] [(mn_id n, 0)] [] = Inr rs"
    "\<forall>r \<in> set rs. on_walk ?m ?lt hops (mn_id n) r"
    using follow_loop_sound [OF adj_ok_build [of m], of "[(mn_id n, 0)]" ?lt "mn_id n" "[]" hops "[]"] by auto
  have "find_node lower ?m start = Some n" using Some by (simp add: find_node_def build_adjacency_def)
  then have "follow lower ?m start lnk hops = Inr (sort_key (\<lambda>r. - int (unat (fr_confidence r))) rs)"
    using rs(1) by (simp add: follow_def)
  moreover have "sorted_wrt (\<lambda>a b. fr_confidence b \<le> fr_confidence a)
      (sort_key (\<lambda>r. - int (unat (fr_confidence r))) rs)"
    using sorted_sort_key [of "\<lambda>r. - int (unat (fr_confidence r))" rs]
    by (simp add: sorted_map word_le_def)
  ultimately show ?thesis using Some rs(2) by (simp add: list_all_iff)
qed

text \<open>Storing a mesh and loading it gives the finalised mesh: nodes sorted by identifier, edges
  by endpoints and link, adjacency rebuilt.  It relies on decoding and decompressing what was
  encoded and compressed, and on the limits that loading enforces.\<close>

theorem mesh_storage_roundtrip:
  assumes "encode (sort_key mn_id (nodes m), sort_key edge_key (edges m)) = Some p"
    "decode p = Some (sort_key mn_id (nodes m), sort_key edge_key (edges m))"
    "zstd p = Some z" "unzstd z = Some p" "14 + length z < 2 ^ 64"
    "length (nodes m) \<le> MAX_MESH_NODES" "length (edges m) \<le> MAX_MESH_EDGES"
  shows "\<exists>data. serialize_mesh encode zstd m = Inr data \<and>
    deserialize_mesh decode unzstd data = Inr (finalize m)"
proof -
  have g: "length LOGIC_MESH_MAGIC = 4" by (simp add: LOGIC_MESH_MAGIC_def)
  have "length z < 2 ^ 64" using assms(5) by simp
  note parts = track_blob_parts [OF g this]
  show ?thesis using assms(6,7)
    by (simp add: serialize_mesh_def deserialize_mesh_def assms(1-4) parts blob_body_blob [OF g assms(5)])
      (simp add: finalize_def build_adjacency_def)
qed

section \<open>Examples\<close>

definition example_node :: "u64 \<Rightarrow> string \<Rightarrow> mesh_node" where
  "example_node i s = \<lparr>mn_id = i, canonical_name = lit s, display_name = lit s, mn_kind = K_Person,
     mn_confidence = 90, frame_ids = [1], mentions = []\<rparr>"

definition example_edge :: "u64 \<Rightarrow> u64 \<Rightarrow> mesh_edge" where
  "example_edge a b = \<lparr>from_node = a, to_node = b, link = L_Related, me_confidence = 50, me_frame_id = 1\<rparr>"

definition example_mesh :: logic_mesh where
  "example_mesh = build_adjacency \<lparr>
     nodes = [example_node 1 ''a'', example_node 2 ''b'', example_node 3 ''c'', example_node 4 ''d'', example_node 5 ''e''],
     edges = [example_edge 1 2, example_edge 1 3, example_edge 2 4, example_edge 3 2, example_edge 4 5],
     adjacency = []\<rparr>"

text \<open>The traversal is depth first and expands a node once, at the depth at which it is first
  popped, which need not be its distance.  Here \<open>e\<close> is three links away from \<open>a\<close> (by \<open>b\<close> and
  \<open>d\<close>), but \<open>b\<close> is reached through \<open>c\<close> first, at depth 2: with three hops \<open>e\<close> is not found.\<close>

lemma follow_misses_node:
  "map_option (map (\<lambda>r. (fr_node r, path_length r)))
     (ok_opt (follow to_ascii_lowercase example_mesh (lit ''a'') (lit ''related'') 3)) =
   Some [(lit ''b'', 1), (lit ''c'', 1), (lit ''a'', 2), (lit ''b'', 2), (lit ''a'', 3), (lit ''d'', 3), (lit ''c'', 3)]"
  "(linked example_mesh L_Related ^^ 3) 1 5"
proof -
  show "map_option (map (\<lambda>r. (fr_node r, path_length r)))
     (ok_opt (follow to_ascii_lowercase example_mesh (lit ''a'') (lit ''related'') 3)) =
   Some [(lit ''b'', 1), (lit ''c'', 1), (lit ''a'', 2), (lit ''b'', 2), (lit ''a'', 3), (lit ''d'', 3), (lit ''c'', 3)]"
    by code_simp
  have "linked example_mesh L_Related 1 2" "linked example_mesh L_Related 2 4"
    "linked example_mesh L_Related 4 5"
    by (simp_all add: linked_def example_mesh_def build_adjacency_def example_edge_def)
  then show "(linked example_mesh L_Related ^^ 3) 1 5"
    by (simp add: numeral_3_eq_3) (blast intro: relcomppI)
qed

theorem mesh_storage_roundtrip_witness:
  "\<exists>data. serialize_mesh (\<lambda>x. Some [1, 2]) (\<lambda>p. Some (0 # p)) example_mesh = Inr data \<and>
    deserialize_mesh (\<lambda>p. if p = [1, 2] then Some (sort_key mn_id (nodes example_mesh), sort_key edge_key (edges example_mesh)) else None)
      (\<lambda>z. case z of [] \<Rightarrow> None | _ # p \<Rightarrow> Some p) data = Inr (finalize example_mesh)"
  by (rule mesh_storage_roundtrip [where p = "[1, 2]" and z = "[0, 1, 2]"])
    (simp_all add: example_mesh_def build_adjacency_def MAX_MESH_NODES_def MAX_MESH_EDGES_def)

end
