(* ===== verification/Query.thy ===== *)
theory Query
  imports Prelude Frame_Types
begin

text \<open>
  The search query language (\<open>search/parser.rs\<close>, \<open>search/mod.rs\<close>): lexer, parser, evaluation on a
  frame, tokens and the required date range.  The lexer's state, its characters and an index, is the
  suffix not yet read; the parser's is the list of tokens not yet consumed.

  The record \<open>query_env\<close> holds what the code takes from elsewhere: \<open>char::is_alphanumeric\<close>; of the
  regex crate the escaping of a character, whether a pattern compiles and the matching; of the time
  crate the RFC 3339 parser and the timestamp of a calendar date at midnight UTC.
\<close>

record query_env =
  alnum :: "uchar \<Rightarrow> bool"
  re_escape :: "uchar \<Rightarrow> ustr"
  re_compiles :: "ustr \<Rightarrow> bool"
  re_match :: "ustr \<Rightarrow> ustr \<Rightarrow> bool"
  rfc3339 :: "ustr \<Rightarrow> i64 option"
  midnight :: "int \<Rightarrow> nat \<Rightarrow> nat \<Rightarrow> i64 option"

section \<open>Syntax\<close>

record date_range =
  dr_start :: "i64 option"
  dr_end :: "i64 option"

record wildcard_pattern =
  raw :: ustr
  regex :: ustr

datatype text_term = T_Word ustr | T_Phrase ustr | T_Wildcard wildcard_pattern

datatype field_term =
    F_Uri ustr | F_Scope ustr | F_Track ustr | F_Tag ustr | F_Label ustr | F_DateRange date_range

datatype qterm = Q_Text text_term | Q_Field field_term

datatype expr = E_Or "expr list" | E_And "expr list" | E_Not expr | E_Term qterm

datatype token =
    K_Word ustr | K_Phrase ustr | K_Field ustr ustr | K_DateRange ustr ustr ustr
  | K_LParen | K_RParen | K_And | K_Or | K_Not

section \<open>Lexer\<close>

definition word_break :: "uchar \<Rightarrow> bool" where
  "word_break c = (is_whitespace c \<or> c = 40 \<or> c = 41)"

definition KNOWN_FIELDS :: "ustr list" where
  "KNOWN_FIELDS = map lit [''uri'', ''scope'', ''track'', ''tag'', ''label'', ''date'']"

definition read_until_quote :: "ustr \<Rightarrow> (ustr \<times> ustr) res" where
  "read_until_quote s =
     (case dropWhile (\<lambda>c. c \<noteq> 34) s of
        [] \<Rightarrow> Inl (InvalidQuery ''unterminated quoted string'')
      | _ # r \<Rightarrow> Inr (takeWhile (\<lambda>c. c \<noteq> 34) s, r))"

definition read_quoted :: "ustr \<Rightarrow> (ustr \<times> ustr) res" where
  "read_quoted s = read_until_quote (drop 1 s)"

definition read_date_range :: "ustr \<Rightarrow> (ustr \<times> ustr \<times> ustr) res" where
  "read_date_range s =
     (case dropWhile (\<lambda>c. c \<noteq> 93) s of
        [] \<Rightarrow> Inl (InvalidQuery ''unterminated date range'')
      | _ # r \<Rightarrow>
          (case split_whitespace (trim (takeWhile (\<lambda>c. c \<noteq> 93) s)) of
             [a, t, b] \<Rightarrow>
               if to_ascii_lowercase t = lit ''to'' then Inr (a, b, r)
               else Inl (InvalidQuery ''date range must be in format [start TO end]'')
           | _ \<Rightarrow> Inl (InvalidQuery ''date range must be in format [start TO end]'')))"

definition read_field :: "ustr \<Rightarrow> ustr \<Rightarrow> (token \<times> ustr) res" where
  "read_field name s =
     (let field = to_ascii_lowercase name in
      case s of
        c # r \<Rightarrow>
          if c = 34 then
            (case read_until_quote r of Inl e \<Rightarrow> Inl e | Inr (v, r') \<Rightarrow> Inr (K_Field field v, r'))
          else if c = 91 \<and> field = lit ''date'' then
            (case read_date_range r of Inl e \<Rightarrow> Inl e | Inr (a, b, r') \<Rightarrow> Inr (K_DateRange field a b, r'))
          else Inr (K_Field field (takeWhile (\<lambda>c. \<not> word_break c) s), dropWhile (\<lambda>c. \<not> word_break c) s)
      | [] \<Rightarrow> Inr (K_Field field [], []))"

definition keyword_or_word :: "ustr \<Rightarrow> token" where
  "keyword_or_word w =
     (if w = lit ''AND'' \<or> w = lit ''and'' then K_And
      else if w = lit ''OR'' \<or> w = lit ''or'' then K_Or
      else if w = lit ''NOT'' \<or> w = lit ''not'' then K_Not
      else K_Word w)"

definition read_field_or_word :: "ustr \<Rightarrow> (token option \<times> ustr) res" where
  "read_field_or_word s =
     (let w = takeWhile (\<lambda>c. \<not> word_break c) s;
          name = takeWhile (\<lambda>c. c \<noteq> 58) w in
      if 58 \<in> set w \<and> to_ascii_lowercase name \<in> set KNOWN_FIELDS
      then (case read_field name (drop (length name + 1) s) of
              Inl e \<Rightarrow> Inl e | Inr (t, r) \<Rightarrow> Inr (Some t, r))
      else if w = [] then Inr (None, s)
      else Inr (Some (keyword_or_word w), dropWhile (\<lambda>c. \<not> word_break c) s))"

lemma read_until_quote_shorter: "read_until_quote s = Inr (v, r) \<Longrightarrow> length r < length s"
  by (auto simp: read_until_quote_def split: list.splits) (metis Suc_le_lessD length_Cons length_dropWhile_le)

lemma read_date_range_shorter: "read_date_range s = Inr (a, b, r) \<Longrightarrow> length r < length s"
  by (auto simp: read_date_range_def split: list.splits if_splits)
    (metis Suc_le_lessD length_Cons length_dropWhile_le)

lemma read_field_shorter: "read_field f s = Inr (t, r) \<Longrightarrow> length r \<le> length s"
  by (auto simp: read_field_def Let_def split: list.splits if_splits sum.splits
      dest: read_until_quote_shorter read_date_range_shorter intro: le_SucI length_dropWhile_le)

lemma read_field_or_word_shorter:
  assumes "\<not> word_break c" "read_field_or_word (c # s) = Inr (t, r)"
  shows "length r < length (c # s)"
proof -
  let ?w = "takeWhile (\<lambda>c. \<not> word_break c) (c # s)" and ?n = "takeWhile (\<lambda>c. c \<noteq> 58) (takeWhile (\<lambda>c. \<not> word_break c) (c # s))"
  have "?w \<noteq> []" using assms(1) by simp
  moreover have "length r < length (c # s)" if "read_field ?n (drop (length ?n + 1) (c # s)) = Inr (t', r)" for t'
    using read_field_shorter [OF that] by simp
  moreover have "length (dropWhile (\<lambda>c. \<not> word_break c) (c # s)) < length (c # s)"
    using assms(1) by (simp add: le_imp_less_Suc length_dropWhile_le)
  ultimately show ?thesis
    using assms(2) by (auto simp: read_field_or_word_def Let_def split: if_splits sum.splits)
qed

function tokenize :: "ustr \<Rightarrow> token list res" where
  "tokenize [] = Inr []"
| "tokenize (c # s) =
     (if is_whitespace c then tokenize s
      else if c = 40 then (case tokenize s of Inl e \<Rightarrow> Inl e | Inr ts \<Rightarrow> Inr (K_LParen # ts))
      else if c = 41 then (case tokenize s of Inl e \<Rightarrow> Inl e | Inr ts \<Rightarrow> Inr (K_RParen # ts))
      else if c = 34 then
        (case read_quoted (c # s) of
           Inl e \<Rightarrow> Inl e
         | Inr (p, r) \<Rightarrow> (case tokenize r of Inl e \<Rightarrow> Inl e | Inr ts \<Rightarrow> Inr (K_Phrase p # ts)))
      else
        (case read_field_or_word (c # s) of
           Inl e \<Rightarrow> Inl e
         | Inr (t, r) \<Rightarrow>
             (case tokenize r of Inl e \<Rightarrow> Inl e
              | Inr ts \<Rightarrow> Inr ((case t of None \<Rightarrow> [] | Some t \<Rightarrow> [t]) @ ts))))"
  by pat_completeness auto
termination
proof (relation "measure length")
  fix c s x p r
  assume "\<not> is_whitespace c" "c \<noteq> 40" "c \<noteq> 41" "read_field_or_word (c # s) = Inr x" "(p, r) = x"
  then show "(r, c # s) \<in> measure length"
    using read_field_or_word_shorter [of c s p r] by (simp add: word_break_def)
qed (auto simp: read_quoted_def dest: read_until_quote_shorter)

section \<open>Terms\<close>

definition trim_matches :: "(uchar \<Rightarrow> bool) \<Rightarrow> ustr \<Rightarrow> ustr" where
  "trim_matches P s = rev (dropWhile P (rev (dropWhile P s)))"

definition trim_end_matches :: "uchar \<Rightarrow> ustr \<Rightarrow> ustr" where
  "trim_end_matches c s = rev (dropWhile (\<lambda>x. x = c) (rev s))"

definition wildcard_new :: "query_env \<Rightarrow> ustr \<Rightarrow> wildcard_pattern" where
  "wildcard_new env r =
     (let pattern = lit ''^'' @ concat (map (\<lambda>c. if c = 42 then lit ''.*'' else if c = 63 then lit ''.''
            else re_escape env c) r) @ lit ''$'' in
      \<lparr>raw = r, regex = (if re_compiles env pattern then pattern else lit ''^$'')\<rparr>)"

definition wildcard_seed :: "wildcard_pattern \<Rightarrow> ustr option" where
  "wildcard_seed p =
     (let seed = hd (split_by (\<lambda>c. c = 63) (hd (split_by (\<lambda>c. c = 42) (raw p)))) in
      if seed = [] then None else Some seed)"

definition from_word :: "query_env \<Rightarrow> ustr \<Rightarrow> text_term" where
  "from_word env w =
     (let trimmed = trim_end_matches 63 (to_ascii_lowercase w);
          cleaned = trim_matches (\<lambda>c. \<not> alnum env c \<and> c \<noteq> 42 \<and> c \<noteq> 63) trimmed in
      if 42 \<in> set cleaned \<or> 63 \<in> set cleaned then T_Wildcard (wildcard_new env cleaned)
      else if cleaned = [] \<or> \<not> list_ex (alnum env) cleaned then T_Word []
      else T_Word cleaned)"

definition from_pair :: "ustr \<Rightarrow> ustr \<Rightarrow> field_term res" where
  "from_pair field value =
     (let normalized = to_ascii_lowercase (trim_matches (\<lambda>c. c = 34) value) in
      if field = lit ''uri'' then Inr (F_Uri normalized)
      else if field = lit ''scope'' then Inr (F_Scope normalized)
      else if field = lit ''track'' then Inr (F_Track normalized)
      else if field = lit ''tag'' then Inr (F_Tag normalized)
      else if field = lit ''label'' then Inr (F_Label normalized)
      else Inl (InvalidQuery ''unsupported field''))"

text \<open>\<open>str::parse\<close> to \<open>u8\<close> and \<open>i32\<close>.\<close>

definition parse_u8 :: "ustr \<Rightarrow> nat option" where
  "parse_u8 s =
     (case parse_digits (case s of c # r \<Rightarrow> if c = 43 then r else s | [] \<Rightarrow> []) of
        None \<Rightarrow> None | Some n \<Rightarrow> if n < 256 then Some n else None)"

definition parse_i32 :: "ustr \<Rightarrow> int option" where
  "parse_i32 s =
     (case s of
        [] \<Rightarrow> None
      | c # r \<Rightarrow>
          if c = 45 then
            (case parse_digits r of None \<Rightarrow> None | Some n \<Rightarrow> if n \<le> 2147483648 then Some (- int n) else None)
          else
            (case parse_digits (if c = 43 then r else s) of
               None \<Rightarrow> None | Some n \<Rightarrow> if n < 2147483648 then Some (int n) else None))"

definition parse_ymd :: "query_env \<Rightarrow> ustr \<Rightarrow> i64 option" where
  "parse_ymd env input =
     (case split_by (\<lambda>c. c = 45) input of
        [y, m, d] \<Rightarrow>
          (case parse_i32 y of None \<Rightarrow> None | Some year \<Rightarrow>
           case parse_u8 m of None \<Rightarrow> None | Some month \<Rightarrow>
           case parse_u8 d of None \<Rightarrow> None | Some day \<Rightarrow> midnight env year month day)
      | [y, m] \<Rightarrow>
          (case parse_i32 y of None \<Rightarrow> None | Some year \<Rightarrow>
           case parse_u8 m of None \<Rightarrow> None | Some month \<Rightarrow> midnight env year month 1)
      | [y] \<Rightarrow>
          if byte_len input = 4 \<and> list_all (\<lambda>c. 48 \<le> c \<and> c \<le> 57) input
          then (case parse_i32 input of None \<Rightarrow> None | Some year \<Rightarrow> midnight env year 1 1)
          else None
      | _ \<Rightarrow> None)"

definition parse_date_value :: "query_env \<Rightarrow> ustr \<Rightarrow> i64 option" where
  "parse_date_value env value =
     (let trimmed = trim_matches (\<lambda>c. c = 34) value in
      if trimmed = [] \<or> trimmed = lit ''*'' then None
      else (case rfc3339 env trimmed of Some t \<Rightarrow> Some t | None \<Rightarrow> parse_ymd env trimmed))"

definition from_date_range :: "query_env \<Rightarrow> ustr \<Rightarrow> ustr \<Rightarrow> ustr \<Rightarrow> field_term res" where
  "from_date_range env field a b =
     (if field \<noteq> lit ''date'' then Inl (InvalidQuery ''unexpected field for date range'')
      else Inr (F_DateRange \<lparr>dr_start = parse_date_value env a, dr_end = parse_date_value env b\<rparr>))"

section \<open>Parser\<close>

fun push_or :: "expr \<Rightarrow> expr \<Rightarrow> expr" where
  "push_or (E_Or l) y = E_Or (l @ [y])"
| "push_or x y = E_Or [x, y]"

fun push_and :: "expr \<Rightarrow> expr \<Rightarrow> expr" where
  "push_and (E_And l) y = E_And (l @ [y])"
| "push_and x y = E_And [x, y]"

function parse_expression :: "query_env \<Rightarrow> token list \<Rightarrow> (expr \<times> token list) res"
  and or_loop :: "query_env \<Rightarrow> expr \<Rightarrow> token list \<Rightarrow> (expr \<times> token list) res"
  and parse_term :: "query_env \<Rightarrow> token list \<Rightarrow> (expr \<times> token list) res"
  and and_loop :: "query_env \<Rightarrow> expr \<Rightarrow> token list \<Rightarrow> (expr \<times> token list) res"
  and parse_factor :: "query_env \<Rightarrow> token list \<Rightarrow> (expr \<times> token list) res"
  and parse_primary :: "query_env \<Rightarrow> token list \<Rightarrow> (expr \<times> token list) res" where
  "parse_expression env ts =
     (case parse_term env ts of Inl e \<Rightarrow> Inl e | Inr (x, r) \<Rightarrow> or_loop env x r)"
| "or_loop env x ts =
     (case ts of
        K_Or # r \<Rightarrow> (case parse_term env r of Inl e \<Rightarrow> Inl e | Inr (y, r') \<Rightarrow> or_loop env (push_or x y) r')
      | _ \<Rightarrow> Inr (x, ts))"
| "parse_term env ts =
     (case parse_factor env ts of Inl e \<Rightarrow> Inl e | Inr (x, r) \<Rightarrow> and_loop env x r)"
| "and_loop env x ts =
     (case ts of
        K_And # r \<Rightarrow> (case parse_factor env r of Inl e \<Rightarrow> Inl e | Inr (y, r') \<Rightarrow> and_loop env (push_and x y) r')
      | K_Or # _ \<Rightarrow> Inr (x, ts)
      | K_RParen # _ \<Rightarrow> Inr (x, ts)
      | [] \<Rightarrow> Inr (x, ts)
      | _ \<Rightarrow> (case parse_factor env ts of Inl e \<Rightarrow> Inl e | Inr (y, r') \<Rightarrow> and_loop env (push_and x y) r'))"
| "parse_factor env ts =
     (case ts of
        K_Not # r \<Rightarrow> (case parse_factor env r of Inl e \<Rightarrow> Inl e | Inr (x, r') \<Rightarrow> Inr (E_Not x, r'))
      | _ \<Rightarrow> parse_primary env ts)"
| "parse_primary env ts =
     (case ts of
        K_LParen # r \<Rightarrow>
          (case parse_expression env r of
             Inl e \<Rightarrow> Inl e
           | Inr (x, r') \<Rightarrow>
               (case r' of K_RParen # r'' \<Rightarrow> Inr (x, r'')
                | _ \<Rightarrow> Inl (InvalidQuery ''expected closing parenthesis after expression'')))
      | K_Word w # r \<Rightarrow> Inr (E_Term (Q_Text (from_word env w)), r)
      | K_Phrase p # r \<Rightarrow> Inr (E_Term (Q_Text (T_Phrase (to_ascii_lowercase p))), r)
      | K_Field f v # r \<Rightarrow>
          (case from_pair f v of Inl e \<Rightarrow> Inl e | Inr t \<Rightarrow> Inr (E_Term (Q_Field t), r))
      | K_DateRange f a b # r \<Rightarrow>
          (case from_date_range env f a b of Inl e \<Rightarrow> Inl e | Inr t \<Rightarrow> Inr (E_Term (Q_Field t), r))
      | [] \<Rightarrow> Inl (InvalidQuery ''unexpected end of query'')
      | _ \<Rightarrow> Inl (InvalidQuery ''unexpected token''))"
  by pat_completeness auto

abbreviation parser_dom where
  "parser_dom \<equiv> parse_expression_or_loop_parse_term_and_loop_parse_factor_parse_primary_dom"

lemmas parser_splits = sum.splits list.splits token.splits

lemma parser_shorter:
  "parser_dom (Inl (Inl (env, ts))) \<Longrightarrow> parse_expression env ts = Inr (e, r) \<Longrightarrow> length r < length ts"
  "parser_dom (Inl (Inr (Inl (env, x, ts)))) \<Longrightarrow> or_loop env x ts = Inr (e, r) \<Longrightarrow> length r \<le> length ts"
  "parser_dom (Inl (Inr (Inr (env, ts)))) \<Longrightarrow> parse_term env ts = Inr (e, r) \<Longrightarrow> length r < length ts"
  "parser_dom (Inr (Inl (env, x, ts))) \<Longrightarrow> and_loop env x ts = Inr (e, r) \<Longrightarrow> length r \<le> length ts"
  "parser_dom (Inr (Inr (Inl (env, ts)))) \<Longrightarrow> parse_factor env ts = Inr (e, r) \<Longrightarrow> length r < length ts"
  "parser_dom (Inr (Inr (Inr (env, ts)))) \<Longrightarrow> parse_primary env ts = Inr (e, r) \<Longrightarrow> length r < length ts"
proof (induction arbitrary: e r and e r and e r and e r and e r and e r
    rule: parse_expression_or_loop_parse_term_and_loop_parse_factor_parse_primary.pinduct)
  case (1 env ts)
  then show ?case by (fastforce simp: parse_expression.psimps split: parser_splits)
next
  case (2 env x ts)
  then show ?case by (fastforce simp: or_loop.psimps split: parser_splits)
next
  case (3 env ts)
  then show ?case by (fastforce simp: parse_term.psimps split: parser_splits)
next
  case (4 env x ts)
  then show ?case by (fastforce simp: and_loop.psimps split: parser_splits)
next
  case (5 env ts)
  then show ?case by (fastforce simp: parse_factor.psimps split: parser_splits)
next
  case (6 env ts)
  then show ?case by (fastforce simp: parse_primary.psimps split: parser_splits)
qed

termination parse_expression
proof (relation "measures
    [\<lambda>z. case z of Inl (Inl (_, ts)) \<Rightarrow> length ts | Inl (Inr (Inl (_, _, ts))) \<Rightarrow> length ts
       | Inl (Inr (Inr (_, ts))) \<Rightarrow> length ts | Inr (Inl (_, _, ts)) \<Rightarrow> length ts
       | Inr (Inr (Inl (_, ts))) \<Rightarrow> length ts | Inr (Inr (Inr (_, ts))) \<Rightarrow> length ts,
     \<lambda>z. case z of Inl (Inl _) \<Rightarrow> 3 | Inl (Inr (Inl _)) \<Rightarrow> 3 | Inl (Inr (Inr _)) \<Rightarrow> 2
       | Inr (Inl _) \<Rightarrow> 2 | Inr (Inr (Inl _)) \<Rightarrow> 1 | Inr (Inr (Inr _)) \<Rightarrow> 0]")
qed (auto dest!: parser_shorter)

declare parse_expression.simps [simp del] or_loop.simps [simp del] parse_term.simps [simp del]
  and_loop.simps [simp del] parse_factor.simps [simp del] parse_primary.simps [simp del]

definition parse_query :: "query_env \<Rightarrow> ustr \<Rightarrow> expr res" where
  "parse_query env query =
     (case tokenize query of
        Inl e \<Rightarrow> Inl e
      | Inr ts \<Rightarrow> (case parse_expression env ts of Inl e \<Rightarrow> Inl e | Inr (x, _) \<Rightarrow> Inr x))"

section \<open>Evaluation\<close>

definition eq_ignore_ascii_case :: "ustr \<Rightarrow> ustr \<Rightarrow> bool" where
  "eq_ignore_ascii_case a b = (to_ascii_lowercase a = to_ascii_lowercase b)"

fun text_matches :: "query_env \<Rightarrow> ustr \<Rightarrow> text_term \<Rightarrow> bool" where
  "text_matches env haystack (T_Word w) = str_contains haystack (to_ascii_lowercase w)"
| "text_matches env haystack (T_Phrase p) = str_contains haystack (to_ascii_lowercase p)"
| "text_matches env haystack (T_Wildcard p) = re_match env (regex p) haystack"

definition dr_contains :: "date_range \<Rightarrow> i64 \<Rightarrow> bool" where
  "dr_contains r ts =
     ((case dr_start r of None \<Rightarrow> True | Some a \<Rightarrow> \<not> sint ts < sint a) \<and>
      (case dr_end r of None \<Rightarrow> True | Some b \<Rightarrow> \<not> sint b < sint ts))"

definition date_candidates :: "query_env \<Rightarrow> frame \<Rightarrow> i64 list" where
  "date_candidates env fr =
     ftimestamp fr # (case anchor_ts fr of None \<Rightarrow> [] | Some t \<Rightarrow> [t])
       @ List.map_filter (parse_date_value env) (content_dates fr)"

definition dr_matches :: "query_env \<Rightarrow> date_range \<Rightarrow> frame \<Rightarrow> bool" where
  "dr_matches env r fr =
     (if dr_start r = None \<and> dr_end r = None then True else list_ex (dr_contains r) (date_candidates env fr))"

definition i64_max :: "i64 \<Rightarrow> i64 \<Rightarrow> i64" where
  "i64_max a b = (if sint a \<le> sint b then b else a)"

definition i64_min :: "i64 \<Rightarrow> i64 \<Rightarrow> i64" where
  "i64_min a b = (if sint a \<le> sint b then a else b)"

fun both :: "('a \<Rightarrow> 'a \<Rightarrow> 'a) \<Rightarrow> 'a option \<Rightarrow> 'a option \<Rightarrow> 'a option" where
  "both f (Some a) (Some b) = Some (f a b)"
| "both f (Some a) None = Some a"
| "both f None b = b"

definition intersection :: "date_range \<Rightarrow> date_range \<Rightarrow> date_range" where
  "intersection r q = \<lparr>dr_start = both i64_max (dr_start r) (dr_start q), dr_end = both i64_min (dr_end r) (dr_end q)\<rparr>"

definition dr_is_empty :: "date_range \<Rightarrow> bool" where
  "dr_is_empty r = (case (dr_start r, dr_end r) of (Some a, Some b) \<Rightarrow> sint b < sint a | _ \<Rightarrow> False)"

definition opt_test :: "('a \<Rightarrow> bool) \<Rightarrow> 'a option \<Rightarrow> bool" where
  "opt_test P x = (case x of None \<Rightarrow> False | Some a \<Rightarrow> P a)"

fun field_matches :: "query_env \<Rightarrow> frame \<Rightarrow> field_term \<Rightarrow> bool" where
  "field_matches env fr (F_Uri v) = opt_test (\<lambda>u. eq_ignore_ascii_case u v) (furi fr)"
| "field_matches env fr (F_Scope v) = opt_test (\<lambda>u. starts_with u v) (furi fr)"
| "field_matches env fr (F_Track v) = opt_test (\<lambda>t. eq_ignore_ascii_case t v) (ftrack fr)"
| "field_matches env fr (F_Tag v) = list_ex (\<lambda>t. eq_ignore_ascii_case t v) (tags fr)"
| "field_matches env fr (F_Label v) = list_ex (\<lambda>t. eq_ignore_ascii_case t v) (labels fr)"
| "field_matches env fr (F_DateRange r) = dr_matches env r fr"

fun term_evaluate :: "query_env \<Rightarrow> frame \<Rightarrow> ustr \<Rightarrow> qterm \<Rightarrow> bool" where
  "term_evaluate env fr content (Q_Text t) = text_matches env content t"
| "term_evaluate env fr content (Q_Field f) = field_matches env fr f"

fun evaluate :: "query_env \<Rightarrow> frame \<Rightarrow> ustr \<Rightarrow> expr \<Rightarrow> bool" where
  "evaluate env fr content (E_Or cs) = list_ex (evaluate env fr content) cs"
| "evaluate env fr content (E_And cs) = list_all (evaluate env fr content) cs"
| "evaluate env fr content (E_Not c) = (\<not> evaluate env fr content c)"
| "evaluate env fr content (E_Term t) = term_evaluate env fr content t"

fun collect_tokens :: "expr \<Rightarrow> ustr list" where
  "collect_tokens (E_Or cs) = concat (map collect_tokens cs)"
| "collect_tokens (E_And cs) = concat (map collect_tokens cs)"
| "collect_tokens (E_Not c) = collect_tokens c"
| "collect_tokens (E_Term (Q_Text (T_Word w))) = [w]"
| "collect_tokens (E_Term (Q_Text (T_Phrase p))) = [p]"
| "collect_tokens (E_Term (Q_Text (T_Wildcard p))) = (case wildcard_seed p of None \<Rightarrow> [] | Some s \<Rightarrow> [s])"
| "collect_tokens (E_Term (Q_Field f)) = []"

definition combine_ranges :: "date_range option list \<Rightarrow> date_range option" where
  "combine_ranges rs = foldl (\<lambda>acc r.
     case r of None \<Rightarrow> acc
     | Some c \<Rightarrow> Some (case acc of Some e \<Rightarrow> intersection e c | None \<Rightarrow> c)) None rs"

fun required_date_range :: "expr \<Rightarrow> date_range option" where
  "required_date_range (E_Term (Q_Field (F_DateRange r))) = Some r"
| "required_date_range (E_And cs) = combine_ranges (map required_date_range cs)"
| "required_date_range e = None"

fun contains_field_terms :: "expr \<Rightarrow> bool" where
  "contains_field_terms (E_Or cs) = list_ex contains_field_terms cs"
| "contains_field_terms (E_And cs) = list_ex contains_field_terms cs"
| "contains_field_terms (E_Not c) = contains_field_terms c"
| "contains_field_terms (E_Term (Q_Field f)) = True"
| "contains_field_terms (E_Term (Q_Text t)) = False"

section \<open>The shape of parsed queries\<close>

text \<open>The parser flattens: a disjunction has at least two branches and does not start with a
  disjunction (which would have been extended), and likewise for conjunctions.\<close>

fun is_or :: "expr \<Rightarrow> bool" where "is_or (E_Or _) = True" | "is_or _ = False"
fun is_and :: "expr \<Rightarrow> bool" where "is_and (E_And _) = True" | "is_and _ = False"

fun canonical_expr :: "expr \<Rightarrow> bool" where
  "canonical_expr (E_Or cs) = (2 \<le> length cs \<and> \<not> is_or (hd cs) \<and> list_all canonical_expr cs)"
| "canonical_expr (E_And cs) = (2 \<le> length cs \<and> \<not> is_and (hd cs) \<and> list_all canonical_expr cs)"
| "canonical_expr (E_Not c) = canonical_expr c"
| "canonical_expr (E_Term t) = True"

lemma canonical_push:
  "canonical_expr x \<Longrightarrow> canonical_expr y \<Longrightarrow> canonical_expr (push_or x y)"
  "canonical_expr x \<Longrightarrow> canonical_expr y \<Longrightarrow> canonical_expr (push_and x y)"
  by (cases x; auto simp: hd_append)+

lemma evaluate_push:
  "evaluate env fr content (push_or x y) = (evaluate env fr content x \<or> evaluate env fr content y)"
  "evaluate env fr content (push_and x y) = (evaluate env fr content x \<and> evaluate env fr content y)"
  by (cases x; simp)+

lemma parsed_canonical:
  "parse_expression env ts = Inr (e, r) \<Longrightarrow> canonical_expr e"
  "or_loop env x ts = Inr (e, r) \<Longrightarrow> canonical_expr x \<Longrightarrow> canonical_expr e"
  "parse_term env ts = Inr (e, r) \<Longrightarrow> canonical_expr e"
  "and_loop env x ts = Inr (e, r) \<Longrightarrow> canonical_expr x \<Longrightarrow> canonical_expr e"
  "parse_factor env ts = Inr (e, r) \<Longrightarrow> canonical_expr e"
  "parse_primary env ts = Inr (e, r) \<Longrightarrow> canonical_expr e"
proof (induction env ts and env x ts and env ts and env x ts and env ts and env ts
    arbitrary: e r and e r and e r and e r and e r and e r
    rule: parse_expression_or_loop_parse_term_and_loop_parse_factor_parse_primary.induct)
  case (1 env ts)
  then show ?case by (auto simp: parse_expression.simps [of env ts] split: parser_splits)
next
  case (2 env x ts)
  then show ?case by (auto simp: or_loop.simps [of env x ts] canonical_push split: parser_splits)
next
  case (3 env ts)
  then show ?case by (auto simp: parse_term.simps [of env ts] split: parser_splits)
next
  case (4 env x ts)
  then show ?case by (auto simp: and_loop.simps [of env x ts] canonical_push split: parser_splits)
next
  case (5 env ts)
  then show ?case by (auto simp: parse_factor.simps [of env ts] split: parser_splits)
next
  case (6 env ts)
  then show ?case by (auto simp: parse_primary.simps [of env ts] split: parser_splits)
qed

end
