(* ===== verification/Query_Print.thy ===== *)
theory Query_Print
  imports Query
begin

text \<open>
  Queries written back as text: the tokens and the text of an expression, with the parentheses
  that the grammar needs, and the proof that lexing and parsing that text gives the expression
  back.  \<open>fmt\<close> formats a timestamp.
\<close>

section \<open>Printing\<close>

definition show_date :: "(i64 \<Rightarrow> ustr) \<Rightarrow> i64 option \<Rightarrow> ustr" where
  "show_date fmt d = (case d of None \<Rightarrow> lit ''*'' | Some t \<Rightarrow> fmt t)"

fun show_token :: "token \<Rightarrow> ustr" where
  "show_token (K_Word w) = w"
| "show_token (K_Phrase p) = 34 # p @ [34]"
| "show_token (K_Field f v) = f @ 58 # 34 # v @ [34]"
| "show_token (K_DateRange f a b) = f @ 58 # 91 # a @ lit '' TO '' @ b @ [93]"
| "show_token K_LParen = [40]"
| "show_token K_RParen = [41]"
| "show_token K_And = lit ''AND''"
| "show_token K_Or = lit ''OR''"
| "show_token K_Not = lit ''NOT''"

definition show_tokens :: "token list \<Rightarrow> ustr" where
  "show_tokens ts = concat (map (\<lambda>t. show_token t @ [32]) ts)"

fun term_token :: "(i64 \<Rightarrow> ustr) \<Rightarrow> qterm \<Rightarrow> token" where
  "term_token fmt (Q_Text (T_Word w)) = K_Word w"
| "term_token fmt (Q_Text (T_Phrase p)) = K_Phrase p"
| "term_token fmt (Q_Text (T_Wildcard p)) = K_Word (raw p)"
| "term_token fmt (Q_Field (F_Uri v)) = K_Field (lit ''uri'') v"
| "term_token fmt (Q_Field (F_Scope v)) = K_Field (lit ''scope'') v"
| "term_token fmt (Q_Field (F_Track v)) = K_Field (lit ''track'') v"
| "term_token fmt (Q_Field (F_Tag v)) = K_Field (lit ''tag'') v"
| "term_token fmt (Q_Field (F_Label v)) = K_Field (lit ''label'') v"
| "term_token fmt (Q_Field (F_DateRange r)) =
     K_DateRange (lit ''date'') (show_date fmt (dr_start r)) (show_date fmt (dr_end r))"

fun sep :: "token \<Rightarrow> token list list \<Rightarrow> token list" where
  "sep t [] = []"
| "sep t (x # xs) = x @ concat (map (\<lambda>y. t # y) xs)"

text \<open>Level 0 is an expression, 1 a term, 2 a factor.\<close>

fun show_expr :: "(i64 \<Rightarrow> ustr) \<Rightarrow> nat \<Rightarrow> expr \<Rightarrow> token list" where
  "show_expr fmt lv (E_Or cs) =
     (let body = sep K_Or (map (show_expr fmt 1) cs) in
      if lv = 0 then body else K_LParen # body @ [K_RParen])"
| "show_expr fmt lv (E_And cs) =
     (let body = sep K_And (map (show_expr fmt 2) cs) in
      if lv \<le> 1 then body else K_LParen # body @ [K_RParen])"
| "show_expr fmt lv (E_Not c) = K_Not # show_expr fmt 2 c"
| "show_expr fmt lv (E_Term t) = [term_token fmt t]"

definition show_query :: "(i64 \<Rightarrow> ustr) \<Rightarrow> expr \<Rightarrow> ustr" where
  "show_query fmt e = show_tokens (show_expr fmt 0 e)"

section \<open>Lexing the printed text\<close>

definition date_word :: "ustr \<Rightarrow> bool" where
  "date_word a \<longleftrightarrow> a \<noteq> [] \<and> list_all (\<lambda>c. \<not> is_whitespace c) a \<and> 93 \<notin> set a"

fun token_ok :: "token \<Rightarrow> bool" where
  "token_ok (K_Word w) = (w \<noteq> [] \<and> list_all (\<lambda>c. \<not> word_break c) w \<and> hd w \<noteq> 34 \<and> 58 \<notin> set w \<and>
     keyword_or_word w = K_Word w)"
| "token_ok (K_Phrase p) = (34 \<notin> set p)"
| "token_ok (K_Field f v) = (f \<in> set KNOWN_FIELDS \<and> 34 \<notin> set v)"
| "token_ok (K_DateRange f a b) = (f = lit ''date'' \<and> date_word a \<and> date_word b)"
| "token_ok t = True"

lemma take_drop_until:
  "c \<notin> set p \<Longrightarrow> takeWhile (\<lambda>x. x \<noteq> c) (p @ c # s) = p"
  "c \<notin> set p \<Longrightarrow> dropWhile (\<lambda>x. x \<noteq> c) (p @ c # s) = c # s"
  by (induction p) auto

lemma read_until_quote_text: "34 \<notin> set p \<Longrightarrow> read_until_quote (p @ 34 # s) = Inr (p, s)"
  by (simp add: read_until_quote_def take_drop_until)

lemma word_break_space [simp]: "word_break 32" "\<not> word_break 58"
  by (simp_all add: word_break_def is_whitespace_def)

lemma take_word:
  "list_all (\<lambda>c. \<not> word_break c) w \<Longrightarrow> takeWhile (\<lambda>c. \<not> word_break c) (w @ s) = w @ takeWhile (\<lambda>c. \<not> word_break c) s"
  "list_all (\<lambda>c. \<not> word_break c) w \<Longrightarrow> dropWhile (\<lambda>c. \<not> word_break c) (w @ s) = dropWhile (\<lambda>c. \<not> word_break c) s"
  by (induction w) auto

lemma tokenize_space: "tokenize (32 # s) = tokenize s"
  by (simp add: is_whitespace_def)

lemmas tokenize_step = tokenize.simps(2)

declare tokenize.simps(2) [simp del]

text \<open>A token that starts like a word.\<close>

lemma tokenize_wordlike:
  assumes "\<not> word_break c" "c \<noteq> 34" "read_field_or_word (c # s) = Inr (Some t, r)"
  shows "tokenize (c # s) = (case tokenize r of Inl e \<Rightarrow> Inl e | Inr ts \<Rightarrow> Inr (t # ts))"
  using assms by (auto simp: tokenize_step word_break_def split: sum.splits)

lemma lex_word:
  assumes "list_all (\<lambda>c. \<not> word_break c) w" "w \<noteq> []" "hd w \<noteq> 34" "58 \<notin> set w"
  shows "tokenize (w @ 32 # s) =
    (case tokenize s of Inl e \<Rightarrow> Inl e | Inr ts \<Rightarrow> Inr (keyword_or_word w # ts))"
proof -
  obtain c v where w: "w = c # v" using assms(2) by (cases w) auto
  have "read_field_or_word (w @ 32 # s) = Inr (Some (keyword_or_word w), 32 # s)"
    using assms by (simp add: read_field_or_word_def Let_def take_word)
  then have "read_field_or_word (c # v @ 32 # s) = Inr (Some (keyword_or_word w), 32 # s)" by (simp add: w)
  from tokenize_wordlike [OF _ _ this] assms(1,3) show ?thesis by (simp add: w tokenize_space)
qed

lemma known_field_word:
  assumes "f \<in> set KNOWN_FIELDS"
  shows "list_all (\<lambda>c. \<not> word_break c) f" "58 \<notin> set f" "f \<noteq> []" "hd f \<noteq> 34" "to_ascii_lowercase f = f"
  using assms by (auto simp: KNOWN_FIELDS_def lit_def word_break_def is_whitespace_def to_ascii_lowercase_def)

lemma lex_field:
  assumes f: "f \<in> set KNOWN_FIELDS" and rd: "read_field f s = Inr (t, r)"
  shows "tokenize (f @ 58 # s) = (case tokenize r of Inl e \<Rightarrow> Inl e | Inr ts \<Rightarrow> Inr (t # ts))"
proof -
  note k = known_field_word [OF f]
  obtain c v where w: "f = c # v" using k(3) by (cases f) auto
  have tw: "takeWhile (\<lambda>c. \<not> word_break c) (f @ 58 # s) = f @ 58 # takeWhile (\<lambda>c. \<not> word_break c) s"
    by (simp add: take_word k(1))
  have "read_field_or_word (f @ 58 # s) = Inr (Some t, r)"
    using f by (simp add: read_field_or_word_def Let_def tw take_drop_until k rd)
  then have "read_field_or_word (c # v @ 58 # s) = Inr (Some t, r)" by (simp add: w)
  from tokenize_wordlike [OF _ _ this] k(1,4) show ?thesis by (simp add: w)
qed

lemma split_by_word:
  "list_all (\<lambda>c. \<not> P c) w \<Longrightarrow> P c \<Longrightarrow> split_by P (w @ c # s) = w # split_by P s"
  "list_all (\<lambda>c. \<not> P c) w \<Longrightarrow> split_by P w = [w]"
  by (induction w) auto

lemma split_whitespace_date:
  assumes "date_word a" "date_word b"
  shows "split_whitespace (a @ lit '' TO '' @ b) = [a, lit ''TO'', b]"
proof -
  have "lit '' TO '' @ b = 32 # lit ''TO'' @ 32 # b" by (simp add: lit_def)
  moreover have "list_all (\<lambda>c. \<not> is_whitespace c) (lit ''TO'')" by (simp add: lit_def is_whitespace_def)
  ultimately show ?thesis
    using assms by (simp add: split_whitespace_def date_word_def split_by_word is_whitespace_def [of 32] lit_def)
qed

lemma lex_date_range:
  assumes "date_word a" "date_word b"
  shows "read_date_range (a @ lit '' TO '' @ b @ 93 # s) = Inr (a, b, s)"
proof -
  let ?c = "a @ lit '' TO '' @ b"
  have n: "93 \<notin> set ?c" using assms by (simp add: date_word_def lit_def)
  have "trim ?c = ?c"
  proof (rule trim_fix)
    show "?c \<noteq> []" by (simp add: lit_def)
    show "\<not> is_whitespace (hd ?c)" "\<not> is_whitespace (last ?c)"
      using assms by (auto simp: date_word_def list_all_iff)
  qed
  then show ?thesis
    using take_drop_until [OF n, of s] split_whitespace_date [OF assms]
    by (simp add: read_date_range_def lit_def to_ascii_lowercase_def)
qed

lemma keyword_words:
  "w \<in> {lit ''AND'', lit ''OR'', lit ''NOT''} \<Longrightarrow>
     list_all (\<lambda>c. \<not> word_break c) w \<and> w \<noteq> [] \<and> hd w \<noteq> 34 \<and> 58 \<notin> set w"
  "keyword_or_word (lit ''AND'') = K_And" "keyword_or_word (lit ''OR'') = K_Or"
  "keyword_or_word (lit ''NOT'') = K_Not"
  by (auto simp: lit_def keyword_or_word_def word_break_def is_whitespace_def)

lemma lex_token:
  assumes "token_ok t"
  shows "tokenize (show_token t @ 32 # s) = (case tokenize s of Inl e \<Rightarrow> Inl e | Inr ts \<Rightarrow> Inr (t # ts))"
proof (cases t)
  case (K_Word w)
  with assms lex_word [of w s] show ?thesis unfolding K_Word by (simp split: sum.splits)
next
  case (K_Phrase p)
  with assms show ?thesis unfolding K_Phrase
    by (simp add: tokenize_step [of 34] read_quoted_def read_until_quote_text is_whitespace_def [of 34] tokenize_space)
next
  case (K_Field f v)
  then have "read_field f (34 # v @ 34 # 32 # s) = Inr (K_Field f v, 32 # s)"
    using assms by (simp add: read_field_def known_field_word read_until_quote_text)
  with lex_field [of f] assms K_Field show ?thesis unfolding K_Field by (simp add: tokenize_space)
next
  case (K_DateRange f a b)
  have d: "lit ''date'' \<in> set KNOWN_FIELDS" by (simp add: KNOWN_FIELDS_def)
  have "read_field (lit ''date'') (91 # a @ lit '' TO '' @ b @ 93 # 32 # s) =
      Inr (K_DateRange (lit ''date'') a b, 32 # s)"
    using assms K_DateRange lex_date_range [of a b "32 # s"]
    by (simp add: read_field_def known_field_word(5) [OF d])
  from lex_field [OF d this] assms K_DateRange show ?thesis
    unfolding K_DateRange by (simp add: tokenize_space split: sum.splits)
next
  case K_LParen
  then show ?thesis unfolding K_LParen by (simp add: tokenize_step [of 40] tokenize_step [of 41] is_whitespace_def [of 40] is_whitespace_def [of 41] tokenize_space)
next
  case K_RParen
  then show ?thesis unfolding K_RParen by (simp add: tokenize_step [of 40] tokenize_step [of 41] is_whitespace_def [of 40] is_whitespace_def [of 41] tokenize_space)
next
  case K_And
  then show ?thesis unfolding K_And using lex_word [of "lit ''AND''" s] keyword_words(1) [of "lit ''AND''"]
    by (simp add: keyword_words(2-) split: sum.splits)
next
  case K_Or
  then show ?thesis unfolding K_Or using lex_word [of "lit ''OR''" s] keyword_words(1) [of "lit ''OR''"]
    by (simp add: keyword_words(2-) split: sum.splits)
next
  case K_Not
  then show ?thesis unfolding K_Not using lex_word [of "lit ''NOT''" s] keyword_words(1) [of "lit ''NOT''"]
    by (simp add: keyword_words(2-) split: sum.splits)
qed

lemma lex_tokens: "list_all token_ok ts \<Longrightarrow> tokenize (show_tokens ts) = Inr ts"
  by (induction ts) (simp_all add: show_tokens_def lex_token)

section \<open>Parsing the printed tokens\<close>

text \<open>A term reads back when its text is not changed by the normalisation of the parser.\<close>

fun term_reads_back :: "query_env \<Rightarrow> (i64 \<Rightarrow> ustr) \<Rightarrow> qterm \<Rightarrow> bool" where
  "term_reads_back env fmt (Q_Text (T_Word w)) = (from_word env w = T_Word w)"
| "term_reads_back env fmt (Q_Text (T_Phrase p)) = (to_ascii_lowercase p = p)"
| "term_reads_back env fmt (Q_Text (T_Wildcard p)) = (from_word env (raw p) = T_Wildcard p)"
| "term_reads_back env fmt (Q_Field (F_Uri v)) = (to_ascii_lowercase v = v)"
| "term_reads_back env fmt (Q_Field (F_Scope v)) = (to_ascii_lowercase v = v)"
| "term_reads_back env fmt (Q_Field (F_Track v)) = (to_ascii_lowercase v = v)"
| "term_reads_back env fmt (Q_Field (F_Tag v)) = (to_ascii_lowercase v = v)"
| "term_reads_back env fmt (Q_Field (F_Label v)) = (to_ascii_lowercase v = v)"
| "term_reads_back env fmt (Q_Field (F_DateRange r)) =
     (parse_date_value env (show_date fmt (dr_start r)) = dr_start r \<and>
      parse_date_value env (show_date fmt (dr_end r)) = dr_end r)"

fun printable :: "query_env \<Rightarrow> (i64 \<Rightarrow> ustr) \<Rightarrow> expr \<Rightarrow> bool" where
  "printable env fmt (E_Or cs) = list_all (printable env fmt) cs"
| "printable env fmt (E_And cs) = list_all (printable env fmt) cs"
| "printable env fmt (E_Not c) = printable env fmt c"
| "printable env fmt (E_Term t) = (token_ok (term_token fmt t) \<and> term_reads_back env fmt t)"

lemma trim_quotes: "34 \<notin> set v \<Longrightarrow> trim_matches (\<lambda>c. c = 34) v = v"
proof -
  have "dropWhile (\<lambda>c. c = 34) w = w" if "34 \<notin> set w" for w :: ustr
    using that by (cases w) auto
  then show "34 \<notin> set v \<Longrightarrow> trim_matches (\<lambda>c. c = 34) v = v" by (simp add: trim_matches_def)
qed

lemma parse_term_token:
  assumes "token_ok (term_token fmt t)" "term_reads_back env fmt t"
  shows "parse_primary env (term_token fmt t # r) = Inr (E_Term t, r)"
  using assms
  by (cases "(fmt, t)" rule: term_token.cases)
    (simp_all add: parse_primary.simps [of env "_ # _"] from_pair_def from_date_range_def trim_quotes lit_def)

lemma parse_factor_token:
  assumes "token_ok (term_token fmt t)" "term_reads_back env fmt t"
  shows "parse_factor env (term_token fmt t # r) = Inr (E_Term t, r)"
  using parse_term_token [OF assms]
  by (cases "(fmt, t)" rule: term_token.cases) (simp_all add: parse_factor.simps [of env "_ # _"])

text \<open>What may follow a term and an expression.\<close>

definition ends_term :: "token list \<Rightarrow> bool" where
  "ends_term r \<longleftrightarrow> r = [] \<or> hd r = K_Or \<or> hd r = K_RParen"

definition ends_expr :: "token list \<Rightarrow> bool" where
  "ends_expr r \<longleftrightarrow> r = [] \<or> hd r = K_RParen"

lemma and_loop_end: "ends_term r \<Longrightarrow> and_loop env x r = Inr (x, r)"
  by (cases r) (auto simp: ends_term_def and_loop.simps [of env x "[]"] and_loop.simps [of env x "_ # _"]
      split: token.splits)

lemma or_loop_end: "ends_expr r \<Longrightarrow> or_loop env x r = Inr (x, r)"
  by (cases r) (auto simp: ends_expr_def or_loop.simps [of env x "[]"] or_loop.simps [of env x "_ # _"]
      split: token.splits)

lemma and_loop_show:
  assumes "\<And>c r. c \<in> set cs \<Longrightarrow> parse_factor env (show_expr fmt 2 c @ r) = Inr (c, r)" "ends_term r"
  shows "and_loop env x (concat (map (\<lambda>c. K_And # show_expr fmt 2 c) cs) @ r) = Inr (foldl push_and x cs, r)"
  using assms(1)
proof (induction cs arbitrary: x)
  case Nil
  then show ?case by (simp add: and_loop_end [OF assms(2)])
next
  case (Cons c cs)
  then show ?case by (simp add: and_loop.simps [of env x "K_And # _"])
qed

lemma or_loop_show:
  assumes "\<And>c r. c \<in> set cs \<Longrightarrow> ends_term r \<Longrightarrow> parse_term env (show_expr fmt 1 c @ r) = Inr (c, r)"
    "ends_expr r"
  shows "or_loop env x (concat (map (\<lambda>c. K_Or # show_expr fmt 1 c) cs) @ r) = Inr (foldl push_or x cs, r)"
  using assms(1)
proof (induction cs arbitrary: x)
  case Nil
  then show ?case by (simp add: or_loop_end [OF assms(2)])
next
  case (Cons c cs)
  have "ends_term (concat (map (\<lambda>c. K_Or # show_expr fmt 1 c) cs) @ r)"
    using assms(2) by (cases cs) (auto simp: ends_term_def ends_expr_def)
  with Cons show ?case by (simp add: or_loop.simps [of env x "K_Or # _"])
qed

lemma foldl_push:
  "\<not> is_and c \<Longrightarrow> cs \<noteq> [] \<Longrightarrow> foldl push_and c cs = E_And (c # cs)"
  "\<not> is_or c \<Longrightarrow> cs \<noteq> [] \<Longrightarrow> foldl push_or c cs = E_Or (c # cs)"
proof -
  have a: "foldl push_and (E_And l) cs = E_And (l @ cs)" for l cs by (induction cs arbitrary: l) auto
  have o: "foldl push_or (E_Or l) cs = E_Or (l @ cs)" for l cs by (induction cs arbitrary: l) auto
  show "\<not> is_and c \<Longrightarrow> cs \<noteq> [] \<Longrightarrow> foldl push_and c cs = E_And (c # cs)"
    by (cases cs; cases c) (simp_all add: a)
  show "\<not> is_or c \<Longrightarrow> cs \<noteq> [] \<Longrightarrow> foldl push_or c cs = E_Or (c # cs)"
    by (cases cs; cases c) (simp_all add: o)
qed

text \<open>The three levels, in terms of each other.\<close>

lemma factor_gives_term:
  assumes "\<And>r. parse_factor env (ts @ r) = Inr (e, r)" "ends_term r"
  shows "parse_term env (ts @ r) = Inr (e, r)"
  by (simp add: parse_term.simps [of env "ts @ r"] assms(1) and_loop_end [OF assms(2)])

lemma term_gives_expression:
  assumes "\<And>r. ends_term r \<Longrightarrow> parse_term env (ts @ r) = Inr (e, r)" "ends_expr r"
  shows "parse_expression env (ts @ r) = Inr (e, r)"
proof -
  have "ends_term r" using assms(2) by (auto simp: ends_term_def ends_expr_def)
  then show ?thesis by (simp add: parse_expression.simps [of env "ts @ r"] assms(1) or_loop_end [OF assms(2)])
qed

lemma expression_gives_factor:
  assumes "\<And>r. ends_expr r \<Longrightarrow> parse_expression env (ts @ r) = Inr (e, r)"
  shows "parse_factor env ((K_LParen # ts @ [K_RParen]) @ r) = Inr (e, r)"
proof -
  have "parse_expression env (ts @ K_RParen # r) = Inr (e, K_RParen # r)"
    by (rule assms) (simp add: ends_expr_def)
  then show ?thesis
    by (simp add: parse_factor.simps [of env "K_LParen # _"] parse_primary.simps [of env "K_LParen # _"])
qed

definition reads :: "query_env \<Rightarrow> (i64 \<Rightarrow> ustr) \<Rightarrow> expr \<Rightarrow> bool" where
  "reads env fmt e \<longleftrightarrow>
     (\<forall>r. parse_factor env (show_expr fmt 2 e @ r) = Inr (e, r)) \<and>
     (\<forall>r. ends_term r \<longrightarrow> parse_term env (show_expr fmt 1 e @ r) = Inr (e, r)) \<and>
     (\<forall>r. ends_expr r \<longrightarrow> parse_expression env (show_expr fmt 0 e @ r) = Inr (e, r))"

lemma reads_atom:
  assumes "\<And>lv. show_expr fmt lv e = show_expr fmt 2 e"
    "\<And>r. parse_factor env (show_expr fmt 2 e @ r) = Inr (e, r)"
  shows "reads env fmt e"
proof -
  have 1: "parse_term env (show_expr fmt 1 e @ r) = Inr (e, r)" if "ends_term r" for r
    using factor_gives_term [OF assms(2) that] by (simp add: assms(1) [of "Suc 0"])
  moreover have "parse_expression env (show_expr fmt 0 e @ r) = Inr (e, r)" if "ends_expr r" for r
    using term_gives_expression [OF 1 that] by (simp add: assms(1) [of 0] assms(1) [of "Suc 0"])
  ultimately show ?thesis by (simp add: reads_def assms(2))
qed

lemma reads_And:
  assumes "\<And>c. c \<in> set cs \<Longrightarrow> reads env fmt c" "canonical_expr (E_And cs)"
  shows "reads env fmt (E_And cs)"
proof -
  obtain c d ds where cs: "cs = c # d # ds"
    using assms(2) by (cases cs; cases "tl cs") auto
  let ?b = "sep K_And (map (show_expr fmt 2) cs)"
  have f: "parse_factor env (show_expr fmt 2 x @ r) = Inr (x, r)" if "x \<in> set cs" for x r
    using assms(1) [OF that] by (simp add: reads_def)
  have b: "?b @ r = show_expr fmt 2 c @ concat (map (\<lambda>c. K_And # show_expr fmt 2 c) (d # ds)) @ r" for r
    by (simp add: cs comp_def)
  have 1: "parse_term env (?b @ r) = Inr (E_And cs, r)" if "ends_term r" for r
    unfolding b parse_term.simps [of env "_ @ _"]
    using and_loop_show [of "d # ds" env fmt r c] f that assms(2) foldl_push(1) [of c "d # ds"]
    by (simp add: cs)
  have 0: "parse_expression env (?b @ r) = Inr (E_And cs, r)" if "ends_expr r" for r
    by (rule term_gives_expression [OF 1 that])
  have "parse_factor env ((K_LParen # ?b @ [K_RParen]) @ r) = Inr (E_And cs, r)" for r
    by (rule expression_gives_factor [OF 0])
  with 0 1 show ?thesis by (simp add: reads_def)
qed

lemma reads_Or:
  assumes "\<And>c. c \<in> set cs \<Longrightarrow> reads env fmt c" "canonical_expr (E_Or cs)"
  shows "reads env fmt (E_Or cs)"
proof -
  obtain c d ds where cs: "cs = c # d # ds"
    using assms(2) by (cases cs; cases "tl cs") auto
  let ?b = "sep K_Or (map (show_expr fmt 1) cs)"
  have t: "parse_term env (show_expr fmt 1 x @ r) = Inr (x, r)" if "x \<in> set cs" "ends_term r" for x r
    using assms(1) [OF that(1)] that(2) by (simp add: reads_def)
  have b: "?b @ r = show_expr fmt 1 c @ concat (map (\<lambda>c. K_Or # show_expr fmt 1 c) (d # ds)) @ r" for r
    by (simp add: cs comp_def)
  have 0: "parse_expression env (?b @ r) = Inr (E_Or cs, r)" if "ends_expr r" for r
  proof -
    have "ends_term (concat (map (\<lambda>c. K_Or # show_expr fmt 1 c) (d # ds)) @ r)" by (simp add: ends_term_def)
    moreover have "c \<in> set cs" by (simp add: cs)
    ultimately show ?thesis
      unfolding b parse_expression.simps [of env "_ @ _"]
      using or_loop_show [of "d # ds" env fmt r c] t that assms(2) foldl_push(2) [of c "d # ds"]
      by (simp add: cs)
  qed
  have 2: "parse_factor env ((K_LParen # ?b @ [K_RParen]) @ r) = Inr (E_Or cs, r)" for r
    by (rule expression_gives_factor [OF 0])
  have "parse_term env ((K_LParen # ?b @ [K_RParen]) @ r) = Inr (E_Or cs, r)" if "ends_term r" for r
    by (rule factor_gives_term [OF 2 that])
  with 0 2 show ?thesis by (simp add: reads_def)
qed

lemma reads_printable: "canonical_expr e \<Longrightarrow> printable env fmt e \<Longrightarrow> reads env fmt e"
proof (induction e)
  case (E_Or cs)
  then show ?case by (intro reads_Or) (auto simp: list_all_iff)
next
  case (E_And cs)
  then show ?case by (intro reads_And) (auto simp: list_all_iff)
next
  case (E_Not c)
  then have "reads env fmt c" by simp
  then show ?case by (intro reads_atom) (simp_all add: reads_def parse_factor.simps [of env "K_Not # _"])
next
  case (E_Term t)
  then show ?case by (intro reads_atom) (simp_all add: parse_factor_token)
qed

lemma printed_tokens_ok: "printable env fmt e \<Longrightarrow> list_all token_ok (show_expr fmt lv e)"
proof (induction e arbitrary: lv)
  case (E_Or cs)
  then show ?case by (cases cs) (auto simp: list_all_iff Let_def)
next
  case (E_And cs)
  then show ?case by (cases cs) (auto simp: list_all_iff Let_def)
qed simp_all

section \<open>Properties\<close>

text \<open>C30. Queries have a text form: writing a flattened expression as text, with parentheses where
  the precedence of NOT over AND over OR needs them, and parsing that text gives the same
  expression back.  The terms must be ones the parser normalises to themselves and whose text is
  one token: words without separators, colons or keywords, phrases and field values without
  quotes, dates whose formatting parses.\<close>

theorem query_print_parse:
  assumes "canonical_expr e" "printable env fmt e"
  shows "parse_query env (show_query fmt e) = Inr e"
proof -
  have "tokenize (show_query fmt e) = Inr (show_expr fmt 0 e)"
    unfolding show_query_def by (rule lex_tokens [OF printed_tokens_ok [OF assms(2)]])
  moreover have "parse_expression env (show_expr fmt 0 e @ []) = Inr (e, [])"
    using reads_printable [OF assms] by (simp add: reads_def ends_expr_def)
  ultimately show ?thesis by (simp add: parse_query_def)
qed


section \<open>The date range of a query\<close>

lemma contains_intersection:
  "dr_contains (intersection r q) ts \<longleftrightarrow> dr_contains r ts \<and> dr_contains q ts"
  by (cases "dr_start r"; cases "dr_start q"; cases "dr_end r"; cases "dr_end q")
    (auto simp: dr_contains_def intersection_def i64_max_def i64_min_def)

lemma contains_not_empty: "dr_contains r ts \<Longrightarrow> \<not> dr_is_empty r"
  by (auto simp: dr_contains_def dr_is_empty_def split: option.splits)

lemma combine_ranges_contains:
  assumes "\<And>q. Some q \<in> set rs \<Longrightarrow> dr_contains q ts" "combine_ranges rs = Some r"
  shows "dr_contains r ts"
proof -
  let ?f = "\<lambda>acc r. case r of None \<Rightarrow> acc
     | Some c \<Rightarrow> Some (case acc of Some e \<Rightarrow> intersection e c | None \<Rightarrow> c)"
  have "foldl ?f acc rs = Some r \<Longrightarrow> (\<And>q. acc = Some q \<Longrightarrow> dr_contains q ts) \<Longrightarrow> dr_contains r ts" for acc
    using assms(1)
  proof (induction rs arbitrary: acc)
    case (Cons x rs)
    show ?case
    proof (rule Cons.IH)
      show "foldl ?f (?f acc x) rs = Some r" using Cons.prems(1) by simp
      fix q assume "?f acc x = Some q"
      then show "dr_contains q ts"
        using Cons.prems(2,3) by (auto simp: contains_intersection split: option.splits)
    qed (use Cons.prems(3) in auto)
  qed simp
  from this [of None] assms(2) show ?thesis by (simp add: combine_ranges_def)
qed

lemma range_of_match:
  assumes "date_candidates env fr = [ftimestamp fr]"
  shows "required_date_range e = Some r \<Longrightarrow> evaluate env fr content e \<Longrightarrow> dr_contains r (ftimestamp fr)"
proof (induction e arbitrary: r rule: required_date_range.induct)
  case (1 q)
  then show ?case by (auto simp: dr_matches_def assms dr_contains_def split: if_splits)
next
  case (2 cs)
  show ?case
  proof (rule combine_ranges_contains)
    show "combine_ranges (map required_date_range cs) = Some r" using 2(2) by simp
    fix q assume "Some q \<in> set (map required_date_range cs)"
    then obtain c where "c \<in> set cs" "required_date_range c = Some q" by auto
    then show "dr_contains q (ftimestamp fr)" using 2(1,3) by (simp add: list_all_iff)
  qed
qed simp_all

text \<open>C32. The date range that a search computes from a query and uses to restrict the candidate
  frames is necessary: a frame whose only date is its timestamp and that satisfies the query has
  its timestamp in that range, and then the range is not empty.\<close>

theorem required_range_necessary:
  assumes "date_candidates env fr = [ftimestamp fr]" "required_date_range e = Some r"
    "evaluate env fr content e"
  shows "dr_contains r (ftimestamp fr) \<and> \<not> dr_is_empty r"
  using range_of_match [OF assms] contains_not_empty by blast

section \<open>Examples\<close>

definition example_env :: query_env where
  "example_env = \<lparr>alnum = (\<lambda>c. (48 \<le> c \<and> c \<le> 57) \<or> (97 \<le> c \<and> c \<le> 122)), re_escape = (\<lambda>c. [c]),
     re_compiles = (\<lambda>p. True), re_match = (\<lambda>p s. False), rfc3339 = (\<lambda>s. None),
     midnight = (\<lambda>y m d. Some (of_int (y * 10000 + int (m * 100 + d))))\<rparr>"

abbreviation (input) word :: "string \<Rightarrow> expr" where
  "word s \<equiv> E_Term (Q_Text (T_Word (lit s)))"

definition example_expr :: expr where
  "example_expr = E_Or [word ''alpha'',
     E_And [E_Not (E_Or [word ''beta'', E_Term (Q_Field (F_Tag (lit ''x y'')))]), word ''gamma''],
     E_Or [word ''delta'', word ''eps'']]"

theorem query_print_parse_witness:
  "parse_query example_env (show_query (\<lambda>t. []) example_expr) = Inr example_expr"
proof (rule query_print_parse)
  show "canonical_expr example_expr" by (simp add: example_expr_def)
  show "printable example_env (\<lambda>t. []) example_expr" by code_simp
qed

definition example_frame :: frame where
  "example_frame = blank_frame\<lparr>ftimestamp := 20240110\<rparr>"

theorem required_range_necessary_witness:
  "case parse_query example_env (lit ''date:[2024 TO 2025] date:[2023 TO 2024-03]'') of
     Inl e \<Rightarrow> False
   | Inr e \<Rightarrow> (case required_date_range e of None \<Rightarrow> False | Some r \<Rightarrow> dr_contains r (ftimestamp example_frame))"
proof -
  let ?e = "E_And [E_Term (Q_Field (F_DateRange \<lparr>dr_start = Some 20240101, dr_end = Some 20250101\<rparr>)),
      E_Term (Q_Field (F_DateRange \<lparr>dr_start = Some 20230101, dr_end = Some 20240301\<rparr>))]"
  let ?r = "\<lparr>dr_start = Some 20240101, dr_end = Some 20240301\<rparr> :: date_range"
  have p: "parse_query example_env (lit ''date:[2024 TO 2025] date:[2023 TO 2024-03]'') = Inr ?e" by code_simp
  have "date_candidates example_env example_frame = [ftimestamp example_frame]" by code_simp
  moreover have "required_date_range ?e = Some ?r" by code_simp
  moreover have "evaluate example_env example_frame [] ?e" by code_simp
  ultimately have "dr_contains ?r (ftimestamp example_frame)" using required_range_necessary by blast
  moreover have "required_date_range ?e = Some ?r" by code_simp
  ultimately show ?thesis by (simp add: p)
qed

text \<open>With a further date in the content the range is not necessary: the frame satisfies the query
  through that date while its timestamp lies outside of the range, by which the time index filters.
  Two ranges that two dates satisfy even combine to an empty range.\<close>

lemma content_date_outside_range:
  defines "fr \<equiv> example_frame\<lparr>content_dates := [lit ''2023-01-05'']\<rparr>"
  shows "map_option (\<lambda>e. (evaluate example_env fr [] e,
      map_option (\<lambda>r. dr_contains r (ftimestamp fr)) (required_date_range e)))
      (ok_opt (parse_query example_env (lit ''date:[2023-01-01 TO 2023-02]''))) = Some (True, Some False)"
    "map_option (\<lambda>e. (evaluate example_env fr [] e, map_option dr_is_empty (required_date_range e)))
      (ok_opt (parse_query example_env (lit ''date:[2023-01-01 TO 2023-02] date:[2024 TO 2025]''))) = Some (True, Some True)"
  unfolding fr_def by code_simp+

text \<open>What follows a closing parenthesis without an opening one is dropped.\<close>

lemma trailing_tokens_dropped:
  "parse_query example_env (lit ''alpha) AND beta'') = parse_query example_env (lit ''alpha'')"
  by code_simp

text \<open>A date without a range is refused, although \<open>date\<close> is a known field.\<close>

lemma single_date_refused:
  "parse_query example_env (lit ''date:2024-01-10'') = Inl (InvalidQuery ''unsupported field'')"
  by code_simp

end
