(* ===== verification/Toc_Types.thy ===== *)
theory Toc_Types
  imports Frame_Types
begin

text \<open>
  The table of contents (\<open>types/manifest.rs\<close>, \<open>types/ticket.rs\<close>, \<open>types/binding.rs\<close>): the segment
  catalog with its descriptors, the manifests of the indexes and tracks, the ticket and the
  binding, the enrichment queue, and the serde code that is written by hand: descriptors whose
  shared part is flattened, and sequences with a bound on their length.

  Field names carry the prefix of their struct.  A \<open>Uuid\<close> is a 128-bit word, a \<open>DateTime\<close> its
  seconds, a \<open>[u8; 32]\<close> a byte string.
\<close>

definition MAX_TOC_SEGMENTS :: nat where "MAX_TOC_SEGMENTS = 1000000"
definition MAX_TOC_FRAMES :: nat where "MAX_TOC_FRAMES = 10000000"
definition MAX_SEGMENT_CATALOG_ENTRIES :: nat where "MAX_SEGMENT_CATALOG_ENTRIES = 1000000"

section \<open>Segments\<close>

datatype segment_kind = Lexical | Vector | Time | Temporal | Tantivy
datatype vector_compression = VC_None | Pq96
datatype segment_compression = SC_None | SC_Zstd | SC_Lz4

record segment_span =
  frame_start :: frame_id
  frame_end :: frame_id
  page_start :: u32
  page_end :: u32
  token_start :: u64
  token_end :: u64

record segment_common =
  segment_id :: u64
  c_offset :: u64
  c_length :: u64
  c_checksum :: bytes
  build_sequence :: u64
  codec_version :: u16
  c_compression :: segment_compression
  c_span :: "segment_span option"

definition new_common :: "u64 \<Rightarrow> u64 \<Rightarrow> u64 \<Rightarrow> bytes \<Rightarrow> segment_common" where
  "new_common sid off len ck = \<lparr>segment_id = sid, c_offset = off, c_length = len, c_checksum = ck,
     build_sequence = 0, codec_version = 0, c_compression = SC_None, c_span = None\<rparr>"

record segment_stats =
  ss_doc_count :: u64
  ss_vector_count :: u64
  ss_time_entries :: u64
  ss_bytes_uncompressed :: u64
  ss_build_micros :: u64

record index_segment_ref =
  ir_kind :: segment_kind
  ir_common :: segment_common
  ir_stats :: segment_stats

record lex_segment =
  ls_common :: segment_common
  ls_doc_count :: u64

record vec_segment =
  vs_common :: segment_common
  vs_vector_count :: u64
  vs_dimension :: u32
  vs_compression :: vector_compression

record time_segment =
  ts_common :: segment_common
  ts_entry_count :: u64

record temporal_segment =
  tp_common :: segment_common
  tp_entry_count :: u64
  tp_anchor_count :: u64
  tp_flags :: u32

record tantivy_segment =
  tv_common :: segment_common
  tv_path :: ustr

record segment_catalog =
  next_segment_id :: u64
  cat_version :: u32
  cat_lex_enabled :: bool
  lex_segs :: "lex_segment list"
  vec_segs :: "vec_segment list"
  time_segs :: "time_segment list"
  temporal_segs :: "temporal_segment list"
  tantivy_segs :: "tantivy_segment list"
  index_segs :: "index_segment_ref list"

definition default_catalog :: segment_catalog where
  "default_catalog = \<lparr>next_segment_id = 0, cat_version = 1, cat_lex_enabled = False, lex_segs = [],
     vec_segs = [], time_segs = [], temporal_segs = [], tantivy_segs = [], index_segs = []\<rparr>"

section \<open>Manifests\<close>

record lex_index_manifest =
  lx_doc_count :: u64
  lx_generation :: u64
  lx_offset :: u64
  lx_length :: u64
  lx_checksum :: bytes

record lex_segment_manifest =
  lsm_path :: ustr
  lsm_offset :: u64
  lsm_length :: u64
  lsm_checksum :: bytes

record vec_index_manifest =
  vx_vector_count :: u64
  vx_dimension :: u32
  vx_offset :: u64
  vx_length :: u64
  vx_checksum :: bytes
  vx_compression :: vector_compression
  vx_model :: "ustr option"

record clip_index_manifest =
  cl_offset :: u64
  cl_length :: u64
  cl_vector_count :: u64
  cl_dimension :: u32
  cl_checksum :: bytes
  cl_model_name :: ustr

record index_manifests =
  im_lex :: "lex_index_manifest option"
  im_lex_segments :: "lex_segment_manifest list"
  im_vec :: "vec_index_manifest option"
  im_clip :: "clip_index_manifest option"

definition default_indexes :: index_manifests where
  "default_indexes = \<lparr>im_lex = None, im_lex_segments = [], im_vec = None, im_clip = None\<rparr>"

record segment_meta =
  sm_id :: u64
  sm_frame_range :: "frame_id \<times> frame_id"
  sm_checksum :: bytes
  sm_compression :: segment_compression
  sm_offset :: u64
  sm_length :: u64

record time_index_manifest =
  ti_offset :: u64
  ti_length :: u64
  ti_entry_count :: u64
  ti_checksum :: bytes

record temporal_track_manifest =
  tt_offset :: u64
  tt_length :: u64
  tt_entry_count :: u64
  tt_anchor_count :: u64
  tt_checksum :: bytes
  tt_flags :: u32

record memories_track_manifest =
  mm_offset :: u64
  mm_length :: u64
  mm_card_count :: u64
  mm_entity_count :: u64
  mm_checksum :: bytes

record logic_mesh_manifest =
  lm_offset :: u64
  lm_length :: u64
  lm_node_count :: u64
  lm_edge_count :: u64
  lm_checksum :: bytes

record sketch_track_manifest =
  sk_offset :: u64
  sk_length :: u64
  sk_entry_count :: u64
  sk_entry_size :: u16
  sk_flags :: u32
  sk_checksum :: bytes

record replay_manifest =
  rp_offset :: u64
  rp_size :: u64
  rp_session_count :: u32
  rp_total_actions :: u64
  rp_version :: u32

section \<open>Ticket and binding\<close>

type_synonym uuid = "128 word"

record ticket_ref =
  tk_issuer :: ustr
  tk_seq_no :: i64
  tk_expires :: u64
  tk_capacity :: u64
  tk_verified :: bool

record memory_binding =
  mb_memory_id :: uuid
  mb_memory_name :: ustr
  mb_bound_at :: i64
  mb_api_url :: ustr

section \<open>The enrichment queue\<close>

text \<open>The clock is the argument \<open>now\<close>.\<close>

record enrichment_queue =
  eq_tasks :: "enrichment_task list"
  eq_updated_at :: u64

definition new_queue :: enrichment_queue where
  "new_queue = \<lparr>eq_tasks = [], eq_updated_at = 0\<rparr>"

definition queue_push :: "u64 \<Rightarrow> frame_id \<Rightarrow> enrichment_queue \<Rightarrow> enrichment_queue" where
  "queue_push now fid q = q\<lparr>eq_tasks := eq_tasks q @
     [\<lparr>task_frame_id = fid, created_at = now, chunks_done = 0, chunks_total = 0\<rparr>],
     eq_updated_at := now\<rparr>"

definition queue_remove :: "u64 \<Rightarrow> frame_id \<Rightarrow> enrichment_queue \<Rightarrow> enrichment_queue" where
  "queue_remove now fid q = q\<lparr>eq_tasks := filter (\<lambda>t. task_frame_id t \<noteq> fid) (eq_tasks q),
     eq_updated_at := now\<rparr>"

fun update_first :: "('a \<Rightarrow> bool) \<Rightarrow> ('a \<Rightarrow> 'a) \<Rightarrow> 'a list \<Rightarrow> 'a list" where
  "update_first p f [] = []"
| "update_first p f (x # xs) = (if p x then f x # xs else x # update_first p f xs)"

definition update_checkpoint ::
  "frame_id \<Rightarrow> u32 \<Rightarrow> u32 \<Rightarrow> enrichment_queue \<Rightarrow> enrichment_queue" where
  "update_checkpoint fid done_ct total_ct q = q\<lparr>eq_tasks :=
     update_first (\<lambda>t. task_frame_id t = fid)
       (\<lambda>t. t\<lparr>chunks_done := done_ct, chunks_total := total_ct\<rparr>) (eq_tasks q)\<rparr>"

definition queue_is_empty :: "enrichment_queue \<Rightarrow> bool" where
  "queue_is_empty q = (eq_tasks q = [])"

definition queue_len :: "enrichment_queue \<Rightarrow> nat" where
  "queue_len q = length (eq_tasks q)"

section \<open>The table of contents\<close>

record toc =
  t_version :: u64
  t_segments :: "segment_meta list"
  t_frames :: "frame list"
  t_indexes :: index_manifests
  t_time :: "time_index_manifest option"
  t_temporal :: "temporal_track_manifest option"
  t_memories :: "memories_track_manifest option"
  t_mesh :: "logic_mesh_manifest option"
  t_sketch :: "sketch_track_manifest option"
  t_catalog :: segment_catalog
  t_ticket :: ticket_ref
  t_binding :: "memory_binding option"
  t_replay :: "replay_manifest option"
  t_queue :: enrichment_queue
  t_merkle :: bytes
  t_checksum :: bytes

definition free_ticket :: ticket_ref where
  "free_ticket = \<lparr>tk_issuer = lit ''free-tier'', tk_seq_no = 1, tk_expires = 0,
     tk_capacity = capacity_bytes Free, tk_verified = False\<rparr>"

definition empty_toc :: toc where
  "empty_toc = \<lparr>t_version = 0, t_segments = [], t_frames = [], t_indexes = default_indexes,
     t_time = None, t_temporal = None, t_memories = None, t_mesh = None, t_sketch = None,
     t_catalog = default_catalog, t_ticket = free_ticket, t_binding = None, t_replay = None,
     t_queue = new_queue, t_merkle = replicate 32 0, t_checksum = replicate 32 0\<rparr>"

section \<open>Bounded sequences\<close>

text \<open>
  \<open>deserialize_vec_bounded\<close>: the visitor of a sequence with an optional size hint.  The elements
  the format delivers are a list of results; its end is \<open>next_element() = Ok(None)\<close>.
\<close>

fun take_elements :: "nat \<Rightarrow> ('e + 'a) list \<Rightarrow> 'a list option" where
  "take_elements 0 es = Some []"
| "take_elements (Suc n) [] = None"
| "take_elements (Suc n) (Inl e # es) = None"
| "take_elements (Suc n) (Inr x # es) = map_option ((#) x) (take_elements n es)"

fun all_elements :: "nat \<Rightarrow> 'a list \<Rightarrow> ('e + 'a) list \<Rightarrow> 'a list option" where
  "all_elements bound acc [] = Some acc"
| "all_elements bound acc (Inl e # es) = None"
| "all_elements bound acc (Inr x # es) =
     (if length acc = bound then None else all_elements bound (acc @ [x]) es)"

definition visit_bounded :: "nat \<Rightarrow> nat option \<Rightarrow> ('e + 'a) list \<Rightarrow> 'a list option" where
  "visit_bounded bound hint es =
     (case hint of
        Some n \<Rightarrow> if bound < n then None else take_elements n es
      | None \<Rightarrow> all_elements bound [] es)"

lemma take_elements_Some: "take_elements n es = Some xs \<Longrightarrow> length xs = n \<and> take n es = map Inr xs"
  by (induction n es arbitrary: xs rule: take_elements.induct) auto

lemma take_elements_Inr: "n \<le> length xs \<Longrightarrow> take_elements n (map Inr xs) = Some (take n xs)"
proof (induction n arbitrary: xs)
  case (Suc n)
  then show ?case by (cases xs) auto
qed simp

lemma all_elements_iff:
  "length acc \<le> bound \<Longrightarrow> all_elements bound acc es = Some ys \<longleftrightarrow>
     (\<exists>xs. es = map Inr xs \<and> ys = acc @ xs \<and> length ys \<le> bound)"
proof (induction bound acc es rule: all_elements.induct)
  case (3 bound acc x es)
  then show ?case by (auto simp: map_eq_Cons_conv Cons_eq_map_conv)
qed auto

lemma visit_bounded_le: "visit_bounded bound hint es = Some xs \<Longrightarrow> length xs \<le> bound"
  by (auto simp: visit_bounded_def all_elements_iff dest: take_elements_Some
      split: option.splits if_splits)

text \<open>A sequence that announces its length is accepted within the bound and read completely.\<close>

lemma visit_bounded_exact:
  "visit_bounded bound (Some (length xs)) (map Inr xs) =
     (if length xs \<le> bound then Some xs else None)"
  by (simp add: visit_bounded_def take_elements_Inr)

section \<open>Descriptors\<close>

text \<open>
  The fields a \<open>Serialize\<close> implementation hands to the format, in order, with their names; and
  the \<open>Deserialize\<close> implementation on the values of a sequence, in the order of its \<open>Repr\<close>
  struct.  A missing value at the end is the default where the field has \<open>serde(default)\<close>.
\<close>

datatype ser =
    S_U16 u16
  | S_U32 u32
  | S_U64 u64
  | S_Bytes bytes
  | S_Str ustr
  | S_Compression segment_compression
  | S_Vec_Compression vector_compression
  | S_Span "segment_span option"

type_synonym ser_fields = "(string \<times> ser) list"

definition ser_common :: "segment_common \<Rightarrow> ser_fields" where
  "ser_common c =
     [(''segment_id'', S_U64 (segment_id c)), (''bytes_offset'', S_U64 (c_offset c)),
      (''bytes_length'', S_U64 (c_length c)), (''checksum'', S_Bytes (c_checksum c)),
      (''build_sequence'', S_U64 (build_sequence c)), (''codec_version'', S_U16 (codec_version c)),
      (''compression'', S_Compression (c_compression c)), (''span'', S_Span (c_span c))]"

definition ser_lex :: "lex_segment \<Rightarrow> ser_fields" where
  "ser_lex d = ser_common (ls_common d) @ [(''doc_count'', S_U64 (ls_doc_count d))]"

definition ser_vec :: "vec_segment \<Rightarrow> ser_fields" where
  "ser_vec d = ser_common (vs_common d) @
     [(''vector_count'', S_U64 (vs_vector_count d)), (''dimension'', S_U32 (vs_dimension d)),
      (''vector_compression'', S_Vec_Compression (vs_compression d))]"

definition ser_time :: "time_segment \<Rightarrow> ser_fields" where
  "ser_time d = ser_common (ts_common d) @ [(''entry_count'', S_U64 (ts_entry_count d))]"

definition ser_temporal :: "temporal_segment \<Rightarrow> ser_fields" where
  "ser_temporal d = ser_common (tp_common d) @
     [(''entry_count'', S_U64 (tp_entry_count d)), (''anchor_count'', S_U64 (tp_anchor_count d)),
      (''flags'', S_U32 (tp_flags d))]"

definition ser_tantivy :: "tantivy_segment \<Rightarrow> ser_fields" where
  "ser_tantivy d = ser_common (tv_common d) @ [(''path'', S_Str (tv_path d))]"

text \<open>The values of the shared part, with what follows them.\<close>

fun de_common :: "ser list \<Rightarrow> (segment_common \<times> ser list) option" where
  "de_common (S_U64 i # S_U64 off # S_U64 len # S_Bytes ck # rest) =
     (let c = new_common i off len ck in
      case rest of [] \<Rightarrow> Some (c, [])
      | S_U64 sq # rest1 \<Rightarrow>
          (let c = c\<lparr>build_sequence := sq\<rparr> in
           case rest1 of [] \<Rightarrow> Some (c, [])
           | S_U16 cv # rest2 \<Rightarrow>
               (let c = c\<lparr>codec_version := cv\<rparr> in
                case rest2 of [] \<Rightarrow> Some (c, [])
                | S_Compression cm # rest3 \<Rightarrow>
                    (let c = c\<lparr>c_compression := cm\<rparr> in
                     case rest3 of [] \<Rightarrow> Some (c, [])
                     | S_Span sp # rest4 \<Rightarrow> Some (c\<lparr>c_span := sp\<rparr>, rest4)
                     | _ \<Rightarrow> None)
                | _ \<Rightarrow> None)
           | _ \<Rightarrow> None)
      | _ \<Rightarrow> None)"
| "de_common _ = None"

definition de_lex :: "ser list \<Rightarrow> lex_segment option" where
  "de_lex vs = (case de_common vs of
     Some (c, [S_U64 n]) \<Rightarrow> Some \<lparr>ls_common = c, ls_doc_count = n\<rparr> | _ \<Rightarrow> None)"

definition de_vec :: "ser list \<Rightarrow> vec_segment option" where
  "de_vec vs = (case de_common vs of
     Some (c, [S_U64 n, S_U32 d]) \<Rightarrow>
       Some \<lparr>vs_common = c, vs_vector_count = n, vs_dimension = d, vs_compression = VC_None\<rparr>
   | Some (c, [S_U64 n, S_U32 d, S_Vec_Compression vc]) \<Rightarrow>
       Some \<lparr>vs_common = c, vs_vector_count = n, vs_dimension = d, vs_compression = vc\<rparr>
   | _ \<Rightarrow> None)"

definition de_time :: "ser list \<Rightarrow> time_segment option" where
  "de_time vs = (case de_common vs of
     Some (c, [S_U64 n]) \<Rightarrow> Some \<lparr>ts_common = c, ts_entry_count = n\<rparr> | _ \<Rightarrow> None)"

definition de_temporal :: "ser list \<Rightarrow> temporal_segment option" where
  "de_temporal vs = (case de_common vs of
     Some (c, [S_U64 n, S_U64 a]) \<Rightarrow>
       Some \<lparr>tp_common = c, tp_entry_count = n, tp_anchor_count = a, tp_flags = 0\<rparr>
   | Some (c, [S_U64 n, S_U64 a, S_U32 f]) \<Rightarrow>
       Some \<lparr>tp_common = c, tp_entry_count = n, tp_anchor_count = a, tp_flags = f\<rparr>
   | _ \<Rightarrow> None)"

definition de_tantivy :: "ser list \<Rightarrow> tantivy_segment option" where
  "de_tantivy vs = (case de_common vs of
     Some (c, [S_Str p]) \<Rightarrow> Some \<lparr>tv_common = c, tv_path = p\<rparr> | _ \<Rightarrow> None)"

lemma de_ser_common: "de_common (map snd (ser_common c) @ rest) = Some (c, rest)"
  by (simp add: ser_common_def new_common_def Let_def)

lemmas ser_defs = ser_lex_def ser_vec_def ser_time_def ser_temporal_def ser_tantivy_def

lemma de_ser_lex: "de_lex (map snd (ser_lex d)) = Some d"
  by (simp add: de_lex_def ser_defs de_ser_common)

lemma de_ser_vec: "de_vec (map snd (ser_vec d)) = Some d"
  by (simp add: de_vec_def ser_defs de_ser_common)

lemma de_ser_time: "de_time (map snd (ser_time d)) = Some d"
  by (simp add: de_time_def ser_defs de_ser_common)

lemma de_ser_temporal: "de_temporal (map snd (ser_temporal d)) = Some d"
  by (simp add: de_temporal_def ser_defs de_ser_common)

lemma de_ser_tantivy: "de_tantivy (map snd (ser_tantivy d)) = Some d"
  by (simp add: de_tantivy_def ser_defs de_ser_common)

text \<open>A vector descriptor without its last field is read as uncompressed.\<close>

lemma vec_without_compression:
  "de_vec (butlast (map snd (ser_vec d))) = Some (d\<lparr>vs_compression := VC_None\<rparr>)"
  by (simp add: de_vec_def ser_vec_def butlast_append de_ser_common)

end
