(* ===== verification/Toc_Codec.thy ===== *)
theory Toc_Codec
  imports Toc_Types Footer
begin

text \<open>
  The codec of the table of contents (\<open>toc.rs\<close>) with its two older layouts, the checksum, and
  \<open>prepare_toc_bytes\<close> of \<open>memvid/lifecycle.rs\<close>.

  bincode and BLAKE3 are parameters, collected in \<open>toc_codec\<close>: an encoder of a layout may refuse
  a value, a decoder returns the value and the number of bytes it read.  \<open>codec_ok\<close> is what the
  code relies on: a value that was encoded is decoded from all of its bytes, of which there are
  some.
\<close>

record legacy_toc_v1 =
  v1_version :: u64
  v1_segments :: "segment_meta list"
  v1_frames :: "frame list"
  v1_indexes :: index_manifests
  v1_time :: "time_index_manifest option"
  v1_temporal :: "temporal_track_manifest option"
  v1_catalog :: segment_catalog
  v1_ticket :: ticket_ref
  v1_binding :: "memory_binding option"
  v1_merkle :: bytes
  v1_checksum :: bytes

record legacy_toc_v2 =
  v2_version :: u64
  v2_segments :: "segment_meta list"
  v2_frames :: "frame list"
  v2_indexes :: index_manifests
  v2_time :: "time_index_manifest option"
  v2_temporal :: "temporal_track_manifest option"
  v2_memories :: "memories_track_manifest option"
  v2_mesh :: "logic_mesh_manifest option"
  v2_catalog :: segment_catalog
  v2_ticket :: ticket_ref
  v2_binding :: "memory_binding option"
  v2_merkle :: bytes
  v2_checksum :: bytes

definition of_v1 :: "legacy_toc_v1 \<Rightarrow> toc" where
  "of_v1 l = \<lparr>t_version = v1_version l, t_segments = v1_segments l, t_frames = v1_frames l,
     t_indexes = v1_indexes l, t_time = v1_time l, t_temporal = v1_temporal l, t_memories = None,
     t_mesh = None, t_sketch = None, t_catalog = v1_catalog l, t_ticket = v1_ticket l,
     t_binding = v1_binding l, t_replay = None, t_queue = new_queue, t_merkle = v1_merkle l,
     t_checksum = v1_checksum l\<rparr>"

definition of_v2 :: "legacy_toc_v2 \<Rightarrow> toc" where
  "of_v2 l = \<lparr>t_version = v2_version l, t_segments = v2_segments l, t_frames = v2_frames l,
     t_indexes = v2_indexes l, t_time = v2_time l, t_temporal = v2_temporal l,
     t_memories = v2_memories l, t_mesh = v2_mesh l, t_sketch = None, t_catalog = v2_catalog l,
     t_ticket = v2_ticket l, t_binding = v2_binding l, t_replay = None, t_queue = new_queue,
     t_merkle = v2_merkle l, t_checksum = v2_checksum l\<rparr>"

text \<open>The older layouts of a table of contents, with the checksum field zeroed.\<close>

definition to_v1 :: "toc \<Rightarrow> legacy_toc_v1" where
  "to_v1 t = \<lparr>v1_version = t_version t, v1_segments = t_segments t, v1_frames = t_frames t,
     v1_indexes = t_indexes t, v1_time = t_time t, v1_temporal = t_temporal t,
     v1_catalog = t_catalog t, v1_ticket = t_ticket t, v1_binding = t_binding t,
     v1_merkle = t_merkle t, v1_checksum = replicate 32 0\<rparr>"

definition to_v2 :: "toc \<Rightarrow> legacy_toc_v2" where
  "to_v2 t = \<lparr>v2_version = t_version t, v2_segments = t_segments t, v2_frames = t_frames t,
     v2_indexes = t_indexes t, v2_time = t_time t, v2_temporal = t_temporal t,
     v2_memories = t_memories t, v2_mesh = t_mesh t, v2_catalog = t_catalog t,
     v2_ticket = t_ticket t, v2_binding = t_binding t, v2_merkle = t_merkle t,
     v2_checksum = replicate 32 0\<rparr>"

record toc_codec =
  enc_toc :: "toc \<Rightarrow> bytes option"
  enc_v2 :: "legacy_toc_v2 \<Rightarrow> bytes option"
  enc_v1 :: "legacy_toc_v1 \<Rightarrow> bytes option"
  dec_toc :: "bytes \<Rightarrow> (toc \<times> nat) option"
  dec_v2 :: "bytes \<Rightarrow> (legacy_toc_v2 \<times> nat) option"
  dec_v1 :: "bytes \<Rightarrow> (legacy_toc_v1 \<times> nat) option"
  blake :: "bytes \<Rightarrow> bytes"

definition codec_ok :: "toc_codec \<Rightarrow> bool" where
  "codec_ok C \<longleftrightarrow> hash_ok (blake C) \<and>
     (\<forall>t b. enc_toc C t = Some b \<longrightarrow> b \<noteq> [] \<and> dec_toc C b = Some (t, length b))"

definition encoded :: "bytes option \<Rightarrow> bytes res" where
  "encoded r = (case r of None \<Rightarrow> Inl Encode_Error | Some b \<Rightarrow> Inr b)"

definition toc_encode :: "toc_codec \<Rightarrow> toc \<Rightarrow> bytes res" where
  "toc_encode C t = encoded (enc_toc C t)"

definition toc_decode :: "toc_codec \<Rightarrow> bytes \<Rightarrow> toc res" where
  "toc_decode C b =
     (case dec_toc C b of
        Some (t, n) \<Rightarrow>
          if n \<noteq> length b then Inl (InvalidToc ''unexpected trailing bytes'') else Inr t
      | None \<Rightarrow> (case dec_v2 C b of
        Some (l, n) \<Rightarrow>
          if n \<noteq> length b then Inl (InvalidToc ''unexpected trailing bytes in V2 format'')
          else Inr (of_v2 l)
      | None \<Rightarrow> (case dec_v1 C b of
        Some (l, n) \<Rightarrow>
          if n \<noteq> length b then Inl (InvalidToc ''unexpected trailing bytes in V1 format'')
          else Inr (of_v1 l)
      | None \<Rightarrow> Inl Decode_Error)))"

definition decode_lenient :: "toc_codec \<Rightarrow> bytes \<Rightarrow> toc res" where
  "decode_lenient C b =
     (case dec_toc C b of Some (t, n) \<Rightarrow> Inr t
      | None \<Rightarrow> (case dec_v2 C b of Some (l, n) \<Rightarrow> Inr (of_v2 l)
      | None \<Rightarrow> (case dec_v1 C b of Some (l, n) \<Rightarrow> Inr (of_v1 l)
      | None \<Rightarrow> Inl Decode_Error)))"

definition calculate_checksum :: "toc_codec \<Rightarrow> bytes \<Rightarrow> bytes" where
  "calculate_checksum C b = blake C b"

text \<open>\<open>verify_checksum\<close>: the current layout, then the older ones where the fields they lack are
  absent.\<close>

definition verify_checksum :: "toc_codec \<Rightarrow> toc \<Rightarrow> unit res" where
  "verify_checksum C t =
     (case toc_encode C (t\<lparr>t_checksum := replicate 32 0\<rparr>) of Inl e \<Rightarrow> Inl e
      | Inr b \<Rightarrow>
        if calculate_checksum C b = t_checksum t then Inr ()
        else
          (case (if t_replay t = None
                 then map_sum id (\<lambda>b2. calculate_checksum C b2 = t_checksum t)
                        (encoded (enc_v2 C (to_v2 t)))
                 else Inr False) of Inl e \<Rightarrow> Inl e
           | Inr True \<Rightarrow> Inr ()
           | Inr False \<Rightarrow>
               (case (if t_memories t = None \<and> t_replay t = None
                      then map_sum id (\<lambda>b1. calculate_checksum C b1 = t_checksum t)
                             (encoded (enc_v1 C (to_v1 t)))
                      else Inr False) of Inl e \<Rightarrow> Inl e
                | Inr True \<Rightarrow> Inr ()
                | Inr False \<Rightarrow> Inl (ChecksumMismatch ''toc''))))"

definition prepare_toc_bytes :: "toc_codec \<Rightarrow> toc \<Rightarrow> toc \<times> bytes res" where
  "prepare_toc_bytes C t =
     (let t0 = t\<lparr>t_checksum := replicate 32 0\<rparr> in
      case toc_encode C t0 of Inl e \<Rightarrow> (t0, Inl e)
      | Inr b \<Rightarrow> (let t1 = t0\<lparr>t_checksum := calculate_checksum C b\<rparr> in (t1, toc_encode C t1)))"

lemma encoded_Inr [simp]: "encoded r = Inr b \<longleftrightarrow> r = Some b"
  by (simp add: encoded_def split: option.splits)

lemma toc_decode_encode: "codec_ok C \<Longrightarrow> enc_toc C t = Some b \<Longrightarrow> toc_decode C b = Inr t"
  by (simp add: codec_ok_def toc_decode_def)

lemma prepare_cases:
  assumes "prepare_toc_bytes C t = (t', Inr b)"
  obtains b0 where "enc_toc C (t\<lparr>t_checksum := replicate 32 0\<rparr>) = Some b0"
    "t' = t\<lparr>t_checksum := blake C b0\<rparr>" "enc_toc C t' = Some b"
  using assms
  by (cases "enc_toc C (t\<lparr>t_checksum := replicate 32 0\<rparr>)")
    (auto simp: prepare_toc_bytes_def toc_encode_def encoded_def calculate_checksum_def Let_def
      split: option.splits)

lemma verify_current:
  "enc_toc C (t\<lparr>t_checksum := replicate 32 0\<rparr>) = Some b0 \<Longrightarrow> t_checksum t = blake C b0 \<Longrightarrow>
     verify_checksum C t = Inr ()"
  by (simp add: verify_checksum_def toc_encode_def encoded_def calculate_checksum_def)

lemma prepare_ok:
  assumes "prepare_toc_bytes C t = (t', Inr b)"
  shows "enc_toc C t' = Some b" "verify_checksum C t' = Inr ()"
    "t' = t\<lparr>t_checksum := t_checksum t'\<rparr>" "hash_ok (blake C) \<Longrightarrow> length (t_checksum t') = 32"
  using assms
  by (rule prepare_cases, auto intro: verify_current simp: hash_ok_def)+

lemma prepare_keeps:
  "prepare_toc_bytes C t = (t', r) \<Longrightarrow> t' = t\<lparr>t_checksum := t_checksum t'\<rparr>"
  by (auto simp: prepare_toc_bytes_def Let_def split: sum.splits)

section \<open>Concrete parameters for examples\<close>

text \<open>An encoding that tells tables of contents apart by version and checksum: enough to run the
  operations on sample data.  It writes the 24 bytes of counts that a reader looks at first.\<close>

definition toy_enc :: "toc \<Rightarrow> bytes option" where
  "toy_enc t = (if t = empty_toc\<lparr>t_version := t_version t, t_checksum := t_checksum t\<rparr> \<and>
       length (t_checksum t) = 32
     then Some (to_le 8 (t_version t) @ replicate 16 0 @ t_checksum t) else None)"

definition toy_dec :: "bytes \<Rightarrow> (toc \<times> nat) option" where
  "toy_dec b = (if length b < 56 then None
     else Some (empty_toc\<lparr>t_version := from_le (take 8 b), t_checksum := bslice b 24 32\<rparr>, 56))"

definition toy_codec :: toc_codec where
  "toy_codec = \<lparr>enc_toc = toy_enc, enc_v2 = (\<lambda>_. None), enc_v1 = (\<lambda>_. None), dec_toc = toy_dec,
     dec_v2 = (\<lambda>_. None), dec_v1 = (\<lambda>_. None), blake = sum_hash\<rparr>"

lemma toy_codec_ok: "codec_ok toy_codec"
proof -
  have "b \<noteq> [] \<and> toy_dec b = Some (t, length b)" if "toy_enc t = Some b" for t b
    using that by (auto simp: toy_enc_def toy_dec_def buf_simps split: if_splits)
  then show ?thesis by (simp add: codec_ok_def toy_codec_def sum_hash_ok)
qed

section \<open>Properties\<close>

text \<open>A table of contents prepared for writing is decoded to itself from its bytes, by both
  decoders, passes its own checksum verification, and differs from the one it was made from in
  the checksum field only.\<close>

theorem toc_roundtrip:
  assumes "codec_ok C" "prepare_toc_bytes C t = (t', Inr b)"
  shows "toc_decode C b = Inr t' \<and> decode_lenient C b = Inr t' \<and> verify_checksum C t' = Inr () \<and>
    t' = t\<lparr>t_checksum := t_checksum t'\<rparr>"
proof -
  note p = prepare_ok [OF assms(2)]
  have "decode_lenient C b = Inr t'"
    using assms(1) p(1) by (simp add: decode_lenient_def codec_ok_def)
  with p toc_decode_encode [OF assms(1) p(1)] show ?thesis by simp
qed

lemma length_sum_hash [simp]: "length (sum_hash b) = 32"
  by (simp add: sum_hash_def)

lemma toy_prepare:
  "prepare_toc_bytes toy_codec (empty_toc\<lparr>t_version := n\<rparr>) =
     (let t = empty_toc\<lparr>t_version := n, t_checksum := sum_hash (to_le 8 n @ replicate 48 0)\<rparr> in
      (t, Inr (to_le 8 n @ replicate 16 0 @ t_checksum t)))"
  by (simp add: prepare_toc_bytes_def toc_encode_def encoded_def toy_codec_def toy_enc_def
      calculate_checksum_def Let_def flip: replicate_add)

theorem toc_roundtrip_witness:
  "toc_decode toy_codec (to_le 8 (2 :: u64) @ replicate 16 0 @
      sum_hash (to_le 8 (2 :: u64) @ replicate 48 0)) =
    Inr (empty_toc\<lparr>t_version := 2, t_checksum := sum_hash (to_le 8 (2 :: u64) @ replicate 48 0)\<rparr>)"
  using toc_roundtrip [OF toy_codec_ok toy_prepare [of 2, unfolded Let_def]] by simp

text \<open>Files of the older layout stay valid: the bytes of a version 2 table of contents whose
  checksum was computed in that layout are decoded (where the current layout does not accept
  them) to a table of contents with the same frames, catalog and tracks, and its checksum is
  verified although the current layout gives other bytes.\<close>

theorem legacy_toc_verifies:
  assumes l: "enc_v2 C l = Some b" "dec_v2 C b = Some (l, length b)" "dec_toc C b = None"
    and s: "enc_v2 C (l\<lparr>v2_checksum := replicate 32 0\<rparr>) = Some b0" "v2_checksum l = blake C b0"
    and cur: "enc_toc C (of_v2 (l\<lparr>v2_checksum := replicate 32 0\<rparr>)) \<noteq> None"
  shows "toc_decode C b = Inr (of_v2 l) \<and> verify_checksum C (of_v2 l) = Inr () \<and>
    t_frames (of_v2 l) = v2_frames l \<and> t_catalog (of_v2 l) = v2_catalog l \<and>
    t_memories (of_v2 l) = v2_memories l \<and> t_mesh (of_v2 l) = v2_mesh l"
proof -
  have "to_v2 (of_v2 l) = l\<lparr>v2_checksum := replicate 32 0\<rparr>"
    "(of_v2 l)\<lparr>t_checksum := replicate 32 0\<rparr> = of_v2 (l\<lparr>v2_checksum := replicate 32 0\<rparr>)"
    by (simp_all add: to_v2_def of_v2_def)
  with l s cur show ?thesis
    by (auto simp: toc_decode_def verify_checksum_def toc_encode_def encoded_def
        calculate_checksum_def of_v2_def)
qed

definition old_codec :: toc_codec where
  "old_codec = \<lparr>enc_toc = (\<lambda>_. Some []), enc_v2 = (\<lambda>l. Some (v2_checksum l)), enc_v1 = (\<lambda>_. None),
     dec_toc = (\<lambda>_. None), dec_v2 = (\<lambda>b. Some ((to_v2 empty_toc)\<lparr>v2_checksum := b\<rparr>, length b)),
     dec_v1 = (\<lambda>_. None), blake = sum_hash\<rparr>"

theorem legacy_toc_verifies_witness:
  "verify_checksum old_codec
     (of_v2 ((to_v2 empty_toc)\<lparr>v2_checksum := sum_hash (replicate 32 0)\<rparr>)) = Inr ()"
  using legacy_toc_verifies [of old_codec
      "(to_v2 empty_toc)\<lparr>v2_checksum := sum_hash (replicate 32 0)\<rparr>"
      "sum_hash (replicate 32 0)" "replicate 32 0"]
  by (simp add: old_codec_def)

end
