(* ===== verification/Toc_Store.thy ===== *)
theory Toc_Store
  imports Toc_Codec Header "HOL-Library.Multiset"
begin

text \<open>
  The table of contents on disk (\<open>memvid/lifecycle.rs\<close>): reading it at the offset of the header,
  the checks before it is decoded, the recovery when that fails, the snapshot of the file tail
  for read-only handles, the check that payloads do not overlap, and the ends of the data and
  payload regions.  A file is its bytes; \<open>memrchr\<close> is the parameter of the footer scan.

  The model is the default feature set: \<open>lex\<close> on, \<open>temporal_track\<close>, \<open>replay\<close> and
  \<open>parallel_segments\<close> off.
\<close>

type_synonym memrchr = "u8 \<Rightarrow> bytes \<Rightarrow> nat option"

definition MAX_INDEX_BYTES :: nat where "MAX_INDEX_BYTES = 512 * 1024 * 1024"
definition MAX_SEGMENTS :: u64 where "MAX_SEGMENTS = 1000000"
definition MAX_FRAMES :: u64 where "MAX_FRAMES = 1000000"
definition MIN_SEGMENT_META_BYTES :: u64 where "MIN_SEGMENT_META_BYTES = 32"
definition MIN_FRAME_BYTES :: u64 where "MIN_FRAME_BYTES = 64"
definition MAX_TOC_BYTES :: nat where "MAX_TOC_BYTES = 64 * 1024 * 1024"
definition MAX_SEARCH_SIZE :: nat where "MAX_SEARCH_SIZE = 16 * 1024 * 1024"

definition saturating_add :: "u64 \<Rightarrow> u64 \<Rightarrow> u64" where
  "saturating_add a b = (case checked_add a b of None \<Rightarrow> - 1 | Some c \<Rightarrow> c)"

definition saturating_mul :: "u64 \<Rightarrow> u64 \<Rightarrow> u64" where
  "saturating_mul a b = (if unat a * unat b < 2 ^ 64 then a * b else - 1)"

lemma unat_minus_one: "unat (- 1 :: u64) = 2 ^ 64 - 1"
  by (simp add: unsigned_minus_1_eq_mask mask_eq_exp_minus_1)

lemma unat_saturating_add: "unat (saturating_add a b) = min (unat a + unat b) (2 ^ 64 - 1)"
  by (auto simp: saturating_add_def checked_add_def unat_minus_one unat_plus_if')

section \<open>Reading the table of contents\<close>

definition verify_toc_prefix :: "bytes \<Rightarrow> unit res" where
  "verify_toc_prefix b =
     (if length b < 24 then Inl (InvalidToc ''toc trailer too small'')
      else if (32 :: u64) < from_le (bslice b 0 8) then Inl (InvalidToc ''toc version unreasonable'')
      else
        (let segments_len = (from_le (bslice b 8 8) :: u64) in
         if MAX_SEGMENTS < segments_len then Inl (InvalidToc ''segment count unreasonable'')
         else
           (let frames_len = (from_le (bslice b 16 8) :: u64) in
            if MAX_FRAMES < frames_len then Inl (InvalidToc ''frame count unreasonable'')
            else if length b < unat (saturating_add (saturating_mul segments_len MIN_SEGMENT_META_BYTES)
                                                    (saturating_mul frames_len MIN_FRAME_BYTES))
              then Inl (InvalidToc ''toc payload inconsistent with counts'')
            else Inr ())))"

definition read_toc :: "toc_codec \<Rightarrow> bytes \<Rightarrow> header \<Rightarrow> toc res" where
  "read_toc C f h =
     (let off = unat (footer_offset h) in
      if length f < off then Inl (InvalidToc ''footer offset beyond file length'')
      else
        (let total_size = length f - off in
         if MAX_INDEX_BYTES < total_size then Inl (InvalidToc ''toc region exceeds safety limit'')
         else if total_size < FOOTER_SIZE
           then Inl (InvalidToc ''region too small to contain footer'')
         else
           (let buf = drop off f; footer_start = length buf - FOOTER_SIZE in
            case Footer.decode (drop footer_start buf) of
              None \<Rightarrow> Inl (InvalidToc ''failed to decode commit footer'')
            | Some footer \<Rightarrow>
                (let toc_bytes = take footer_start buf in
                 if length toc_bytes \<noteq> unat (toc_len footer)
                   then Inl (InvalidToc ''toc length mismatch'')
                 else if \<not> hash_matches (blake C) footer toc_bytes
                   then Inl (InvalidToc ''commit footer toc hash mismatch'')
                 else (case verify_toc_prefix toc_bytes of Inl e \<Rightarrow> Inl e
                       | Inr _ \<Rightarrow> toc_decode C toc_bytes)))))"

section \<open>Recovery\<close>

definition last_footer :: "memrchr \<Rightarrow> toc_codec \<Rightarrow> bytes \<Rightarrow> footer_slice option" where
  "last_footer mr C b = (case find_last_valid_footer mr (blake C) b of Some r \<Rightarrow> r | None \<Rightarrow> None)"

text \<open>The scan for the old format without a footer: the table of contents ends the file and its
  last 32 bytes are the digest of itself with these bytes zeroed.\<close>

definition scan_candidate :: "toc_codec \<Rightarrow> bytes \<Rightarrow> nat \<Rightarrow> toc option" where
  "scan_candidate C b offset =
     (let slice = drop offset b in
      if length slice < 16 then None
      else if length slice < 32 then None
      else
        (let body = take (length slice - 32) slice; stored = drop (length slice - 32) slice in
         if blake C (body @ replicate 32 0) \<noteq> stored then None
         else if verify_toc_prefix slice \<noteq> Inr () then None
         else ok_opt (toc_decode C slice)))"

fun first_candidate :: "toc_codec \<Rightarrow> bytes \<Rightarrow> nat list \<Rightarrow> (toc \<times> u64) option" where
  "first_candidate C b [] = None"
| "first_candidate C b (offset # offsets) =
     (case scan_candidate C b offset of
        Some t \<Rightarrow> Some (t, of_nat offset)
      | None \<Rightarrow> first_candidate C b offsets)"

definition scan_range_for_toc :: "toc_codec \<Rightarrow> bytes \<Rightarrow> nat \<Rightarrow> nat \<Rightarrow> (toc \<times> u64) option" where
  "scan_range_for_toc C b start stop =
     (if stop \<le> start \<or> length b < stop then None
      else
        (let min_offset = length b - MAX_TOC_BYTES; scan_start = max start min_offset in
         first_candidate C b (rev [scan_start ..< stop])))"

text \<open>The table of contents at the hinted offset, when only the footer is damaged.\<close>

definition hinted_toc :: "toc_codec \<Rightarrow> bytes \<Rightarrow> u64 \<Rightarrow> (toc \<times> u64) option" where
  "hinted_toc C f hint_offset =
     (let start = min (unat hint_offset) (length f) in
      if FOOTER_SIZE \<le> length f - start then
        (let toc_end = length f - FOOTER_SIZE in
         if start < toc_end then
           (let toc_bytes = bslice f start (toc_end - start) in
            if verify_toc_prefix toc_bytes = Inr ()
            then map_option (\<lambda>t. (t, hint_offset)) (ok_opt (toc_decode C toc_bytes))
            else None)
         else None)
      else None)"

definition scan_ranges :: "bytes \<Rightarrow> u64 option \<Rightarrow> (nat \<times> nat) list" where
  "scan_ranges f hint =
     (case hint of
        Some hint_offset \<Rightarrow>
          (let hint_idx = min (unat hint_offset) (length f) in
           (hint_idx, length f) # (if 0 < hint_idx then [(0, hint_idx)] else []))
      | None \<Rightarrow> [(0, length f)])"

fun scan_all :: "toc_codec \<Rightarrow> bytes \<Rightarrow> (nat \<times> nat) list \<Rightarrow> (toc \<times> u64) res" where
  "scan_all C f [] =
     Inl (InvalidToc ''unable to recover table of contents from file trailer'')"
| "scan_all C f ((start, stop) # rs) =
     (case scan_range_for_toc C f start stop of Some found \<Rightarrow> Inr found | None \<Rightarrow> scan_all C f rs)"

definition recover_toc :: "memrchr \<Rightarrow> toc_codec \<Rightarrow> bytes \<Rightarrow> u64 option \<Rightarrow> (toc \<times> u64) res" where
  "recover_toc mr C f hint =
     (case (case last_footer mr C f of None \<Rightarrow> None
            | Some s \<Rightarrow> map_option (\<lambda>t. (t, of_nat (fs_toc_offset s)))
                          (ok_opt (toc_decode C (fs_toc_bytes s)))) of
        Some found \<Rightarrow> Inr found
      | None \<Rightarrow>
          (case (case hint of None \<Rightarrow> None | Some hint_offset \<Rightarrow> hinted_toc C f hint_offset) of
             Some found \<Rightarrow> Inr found
           | None \<Rightarrow> scan_all C f (scan_ranges f hint)))"

text \<open>The errors of \<open>read_toc\<close> that start a recovery.\<close>

fun recoverable :: "mv_error \<Rightarrow> bool" where
  "recoverable Decode_Error = True"
| "recoverable (InvalidToc _) = True"
| "recoverable _ = False"

text \<open>The first step of \<open>open_locked\<close>: read, or recover and repair the header.\<close>

definition open_toc ::
  "memrchr \<Rightarrow> toc_codec \<Rightarrow> bytes \<Rightarrow> header \<Rightarrow> bytes \<times> (header \<times> toc) res" where
  "open_toc mr C f h =
     (case read_toc C f h of
        Inr t \<Rightarrow> (f, Inr (h, t))
      | Inl e \<Rightarrow>
          (if recoverable e then
             (case recover_toc mr C f (Some (footer_offset h)) of
                Inl e' \<Rightarrow> (f, Inl e')
              | Inr (t, recovered_offset) \<Rightarrow>
                  if recovered_offset \<noteq> footer_offset h \<or> toc_checksum h \<noteq> t_checksum t then
                    (let h' = h\<lparr>footer_offset := recovered_offset, toc_checksum := t_checksum t\<rparr> in
                     case write_header f h' of
                       (f', Inl e') \<Rightarrow> (f', Inl e') | (f', Inr _) \<Rightarrow> (f', Inr (h', t)))
                  else (f, Inr (h, t)))
           else (f, Inl e)))"

section \<open>The file tail\<close>

function footer_window ::
  "memrchr \<Rightarrow> toc_codec \<Rightarrow> bytes \<Rightarrow> nat \<Rightarrow> (footer_slice \<times> nat) option" where
  "footer_window mr C f window =
     (let start = length f - window in
      case last_footer mr C (drop start f) of
        Some s \<Rightarrow> Some (s, start)
      | None \<Rightarrow>
          if window = 0 \<or> length f \<le> window then None
          else footer_window mr C f (min (window * 2) (length f)))"
  by pat_completeness auto
termination footer_window
  by (relation "measure (\<lambda>(mr, C, f, window). length f - window)") auto

declare footer_window.simps [simp del]

definition locate_footer_window :: "memrchr \<Rightarrow> toc_codec \<Rightarrow> bytes \<Rightarrow> (footer_slice \<times> nat) option" where
  "locate_footer_window mr C f =
     (if f = [] then None else footer_window mr C f (min MAX_SEARCH_SIZE (length f)))"

record tail_snapshot =
  sn_toc :: toc
  sn_footer_offset :: u64
  sn_data_end :: u64
  sn_generation :: u64

definition load_tail_snapshot :: "memrchr \<Rightarrow> toc_codec \<Rightarrow> bytes \<Rightarrow> tail_snapshot res" where
  "load_tail_snapshot mr C f =
     (case locate_footer_window mr C f of
        None \<Rightarrow> Inl (InvalidToc ''no valid commit footer found'')
      | Some (s, adjustment) \<Rightarrow>
          (case toc_decode C (fs_toc_bytes s) of Inl e \<Rightarrow> Inl e | Inr t \<Rightarrow>
           case verify_checksum C t of Inl e \<Rightarrow> Inl e | Inr _ \<Rightarrow>
           Inr \<lparr>sn_toc = t, sn_footer_offset = of_nat (fs_footer_offset s + adjustment),
             sn_data_end = of_nat (fs_footer_offset s + adjustment),
             sn_generation = generation (fs_footer s)\<rparr>))"

definition detect_generation :: "memrchr \<Rightarrow> toc_codec \<Rightarrow> bytes \<Rightarrow> u64 option" where
  "detect_generation mr C f =
     map_option (\<lambda>(s, _). generation (fs_footer s)) (locate_footer_window mr C f)"

section \<open>Payloads and data\<close>

definition stored_payload :: "frame \<Rightarrow> bool" where
  "stored_payload f \<longleftrightarrow> status f = Active \<and> 0 < payload_length f"

fun overlap_loop :: "u64 \<Rightarrow> u64 \<Rightarrow> frame list \<Rightarrow> unit res" where
  "overlap_loop file_len previous_end [] = Inr ()"
| "overlap_loop file_len previous_end (f # fs) =
     (case checked_add (payload_offset f) (payload_length f) of
        None \<Rightarrow> Inl (InvalidToc ''frame payload offsets overflow'')
      | Some fin \<Rightarrow>
          if file_len < fin then Inl (InvalidToc ''frame payload exceeds file length'')
          else if payload_offset f < previous_end
            then Inl (InvalidToc ''frame payload overlaps with previous frame'')
          else overlap_loop file_len fin fs)"

definition ensure_non_overlapping_frames :: "toc \<Rightarrow> u64 \<Rightarrow> unit res" where
  "ensure_non_overlapping_frames t file_len =
     overlap_loop file_len 0 (sort_key payload_offset (filter stored_payload (t_frames t)))"

definition bump :: "u64 \<Rightarrow> u64 \<Rightarrow> u64 \<Rightarrow> u64" where
  "bump off len m = (case checked_add off len of None \<Rightarrow> m | Some fin \<Rightarrow> max m fin)"

definition bump_common :: "segment_common \<Rightarrow> u64 \<Rightarrow> u64" where
  "bump_common c = bump (c_offset c) (c_length c)"

definition compute_payload_region_end :: "toc \<Rightarrow> header \<Rightarrow> u64" where
  "compute_payload_region_end t h =
     fold (\<lambda>f m. if payload_length f \<noteq> 0 then bump (payload_offset f) (payload_length f) m else m)
       (t_frames t) (saturating_add (wal_offset h) (wal_size h))"

definition compute_data_end :: "toc \<Rightarrow> header \<Rightarrow> u64" where
  "compute_data_end t h =
     (let m = max (saturating_add (wal_offset h) (wal_size h)) (footer_offset h);
          m = fold (\<lambda>f. bump (payload_offset f) (payload_length f)) (filter stored_payload (t_frames t)) m;
          catalog = t_catalog t;
          m = fold (\<lambda>s. bump_common (ls_common s)) (lex_segs catalog) m;
          m = fold (\<lambda>s. bump_common (vs_common s)) (vec_segs catalog) m;
          m = fold (\<lambda>s. bump_common (ts_common s)) (time_segs catalog) m;
          m = fold (\<lambda>s. bump_common (tv_common s)) (tantivy_segs catalog) m;
          m = (case im_lex (t_indexes t) of None \<Rightarrow> m | Some x \<Rightarrow> bump (lx_offset x) (lx_length x) m);
          m = (case im_vec (t_indexes t) of None \<Rightarrow> m | Some x \<Rightarrow> bump (vx_offset x) (vx_length x) m);
          m = (case im_clip (t_indexes t) of None \<Rightarrow> m | Some x \<Rightarrow> bump (cl_offset x) (cl_length x) m);
          m = (case t_time t of None \<Rightarrow> m | Some x \<Rightarrow> bump (ti_offset x) (ti_length x) m);
          m = (case t_memories t of None \<Rightarrow> m | Some x \<Rightarrow> bump (mm_offset x) (mm_length x) m);
          m = (case t_mesh t of None \<Rightarrow> m | Some x \<Rightarrow> bump (lm_offset x) (lm_length x) m);
          m = (case t_sketch t of None \<Rightarrow> m | Some x \<Rightarrow> bump (sk_offset x) (sk_length x) m)
      in m)"

definition has_lex_index :: "toc \<Rightarrow> bool" where
  "has_lex_index t \<longleftrightarrow> cat_lex_enabled (t_catalog t) \<or> im_lex (t_indexes t) \<noteq> None \<or>
     im_lex_segments (t_indexes t) \<noteq> [] \<or> tantivy_segs (t_catalog t) \<noteq> []"

text \<open>The integrity check on open, which only warns; of the formatted reason of its
  errors the model keeps the fixed part.\<close>

fun check_segments :: "string \<Rightarrow> nat \<Rightarrow> u64 \<Rightarrow> segment_common list \<Rightarrow> unit res" where
  "check_segments nm file_len data_limit [] = Inr ()"
| "check_segments nm file_len data_limit (c # cs) =
     (if c_length c = 0 then check_segments nm file_len data_limit cs
      else (case checked_add (c_offset c) (c_length c) of
        None \<Rightarrow> Inl (Doctor (nm @ '' segment offset overflow''))
      | Some fin \<Rightarrow>
          if file_len < unat fin \<or> data_limit < fin then Inl (Doctor (nm @ '' segment out of bounds''))
          else check_segments nm file_len data_limit cs))"

definition validate_segment_integrity :: "toc \<Rightarrow> header \<Rightarrow> nat \<Rightarrow> unit res" where
  "validate_segment_integrity t h file_len =
     (let data_limit = footer_offset h; catalog = t_catalog t in
      case check_segments ''Tantivy'' file_len data_limit (map tv_common (tantivy_segs catalog)) of
        Inl e \<Rightarrow> Inl e | Inr _ \<Rightarrow>
      (case check_segments ''Time'' file_len data_limit (map ts_common (time_segs catalog)) of
        Inl e \<Rightarrow> Inl e | Inr _ \<Rightarrow>
       check_segments ''Vec'' file_len data_limit (map vs_common (vec_segs catalog))))"

definition bootstrap_segment_catalog :: "segment_catalog \<Rightarrow> segment_catalog" where
  "bootstrap_segment_catalog cat =
     (let cat = (if cat_version cat = 0 then cat\<lparr>cat_version := 1\<rparr> else cat) in
      if next_segment_id cat = 0 then
        (let m = fold (\<lambda>d. max (segment_id (ls_common d))) (lex_segs cat) 0;
             m = fold (\<lambda>d. max (segment_id (vs_common d))) (vec_segs cat) m;
             m = fold (\<lambda>d. max (segment_id (ts_common d))) (time_segs cat) m in
         if 0 < m then cat\<lparr>next_segment_id := saturating_add m 1\<rparr> else cat)
      else cat)"

section \<open>Payloads that do not overlap\<close>

definition covers :: "nat \<Rightarrow> frame \<Rightarrow> bool" where
  "covers p f \<longleftrightarrow> unat (payload_offset f) \<le> p \<and> p < unat (payload_offset f) + unat (payload_length f)"

definition inside :: "u64 \<Rightarrow> frame \<Rightarrow> bool" where
  "inside n f \<longleftrightarrow> unat (payload_offset f) + unat (payload_length f) \<le> unat n"

lemma checked_add_inside:
  "(case checked_add (payload_offset f) (payload_length f) of None \<Rightarrow> False | Some fin \<Rightarrow> fin \<le> n)
     \<longleftrightarrow> inside n f"
  using unat64_less [of n]
  by (auto simp: checked_add_def inside_def word_le_nat_alt unat_plus_if')

lemma overlap_step:
  "overlap_loop n prev (f # fs) = Inr () \<longleftrightarrow>
     inside n f \<and> prev \<le> payload_offset f \<and>
     overlap_loop n (payload_offset f + payload_length f) fs = Inr ()"
  using checked_add_inside [of n f]
  by (auto simp: checked_add_def not_less split: option.splits if_splits)

lemma unat_end: "inside n f \<Longrightarrow>
    unat (payload_offset f + payload_length f) = unat (payload_offset f) + unat (payload_length f)"
  using unat64_less [of n] by (simp add: inside_def unat_plus_if')

lemma filter_short: "(\<forall>x \<in> set xs. \<not> P x) \<Longrightarrow> length (filter P xs) \<le> 1"
  by simp

lemma overlap_loop_iff:
  assumes "sorted (map payload_offset fs)" "\<forall>f \<in> set fs. 0 < payload_length f"
  shows "overlap_loop n prev fs = Inr () \<longleftrightarrow>
    (\<forall>f \<in> set fs. inside n f \<and> prev \<le> payload_offset f) \<and>
    (\<forall>p. length (filter (covers p) fs) \<le> 1)"
  using assms
proof (induction fs arbitrary: prev)
  case Nil
  then show ?case by simp
next
  case (Cons f fs)
  let ?fin = "payload_offset f + payload_length f"
  have ih: "overlap_loop n ?fin fs = Inr () \<longleftrightarrow>
      (\<forall>g \<in> set fs. inside n g \<and> ?fin \<le> payload_offset g) \<and>
      (\<forall>p. length (filter (covers p) fs) \<le> 1)"
    using Cons.IH [of ?fin] Cons.prems by simp
  have sorted: "payload_offset f \<le> payload_offset g" if "g \<in> set fs" for g
    using that Cons.prems(1) by simp
  have behind: "?fin \<le> payload_offset g \<longleftrightarrow> \<not> covers (unat (payload_offset g)) f"
    if "inside n f" "g \<in> set fs" for g
    using sorted [OF that(2)] unat_end [OF that(1)]
    by (auto simp: covers_def word_le_nat_alt)
  have own: "covers (unat (payload_offset g)) g" if "g \<in> set fs" for g
    using Cons.prems(2) that by (auto simp: covers_def word_less_nat_alt)
  have one: "(\<forall>p. length (filter (covers p) (f # fs)) \<le> 1) \<longleftrightarrow>
      (\<forall>g \<in> set fs. ?fin \<le> payload_offset g) \<and> (\<forall>p. length (filter (covers p) fs) \<le> 1)"
    if f: "inside n f"
  proof (intro iffI conjI allI ballI)
    fix g assume g: "g \<in> set fs" and all: "\<forall>p. length (filter (covers p) (f # fs)) \<le> 1"
    have "filter (covers (unat (payload_offset g))) fs \<noteq> []"
      using own [OF g] g by (auto simp: filter_empty_conv)
    with all [rule_format, of "unat (payload_offset g)"]
    have "\<not> covers (unat (payload_offset g)) f"
      by (cases "filter (covers (unat (payload_offset g))) fs") (auto split: if_splits)
    then show "?fin \<le> payload_offset g" using behind [OF f g] by simp
  next
    fix p assume "\<forall>p. length (filter (covers p) (f # fs)) \<le> 1"
    from this [rule_format, of p] show "length (filter (covers p) fs) \<le> 1"
      by (auto split: if_splits)
  next
    fix p assume a: "(\<forall>g \<in> set fs. ?fin \<le> payload_offset g) \<and> (\<forall>p. length (filter (covers p) fs) \<le> 1)"
    have "\<not> covers p g" if "covers p f" "g \<in> set fs" for g
      using that a unat_end [OF f] by (auto simp: covers_def word_le_nat_alt)
    then have "filter (covers p) fs = []" if "covers p f"
      using that by (auto simp: filter_empty_conv)
    then show "length (filter (covers p) (f # fs)) \<le> 1" using a by simp
  qed
  have far: "prev \<le> payload_offset f \<Longrightarrow> g \<in> set fs \<Longrightarrow> prev \<le> payload_offset g" for g
    using sorted by (metis order.trans)
  define short where "short xs \<longleftrightarrow> (\<forall>p. length (filter (covers p) xs) \<le> 1)" for xs
  have "short (f # fs) \<longleftrightarrow> (\<forall>g \<in> set fs. ?fin \<le> payload_offset g) \<and> short fs" if "inside n f"
    using one [OF that] unfolding short_def .
  then show ?case
    unfolding overlap_step ih short_def [symmetric] using far by auto
qed

text \<open>C15. The check on open is exact: it accepts a table of contents if and only if every active
  payload lies within the file and no byte of the file belongs to two of them, in whatever order
  the frames are listed.\<close>

theorem non_overlap_exact:
  "ensure_non_overlapping_frames t n = Inr () \<longleftrightarrow>
     (\<forall>f \<in> set (t_frames t). stored_payload f \<longrightarrow>
        unat (payload_offset f) + unat (payload_length f) \<le> unat n) \<and>
     (\<forall>p. length (filter (\<lambda>f. stored_payload f \<and> unat (payload_offset f) \<le> p \<and>
        p < unat (payload_offset f) + unat (payload_length f)) (t_frames t)) \<le> 1)"
proof -
  let ?fs = "filter stored_payload (t_frames t)"
  have "length (filter (covers p) (sort_key payload_offset ?fs)) = length (filter (covers p) ?fs)" for p
    by (metis mset_filter mset_sort size_mset)
  then have "ensure_non_overlapping_frames t n = Inr () \<longleftrightarrow>
      (\<forall>f \<in> set ?fs. inside n f) \<and> (\<forall>p. length (filter (covers p) ?fs) \<le> 1)"
    unfolding ensure_non_overlapping_frames_def
    by (subst overlap_loop_iff) (auto simp: stored_payload_def)
  then show ?thesis
    by (simp add: inside_def covers_def conj_commute cong: conj_cong) blast
qed

theorem non_overlap_exact_witness:
  "\<forall>p. length (filter (\<lambda>f. stored_payload f \<and> unat (payload_offset f) \<le> p \<and>
     p < unat (payload_offset f) + unat (payload_length f))
     [blank_frame\<lparr>payload_offset := 9, payload_length := 3\<rparr>,
      blank_frame\<lparr>payload_offset := 4, payload_length := 5\<rparr>]) \<le> 1"
proof -
  let ?t = "empty_toc\<lparr>t_frames := [blank_frame\<lparr>payload_offset := 9, payload_length := 3\<rparr>,
      blank_frame\<lparr>payload_offset := 4, payload_length := 5\<rparr>]\<rparr>"
  have "ensure_non_overlapping_frames ?t 12 = Inr ()" by code_simp
  then have "\<forall>p. length (filter (\<lambda>f. stored_payload f \<and> unat (payload_offset f) \<le> p \<and>
      p < unat (payload_offset f) + unat (payload_length f)) (t_frames ?t)) \<le> 1"
    by (rule non_overlap_exact [THEN iffD1, THEN conjunct2])
  moreover have "t_frames ?t = [blank_frame\<lparr>payload_offset := 9, payload_length := 3\<rparr>,
      blank_frame\<lparr>payload_offset := 4, payload_length := 5\<rparr>]" by simp
  ultimately show ?thesis by (simp only: simp_thms)
qed

section \<open>The end of the data\<close>

definition opt_list :: "'a option \<Rightarrow> 'a list" where
  "opt_list x = (case x of None \<Rightarrow> [] | Some y \<Rightarrow> [y])"

text \<open>Everything of the file that the table of contents refers to, as offset and length.\<close>

definition toc_extents :: "toc \<Rightarrow> (u64 \<times> u64) list" where
  "toc_extents t =
     map (\<lambda>f. (payload_offset f, payload_length f)) (filter stored_payload (t_frames t)) @
     map (\<lambda>c. (c_offset c, c_length c))
       (map ls_common (lex_segs (t_catalog t)) @ map vs_common (vec_segs (t_catalog t)) @
        map ts_common (time_segs (t_catalog t)) @ map tv_common (tantivy_segs (t_catalog t))) @
     map (\<lambda>x. (lx_offset x, lx_length x)) (opt_list (im_lex (t_indexes t))) @
     map (\<lambda>x. (vx_offset x, vx_length x)) (opt_list (im_vec (t_indexes t))) @
     map (\<lambda>x. (cl_offset x, cl_length x)) (opt_list (im_clip (t_indexes t))) @
     map (\<lambda>x. (ti_offset x, ti_length x)) (opt_list (t_time t)) @
     map (\<lambda>x. (mm_offset x, mm_length x)) (opt_list (t_memories t)) @
     map (\<lambda>x. (lm_offset x, lm_length x)) (opt_list (t_mesh t)) @
     map (\<lambda>x. (sk_offset x, sk_length x)) (opt_list (t_sketch t))"

definition bump_pair :: "u64 \<times> u64 \<Rightarrow> u64 \<Rightarrow> u64" where
  "bump_pair e = bump (fst e) (snd e)"

definition extent_ends :: "(u64 \<times> u64) list \<Rightarrow> nat list" where
  "extent_ends es = map (\<lambda>e. unat (fst e) + unat (snd e))
     (filter (\<lambda>e. unat (fst e) + unat (snd e) < 2 ^ 64) es)"

lemma unat_bump: "unat (bump off len m) =
    (if unat off + unat len < 2 ^ 64 then max (unat m) (unat off + unat len) else unat m)"
  by (auto simp: bump_def checked_add_def max_def word_le_nat_alt unat_plus_if')

lemma fold_bump: "unat (fold bump_pair es m) = fold max (extent_ends es) (unat m)"
  by (induction es arbitrary: m) (simp_all add: extent_ends_def bump_pair_def unat_bump max.commute)

lemma fold_bump_Max: "unat (fold bump_pair es m) = Max (insert (unat m) (set (extent_ends es)))"
  using Max.set_eq_fold [of "unat m" "extent_ends es"] by (simp add: fold_bump)

lemma option_fold: "(case x of None \<Rightarrow> m | Some y \<Rightarrow> bump (off y) (len y) m) =
    fold (\<lambda>y. bump (off y) (len y)) (opt_list x) m"
  by (simp add: opt_list_def split: option.split)

lemma data_end_fold: "compute_data_end t h =
    fold bump_pair (toc_extents t) (max (saturating_add (wal_offset h) (wal_size h)) (footer_offset h))"
  unfolding compute_data_end_def toc_extents_def Let_def option_fold
  by (simp add: fold_map comp_def bump_pair_def bump_common_def)

lemma payload_end_fold: "compute_payload_region_end t h =
    fold bump_pair (map (\<lambda>f. (payload_offset f, payload_length f))
      (filter (\<lambda>f. payload_length f \<noteq> 0) (t_frames t))) (saturating_add (wal_offset h) (wal_size h))"
proof -
  have "fold (\<lambda>f m. if payload_length f \<noteq> 0 then bump (payload_offset f) (payload_length f) m else m) fs m =
      fold bump_pair (map (\<lambda>f. (payload_offset f, payload_length f))
        (filter (\<lambda>f. payload_length f \<noteq> 0) fs)) m" for fs m
    by (induction fs arbitrary: m) (simp_all add: bump_pair_def)
  then show ?thesis by (simp add: compute_payload_region_end_def)
qed

text \<open>The end of the data is exactly the largest of: the end of the log region, the offset of
  the table of contents, and the ends of all payloads, segments, indexes and tracks of the table
  of contents (of those that do not overflow), so bytes appended there overwrite none of them.\<close>

theorem data_end_max:
  "unat (compute_data_end t h) =
     Max ({min (unat (wal_offset h) + unat (wal_size h)) (2 ^ 64 - 1), unat (footer_offset h)} \<union>
          {unat a + unat b |a b. (a, b) \<in> set (toc_extents t) \<and> unat a + unat b < 2 ^ 64})"
proof -
  let ?w = "saturating_add (wal_offset h) (wal_size h)"
  have e: "set (extent_ends es) = {unat a + unat b |a b. (a, b) \<in> set es \<and> unat a + unat b < 2 ^ 64}" for es
    by (force simp: extent_ends_def)
  have m: "unat (max a b) = max (unat a) (unat b)" for a b :: u64
    by (simp add: max_def word_le_nat_alt)
  have "Max (insert (max a b) S) = Max (insert a (insert b S))" if "finite S" for a b :: nat and S
    using that by (cases "S = {}") (simp_all add: max.assoc)
  then show ?thesis
    unfolding data_end_fold fold_bump_Max m e [symmetric]
    by (simp add: unat_saturating_add)
qed

end
