(* ===== verification/Lex_Storage.thy ===== *)
theory Lex_Storage
  imports Toc_Types "HOL-Library.List_Lexorder" "HOL-Library.RBT"
begin

text \<open>
  The embedded lexical segments (\<open>search/tantivy/storage.rs\<close>).  The \<open>BTreeMap\<close> from path to
  segment is a red-black tree of the library, whose entries come in key order; paths are
  ordered as their code points, which is the order of their UTF-8 bytes.
\<close>

record lex_embedded =
  le_path :: ustr
  le_offset :: u64
  le_length :: u64
  le_checksum :: bytes

definition embedded_from_manifest :: "lex_segment_manifest \<Rightarrow> lex_embedded" where
  "embedded_from_manifest m = \<lparr>le_path = lsm_path m, le_offset = lsm_offset m,
     le_length = lsm_length m, le_checksum = lsm_checksum m\<rparr>"

definition embedded_to_manifest :: "lex_embedded \<Rightarrow> lex_segment_manifest" where
  "embedded_to_manifest s = \<lparr>lsm_path = le_path s, lsm_offset = le_offset s,
     lsm_length = le_length s, lsm_checksum = le_checksum s\<rparr>"

record lex_storage =
  st_generation :: u64
  st_doc_count :: u64
  st_checksum :: bytes
  st_segments :: "(ustr, lex_embedded) rbt"

definition new_storage :: lex_storage where
  "new_storage = \<lparr>st_generation = 0, st_doc_count = 0, st_checksum = replicate 32 0,
     st_segments = RBT.empty\<rparr>"

definition storage_insert :: "lex_embedded \<Rightarrow> lex_storage \<Rightarrow> lex_storage" where
  "storage_insert s st = st\<lparr>st_segments := RBT.insert (le_path s) s (st_segments st)\<rparr>"

definition storage_remove :: "ustr \<Rightarrow> lex_storage \<Rightarrow> lex_storage" where
  "storage_remove p st = st\<lparr>st_segments := RBT.delete p (st_segments st)\<rparr>"

definition storage_from_manifest ::
  "lex_index_manifest option \<Rightarrow> lex_segment_manifest list \<Rightarrow> lex_storage" where
  "storage_from_manifest manifest segs =
     (let st = (case manifest of None \<Rightarrow> new_storage
                | Some i \<Rightarrow> new_storage\<lparr>st_generation := lx_generation i, st_doc_count := lx_doc_count i,
                    st_checksum := lx_checksum i\<rparr>) in
      fold (\<lambda>m. storage_insert (embedded_from_manifest m)) segs st)"

definition storage_segments :: "lex_storage \<Rightarrow> lex_embedded list" where
  "storage_segments st = map snd (RBT.entries (st_segments st))"

definition storage_is_empty :: "lex_storage \<Rightarrow> bool" where
  "storage_is_empty st = (RBT.entries (st_segments st) = [])"

definition storage_replace :: "u64 \<Rightarrow> bytes \<Rightarrow> lex_embedded list \<Rightarrow> lex_storage \<Rightarrow> lex_storage" where
  "storage_replace count ck segs st =
     (let st = fold storage_insert segs
                 (st\<lparr>st_doc_count := count, st_checksum := ck, st_segments := RBT.empty\<rparr>) in
      st\<lparr>st_generation := st_generation st + 1\<rparr>)"

definition storage_clear :: "lex_storage \<Rightarrow> lex_storage" where
  "storage_clear st = storage_replace 0 (replicate 32 0) [] st"

definition storage_to_manifest ::
  "lex_storage \<Rightarrow> lex_index_manifest option \<times> lex_segment_manifest list" where
  "storage_to_manifest st = (None, map embedded_to_manifest (storage_segments st))"

definition moved :: "u64 \<Rightarrow> u64 \<Rightarrow> u64" where
  "moved delta off = (if off \<noteq> 0 then off + delta else off)"

definition storage_adjust_offsets :: "u64 \<Rightarrow> lex_storage \<Rightarrow> lex_storage" where
  "storage_adjust_offsets delta st =
     (if delta = 0 then st
      else st\<lparr>st_segments := RBT.map (\<lambda>_ s. s\<lparr>le_offset := moved delta (le_offset s)\<rparr>) (st_segments st)\<rparr>)"

definition lex_doc_count :: "toc \<Rightarrow> lex_storage \<Rightarrow> u64 option" where
  "lex_doc_count t st =
     (case im_lex (t_indexes t) of
        Some m \<Rightarrow> if 0 < lx_doc_count m then Some (lx_doc_count m)
                  else if 0 < st_doc_count st then Some (st_doc_count st) else None
      | None \<Rightarrow> if 0 < st_doc_count st then Some (st_doc_count st) else None)"

section \<open>Segments by path\<close>

definition segment_at :: "lex_storage \<Rightarrow> ustr \<Rightarrow> lex_embedded option" where
  "segment_at st = RBT.lookup (st_segments st)"

lemma embedded_manifest_inverse [simp]:
  "embedded_to_manifest (embedded_from_manifest m) = m"
  "embedded_from_manifest (embedded_to_manifest s) = s"
  by (simp_all add: embedded_to_manifest_def embedded_from_manifest_def)

lemma segment_at_insert: "segment_at (storage_insert s st) = (segment_at st)(le_path s \<mapsto> s)"
  by (simp add: segment_at_def storage_insert_def)

lemma segment_at_remove: "segment_at (storage_remove p st) = (segment_at st)(p := None)"
  by (simp add: segment_at_def storage_remove_def restrict_complement_singleton_eq)

lemma segment_at_inserts:
  "segment_at (fold storage_insert ss st) = segment_at st ++ map_of (map (\<lambda>s. (le_path s, s)) (rev ss))"
proof (induction ss arbitrary: st)
  case (Cons s ss)
  then show ?case by (simp add: segment_at_insert map_add_def fun_eq_iff split: option.splits)
qed simp

lemma fold_insert_fields:
  "st_generation (fold storage_insert ss st) = st_generation st"
  "st_doc_count (fold storage_insert ss st) = st_doc_count st"
  "st_checksum (fold storage_insert ss st) = st_checksum st"
  by (induction ss arbitrary: st) (simp_all add: storage_insert_def)

lemma segment_at_replace:
  "segment_at (storage_replace n c ss st) = map_of (map (\<lambda>s. (le_path s, s)) (rev ss))"
  by (simp add: storage_replace_def segment_at_def [symmetric] Let_def)
    (simp add: segment_at_def segment_at_inserts [unfolded segment_at_def])

lemma segment_at_adjust:
  "segment_at (storage_adjust_offsets d st) p =
     map_option (\<lambda>s. s\<lparr>le_offset := moved d (le_offset s)\<rparr>) (segment_at st p)"
proof (cases "d = 0")
  case True
  then show ?thesis
    by (cases "segment_at st p") (simp_all add: storage_adjust_offsets_def moved_def)
next
  case False
  then show ?thesis by (simp add: storage_adjust_offsets_def segment_at_def RBT.lookup_map)
qed

lemma storage_segments_set: "set (storage_segments st) = ran (segment_at st)"
proof -
  have "s \<in> set (storage_segments st) \<longleftrightarrow> (\<exists>p. segment_at st p = Some s)" for s
    unfolding storage_segments_def segment_at_def RBT.lookup_in_tree by (force simp: image_iff)
  then show ?thesis by (auto simp: ran_def)
qed

text \<open>The manifests of a storage give the storage's segments back.\<close>

lemma manifest_storage:
  assumes "\<And>p s. segment_at st p = Some s \<Longrightarrow> le_path s = p"
  shows "segment_at (storage_from_manifest None (snd (storage_to_manifest st))) = segment_at st"
proof -
  have f: "fold (\<lambda>m. storage_insert (embedded_from_manifest m)) (map embedded_to_manifest ss) =
      fold storage_insert ss" for ss
    by (simp add: fold_map comp_def)
  let ?es = "RBT.entries (st_segments st)"
  have d: "distinct (map fst ?es)" by (rule RBT.distinct_entries)
  have "fst e = le_path (snd e)" if "e \<in> set ?es" for e
    using assms [of "fst e" "snd e"] that by (simp add: segment_at_def RBT.lookup_in_tree)
  then have m: "map (\<lambda>s. (le_path s, s)) (map snd ?es) = ?es"
    by (simp add: comp_def) (metis (no_types, lifting) map_idI prod.collapse)
  have "map_of (rev ?es) = map_of ?es"
    using d by (intro map_of_inject_set [THEN iffD2]) (simp_all add: rev_map [symmetric])
  then show ?thesis
    using m unfolding storage_from_manifest_def storage_to_manifest_def storage_segments_def
    by (simp add: f segment_at_inserts rev_map [symmetric] del: map_map)
      (simp add: segment_at_def new_storage_def RBT.map_of_entries)
qed

end
