(* ===== verification/Toc_Write.thy ===== *)
theory Toc_Write
  imports Toc_Store Lex_Storage Wal
begin

text \<open>
  The handle of a memory and writing its table of contents (\<open>rewrite_toc_footer\<close> and
  \<open>align_footer_with_catalog\<close> of \<open>memvid/mutation.rs\<close>, \<open>persist_header\<close> of \<open>lib.rs\<close>).

  \<open>vault\<close> holds the fields of \<open>Memvid\<close> that these operations, the tickets and the growth of the
  log touch.  The log shares the file of the handle: \<open>the_wal\<close> is the log on the current bytes.
  An operation that fails returns the state it leaves behind; \<open>and_then\<close> is the \<open>?\<close> operator.
\<close>

record put_many_opts =
  pm_compression_level :: "32 word"
  pm_disable_auto_checkpoint :: bool
  pm_skip_sync :: bool
  pm_enable_embedding :: bool
  pm_auto_tag :: bool
  pm_extract_dates :: bool
  pm_no_raw :: bool
  pm_enable_enrichment :: bool
  pm_wal_pre_size_bytes :: u64

definition default_put_many :: put_many_opts where
  "default_put_many = \<lparr>pm_compression_level = 3, pm_disable_auto_checkpoint = True,
     pm_skip_sync = False, pm_enable_embedding = False, pm_auto_tag = False, pm_extract_dates = False,
     pm_no_raw = True, pm_enable_enrichment = True, pm_wal_pre_size_bytes = 0\<rparr>"

record vault =
  vfile :: bytes
  vheader :: header
  vtoc :: toc
  vwal :: wal
  vdata_end :: u64
  vpayload_end :: u64
  vgeneration :: u64
  vlex :: lex_storage
  vdirty :: bool
  vread_only :: bool
  vbatch :: "put_many_opts option"

definition the_wal :: "'z vault_scheme \<Rightarrow> wal" where
  "the_wal v = (vwal v)\<lparr>wfile := vfile v\<rparr>"

definition put_wal :: "wal \<Rightarrow> 'z vault_scheme \<Rightarrow> 'z vault_scheme" where
  "put_wal w v = v\<lparr>vwal := w, vfile := wfile w\<rparr>"

definition and_then :: "'s \<times> 'a res \<Rightarrow> ('s \<Rightarrow> 'a \<Rightarrow> 's \<times> 'b res) \<Rightarrow> 's \<times> 'b res" where
  "and_then p k = (case p of (s, Inl e) \<Rightarrow> (s, Inl e) | (s, Inr x) \<Rightarrow> k s x)"

lemma and_then_simps [simp]:
  "and_then (s, Inl e) k = (s, Inl e)" "and_then (s, Inr x) k = k s x"
  by (simp_all add: and_then_def)

lemma and_then_Inr: "and_then p k = (s', Inr y) \<longleftrightarrow> (\<exists>s x. p = (s, Inr x) \<and> k s x = (s', Inr y))"
  by (cases p; cases "snd p") auto

definition commit_footer_of :: "toc_codec \<Rightarrow> bytes \<Rightarrow> u64 \<Rightarrow> commit_footer" where
  "commit_footer_of C b gen = \<lparr>toc_len = of_nat (length b), toc_hash = blake C b, generation = gen\<rparr>"

definition rewrite_toc_footer :: "toc_codec \<Rightarrow> 'z vault_scheme \<Rightarrow> 'z vault_scheme \<times> unit res" where
  "rewrite_toc_footer C v =
     (case prepare_toc_bytes C (vtoc v) of
        (t, Inl e) \<Rightarrow> (v\<lparr>vtoc := t\<rparr>, Inl e)
      | (t, Inr b) \<Rightarrow>
          (let off = unat (footer_offset (vheader v));
               f1 = write_at (vfile v) off b;
               encoded_footer = Footer.encode (commit_footer_of C b (vgeneration v));
               f2 = write_at f1 (off + length b) encoded_footer;
               new_len = off + length b + length encoded_footer;
               min_len = unat (wal_offset (vheader v)) + unat (wal_size (vheader v))
           in (v\<lparr>vtoc := t, vfile := set_len f2 (max new_len min_len)\<rparr>, Inr ())))"

definition persist_header :: "'z vault_scheme \<Rightarrow> 'z vault_scheme \<times> unit res" where
  "persist_header v = (case write_header (vfile v) (vheader v) of (f, r) \<Rightarrow> (v\<lparr>vfile := f\<rparr>, r))"

text \<open>\<open>rewrite_toc_footer\<close>, the checksum into the header, \<open>persist_header\<close>: the sequence every
  operation ends with.\<close>

definition publish_toc :: "toc_codec \<Rightarrow> 'z vault_scheme \<Rightarrow> 'z vault_scheme \<times> unit res" where
  "publish_toc C v =
     and_then (rewrite_toc_footer C v) (\<lambda>v _.
       persist_header (v\<lparr>vheader := (vheader v)\<lparr>toc_checksum := t_checksum (vtoc v)\<rparr>\<rparr>))"

text \<open>The end of the catalogued data; the sums are plain \<open>u64\<close> additions.\<close>

definition grown :: "u64 \<Rightarrow> u64 \<Rightarrow> u64 \<Rightarrow> u64" where
  "grown off len m = (if len = 0 then m else max m (off + len))"

definition grown_common :: "segment_common \<Rightarrow> u64 \<Rightarrow> u64" where
  "grown_common c = grown (c_offset c) (c_length c)"

definition catalog_data_end :: "'z vault_scheme \<Rightarrow> u64" where
  "catalog_data_end v =
     (let t = vtoc v; catalog = t_catalog t;
          m = wal_offset (vheader v) + wal_size (vheader v);
          m = fold (\<lambda>s. grown_common (ls_common s)) (lex_segs catalog) m;
          m = fold (\<lambda>s. grown_common (vs_common s)) (vec_segs catalog) m;
          m = fold (\<lambda>s. grown_common (ts_common s)) (time_segs catalog) m;
          m = fold (\<lambda>s. grown_common (tv_common s)) (tantivy_segs catalog) m;
          m = (case im_lex (t_indexes t) of None \<Rightarrow> m | Some x \<Rightarrow> grown (lx_offset x) (lx_length x) m);
          m = (case im_vec (t_indexes t) of None \<Rightarrow> m | Some x \<Rightarrow> grown (vx_offset x) (vx_length x) m);
          m = (case t_time t of None \<Rightarrow> m | Some x \<Rightarrow> grown (ti_offset x) (ti_length x) m)
      in m)"

definition align_footer_with_catalog ::
  "toc_codec \<Rightarrow> 'z vault_scheme \<Rightarrow> 'z vault_scheme \<times> bool res" where
  "align_footer_with_catalog C v =
     (let catalog_end = catalog_data_end v in
      if catalog_end \<le> footer_offset (vheader v) then (v, Inr False)
      else and_then (publish_toc C (v\<lparr>vheader := (vheader v)\<lparr>footer_offset := catalog_end\<rparr>\<rparr>))
             (\<lambda>v _. (v, Inr True)))"

section \<open>What a rewrite leaves\<close>

lemma commit_footer_typed: "hash_ok (blake C) \<Longrightarrow> footer_typed (commit_footer_of C b gen)"
  by (simp add: commit_footer_of_def footer_typed_def hash_ok_def)

lemma length_set_len [simp]: "length (set_len f n) = n"
  by (simp add: set_len_def)

lemma write_at_set_len: "xs \<noteq> [] \<Longrightarrow> take (pos + length xs) (write_at f pos xs) = set_len f pos @ xs"
  by (auto simp: write_at_def put_slice_def set_len_def)

lemma take_set_len: "n \<le> length f \<Longrightarrow> set_len f n = take n f"
  by (simp add: set_len_def)

lemma rewrite_committed:
  assumes r: "rewrite_toc_footer C v = (v', Inr ())" and C: "codec_ok C"
    and off: "unat (wal_offset (vheader v)) + unat (wal_size (vheader v))
      \<le> unat (footer_offset (vheader v))"
  obtains b where "prepare_toc_bytes C (vtoc v) = (vtoc v', Inr b)"
    "vfile v' = set_len (vfile v) (unat (footer_offset (vheader v))) @ b @
       Footer.encode (commit_footer_of C b (vgeneration v))"
    "v' = v\<lparr>vtoc := vtoc v', vfile := vfile v'\<rparr>"
proof -
  let ?off = "unat (footer_offset (vheader v))"
  obtain t b where p: "prepare_toc_bytes C (vtoc v) = (t, Inr b)"
    using r by (cases "prepare_toc_bytes C (vtoc v)"; cases "snd (prepare_toc_bytes C (vtoc v))")
      (auto simp: rewrite_toc_footer_def)
  let ?e = "Footer.encode (commit_footer_of C b (vgeneration v))"
  have ne: "b \<noteq> []" using prepare_ok(1) [OF p] C by (simp add: codec_ok_def)
  have le: "length ?e = 56"
    using C by (simp add: Footer.length_encode commit_footer_typed codec_ok_def)
  let ?f1 = "write_at (vfile v) ?off b"
  let ?f2 = "write_at ?f1 (?off + length b) ?e"
  have v': "v' = v\<lparr>vtoc := t, vfile := set_len ?f2 (?off + length b + length ?e)\<rparr>"
    using r p off le by (simp add: rewrite_toc_footer_def Let_def max_def)
  have "?e \<noteq> []" using le by auto
  then have "take (?off + length b + length ?e) ?f2 = set_len ?f1 (?off + length b) @ ?e"
    by (rule write_at_set_len)
  moreover have "set_len ?f1 (?off + length b) = set_len (vfile v) ?off @ b"
    using write_at_set_len [OF ne, of ?off "vfile v"] ne by (simp add: set_len_def length_write_at)
  moreover have "set_len ?f2 (?off + length b + length ?e) = take (?off + length b + length ?e) ?f2"
    using le ne \<open>?e \<noteq> []\<close> by (simp add: set_len_def length_write_at)
  ultimately show thesis using that [of b] p v' by simp
qed

section \<open>What is read back\<close>

text \<open>The file behind a commit: anything, the table of contents, its footer.\<close>

abbreviation with_footer :: "toc_codec \<Rightarrow> bytes \<Rightarrow> bytes \<Rightarrow> u64 \<Rightarrow> bytes" where
  "with_footer C pre b gen \<equiv> pre @ b @ Footer.encode (commit_footer_of C b gen)"

lemma last_footer_committed:
  assumes "memrchr_ok mr" "codec_ok C" "enc_toc C t = Some b" "length b < 2 ^ 64"
  shows "last_footer mr C (with_footer C pre b gen) =
    Some \<lparr>fs_footer_offset = length pre + length b, fs_toc_offset = length pre,
      fs_footer = commit_footer_of C b gen, fs_toc_bytes = b\<rparr>"
proof -
  have "b \<noteq> []" "hash_ok (blake C)" using assms(2,3) by (auto simp: codec_ok_def)
  moreover have "unat (toc_len (commit_footer_of C b gen)) = length b"
    using assms(4) by (simp add: commit_footer_of_def unat_of_nat take_bit_eq_mod)
  moreover have "blake C b = toc_hash (commit_footer_of C b gen)"
    by (simp add: commit_footer_of_def)
  ultimately have "find_last_valid_footer mr (blake C) (with_footer C pre b gen) =
      Some (Some \<lparr>fs_footer_offset = length pre + length b, fs_toc_offset = length pre,
        fs_footer = commit_footer_of C b gen, fs_toc_bytes = b\<rparr>)"
    by (intro last_footer_at_end [OF assms(1) commit_footer_typed])
  then show ?thesis by (simp add: last_footer_def)
qed

lemma recover_committed:
  assumes "memrchr_ok mr" "codec_ok C" "enc_toc C t = Some b" "length b < 2 ^ 64"
  shows "recover_toc mr C (with_footer C pre b gen) hint = Inr (t, of_nat (length pre))"
  using last_footer_committed [OF assms] toc_decode_encode [OF assms(2,3)]
  by (simp add: recover_toc_def)

text \<open>Reading at the offset of a header finds this table of contents or fails; its errors are the
  ones that start a recovery.\<close>

lemma read_committed:
  assumes "codec_ok C" "enc_toc C t = Some b" "length b < 2 ^ 64"
    "read_toc C (with_footer C pre b gen) h = Inr t'"
  shows "t' = t \<and> unat (footer_offset h) = length pre"
proof -
  let ?F = "Footer.encode (commit_footer_of C b gen)" and ?off = "unat (footer_offset h)"
  have F: "length ?F = 56" "Footer.decode ?F = Some (commit_footer_of C b gen)"
    using assms(1) by (simp_all add: Footer.length_encode Footer.decode_encode commit_footer_typed codec_ok_def)
  let ?buf = "drop ?off (with_footer C pre b gen)"
  have off: "?off \<le> length pre + length b"
    using assms(4) F(1) by (auto simp: read_toc_def FOOTER_SIZE_eq Let_def split: if_splits)
  then have buf: "?buf = drop ?off (pre @ b) @ ?F"
    using F(1) by simp
  have "length (drop ?off (pre @ b)) = length b" "toc_decode C (drop ?off (pre @ b)) = Inr t'"
    using assms(3,4) F off
    by (simp_all add: read_toc_def FOOTER_SIZE_eq Let_def buf commit_footer_of_def unat_of_nat
        take_bit_eq_mod split: if_splits sum.splits)
  moreover from this(1) off have "?off = length pre" by simp
  ultimately show ?thesis using toc_decode_encode [OF assms(1,2)] by simp
qed

lemma prefix_error: "verify_toc_prefix b = Inl e \<Longrightarrow> recoverable e"
  by (auto simp: verify_toc_prefix_def Let_def split: if_splits)

lemma decode_error: "toc_decode C b = Inl e \<Longrightarrow> recoverable e"
  by (auto simp: toc_decode_def split: if_splits option.splits)

lemma read_error: "read_toc C f h = Inl e \<Longrightarrow> recoverable e"
  by (auto simp: read_toc_def Let_def dest: prefix_error decode_error
      split: if_splits option.splits sum.splits)

lemma drop_header:
  assumes "header_typed h" "header_valid h"
  shows "\<exists>f'. write_header f h = (f', Inr ()) \<and> drop HEADER_SIZE f' = drop HEADER_SIZE f"
proof -
  have "length (header_layout h) = HEADER_SIZE" by (rule length_header_layout) (rule assms)
  then show ?thesis
    using assms by (simp add: write_header_def encode_layout write_at_mid)
qed

lemma open_committed:
  assumes mr: "memrchr_ok mr" and C: "codec_ok C" "enc_toc C t = Some b" "length (t_checksum t) = 32"
    and small: "length pre + length b < 2 ^ 64" and h: "header_typed h" "header_valid h"
  shows "\<exists>f' h'. open_toc mr C (with_footer C pre b gen) h = (f', Inr (h', t)) \<and>
    unat (footer_offset h') = length pre \<and>
    drop HEADER_SIZE f' = drop HEADER_SIZE (with_footer C pre b gen)"
proof (cases "read_toc C (with_footer C pre b gen) h")
  case (Inr t')
  then have "t' = t \<and> unat (footer_offset h) = length pre"
    using read_committed [OF C(1,2)] small by simp
  with Inr show ?thesis by (simp add: open_toc_def)
next
  case (Inl e)
  let ?f = "with_footer C pre b gen"
  have n: "unat (of_nat (length pre) :: u64) = length pre"
    using small by (simp add: unat_of_nat take_bit_eq_mod)
  let ?h = "h\<lparr>footer_offset := of_nat (length pre), toc_checksum := t_checksum t\<rparr>"
  have "header_typed ?h" "header_valid ?h"
    using h C(3) by (simp_all add: header_typed_def header_valid_def)
  then obtain f' where f': "write_header ?f ?h = (f', Inr ())" "drop HEADER_SIZE f' = drop HEADER_SIZE ?f"
    using drop_header by blast
  have "recover_toc mr C ?f (Some (footer_offset h)) = Inr (t, of_nat (length pre))"
    using recover_committed [OF mr C(1,2)] small by simp
  then show ?thesis
    using Inl read_error [OF Inl] f' n by (auto simp: open_toc_def)
qed

lemma window_hit:
  "f \<noteq> [] \<Longrightarrow> last_footer mr C (drop (length f - min MAX_SEARCH_SIZE (length f)) f) = Some s \<Longrightarrow>
     locate_footer_window mr C f = Some (s, length f - min MAX_SEARCH_SIZE (length f))"
  by (simp add: locate_footer_window_def footer_window.simps [of mr C f "min MAX_SEARCH_SIZE (length f)"])

lemma snapshot_committed:
  assumes mr: "memrchr_ok mr" and C: "codec_ok C" "enc_toc C t = Some b" "verify_checksum C t = Inr ()"
    and small: "length b + FOOTER_SIZE \<le> MAX_SEARCH_SIZE"
  shows "load_tail_snapshot mr C (with_footer C pre b gen) =
    Inr \<lparr>sn_toc = t, sn_footer_offset = of_nat (length pre + length b),
      sn_data_end = of_nat (length pre + length b), sn_generation = gen\<rparr>"
proof -
  let ?f = "with_footer C pre b gen"
  let ?s = "length ?f - min MAX_SEARCH_SIZE (length ?f)"
  have F: "length (Footer.encode (commit_footer_of C b gen)) = 56"
    using C(1) by (simp add: Footer.length_encode commit_footer_typed codec_ok_def)
  have s: "?s \<le> length pre" using small F by (simp add: FOOTER_SIZE_eq)
  have "length b < 2 ^ 64" using small by (simp add: MAX_SEARCH_SIZE_def)
  then have "last_footer mr C (drop ?s ?f) = Some \<lparr>fs_footer_offset = length pre - ?s + length b,
      fs_toc_offset = length pre - ?s, fs_footer = commit_footer_of C b gen, fs_toc_bytes = b\<rparr>"
    using last_footer_committed [OF mr C(1,2), of "drop ?s pre" gen] s by simp
  then have "locate_footer_window mr C ?f = Some (\<lparr>fs_footer_offset = length pre - ?s + length b,
      fs_toc_offset = length pre - ?s, fs_footer = commit_footer_of C b gen, fs_toc_bytes = b\<rparr>, ?s)"
    using F by (intro window_hit) auto
  then show ?thesis
    using s toc_decode_encode [OF C(1,2)] C(3)
    by (simp add: load_tail_snapshot_def commit_footer_of_def)
qed

definition demo_vault :: vault where
  "demo_vault = \<lparr>vfile = [], vheader = sample_header\<lparr>footer_offset := 5000, wal_size := 100\<rparr>,
     vtoc = empty_toc\<lparr>t_version := 2\<rparr>, vwal = sample_wal 100, vdata_end = 5000,
     vpayload_end = 4196, vgeneration = 3, vlex = new_storage, vdirty = False, vread_only = False, vbatch = None\<rparr>"

lemma demo_offsets: "footer_offset (vheader demo_vault) = 5000"
  "unat (wal_offset (vheader demo_vault)) + unat (wal_size (vheader demo_vault)) \<le> 5000"
  by (simp_all add: demo_vault_def sample_header_def WAL_OFFSET_def)

lemma demo_rewrite:
  "\<exists>v'. rewrite_toc_footer toy_codec demo_vault = (v', Inr ()) \<and> length (vfile v') = 5112"
proof -
  have "hash_ok (blake toy_codec)" using toy_codec_ok by (simp add: codec_ok_def)
  then have "length (Footer.encode (commit_footer_of toy_codec b g)) = 56" for b g
    by (simp add: Footer.length_encode commit_footer_typed)
  then show ?thesis
    by (simp add: rewrite_toc_footer_def demo_vault_def toy_prepare sample_header_def WAL_OFFSET_def)
qed

section \<open>Properties\<close>

text \<open>C8. A committed table of contents is opened again whatever the header says: after
  \<open>rewrite_toc_footer\<close>, opening the file with any valid header, also one with an old or damaged
  offset, returns exactly this table of contents with its offset, and changes no byte behind the
  header.\<close>

theorem open_finds_committed:
  assumes "memrchr_ok mr" "codec_ok C" "rewrite_toc_footer C v = (v', Inr ())"
    and "unat (wal_offset (vheader v)) + unat (wal_size (vheader v)) \<le> unat (footer_offset (vheader v))"
    and "length (vfile v') < 2 ^ 64" "header_typed h" "header_valid h"
  shows "\<exists>f' h'. open_toc mr C (vfile v') h = (f', Inr (h', vtoc v')) \<and>
    footer_offset h' = footer_offset (vheader v) \<and> drop HEADER_SIZE f' = drop HEADER_SIZE (vfile v')"
proof -
  obtain b where b: "prepare_toc_bytes C (vtoc v) = (vtoc v', Inr b)"
    "vfile v' = with_footer C (set_len (vfile v) (unat (footer_offset (vheader v)))) b (vgeneration v)"
    by (rule rewrite_committed [OF assms(3,2,4)])
  have "length (t_checksum (vtoc v')) = 32"
    using prepare_ok(4) [OF b(1)] assms(2) by (simp add: codec_ok_def)
  then show ?thesis
    using open_committed [OF assms(1,2) prepare_ok(1) [OF b(1)] _ _ assms(6,7),
        of "set_len (vfile v) (unat (footer_offset (vheader v)))" "vgeneration v"] assms(5)
    unfolding b(2) by (simp add: word_unat_eq_iff)
qed

theorem open_finds_committed_witness:
  "\<exists>v' f' h'. rewrite_toc_footer toy_codec demo_vault = (v', Inr ()) \<and>
     open_toc last_index toy_codec (vfile v') sample_header = (f', Inr (h', vtoc v')) \<and>
     footer_offset h' = 5000"
proof -
  obtain v' where v': "rewrite_toc_footer toy_codec demo_vault = (v', Inr ())" "length (vfile v') = 5112"
    using demo_rewrite by blast
  have "length (vfile v') < 2 ^ 64" using v'(2) by simp
  from open_finds_committed [OF last_index_ok toy_codec_ok v'(1) _ this sample_header_ok] v'
  show ?thesis by (auto simp: demo_offsets)
qed

text \<open>C23. A read-only handle sees exactly the last commit: after \<open>rewrite_toc_footer\<close> the snapshot
  of the file tail is this table of contents, with the generation of the handle, for every table
  of contents that fits into the first search window.\<close>

theorem snapshot_sees_commit:
  assumes "memrchr_ok mr" "codec_ok C" "rewrite_toc_footer C v = (v', Inr ())"
    and "unat (wal_offset (vheader v)) + unat (wal_size (vheader v)) \<le> unat (footer_offset (vheader v))"
    and "length (vfile v') \<le> unat (footer_offset (vheader v)) + MAX_SEARCH_SIZE"
  shows "\<exists>s. load_tail_snapshot mr C (vfile v') = Inr s \<and> sn_toc s = vtoc v' \<and>
    sn_generation s = vgeneration v \<and> sn_data_end s = of_nat (length (vfile v') - FOOTER_SIZE)"
proof -
  obtain b where b: "prepare_toc_bytes C (vtoc v) = (vtoc v', Inr b)"
    "vfile v' = with_footer C (set_len (vfile v) (unat (footer_offset (vheader v)))) b (vgeneration v)"
    by (rule rewrite_committed [OF assms(3,2,4)])
  have F: "length (Footer.encode (commit_footer_of C b (vgeneration v))) = 56"
    using assms(2) by (simp add: Footer.length_encode commit_footer_typed codec_ok_def)
  show ?thesis
    using snapshot_committed [OF assms(1,2) prepare_ok(1,2) [OF b(1)]] assms(5)
    unfolding b(2) by (simp add: F FOOTER_SIZE_eq)
qed

theorem snapshot_sees_commit_witness:
  "\<exists>v' s. rewrite_toc_footer toy_codec demo_vault = (v', Inr ()) \<and>
     load_tail_snapshot last_index toy_codec (vfile v') = Inr s \<and> sn_toc s = vtoc v'"
proof -
  obtain v' where v': "rewrite_toc_footer toy_codec demo_vault = (v', Inr ())" "length (vfile v') = 5112"
    using demo_rewrite by blast
  from snapshot_sees_commit [OF last_index_ok toy_codec_ok v'(1)] v'
  show ?thesis by (auto simp: demo_offsets MAX_SEARCH_SIZE_def)
qed

end
