(* ===== verification/Tickets.thy ===== *)
theory Tickets
  imports Toc_Write
begin

text \<open>
  Tickets, binding and capacity (\<open>memvid/ticket.rs\<close>, \<open>types/ticket.rs\<close>, \<open>signature.rs\<close>, the
  binding operations of \<open>memvid/lifecycle.rs\<close>, \<open>tier\<close> and \<open>capacity_limit\<close> of
  \<open>memvid/mutation.rs\<close>).

  The lock upgrade, the Base64 key, the JSON message and the Ed25519 check are parameters,
  collected in \<open>ticket_env\<close>; \<open>'k\<close> is the type of keys.
\<close>

record ticket =
  tn_issuer :: ustr
  tn_seq_no :: i64
  tn_expires :: u64
  tn_capacity :: "u64 option"

definition new_ticket :: "ustr \<Rightarrow> i64 \<Rightarrow> ticket" where
  "new_ticket issuer sq = \<lparr>tn_issuer = issuer, tn_seq_no = sq, tn_expires = 0, tn_capacity = None\<rparr>"

definition with_expiry :: "u64 \<Rightarrow> ticket \<Rightarrow> ticket" where
  "with_expiry n t = t\<lparr>tn_expires := n\<rparr>"

definition with_capacity :: "u64 \<Rightarrow> ticket \<Rightarrow> ticket" where
  "with_capacity n t = t\<lparr>tn_capacity := Some n\<rparr>"

record signed_ticket = ticket +
  sg_memory_id :: uuid
  sg_signature :: bytes

definition new_signed ::
  "ustr \<Rightarrow> i64 \<Rightarrow> u64 \<Rightarrow> u64 option \<Rightarrow> uuid \<Rightarrow> bytes \<Rightarrow> signed_ticket" where
  "new_signed issuer sq expires cap mid sg = \<lparr>tn_issuer = issuer, tn_seq_no = sq,
     tn_expires = expires, tn_capacity = cap, sg_memory_id = mid, sg_signature = sg\<rparr>"

record ticket_payload =
  tp_version :: u8
  tp_memory_id :: uuid
  tp_issuer :: ustr
  tp_seq_no :: i64
  tp_expires_in :: u64
  tp_capacity :: "u64 option"

record 'k ticket_env =
  upgrade_lock :: "unit res"
  ticket_pubkey :: "'k res"
  to_json :: "ticket_payload \<Rightarrow> bytes option"
  verify_strict :: "'k \<Rightarrow> bytes \<Rightarrow> bytes \<Rightarrow> bool"

section \<open>Signatures\<close>

definition SIGNING_SCHEMA_VERSION :: u8 where "SIGNING_SCHEMA_VERSION = 1"

definition ticket_message_bytes ::
  "'k ticket_env \<Rightarrow> uuid \<Rightarrow> ustr \<Rightarrow> i64 \<Rightarrow> u64 \<Rightarrow> u64 option \<Rightarrow> bytes res" where
  "ticket_message_bytes env mid issuer sq expires cap =
     (case to_json env \<lparr>tp_version = SIGNING_SCHEMA_VERSION, tp_memory_id = mid, tp_issuer = issuer,
         tp_seq_no = sq, tp_expires_in = expires, tp_capacity = cap\<rparr> of
        None \<Rightarrow> Inl (TicketSignatureInvalid ''failed to serialize ticket payload'')
      | Some m \<Rightarrow> Inr m)"

definition to_signature :: "bytes \<Rightarrow> bytes res" where
  "to_signature b = (if length b = 64 then Inr b
     else Inl (TicketSignatureInvalid ''signature must be exactly 64 bytes''))"

definition verify_ticket_signature ::
  "'k ticket_env \<Rightarrow> 'k \<Rightarrow> uuid \<Rightarrow> ustr \<Rightarrow> i64 \<Rightarrow> u64 \<Rightarrow> u64 option \<Rightarrow> bytes \<Rightarrow> unit res" where
  "verify_ticket_signature env key mid issuer sq expires cap sg =
     (case ticket_message_bytes env mid issuer sq expires cap of Inl e \<Rightarrow> Inl e | Inr m \<Rightarrow>
      (case to_signature sg of Inl e \<Rightarrow> Inl e | Inr s \<Rightarrow>
       if verify_strict env key m s then Inr ()
       else Inl (TicketSignatureInvalid ''ticket signature mismatch'')))"

section \<open>Applying tickets\<close>

definition ensure_writable :: "'k ticket_env \<Rightarrow> 'z vault_scheme \<Rightarrow> 'z vault_scheme \<times> unit res" where
  "ensure_writable env v =
     (if vread_only v then
        (case upgrade_lock env of Inl e \<Rightarrow> (v, Inl e) | Inr _ \<Rightarrow> (v\<lparr>vread_only := False\<rparr>, Inr ()))
      else (v, Inr ()))"

text \<open>The sequence check; \<open>current_seq + 1\<close> is computed only for the error.\<close>

definition check_sequence :: "i64 \<Rightarrow> i64 \<Rightarrow> unit res" where
  "check_sequence current_seq sq =
     (if sint sq \<le> sint current_seq then Inl (TicketSequence (current_seq + 1) sq) else Inr ())"

definition take_ticket :: "ticket \<Rightarrow> bool \<Rightarrow> ticket_ref" where
  "take_ticket t checked = \<lparr>tk_issuer = tn_issuer t, tk_seq_no = tn_seq_no t, tk_expires = tn_expires t,
     tk_capacity = (case tn_capacity t of None \<Rightarrow> 0 | Some n \<Rightarrow> n), tk_verified = checked\<rparr>"

definition store_ticket ::
  "toc_codec \<Rightarrow> ticket_ref \<Rightarrow> 'z vault_scheme \<Rightarrow> 'z vault_scheme \<times> unit res" where
  "store_ticket C r v =
     publish_toc C (v\<lparr>vtoc := (vtoc v)\<lparr>t_ticket := r\<rparr>, vgeneration := vgeneration v + 1\<rparr>)"

definition apply_ticket ::
  "'k ticket_env \<Rightarrow> toc_codec \<Rightarrow> ticket \<Rightarrow> 'z vault_scheme \<Rightarrow> 'z vault_scheme \<times> unit res" where
  "apply_ticket env C t v =
     and_then (ensure_writable env v) (\<lambda>v _.
       case check_sequence (tk_seq_no (t_ticket (vtoc v))) (tn_seq_no t) of
         Inl e \<Rightarrow> (v, Inl e)
       | Inr _ \<Rightarrow> store_ticket C (take_ticket t False) v)"

definition apply_signed_ticket ::
  "'k ticket_env \<Rightarrow> toc_codec \<Rightarrow> signed_ticket \<Rightarrow> 'z vault_scheme \<Rightarrow> 'z vault_scheme \<times> unit res" where
  "apply_signed_ticket env C t v =
     and_then (ensure_writable env v) (\<lambda>v _.
       case ticket_pubkey env of Inl e \<Rightarrow> (v, Inl e) | Inr key \<Rightarrow>
       (case t_binding (vtoc v) of
          None \<Rightarrow> (v, Inl (TicketSignatureInvalid
            ''cannot apply signed ticket: memory is not bound to the Memvid API''))
        | Some binding \<Rightarrow>
            if sg_memory_id t \<noteq> mb_memory_id binding
            then (v, Inl (TicketSignatureInvalid ''ticket memory_id does not match this memory''))
            else
              (case verify_ticket_signature env key (sg_memory_id t) (tn_issuer t) (tn_seq_no t)
                      (tn_expires t) (tn_capacity t) (sg_signature t) of
                 Inl e \<Rightarrow> (v, Inl e)
               | Inr _ \<Rightarrow>
                   (case check_sequence (tk_seq_no (t_ticket (vtoc v))) (tn_seq_no t) of
                      Inl e \<Rightarrow> (v, Inl e)
                    | Inr _ \<Rightarrow> store_ticket C (take_ticket (ticket.truncate t) True) v))))"

section \<open>Binding\<close>

definition bound_elsewhere :: "'z vault_scheme \<Rightarrow> memory_binding \<Rightarrow> mv_error option" where
  "bound_elsewhere v b =
     (case t_binding (vtoc v) of None \<Rightarrow> None
      | Some old \<Rightarrow> if mb_memory_id old \<noteq> mb_memory_id b
                   then Some (MemoryAlreadyBound (mb_memory_id old)) else None)"

definition store_binding :: "memory_binding \<Rightarrow> 'z vault_scheme \<Rightarrow> 'z vault_scheme" where
  "store_binding b v = v\<lparr>vtoc := (vtoc v)\<lparr>t_binding := Some b\<rparr>, vdirty := True\<rparr>"

definition bind_memory ::
  "'k ticket_env \<Rightarrow> toc_codec \<Rightarrow> memory_binding \<Rightarrow> ticket \<Rightarrow> 'z vault_scheme \<Rightarrow> 'z vault_scheme \<times> unit res" where
  "bind_memory env C b t v =
     (case bound_elsewhere v b of
        Some e \<Rightarrow> (v, Inl e)
      | None \<Rightarrow> and_then (apply_ticket env C t v) (\<lambda>v _. (store_binding b v, Inr ())))"

definition set_memory_binding_only ::
  "'k ticket_env \<Rightarrow> memory_binding \<Rightarrow> 'z vault_scheme \<Rightarrow> 'z vault_scheme \<times> unit res" where
  "set_memory_binding_only env b v =
     and_then (ensure_writable env v) (\<lambda>v _.
       case bound_elsewhere v b of
         Some e \<Rightarrow> (v, Inl e)
       | None \<Rightarrow> (store_binding b v, Inr ()))"

definition unbind_memory :: "'z vault_scheme \<Rightarrow> 'z vault_scheme" where
  "unbind_memory v =
     v\<lparr>vtoc := (vtoc v)\<lparr>t_binding := None, t_ticket := free_ticket\<rparr>, vdirty := True\<rparr>"

section \<open>Capacity\<close>

definition WAL_SIZE_MEDIUM :: u64 where "WAL_SIZE_MEDIUM = 4 * 1024 * 1024"
definition WAL_SIZE_LARGE :: u64 where "WAL_SIZE_LARGE = 16 * 1024 * 1024"

definition tier_of :: "'z vault_scheme \<Rightarrow> tier" where
  "tier_of v =
     (if WAL_SIZE_LARGE \<le> wal_size (vheader v) then Enterprise
      else if WAL_SIZE_MEDIUM \<le> wal_size (vheader v) then Dev
      else Free)"

definition capacity_limit :: "'z vault_scheme \<Rightarrow> u64" where
  "capacity_limit v =
     (if tk_capacity (t_ticket (vtoc v)) \<noteq> 0 then tk_capacity (t_ticket (vtoc v))
      else capacity_bytes (tier_of v))"

definition ensure_mutation_allowed ::
  "'k ticket_env \<Rightarrow> 'z vault_scheme \<Rightarrow> 'z vault_scheme \<times> unit res" where
  "ensure_mutation_allowed env v =
     and_then (ensure_writable env v) (\<lambda>v _.
       if tk_issuer (t_ticket (vtoc v)) = lit ''free-tier'' then (v, Inr ())
       else (case tier_of v of
               Free \<Rightarrow> (v, Inr ())
             | t \<Rightarrow> if trim (tk_issuer (t_ticket (vtoc v))) = [] then (v, Inl (TicketRequired t))
                    else (v, Inr ())))"

section \<open>What the operations do to ticket and binding\<close>

lemma ensure_writable_toc:
  "ensure_writable env v = (v', r) \<Longrightarrow> vtoc v' = vtoc v"
  by (auto simp: ensure_writable_def split: if_splits sum.splits)

lemma prepare_ticket:
  "prepare_toc_bytes C t = (t', r) \<Longrightarrow> t_ticket t' = t_ticket t \<and> t_binding t' = t_binding t"
  by (auto simp: prepare_toc_bytes_def Let_def split: sum.splits)

lemma rewrite_toc:
  "rewrite_toc_footer C v = (v', r) \<Longrightarrow>
     t_ticket (vtoc v') = t_ticket (vtoc v) \<and> t_binding (vtoc v') = t_binding (vtoc v)"
  by (auto simp: rewrite_toc_footer_def Let_def split: prod.splits sum.splits dest: prepare_ticket)

lemma publish_toc_keeps:
  "publish_toc C v = (v', r) \<Longrightarrow>
     t_ticket (vtoc v') = t_ticket (vtoc v) \<and> t_binding (vtoc v') = t_binding (vtoc v)"
  by (cases "rewrite_toc_footer C v"; cases "snd (rewrite_toc_footer C v)")
    (auto simp: publish_toc_def persist_header_def dest: rewrite_toc split: prod.splits)

lemma store_ticket_toc:
  "store_ticket C r v = (v', res) \<Longrightarrow>
     t_ticket (vtoc v') = r \<and> t_binding (vtoc v') = t_binding (vtoc v)"
  by (auto simp: store_ticket_def dest: publish_toc_keeps)

lemma check_sequence_ok: "check_sequence a b = Inr () \<longleftrightarrow> sint a < sint b"
  by (auto simp: check_sequence_def)

lemma apply_ticket_cases:
  assumes "apply_ticket env C t v = (v', r)"
  shows "t_binding (vtoc v') = t_binding (vtoc v) \<and>
    (t_ticket (vtoc v') = t_ticket (vtoc v) \<or>
     (t_ticket (vtoc v') = take_ticket t False \<and> sint (tk_seq_no (t_ticket (vtoc v))) < sint (tn_seq_no t)))"
proof -
  obtain v1 r1 where w: "ensure_writable env v = (v1, r1)" by fastforce
  show ?thesis
    using assms w
    by (cases r1) (auto simp: apply_ticket_def check_sequence_def
        dest!: store_ticket_toc dest: ensure_writable_toc split: if_splits)
qed

text \<open>What an accepted signature is.\<close>

definition signed_for :: "'k ticket_env \<Rightarrow> uuid \<Rightarrow> ticket_ref \<Rightarrow> bool" where
  "signed_for env mid r \<longleftrightarrow> (\<exists>key cap sg m. ticket_pubkey env = Inr key \<and>
     tk_capacity r = (case cap of None \<Rightarrow> 0 | Some n \<Rightarrow> n) \<and>
     to_json env \<lparr>tp_version = 1, tp_memory_id = mid, tp_issuer = tk_issuer r, tp_seq_no = tk_seq_no r,
       tp_expires_in = tk_expires r, tp_capacity = cap\<rparr> = Some m \<and>
     length sg = 64 \<and> verify_strict env key m sg)"

lemma verified_signed:
  assumes "ticket_pubkey env = Inr key" "verify_ticket_signature env key mid (tn_issuer t) (tn_seq_no t)
      (tn_expires t) (tn_capacity t) sg = Inr ()"
  shows "signed_for env mid (take_ticket (ticket.truncate t) True)"
proof -
  obtain m where "to_json env \<lparr>tp_version = 1, tp_memory_id = mid, tp_issuer = tn_issuer t,
      tp_seq_no = tn_seq_no t, tp_expires_in = tn_expires t, tp_capacity = tn_capacity t\<rparr> = Some m"
    "length sg = 64" "verify_strict env key m sg"
    using assms(2)
    by (auto simp: verify_ticket_signature_def ticket_message_bytes_def to_signature_def
        SIGNING_SCHEMA_VERSION_def split: option.splits if_splits)
  with assms(1) show ?thesis
    unfolding signed_for_def
    by (intro exI [of _ key] exI [of _ "tn_capacity t"] exI [of _ sg] exI [of _ m])
      (simp add: take_ticket_def ticket.truncate_def)
qed

lemma apply_signed_cases:
  assumes "apply_signed_ticket env C t v = (v', r)"
  shows "t_binding (vtoc v') = t_binding (vtoc v) \<and>
    (t_ticket (vtoc v') = t_ticket (vtoc v) \<or>
     (t_ticket (vtoc v') = take_ticket (ticket.truncate t) True \<and>
      sint (tk_seq_no (t_ticket (vtoc v))) < sint (tn_seq_no t) \<and>
      (\<exists>b. t_binding (vtoc v) = Some b \<and>
         signed_for env (mb_memory_id b) (take_ticket (ticket.truncate t) True))))"
proof -
  obtain v1 r1 where w: "ensure_writable env v = (v1, r1)" by fastforce
  show ?thesis
  proof (cases r1)
    case (Inl e)
    with assms w show ?thesis by (auto simp: apply_signed_ticket_def dest: ensure_writable_toc)
  next
    case (Inr u)
    show ?thesis
    proof (cases "ticket_pubkey env")
      case (Inl e)
      with assms w Inr show ?thesis by (auto simp: apply_signed_ticket_def dest: ensure_writable_toc)
    next
      case (Inr key)
      with assms w \<open>r1 = Inr u\<close> show ?thesis
        by (auto simp: apply_signed_ticket_def check_sequence_def ensure_writable_toc [OF w]
            split: option.splits if_splits sum.splits dest!: store_ticket_toc
            dest: ensure_writable_toc intro: verified_signed)
    qed
  qed
qed

section \<open>Runs\<close>

text \<open>The operations on ticket and binding in any order, with any result; \<open>other\<close> stands for the
  operations of the handle that touch neither.\<close>

inductive ticket_step :: "'k ticket_env \<Rightarrow> toc_codec \<Rightarrow> vault \<Rightarrow> vault \<Rightarrow> bool"
  for env C where
  unsigned: "apply_ticket env C t v = (v', r) \<Longrightarrow> ticket_step env C v v'"
| signed_op: "apply_signed_ticket env C s v = (v', r) \<Longrightarrow> ticket_step env C v v'"
| bind_op: "bind_memory env C b t v = (v', r) \<Longrightarrow> ticket_step env C v v'"
| set_binding: "set_memory_binding_only env b v = (v', r) \<Longrightarrow> ticket_step env C v v'"
| unbind: "ticket_step env C v (unbind_memory v)"
| other: "t_ticket (vtoc v') = t_ticket (vtoc v) \<Longrightarrow> t_binding (vtoc v') = t_binding (vtoc v) \<Longrightarrow>
    ticket_step env C v v'"

inductive ticket_reachable :: "'k ticket_env \<Rightarrow> toc_codec \<Rightarrow> vault \<Rightarrow> bool" for env C where
  fresh: "t_ticket (vtoc v) = free_ticket \<Longrightarrow> ticket_reachable env C v"
| step: "ticket_reachable env C v \<Longrightarrow> ticket_step env C v v' \<Longrightarrow> ticket_reachable env C v'"

definition ticket_inv :: "'k ticket_env \<Rightarrow> vault \<Rightarrow> bool" where
  "ticket_inv env v \<longleftrightarrow> tk_verified (t_ticket (vtoc v)) \<longrightarrow>
     (\<exists>b. t_binding (vtoc v) = Some b \<and> signed_for env (mb_memory_id b) (t_ticket (vtoc v)))"

lemma store_binding_inv:
  assumes "ticket_inv env v" "bound_elsewhere v b = None"
  shows "ticket_inv env (store_binding b v)"
  using assms by (auto simp: ticket_inv_def bound_elsewhere_def store_binding_def split: option.splits if_splits)

lemma bind_inv:
  assumes inv: "ticket_inv env v" and b: "bind_memory env C b t v = (v', r)"
  shows "ticket_inv env v'"
proof (cases "bound_elsewhere v b")
  case (Some e)
  with b inv show ?thesis by (simp add: bind_memory_def)
next
  case None
  obtain v1 r1 where a: "apply_ticket env C t v = (v1, r1)" by fastforce
  from apply_ticket_cases [OF a] inv have "ticket_inv env v1" "bound_elsewhere v1 b = None"
    using None by (auto simp: ticket_inv_def take_ticket_def bound_elsewhere_def)
  with a b None show ?thesis
    by (cases r1) (auto simp: bind_memory_def store_binding_inv)
qed

lemma set_binding_inv:
  assumes inv: "ticket_inv env v" and b: "set_memory_binding_only env b v = (v', r)"
  shows "ticket_inv env v'"
proof -
  obtain v1 r1 where w: "ensure_writable env v = (v1, r1)" by fastforce
  with inv have "ticket_inv env v1" by (simp add: ticket_inv_def ensure_writable_toc [OF w])
  with b w show ?thesis
    by (cases r1) (auto simp: set_memory_binding_only_def store_binding_inv split: option.splits)
qed

lemma ticket_step_inv: "ticket_step env C v v' \<Longrightarrow> ticket_inv env v \<Longrightarrow> ticket_inv env v'"
proof (induction rule: ticket_step.induct)
  case (unsigned t v v' r)
  then show ?case using apply_ticket_cases [OF unsigned(1)] by (auto simp: ticket_inv_def take_ticket_def)
next
  case (signed_op s v v' r)
  then show ?case using apply_signed_cases [OF signed_op(1)] by (auto simp: ticket_inv_def)
next
  case (bind_op b t v v' r)
  then show ?case using bind_inv by blast
next
  case (set_binding b v v' r)
  then show ?case using set_binding_inv by blast
qed (simp_all add: ticket_inv_def unbind_memory_def free_ticket_def)

text \<open>An accepted signed ticket.\<close>

lemma signed_accepted:
  assumes "\<not> vread_only v" "ticket_pubkey env = Inr key" "t_binding (vtoc v) = Some b"
    "sg_memory_id t = mb_memory_id b"
    "verify_ticket_signature env key (sg_memory_id t) (tn_issuer t) (tn_seq_no t) (tn_expires t)
      (tn_capacity t) (sg_signature t) = Inr ()"
    "sint (tk_seq_no (t_ticket (vtoc v))) < sint (tn_seq_no t)"
  shows "\<exists>v' r. apply_signed_ticket env C t v = (v', r) \<and>
    t_ticket (vtoc v') = take_ticket (ticket.truncate t) True \<and> t_binding (vtoc v') = Some b"
proof -
  obtain v' r where s: "store_ticket C (take_ticket (ticket.truncate t) True) v = (v', r)" by fastforce
  with assms have "apply_signed_ticket env C t v = (v', r)"
    by (simp add: apply_signed_ticket_def ensure_writable_def check_sequence_ok [THEN iffD2])
  with store_ticket_toc [OF s] assms(3) show ?thesis by auto
qed

text \<open>Sample keys, signatures and tickets: a signature is the message, padded.\<close>

definition demo_env :: "unit ticket_env" where
  "demo_env = \<lparr>upgrade_lock = Inr (), ticket_pubkey = Inr (),
     to_json = (\<lambda>p. Some (to_le 8 (tp_seq_no p))),
     verify_strict = (\<lambda>_ m s. s = m @ replicate 56 0)\<rparr>"

definition demo_binding :: memory_binding where
  "demo_binding = \<lparr>mb_memory_id = 7, mb_memory_name = [], mb_bound_at = 0, mb_api_url = []\<rparr>"

definition demo_signed :: signed_ticket where
  "demo_signed = new_signed (lit ''memvid.com'') 5 0 (Some 9) 7 (to_le 8 (5 :: i64) @ replicate 56 0)"

lemma demo_signed_ok:
  "sg_memory_id demo_signed = mb_memory_id demo_binding" "tn_seq_no demo_signed = 5"
  "verify_ticket_signature demo_env () (sg_memory_id demo_signed) (tn_issuer demo_signed)
     (tn_seq_no demo_signed) (tn_expires demo_signed) (tn_capacity demo_signed)
     (sg_signature demo_signed) = Inr ()"
  by (simp_all add: demo_signed_def demo_binding_def new_signed_def verify_ticket_signature_def
      ticket_message_bytes_def to_signature_def demo_env_def)

lemma demo_vault_fields: "\<not> vread_only demo_vault" "t_ticket (vtoc demo_vault) = free_ticket"
  "tk_seq_no free_ticket = 1" "ticket_pubkey demo_env = Inr ()"
  by (simp_all add: demo_vault_def empty_toc_def free_ticket_def demo_env_def)

section \<open>Properties\<close>

text \<open>C12. Capacity is never marked as verified without a signature: in every state reachable by
  applying tickets, signed or not, binding and unbinding in any order, with any outcome, a ticket
  marked as verified was signed with the embedded key, with exactly its issuer, sequence number,
  expiry and capacity, for the memory the file is bound to.\<close>

theorem verified_only_signed:
  assumes "ticket_reachable env C v" "tk_verified (t_ticket (vtoc v))"
  shows "\<exists>b key cap sg m. t_binding (vtoc v) = Some b \<and> ticket_pubkey env = Inr key \<and>
    tk_capacity (t_ticket (vtoc v)) = (case cap of None \<Rightarrow> 0 | Some n \<Rightarrow> n) \<and>
    to_json env \<lparr>tp_version = 1, tp_memory_id = mb_memory_id b,
      tp_issuer = tk_issuer (t_ticket (vtoc v)), tp_seq_no = tk_seq_no (t_ticket (vtoc v)),
      tp_expires_in = tk_expires (t_ticket (vtoc v)), tp_capacity = cap\<rparr> = Some m \<and>
    length sg = 64 \<and> verify_strict env key m sg"
proof -
  have "ticket_inv env v"
    using assms(1)
  proof induction
    case (fresh v)
    then show ?case by (simp add: ticket_inv_def free_ticket_def)
  next
    case (step v v')
    then show ?case by (blast intro: ticket_step_inv)
  qed
  with assms(2) show ?thesis by (auto simp: ticket_inv_def signed_for_def)
qed

theorem verified_only_signed_witness:
  "\<exists>v. ticket_reachable demo_env toy_codec v \<and> tk_capacity (t_ticket (vtoc v)) = 9 \<and>
     (\<exists>b. t_binding (vtoc v) = Some b)"
proof -
  let ?v = "store_binding demo_binding demo_vault"
  have v: "\<not> vread_only ?v" "t_binding (vtoc ?v) = Some demo_binding" "t_ticket (vtoc ?v) = free_ticket"
    using demo_vault_fields by (simp_all add: store_binding_def)
  have "bound_elsewhere demo_vault demo_binding = None"
    by (simp add: bound_elsewhere_def demo_vault_def empty_toc_def)
  then have s: "set_memory_binding_only demo_env demo_binding demo_vault = (?v, Inr ())"
    using demo_vault_fields(1) by (simp add: set_memory_binding_only_def ensure_writable_def)
  obtain v' r where v': "apply_signed_ticket demo_env toy_codec demo_signed ?v = (v', r)"
    "t_ticket (vtoc v') = take_ticket (ticket.truncate demo_signed) True"
    using signed_accepted [OF v(1) demo_vault_fields(4) v(2) demo_signed_ok(1,3), where C = toy_codec] v(3)
      demo_signed_ok(2) demo_vault_fields(3) by auto
  have "ticket_reachable demo_env toy_codec v'"
    by (rule ticket_reachable.step [OF ticket_reachable.step
        [OF ticket_reachable.fresh [OF demo_vault_fields(2)] ticket_step.set_binding [OF s]]
        ticket_step.signed_op [OF v'(1)]])
  moreover have "tk_verified (t_ticket (vtoc v'))" "tk_capacity (t_ticket (vtoc v')) = 9"
    using v'(2) by (simp_all add: take_ticket_def ticket.truncate_def demo_signed_def new_signed_def)
  ultimately show ?thesis using verified_only_signed [of demo_env toy_codec v'] by blast
qed

text \<open>The replay protection ends with an unbind: whatever ticket the memory holds, after
  \<open>unbind_memory\<close> and binding the same memory again every signed ticket for it with a sequence
  number above 1 is accepted once more, also one that a later ticket had replaced.\<close>

theorem unbind_allows_replay:
  assumes "\<not> vread_only v" "ticket_pubkey env = Inr key" "sg_memory_id t = mb_memory_id b"
    and "verify_ticket_signature env key (sg_memory_id t) (tn_issuer t) (tn_seq_no t) (tn_expires t)
      (tn_capacity t) (sg_signature t) = Inr ()"
    and "1 < sint (tn_seq_no t)"
  shows "\<exists>v2 v3 r. set_memory_binding_only env b (unbind_memory v) = (v2, Inr ()) \<and>
    apply_signed_ticket env C t v2 = (v3, r) \<and>
    t_ticket (vtoc v3) = take_ticket (ticket.truncate t) True"
proof -
  let ?v2 = "store_binding b (unbind_memory v)"
  have u: "\<not> vread_only (unbind_memory v)" "bound_elsewhere (unbind_memory v) b = None"
    using assms(1) by (simp_all add: unbind_memory_def bound_elsewhere_def)
  have v2: "\<not> vread_only ?v2" "t_binding (vtoc ?v2) = Some b" "tk_seq_no (t_ticket (vtoc ?v2)) = 1"
    using assms(1) by (simp_all add: store_binding_def unbind_memory_def free_ticket_def)
  have "set_memory_binding_only env b (unbind_memory v) = (?v2, Inr ())"
    using u by (simp add: set_memory_binding_only_def ensure_writable_def)
  with signed_accepted [OF v2(1) assms(2) v2(2) assms(3,4), where C = C] v2(3) assms(5) show ?thesis
    by auto
qed

theorem unbind_allows_replay_witness:
  "\<exists>v2 v3 r. set_memory_binding_only demo_env demo_binding (unbind_memory
       (demo_vault\<lparr>vtoc := empty_toc\<lparr>t_ticket := free_ticket\<lparr>tk_seq_no := 9\<rparr>\<rparr>\<rparr>)) = (v2, Inr ()) \<and>
     apply_signed_ticket demo_env toy_codec demo_signed v2 = (v3, r) \<and>
     tk_seq_no (t_ticket (vtoc v3)) = 5"
proof -
  let ?v = "demo_vault\<lparr>vtoc := empty_toc\<lparr>t_ticket := free_ticket\<lparr>tk_seq_no := 9\<rparr>\<rparr>\<rparr>"
  have "\<not> vread_only ?v" "1 < sint (tn_seq_no demo_signed)"
    using demo_vault_fields(1) demo_signed_ok(2) by simp_all
  from unbind_allows_replay [OF this(1) demo_vault_fields(4) demo_signed_ok(1,3) this(2), of toy_codec]
  show ?thesis by (auto simp: take_ticket_def ticket.truncate_def demo_signed_ok(2))
qed

end
