(* ===== verification/Wal_Growth.thy ===== *)
theory Wal_Growth
  imports Tickets Frames
begin

text \<open>
  Growing the embedded log (\<open>memvid/mutation.rs\<close>): all data behind the log region is moved up,
  the offsets of the table of contents follow, and the log is reopened on the larger region.
  \<open>append_wal_entry\<close> grows until the entry fits; \<open>begin_batch\<close> grows ahead of a batch.

  The shift copies from the end of the file in blocks of \<open>WAL_SHIFT_BUFFER_SIZE\<close> bytes.  The
  doubling of the region and the retry of an append are loops without a bound: partial functions,
  for which returning is proved.
\<close>

definition WAL_ENTRY_HEADER_SIZE :: u64 where "WAL_ENTRY_HEADER_SIZE = 48"
definition WAL_SHIFT_BUFFER_SIZE :: nat where "WAL_SHIFT_BUFFER_SIZE = 8 * 1024 * 1024"

section \<open>Moving the data\<close>

function shift_loop :: "nat \<Rightarrow> nat \<Rightarrow> nat \<Rightarrow> bytes \<Rightarrow> bytes res" where
  "shift_loop data_start delta remaining f =
     (if remaining = 0 then Inr f
      else
        (let chunk = min remaining WAL_SHIFT_BUFFER_SIZE;
             src = data_start + remaining - chunk in
         case read_exact f src chunk of Inl e \<Rightarrow> Inl e
         | Inr buffer \<Rightarrow> shift_loop data_start delta (remaining - chunk) (write_at f (src + delta) buffer)))"
  by pat_completeness auto
termination shift_loop
  by (relation "measure (\<lambda>(ds, d, r, f). r)") (auto simp: WAL_SHIFT_BUFFER_SIZE_def)

declare shift_loop.simps [simp del]

function zero_loop :: "nat \<Rightarrow> nat \<Rightarrow> bytes \<Rightarrow> bytes" where
  "zero_loop pos remaining f =
     (if remaining = 0 then f
      else (let write = min remaining WAL_SHIFT_BUFFER_SIZE in
            zero_loop (pos + write) (remaining - write) (write_at f pos (replicate write 0))))"
  by pat_completeness auto
termination zero_loop
  by (relation "measure (\<lambda>(p, r, f). r)") (auto simp: WAL_SHIFT_BUFFER_SIZE_def)

declare zero_loop.simps [simp del]

definition shift_data_for_wal_growth :: "u64 \<Rightarrow> 'z vault_scheme \<Rightarrow> 'z vault_scheme \<times> unit res" where
  "shift_data_for_wal_growth delta v =
     (if delta = 0 then (v, Inr ())
      else
        (let original_len = length (vfile v);
             data_start = unat (wal_offset (vheader v) + wal_size (vheader v));
             f1 = set_len (vfile v) (original_len + unat delta) in
         case shift_loop data_start (unat delta) (original_len - data_start) f1 of
           Inl e \<Rightarrow> (v\<lparr>vfile := f1\<rparr>, Inl e)
         | Inr f2 \<Rightarrow> (v\<lparr>vfile := zero_loop data_start (unat delta) f2\<rparr>, Inr ())))"

section \<open>Moving the offsets\<close>

definition moved_common :: "u64 \<Rightarrow> segment_common \<Rightarrow> segment_common" where
  "moved_common delta c = c\<lparr>c_offset := moved delta (c_offset c)\<rparr>"

definition adjust_catalog :: "u64 \<Rightarrow> segment_catalog \<Rightarrow> segment_catalog" where
  "adjust_catalog delta cat = cat
     \<lparr>lex_segs := map (\<lambda>s. s\<lparr>ls_common := moved_common delta (ls_common s)\<rparr>) (lex_segs cat),
      vec_segs := map (\<lambda>s. s\<lparr>vs_common := moved_common delta (vs_common s)\<rparr>) (vec_segs cat),
      time_segs := map (\<lambda>s. s\<lparr>ts_common := moved_common delta (ts_common s)\<rparr>) (time_segs cat),
      tantivy_segs := map (\<lambda>s. s\<lparr>tv_common := moved_common delta (tv_common s)\<rparr>) (tantivy_segs cat)\<rparr>"

definition adjust_indexes :: "u64 \<Rightarrow> index_manifests \<Rightarrow> index_manifests" where
  "adjust_indexes delta ix = ix
     \<lparr>im_lex := map_option (\<lambda>m. m\<lparr>lx_offset := moved delta (lx_offset m)\<rparr>) (im_lex ix),
      im_lex_segments := map (\<lambda>m. m\<lparr>lsm_offset := moved delta (lsm_offset m)\<rparr>) (im_lex_segments ix),
      im_vec := map_option (\<lambda>m. m\<lparr>vx_offset := moved delta (vx_offset m)\<rparr>) (im_vec ix)\<rparr>"

definition moved_frame :: "u64 \<Rightarrow> frame \<Rightarrow> frame" where
  "moved_frame delta f = f\<lparr>payload_offset := moved delta (payload_offset f)\<rparr>"

definition adjust_toc :: "u64 \<Rightarrow> toc \<Rightarrow> toc" where
  "adjust_toc delta t = t
     \<lparr>t_frames := map (moved_frame delta) (t_frames t),
      t_segments := map (\<lambda>s. s\<lparr>sm_offset := moved delta (sm_offset s)\<rparr>) (t_segments t),
      t_indexes := adjust_indexes delta (t_indexes t),
      t_time := map_option (\<lambda>m. m\<lparr>ti_offset := moved delta (ti_offset m)\<rparr>) (t_time t),
      t_catalog := adjust_catalog delta (t_catalog t)\<rparr>"

definition adjust_offsets_after_wal_growth :: "u64 \<Rightarrow> 'z vault_scheme \<Rightarrow> 'z vault_scheme" where
  "adjust_offsets_after_wal_growth delta v =
     (if delta = 0 then v
      else v\<lparr>vtoc := adjust_toc delta (vtoc v), vlex := storage_adjust_offsets delta (vlex v)\<rparr>)"

section \<open>Growing\<close>

text \<open>What \<open>grow_wal_region\<close> and \<open>ensure_wal_capacity\<close> share: shift, adjust, publish the table of
  contents, reopen the log.\<close>

definition moved_header :: "u64 \<Rightarrow> u64 \<Rightarrow> 'z vault_scheme \<Rightarrow> 'z vault_scheme" where
  "moved_header new_size delta v =
     (let v = v\<lparr>vheader := (vheader v)\<lparr>wal_size := new_size,
                  footer_offset := saturating_add (footer_offset (vheader v)) delta\<rparr>,
                vdata_end := saturating_add (vdata_end v) delta\<rparr>;
          v = adjust_offsets_after_wal_growth delta v;
          catalog_end = catalog_data_end v
      in v\<lparr>vheader := (vheader v)\<lparr>footer_offset :=
             max (max catalog_end (footer_offset (vheader v))) (vdata_end v)\<rparr>\<rparr>)"

definition resize_wal ::
  "toc_codec \<Rightarrow> u64 \<Rightarrow> u64 \<Rightarrow> 'z vault_scheme \<Rightarrow> 'z vault_scheme \<times> unit res" where
  "resize_wal C new_size delta v =
     and_then (shift_data_for_wal_growth delta v) (\<lambda>v _.
     and_then (publish_toc C (moved_header new_size delta v)) (\<lambda>v _.
       case wal_open (blake C) (vfile v) (vheader v) of
         Inl e \<Rightarrow> (v, Inl e)
       | Inr w \<Rightarrow> (put_wal w v, Inr ())))"

partial_function (option) grow_size :: "u64 \<Rightarrow> u64 \<Rightarrow> u64 res option" where
  "grow_size new_size target =
     (if new_size \<le> target then
        (if unat new_size * 2 < 2 ^ 64 then grow_size (new_size * 2) target
         else Some (Inl (CheckpointFailed ''wal_size overflow'')))
      else Some (Inr new_size))"

definition grow_wal_region ::
  "toc_codec \<Rightarrow> u64 \<Rightarrow> 'z vault_scheme \<Rightarrow> ('z vault_scheme \<times> unit res) option" where
  "grow_wal_region C required v =
     (let target = (if required = 0 then wal_size (vheader v) else required) in
      case grow_size (wal_size (vheader v)) target of
        None \<Rightarrow> None
      | Some (Inl e) \<Rightarrow> Some (v, Inl e)
      | Some (Inr new_size) \<Rightarrow>
          (let delta = new_size - wal_size (vheader v) in
           if delta = 0 then Some (v, Inr ()) else Some (resize_wal C new_size delta v)))"

definition full_error :: "mv_error \<Rightarrow> bool" where
  "full_error e \<longleftrightarrow> e = CheckpointFailed ''embedded WAL region too small for entry'' \<or>
     e = CheckpointFailed ''embedded WAL region full''"

partial_function (option) append_wal_entry ::
  "toc_codec \<Rightarrow> bytes \<Rightarrow> vault \<Rightarrow> (vault \<times> u64 res) option" where
  "append_wal_entry C payload v =
     (case append_entry (blake C) (the_wal v) payload of
        Inr (w, sq) \<Rightarrow> Some (put_wal w v, Inr sq)
      | Inl e \<Rightarrow>
          if full_error e then
            (let required = max (saturating_add WAL_ENTRY_HEADER_SIZE (of_nat (length payload)))
                              (wal_size (vheader v) + 1) in
             Option.bind (grow_wal_region C required v) (\<lambda>p. case p of
               (v', Inl e') \<Rightarrow> Some (v', Inl e')
             | (v', Inr _) \<Rightarrow> append_wal_entry C payload v'))
          else Some (v, Inl e))"

definition next_power_of_two :: "u64 \<Rightarrow> u64" where
  "next_power_of_two n = of_nat (2 ^ length (takeWhile (\<lambda>k. 2 ^ k < unat n) [0 ..< 64]))"

definition ensure_wal_capacity :: "toc_codec \<Rightarrow> u64 \<Rightarrow> 'z vault_scheme \<Rightarrow> 'z vault_scheme \<times> unit res" where
  "ensure_wal_capacity C min_bytes v =
     (if min_bytes \<le> wal_size (vheader v) then (v, Inr ())
      else
        (let target = next_power_of_two min_bytes;
             delta = (if wal_size (vheader v) \<le> target then target - wal_size (vheader v) else 0) in
         if delta = 0 then (v, Inr ()) else resize_wal C target delta v))"

definition begin_batch :: "toc_codec \<Rightarrow> put_many_opts \<Rightarrow> 'z vault_scheme \<Rightarrow> 'z vault_scheme \<times> unit res" where
  "begin_batch C opts v =
     and_then (if 0 < pm_wal_pre_size_bytes opts
               then ensure_wal_capacity C (pm_wal_pre_size_bytes opts) v else (v, Inr ())) (\<lambda>v _.
       (v\<lparr>vwal := set_skip_sync (vwal v) (pm_skip_sync opts), vbatch := Some opts\<rparr>, Inr ()))"

definition end_batch :: "'z vault_scheme \<Rightarrow> 'z vault_scheme \<times> unit res" where
  "end_batch v = (v\<lparr>vwal := set_skip_sync (vwal v) False, vbatch := None\<rparr>, Inr ())"

section \<open>The shift\<close>

lemma block_step:
  assumes "c \<le> r" "ds + r \<le> length f" "length g = length f + d"
    and head: "take (ds + r) g = take (ds + r) f" and tail: "drop (ds + r + d) g = drop (ds + r) f"
  defines "src \<equiv> ds + r - c"
  shows "read_exact g src c = Inr (bslice f src c)"
    "length (write_at g (src + d) (bslice f src c)) = length f + d"
    "take src (write_at g (src + d) (bslice f src c)) = take src f"
    "drop (src + d) (write_at g (src + d) (bslice f src c)) = drop src f"
proof -
  have src: "src + c = ds + r" "src + c \<le> length f" using assms by (simp_all add: src_def)
  have b: "bslice g src c = bslice f src c"
    using head slice_take [of src c "ds + r" g] slice_take [of src c "ds + r" f] src by simp
  then show "read_exact g src c = Inr (bslice f src c)"
    using src assms(3) by simp
  show "length (write_at g (src + d) (bslice f src c)) = length f + d"
    using src assms(3) by simp
  have w: "write_at g (src + d) (bslice f src c) =
      take (src + d) g @ bslice f src c @ drop (src + d + c) g"
    using src assms(3) by (simp add: put_slice_def)
  have "take src g = take src f"
    using head src by (metis le_add1 min.absorb_iff1 take_take)
  then show "take src (write_at g (src + d) (bslice f src c)) = take src f"
    unfolding w using src assms(3) by (simp add: min_def)
  have "src + d + c = ds + r + d" using src by simp
  with tail have "drop (src + d + c) g = drop (src + c) f" by (simp only: src(1))
  then show "drop (src + d) (write_at g (src + d) (bslice f src c)) = drop src f"
    unfolding w using src assms(3) by (simp add: bslice_def add.commute [of src c] flip: drop_drop)
qed

lemma shift_loop_spec:
  assumes "ds + r \<le> length f" "length g = length f + d"
    "take (ds + r) g = take (ds + r) f" "drop (ds + r + d) g = drop (ds + r) f"
  shows "\<exists>g'. shift_loop ds d r g = Inr g' \<and> length g' = length f + d \<and>
    take ds g' = take ds f \<and> drop (ds + d) g' = drop ds f"
  using assms
proof (induction r arbitrary: g rule: less_induct)
  case (less r)
  show ?case
  proof (cases "r = 0")
    case True
    with less.prems show ?thesis by (simp add: shift_loop.simps)
  next
    case False
    define c where "c = min r WAL_SHIFT_BUFFER_SIZE"
    have c: "c \<le> r" "0 < c" using False by (simp_all add: c_def WAL_SHIFT_BUFFER_SIZE_def)
    note st = block_step [OF c(1) less.prems]
    let ?g = "write_at g (ds + r - c + d) (bslice f (ds + r - c) c)"
    have e: "ds + (r - c) = ds + r - c" using c by simp
    have "\<exists>g'. shift_loop ds d (r - c) ?g = Inr g' \<and> length g' = length f + d \<and>
        take ds g' = take ds f \<and> drop (ds + d) g' = drop ds f"
    proof (rule less.IH)
      show "r - c < r" "ds + (r - c) \<le> length f" using c less.prems(1) by simp_all
      show "length ?g = length f + d" by (rule st(2))
      show "take (ds + (r - c)) ?g = take (ds + (r - c)) f" unfolding e by (rule st(3))
      show "drop (ds + (r - c) + d) ?g = drop (ds + (r - c)) f" unfolding e by (rule st(4))
    qed
    moreover have "shift_loop ds d r g = shift_loop ds d (r - c) ?g"
      using False st(1) by (simp add: shift_loop.simps [of ds d r g] c_def [symmetric] Let_def)
    ultimately show ?thesis by simp
  qed
qed

lemma zero_loop_write: "pos \<le> length f \<Longrightarrow> zero_loop pos r f = write_at f pos (replicate r 0)"
proof (induction r arbitrary: pos f rule: less_induct)
  case (less r)
  define c where "c = min r WAL_SHIFT_BUFFER_SIZE"
  show ?case
  proof (cases "r = 0")
    case True
    then show ?thesis by (simp add: zero_loop.simps write_at_def)
  next
    case False
    then have c: "0 < c" "c \<le> r" by (simp_all add: c_def WAL_SHIFT_BUFFER_SIZE_def)
    have "zero_loop pos r f = zero_loop (pos + c) (r - c) (write_at f pos (replicate c 0))"
      using False by (simp add: zero_loop.simps [of pos r f] c_def Let_def)
    also have "\<dots> = write_at (write_at f pos (replicate c 0)) (pos + c) (replicate (r - c) 0)"
      using c less.prems by (intro less.IH) (simp_all add: length_write_at)
    also have "\<dots> = write_at f pos (replicate c 0 @ replicate (r - c) 0)"
      using write_at_twice [OF less.prems, of "replicate c 0"] by simp
    also have "replicate c 0 @ replicate (r - c) 0 = (replicate r 0 :: bytes)"
      using c by (simp flip: replicate_add)
    finally show ?thesis .
  qed
qed

text \<open>The data region moves as a block and leaves zeros behind.\<close>

definition spread :: "nat \<Rightarrow> nat \<Rightarrow> bytes \<Rightarrow> bytes" where
  "spread ds d f = take ds f @ replicate d 0 @ drop ds f"

lemma shift_spread:
  assumes "unat (wal_offset (vheader v) + wal_size (vheader v)) \<le> length (vfile v)"
  shows "shift_data_for_wal_growth delta v =
    (v\<lparr>vfile := spread (unat (wal_offset (vheader v) + wal_size (vheader v))) (unat delta) (vfile v)\<rparr>, Inr ())"
proof (cases "delta = 0")
  case True
  then show ?thesis by (simp add: shift_data_for_wal_growth_def spread_def)
next
  case False
  let ?f = "vfile v" and ?ds = "unat (wal_offset (vheader v) + wal_size (vheader v))" and ?d = "unat delta"
  let ?f1 = "set_len ?f (length ?f + ?d)"
  obtain g where g: "shift_loop ?ds ?d (length ?f - ?ds) ?f1 = Inr g" "length g = length ?f + ?d"
    "take ?ds g = take ?ds ?f" "drop (?ds + ?d) g = drop ?ds ?f"
    using shift_loop_spec [of ?ds "length ?f - ?ds" ?f ?f1 ?d] assms by (auto simp: set_len_def)
  have "zero_loop ?ds ?d g = spread ?ds ?d ?f"
    using g assms by (simp add: zero_loop_write put_slice_def spread_def)
  then show ?thesis
    using False g(1) by (simp add: shift_data_for_wal_growth_def Let_def)
qed

lemma length_spread: "length (spread ds d f) = length f + d"
  by (simp add: spread_def)

lemma slice_spread_above:
  "ds \<le> off \<Longrightarrow> ds \<le> length f \<Longrightarrow> bslice (spread ds d f) (off + d) n = bslice f off n"
  by (simp add: spread_def bslice_def add.commute)

lemma slice_spread_gap:
  "ds \<le> off \<Longrightarrow> off + n \<le> ds + d \<Longrightarrow> ds \<le> length f \<Longrightarrow> bslice (spread ds d f) off n = replicate n 0"
  by (simp add: spread_def bslice_def min_def)

lemma take_spread: "n \<le> ds \<Longrightarrow> ds \<le> length f \<Longrightarrow> take n (spread ds d f) = take n f"
  by (simp add: spread_def min_def)

section \<open>What publishing keeps\<close>

lemma grown_ge: "m \<le> grown off len m"
  by (simp add: grown_def)

lemma fold_grown_ge: "(m :: u64) \<le> fold (\<lambda>s. grown_common (g s)) xs m"
  by (induction xs arbitrary: m) (auto simp: grown_common_def intro: order_trans [OF grown_ge])

lemma option_grown_ge: "(m :: u64) \<le> (case x of None \<Rightarrow> m | Some y \<Rightarrow> grown (f y) (g y) m)"
  by (cases x) (auto simp: grown_ge)

lemma catalog_end_ge: "wal_offset (vheader v) + wal_size (vheader v) \<le> catalog_data_end v"
  unfolding catalog_data_end_def Let_def
  by (intro order_trans [OF _ option_grown_ge] order_trans [OF _ fold_grown_ge]) simp

lemma persist_ok:
  assumes "persist_header v = (v', Inr ())" "header_typed (vheader v)"
  shows "header_valid (vheader v)" "v' = v\<lparr>vfile := vfile v'\<rparr>"
    "drop HEADER_SIZE (vfile v') = drop HEADER_SIZE (vfile v)"
    "HEADER_SIZE \<le> length (vfile v')"
proof -
  from assms(1) obtain bs where "encode (vheader v) = Inr bs"
    by (cases "encode (vheader v)") (auto simp: persist_header_def write_header_def)
  then show valid: "header_valid (vheader v)" using encode_ok_iff by blast
  have e: "encode (vheader v) = Inr (header_layout (vheader v))"
    by (rule encode_layout [OF assms(2) valid])
  then have v': "v' = v\<lparr>vfile := write_at (vfile v) 0 (header_layout (vheader v))\<rparr>"
    using assms(1) by (simp add: persist_header_def write_header_def)
  then show "v' = v\<lparr>vfile := vfile v'\<rparr>" "drop HEADER_SIZE (vfile v') = drop HEADER_SIZE (vfile v)"
    "HEADER_SIZE \<le> length (vfile v')"
    using assms(2) by (simp_all add: write_at_mid length_header_layout)
qed

lemma publish_ok:
  assumes p: "publish_toc C v = (v', Inr ())" and C: "codec_ok C" and h: "header_typed (vheader v)"
    and off: "unat (wal_offset (vheader v)) + unat (wal_size (vheader v))
      \<le> unat (footer_offset (vheader v))"
  obtains b t where "prepare_toc_bytes C (vtoc v) = (t, Inr b)"
    "v' = v\<lparr>vtoc := t, vheader := (vheader v)\<lparr>toc_checksum := t_checksum t\<rparr>, vfile := vfile v'\<rparr>"
    "drop HEADER_SIZE (vfile v') = drop HEADER_SIZE (with_footer C
       (set_len (vfile v) (unat (footer_offset (vheader v)))) b (vgeneration v))"
    "header_valid (vheader v')" "header_typed (vheader v')" "HEADER_SIZE \<le> length (vfile v')"
proof -
  from p obtain v1 where r: "rewrite_toc_footer C v = (v1, Inr ())"
    and ph: "persist_header (v1\<lparr>vheader := (vheader v1)\<lparr>toc_checksum := t_checksum (vtoc v1)\<rparr>\<rparr>) = (v', Inr ())"
    by (auto simp: publish_toc_def and_then_Inr)
  obtain b where b: "prepare_toc_bytes C (vtoc v) = (vtoc v1, Inr b)"
    "vfile v1 = with_footer C (set_len (vfile v) (unat (footer_offset (vheader v)))) b (vgeneration v)"
    "v1 = v\<lparr>vtoc := vtoc v1, vfile := vfile v1\<rparr>"
    by (rule rewrite_committed [OF r C off])
  have hd: "vheader v1 = vheader v" by (subst b(3)) simp
  have "length (t_checksum (vtoc v1)) = 32" using prepare_ok(4) [OF b(1)] C by (simp add: codec_ok_def)
  then have t: "header_typed ((vheader v)\<lparr>toc_checksum := t_checksum (vtoc v1)\<rparr>)"
    using h by (simp add: header_typed_def)
  note po = persist_ok [OF ph, simplified, unfolded hd, OF t]
  have v': "v' = v\<lparr>vtoc := vtoc v1, vheader := (vheader v)\<lparr>toc_checksum := t_checksum (vtoc v1)\<rparr>,
      vfile := vfile v'\<rparr>"
    by (subst po(2), subst b(3)) simp
  show thesis
  proof (rule that [OF b(1) v'])
    show "drop HEADER_SIZE (vfile v') = drop HEADER_SIZE (with_footer C
       (set_len (vfile v) (unat (footer_offset (vheader v)))) b (vgeneration v))"
      using po(3) b(2) by simp
    show "header_valid (vheader v')" "header_typed (vheader v')"
      using po(1) t by (subst v', simp)+
  qed (rule po(4))
qed

lemma slice_of_drop: "drop m f = drop m g \<Longrightarrow> m \<le> i \<Longrightarrow> bslice f i n = bslice g i n"
  by (metis bslice_def drop_drop le_add_diff_inverse2)

lemma slice_set_len: "i + n \<le> off \<Longrightarrow> i + n \<le> length f \<Longrightarrow> bslice (set_len f off @ x) i n = bslice f i n"
  by (simp add: set_len_def slice_append_left slice_take)

text \<open>The fields after the offsets have moved.\<close>

lemma moved_header_fields:
  fixes v :: "'z vault_scheme"
  defines "h \<equiv> vheader v" and "m k d \<equiv> moved_header k d v"
  shows "wal_offset (vheader (m k d)) = wal_offset h" "wal_size (vheader (m k d)) = k"
    "wal_sequence (vheader (m k d)) = wal_sequence h"
    "wal_checkpoint_pos (vheader (m k d)) = wal_checkpoint_pos h"
    "header_typed (vheader (m k d)) = header_typed h" "vfile (m k d) = vfile v"
    "vwal (m k d) = vwal v" "vpayload_end (m k d) = vpayload_end v" "vgeneration (m k d) = vgeneration v"
    "vdata_end (m k d) = saturating_add (vdata_end v) d"
    "t_frames (vtoc (m k d)) = map (moved_frame d) (t_frames (vtoc v))"
    "t_memories (vtoc (m k d)) = t_memories (vtoc v)"
    "wal_offset h + k \<le> footer_offset (vheader (m k d))"
    "saturating_add (vdata_end v) d \<le> footer_offset (vheader (m k d))"
proof -
  have id: "moved_frame 0 = id" by (simp add: moved_frame_def moved_def fun_eq_iff)
  show "wal_offset (vheader (m k d)) = wal_offset h" "wal_size (vheader (m k d)) = k"
    "wal_sequence (vheader (m k d)) = wal_sequence h"
    "wal_checkpoint_pos (vheader (m k d)) = wal_checkpoint_pos h"
    "header_typed (vheader (m k d)) = header_typed h" "vfile (m k d) = vfile v"
    "vwal (m k d) = vwal v" "vpayload_end (m k d) = vpayload_end v" "vgeneration (m k d) = vgeneration v"
    "vdata_end (m k d) = saturating_add (vdata_end v) d"
    "t_frames (vtoc (m k d)) = map (moved_frame d) (t_frames (vtoc v))"
    "t_memories (vtoc (m k d)) = t_memories (vtoc v)"
    "saturating_add (vdata_end v) d \<le> footer_offset (vheader (m k d))"
    by (simp_all add: m_def h_def moved_header_def Let_def adjust_offsets_after_wal_growth_def
        header_typed_def adjust_toc_def id)
  show "wal_offset h + k \<le> footer_offset (vheader (m k d))"
    unfolding m_def h_def moved_header_def Let_def
    using catalog_end_ge [of "adjust_offsets_after_wal_growth d
        (v\<lparr>vheader := vheader v\<lparr>wal_size := k, footer_offset := saturating_add (footer_offset (vheader v)) d\<rparr>,
           vdata_end := saturating_add (vdata_end v) d\<rparr>)"]
    by (simp add: adjust_offsets_after_wal_growth_def max.coboundedI1 split: if_splits)
qed

lemma reopened:
  "(case w of Inl e \<Rightarrow> (v, Inl e) | Inr w \<Rightarrow> (put_wal w v, Inr ())) = (v', Inr ()) \<longleftrightarrow>
     (\<exists>x. w = Inr x \<and> v' = put_wal x v)"
  by (cases w) auto

text \<open>A handle whose header describes the log it holds and whose file contains the region.\<close>

definition data_start :: "'z vault_scheme \<Rightarrow> nat" where
  "data_start v = unat (wal_offset (vheader v)) + unat (wal_size (vheader v))"

definition vault_ok :: "'z vault_scheme \<Rightarrow> bool" where
  "vault_ok v \<longleftrightarrow> header_typed (vheader v) \<and> HEADER_SIZE \<le> unat (wal_offset (vheader v)) \<and>
     region_offset (vwal v) = unat (wal_offset (vheader v)) \<and>
     region_size (vwal v) = unat (wal_size (vheader v)) \<and> data_start v \<le> length (vfile v)"

text \<open>The size asked for, without overflow.\<close>

definition growth_fits :: "u64 \<Rightarrow> u64 \<Rightarrow> 'z vault_scheme \<Rightarrow> bool" where
  "growth_fits k d v \<longleftrightarrow> unat k = unat (wal_size (vheader v)) + unat d \<and>
     length (vfile v) + unat d < 2 ^ 64"

text \<open>The file before the log is reopened.\<close>

definition published :: "toc_codec \<Rightarrow> u64 \<Rightarrow> 'z vault_scheme \<Rightarrow> 'z vault_scheme \<Rightarrow> bool" where
  "published C d v v2 \<longleftrightarrow>
     (\<forall>i n. HEADER_SIZE \<le> i \<longrightarrow> i + n \<le> unat (footer_offset (vheader v2)) \<longrightarrow>
        i + n \<le> length (vfile v) + unat d \<longrightarrow>
        bslice (vfile v2) i n = bslice (spread (data_start v) (unat d) (vfile v)) i n) \<and>
     unat (footer_offset (vheader v2)) \<le> length (vfile v2)"

lemma resize_unfold:
  assumes "vault_ok v" "growth_fits k d v"
  shows "resize_wal C k d v =
    and_then (publish_toc C (moved_header k d (v\<lparr>vfile := spread (data_start v) (unat d) (vfile v)\<rparr>)))
      (\<lambda>v _. case wal_open (blake C) (vfile v) (vheader v) of
         Inl e \<Rightarrow> (v, Inl e) | Inr w \<Rightarrow> (put_wal w v, Inr ()))"
proof -
  have "unat (wal_offset (vheader v) + wal_size (vheader v)) = data_start v"
    using assms by (simp add: vault_ok_def growth_fits_def data_start_def unat_plus_if')
  then show ?thesis
    using shift_spread [of v d] assms(1) by (simp add: resize_wal_def vault_ok_def)
qed

lemma published_facts:
  fixes v :: "'z vault_scheme"
  assumes p: "publish_toc C (moved_header k d (v\<lparr>vfile := spread (data_start v) (unat d) (vfile v)\<rparr>))
      = (v2, Inr ())"
    and C: "codec_ok C" and ok: "vault_ok v" and fit: "growth_fits k d v"
  shows "published C d v v2" "vwal v2 = vwal v" "vpayload_end v2 = vpayload_end v"
    "wal_offset (vheader v2) = wal_offset (vheader v)" "wal_size (vheader v2) = k"
    "wal_sequence (vheader v2) = wal_sequence (vheader v)"
    "vdata_end v2 = saturating_add (vdata_end v) d"
    "t_frames (vtoc v2) = map (moved_frame d) (t_frames (vtoc v))"
    "t_memories (vtoc v2) = t_memories (vtoc v)"
    "data_start v + unat d \<le> unat (footer_offset (vheader v2))"
    "saturating_add (vdata_end v) d \<le> footer_offset (vheader v2)"
    "header_typed (vheader v2)"
proof -
  let ?f = "spread (data_start v) (unat d) (vfile v)"
  define v1 where "v1 = moved_header k d (v\<lparr>vfile := ?f\<rparr>)"
  note f1 = moved_header_fields [where k = k and d = d and v = "v\<lparr>vfile := ?f\<rparr>", folded v1_def, simplified]
  have k: "unat (wal_offset (vheader v) + k) = data_start v + unat d"
    using ok fit by (simp add: vault_ok_def growth_fits_def data_start_def unat_plus_if')
  with f1(13) have end_le: "data_start v + unat d \<le> unat (footer_offset (vheader v1))"
    by (simp add: word_le_nat_alt)
  have off: "unat (wal_offset (vheader v1)) + unat (wal_size (vheader v1))
      \<le> unat (footer_offset (vheader v1))"
    using end_le fit f1(1,2) by (simp add: growth_fits_def data_start_def)
  have typed: "header_typed (vheader v1)" using f1(5) ok by (simp add: vault_ok_def)
  obtain b t where b: "prepare_toc_bytes C (vtoc v1) = (t, Inr b)"
    "v2 = v1\<lparr>vtoc := t, vheader := (vheader v1)\<lparr>toc_checksum := t_checksum t\<rparr>, vfile := vfile v2\<rparr>"
    "drop HEADER_SIZE (vfile v2) = drop HEADER_SIZE (with_footer C
       (set_len (vfile v1) (unat (footer_offset (vheader v1)))) b (vgeneration v1))"
    "header_valid (vheader v2)" "header_typed (vheader v2)" "HEADER_SIZE \<le> length (vfile v2)"
    using publish_ok [OF p [folded v1_def] C typed off] by blast
  have h2: "footer_offset (vheader v2) = footer_offset (vheader v1)" by (subst b(2)) simp
  have t: "t_frames t = t_frames (vtoc v1)" "t_memories t = t_memories (vtoc v1)"
    by (subst prepare_keeps [OF b(1)], simp)+
  have "published C d v v2"
    unfolding published_def
  proof (intro conjI allI impI)
    fix i n assume i: "HEADER_SIZE \<le> i" "i + n \<le> unat (footer_offset (vheader v2))"
      "i + n \<le> length (vfile v) + unat d"
    show "bslice (vfile v2) i n = bslice ?f i n"
      using slice_of_drop [OF b(3) i(1)] slice_set_len i(2,3) h2 f1(6)
      by (simp add: length_spread)
  next
    have hs: "HEADER_SIZE \<le> unat (footer_offset (vheader v1))"
      using end_le ok by (simp add: vault_ok_def data_start_def)
    have "unat (footer_offset (vheader v1)) - HEADER_SIZE \<le> length (vfile v2) - HEADER_SIZE"
      using arg_cong [OF b(3), of length] hs by simp
    then show "unat (footer_offset (vheader v2)) \<le> length (vfile v2)"
      using b(6) h2 hs by simp
  qed
  moreover have "vheader v2 = (vheader v1)\<lparr>toc_checksum := t_checksum t\<rparr>" "vwal v2 = vwal v1"
    "vpayload_end v2 = vpayload_end v1" "vdata_end v2 = vdata_end v1" "vtoc v2 = t"
    by (subst b(2), simp)+
  ultimately show "published C d v v2" "vwal v2 = vwal v" "vpayload_end v2 = vpayload_end v"
    "wal_offset (vheader v2) = wal_offset (vheader v)" "wal_size (vheader v2) = k"
    "wal_sequence (vheader v2) = wal_sequence (vheader v)"
    "vdata_end v2 = saturating_add (vdata_end v) d"
    "t_frames (vtoc v2) = map (moved_frame d) (t_frames (vtoc v))"
    "t_memories (vtoc v2) = t_memories (vtoc v)"
    "data_start v + unat d \<le> unat (footer_offset (vheader v2))"
    "saturating_add (vdata_end v) d \<le> footer_offset (vheader v2)"
    "header_typed (vheader v2)"
    using f1 end_le t b(5) by simp_all
qed

lemma wal_inv_extend:
  assumes "wal_inv hash w rs" "region w' = region w @ Z" "fits w'" "\<not> Wal.read_only w'"
    "write_head w' = write_head w" "pending_bytes w' = pending_bytes w"
  shows "wal_inv hash w' rs"
  using assms by (auto simp: wal_inv_def)

text \<open>The log is reopened on its old records, followed by zeros.\<close>

lemma published_reopens:
  assumes p: "publish_toc C (moved_header k d (v\<lparr>vfile := spread (data_start v) (unat d) (vfile v)\<rparr>))
      = (v2, Inr ())"
    and C: "codec_ok C" and ok: "vault_ok v" and fit: "growth_fits k d v"
    and inv: "wal_inv (blake C) (the_wal v) rs"
  shows "\<exists>w. wal_open (blake C) (vfile v2) (vheader v2) = Inr w \<and> wfile w = vfile v2 \<and>
    wal_inv (blake C) w rs \<and> region_size w = unat k \<and> region_offset w = unat (wal_offset (vheader v2))"
proof -
  note s = published_facts [OF p C ok fit]
  let ?off = "unat (wal_offset (vheader v))" and ?sz = "unat (wal_size (vheader v))"
  define w1 where "w1 = (the_wal v)\<lparr>wfile := vfile v2, region_size := unat k\<rparr>"
  have pos: "HEADER_SIZE \<le> ?off" "?off + ?sz \<le> length (vfile v)" "region_offset (vwal v) = ?off"
    "region_size (vwal v) = ?sz" "unat k = ?sz + unat d"
    using ok fit by (simp_all add: vault_ok_def data_start_def growth_fits_def)
  have "bslice (vfile v2) ?off (unat k) = bslice (spread (data_start v) (unat d) (vfile v)) ?off (unat k)"
    using s(1,10) pos unfolding published_def by (simp add: data_start_def)
  also have "\<dots> = bslice (vfile v) ?off ?sz @ replicate (unat d) 0"
    using pos by (simp add: spread_def bslice_def data_start_def drop_take)
  finally have "region w1 = region (the_wal v) @ replicate (unat d) 0"
    using pos by (simp add: region_def w1_def the_wal_def)
  moreover have "fits w1"
    using s(1,10) pos by (simp add: fits_def w1_def the_wal_def published_def data_start_def)
  moreover have "\<not> Wal.read_only w1" using inv by (simp add: w1_def wal_inv_def)
  ultimately have "wal_inv (blake C) w1 rs"
    using wal_inv_extend [OF inv] by (simp add: w1_def)
  moreover have "hash_ok (blake C)" using C by (simp add: codec_ok_def)
  moreover have "unat (wal_offset (vheader v2)) = region_offset w1"
    "unat (wal_size (vheader v2)) = region_size w1"
    using s(4,5) pos by (simp_all add: w1_def the_wal_def)
  ultimately obtain w where "wal_open (blake C) (wfile w1) (vheader v2) = Inr w"
    "wal_inv (blake C) w rs" "wfile w = wfile w1" "region_offset w = region_offset w1"
    "region_size w = region_size w1"
    using open_inv [of "blake C" w1 rs "vheader v2"] by blast
  then show ?thesis using s(4) pos by (simp add: w1_def the_wal_def)
qed

lemma resize_reopens:
  assumes r: "resize_wal C k d v = (v', Inr ())" and C: "codec_ok C" and ok: "vault_ok v"
    and fit: "growth_fits k d v" and inv: "wal_inv (blake C) (the_wal v) rs"
  obtains v2 w where "v' = put_wal w v2" "wfile w = vfile v2" "wal_inv (blake C) w rs"
    "region_size w = unat k" "region_offset w = unat (wal_offset (vheader v2))"
    "publish_toc C (moved_header k d (v\<lparr>vfile := spread (data_start v) (unat d) (vfile v)\<rparr>))
      = (v2, Inr ())"
proof -
  obtain v2 w where p: "publish_toc C (moved_header k d
      (v\<lparr>vfile := spread (data_start v) (unat d) (vfile v)\<rparr>)) = (v2, Inr ())"
    and w: "wal_open (blake C) (vfile v2) (vheader v2) = Inr w" "v' = put_wal w v2"
    using r resize_unfold [OF ok fit, of C] by (auto simp: and_then_Inr reopened)
  from published_reopens [OF p C ok fit inv] w that p show thesis by auto
qed

section \<open>Payloads across a growth\<close>

text \<open>The part of the handle that reads frames.\<close>

definition store_of :: "'z vault_scheme \<Rightarrow> store" where
  "store_of v = \<lparr>sfile = vfile v, sheader = vheader v, data_end = vdata_end v, frames = t_frames (vtoc v),
     time_manifest = map_option (\<lambda>m. (ti_offset m, ti_length m)) (t_time (vtoc v))\<rparr>"

lemma store_of_simps [simp]:
  "sfile (store_of v) = vfile v" "sheader (store_of v) = vheader v" "data_end (store_of v) = vdata_end v"
  "frames (store_of v) = t_frames (vtoc v)"
  by (simp_all add: store_of_def)

lemma growth_payload:
  assumes r: "resize_wal C k d v = (v', Inr ())" and C: "codec_ok C" and ok: "vault_ok v"
    and fit: "growth_fits k d v" and inv: "wal_inv (blake C) (the_wal v) rs"
    and read: "read_frame_payload_bytes (store_of v) fr = Inr b"
  shows "read_frame_payload_bytes (store_of v') (moved_frame d fr) = Inr b"
proof (cases "payload_length fr = 0")
  case True
  with read show ?thesis
    by (simp add: read_frame_payload_bytes_def validate_frame_bounds_def moved_frame_def
        read_exact_def bslice_def)
next
  case False
  obtain v2 w where w: "v' = put_wal w v2" "wfile w = vfile v2"
    and p: "publish_toc C (moved_header k d (v\<lparr>vfile := spread (data_start v) (unat d) (vfile v)\<rparr>))
      = (v2, Inr ())"
    by (rule resize_reopens [OF r C ok fit inv])
  note f = published_facts [OF p C ok fit]
  note s = w f(1,4,5,7,11)
  let ?o = "unat (payload_offset fr)" and ?n = "unat (payload_length fr)"
  have v: "payload_length fr \<le> MAX_FRAME_BYTES" "data_start v \<le> ?o"
    "?o + ?n \<le> unat (vdata_end v)" "?o + ?n \<le> length (vfile v)" "b = bslice (vfile v) ?o ?n"
    using read False
    by (auto simp: read_frame_payload_bytes_def validate_frame_bounds_def checked_add_def data_start_def
        word_le_nat_alt word_less_nat_alt unat_plus_if' not_less read_exact_def
        split: if_splits option.splits)
  have pos: "HEADER_SIZE \<le> unat (wal_offset (vheader v))" "data_start v \<le> length (vfile v)"
    "unat k = unat (wal_size (vheader v)) + unat d" "length (vfile v) + unat d < 2 ^ 64"
    using ok fit by (simp_all add: vault_ok_def growth_fits_def)
  have o: "unat (payload_offset fr + d) = ?o + unat d" using v(4) pos by (simp add: unat_plus_if')
  have nz: "payload_offset fr \<noteq> 0"
    using v(2) pos(1) by (auto simp: data_start_def HEADER_SIZE_def)
  have de: "?o + unat d + ?n \<le> unat (vdata_end v2)"
    using s(6) v(3,4) pos(4) by (simp add: unat_saturating_add)
  moreover have "unat (vdata_end v2) \<le> unat (footer_offset (vheader v2))"
    using s(6,7) by (simp add: word_le_nat_alt)
  ultimately have fo: "?o + unat d + ?n \<le> unat (footer_offset (vheader v2))" by simp
  have "bslice (vfile v2) (?o + unat d) ?n = bslice (spread (data_start v) (unat d) (vfile v)) (?o + unat d) ?n"
    using s(3) fo v(2,4) pos unfolding published_def by (simp add: data_start_def)
  also have "\<dots> = b" using v(2,5) pos by (simp add: slice_spread_above)
  finally have "bslice (vfile v2) (?o + unat d) ?n = b" .
  then show ?thesis
    using s fo de o nz v pos False
    by (simp add: read_frame_payload_bytes_def validate_frame_bounds_def checked_add_def moved_frame_def
        moved_def put_wal_def data_start_def word_le_nat_alt word_less_nat_alt unat_plus_if' not_less
        published_def)
qed

section \<open>The loops end\<close>

lemma grow_size_ends:
  assumes "0 < n"
  shows "\<exists>r. grow_size n t = Some r \<and> (\<forall>m. r = Inr m \<longrightarrow> t < m \<and> n \<le> m \<and> (m = n \<or> even (unat m)))"
  using assms
proof (induction "2 ^ 64 - unat n" arbitrary: n rule: less_induct)
  case less
  have n: "0 < unat n" using less.prems by (simp add: word_less_nat_alt)
  show ?case
  proof (cases "n \<le> t \<and> unat n * 2 < 2 ^ 64")
    case True
    then have d: "unat (n * 2) = unat n * 2" by (simp add: unat_word_ariths)
    have lt: "2 ^ 64 - unat (n * 2) < 2 ^ 64 - unat n" "0 < n * 2"
      using True n d unat64_less [of n] by (auto simp: word_less_nat_alt)
    obtain r where r: "grow_size (n * 2) t = Some r"
      "\<forall>m. r = Inr m \<longrightarrow> t < m \<and> n * 2 \<le> m \<and> (m = n * 2 \<or> even (unat m))"
      using less.hyps [OF lt] by blast
    have "n \<le> n * 2" using d by (simp add: word_le_nat_alt)
    moreover have "even (unat (n * 2))" using d by simp
    ultimately show ?thesis
      using True r by (auto simp: grow_size.simps [of n t])
  next
    case False
    then show ?thesis by (auto simp: grow_size.simps [of n t])
  qed
qed

lemma publish_wal_size: "publish_toc C v = (v', Inr ()) \<Longrightarrow> wal_size (vheader v') = wal_size (vheader v)"
  by (auto simp: publish_toc_def and_then_Inr rewrite_toc_footer_def persist_header_def Let_def
      split: sum.splits prod.splits)

lemma resize_wal_size: "resize_wal C k d v = (v', Inr ()) \<Longrightarrow> wal_size (vheader v') = k"
  by (auto simp: resize_wal_def and_then_Inr reopened put_wal_def moved_header_fields(2)
      dest!: publish_wal_size)

lemma grow_wal_region_ends:
  assumes "0 < wal_size (vheader v)" "wal_size (vheader v) < required"
  shows "\<exists>v' r. grow_wal_region C required v = Some (v', r) \<and>
    (r = Inr () \<longrightarrow> wal_size (vheader v) < wal_size (vheader v') \<and> wal_size (vheader v') \<noteq> - 1)"
proof -
  have nz: "required \<noteq> 0" using assms by auto
  obtain r where r: "grow_size (wal_size (vheader v)) required = Some r"
    "\<forall>m. r = Inr m \<longrightarrow> required < m \<and> wal_size (vheader v) \<le> m \<and>
       (m = wal_size (vheader v) \<or> even (unat m))"
    using grow_size_ends [OF assms(1)] by blast
  show ?thesis
  proof (cases r)
    case (Inl e)
    then show ?thesis using nz r(1) by (simp add: grow_wal_region_def)
  next
    case (Inr m)
    then have m: "wal_size (vheader v) < m" "even (unat m)" using r(2) assms(2) by auto
    have "m \<noteq> - 1" using m(2) by (auto simp: unat_minus_one)
    with m show ?thesis
      using nz r(1) Inr
      by (cases "resize_wal C m (m - wal_size (vheader v)) v")
        (auto simp: grow_wal_region_def Let_def dest: resize_wal_size)
  qed
qed

lemma append_ends:
  assumes "0 < wal_size (vheader v)" "wal_size (vheader v) \<noteq> - 1"
  shows "\<exists>r. append_wal_entry C payload v = Some r"
  using assms
proof (induction "2 ^ 64 - unat (wal_size (vheader v))" arbitrary: v rule: less_induct)
  case less
  let ?r = "max (saturating_add WAL_ENTRY_HEADER_SIZE (of_nat (length payload))) (wal_size (vheader v) + 1)"
  show ?case
  proof (cases "append_entry (blake C) (the_wal v) payload")
    case (Inr p)
    then show ?thesis by (cases p) (simp add: append_wal_entry.simps [of C payload v])
  next
    case (Inl e)
    have "wal_size (vheader v) < wal_size (vheader v) + 1"
      using less.prems(2) unat64_less [of "wal_size (vheader v)"]
      by (auto simp: word_less_nat_alt word_unat_eq_iff unat_minus_one unat_plus_if')
    then have "wal_size (vheader v) < ?r" by (simp add: less_max_iff_disj)
    then obtain v' r where g: "grow_wal_region C ?r v = Some (v', r)"
      "r = Inr () \<longrightarrow> wal_size (vheader v) < wal_size (vheader v') \<and> wal_size (vheader v') \<noteq> - 1"
      using grow_wal_region_ends [OF less.prems(1)] by blast
    show ?thesis
    proof (cases r)
      case (Inl e')
      then show ?thesis
        using \<open>append_entry (blake C) (the_wal v) payload = Inl e\<close> g(1)
        by (simp add: append_wal_entry.simps [of C payload v] Let_def)
    next
      case (Inr u)
      then have g': "wal_size (vheader v) < wal_size (vheader v')" "wal_size (vheader v') \<noteq> - 1"
        using g(2) by simp_all
      have "2 ^ 64 - unat (wal_size (vheader v')) < 2 ^ 64 - unat (wal_size (vheader v))"
        using g'(1) unat64_less [of "wal_size (vheader v')"] by (simp add: word_less_nat_alt)
      moreover have "0 < wal_size (vheader v')" using g'(1) by (simp add: word_less_nat_alt)
      ultimately have "\<exists>r. append_wal_entry C payload v' = Some r"
        using less.hyps g'(2) by blast
      then show ?thesis
        using \<open>append_entry (blake C) (the_wal v) payload = Inl e\<close> g(1) Inr
        by (simp add: append_wal_entry.simps [of C payload v] Let_def)
    qed
  qed
qed

section \<open>Growing succeeds\<close>

lemma rewrite_succeeds:
  "prepare_toc_bytes C (vtoc v) = (t, Inr b) \<Longrightarrow> \<exists>f. rewrite_toc_footer C v = (v\<lparr>vtoc := t, vfile := f\<rparr>, Inr ())"
  unfolding rewrite_toc_footer_def Let_def by (simp, rule exI, rule refl)

lemma persist_succeeds:
  "header_valid (vheader v) \<Longrightarrow> \<exists>f. persist_header v = (v\<lparr>vfile := f\<rparr>, Inr ())"
  using encode_ok_iff [of "vheader v"] by (auto simp: persist_header_def write_header_def)

lemma publish_succeeds:
  assumes "prepare_toc_bytes C (vtoc v) = (t, Inr b)" "header_valid (vheader v)"
  shows "\<exists>v'. publish_toc C v = (v', Inr ())"
proof -
  from rewrite_succeeds [OF assms(1)] obtain f where
    f: "rewrite_toc_footer C v = (v\<lparr>vtoc := t, vfile := f\<rparr>, Inr ())" by blast
  have "header_valid ((vheader v)\<lparr>toc_checksum := t_checksum t\<rparr>)"
    using assms(2) by (simp add: header_valid_def)
  then show ?thesis
    using persist_succeeds [of "v\<lparr>vtoc := t, vfile := f, vheader := (vheader v)\<lparr>toc_checksum := t_checksum t\<rparr>\<rparr>"]
    by (auto simp: publish_toc_def f)
qed

lemma moved_header_toc:
  "vtoc (moved_header k d v) = (if d = 0 then vtoc v else adjust_toc d (vtoc v))"
  "header_valid (vheader (moved_header k d v)) \<longleftrightarrow> header_valid ((vheader v)\<lparr>wal_size := k\<rparr>)"
  by (simp_all add: moved_header_def Let_def adjust_offsets_after_wal_growth_def header_valid_def)

lemma resize_succeeds:
  assumes C: "codec_ok C" and ok: "vault_ok v" and fit: "growth_fits k d v"
    and inv: "wal_inv (blake C) (the_wal v) rs" and h: "header_valid (vheader v)"
    and e: "prepare_toc_bytes C (if d = 0 then vtoc v else adjust_toc d (vtoc v)) = (t, Inr b)"
  shows "\<exists>v'. resize_wal C k d v = (v', Inr ())"
proof -
  let ?v1 = "moved_header k d (v\<lparr>vfile := spread (data_start v) (unat d) (vfile v)\<rparr>)"
  have "k \<noteq> 0" using h fit by (auto simp: header_valid_def growth_fits_def word_unat_eq_iff)
  then have "header_valid (vheader ?v1)"
    using h unfolding moved_header_toc by (simp add: header_valid_def)
  moreover have "prepare_toc_bytes C (vtoc ?v1) = (t, Inr b)"
    using e by (simp add: moved_header_toc split: if_splits)
  ultimately obtain v2 where p: "publish_toc C ?v1 = (v2, Inr ())"
    using publish_succeeds by blast
  with published_reopens [OF p C ok fit inv] show ?thesis
    by (auto simp: resize_unfold [OF ok fit])
qed

section \<open>A concrete handle\<close>

definition growth_vault :: vault where
  "growth_vault = demo_vault\<lparr>vfile := replicate 5000 0,
     vwal := (sample_wal 100)\<lparr>region_offset := 4096\<rparr>\<rparr>"

lemma growth_vault_ok: "vault_ok growth_vault" "growth_fits 200 100 growth_vault"
  "header_valid (vheader growth_vault)" "wal_size (vheader growth_vault) = 100"
  "vfile growth_vault = replicate 5000 0" "data_start growth_vault = 4196"
  "vdata_end growth_vault = 5000"
  by (simp_all add: vault_ok_def growth_fits_def growth_vault_def demo_vault_def sample_header_def
      header_typed_def header_valid_def data_start_def sample_wal_def WAL_OFFSET_def HEADER_SIZE_def)

lemma growth_vault_inv: "wal_inv sum_hash (the_wal growth_vault) []"
  unfolding wal_inv_def
  by (intro conjI exI [of _ "replicate 52 0"])
    (simp_all add: the_wal_def growth_vault_def sample_wal_def fits_def region_def buf_simps
      ENTRY_HEADER_SIZE_def replicate_add [symmetric])

lemma adjust_empty: "adjust_toc d (empty_toc\<lparr>t_version := n\<rparr>) = empty_toc\<lparr>t_version := n\<rparr>"
  by (simp add: adjust_toc_def adjust_indexes_def adjust_catalog_def empty_toc_def
      default_indexes_def default_catalog_def)

lemma growth_vault_grows: "\<exists>v'. resize_wal toy_codec 200 100 growth_vault = (v', Inr ())"
proof -
  have "vtoc growth_vault = empty_toc\<lparr>t_version := 2\<rparr>" by (simp add: growth_vault_def demo_vault_def)
  moreover have "wal_inv (blake toy_codec) (the_wal growth_vault) []"
    using growth_vault_inv by (simp add: toy_codec_def)
  ultimately show ?thesis
    using resize_succeeds [OF toy_codec_ok growth_vault_ok(1,2) _ growth_vault_ok(3)] toy_prepare [of 2]
    by (auto simp: adjust_empty Let_def)
qed

section \<open>Properties\<close>

text \<open>C20. Appending through the handle always returns: for every payload, full log or not, the
  loop that grows the region and tries again ends, because every growth at least doubles the
  region and a region that cannot be doubled is an error.\<close>

theorem append_wal_entry_returns:
  assumes "0 < wal_size (vheader v)" "wal_size (vheader v) \<noteq> - 1"
  shows "\<exists>v' r. append_wal_entry C payload v = Some (v', r)"
  using append_ends [OF assms, of C payload] by auto

theorem append_wal_entry_returns_witness:
  "\<exists>v' r. append_wal_entry toy_codec [1, 2, 3] demo_vault = Some (v', r)"
proof (rule append_wal_entry_returns)
  show "0 < wal_size (vheader demo_vault)" "wal_size (vheader demo_vault) \<noteq> - 1"
    by (simp_all add: demo_vault_def sample_header_def)
qed

text \<open>C17. Growing the log loses no record: after the region is resized and the log reopened, a scan
  of the log finds exactly the records it held before, in a region of the new size, and the log
  is again in a state in which appends are durable.\<close>

theorem growth_keeps_records:
  assumes "resize_wal C k d v = (v', Inr ())" "codec_ok C" "vault_ok v" "growth_fits k d v"
    and "wal_inv (blake C) (the_wal v) rs"
  shows "wal_inv (blake C) (the_wal v') rs \<and> log_records (blake C) (the_wal v') = Inr rs \<and>
    region_size (the_wal v') = unat k \<and> wal_size (vheader v') = k"
proof -
  obtain v2 w where w: "v' = put_wal w v2" "wfile w = vfile v2" "wal_inv (blake C) w rs"
    "region_size w = unat k" and p: "publish_toc C (moved_header k d
      (v\<lparr>vfile := spread (data_start v) (unat d) (vfile v)\<rparr>)) = (v2, Inr ())"
    by (rule resize_reopens [OF assms])
  have t: "the_wal v' = w" by (simp add: w(1) the_wal_def put_wal_def)
  have "hash_ok (blake C)" using assms(2) by (simp add: codec_ok_def)
  then show ?thesis
    unfolding t using w(3,4) published_facts(5) [OF p assms(2-4)] log_records_inv
    by (simp add: w(1) put_wal_def)
qed

theorem growth_keeps_records_witness:
  "\<exists>v'. resize_wal toy_codec 200 100 growth_vault = (v', Inr ()) \<and>
     log_records sum_hash (the_wal v') = Inr [] \<and> region_size (the_wal v') = 200"
proof -
  obtain v' where v': "resize_wal toy_codec 200 100 growth_vault = (v', Inr ())"
    using growth_vault_grows by blast
  have b: "blake toy_codec = sum_hash" by (simp add: toy_codec_def)
  show ?thesis
    using growth_keeps_records [OF v' toy_codec_ok growth_vault_ok(1,2), unfolded b, OF growth_vault_inv]
      v' by simp
qed


definition growth_frame :: frame where
  "growth_frame = blank_frame\<lparr>payload_offset := 4200, payload_length := 4\<rparr>"


end
