(* ===== verification/Sketch.thy ===== *)
theory Sketch
  imports Utf8 Frame_Types "HOL-Library.AList" "HOL-Library.Product_Lexorder"
begin

unbundle bit_operations_syntax

text \<open>
  The sketch track (\<open>types/sketch_track.rs\<close>, \<open>memvid/sketch.rs\<close>): a fixed-size fingerprint per
  frame (SimHash, a Bloom filter of its words, its heaviest words) that prunes the candidates of a
  search, and its storage format.

  \<open>sketch_env\<close> collects Unicode NFKC, \<open>to_lowercase\<close>, \<open>char::is_alphanumeric\<close> and BLAKE3.  The map
  of word counts and the entries of the track are association lists.  Weights are exact without an
  inverse document frequency; with one, the \<open>f32\<close> product is the parameter \<open>idf\<close>.  The score of a
  candidate is computed in \<open>f32\<close>: it is a parameter with values in a linear order.
\<close>

type_synonym i32 = "32 word"

section \<open>Constants and variants\<close>

definition SKETCH_TRACK_MAGIC :: bytes where "SKETCH_TRACK_MAGIC = [77, 86, 83, 75]"
definition SKETCH_TRACK_VERSION :: u16 where "SKETCH_TRACK_VERSION = 1"
definition DEFAULT_HAMMING_THRESHOLD :: nat where "DEFAULT_HAMMING_THRESHOLD = 10"
definition TERM_FILTER_SIZE_SMALL :: nat where "TERM_FILTER_SIZE_SMALL = 16"
definition TERM_FILTER_SIZE_MEDIUM :: nat where "TERM_FILTER_SIZE_MEDIUM = 32"
definition TERM_FILTER_SIZE_LARGE :: nat where "TERM_FILTER_SIZE_LARGE = 64"
definition TOP_TERMS_COUNT_SMALL :: nat where "TOP_TERMS_COUNT_SMALL = 2"
definition TOP_TERMS_COUNT_MEDIUM :: nat where "TOP_TERMS_COUNT_MEDIUM = 4"
definition TOP_TERMS_COUNT_LARGE :: nat where "TOP_TERMS_COUNT_LARGE = 6"
definition ENTRY_SIZE_SMALL :: nat where "ENTRY_SIZE_SMALL = 32"
definition ENTRY_SIZE_MEDIUM :: nat where "ENTRY_SIZE_MEDIUM = 64"
definition ENTRY_SIZE_LARGE :: nat where "ENTRY_SIZE_LARGE = 96"

lemmas sketch_sizes = TERM_FILTER_SIZE_SMALL_def TERM_FILTER_SIZE_MEDIUM_def TERM_FILTER_SIZE_LARGE_def
  TOP_TERMS_COUNT_SMALL_def TOP_TERMS_COUNT_MEDIUM_def TOP_TERMS_COUNT_LARGE_def
  ENTRY_SIZE_SMALL_def ENTRY_SIZE_MEDIUM_def ENTRY_SIZE_LARGE_def

datatype sketch_variant = Small | Medium | Large

fun entry_size_of :: "sketch_variant \<Rightarrow> nat" where
  "entry_size_of Small = ENTRY_SIZE_SMALL"
| "entry_size_of Medium = ENTRY_SIZE_MEDIUM"
| "entry_size_of Large = ENTRY_SIZE_LARGE"

fun term_filter_size :: "sketch_variant \<Rightarrow> nat" where
  "term_filter_size Small = TERM_FILTER_SIZE_SMALL"
| "term_filter_size Medium = TERM_FILTER_SIZE_MEDIUM"
| "term_filter_size Large = TERM_FILTER_SIZE_LARGE"

fun top_terms_count :: "sketch_variant \<Rightarrow> nat" where
  "top_terms_count Small = TOP_TERMS_COUNT_SMALL"
| "top_terms_count Medium = TOP_TERMS_COUNT_MEDIUM"
| "top_terms_count Large = TOP_TERMS_COUNT_LARGE"

definition variant_from_u8 :: "u8 \<Rightarrow> sketch_variant option" where
  "variant_from_u8 n = (if n = 0 then Some Small else if n = 1 then Some Medium
     else if n = 2 then Some Large else None)"

text \<open>\<open>SketchFlags\<close>\<close>

definition HAS_SIMHASH :: u16 where "HAS_SIMHASH = push_bit 0 1"
definition HAS_TERM_FILTER :: u16 where "HAS_TERM_FILTER = push_bit 1 1"
definition HAS_TOP_TERMS :: u16 where "HAS_TOP_TERMS = push_bit 2 1"
definition HAS_MINHASH :: u16 where "HAS_MINHASH = push_bit 3 1"
definition SHORT_TEXT :: u16 where "SHORT_TEXT = push_bit 4 1"

definition all_flags :: u16 where
  "all_flags = HAS_SIMHASH OR HAS_TERM_FILTER OR HAS_TOP_TERMS"

definition has_flag :: "u16 \<Rightarrow> u16 \<Rightarrow> bool" where "has_flag fs flag = (fs AND flag \<noteq> 0)"
definition set_flag :: "u16 \<Rightarrow> u16 \<Rightarrow> u16" where "set_flag fs flag = fs OR flag"

section \<open>Entries\<close>

record sketch_small =
  ss_simhash :: u64
  ss_filter :: bytes
  ss_terms :: "u32 list"

record sketch_medium =
  md_simhash :: u64
  md_filter :: bytes
  md_terms :: "u32 list"
  md_weight_sum :: u16
  md_flags :: u16
  md_length_hint :: u16
  md_reserved :: u16

record sketch_entry =
  se_frame_id :: frame_id
  se_simhash :: u64
  se_filter :: bytes
  se_terms :: "u32 list"
  se_weight_sum :: u16
  se_flags :: u16
  se_length_hint :: u16

definition new_entry :: "frame_id \<Rightarrow> sketch_variant \<Rightarrow> sketch_entry" where
  "new_entry fid v = \<lparr>se_frame_id = fid, se_simhash = 0, se_filter = replicate (term_filter_size v) 0,
     se_terms = replicate (top_terms_count v) 0, se_weight_sum = 0, se_flags = 0, se_length_hint = 0\<rparr>"

definition default_small :: sketch_small where
  "default_small = \<lparr>ss_simhash = 0, ss_filter = replicate TERM_FILTER_SIZE_SMALL 0,
     ss_terms = replicate TOP_TERMS_COUNT_SMALL 0\<rparr>"

definition default_medium :: sketch_medium where
  "default_medium = \<lparr>md_simhash = 0, md_filter = replicate TERM_FILTER_SIZE_MEDIUM 0,
     md_terms = replicate TOP_TERMS_COUNT_MEDIUM 0, md_weight_sum = 0, md_flags = 0,
     md_length_hint = 0, md_reserved = 0\<rparr>"

definition default_entry :: sketch_entry where
  "default_entry = new_entry 0 Small"

definition small_to_bytes :: "sketch_small \<Rightarrow> bytes" where
  "small_to_bytes s =
     (let buf = replicate ENTRY_SIZE_SMALL 0;
          buf = put_slice buf 0 (to_le 8 (ss_simhash s));
          buf = put_slice buf 8 (ss_filter s);
          buf = put_slice buf 24 (to_le 4 (ss_terms s ! 0));
          buf = put_slice buf 28 (to_le 4 (ss_terms s ! 1))
      in buf)"

definition small_from_bytes :: "bytes \<Rightarrow> sketch_small" where
  "small_from_bytes buf = \<lparr>ss_simhash = from_le (bslice buf 0 8), ss_filter = bslice buf 8 16,
     ss_terms = [from_le (bslice buf 24 4), from_le (bslice buf 28 4)]\<rparr>"

fun put_terms :: "bytes \<Rightarrow> nat \<Rightarrow> u32 list \<Rightarrow> bytes" where
  "put_terms buf off [] = buf"
| "put_terms buf off (t # ts) = put_terms (put_slice buf off (to_le 4 t)) (off + 4) ts"

definition medium_to_bytes :: "sketch_medium \<Rightarrow> bytes" where
  "medium_to_bytes m =
     (let buf = replicate ENTRY_SIZE_MEDIUM 0;
          buf = put_slice buf 0 (to_le 8 (md_simhash m));
          buf = put_slice buf 8 (md_filter m);
          off = 8 + TERM_FILTER_SIZE_MEDIUM;
          buf = put_terms buf off (md_terms m);
          off = off + 4 * length (md_terms m);
          buf = put_slice buf off (to_le 2 (md_weight_sum m));
          buf = put_slice buf (off + 2) (to_le 2 (md_flags m));
          buf = put_slice buf (off + 4) (to_le 2 (md_length_hint m));
          buf = put_slice buf (off + 6) (to_le 2 (md_reserved m))
      in buf)"

definition medium_from_bytes :: "bytes \<Rightarrow> sketch_medium" where
  "medium_from_bytes buf =
     (let off = 8 + TERM_FILTER_SIZE_MEDIUM; off' = off + TOP_TERMS_COUNT_MEDIUM * 4 in
      \<lparr>md_simhash = from_le (bslice buf 0 8), md_filter = bslice buf 8 TERM_FILTER_SIZE_MEDIUM,
       md_terms = map (\<lambda>i. from_le (bslice buf (off + i * 4) 4)) [0 ..< TOP_TERMS_COUNT_MEDIUM],
       md_weight_sum = from_le (bslice buf off' 2), md_flags = from_le (bslice buf (off' + 2) 2),
       md_length_hint = from_le (bslice buf (off' + 4) 2), md_reserved = from_le (bslice buf (off' + 6) 2)\<rparr>)"

text \<open>The terms in front, zeros behind: the loop over \<open>iter().take(n)\<close>.\<close>

definition fill_terms :: "nat \<Rightarrow> u32 list \<Rightarrow> u32 list" where
  "fill_terms n ts = take n ts @ replicate (n - length ts) 0"

definition to_small_bytes :: "sketch_entry \<Rightarrow> bytes" where
  "to_small_bytes e = small_to_bytes (default_small
     \<lparr>ss_simhash := se_simhash e,
      ss_filter := (if TERM_FILTER_SIZE_SMALL \<le> length (se_filter e)
        then take TERM_FILTER_SIZE_SMALL (se_filter e) else ss_filter default_small),
      ss_terms := fill_terms TOP_TERMS_COUNT_SMALL (se_terms e)\<rparr>)"

definition to_medium_bytes :: "sketch_entry \<Rightarrow> bytes" where
  "to_medium_bytes e = medium_to_bytes (default_medium
     \<lparr>md_simhash := se_simhash e,
      md_filter := (if TERM_FILTER_SIZE_MEDIUM \<le> length (se_filter e)
        then take TERM_FILTER_SIZE_MEDIUM (se_filter e)
        else put_slice (md_filter default_medium) 0 (se_filter e)),
      md_terms := fill_terms TOP_TERMS_COUNT_MEDIUM (se_terms e),
      md_weight_sum := se_weight_sum e, md_flags := se_flags e, md_length_hint := se_length_hint e\<rparr>)"

definition from_small_bytes :: "frame_id \<Rightarrow> bytes \<Rightarrow> sketch_entry" where
  "from_small_bytes fid buf =
     (let s = small_from_bytes buf in
      \<lparr>se_frame_id = fid, se_simhash = ss_simhash s, se_filter = ss_filter s, se_terms = ss_terms s,
       se_weight_sum = 0, se_flags = all_flags, se_length_hint = 0\<rparr>)"

definition from_medium_bytes :: "frame_id \<Rightarrow> bytes \<Rightarrow> sketch_entry" where
  "from_medium_bytes fid buf =
     (let m = medium_from_bytes buf in
      \<lparr>se_frame_id = fid, se_simhash = md_simhash m, se_filter = md_filter m, se_terms = md_terms m,
       se_weight_sum = md_weight_sum m, se_flags = md_flags m, se_length_hint = md_length_hint m\<rparr>)"

section \<open>Fingerprints\<close>

definition count_ones :: "u64 \<Rightarrow> nat" where
  "count_ones w = length (filter (bit w) [0 ..< 64])"

definition hamming_distance :: "sketch_entry \<Rightarrow> u64 \<Rightarrow> nat" where
  "hamming_distance e other = count_ones (se_simhash e XOR other)"

definition term_filter_maybe_overlaps :: "sketch_entry \<Rightarrow> bytes \<Rightarrow> bool" where
  "term_filter_maybe_overlaps e q = list_ex (\<lambda>(a, b). a AND b \<noteq> 0) (zip (se_filter e) q)"

definition count_matching_top_terms :: "sketch_entry \<Rightarrow> u32 list \<Rightarrow> nat" where
  "count_matching_top_terms e q = length (filter (\<lambda>t. t \<noteq> 0 \<and> t \<in> set q) (se_terms e))"

text \<open>The \<open>i64\<close> accumulators cannot overflow below \<open>2^32\<close> words; they are integers here.\<close>

definition add_votes :: "u64 \<times> i32 \<Rightarrow> int list \<Rightarrow> int list" where
  "add_votes p v = (case p of (h, w) \<Rightarrow>
     map (\<lambda>i. if drop_bit i h AND 1 = 1 then v ! i + sint w else v ! i - sint w) [0 ..< 64])"

definition compute_simhash :: "(u64 \<times> i32) list \<Rightarrow> u64" where
  "compute_simhash tokens =
     (if tokens = [] then 0
      else (let v = fold add_votes tokens (replicate 64 0) in
            fold (\<lambda>i acc. if 0 < v ! i then acc OR push_bit i 1 else acc) [0 ..< 64] 0))"

record sketch_env =
  sx_nfkc :: "ustr \<Rightarrow> ustr"
  sx_lower :: "ustr \<Rightarrow> ustr"
  sx_alnum :: "uchar \<Rightarrow> bool"
  sx_blake :: "bytes \<Rightarrow> bytes"

definition hash_token :: "sketch_env \<Rightarrow> ustr \<Rightarrow> u64" where
  "hash_token env t = from_le (bslice (sx_blake env (utf8_encode t)) 0 8)"

definition fold_hash :: "u64 \<Rightarrow> u32" where
  "fold_hash h = ucast (h XOR drop_bit 32 h)"

definition hash_token_u32 :: "sketch_env \<Rightarrow> ustr \<Rightarrow> u32" where
  "hash_token_u32 env t = fold_hash (hash_token env t)"

section \<open>The term filter\<close>

text \<open>The three bit positions of a hash, and setting a bit; a filter is never empty.\<close>

definition filter_positions :: "nat \<Rightarrow> u64 \<Rightarrow> nat list" where
  "filter_positions bits h = map (\<lambda>s. unat (drop_bit s h mod of_nat bits)) [0, 16, 32]"

definition set_filter_bit :: "nat \<Rightarrow> bytes \<Rightarrow> bytes" where
  "set_filter_bit p f = f[p div 8 := f ! (p div 8) OR push_bit (p mod 8) 1]"

definition build_term_filter :: "u64 list \<Rightarrow> nat \<Rightarrow> bytes" where
  "build_term_filter hs size_bytes =
     fold (\<lambda>h f. fold set_filter_bit (filter_positions (size_bytes * 8) h) f) hs
       (replicate size_bytes 0)"

definition filter_bit :: "bytes \<Rightarrow> nat \<Rightarrow> bool" where
  "filter_bit f p = (f ! (p div 8) AND push_bit (p mod 8) 1 \<noteq> 0)"

definition term_filter_maybe_contains :: "bytes \<Rightarrow> u64 \<Rightarrow> bool" where
  "term_filter_maybe_contains f h = list_all (filter_bit f) (filter_positions (length f * 8) h)"

section \<open>Sketches of texts\<close>

definition tokenize_for_sketch :: "sketch_env \<Rightarrow> ustr \<Rightarrow> ustr list" where
  "tokenize_for_sketch env s =
     filter (\<lambda>t. 2 \<le> byte_len t) (split_by (\<lambda>c. \<not> sx_alnum env c) (sx_lower env (sx_nfkc env s)))"

definition term_counts :: "ustr list \<Rightarrow> (ustr \<times> nat) list" where
  "term_counts ts = fold (\<lambda>t m. AList.map_default t 1 Suc m) ts []"

definition token_weight :: "(ustr \<Rightarrow> nat \<Rightarrow> i32) option \<Rightarrow> ustr \<Rightarrow> nat \<Rightarrow> i32" where
  "token_weight idf t n =
     (let w = (case idf of None \<Rightarrow> of_nat (100 * min n 3) | Some g \<Rightarrow> g t (min n 3)) in
      if sint w < 1 then 1 else w)"

definition weight_key :: "u64 \<times> i32 \<Rightarrow> int \<times> nat" where
  "weight_key p = (- sint (snd p), unat (fst p))"

definition compute_token_weights ::
  "sketch_env \<Rightarrow> (ustr \<Rightarrow> nat \<Rightarrow> i32) option \<Rightarrow> ustr list \<Rightarrow> (u64 \<times> i32) list" where
  "compute_token_weights env idf tokens =
     sort_key weight_key (map (\<lambda>(t, n). (hash_token env t, token_weight idf t n)) (term_counts tokens))"

definition extract_top_terms :: "(u64 \<times> i32) list \<Rightarrow> nat \<Rightarrow> u32 list" where
  "extract_top_terms ws k = map (\<lambda>(h, _). fold_hash h) (take k ws)"

definition generate_sketch ::
  "sketch_env \<Rightarrow> frame_id \<Rightarrow> ustr \<Rightarrow> sketch_variant \<Rightarrow> (ustr \<Rightarrow> nat \<Rightarrow> i32) option \<Rightarrow> sketch_entry" where
  "generate_sketch env fid s v idf =
     (let tokens = tokenize_for_sketch env s; token_count = length tokens in
      if tokens = [] then
        (new_entry fid v)\<lparr>se_flags := set_flag (se_flags (new_entry fid v)) SHORT_TEXT\<rparr>
      else
        (let weighted = compute_token_weights env idf tokens;
             weight_sum = (sum_list (map (\<lambda>(_, w). ucast w) (take (top_terms_count v) weighted)) :: u32)
         in \<lparr>se_frame_id = fid, se_simhash = compute_simhash weighted,
              se_filter = build_term_filter (map fst weighted) (term_filter_size v),
              se_terms = extract_top_terms weighted (top_terms_count v),
              se_weight_sum = of_nat (min (unat weight_sum) 65535),
              se_flags = (if token_count < 50 then set_flag all_flags SHORT_TEXT else all_flags),
              se_length_hint = of_nat (min (token_count div 10) 255)\<rparr>))"

section \<open>Queries\<close>

record query_sketch =
  qs_simhash :: u64
  qs_filter :: bytes
  qs_terms :: "u32 list"
  qs_token_count :: nat

definition from_query :: "sketch_env \<Rightarrow> ustr \<Rightarrow> sketch_variant \<Rightarrow> query_sketch" where
  "from_query env q v =
     (let tokens = tokenize_for_sketch env q in
      if tokens = [] then \<lparr>qs_simhash = 0, qs_filter = replicate (term_filter_size v) 0, qs_terms = [],
        qs_token_count = 0\<rparr>
      else (let weighted = compute_token_weights env None tokens in
        \<lparr>qs_simhash = compute_simhash weighted,
         qs_filter = build_term_filter (map fst weighted) (term_filter_size v),
         qs_terms = extract_top_terms weighted (top_terms_count v), qs_token_count = length tokens\<rparr>))"

text \<open>\<open>combine\<close> is the \<open>f32\<close> formula: matching terms, query terms (at least one), Hamming distance,
  the two length buckets.\<close>

type_synonym 'f combine = "nat \<Rightarrow> nat \<Rightarrow> nat \<Rightarrow> nat \<Rightarrow> nat \<Rightarrow> 'f"

definition score_entry :: "'f combine \<Rightarrow> query_sketch \<Rightarrow> sketch_entry \<Rightarrow> nat \<Rightarrow> 'f option" where
  "score_entry combine q e threshold =
     (if \<not> term_filter_maybe_overlaps e (qs_filter q) then None
      else (let hamming = hamming_distance e (qs_simhash q) in
        if threshold < hamming then None
        else Some (combine (count_matching_top_terms e (qs_terms q)) (max (length (qs_terms q)) 1) hamming
               (min (qs_token_count q div 10) 255) (unat (se_length_hint e)))))"

section \<open>The track\<close>

record sketch_track =
  trk_variant :: sketch_variant
  trk_entries :: "(frame_id \<times> sketch_entry) list"
  trk_order :: "frame_id list"

definition new_track :: "sketch_variant \<Rightarrow> sketch_track" where
  "new_track v = \<lparr>trk_variant = v, trk_entries = [], trk_order = []\<rparr>"

definition trk_get :: "sketch_track \<Rightarrow> frame_id \<Rightarrow> sketch_entry option" where
  "trk_get t fid = map_of (trk_entries t) fid"

definition trk_insert :: "sketch_entry \<Rightarrow> sketch_track \<Rightarrow> sketch_track" where
  "trk_insert e t =
     (let t = (if trk_get t (se_frame_id e) = None
               then t\<lparr>trk_order := trk_order t @ [se_frame_id e]\<rparr> else t) in
      t\<lparr>trk_entries := AList.update (se_frame_id e) e (trk_entries t)\<rparr>)"

definition trk_len :: "sketch_track \<Rightarrow> nat" where "trk_len t = length (trk_entries t)"
definition trk_is_empty :: "sketch_track \<Rightarrow> bool" where "trk_is_empty t = (trk_entries t = [])"

definition trk_iter :: "sketch_track \<Rightarrow> sketch_entry list" where
  "trk_iter t = List.map_filter (trk_get t) (trk_order t)"

text \<open>A stable sort, highest score first.\<close>

definition sort_desc :: "('a \<times> 'f::linorder) list \<Rightarrow> ('a \<times> 'f) list" where
  "sort_desc xs = rev (sort_key snd (rev xs))"

definition find_candidates ::
  "('f::linorder) combine \<Rightarrow> sketch_track \<Rightarrow> query_sketch \<Rightarrow> nat \<Rightarrow> nat \<Rightarrow> (frame_id \<times> 'f) list" where
  "find_candidates combine t q threshold max_candidates =
     take max_candidates (sort_desc (List.map_filter
       (\<lambda>e. map_option (\<lambda>s. (se_frame_id e, s)) (score_entry combine q e threshold)) (trk_iter t)))"

record sketch_stats =
  sks_variant :: sketch_variant
  sks_entry_count :: u64
  sks_size_bytes :: u64
  sks_short_text_count :: u64

definition sketch_stats_of :: "sketch_track \<Rightarrow> sketch_stats" where
  "sketch_stats_of t = \<lparr>sks_variant = trk_variant t, sks_entry_count = of_nat (trk_len t),
     sks_size_bytes = of_nat (trk_len t) * of_nat (entry_size_of (trk_variant t)),
     sks_short_text_count =
       of_nat (length (filter (\<lambda>p. has_flag (se_flags (snd p)) SHORT_TEXT) (trk_entries t)))\<rparr>"

section \<open>Storage\<close>

record sketch_header =
  sh_magic :: bytes
  sh_version :: u16
  sh_entry_size :: u16
  sh_entry_count :: u64
  sh_flags :: u32
  sh_reserved :: u32

definition SKETCH_HEADER_SIZE :: nat where "SKETCH_HEADER_SIZE = 4 + 2 + 2 + 8 + 4 + 4"

definition new_sketch_header :: "sketch_variant \<Rightarrow> u64 \<Rightarrow> sketch_header" where
  "new_sketch_header v n = \<lparr>sh_magic = SKETCH_TRACK_MAGIC, sh_version = SKETCH_TRACK_VERSION,
     sh_entry_size = of_nat (entry_size_of v), sh_entry_count = n, sh_flags = 0, sh_reserved = 0\<rparr>"

definition sketch_header_to_bytes :: "sketch_header \<Rightarrow> bytes" where
  "sketch_header_to_bytes h =
     (let buf = replicate SKETCH_HEADER_SIZE 0;
          buf = put_slice buf 0 (sh_magic h);
          buf = put_slice buf 4 (to_le 2 (sh_version h));
          buf = put_slice buf 6 (to_le 2 (sh_entry_size h));
          buf = put_slice buf 8 (to_le 8 (sh_entry_count h));
          buf = put_slice buf 16 (to_le 4 (sh_flags h));
          buf = put_slice buf 20 (to_le 4 (sh_reserved h))
      in buf)"

definition sketch_header_from_bytes :: "bytes \<Rightarrow> sketch_header res" where
  "sketch_header_from_bytes buf =
     (if bslice buf 0 4 \<noteq> SKETCH_TRACK_MAGIC then Inl (InvalidSketchTrack ''Invalid sketch track magic'')
      else Inr \<lparr>sh_magic = bslice buf 0 4, sh_version = from_le (bslice buf 4 2),
        sh_entry_size = from_le (bslice buf 6 2), sh_entry_count = from_le (bslice buf 8 8),
        sh_flags = from_le (bslice buf 16 4), sh_reserved = from_le (bslice buf 20 4)\<rparr>)"

definition header_variant :: "sketch_header \<Rightarrow> sketch_variant option" where
  "header_variant h = (let n = unat (sh_entry_size h) in
     if n = ENTRY_SIZE_SMALL then Some Small else if n = ENTRY_SIZE_MEDIUM then Some Medium
     else if n = ENTRY_SIZE_LARGE then Some Large else None)"

fun entry_to_bytes :: "sketch_variant \<Rightarrow> sketch_entry \<Rightarrow> bytes" where
  "entry_to_bytes Small e = to_small_bytes e"
| "entry_to_bytes Medium e = to_medium_bytes e"
| "entry_to_bytes Large e = to_medium_bytes e @ replicate (ENTRY_SIZE_LARGE - ENTRY_SIZE_MEDIUM) 0"

fun write_entries :: "sketch_variant \<Rightarrow> bytes \<Rightarrow> nat \<Rightarrow> sketch_entry list \<Rightarrow> bytes \<times> nat" where
  "write_entries v f pos [] = (f, pos)"
| "write_entries v f pos (e # es) =
     (let b = entry_to_bytes v e in write_entries v (write_at f pos b) (pos + length b) es)"

text \<open>The file, and offset, length and checksum; the writer stands at \<open>pos\<close>.\<close>

definition write_sketch_track ::
  "(bytes \<Rightarrow> bytes) \<Rightarrow> bytes \<Rightarrow> nat \<Rightarrow> sketch_track \<Rightarrow> bytes \<times> nat \<times> nat \<times> bytes" where
  "write_sketch_track hash f pos t =
     (let header_bytes = sketch_header_to_bytes (new_sketch_header (trk_variant t) (of_nat (trk_len t)));
          f1 = write_at f pos header_bytes;
          (f2, end_pos) = write_entries (trk_variant t) f1 (pos + length header_bytes) (trk_iter t);
          hashed = header_bytes @ concat (map (entry_to_bytes (trk_variant t)) (trk_iter t))
      in (f2, pos, end_pos - pos, hash hashed))"

text \<open>The loop \<open>for frame_id in 0..entry_count\<close>, from \<open>fid\<close> with \<open>n\<close> entries left; \<open>read_one\<close> reads the
  entry and returns the position behind it.\<close>

definition read_one :: "sketch_variant \<Rightarrow> bytes \<Rightarrow> nat \<Rightarrow> frame_id \<Rightarrow> (sketch_entry \<times> nat) res" where
  "read_one v f pos fid =
     (case v of
        Small \<Rightarrow> (case read_exact f pos ENTRY_SIZE_SMALL of Inl e \<Rightarrow> Inl e
          | Inr buf \<Rightarrow> Inr (from_small_bytes fid buf, pos + ENTRY_SIZE_SMALL))
      | Medium \<Rightarrow> (case read_exact f pos ENTRY_SIZE_MEDIUM of Inl e \<Rightarrow> Inl e
          | Inr buf \<Rightarrow> Inr (from_medium_bytes fid buf, pos + ENTRY_SIZE_MEDIUM))
      | Large \<Rightarrow> (case read_exact f pos ENTRY_SIZE_MEDIUM of Inl e \<Rightarrow> Inl e
          | Inr buf \<Rightarrow>
              (case read_exact f (pos + ENTRY_SIZE_MEDIUM) (ENTRY_SIZE_LARGE - ENTRY_SIZE_MEDIUM) of
                 Inl e \<Rightarrow> Inl e
               | Inr skip \<Rightarrow> Inr (from_medium_bytes fid buf, pos + ENTRY_SIZE_LARGE))))"

fun read_entries_from :: "sketch_variant \<Rightarrow> bytes \<Rightarrow> nat \<Rightarrow> frame_id \<Rightarrow> nat \<Rightarrow> sketch_track \<Rightarrow> sketch_track res" where
  "read_entries_from v f pos fid 0 t = Inr t"
| "read_entries_from v f pos fid (Suc n) t =
     (case read_one v f pos fid of Inl e \<Rightarrow> Inl e
      | Inr (e, pos') \<Rightarrow> read_entries_from v f pos' (fid + 1) n (trk_insert e t))"

definition read_sketch_track :: "bytes \<Rightarrow> u64 \<Rightarrow> u64 \<Rightarrow> sketch_track res" where
  "read_sketch_track f off len =
     (case read_exact f (unat off) SKETCH_HEADER_SIZE of Inl e \<Rightarrow> Inl e | Inr buf \<Rightarrow>
     (case sketch_header_from_bytes buf of Inl e \<Rightarrow> Inl e | Inr h \<Rightarrow>
     (case header_variant h of None \<Rightarrow> Inl (InvalidSketchTrack ''Unknown sketch entry size'')
      | Some v \<Rightarrow>
          (let expected = SKETCH_HEADER_SIZE + unat (sh_entry_count h) * unat (sh_entry_size h) in
           if 2 ^ 64 \<le> expected then Inl (Panic ''attempt to multiply with overflow'')
           else if unat len < expected
             then Inl (InvalidSketchTrack ''Sketch track length less than expected'')
           else read_entries_from v f (unat off + SKETCH_HEADER_SIZE) 0 (unat (sh_entry_count h))
                  (new_track v)))))"

section \<open>The handle\<close>

text \<open>The fields of \<open>Memvid\<close> that \<open>memvid/sketch.rs\<close> uses.\<close>

record sketch_handle =
  kh_frames :: "frame list"
  kh_track :: sketch_track
  kh_dirty :: bool

definition has_sketches :: "sketch_handle \<Rightarrow> bool" where
  "has_sketches m = (\<not> trk_is_empty (kh_track m))"

definition insert_sketch ::
  "sketch_env \<Rightarrow> frame_id \<Rightarrow> ustr \<Rightarrow> sketch_variant \<Rightarrow> sketch_handle \<Rightarrow> sketch_handle \<times> sketch_entry" where
  "insert_sketch env fid s v m =
     (let e = generate_sketch env fid s v None in
      (m\<lparr>kh_track := trk_insert e (kh_track m), kh_dirty := True\<rparr>, e))"

definition frames_to_sketch :: "sketch_handle \<Rightarrow> (frame_id \<times> ustr) list" where
  "frames_to_sketch m = List.map_filter
     (\<lambda>f. case search_text f of None \<Rightarrow> None | Some t \<Rightarrow> if t = [] then None else Some (id_of f, t))
     (filter (\<lambda>f. status f = Active \<and> trk_get (kh_track m) (id_of f) = None) (kh_frames m))"

definition build_all_sketches ::
  "sketch_env \<Rightarrow> sketch_variant \<Rightarrow> sketch_handle \<Rightarrow> sketch_handle \<times> nat" where
  "build_all_sketches env v m =
     (let todo = frames_to_sketch m;
          m' = fold (\<lambda>(fid, s) m. fst (insert_sketch env fid s v m)) todo m;
          ct = length todo
      in (if 0 < ct then m'\<lparr>kh_dirty := True\<rparr> else m', ct))"

record 'f sketch_options =
  so_threshold :: nat
  so_max_candidates :: nat
  so_min_score :: 'f

definition default_options :: "'f \<Rightarrow> 'f sketch_options" where
  "default_options zero = \<lparr>so_threshold = DEFAULT_HAMMING_THRESHOLD, so_max_candidates = 2000,
     so_min_score = zero\<rparr>"

record 'f sketch_candidate =
  sc_frame_id :: frame_id
  sc_score :: 'f
  sc_hamming :: nat
  sc_matching :: nat

definition candidate_of :: "sketch_track \<Rightarrow> query_sketch \<Rightarrow> frame_id \<times> 'f \<Rightarrow> 'f sketch_candidate" where
  "candidate_of t q p = (case p of (fid, s) \<Rightarrow>
     \<lparr>sc_frame_id = fid, sc_score = s,
      sc_hamming = (case trk_get t fid of None \<Rightarrow> 64 | Some e \<Rightarrow> hamming_distance e (qs_simhash q)),
      sc_matching = (case trk_get t fid of None \<Rightarrow> 0 | Some e \<Rightarrow> count_matching_top_terms e (qs_terms q))\<rparr>)"

definition find_sketch_candidates ::
  "sketch_env \<Rightarrow> ('f::linorder) combine \<Rightarrow> ustr \<Rightarrow> 'f sketch_options \<Rightarrow> sketch_track \<Rightarrow> 'f sketch_candidate list" where
  "find_sketch_candidates env combine q opts t =
     (let qs = from_query env q (trk_variant t);
          raw_hits = find_candidates combine t qs (so_threshold opts) (so_max_candidates opts)
      in map (candidate_of t qs) (filter (\<lambda>p. so_min_score opts \<le> snd p) raw_hits))"

record scan_stats =
  sn_frames_scanned :: nat
  sn_term_filter_hits :: nat
  sn_simhash_hits :: nat
  sn_candidates_returned :: nat

text \<open>The scan with counters (without the clock).\<close>

definition scan_step ::
  "('f::linorder) combine \<Rightarrow> query_sketch \<Rightarrow> 'f sketch_options \<Rightarrow> sketch_entry
     \<Rightarrow> nat \<times> nat \<times> (frame_id \<times> 'f) list \<Rightarrow> nat \<times> nat \<times> (frame_id \<times> 'f) list" where
  "scan_step combine qs opts e acc = (case acc of (tf, sim, hits) \<Rightarrow>
     if \<not> term_filter_maybe_overlaps e (qs_filter qs) then acc
     else if so_threshold opts < hamming_distance e (qs_simhash qs) then (tf + 1, sim, hits)
     else (case score_entry combine qs e (so_threshold opts) of
         None \<Rightarrow> (tf + 1, sim + 1, hits)
       | Some s \<Rightarrow> (tf + 1, sim + 1, if so_min_score opts \<le> s then hits @ [(se_frame_id e, s)] else hits)))"

definition find_sketch_candidates_with_stats ::
  "sketch_env \<Rightarrow> ('f::linorder) combine \<Rightarrow> ustr \<Rightarrow> 'f sketch_options \<Rightarrow> sketch_track
     \<Rightarrow> 'f sketch_candidate list \<times> scan_stats" where
  "find_sketch_candidates_with_stats env combine q opts t =
     (let qs = from_query env q (trk_variant t);
          (tf, sim, hits) = fold (scan_step combine qs opts) (trk_iter t) (0, 0, []);
          hits = take (so_max_candidates opts) (sort_desc hits)
      in (map (candidate_of t qs) hits,
          \<lparr>sn_frames_scanned = trk_len t, sn_term_filter_hits = tf, sn_simhash_hits = sim,
           sn_candidates_returned = length hits\<rparr>))"

section \<open>The term filter has no false negatives\<close>

lemma filter_bit_iff: "filter_bit f p \<longleftrightarrow> bit (f ! (p div 8)) (p mod 8)"
  by (simp add: filter_bit_def bit_iff_and_push_bit_not_eq_0)

lemma length_set_filter_bit [simp]: "length (set_filter_bit p f) = length f"
  by (simp add: set_filter_bit_def)

lemma length_set_filter_bits [simp]: "length (fold set_filter_bit ps f) = length f"
  by (induction ps arbitrary: f) simp_all

lemma length_build_term_filter [simp]: "length (build_term_filter hs n) = n"
proof -
  have "length (fold (\<lambda>h f. fold set_filter_bit (g h) f) hs f) = length f" for g f
    by (induction hs arbitrary: f) simp_all
  then show ?thesis by (simp add: build_term_filter_def)
qed

lemma set_filter_bit_keeps: "filter_bit f p \<Longrightarrow> filter_bit (set_filter_bit q f) p"
proof (cases "q div 8 < length f \<and> p div 8 = q div 8")
  case True
  then show "filter_bit f p \<Longrightarrow> filter_bit (set_filter_bit q f) p"
    by (simp add: filter_bit_iff set_filter_bit_def bit_simps)
next
  case False
  then show "filter_bit f p \<Longrightarrow> filter_bit (set_filter_bit q f) p"
    by (auto simp: filter_bit_iff set_filter_bit_def list_update_beyond)
qed

lemma set_filter_bit_sets: "p < 8 * length f \<Longrightarrow> filter_bit (set_filter_bit p f) p"
proof -
  assume "p < 8 * length f"
  then have "p div 8 < length f" by (simp add: less_mult_imp_div_less mult.commute)
  then show ?thesis by (simp add: filter_bit_iff set_filter_bit_def bit_simps)
qed

lemma set_filter_bits_keep: "filter_bit f p \<Longrightarrow> filter_bit (fold set_filter_bit ps f) p"
  by (induction ps arbitrary: f) (simp_all add: set_filter_bit_keeps)

lemma set_filter_bits_set:
  "p \<in> set ps \<Longrightarrow> p < 8 * length f \<Longrightarrow> filter_bit (fold set_filter_bit ps f) p"
  by (induction ps arbitrary: f) (auto simp: set_filter_bits_keep set_filter_bit_sets)

lemma filter_positions_bound:
  assumes "0 < n" "n < 2 ^ 64" "p \<in> set (filter_positions n h)"
  shows "p < n"
proof -
  have "unat (w mod of_nat n :: u64) < n" for w :: u64
    using assms(1,2) by (simp add: unat_mod unat_of_nat take_bit_eq_mod)
  then show ?thesis using assms(3) by (auto simp: filter_positions_def)
qed

lemma build_filter_sets:
  assumes "0 < n" "n * 8 < 2 ^ 64" "h \<in> set hs" "p \<in> set (filter_positions (n * 8) h)"
  shows "filter_bit (build_term_filter hs n) p"
proof -
  let ?step = "\<lambda>h. fold set_filter_bit (filter_positions (n * 8) h)"
  have keep: "filter_bit f p \<Longrightarrow> filter_bit (fold ?step hs f) p" for hs f
    by (induction hs arbitrary: f) (simp_all add: set_filter_bits_keep)
  have p: "p < 8 * n" using filter_positions_bound [of "n * 8" p h] assms by simp
  have "length f = n \<Longrightarrow> filter_bit (fold ?step hs f) p" for f
    using assms(3)
  proof (induction hs arbitrary: f)
    case (Cons k ks)
    show ?case
    proof (cases "h = k")
      case True
      then have "filter_bit (?step k f) p"
        using assms(4) p Cons.prems(1) by (intro set_filter_bits_set) simp_all
      then show ?thesis using keep by simp
    next
      case False
      then show ?thesis using Cons.IH [of "?step k f"] Cons.prems by simp
    qed
  qed simp
  then show ?thesis by (simp add: build_term_filter_def)
qed

lemma filter_contains:
  "0 < n \<Longrightarrow> n * 8 < 2 ^ 64 \<Longrightarrow> h \<in> set hs \<Longrightarrow> term_filter_maybe_contains (build_term_filter hs n) h"
  by (simp add: term_filter_maybe_contains_def list_all_iff build_filter_sets)

lemma filters_meet:
  assumes "0 < n" "n * 8 < 2 ^ 64" "h \<in> set hs" "h \<in> set ks"
  shows "list_ex (\<lambda>(a, b). a AND b \<noteq> 0) (zip (build_term_filter hs n) (build_term_filter ks n))"
proof -
  let ?f = "build_term_filter hs n" and ?g = "build_term_filter ks n"
  obtain p where p: "p \<in> set (filter_positions (n * 8) h)" by (auto simp: filter_positions_def)
  then have "p < n * 8" using filter_positions_bound [of "n * 8"] assms by simp
  then have i: "p div 8 < n" by (simp add: less_mult_imp_div_less)
  have "bit (?f ! (p div 8)) (p mod 8)" "bit (?g ! (p div 8)) (p mod 8)"
    using build_filter_sets [OF assms(1,2) _ p] assms(3,4) by (simp_all add: filter_bit_iff)
  then have "bit (?f ! (p div 8) AND ?g ! (p div 8)) (p mod 8)" by (simp add: bit_simps)
  then have "?f ! (p div 8) AND ?g ! (p div 8) \<noteq> 0" by (metis bit_0_eq bot_apply bot_bool_def)
  moreover have "(?f ! (p div 8), ?g ! (p div 8)) \<in> set (zip ?f ?g)"
    using i by (auto simp: in_set_zip)
  ultimately show ?thesis by (auto simp: list_ex_iff)
qed

section \<open>Words and weights\<close>

lemma keys_term_counts: "set (map fst (term_counts ts)) = set ts"
proof -
  have "set (map fst (fold (\<lambda>t m. AList.map_default t 1 Suc m) ts m)) = set ts \<union> set (map fst m)" for m :: "(ustr \<times> nat) list"
    by (induction ts arbitrary: m) (auto simp: dom_map_default)
  then show ?thesis by (simp add: term_counts_def)
qed

lemma hashes_of_weights: "set (map fst (compute_token_weights env idf ts)) = hash_token env ` set ts"
proof -
  have "set (map fst (compute_token_weights env idf ts)) =
      hash_token env ` set (map fst (term_counts ts))"
    by (auto simp: compute_token_weights_def image_image case_prod_unfold)
  then show ?thesis by (simp only: keys_term_counts)
qed

lemma term_filter_size_bounds: "0 < term_filter_size v" "term_filter_size v * 8 < 2 ^ 64"
  by (cases v; simp add: sketch_sizes)+

section \<open>The fingerprint, bit by bit\<close>

definition vote :: "nat \<Rightarrow> u64 \<times> i32 \<Rightarrow> int" where
  "vote i p = (if bit (fst p) i then sint (snd p) else - sint (snd p))"

lemma odd_and_one: "(w AND 1 = 1) \<longleftrightarrow> bit w 0" for w :: u64
  by (simp add: and_one_eq bit_0 odd_iff_mod_2_eq_one)

lemma length_add_votes [simp]: "length (add_votes p v) = 64"
  by (simp add: add_votes_def case_prod_unfold)

lemma nth_add_votes: "i < 64 \<Longrightarrow> add_votes p v ! i = v ! i + vote i p"
  by (simp add: add_votes_def case_prod_unfold vote_def odd_and_one bit_simps)

lemma nth_votes: "i < 64 \<Longrightarrow> length v = 64 \<Longrightarrow> fold add_votes ps v ! i = v ! i + sum_list (map (vote i) ps)"
  by (induction ps arbitrary: v) (simp_all add: nth_add_votes)

lemma bit_gathered:
  fixes acc :: u64
  assumes "i < 64" "distinct is" "\<forall>k \<in> set is. k < 64"
  shows "bit (fold (\<lambda>k acc. if P k then acc OR push_bit k 1 else acc) is acc) i \<longleftrightarrow>
    bit acc i \<or> (i \<in> set is \<and> P i)"
  using assms by (induction "is" arbitrary: acc) (auto simp: bit_simps)

lemma bit_compute_simhash:
  "i < 64 \<Longrightarrow> bit (compute_simhash ts) i \<longleftrightarrow> 0 < sum_list (map (vote i) ts)"
  by (simp add: compute_simhash_def Let_def bit_gathered nth_votes)

section \<open>Both searches agree\<close>

lemma scan_counts:
  "fold (scan_step combine qs opts) es (tf, sim, hits) =
    (tf + length (filter (\<lambda>e. term_filter_maybe_overlaps e (qs_filter qs)) es),
     sim + length (filter (\<lambda>e. score_entry combine qs e (so_threshold opts) \<noteq> None) es),
     hits @ filter (\<lambda>p. so_min_score opts \<le> snd p) (List.map_filter
       (\<lambda>e. map_option (\<lambda>s. (se_frame_id e, s)) (score_entry combine qs e (so_threshold opts))) es))"
  by (induction es arbitrary: tf sim hits) (auto simp: scan_step_def score_entry_def Let_def List.map_filter_def)

lemma filter_sort_desc: "filter (\<lambda>p. P p) (sort_desc xs) = sort_desc (filter (\<lambda>p. P p) xs)"
  by (simp add: sort_desc_def filter_sort flip: rev_filter)

lemma sort_desc_desc: "sorted (rev (map snd (sort_desc xs)))"
  by (simp add: sort_desc_def rev_map)

lemma take_filter_desc:
  assumes "sorted (rev (map snd xs))"
  shows "filter (\<lambda>p. m \<le> snd p) (take n xs) = take n (filter (\<lambda>p. m \<le> snd p) xs)"
  using assms
proof (induction xs arbitrary: n)
  case (Cons x xs)
  show ?case
  proof (cases "m \<le> snd x")
    case True
    then show ?thesis using Cons by (cases n) (simp_all add: sorted_append)
  next
    case False
    then have "\<forall>p \<in> set xs. \<not> m \<le> snd p"
      using Cons.prems by (fastforce simp: sorted_append)
    then have "filter (\<lambda>p. m \<le> snd p) (x # xs) = []"
      using False by (simp add: filter_empty_conv)
    moreover from this have "filter (\<lambda>p. m \<le> snd p) (take n (x # xs)) = []"
      by (metis (no_types, lifting) append_is_Nil_conv append_take_drop_id filter_append)
    ultimately show ?thesis by simp
  qed
qed simp

section \<open>What is stored\<close>

lemma length_fill_terms [simp]: "length (fill_terms n ts) = n"
  by (simp add: fill_terms_def)

definition small_ok :: "sketch_small \<Rightarrow> bool" where
  "small_ok s \<longleftrightarrow> length (ss_filter s) = 16 \<and> length (ss_terms s) = 2"

definition medium_ok :: "sketch_medium \<Rightarrow> bool" where
  "medium_ok m \<longleftrightarrow> length (md_filter m) = 32 \<and> length (md_terms m) = 4"

lemma small_layout:
  "small_ok s \<Longrightarrow> small_to_bytes s =
     to_le 8 (ss_simhash s) @ ss_filter s @ to_le 4 (ss_terms s ! 0) @ to_le 4 (ss_terms s ! 1)"
  by (simp add: small_to_bytes_def small_ok_def Let_def sketch_sizes buf_simps)

lemma length_4_split: "length xs = 4 \<Longrightarrow> xs = [xs ! 0, xs ! 1, xs ! 2, xs ! 3]"
  by (rule nth_equalityI) (auto simp: nth_Cons' less_Suc_eq numeral_eq_Suc)

lemma medium_layout:
  assumes "medium_ok m"
  shows "medium_to_bytes m = to_le 8 (md_simhash m) @ md_filter m @ concat (map (to_le 4) (md_terms m)) @
     to_le 2 (md_weight_sum m) @ to_le 2 (md_flags m) @ to_le 2 (md_length_hint m) @ to_le 2 (md_reserved m)"
proof -
  obtain a b c d where t: "md_terms m = [a, b, c, d]"
    using assms length_4_split [of "md_terms m"] by (auto simp: medium_ok_def)
  show ?thesis
    using assms by (simp add: medium_to_bytes_def medium_ok_def Let_def sketch_sizes buf_simps t)
qed

interpretation small_codec: fixed_codec small_to_bytes "\<lambda>b. Some (small_from_bytes b)" small_ok 32
proof
  fix s assume s: "small_ok s"
  obtain a b where t: "ss_terms s = [a, b]"
    using s by (auto simp: small_ok_def length_Suc_conv numeral_2_eq_2)
  show "Some (small_from_bytes (small_to_bytes s)) = Some s"
    using s by (simp add: small_layout small_from_bytes_def small_ok_def buf_simps t)
  show "length (small_to_bytes s) = 32" using s by (simp add: small_layout small_ok_def)
qed simp

interpretation medium_codec: fixed_codec medium_to_bytes "\<lambda>b. Some (medium_from_bytes b)" medium_ok 64
proof
  fix m assume m: "medium_ok m"
  obtain a b c d where t: "md_terms m = [a, b, c, d]"
    using m length_4_split [of "md_terms m"] by (auto simp: medium_ok_def)
  show "Some (medium_from_bytes (medium_to_bytes m)) = Some m"
    using m by (simp add: medium_layout medium_from_bytes_def medium_ok_def buf_simps t sketch_sizes
        Let_def upt_rec)
  show "length (medium_to_bytes m) = 64" using m by (simp add: medium_layout medium_ok_def t)
qed simp

text \<open>What comes back of an entry; the Large variant is stored as a Medium one.\<close>

fun stored_as :: "sketch_variant \<Rightarrow> frame_id \<Rightarrow> sketch_entry \<Rightarrow> sketch_entry" where
  "stored_as Small fid e = \<lparr>se_frame_id = fid, se_simhash = se_simhash e,
     se_filter = (if 16 \<le> length (se_filter e) then take 16 (se_filter e) else replicate 16 0),
     se_terms = fill_terms 2 (se_terms e), se_weight_sum = 0, se_flags = all_flags, se_length_hint = 0\<rparr>"
| "stored_as v fid e = \<lparr>se_frame_id = fid, se_simhash = se_simhash e,
     se_filter = (if 32 \<le> length (se_filter e) then take 32 (se_filter e)
       else se_filter e @ replicate (32 - length (se_filter e)) 0),
     se_terms = fill_terms 4 (se_terms e), se_weight_sum = se_weight_sum e, se_flags = se_flags e,
     se_length_hint = se_length_hint e\<rparr>"

lemma small_stored: "length (to_small_bytes e) = 32" "from_small_bytes fid (to_small_bytes e) = stored_as Small fid e"
proof -
  let ?s = "default_small\<lparr>ss_simhash := se_simhash e,
      ss_filter := (if TERM_FILTER_SIZE_SMALL \<le> length (se_filter e)
        then take TERM_FILTER_SIZE_SMALL (se_filter e) else ss_filter default_small),
      ss_terms := fill_terms TOP_TERMS_COUNT_SMALL (se_terms e)\<rparr>"
  have s: "small_ok ?s" by (simp add: small_ok_def sketch_sizes default_small_def)
  show "length (to_small_bytes e) = 32"
    using small_codec.enc_width [OF s] by (simp add: to_small_bytes_def)
  show "from_small_bytes fid (to_small_bytes e) = stored_as Small fid e"
    using small_codec.dec_enc [OF s]
    by (simp add: to_small_bytes_def from_small_bytes_def Let_def) (simp add: sketch_sizes default_small_def)
qed

lemma medium_stored: "length (to_medium_bytes e) = 64" "from_medium_bytes fid (to_medium_bytes e) = stored_as Medium fid e"
proof -
  let ?m = "default_medium\<lparr>md_simhash := se_simhash e,
      md_filter := (if TERM_FILTER_SIZE_MEDIUM \<le> length (se_filter e)
        then take TERM_FILTER_SIZE_MEDIUM (se_filter e)
        else put_slice (md_filter default_medium) 0 (se_filter e)),
      md_terms := fill_terms TOP_TERMS_COUNT_MEDIUM (se_terms e),
      md_weight_sum := se_weight_sum e, md_flags := se_flags e, md_length_hint := se_length_hint e\<rparr>"
  have m: "medium_ok ?m"
    by (simp add: medium_ok_def sketch_sizes default_medium_def)
  show "length (to_medium_bytes e) = 64"
    using medium_codec.enc_width [OF m] by (simp add: to_medium_bytes_def)
  show "from_medium_bytes fid (to_medium_bytes e) = stored_as Medium fid e"
    using medium_codec.dec_enc [OF m]
    by (simp add: to_medium_bytes_def from_medium_bytes_def Let_def)
      (simp add: sketch_sizes default_medium_def buf_simps)
qed

lemma length_entry_bytes [simp]: "length (entry_to_bytes v e) = entry_size_of v"
  by (cases v) (simp_all add: small_stored medium_stored sketch_sizes)

lemma length_entries_bytes [simp]:
  "length (concat (map (entry_to_bytes v) es)) = length es * entry_size_of v"
  by (induction es) simp_all

lemma write_entries_write:
  "pos \<le> length f \<Longrightarrow> write_entries v f pos es =
     (write_at f pos (concat (map (entry_to_bytes v) es)), pos + length es * entry_size_of v)"
proof (induction es arbitrary: f pos)
  case Nil
  then show ?case by (simp add: write_at_def put_slice_def)
next
  case (Cons e es)
  have "pos + entry_size_of v \<le> length (write_at f pos (entry_to_bytes v e))"
    using length_entry_bytes [of v e] Cons.prems
    by (auto simp: length_write_at simp del: length_entry_bytes)
  then show ?case
    using Cons.IH [of "pos + entry_size_of v"] write_at_twice [OF Cons.prems, of "entry_to_bytes v e"]
    by (simp add: Let_def)
qed

lemma read_one_stored:
  assumes "length pre = pos"
  shows "read_one v (pre @ entry_to_bytes v e @ post) pos fid = Inr (stored_as v fid e, pos + entry_size_of v)"
proof (cases v)
  case Small
  then show ?thesis
    using assms by (simp add: read_one_def small_stored sketch_sizes buf_simps)
next
  case Medium
  then show ?thesis
    using assms by (simp add: read_one_def medium_stored sketch_sizes buf_simps)
next
  case Large
  then show ?thesis
    using assms by (simp add: read_one_def medium_stored sketch_sizes buf_simps)
qed

text \<open>The entries as the reading loop sees them: numbered from \<open>fid\<close> on.\<close>

fun renumber :: "sketch_variant \<Rightarrow> frame_id \<Rightarrow> sketch_entry list \<Rightarrow> sketch_entry list" where
  "renumber v fid [] = []"
| "renumber v fid (e # es) = stored_as v fid e # renumber v (fid + 1) es"

lemma read_entries_stored:
  "length pre = pos \<Longrightarrow>
     read_entries_from v (pre @ concat (map (entry_to_bytes v) es) @ post) pos fid (length es) t =
       Inr (fold trk_insert (renumber v fid es) t)"
proof (induction es arbitrary: pre pos fid t)
  case (Cons e es)
  have "read_entries_from v ((pre @ entry_to_bytes v e) @ concat (map (entry_to_bytes v) es) @ post)
      (pos + entry_size_of v) (fid + 1) (length es) (trk_insert (stored_as v fid e) t) =
      Inr (fold trk_insert (renumber v (fid + 1) es) (trk_insert (stored_as v fid e) t))"
    using Cons.prems by (intro Cons.IH) simp
  then show ?case
    using read_one_stored [OF Cons.prems, of v e] by simp
qed simp

lemma trk_get_insert: "trk_get (trk_insert e t) k = (if k = se_frame_id e then Some e else trk_get t k)"
  by (simp add: trk_get_def trk_insert_def Let_def update_conv' split: if_splits)

lemma stored_frame_id [simp]: "se_frame_id (stored_as v fid e) = fid"
  by (cases v) simp_all

lemma get_renumbered:
  "unat fid + length es < 2 ^ 64 \<Longrightarrow> trk_get (fold trk_insert (renumber v fid es) t) k =
     (if unat fid \<le> unat k \<and> unat k < unat fid + length es
      then Some (stored_as v k (es ! (unat k - unat fid))) else trk_get t k)"
proof (induction es arbitrary: fid t)
  case (Cons e es)
  have n: "unat (fid + 1) = Suc (unat fid)" using Cons.prems by (simp add: unat_plus_if')
  show ?case
  proof (cases "k = fid")
    case True
    then show ?thesis using Cons.IH [of "fid + 1"] Cons.prems n by (simp add: trk_get_insert)
  next
    case False
    then have "unat k \<noteq> unat fid" by (simp add: word_unat_eq_iff)
    then show ?thesis
      using Cons.IH [of "fid + 1"] Cons.prems n False
      by (auto simp: trk_get_insert nth_Cons')
  qed
qed auto

lemma length_sketch_magic [simp]: "length SKETCH_TRACK_MAGIC = 4"
  by (simp add: SKETCH_TRACK_MAGIC_def)

lemma length_sketch_header [simp]: "length (sketch_header_to_bytes (new_sketch_header v n)) = 24"
  by (simp add: sketch_header_to_bytes_def new_sketch_header_def SKETCH_HEADER_SIZE_def Let_def)

lemma sketch_header_roundtrip:
  "sketch_header_from_bytes (sketch_header_to_bytes (new_sketch_header v n)) = Inr (new_sketch_header v n)"
  by (simp add: sketch_header_from_bytes_def sketch_header_to_bytes_def new_sketch_header_def
      SKETCH_HEADER_SIZE_def Let_def buf_simps)

lemma header_variant_new: "header_variant (new_sketch_header v n) = Some v"
  "unat (sh_entry_size (new_sketch_header v n)) = entry_size_of v"
  by (cases v; simp add: header_variant_def new_sketch_header_def sketch_sizes)+

lemma sketch_bytes_written:
  assumes w: "write_sketch_track hash f pos t = (f', off, len, ck)" and pos: "pos \<le> length f"
    and n: "length (trk_iter t) = trk_len t"
  shows "f' = write_at f pos (sketch_header_to_bytes (new_sketch_header (trk_variant t) (of_nat (trk_len t))) @
      concat (map (entry_to_bytes (trk_variant t)) (trk_iter t)))"
    "off = pos" "len = 24 + trk_len t * entry_size_of (trk_variant t)"
proof -
  let ?v = "trk_variant t"
  let ?h = "sketch_header_to_bytes (new_sketch_header ?v (of_nat (trk_len t)))"
  let ?b = "concat (map (entry_to_bytes ?v) (trk_iter t))"
  have "pos + 24 \<le> length (write_at f pos ?h)"
    using length_sketch_header [of ?v "of_nat (trk_len t)"] by (auto simp: length_write_at simp del: length_sketch_header)
  then have "write_sketch_track hash f pos t = (write_at (write_at f pos ?h) (pos + length ?h) ?b, pos,
      24 + trk_len t * entry_size_of ?v, hash (?h @ ?b))"
    by (simp add: write_sketch_track_def write_entries_write n Let_def)
  then show "f' = write_at f pos (?h @ ?b)" "off = pos" "len = 24 + trk_len t * entry_size_of ?v"
    using w unfolding write_at_twice [OF pos] by simp_all
qed

lemma read_sketch_bytes:
  assumes f: "f = pre @ sketch_header_to_bytes (new_sketch_header v (of_nat (length es))) @
      concat (map (entry_to_bytes v) es) @ post"
    and off: "unat off = length pre" and len: "24 + length es * entry_size_of v \<le> unat len"
  shows "read_sketch_track f off len = Inr (fold trk_insert (renumber v 0 es) (new_track v))"
proof -
  let ?h = "sketch_header_to_bytes (new_sketch_header v (of_nat (length es)))"
  have small: "24 + length es * entry_size_of v < 2 ^ 64"
    using len unat64_less [of len] by linarith
  have "0 < entry_size_of v" by (cases v) (simp_all add: sketch_sizes)
  then have "length es \<le> length es * entry_size_of v" by simp
  then have "length es < 2 ^ 64" using small by linarith
  then have m: "unat (sh_entry_count (new_sketch_header v (of_nat (length es)))) = length es"
    by (simp add: new_sketch_header_def unat_of_nat take_bit_eq_mod)
  have r: "read_exact f (length pre) 24 = Inr ?h"
    by (simp add: f buf_simps)
  have "read_entries_from v ((pre @ ?h) @ concat (map (entry_to_bytes v) es) @ post) (length pre + 24) 0
      (length es) (new_track v) = Inr (fold trk_insert (renumber v 0 es) (new_track v))"
    by (intro read_entries_stored) simp
  then have e: "read_entries_from v f (length pre + 24) 0 (length es) (new_track v) =
      Inr (fold trk_insert (renumber v 0 es) (new_track v))"
    by (simp add: f)
  have "\<not> 2 ^ 64 \<le> 24 + length es * entry_size_of v" "\<not> unat len < 24 + length es * entry_size_of v"
    using small len by simp_all
  then show ?thesis
    using e by (simp add: read_sketch_track_def SKETCH_HEADER_SIZE_def sketch_header_roundtrip
        header_variant_new off r m Let_def)
qed

lemma read_written:
  assumes w: "write_sketch_track hash f pos t = (f', off, len, ck)" and pos: "pos \<le> length f"
    and n: "length (trk_iter t) = trk_len t" and small: "pos + len < 2 ^ 64"
  shows "read_sketch_track f' (of_nat off) (of_nat len) =
      Inr (fold trk_insert (renumber (trk_variant t) 0 (trk_iter t)) (new_track (trk_variant t)))"
proof (rule read_sketch_bytes)
  have unat_len: "unat (of_nat len :: u64) = len"
    using small by (simp add: unat_of_nat take_bit_eq_mod)
  let ?x = "sketch_header_to_bytes (new_sketch_header (trk_variant t) (of_nat (trk_len t))) @
      concat (map (entry_to_bytes (trk_variant t)) (trk_iter t))"
  show "f' = take pos f @ sketch_header_to_bytes (new_sketch_header (trk_variant t) (of_nat (length (trk_iter t)))) @
      concat (map (entry_to_bytes (trk_variant t)) (trk_iter t)) @ drop (pos + length ?x) f"
    using sketch_bytes_written(1) [OF w pos n] write_at_mid [OF pos, of ?x] by (simp only: n append_assoc)
  show "unat (of_nat off :: u64) = length (take pos f)"
    using sketch_bytes_written(2) [OF w pos n] small pos by (simp add: unat_of_nat take_bit_eq_mod)
  show "24 + length (trk_iter t) * entry_size_of (trk_variant t) \<le> unat (of_nat len :: u64)"
    unfolding unat_len using sketch_bytes_written(3) [OF w pos n] n by simp
qed

text \<open>The tracks that inserts build.\<close>

definition track_ok :: "sketch_track \<Rightarrow> bool" where
  "track_ok t \<longleftrightarrow> distinct (trk_order t) \<and> distinct (map fst (trk_entries t)) \<and>
     set (trk_order t) = set (map fst (trk_entries t)) \<and>
     (\<forall>fid e. trk_get t fid = Some e \<longrightarrow> se_frame_id e = fid)"

lemma new_track_ok: "track_ok (new_track v)"
  by (simp add: track_ok_def new_track_def trk_get_def)

lemma keys_trk: "trk_get t k = None \<longleftrightarrow> k \<notin> set (map fst (trk_entries t))"
  by (simp add: trk_get_def map_of_eq_None_iff)

lemma insert_ok:
  assumes "track_ok t"
  shows "track_ok (trk_insert e t)"
proof -
  have "trk_get (trk_insert e t) fid = Some e' \<Longrightarrow> se_frame_id e' = fid" for fid e'
    using assms by (auto simp: trk_get_insert track_ok_def split: if_splits)
  moreover have "distinct (map fst (trk_entries (trk_insert e t)))"
    using assms by (simp add: trk_insert_def Let_def track_ok_def distinct_update)
  moreover have "distinct (trk_order (trk_insert e t)) \<and>
      set (trk_order (trk_insert e t)) = set (map fst (trk_entries (trk_insert e t)))"
    using assms keys_trk [of t "se_frame_id e"]
    by (auto simp: trk_insert_def Let_def track_ok_def dom_update)
  ultimately show ?thesis by (simp add: track_ok_def)
qed

lemma iter_complete:
  assumes "track_ok t"
  shows "map se_frame_id (trk_iter t) = trk_order t" "length (trk_iter t) = trk_len t"
proof -
  have "map se_frame_id (List.map_filter (trk_get t) fs) = fs"
    if "set fs \<subseteq> set (map fst (trk_entries t))" for fs
    using that
  proof (induction fs)
    case (Cons k ks)
    then obtain e where "trk_get t k = Some e" using keys_trk [of t k] by auto
    then show ?case using Cons assms by (simp add: List.map_filter_simps track_ok_def)
  qed (simp add: List.map_filter_simps)
  then show m: "map se_frame_id (trk_iter t) = trk_order t"
    using assms by (simp add: trk_iter_def track_ok_def)
  have "length (trk_order t) = length (map fst (trk_entries t))"
    using assms distinct_card [of "trk_order t"] distinct_card [of "map fst (trk_entries t)"]
    by (simp add: track_ok_def)
  then show "length (trk_iter t) = trk_len t"
    using arg_cong [OF m, of length] by (simp add: trk_len_def)
qed

lemma inserts_ok: "track_ok t \<Longrightarrow> track_ok (fold trk_insert es t)"
  by (induction es arbitrary: t) (simp_all add: insert_ok)

section \<open>Properties\<close>

text \<open>C33. The word filter of the sketch track never hides a frame that shares a word with the query:
  if some word of the normalised string \<open>s\<close> occurs in the query \<open>q\<close>, then the sketch of \<open>s\<close>
  passes the filter test against the sketch of \<open>q\<close> in the same variant, whatever the weights.\<close>

theorem shared_word_passes_filter:
  assumes "t \<in> set (tokenize_for_sketch env s)" "t \<in> set (tokenize_for_sketch env q)"
  shows "term_filter_maybe_overlaps (generate_sketch env fid s v idf) (qs_filter (from_query env q v))"
proof -
  let ?ws = "\<lambda>idf x. compute_token_weights env idf (tokenize_for_sketch env x)"
  have "hash_token env t \<in> set (map fst (?ws idf s))" "hash_token env t \<in> set (map fst (?ws None q))"
    using assms by (simp_all only: hashes_of_weights imageI)
  moreover have "se_filter (generate_sketch env fid s v idf) = build_term_filter (map fst (?ws idf s)) (term_filter_size v)"
    "qs_filter (from_query env q v) = build_term_filter (map fst (?ws None q)) (term_filter_size v)"
    using assms by (auto simp: generate_sketch_def from_query_def Let_def)
  ultimately show ?thesis
    unfolding term_filter_maybe_overlaps_def by (simp only: filters_meet term_filter_size_bounds)
qed

text \<open>C34. The sketch track does not keep the frame ids of its sketches: after \<open>write_sketch_track\<close> and
  \<open>read_sketch_track\<close>, the sketch that was the \<open>i\<close>-th in insertion order is found under the frame id
  \<open>i\<close> (reduced to what its variant stores), and no other id has a sketch.\<close>

theorem reopened_sketches_renumbered:
  assumes "track_ok t" "write_sketch_track hash f pos t = (f', off, len, ck)"
    and "pos \<le> length f" "pos + len < 2 ^ 64"
  shows "\<exists>t'. read_sketch_track f' (of_nat off) (of_nat len) = Inr t' \<and>
    (\<forall>k. trk_get t' k = (if unat k < trk_len t
       then Some (stored_as (trk_variant t) k (trk_iter t ! unat k)) else None))"
proof (intro exI conjI allI)
  note n = iter_complete(2) [OF assms(1)]
  show "read_sketch_track f' (of_nat off) (of_nat len) =
      Inr (fold trk_insert (renumber (trk_variant t) 0 (trk_iter t)) (new_track (trk_variant t)))"
    by (rule read_written [OF assms(2,3) n assms(4)])
  have "0 < entry_size_of (trk_variant t)" by (cases "trk_variant t") (simp_all add: sketch_sizes)
  then have "trk_len t \<le> trk_len t * entry_size_of (trk_variant t)" by simp
  then have "trk_len t < 2 ^ 64"
    using sketch_bytes_written(3) [OF assms(2,3) n] assms(4) by linarith
  then show "trk_get (fold trk_insert (renumber (trk_variant t) 0 (trk_iter t)) (new_track (trk_variant t))) k =
      (if unat k < trk_len t then Some (stored_as (trk_variant t) k (trk_iter t ! unat k)) else None)" for k
    by (simp add: get_renumbered n) (simp add: new_track_def trk_get_def)
qed

text \<open>The two searches of the sketch track return the same candidates: the one that reports
  statistics filters by the minimum score while it scans, the plain one after it has sorted and cut the
  hits, and both give the same list.\<close>

theorem searches_agree:
  "fst (find_sketch_candidates_with_stats env combine q opts t) = find_sketch_candidates env combine q opts t"
proof -
  let ?qs = "from_query env q (trk_variant t)"
  let ?raw = "List.map_filter (\<lambda>e. map_option (\<lambda>s. (se_frame_id e, s))
      (score_entry combine ?qs e (so_threshold opts))) (trk_iter t)"
  have "filter (\<lambda>p. so_min_score opts \<le> snd p) (take (so_max_candidates opts) (sort_desc ?raw)) =
      take (so_max_candidates opts) (sort_desc (filter (\<lambda>p. so_min_score opts \<le> snd p) ?raw))"
    by (simp only: take_filter_desc [OF sort_desc_desc] filter_sort_desc)
  then show ?thesis
    by (simp add: find_sketch_candidates_with_stats_def find_sketch_candidates_def find_candidates_def
        Let_def scan_counts)
qed

section \<open>Concrete instances\<close>

text \<open>A hash that only looks at the first byte is enough to run the definitions.\<close>

definition demo_env :: sketch_env where
  "demo_env = \<lparr>sx_nfkc = id, sx_lower = id, sx_alnum = (\<lambda>c. c \<noteq> 32),
     sx_blake = (\<lambda>b. b @ replicate 32 7)\<rparr>"

text \<open>Sketches of the frames 5 and 9 come back as those of the frames 0 and 1.\<close>

definition demo_track :: sketch_track where
  "demo_track = fold trk_insert [(new_entry 5 Small)\<lparr>se_simhash := 77\<rparr>, (new_entry 9 Small)\<lparr>se_simhash := 88\<rparr>]
     (new_track Small)"

theorem shared_word_passes_filter_witness:
  "term_filter_maybe_overlaps (generate_sketch demo_env 3 [97, 98, 32, 99, 100] Small None)
     (qs_filter (from_query demo_env [99, 100] Small))"
proof (rule shared_word_passes_filter [where t = "[99, 100]"])
  show "[99, 100] \<in> set (tokenize_for_sketch demo_env [97, 98, 32, 99, 100])" by code_simp
  show "[99, 100] \<in> set (tokenize_for_sketch demo_env [99, 100])" by code_simp
qed

lemma demo_track_ok: "track_ok demo_track"
  by (simp add: demo_track_def insert_ok new_track_ok)

theorem reopened_sketches_renumbered_witness:
  "case write_sketch_track id [] 0 demo_track of (f', off, len, ck) \<Rightarrow>
     \<exists>t'. read_sketch_track f' (of_nat off) (of_nat len) = Inr t' \<and>
       trk_get t' 5 = None \<and> trk_get demo_track 5 \<noteq> None \<and>
       map_option se_simhash (trk_get t' 0) = Some 77"
proof -
  obtain f' off len ck where w: "write_sketch_track id [] 0 demo_track = (f', off, len, ck)"
    by (cases "write_sketch_track id [] 0 demo_track") auto
  have "fst (snd (snd (write_sketch_track id [] 0 demo_track))) = 88" by code_simp
  then have l: "len = 88" by (simp add: w)
  have e: "trk_get demo_track 5 \<noteq> None" "trk_len demo_track = 2" "trk_variant demo_track = Small"
    "se_simhash (trk_iter demo_track ! 0) = 77" by code_simp+
  obtain t' where t': "read_sketch_track f' (of_nat off) (of_nat len) = Inr t'"
    and k: "\<And>k. trk_get t' k = (if unat k < trk_len demo_track
       then Some (stored_as (trk_variant demo_track) k (trk_iter demo_track ! unat k)) else None)"
    using reopened_sketches_renumbered [OF demo_track_ok w] l by auto
  have "trk_get t' 5 = None" "map_option se_simhash (trk_get t' 0) = Some 77"
    using e by (simp_all add: k)
  then show ?thesis using w t' e by simp
qed

text \<open>The Large variant is stored with half of its filter.  A word whose three positions all lie in the
  second half is found before the track is written, and hidden afterwards.\<close>

lemma large_filter_halved:
  "let q = build_term_filter [0x10001000100] 64; e = (new_entry 0 Large)\<lparr>se_filter := q\<rparr>
   in term_filter_maybe_overlaps e q \<and> \<not> term_filter_maybe_overlaps (stored_as Large 0 e) q"
  by code_simp

end
