(* ===== verification/F32.thy ===== *)
theory F32
  imports Complex_Main
begin

text \<open>
  The arithmetic of \<open>f32\<close> on finite values: a value is the rational number it stands for, an
  operation is the exact one followed by rounding to 24 significant bits, ties to even, with the
  smallest exponent of the subnormal numbers.  Not covered: overflow to infinity, NaN and the sign
  of zero; the program only computes with values of moderate size.
\<close>

type_synonym flt = rat

definition pow2 :: "int \<Rightarrow> rat" where
  "pow2 k = (if 0 \<le> k then 2 ^ nat k else 1 / 2 ^ nat (- k))"

text \<open>The exponent of a positive number: the floor of its binary logarithm.\<close>

function log2 :: "int \<Rightarrow> int" where
  "log2 n = (if n < 2 then 0 else 1 + log2 (n div 2))"
  by pat_completeness auto
termination by (relation "measure nat") auto

declare log2.simps [simp del]

definition exp_of :: "rat \<Rightarrow> int" where
  "exp_of x =
     (let (p, q) = quotient_of x; d = log2 p - log2 q in
      if pow2 d \<le> x then d else d - 1)"

definition round_even :: "rat \<Rightarrow> int" where
  "round_even x =
     (let n = \<lfloor>x\<rfloor>; r = x - of_int n in
      if r < 1 / 2 then n else if 1 / 2 < r then n + 1 else if even n then n else n + 1)"

definition ulp_exp :: "rat \<Rightarrow> int" where
  "ulp_exp x = max (exp_of \<bar>x\<bar> - 23) (- 149)"

definition rnd :: "rat \<Rightarrow> flt" where
  "rnd x = (if x = 0 then 0 else of_int (round_even (x / pow2 (ulp_exp x))) * pow2 (ulp_exp x))"

definition fadd :: "flt \<Rightarrow> flt \<Rightarrow> flt" where "fadd a b = rnd (a + b)"
definition fsub :: "flt \<Rightarrow> flt \<Rightarrow> flt" where "fsub a b = rnd (a - b)"
definition fmul :: "flt \<Rightarrow> flt \<Rightarrow> flt" where "fmul a b = rnd (a * b)"
definition fdiv :: "flt \<Rightarrow> flt \<Rightarrow> flt" where "fdiv a b = rnd (a / b)"

text \<open>\<open>as f32\<close> of an integer, a literal of the source, and \<open>clamp\<close>.\<close>

definition of_count :: "nat \<Rightarrow> flt" where "of_count n = rnd (of_nat n)"
definition of_signed :: "int \<Rightarrow> flt" where "of_signed n = rnd (of_int n)"
definition dec :: "rat \<Rightarrow> flt" where "dec x = rnd x"
definition fclamp :: "flt \<Rightarrow> flt \<Rightarrow> flt \<Rightarrow> flt" where "fclamp lo hi x = (if x < lo then lo else if hi < x then hi else x)"

section \<open>Powers and exponents\<close>

lemma pow2_pos [simp]: "0 < pow2 k"
  by (simp add: pow2_def)

lemma pow2_nonneg [simp]: "0 \<le> pow2 k" and pow2_neq [simp]: "pow2 k \<noteq> 0"
  using pow2_pos [of k] by linarith+

lemma pow2_powi: "pow2 k = 2 powi k"
  by (simp add: pow2_def power_int_def inverse_eq_divide power_one_over)

lemma pow2_add: "pow2 (a + b) = pow2 a * pow2 b"
  by (simp add: pow2_powi power_int_add)

lemma pow2_strict: "a < b \<Longrightarrow> pow2 a < pow2 b"
  by (simp add: pow2_powi power_int_strict_increasing)

lemma pow2_less [simp]: "pow2 a < pow2 b \<longleftrightarrow> a < b"
  using pow2_strict [of a b] pow2_strict [of b a] by (cases a b rule: linorder_cases) auto

lemma pow2_le [simp]: "pow2 a \<le> pow2 b \<longleftrightarrow> a \<le> b"
  by (simp flip: not_less)

lemma pow2_Suc: "pow2 (k + 1) = 2 * pow2 k"
  by (simp add: pow2_add) (simp add: pow2_def)

lemma pow2_int: "0 \<le> k \<Longrightarrow> pow2 k = of_int (2 ^ nat k)"
  by (simp add: pow2_def)

lemma log2_bounds: "0 < n \<Longrightarrow> 0 \<le> log2 n \<and> pow2 (log2 n) \<le> of_int n \<and> of_int n < pow2 (log2 n + 1)"
proof (induction n rule: log2.induct)
  case (1 n)
  show ?case
  proof (cases "n < 2")
    case True
    then have "n = 1" using 1 by simp
    then show ?thesis by (simp add: log2.simps pow2_def)
  next
    case False
    let ?m = "n div 2"
    have IH: "0 \<le> log2 ?m" "pow2 (log2 ?m) \<le> of_int ?m" "of_int ?m < pow2 (log2 ?m + 1)"
      using 1 False by simp_all
    have l: "log2 n = log2 ?m + 1" using False by (subst log2.simps) simp
    have "(of_int ?m :: rat) < of_int (2 ^ nat (log2 ?m + 1))"
      using IH(1,3) pow2_int [of "log2 ?m + 1"] by (simp only:)
    then have "?m < 2 ^ nat (log2 ?m + 1)" by (simp only: of_int_less_iff)
    then have "?m + 1 \<le> 2 ^ nat (log2 ?m + 1)" by simp
    then have "of_int (?m + 1) \<le> pow2 (log2 ?m + 1)"
      using IH(1) by (simp only: pow2_int of_int_le_iff)
    moreover have "2 * ?m \<le> n" "n < 2 * (?m + 1)" by presburger+
    then have "2 * of_int ?m \<le> (of_int n :: rat)" "of_int n < (2 * of_int (?m + 1) :: rat)"
      using of_int_le_iff [of "2 * ?m" n, where 'a = rat] of_int_less_iff [of n "2 * (?m + 1)", where 'a = rat]
      by simp_all
    ultimately show ?thesis using IH(1,2) unfolding l pow2_Suc by simp
  qed
qed

lemma exp_of_bounds:
  assumes "0 < x"
  shows "pow2 (exp_of x) \<le> x" "x < pow2 (exp_of x + 1)"
proof -
  obtain p q where pq: "quotient_of x = (p, q)" by (cases "quotient_of x")
  have q: "0 < q" and x: "x = of_int p / of_int q"
    using pq quotient_of_denom_pos quotient_of_div by blast+
  have p: "0 < p" using assms q x by (simp add: zero_less_divide_iff)
  let ?P = "of_int p :: rat" and ?Q = "of_int q :: rat"
  define a b where "a = log2 p" and "b = log2 q"
  have P: "pow2 a \<le> ?P" "?P < pow2 (a + 1)" and Q: "pow2 b \<le> ?Q" "?Q < pow2 (b + 1)"
    using log2_bounds [OF p] log2_bounds [OF q] by (simp_all add: a_def b_def)
  have xq: "x * ?Q = ?P" using q by (simp add: x)
  have "pow2 (a - b - 1) * pow2 (b + 1) = pow2 a" "pow2 (a - b + 1) * pow2 b = pow2 (a + 1)"
    by (simp_all flip: pow2_add)
  moreover have "pow2 (a - b - 1) * ?Q \<le> pow2 (a - b - 1) * pow2 (b + 1)"
    "pow2 (a - b + 1) * pow2 b \<le> pow2 (a - b + 1) * ?Q"
    using Q by (simp_all add: mult_left_mono less_imp_le)
  ultimately have "pow2 (a - b - 1) * ?Q \<le> x * ?Q" "x * ?Q < pow2 (a - b + 1) * ?Q"
    using P xq by linarith+
  then have lo: "pow2 (a - b - 1) \<le> x" and hi: "x < pow2 (a - b + 1)"
    using q by simp_all
  have "exp_of x = (if pow2 (a - b) \<le> x then a - b else a - b - 1)"
    by (simp add: exp_of_def pq a_def b_def)
  then show "pow2 (exp_of x) \<le> x" "x < pow2 (exp_of x + 1)"
    using lo hi by (auto split: if_splits)
qed

lemma exp_of_mono: "0 < x \<Longrightarrow> x \<le> y \<Longrightarrow> exp_of x \<le> exp_of y"
  using exp_of_bounds [of x] exp_of_bounds [of y] pow2_less [of "exp_of x" "exp_of y + 1"] by linarith

section \<open>Rounding is monotone and fixes the representable numbers\<close>

lemma round_even_of_int [simp]: "round_even (of_int n) = n"
  by (simp add: round_even_def)

lemma round_even_zero [simp]: "round_even 0 = 0"
  using round_even_of_int [of 0] by simp

lemma round_even_mono:
  assumes "x \<le> y"
  shows "round_even x \<le> round_even y"
proof (cases "\<lfloor>x\<rfloor> = \<lfloor>y\<rfloor>")
  case True
  then show ?thesis using assms by (auto simp: round_even_def Let_def)
next
  case False
  then have "\<lfloor>x\<rfloor> + 1 \<le> \<lfloor>y\<rfloor>" using floor_mono [OF assms] by linarith
  moreover have "round_even x \<le> \<lfloor>x\<rfloor> + 1" "\<lfloor>y\<rfloor> \<le> round_even y" by (auto simp: round_even_def Let_def)
  ultimately show ?thesis by linarith
qed

lemma round_even_minus: "round_even (- x) = - round_even x"
proof (cases "x = of_int \<lfloor>x\<rfloor>")
  case True
  then show ?thesis by (metis of_int_minus round_even_of_int)
next
  case False
  then have f: "\<lfloor>- x\<rfloor> = - \<lfloor>x\<rfloor> - 1" by (simp add: floor_minus ceiling_altdef)
  show ?thesis by (auto simp: round_even_def Let_def f)
qed

lemma rnd_zero [simp]: "rnd 0 = 0"
  by (simp add: rnd_def)

lemma rnd_minus: "rnd (- x) = - rnd x"
  by (simp add: rnd_def ulp_exp_def round_even_minus minus_divide_left [symmetric])

text \<open>The representable numbers: multiples of a power of two with at most 24 bits.\<close>

definition representable :: "rat \<Rightarrow> bool" where
  "representable x \<longleftrightarrow> (\<exists>m e. x = of_int m * pow2 e \<and> \<bar>m\<bar> < 2 ^ 24 \<and> - 149 \<le> e)"

lemma pow2_diff: "a \<le> b \<Longrightarrow> pow2 b = of_int (2 ^ nat (b - a)) * pow2 a"
  using pow2_add [of "b - a" a] pow2_int [of "b - a"] by simp

lemma rnd_multiple:
  assumes "ulp_exp x \<le> e" "x = of_int m * pow2 e"
  shows "rnd x = x"
proof -
  define u k where "u = ulp_exp x" and "k = nat (e - ulp_exp x)"
  have x: "x = of_int (m * 2 ^ k) * pow2 u"
    using pow2_diff [OF assms(1)] assms(2) by (simp add: u_def k_def)
  then have q: "x / pow2 u = of_int (m * 2 ^ k)" by simp
  have "rnd x = of_int (round_even (x / pow2 u)) * pow2 u"
    unfolding rnd_def u_def by (cases "x = 0") simp_all
  also have "\<dots> = of_int (m * 2 ^ k) * pow2 u" unfolding q round_even_of_int ..
  also have "\<dots> = x" using x by (rule sym)
  finally show ?thesis .
qed

lemma rnd_representable:
  assumes "representable x"
  shows "rnd x = x"
proof (cases "x = 0")
  case False
  obtain m e where x: "x = of_int m * pow2 e" and m: "\<bar>m\<bar> < 2 ^ 24" and e: "- 149 \<le> e"
    using assms by (auto simp: representable_def)
  have b: "pow2 (exp_of \<bar>x\<bar>) \<le> \<bar>x\<bar>" using False exp_of_bounds [of "\<bar>x\<bar>"] by simp
  have "\<bar>of_int m :: rat\<bar> < 2 ^ 24" using m by (metis of_int_abs of_int_less_iff of_int_numeral of_int_power)
  then have "\<bar>x\<bar> < 2 ^ 24 * pow2 e" using x by (simp add: abs_mult)
  moreover have "pow2 (e + 24) = 2 ^ 24 * pow2 e" by (simp add: pow2_add) (simp add: pow2_def)
  ultimately have "exp_of \<bar>x\<bar> < e + 24" using b pow2_less [of "exp_of \<bar>x\<bar>" "e + 24"] by linarith
  then have "ulp_exp x \<le> e" using e by (simp add: ulp_exp_def)
  then show ?thesis using x by (rule rnd_multiple)
qed simp

lemma rnd_pos_def: "0 < x \<Longrightarrow> rnd x = of_int (round_even (x / pow2 (ulp_exp x))) * pow2 (ulp_exp x)"
  by (simp add: rnd_def)

lemma round_even_le: "x \<le> of_int n \<Longrightarrow> round_even x \<le> n" and round_even_ge: "of_int n \<le> x \<Longrightarrow> n \<le> round_even x"
  using round_even_mono [of x "of_int n"] round_even_mono [of "of_int n" x] by simp_all

lemma rnd_mono_pos:
  assumes "0 < x" "x \<le> y"
  shows "rnd x \<le> rnd y"
proof (cases "ulp_exp x = ulp_exp y")
  case True
  have "round_even (x / pow2 (ulp_exp y)) \<le> round_even (y / pow2 (ulp_exp y))"
    using assms by (intro round_even_mono divide_right_mono) simp_all
  then show ?thesis using assms True by (simp add: rnd_pos_def mult_right_mono)
next
  case False
  define u v where "u = ulp_exp x" and "v = ulp_exp y"
  have e: "exp_of x \<le> exp_of y" using exp_of_mono assms by simp
  then have v: "v = exp_of y - 23" and l: "u + 24 \<le> v + 23" "exp_of x - 23 \<le> u"
    using False assms by (auto simp: u_def v_def ulp_exp_def max_def split: if_splits)
  have p: "pow2 (k + 24) = of_int (2 ^ 24) * pow2 k" "pow2 (k + 23) = of_int (2 ^ 23) * pow2 k" for k
    by (simp_all add: pow2_add) (simp_all add: pow2_def)
  have "x < pow2 (exp_of x + 1)" using exp_of_bounds(2) assms(1) .
  also have "\<dots> \<le> pow2 (u + 24)" using l by simp
  finally have "x / pow2 u \<le> of_int (2 ^ 24)" by (simp add: p pos_divide_le_eq)
  then have "of_int (round_even (x / pow2 u)) * pow2 u \<le> of_int (2 ^ 24) * pow2 u"
    by (intro mult_right_mono) (simp_all only: of_int_le_iff round_even_le pow2_nonneg)
  then have "rnd x \<le> pow2 (u + 24)" using assms(1) by (simp only: rnd_pos_def u_def p)
  also have "\<dots> \<le> pow2 (v + 23)" using l by simp
  also have "\<dots> \<le> rnd y"
  proof -
    have "pow2 (v + 23) \<le> y" using exp_of_bounds(1) [of y] assms v by simp
    then have "of_int (2 ^ 23) \<le> y / pow2 v" by (simp add: p pos_le_divide_eq)
    then have "of_int (2 ^ 23) * pow2 v \<le> of_int (round_even (y / pow2 v)) * pow2 v"
      by (intro mult_right_mono) (simp_all only: of_int_le_iff round_even_ge pow2_nonneg)
    then show ?thesis using assms by (simp add: rnd_pos_def v_def p)
  qed
  finally show ?thesis .
qed

lemma rnd_nonneg: "0 \<le> x \<Longrightarrow> 0 \<le> rnd x"
  using round_even_ge [of 0 "x / pow2 (ulp_exp x)"] by (simp add: rnd_def)

lemma rnd_mono: "x \<le> y \<Longrightarrow> rnd x \<le> rnd y"
proof -
  assume xy: "x \<le> y"
  consider "0 < x" | "x \<le> 0" "0 \<le> y" | "y < 0" by linarith
  then show ?thesis
  proof cases
    case 1
    then show ?thesis using rnd_mono_pos xy by simp
  next
    case 2
    then show ?thesis using rnd_nonneg [of y] rnd_nonneg [of "- x"] by (simp add: rnd_minus)
  next
    case 3
    then show ?thesis using rnd_mono_pos [of "- y" "- x"] xy by (simp add: rnd_minus)
  qed
qed

lemma rnd_one [simp]: "rnd 1 = 1"
  by (rule rnd_representable) (use pow2_def [of 0] in \<open>force simp: representable_def intro: exI [of _ 1] exI [of _ 0]\<close>)

lemma fclamp_bounds: "lo \<le> hi \<Longrightarrow> lo \<le> fclamp lo hi x" "lo \<le> hi \<Longrightarrow> fclamp lo hi x \<le> hi"
  by (auto simp: fclamp_def)

lemma fclamp_mono: "x \<le> y \<Longrightarrow> fclamp lo hi x \<le> fclamp lo hi y" if "lo \<le> hi"
  using that by (auto simp: fclamp_def)

end
