(* ===== verification/Agent_Types.thy ===== *)
theory Agent_Types
  imports Text_Base F32
begin

text \<open>
  The data of the governed agent memory (\<open>agent_memory/enums.rs\<close>, \<open>agent_memory/schemas.rs\<close>,
  \<open>agent_memory/errors.rs\<close>): layers, types and statuses with their names, candidates, durable
  memories, the records read off them, and beliefs.

  A \<open>BTreeMap<String, String>\<close> is a map.  A \<open>DateTime<Utc>\<close> is a number of nanoseconds.  An \<open>f32\<close> is
  a value of F32.  A count is a \<open>u32\<close> as a number: a plain addition wraps.  \<open>agent_env\<close> holds the
  Unicode lower-casing, the RFC 3339 format of chrono and the printing and parsing of floats.
\<close>

type_synonym time = int
type_synonym meta = "ustr \<Rightarrow> ustr option"

record agent_env =
  ag_lower :: "ustr \<Rightarrow> ustr"
  ag_parse_time :: "ustr \<Rightarrow> time option"
  ag_show_time :: "time \<Rightarrow> ustr"
  ag_show_flt :: "flt \<Rightarrow> ustr"
  ag_show_fix :: "nat \<Rightarrow> flt \<Rightarrow> ustr"
  ag_parse_flt :: "ustr \<Rightarrow> flt option"

text \<open>\<open>DateTime::timestamp\<close>, \<open>Option::unwrap_or\<close>, \<open>Option::or\<close>, and additions of \<open>u32\<close> and \<open>i64\<close>.\<close>

definition secs :: "time \<Rightarrow> int" where "secs t = t div 1000000000"

definition unwrap_or :: "'a \<Rightarrow> 'a option \<Rightarrow> 'a" where
  "unwrap_or d x = (case x of None \<Rightarrow> d | Some y \<Rightarrow> y)"

definition or_opt :: "'a option \<Rightarrow> 'a option \<Rightarrow> 'a option" where
  "or_opt a b = (case a of None \<Rightarrow> b | Some x \<Rightarrow> Some x)"

definition add32 :: "nat \<Rightarrow> nat \<Rightarrow> nat" where "add32 a b = (a + b) mod 4294967296"
definition sat32 :: "nat \<Rightarrow> nat \<Rightarrow> nat" where "sat32 a b = min (a + b) 4294967295"
definition wrap64 :: "int \<Rightarrow> int" where "wrap64 x = (x + 2 ^ 63) mod 2 ^ 64 - 2 ^ 63"

lemma unwrap_or_simps [simp]: "unwrap_or d None = d" "unwrap_or d (Some x) = x"
  by (simp_all add: unwrap_or_def)

lemma or_opt_simps [simp]: "or_opt None b = b" "or_opt (Some x) b = Some x" "or_opt a None = a"
  by (simp_all add: or_opt_def split: option.splits)

lemma or_opt_None [simp]: "or_opt a b = None \<longleftrightarrow> a = None \<and> b = None"
  by (cases a) simp_all

lemma or_opt_Some [simp]: "(\<exists>y. or_opt a b = Some y) \<longleftrightarrow> a \<noteq> None \<or> b \<noteq> None"
  by (cases a) auto

section \<open>Enumerations\<close>

datatype memory_type = Trace | Episode | Fact | Preference | GoalState
datatype memory_layer = Trace | Episode | Belief | GoalState | SelfModel | Procedure
datatype belief_status = Active | Disputed | Stale | Retracted
datatype belief_view_status = Active | Contested | Superseded | Retracted
datatype query_intent = CurrentFact | HistoricalFact | PreferenceLookup | TaskState | EpisodicRecall
  | SemanticBackground
datatype source_type = Chat | File | Tool | System | External
datatype scope = Private | Task | Project | Shared
datatype promotion_decision = Reject | StoreTrace | Promote
datatype belief_action = Reinforce | Update | Dispute | Retract
datatype goal_status = Active | Inactive | Blocked | WaitingOnUser | WaitingOnSystem | Stale | Completed
datatype self_model_kind = Preference | ResponseStyle | RiskTolerance | ToolPreference | ProjectNorm
  | Constraint | Value | WorkPattern | CapabilityLimit
datatype stability_class = StableDirective | FlexiblePreference
datatype update_requirement = TrustedOrCorroborated | ReinforcementAllowed
datatype procedure_status = Active | CoolingDown | Retired
datatype outcome_kind = Positive | Negative

datatype agent_error = InvalidCandidate string | BeliefSerialization string | StoreFailure string
  | MemvidFailure string | JsonFailure string

type_synonym 'a ares = "agent_error + 'a"

fun layer_str :: "memory_layer \<Rightarrow> ustr" where
  "layer_str Trace = lit ''trace''"
| "layer_str Episode = lit ''episode''"
| "layer_str Belief = lit ''belief''"
| "layer_str GoalState = lit ''goal_state''"
| "layer_str SelfModel = lit ''self_model''"
| "layer_str Procedure = lit ''procedure''"

definition layer_from_str :: "ustr \<Rightarrow> memory_layer option" where
  "layer_from_str v =
     (if v = lit ''trace'' then Some Trace else if v = lit ''episode'' then Some Episode
      else if v = lit ''belief'' then Some Belief
      else if v = lit ''goal_state'' \<or> v = lit ''goalstate'' then Some GoalState
      else if v = lit ''self_model'' \<or> v = lit ''selfmodel'' then Some SelfModel
      else if v = lit ''procedure'' then Some Procedure else None)"

fun type_layer :: "memory_type \<Rightarrow> memory_layer" where
  "type_layer memory_type.Trace = Trace"
| "type_layer memory_type.Episode = Episode"
| "type_layer Fact = Belief"
| "type_layer memory_type.Preference = SelfModel"
| "type_layer memory_type.GoalState = GoalState"

fun goal_str :: "goal_status \<Rightarrow> ustr" where
  "goal_str goal_status.Active = lit ''active''"
| "goal_str Inactive = lit ''inactive''"
| "goal_str Blocked = lit ''blocked''"
| "goal_str WaitingOnUser = lit ''waiting_on_user''"
| "goal_str WaitingOnSystem = lit ''waiting_on_system''"
| "goal_str goal_status.Stale = lit ''stale''"
| "goal_str Completed = lit ''completed''"

definition goal_from_text :: "agent_env \<Rightarrow> ustr \<Rightarrow> ustr \<Rightarrow> goal_status" where
  "goal_from_text env value0 raw_text =
     (let l = ag_lower env (value0 @ lit '' '' @ raw_text) in
      if str_contains l (lit ''waiting on user'') \<or> str_contains l (lit ''awaiting user'') then WaitingOnUser
      else if str_contains l (lit ''waiting on system'') \<or> str_contains l (lit ''awaiting system'')
        \<or> str_contains l (lit ''pending system'') then WaitingOnSystem
      else if str_contains l (lit ''blocked'') then Blocked
      else if str_contains l (lit ''stale'') \<or> str_contains l (lit ''outdated'') then goal_status.Stale
      else if str_contains l (lit ''complete'') \<or> str_contains l (lit ''done'') then Completed
      else if str_contains l (lit ''inactive'') \<or> str_contains l (lit ''paused'') then Inactive
      else goal_status.Active)"

definition goal_from_str :: "ustr \<Rightarrow> goal_status option" where
  "goal_from_str v =
     (if v = lit ''active'' then Some goal_status.Active else if v = lit ''inactive'' then Some Inactive
      else if v = lit ''blocked'' then Some Blocked
      else if v = lit ''waiting_on_user'' then Some WaitingOnUser
      else if v = lit ''waiting_on_system'' then Some WaitingOnSystem
      else if v = lit ''stale'' then Some goal_status.Stale
      else if v = lit ''completed'' then Some Completed else None)"

fun belief_str :: "belief_status \<Rightarrow> ustr" where
  "belief_str belief_status.Active = lit ''active''"
| "belief_str Disputed = lit ''disputed''"
| "belief_str belief_status.Stale = lit ''stale''"
| "belief_str belief_status.Retracted = lit ''retracted''"

definition belief_from_str :: "ustr \<Rightarrow> belief_status option" where
  "belief_from_str v =
     (if v = lit ''active'' then Some belief_status.Active else if v = lit ''disputed'' then Some Disputed
      else if v = lit ''stale'' then Some belief_status.Stale
      else if v = lit ''retracted'' then Some belief_status.Retracted else None)"

fun view_status :: "belief_status \<Rightarrow> belief_view_status" where
  "view_status belief_status.Active = belief_view_status.Active"
| "view_status Disputed = Contested"
| "view_status belief_status.Stale = Superseded"
| "view_status belief_status.Retracted = belief_view_status.Retracted"

fun outcome_str :: "outcome_kind \<Rightarrow> ustr" where
  "outcome_str Positive = lit ''positive''"
| "outcome_str Negative = lit ''negative''"

definition outcome_from_str :: "ustr \<Rightarrow> outcome_kind option" where
  "outcome_from_str v =
     (if v = lit ''positive'' \<or> v = lit ''success'' then Some Positive
      else if v = lit ''negative'' \<or> v = lit ''failure'' \<or> v = lit ''failed'' then Some Negative else None)"

fun view_str :: "belief_view_status \<Rightarrow> ustr" where
  "view_str belief_view_status.Active = lit ''active''"
| "view_str Contested = lit ''contested''"
| "view_str Superseded = lit ''superseded''"
| "view_str belief_view_status.Retracted = lit ''retracted''"

definition view_from_str :: "ustr \<Rightarrow> belief_view_status option" where
  "view_from_str v =
     (if v = lit ''active'' then Some belief_view_status.Active
      else if v = lit ''contested'' then Some Contested
      else if v = lit ''superseded'' then Some Superseded
      else if v = lit ''retracted'' then Some belief_view_status.Retracted else None)"

fun self_kind_str :: "self_model_kind \<Rightarrow> ustr" where
  "self_kind_str self_model_kind.Preference = lit ''preference''"
| "self_kind_str ResponseStyle = lit ''response_style''"
| "self_kind_str RiskTolerance = lit ''risk_tolerance''"
| "self_kind_str ToolPreference = lit ''tool_preference''"
| "self_kind_str ProjectNorm = lit ''project_norm''"
| "self_kind_str Constraint = lit ''constraint''"
| "self_kind_str Value = lit ''value''"
| "self_kind_str WorkPattern = lit ''work_pattern''"
| "self_kind_str CapabilityLimit = lit ''capability_limit''"

definition from_slot_strict :: "agent_env \<Rightarrow> ustr \<Rightarrow> self_model_kind option" where
  "from_slot_strict env slot =
     (let l = ag_lower env (trim slot); has = (\<lambda>w. str_contains l (lit w)) in
      if l = [] then None
      else if has ''style'' \<or> has ''tone'' \<or> has ''verbosity'' then Some ResponseStyle
      else if has ''risk'' then Some RiskTolerance
      else if has ''tool'' \<or> has ''editor'' then Some ToolPreference
      else if has ''norm'' \<or> has ''convention'' then Some ProjectNorm
      else if has ''constraint'' \<or> has ''limit'' then Some Constraint
      else if has ''value'' \<or> has ''priority'' then Some Value
      else if has ''pattern'' \<or> has ''workflow'' then Some WorkPattern
      else if has ''capability'' \<or> has ''strength'' then Some CapabilityLimit
      else if has ''prefer'' \<or> has ''preference'' \<or> has ''favorite'' \<or> has ''like'' \<or> has ''dislike''
        then Some self_model_kind.Preference
      else None)"

definition from_slot :: "agent_env \<Rightarrow> ustr \<Rightarrow> self_model_kind" where
  "from_slot env slot = unwrap_or self_model_kind.Preference (from_slot_strict env slot)"

definition self_kind_from_str :: "ustr \<Rightarrow> self_model_kind option" where
  "self_kind_from_str v =
     (if v = lit ''preference'' then Some self_model_kind.Preference
      else if v = lit ''response_style'' then Some ResponseStyle
      else if v = lit ''risk_tolerance'' then Some RiskTolerance
      else if v = lit ''tool_preference'' then Some ToolPreference
      else if v = lit ''project_norm'' then Some ProjectNorm
      else if v = lit ''constraint'' then Some Constraint
      else if v = lit ''value'' then Some Value
      else if v = lit ''work_pattern'' then Some WorkPattern
      else if v = lit ''capability_limit'' then Some CapabilityLimit else None)"

fun stability_of :: "self_model_kind \<Rightarrow> stability_class" where
  "stability_of Constraint = StableDirective"
| "stability_of Value = StableDirective"
| "stability_of CapabilityLimit = StableDirective"
| "stability_of _ = FlexiblePreference"

definition requirement_of :: "self_model_kind \<Rightarrow> update_requirement" where
  "requirement_of k = (case stability_of k of StableDirective \<Rightarrow> TrustedOrCorroborated
     | FlexiblePreference \<Rightarrow> ReinforcementAllowed)"

fun stability_str :: "stability_class \<Rightarrow> ustr" where
  "stability_str StableDirective = lit ''stable_directive''"
| "stability_str FlexiblePreference = lit ''flexible_preference''"

definition stability_from_str :: "ustr \<Rightarrow> stability_class option" where
  "stability_from_str v = (if v = lit ''stable_directive'' then Some StableDirective
     else if v = lit ''flexible_preference'' then Some FlexiblePreference else None)"

fun requirement_str :: "update_requirement \<Rightarrow> ustr" where
  "requirement_str TrustedOrCorroborated = lit ''trusted_or_corroborated''"
| "requirement_str ReinforcementAllowed = lit ''reinforcement_allowed''"

definition requirement_from_str :: "ustr \<Rightarrow> update_requirement option" where
  "requirement_from_str v = (if v = lit ''trusted_or_corroborated'' then Some TrustedOrCorroborated
     else if v = lit ''reinforcement_allowed'' then Some ReinforcementAllowed else None)"

fun procedure_str :: "procedure_status \<Rightarrow> ustr" where
  "procedure_str procedure_status.Active = lit ''active''"
| "procedure_str CoolingDown = lit ''cooling_down''"
| "procedure_str Retired = lit ''retired''"

definition procedure_from_str :: "ustr \<Rightarrow> procedure_status option" where
  "procedure_from_str v = (if v = lit ''active'' then Some procedure_status.Active
     else if v = lit ''cooling_down'' then Some CoolingDown
     else if v = lit ''retired'' then Some Retired else None)"

text \<open>Every name is parsed back.\<close>

lemma lit_inject [simp]: "lit s = lit t \<longleftrightarrow> s = t"
  by (auto simp: lit_def inj_map_eq_map [OF inj_of_char])

lemma layer_name [simp]: "layer_from_str (layer_str x) = Some x"
  by (cases x) (simp_all add: layer_from_str_def)

lemma goal_name [simp]: "goal_from_str (goal_str x) = Some x"
  by (cases x) (simp_all add: goal_from_str_def)

lemma belief_name [simp]: "belief_from_str (belief_str x) = Some x"
  by (cases x) (simp_all add: belief_from_str_def)

lemma outcome_name [simp]: "outcome_from_str (outcome_str x) = Some x"
  by (cases x) (simp_all add: outcome_from_str_def)

lemma view_name [simp]: "view_from_str (view_str x) = Some x"
  by (cases x) (simp_all add: view_from_str_def)

lemma self_kind_name [simp]: "self_kind_from_str (self_kind_str x) = Some x"
  by (cases x) (simp_all add: self_kind_from_str_def)

lemma stability_name [simp]: "stability_from_str (stability_str x) = Some x"
  by (cases x) (simp_all add: stability_from_str_def)

lemma requirement_name [simp]: "requirement_from_str (requirement_str x) = Some x"
  by (cases x) (simp_all add: requirement_from_str_def)

lemma procedure_name [simp]: "procedure_from_str (procedure_str x) = Some x"
  by (cases x) (simp_all add: procedure_from_str_def)

section \<open>Records\<close>

record provenance =
  pv_type :: source_type
  pv_id :: ustr
  pv_label :: "ustr option"
  pv_observed_by :: "ustr option"
  pv_trust :: flt

record candidate =
  ca_id :: ustr
  ca_observed_at :: time
  ca_entity :: "ustr option"
  ca_slot :: "ustr option"
  ca_value :: "ustr option"
  ca_raw :: ustr
  ca_source :: provenance
  ca_type :: memory_type
  ca_confidence :: flt
  ca_salience :: flt
  ca_scope :: scope
  ca_ttl :: "int option"
  ca_event_at :: "time option"
  ca_valid_from :: "time option"
  ca_valid_to :: "time option"
  ca_layer :: "memory_layer option"
  ca_tags :: "ustr list"
  ca_meta :: meta
  ca_retraction :: bool

record durable =
  du_id :: ustr
  du_candidate :: ustr
  du_stored_at :: time
  du_updated_at :: "time option"
  du_entity :: ustr
  du_slot :: ustr
  du_value :: ustr
  du_raw :: ustr
  du_type :: memory_type
  du_confidence :: flt
  du_salience :: flt
  du_scope :: scope
  du_ttl :: "int option"
  du_source :: provenance
  du_event_at :: "time option"
  du_valid_from :: "time option"
  du_valid_to :: "time option"
  du_layer :: "memory_layer option"
  du_tags :: "ustr list"
  du_meta :: meta
  du_retraction :: bool

definition trimmed_non_empty :: "ustr \<Rightarrow> ustr option" where
  "trimmed_non_empty v = (if trim v = [] then None else Some (trim v))"

text \<open>Metadata: a number, and a comma-separated list.\<close>

definition meta_count :: "meta \<Rightarrow> string \<Rightarrow> nat" where
  "meta_count m k = unwrap_or 0 (Option.bind (m (lit k)) parse_u32)"

definition split_commas :: "ustr \<Rightarrow> ustr list" where
  "split_commas v = filter (\<lambda>e. e \<noteq> []) (split_by (\<lambda>c. c = 44) v)"

section \<open>Candidates\<close>

definition cand_layer :: "candidate \<Rightarrow> memory_layer" where
  "cand_layer c = unwrap_or (type_layer (ca_type c)) (ca_layer c)"

definition cand_event_time :: "candidate \<Rightarrow> time" where
  "cand_event_time c = unwrap_or (ca_observed_at c) (or_opt (ca_event_at c) (ca_valid_from c))"

definition cand_entity :: "candidate \<Rightarrow> ustr option" where
  "cand_entity c = Option.bind (ca_entity c) trimmed_non_empty"
definition cand_slot :: "candidate \<Rightarrow> ustr option" where
  "cand_slot c = Option.bind (ca_slot c) trimmed_non_empty"
definition cand_value :: "candidate \<Rightarrow> ustr option" where
  "cand_value c = Option.bind (ca_value c) trimmed_non_empty"

definition cand_workflow :: "candidate \<Rightarrow> ustr option" where
  "cand_workflow c = or_opt (Option.bind (ca_meta c (lit ''workflow_key'')) trimmed_non_empty) (cand_slot c)"

definition cand_has_structure :: "candidate \<Rightarrow> bool" where
  "cand_has_structure c = (cand_entity c \<noteq> None \<or> cand_slot c \<noteq> None \<or> cand_value c \<noteq> None
     \<or> cand_workflow c \<noteq> None)"

definition cand_structured_for :: "candidate \<Rightarrow> memory_layer \<Rightarrow> bool" where
  "cand_structured_for c l = (case l of
     Belief \<Rightarrow> cand_entity c \<noteq> None \<and> cand_slot c \<noteq> None \<and> cand_value c \<noteq> None
   | GoalState \<Rightarrow> cand_entity c \<noteq> None \<and> cand_slot c \<noteq> None \<and> cand_value c \<noteq> None
   | SelfModel \<Rightarrow> cand_entity c \<noteq> None \<and> cand_slot c \<noteq> None \<and> cand_value c \<noteq> None
   | Procedure \<Rightarrow> cand_entity c \<noteq> None \<and> cand_slot c \<noteq> None \<and> cand_value c \<noteq> None
       \<and> cand_workflow c \<noteq> None
   | Episode \<Rightarrow> True | Trace \<Rightarrow> True)"

text \<open>\<open>uuid\<close> is the identifier that \<open>Uuid::new_v4\<close> returns.\<close>

definition to_episode_memory :: "ustr \<Rightarrow> candidate \<Rightarrow> time \<Rightarrow> durable" where
  "to_episode_memory uuid c stored_at =
     \<lparr>du_id = uuid, du_candidate = ca_id c, du_stored_at = stored_at, du_updated_at = Some stored_at,
      du_entity = unwrap_or [] (ca_entity c), du_slot = unwrap_or [] (ca_slot c),
      du_value = unwrap_or [] (ca_value c), du_raw = ca_raw c, du_type = memory_type.Episode,
      du_confidence = ca_confidence c, du_salience = max (ca_salience c) (dec (55 / 100)),
      du_scope = ca_scope c, du_ttl = None, du_source = ca_source c,
      du_event_at = Some (cand_event_time c), du_valid_from = ca_valid_from c, du_valid_to = ca_valid_to c,
      du_layer = Some Episode, du_tags = ca_tags c,
      du_meta = (ca_meta c)(lit ''source_memory_layer'' \<mapsto> layer_str (cand_layer c)),
      du_retraction = False\<rparr>"

section \<open>Durable memories\<close>

definition version_time :: "durable \<Rightarrow> time" where
  "version_time m = unwrap_or (du_stored_at m) (du_updated_at m)"

definition mem_layer :: "durable \<Rightarrow> memory_layer" where
  "mem_layer m = unwrap_or (type_layer (du_type m)) (du_layer m)"

definition event_time :: "durable \<Rightarrow> time" where
  "event_time m = unwrap_or (du_stored_at m) (or_opt (du_event_at m) (du_valid_from m))"

definition mem_entity :: "durable \<Rightarrow> ustr option" where "mem_entity m = trimmed_non_empty (du_entity m)"
definition mem_slot :: "durable \<Rightarrow> ustr option" where "mem_slot m = trimmed_non_empty (du_slot m)"
definition mem_value :: "durable \<Rightarrow> ustr option" where "mem_value m = trimmed_non_empty (du_value m)"

definition mem_workflow :: "durable \<Rightarrow> ustr option" where
  "mem_workflow m = or_opt (Option.bind (du_meta m (lit ''workflow_key'')) trimmed_non_empty) (mem_slot m)"

definition retrieval_count :: "durable \<Rightarrow> nat" where
  "retrieval_count m = meta_count (du_meta m) ''retrieval_count''"

definition last_accessed_at :: "agent_env \<Rightarrow> durable \<Rightarrow> time option" where
  "last_accessed_at env m = Option.bind (du_meta m (lit ''last_accessed_at'')) (ag_parse_time env)"

definition with_retrieval_access :: "agent_env \<Rightarrow> time \<Rightarrow> durable \<Rightarrow> durable" where
  "with_retrieval_access env accessed_at m =
     m\<lparr>du_meta := (du_meta m)(lit ''retrieval_count'' \<mapsto> dec_str (sat32 (retrieval_count m) 1),
         lit ''last_accessed_at'' \<mapsto> ag_show_time env accessed_at),
       du_updated_at := Some (max (version_time m) accessed_at)\<rparr>"

text \<open>The score of a number of positive and negative outcomes.\<close>

definition impact_score :: "nat \<Rightarrow> nat \<Rightarrow> flt" where
  "impact_score pos neg = (if add32 pos neg = 0 then 0
     else fclamp (- 1) 1 (fdiv (fsub (of_count pos) (of_count neg)) (of_count (add32 pos neg))))"

definition positive_count :: "meta \<Rightarrow> nat" where "positive_count m = meta_count m ''positive_outcome_count''"
definition negative_count :: "meta \<Rightarrow> nat" where "negative_count m = meta_count m ''negative_outcome_count''"

definition outcome_impact_score :: "meta \<Rightarrow> flt" where
  "outcome_impact_score m = impact_score (positive_count m) (negative_count m)"

definition last_outcome_at :: "agent_env \<Rightarrow> durable \<Rightarrow> time option" where
  "last_outcome_at env m = Option.bind (du_meta m (lit ''last_outcome_at'')) (ag_parse_time env)"

text \<open>The counters of a memory or a procedure after an outcome.\<close>

definition outcome_meta :: "agent_env \<Rightarrow> outcome_kind \<Rightarrow> time \<Rightarrow> meta \<Rightarrow> meta" where
  "outcome_meta env k tm m =
     (let m1 = (case k of
          Positive \<Rightarrow> m(lit ''positive_outcome_count'' \<mapsto> dec_str (sat32 (positive_count m) 1),
             lit ''last_positive_outcome_at'' \<mapsto> ag_show_time env tm)
        | Negative \<Rightarrow> m(lit ''negative_outcome_count'' \<mapsto> dec_str (sat32 (negative_count m) 1),
             lit ''last_negative_outcome_at'' \<mapsto> ag_show_time env tm));
          m2 = m1(lit ''last_outcome_at'' \<mapsto> ag_show_time env tm,
             lit ''last_feedback_outcome'' \<mapsto> outcome_str k)
      in m2(lit ''outcome_impact_score'' \<mapsto> ag_show_fix env 6 (outcome_impact_score m2)))"

definition with_outcome_feedback :: "agent_env \<Rightarrow> outcome_kind \<Rightarrow> time \<Rightarrow> durable \<Rightarrow> durable" where
  "with_outcome_feedback env k tm m = m\<lparr>du_meta := outcome_meta env k tm (du_meta m), du_updated_at := Some tm\<rparr>"

definition structured_for :: "durable \<Rightarrow> memory_layer \<Rightarrow> bool" where
  "structured_for m l = (case l of
     Belief \<Rightarrow> mem_entity m \<noteq> None \<and> mem_slot m \<noteq> None \<and> mem_value m \<noteq> None
   | GoalState \<Rightarrow> mem_entity m \<noteq> None \<and> mem_slot m \<noteq> None \<and> mem_value m \<noteq> None
   | SelfModel \<Rightarrow> mem_entity m \<noteq> None \<and> mem_slot m \<noteq> None \<and> mem_value m \<noteq> None
   | Procedure \<Rightarrow> mem_entity m \<noteq> None \<and> mem_slot m \<noteq> None \<and> mem_value m \<noteq> None
       \<and> mem_workflow m \<noteq> None
   | Episode \<Rightarrow> True | Trace \<Rightarrow> True)"

definition add_new :: "'a \<Rightarrow> 'a list \<Rightarrow> 'a list" where
  "add_new x xs = (if x \<in> set xs then xs else xs @ [x])"

definition with_supporting_episode :: "ustr \<Rightarrow> durable \<Rightarrow> durable" where
  "with_supporting_episode ep m =
     (let ids = (case du_meta m (lit ''supporting_episode_ids'') of None \<Rightarrow> [] | Some v \<Rightarrow> split_commas v)
      in m\<lparr>du_meta := (du_meta m)(lit ''supporting_episode_ids'' \<mapsto> join [44] (add_new ep ids))\<rparr>)"

section \<open>Records read off a memory\<close>

record episode_record =
  er_id :: ustr
  er_memory :: ustr
  er_candidate :: ustr
  er_entity :: ustr
  er_slot :: ustr
  er_value :: ustr
  er_raw :: ustr
  er_source :: provenance
  er_event_at :: time
  er_stored_at :: time
  er_outcome :: "ustr option"
  er_scope :: scope
  er_confidence :: flt
  er_salience :: flt
  er_tags :: "ustr list"
  er_meta :: meta

record goal_record =
  gr_id :: ustr
  gr_memory :: ustr
  gr_entity :: ustr
  gr_slot :: ustr
  gr_value :: ustr
  gr_summary :: ustr
  gr_status :: goal_status
  gr_created_at :: time
  gr_updated_at :: time
  gr_expires_at :: "time option"
  gr_source :: provenance
  gr_confidence :: flt
  gr_salience :: flt
  gr_supporting :: "ustr list"
  gr_scope :: scope
  gr_tags :: "ustr list"
  gr_meta :: meta

record self_record =
  sr_id :: ustr
  sr_memory :: ustr
  sr_entity :: ustr
  sr_slot :: ustr
  sr_value :: ustr
  sr_summary :: ustr
  sr_kind :: self_model_kind
  sr_stability :: stability_class
  sr_requirement :: update_requirement
  sr_status :: belief_status
  sr_confidence :: flt
  sr_observed_at :: time
  sr_updated_at :: time
  sr_source :: provenance
  sr_supporting :: "ustr list"
  sr_scope :: scope
  sr_tags :: "ustr list"
  sr_meta :: meta

record procedure_record =
  pr_id :: ustr
  pr_name :: ustr
  pr_description :: ustr
  pr_context_tags :: "ustr list"
  pr_success :: nat
  pr_failure :: nat
  pr_confidence :: flt
  pr_status :: procedure_status
  pr_learned_from :: "ustr list"
  pr_last_used_at :: "time option"
  pr_last_succeeded_at :: "time option"
  pr_last_failed_at :: "time option"
  pr_updated_at :: time
  pr_meta :: meta

definition to_episode_record :: "durable \<Rightarrow> episode_record" where
  "to_episode_record m = \<lparr>er_id = du_id m, er_memory = du_id m, er_candidate = du_candidate m,
     er_entity = du_entity m, er_slot = du_slot m, er_value = du_value m, er_raw = du_raw m,
     er_source = du_source m, er_event_at = event_time m, er_stored_at = du_stored_at m,
     er_outcome = du_meta m (lit ''outcome''), er_scope = du_scope m, er_confidence = du_confidence m,
     er_salience = du_salience m, er_tags = du_tags m, er_meta = du_meta m\<rparr>"

definition to_goal_record :: "agent_env \<Rightarrow> durable \<Rightarrow> goal_record option" where
  "to_goal_record env m =
     (if mem_layer m \<noteq> GoalState \<or> \<not> structured_for m GoalState then None
      else case (mem_entity m, mem_slot m, mem_value m) of
        (Some e, Some s, Some v) \<Rightarrow> Some
          \<lparr>gr_id = du_id m, gr_memory = du_id m, gr_entity = e, gr_slot = s, gr_value = v, gr_summary = du_raw m,
           gr_status = unwrap_or (goal_from_text env v (du_raw m))
             (Option.bind (du_meta m (lit ''goal_status'')) goal_from_str),
           gr_created_at = event_time m, gr_updated_at = version_time m,
           gr_expires_at = map_option (\<lambda>ttl. du_stored_at m + ttl * 1000000000) (du_ttl m),
           gr_source = du_source m, gr_confidence = du_confidence m, gr_salience = du_salience m,
           gr_supporting = (case du_meta m (lit ''supporting_episode_ids'') of None \<Rightarrow> [] | Some w \<Rightarrow> split_commas w),
           gr_scope = du_scope m, gr_tags = du_tags m, gr_meta = du_meta m\<rparr>
      | _ \<Rightarrow> None)"

definition kind_of_memory :: "agent_env \<Rightarrow> durable \<Rightarrow> ustr \<Rightarrow> self_model_kind" where
  "kind_of_memory env m s =
     unwrap_or (from_slot env s) (Option.bind (du_meta m (lit ''self_model_kind'')) self_kind_from_str)"

definition to_self_record :: "agent_env \<Rightarrow> durable \<Rightarrow> self_record option" where
  "to_self_record env m =
     (if mem_layer m \<noteq> SelfModel \<or> \<not> structured_for m SelfModel then None
      else case (mem_entity m, mem_slot m, mem_value m) of
        (Some e, Some s, Some v) \<Rightarrow> Some
          \<lparr>sr_id = du_id m, sr_memory = du_id m, sr_entity = e, sr_slot = s, sr_value = v, sr_summary = du_raw m,
           sr_kind = kind_of_memory env m s,
           sr_stability = unwrap_or (stability_of (kind_of_memory env m s))
             (Option.bind (du_meta m (lit ''self_model_stability_class'')) stability_from_str),
           sr_requirement = unwrap_or (requirement_of (kind_of_memory env m s))
             (Option.bind (du_meta m (lit ''self_model_update_requirement'')) requirement_from_str),
           sr_status = unwrap_or (if du_retraction m then belief_status.Retracted else belief_status.Active)
             (Option.bind (du_meta m (lit ''self_model_status'')) belief_from_str),
           sr_confidence = du_confidence m, sr_observed_at = event_time m, sr_updated_at = version_time m,
           sr_source = du_source m,
           sr_supporting = (case or_opt (du_meta m (lit ''supporting_memory_ids''))
                 (du_meta m (lit ''supporting_episode_ids'')) of
               None \<Rightarrow> [du_id m] | Some w \<Rightarrow> split_commas w),
           sr_scope = du_scope m, sr_tags = du_tags m, sr_meta = du_meta m\<rparr>
      | _ \<Rightarrow> None)"

definition split_trimmed :: "ustr \<Rightarrow> ustr list" where
  "split_trimmed v = List.map_filter trimmed_non_empty (split_by (\<lambda>c. c = 44) v)"

definition to_procedure_record :: "agent_env \<Rightarrow> durable \<Rightarrow> procedure_record option" where
  "to_procedure_record env m =
     (if mem_layer m \<noteq> Procedure \<or> \<not> structured_for m Procedure then None
      else case mem_workflow m of
        None \<Rightarrow> None
      | Some key \<Rightarrow>
          (let time_of = (\<lambda>k. Option.bind (du_meta m (lit k)) (ag_parse_time env)) in
           Some \<lparr>pr_id = du_id m,
            pr_name = unwrap_or key (Option.bind (du_meta m (lit ''procedure_name'')) trimmed_non_empty),
            pr_description = du_raw m,
            pr_context_tags = (case du_meta m (lit ''context_tags'') of None \<Rightarrow> du_tags m | Some v \<Rightarrow> split_trimmed v),
            pr_success = meta_count (du_meta m) ''success_count'',
            pr_failure = meta_count (du_meta m) ''failure_count'', pr_confidence = du_confidence m,
            pr_status = unwrap_or procedure_status.Active
              (Option.bind (du_meta m (lit ''procedure_status'')) procedure_from_str),
            pr_learned_from = (case du_meta m (lit ''learned_from_memory_ids'') of None \<Rightarrow> [] | Some v \<Rightarrow> split_trimmed v),
            pr_last_used_at = time_of ''last_used_at'', pr_last_succeeded_at = time_of ''last_succeeded_at'',
            pr_last_failed_at = time_of ''last_failed_at'', pr_updated_at = version_time m, pr_meta = du_meta m\<rparr>))"

section \<open>Beliefs, queries, hits\<close>

record belief =
  be_id :: ustr
  be_entity :: ustr
  be_slot :: ustr
  be_value :: ustr
  be_status :: belief_status
  be_confidence :: flt
  be_valid_from :: time
  be_valid_to :: "time option"
  be_reviewed_at :: time
  be_supporting :: "ustr list"
  be_opposing :: "ustr list"
  be_contradictions :: nat
  be_last_contradiction :: "time option"
  be_resolution_secs :: "int option"
  be_positive :: nat
  be_negative :: nat
  be_last_outcome :: "time option"
  be_weights :: "(source_type \<times> flt) list"

definition strongest_weight :: "belief \<Rightarrow> flt" where
  "strongest_weight b = fold max (map snd (be_weights b)) 0"

definition time_in_dispute :: "belief \<Rightarrow> time \<Rightarrow> int option" where
  "time_in_dispute b now = (if be_status b \<noteq> Disputed then None
     else map_option (\<lambda>tm. max 0 (secs now - secs tm)) (be_last_contradiction b))"

definition DAY :: int where "DAY = 86400"

text \<open>The weight of an outcome by its age, and the adjustment it gives.\<close>

definition age_days :: "time \<Rightarrow> time \<Rightarrow> flt" where
  "age_days now tm = fdiv (of_signed (max 0 (secs now - secs tm))) (of_signed DAY)"

definition recency :: "flt \<Rightarrow> time \<Rightarrow> time option \<Rightarrow> flt" where
  "recency window now prev = (case prev of None \<Rightarrow> 0
     | Some tm \<Rightarrow> fclamp 0 1 (fsub 1 (fdiv (age_days now tm) window)))"

definition impact_adjustment :: "flt \<Rightarrow> nat \<Rightarrow> nat \<Rightarrow> time option \<Rightarrow> time \<Rightarrow> flt" where
  "impact_adjustment max_adjustment pos neg prev now =
     (if add32 pos neg = 0 then 0
      else fmul (fmul (fmul (impact_score pos neg) (fdiv (of_count (min (add32 pos neg) 6)) (of_count 6)))
             (recency 30 now prev)) max_adjustment)"

definition belief_adjustment :: "belief \<Rightarrow> time \<Rightarrow> flt" where
  "belief_adjustment b now =
     impact_adjustment (dec (12 / 100)) (be_positive b) (be_negative b) (be_last_outcome b) now"

definition effective_confidence :: "belief \<Rightarrow> time \<Rightarrow> flt" where
  "effective_confidence b now =
     fclamp (dec (5 / 100)) (dec (99 / 100)) (fadd (be_confidence b) (belief_adjustment b now))"

definition belief_feedback :: "outcome_kind \<Rightarrow> time \<Rightarrow> belief \<Rightarrow> belief" where
  "belief_feedback k tm b =
     (let b = (case k of Positive \<Rightarrow> b\<lparr>be_positive := sat32 (be_positive b) 1\<rparr>
                       | Negative \<Rightarrow> b\<lparr>be_negative := sat32 (be_negative b) 1\<rparr>)
      in b\<lparr>be_last_outcome := Some tm, be_reviewed_at := tm\<rparr>)"

record retention_rule =
  rr_layer :: memory_layer
  rr_type :: memory_type
  rr_ttl :: "int option"
  rr_decay :: flt
  rr_priority :: flt
  rr_promotable :: bool

record retrieval_query =
  rq_text :: ustr
  rq_intent :: query_intent
  rq_entity :: "ustr option"
  rq_slot :: "ustr option"
  rq_scope :: "scope option"
  rq_top_k :: nat
  rq_as_of :: "time option"
  rq_include_expired :: bool

record outcome_feedback =
  of_memory :: "ustr option"
  of_belief :: "ustr option"
  of_workflow :: "ustr option"
  of_kind :: outcome_kind
  of_observed_at :: time
  of_meta :: meta

record retrieval_hit =
  rh_memory :: "ustr option"
  rh_belief :: "ustr option"
  rh_entity :: "ustr option"
  rh_slot :: "ustr option"
  rh_value :: "ustr option"
  rh_text :: ustr
  rh_layer :: "memory_layer option"
  rh_type :: "memory_type option"
  rh_score :: flt
  rh_timestamp :: time
  rh_scope :: "scope option"
  rh_source :: "source_type option"
  rh_from_belief :: bool
  rh_expired :: bool
  rh_meta :: meta

record promotion_context =
  pc_belief :: nat
  pc_self_model :: nat
  pc_goal_state :: nat
  pc_success :: nat
  pc_failure :: nat
  pc_corroborating :: nat
  pc_contradictory :: nat
  pc_verified :: bool
  pc_seeded :: bool

definition default_context :: promotion_context where
  "default_context = \<lparr>pc_belief = 0, pc_self_model = 0, pc_goal_state = 0, pc_success = 0, pc_failure = 0,
     pc_corroborating = 0, pc_contradictory = 0, pc_verified = False, pc_seeded = False\<rparr>"

record consolidation_record =
  cr_id :: ustr
  cr_layer :: memory_layer
  cr_target :: "ustr option"
  cr_sources :: "ustr list"
  cr_reason :: ustr
  cr_confidence :: flt
  cr_created_at :: time
  cr_meta :: meta

record audit_event =
  ae_id :: ustr
  ae_occurred_at :: time
  ae_action :: ustr
  ae_candidate :: "ustr option"
  ae_memory :: "ustr option"
  ae_belief :: "ustr option"
  ae_query :: "ustr option"
  ae_details :: meta

section \<open>Bounds\<close>

lemma rnd_minus_one [simp]: "rnd (- 1) = - 1"
  using rnd_minus [of 1] by simp

lemma impact_score_bounds: "- 1 \<le> impact_score p n" "impact_score p n \<le> 1"
  using fclamp_bounds [of "- 1" 1] by (simp_all add: impact_score_def)

lemma fmul_unit: "0 \<le> a \<Longrightarrow> a \<le> 1 \<Longrightarrow> - 1 \<le> x \<Longrightarrow> x \<le> 1 \<Longrightarrow> - 1 \<le> fmul x a \<and> fmul x a \<le> 1"
proof -
  assume a: "0 \<le> a" "a \<le> 1" "- 1 \<le> x" "x \<le> 1"
  have "\<bar>x * a\<bar> \<le> 1 * 1" unfolding abs_mult using a by (intro mult_mono) auto
  then have "- 1 \<le> x * a" "x * a \<le> 1" by linarith+
  then show ?thesis using rnd_mono [of "- 1" "x * a"] rnd_mono [of "x * a" 1] by (simp add: fmul_def)
qed

end
