(* ===== verification/Agent_Policy.thy ===== *)
theory Agent_Policy
  imports Agent_Types
begin

text \<open>
  The policy of the agent memory: \<open>agent_memory/policy.rs\<close> with \<open>policy/policy_profile.rs\<close> and
  \<open>policy/reason_codes.rs\<close>, source trust, intake, the classifier, the intent of a query, and the
  compaction stub.
\<close>

section \<open>Policy values\<close>

record policy_set =
  po_reject :: flt
  po_trace_only :: flt
  po_promote :: flt
  po_belief :: flt
  po_self_model :: flt
  po_goal_state :: flt
  po_procedure :: flt
  po_self_repetitions :: nat
  po_procedure_repetitions :: nat
  po_blocker_repetitions :: nat
  po_belief_repetitions :: nat
  po_window_days :: int
  po_stability_days :: int
  po_trusted_belief :: flt
  po_trusted_self :: flt
  po_persist_touches :: bool

definition default_policy :: policy_set where
  "default_policy = \<lparr>po_reject = dec (25 / 100), po_trace_only = dec (35 / 100), po_promote = dec (65 / 100),
     po_belief = dec (75 / 100), po_self_model = dec (70 / 100), po_goal_state = dec (65 / 100),
     po_procedure = dec (72 / 100), po_self_repetitions = 2, po_procedure_repetitions = 2,
     po_blocker_repetitions = 3, po_belief_repetitions = 2, po_window_days = 30, po_stability_days = 3,
     po_trusted_belief = dec (8 / 10), po_trusted_self = dec (9 / 10), po_persist_touches = True\<rparr>"

definition policy_score :: "flt \<Rightarrow> flt \<Rightarrow> flt" where
  "policy_score confidence salience =
     fadd (fmul (fclamp 0 1 confidence) (dec (6 / 10))) (fmul (fclamp 0 1 salience) (dec (4 / 10)))"

fun policy_threshold :: "policy_set \<Rightarrow> memory_layer \<Rightarrow> flt" where
  "policy_threshold p Belief = po_belief p"
| "policy_threshold p SelfModel = po_self_model p"
| "policy_threshold p GoalState = po_goal_state p"
| "policy_threshold p Episode = po_promote p"
| "policy_threshold p Procedure = po_procedure p"
| "policy_threshold p Trace = dec (11 / 10)"

definition with_persist_touches :: "bool \<Rightarrow> policy_set \<Rightarrow> policy_set" where
  "with_persist_touches b p = p\<lparr>po_persist_touches := b\<rparr>"

definition allows_singleton_kind :: "self_model_kind \<Rightarrow> bool" where
  "allows_singleton_kind k =
     (k \<in> {self_model_kind.Preference, ResponseStyle, ToolPreference, ProjectNorm, Constraint, Value,
           CapabilityLimit, WorkPattern})"

definition policy_allows_belief :: "policy_set \<Rightarrow> source_type \<Rightarrow> flt \<Rightarrow> bool" where
  "policy_allows_belief p s w = ((s = System \<or> s = Tool) \<and> po_trusted_belief p \<le> w)"

definition policy_allows_self :: "policy_set \<Rightarrow> source_type \<Rightarrow> flt \<Rightarrow> bool" where
  "policy_allows_self p s w = ((s = System \<or> s = Tool) \<and> po_trusted_self p \<le> w)"

definition rule_of :: "memory_layer \<Rightarrow> memory_type \<Rightarrow> retention_rule" where
  "rule_of l t =
     (let r = (\<lambda>ttl decay priority promotable. \<lparr>rr_layer = l, rr_type = t, rr_ttl = ttl, rr_decay = dec decay,
          rr_priority = dec priority, rr_promotable = promotable\<rparr>) in
      (case l of
         Trace \<Rightarrow> r (Some (3 * DAY)) (18 / 100) (1 / 10) False
       | Episode \<Rightarrow> r (Some (30 * DAY)) (4 / 100) (45 / 100) True
       | Belief \<Rightarrow> r None (5 / 1000) (75 / 100) True
       | SelfModel \<Rightarrow> r None (2 / 1000) 1 True
       | GoalState \<Rightarrow> r (Some (14 * DAY)) (3 / 100) (95 / 100) True
       | Procedure \<Rightarrow> r (Some (90 * DAY)) (1 / 100) (7 / 10) True))"

section \<open>The profile\<close>

record hard_constraints =
  hc_reject :: flt
  hc_trace_only :: flt
  hc_episode :: flt
  hc_belief :: flt
  hc_self_model :: flt
  hc_goal_state :: flt
  hc_procedure :: flt
  hc_min_belief :: nat
  hc_min_self :: nat
  hc_min_procedure :: nat
  hc_min_blocker :: nat
  hc_require_identity :: bool
  hc_require_goal_semantics :: bool
  hc_prohibit_untrusted_belief :: bool
  hc_protect_self_model :: bool
  hc_require_kind :: bool
  hc_require_statement :: bool
  hc_directive_trusted_path :: bool
  hc_min_directive :: nat
  hc_require_procedure_evidence :: bool
  hc_trusted_belief :: flt
  hc_trusted_self :: flt

record soft_weights =
  sw_confidence :: flt
  sw_promotion_salience :: flt
  sw_content_match :: flt
  sw_goal_relevance :: flt
  sw_self_relevance :: flt
  sw_salience :: flt
  sw_evidence :: flt
  sw_contradiction :: flt
  sw_recency :: flt
  sw_procedure_success :: flt

record policy_profile =
  pp_version :: nat
  pp_constraints :: hard_constraints
  pp_weights :: soft_weights

definition profile_of :: "policy_set \<Rightarrow> policy_profile" where
  "profile_of p = \<lparr>pp_version = 1,
     pp_constraints = \<lparr>hc_reject = po_reject p, hc_trace_only = po_trace_only p,
       hc_episode = policy_threshold p Episode, hc_belief = policy_threshold p Belief,
       hc_self_model = policy_threshold p SelfModel, hc_goal_state = policy_threshold p GoalState,
       hc_procedure = policy_threshold p Procedure, hc_min_belief = po_belief_repetitions p,
       hc_min_self = po_self_repetitions p, hc_min_procedure = po_procedure_repetitions p,
       hc_min_blocker = po_blocker_repetitions p, hc_require_identity = True,
       hc_require_goal_semantics = True, hc_prohibit_untrusted_belief = True, hc_protect_self_model = True,
       hc_require_kind = True, hc_require_statement = True, hc_directive_trusted_path = True,
       hc_min_directive = po_self_repetitions p, hc_require_procedure_evidence = True,
       hc_trusted_belief = po_trusted_belief p, hc_trusted_self = po_trusted_self p\<rparr>,
     pp_weights = \<lparr>sw_confidence = dec (6 / 10), sw_promotion_salience = dec (4 / 10), sw_content_match = dec (3 / 10),
       sw_goal_relevance = dec (2 / 10), sw_self_relevance = dec (2 / 10), sw_salience = dec (15 / 100),
       sw_evidence = dec (25 / 100), sw_contradiction = dec (2 / 10), sw_recency = dec (15 / 100),
       sw_procedure_success = dec (2 / 10)\<rparr>\<rparr>"

definition default_profile :: policy_profile where
  "default_profile = profile_of default_policy"

definition promotion_score :: "policy_profile \<Rightarrow> flt \<Rightarrow> flt \<Rightarrow> flt" where
  "promotion_score pp confidence salience =
     fadd (fmul (fclamp 0 1 confidence) (sw_confidence (pp_weights pp)))
       (fmul (fclamp 0 1 salience) (sw_promotion_salience (pp_weights pp)))"

fun promote_threshold :: "policy_profile \<Rightarrow> memory_layer \<Rightarrow> flt" where
  "promote_threshold pp Episode = hc_episode (pp_constraints pp)"
| "promote_threshold pp Belief = hc_belief (pp_constraints pp)"
| "promote_threshold pp SelfModel = hc_self_model (pp_constraints pp)"
| "promote_threshold pp GoalState = hc_goal_state (pp_constraints pp)"
| "promote_threshold pp Procedure = hc_procedure (pp_constraints pp)"
| "promote_threshold pp Trace = dec (11 / 10)"

definition allows_singleton_belief :: "policy_profile \<Rightarrow> source_type \<Rightarrow> flt \<Rightarrow> bool" where
  "allows_singleton_belief pp s w =
     (hc_prohibit_untrusted_belief (pp_constraints pp) \<and> (s = System \<or> s = Tool)
      \<and> hc_trusted_belief (pp_constraints pp) \<le> w)"

definition allows_singleton_self :: "policy_profile \<Rightarrow> source_type \<Rightarrow> flt \<Rightarrow> bool" where
  "allows_singleton_self pp s w =
     (hc_protect_self_model (pp_constraints pp) \<and> (s = System \<or> s = Tool)
      \<and> hc_trusted_self (pp_constraints pp) \<le> w)"

datatype reason_code = ScoreBelowRejectionThreshold | TraceLayerArchivalOnly | ScoreBelowTraceThreshold
  | StructuredIdentityRequired | GoalStateSemanticsRequired | EvidenceThresholdNotMet
  | ProtectedSelfModelRejected | StableDirectiveUpdateRejected | ProcedureEvidenceRestricted
  | PromotionThresholdNotMet

fun reason_str :: "reason_code \<Rightarrow> ustr" where
  "reason_str ScoreBelowRejectionThreshold = lit ''score_below_rejection_threshold''"
| "reason_str TraceLayerArchivalOnly = lit ''trace_layer_archival_only''"
| "reason_str ScoreBelowTraceThreshold = lit ''score_below_trace_threshold''"
| "reason_str StructuredIdentityRequired = lit ''structured_identity_required''"
| "reason_str GoalStateSemanticsRequired = lit ''goal_state_semantics_required''"
| "reason_str EvidenceThresholdNotMet = lit ''evidence_threshold_not_met''"
| "reason_str ProtectedSelfModelRejected = lit ''protected_self_model_rejected''"
| "reason_str StableDirectiveUpdateRejected = lit ''stable_directive_update_rejected''"
| "reason_str ProcedureEvidenceRestricted = lit ''procedure_evidence_restricted''"
| "reason_str PromotionThresholdNotMet = lit ''promotion_threshold_not_met''"

section \<open>Source trust\<close>

fun source_weight :: "source_type \<Rightarrow> flt" where
  "source_weight System = 1"
| "source_weight File = dec (9 / 10)"
| "source_weight Chat = dec (75 / 100)"
| "source_weight Tool = dec (6 / 10)"
| "source_weight External = dec (45 / 100)"

definition effective_source_weight :: "flt \<Rightarrow> nat \<Rightarrow> nat \<Rightarrow> bool \<Rightarrow> flt" where
  "effective_source_weight base corroborating contradictory verified =
     (if verified then 1
      else (let boost = min (fmul (of_count corroborating) (dec (8 / 100))) (dec (25 / 100));
                penalty = min (fmul (of_count contradictory) (dec (10 / 100))) (dec (30 / 100))
            in fclamp 0 1 (fsub (fadd base boost) penalty)))"

section \<open>Intake and classification\<close>

record raw_input =
  ri_entity :: "ustr option"
  ri_slot :: "ustr option"
  ri_value :: "ustr option"
  ri_raw :: ustr
  ri_source_type :: source_type
  ri_source_id :: ustr
  ri_source_label :: "ustr option"
  ri_scope :: scope
  ri_ttl :: "int option"
  ri_tags :: "ustr list"
  ri_meta :: meta
  ri_confidence :: flt
  ri_salience :: flt
  ri_retraction :: bool

definition from_raw :: "ustr \<Rightarrow> time \<Rightarrow> raw_input \<Rightarrow> candidate" where
  "from_raw uuid now r =
     \<lparr>ca_id = uuid, ca_observed_at = now, ca_entity = ri_entity r, ca_slot = ri_slot r, ca_value = ri_value r,
      ca_raw = ri_raw r,
      ca_source = \<lparr>pv_type = ri_source_type r, pv_id = ri_source_id r, pv_label = ri_source_label r,
        pv_observed_by = None, pv_trust = source_weight (ri_source_type r)\<rparr>,
      ca_type = memory_type.Trace, ca_confidence = fclamp 0 1 (ri_confidence r),
      ca_salience = fclamp 0 1 (ri_salience r), ca_scope = ri_scope r, ca_ttl = ri_ttl r, ca_event_at = None,
      ca_valid_from = None, ca_valid_to = None, ca_layer = None, ca_tags = ri_tags r, ca_meta = ri_meta r,
      ca_retraction = ri_retraction r\<rparr>"

definition PREFERENCE_HINTS :: "ustr list" where
  "PREFERENCE_HINTS = map lit [''prefer'', ''preference'', ''favorite'', ''likes'', ''dislikes'', ''theme'']"
definition GOAL_HINTS :: "ustr list" where
  "GOAL_HINTS = map lit [''goal'', ''task'', ''status'', ''todo'', ''next_step'', ''milestone'', ''blocked'']"
definition EVENT_HINTS :: "ustr list" where
  "EVENT_HINTS = map lit [''met'', ''went'', ''moved'', ''happened'', ''yesterday'', ''today'', ''last'',
     ''completed'', ''failed'', ''finished'', ''started'']"

definition hits_in :: "ustr \<Rightarrow> ustr list \<Rightarrow> nat" where
  "hits_in s hints = length (filter (str_contains s) hints)"

definition classified_type :: "agent_env \<Rightarrow> candidate \<Rightarrow> memory_type" where
  "classified_type env c =
     (let slot = ag_lower env (unwrap_or [] (cand_slot c)) in
      if cand_entity c \<noteq> None \<and> cand_slot c \<noteq> None \<and> cand_value c \<noteq> None then
        if list_ex (str_contains slot) PREFERENCE_HINTS then memory_type.Preference
        else if list_ex (str_contains slot) GOAL_HINTS then memory_type.GoalState
        else Fact
      else if 2 \<le> hits_in (ag_lower env (ca_raw c)) EVENT_HINTS then memory_type.Episode
      else memory_type.Trace)"

definition raise_salience :: "rat \<Rightarrow> candidate \<Rightarrow> candidate" where
  "raise_salience x c = c\<lparr>ca_salience := max (ca_salience c) (dec x)\<rparr>"

definition classify :: "agent_env \<Rightarrow> candidate \<Rightarrow> candidate" where
  "classify env c =
     (let c = c\<lparr>ca_type := classified_type env c\<rparr>;
          c = (case ca_type c of
              memory_type.Preference \<Rightarrow> (raise_salience (9 / 10) c)\<lparr>ca_confidence := max (ca_confidence c) (dec (7 / 10))\<rparr>
            | memory_type.GoalState \<Rightarrow> (raise_salience (85 / 100) c)\<lparr>ca_confidence := max (ca_confidence c) (dec (65 / 100))\<rparr>
            | Fact \<Rightarrow> raise_salience (7 / 10) c
            | memory_type.Episode \<Rightarrow> raise_salience (55 / 100) c
            | memory_type.Trace \<Rightarrow> c)
      in if ca_type c = memory_type.Trace
           \<and> 2 \<le> hits_in (ag_lower env (ca_raw c)) (map lit [''did '', ''ran '', ''completed ''])
         then raise_salience (55 / 100) (c\<lparr>ca_type := memory_type.Episode\<rparr>) else c)"

section \<open>Queries\<close>

definition detect_intent :: "agent_env \<Rightarrow> ustr \<Rightarrow> query_intent" where
  "detect_intent env q =
     (let l = ag_lower env q; has = (\<lambda>ws. list_ex (str_contains l) (map lit ws)) in
      if has [''prefer'', ''favorite'', ''like'', ''dislike'', ''setting''] then PreferenceLookup
      else if has [''goal'', ''task'', ''todo'', ''status'', ''working on'', ''blocked''] then TaskState
      else if has [''remember when'', ''what happened'', ''last time'', ''episode''] then EpisodicRecall
      else if has [''as of'', ''used to'', ''before'', ''previously'', ''historical''] then HistoricalFact
      else if starts_with l (lit ''what is'') \<or> starts_with l (lit ''where is'') \<or> starts_with l (lit ''who is'')
        \<or> str_contains l (lit ''current'') then CurrentFact
      else SemanticBackground)"

definition query_from_text :: "agent_env \<Rightarrow> ustr \<Rightarrow> retrieval_query" where
  "query_from_text env q = \<lparr>rq_text = q, rq_intent = detect_intent env q, rq_entity = None, rq_slot = None,
     rq_scope = None, rq_top_k = 5, rq_as_of = None, rq_include_expired = False\<rparr>"

text \<open>The compaction stub.\<close>

definition compactor_supported :: bool where "compactor_supported = False"
definition compactor_status :: ustr where "compactor_status = lit ''unsupported''"
definition compactor_reason :: ustr where
  "compactor_reason = lit ''governed memory does not expose a separate logical compaction pass''"

section \<open>Facts\<close>

lemma profile_thresholds [simp]: "promote_threshold (profile_of p) l = policy_threshold p l"
  by (cases l) (simp_all add: profile_of_def)

lemma profile_score: "promotion_score (profile_of p) = policy_score"
  by (intro ext) (simp add: promotion_score_def profile_of_def policy_score_def)

lemma profile_allows: "allows_singleton_belief (profile_of p) = policy_allows_belief p"
  "allows_singleton_self (profile_of p) = policy_allows_self p"
  by (auto intro!: ext simp: allows_singleton_belief_def allows_singleton_self_def policy_allows_belief_def
      policy_allows_self_def profile_of_def)

lemma fadd_mono: "a \<le> a' \<Longrightarrow> b \<le> b' \<Longrightarrow> fadd a b \<le> fadd a' b'"
  by (simp add: fadd_def rnd_mono add_mono)

lemma fsub_mono: "a \<le> a' \<Longrightarrow> b' \<le> b \<Longrightarrow> fsub a b \<le> fsub a' b'"
  by (simp add: fsub_def rnd_mono diff_mono)

lemma fmul_mono: "0 \<le> b \<Longrightarrow> a \<le> a' \<Longrightarrow> fmul a b \<le> fmul a' b"
  by (simp add: fmul_def rnd_mono mult_right_mono)

lemma dec_nonneg: "0 \<le> x \<Longrightarrow> 0 \<le> dec x"
  by (simp add: dec_def rnd_nonneg)

lemma of_count_mono: "m \<le> n \<Longrightarrow> of_count m \<le> of_count n"
  by (simp add: of_count_def rnd_mono)

text \<open>Every source of weight below one stays below it, and trust grows with corroboration and falls
  with contradiction.\<close>

lemma effective_weight_bounds: "0 \<le> effective_source_weight w a d v" "effective_source_weight w a d v \<le> 1"
  using fclamp_bounds [of 0 1] by (simp_all add: effective_source_weight_def Let_def)

lemma effective_weight_mono:
  assumes "w \<le> w'" "a \<le> a'" "d' \<le> d"
  shows "effective_source_weight w a d v \<le> effective_source_weight w' a' d' v"
proof (cases v)
  case False
  have "fmul (of_count a) (dec (8 / 100)) \<le> fmul (of_count a') (dec (8 / 100))"
    "fmul (of_count d') (dec (10 / 100)) \<le> fmul (of_count d) (dec (10 / 100))"
    using assms by (simp_all add: fmul_mono dec_nonneg of_count_mono)
  then have "fsub (fadd w (min (fmul (of_count a) (dec (8 / 100))) (dec (25 / 100))))
        (min (fmul (of_count d) (dec (10 / 100))) (dec (30 / 100))) \<le>
      fsub (fadd w' (min (fmul (of_count a') (dec (8 / 100))) (dec (25 / 100))))
        (min (fmul (of_count d') (dec (10 / 100))) (dec (30 / 100)))"
    using assms(1) by (intro fsub_mono fadd_mono min.mono) simp_all
  then show ?thesis using False by (simp add: effective_source_weight_def Let_def fclamp_mono)
qed (simp add: effective_source_weight_def)

lemma policy_score_mono: "a \<le> a' \<Longrightarrow> b \<le> b' \<Longrightarrow> policy_score a b \<le> policy_score a' b'"
  by (simp add: policy_score_def fadd_mono fmul_mono fclamp_mono dec_nonneg)

lemma policy_score_max: "policy_score 1 1 = 1"
  by code_simp

lemma fclamp_twice: "fclamp 0 1 (fclamp 0 1 x) = fclamp 0 1 x"
  by (simp add: fclamp_def)

lemma policy_score_le_1: "policy_score a b \<le> 1"
proof -
  have "policy_score a b = policy_score (fclamp 0 1 a) (fclamp 0 1 b)"
    by (simp add: policy_score_def fclamp_twice)
  also have "\<dots> \<le> policy_score 1 1" by (intro policy_score_mono fclamp_bounds) simp_all
  finally show ?thesis by (simp add: policy_score_max)
qed

text \<open>Trust moves with the evidence: a source that is trusted more, with more corroborating and fewer
  contradicting memories, has at least the effective weight of one with less, in float arithmetic with
  its caps and roundings, and every effective weight lies between zero and one.\<close>

theorem trust_follows_evidence:
  assumes "w \<le> w'" "a \<le> a'" "d' \<le> d"
  shows "effective_source_weight w a d v \<le> effective_source_weight w' a' d' v
    \<and> 0 \<le> effective_source_weight w a d v \<and> effective_source_weight w' a' d' v \<le> 1"
  using effective_weight_mono [OF assms, of v] effective_weight_bounds by simp

theorem trust_follows_evidence_witness:
  "effective_source_weight (source_weight Tool) 1 2 False \<le> effective_source_weight (source_weight Chat) 3 0 False"
  using trust_follows_evidence [of "source_weight Tool" "source_weight Chat" 1 3 0 2 False]
  by (simp add: dec_def rnd_mono)

end
