(* ===== verification/Agent_Promoter.thy ===== *)
theory Agent_Promoter
  imports Agent_Policy
begin

text \<open>
  The promotion gate (\<open>agent_memory/memory_promoter.rs\<close>): the score and its thresholds, the
  eligibility of a candidate for its layer, and the durable memory that a promotion produces.
  \<open>uuid\<close> is the fresh identifier and \<open>now\<close> the clock.
\<close>

record eligibility =
  el_allowed :: bool
  el_reason :: ustr
  el_code :: "reason_code option"
  el_basis :: ustr
  el_fallback :: ustr

record promoter =
  mp_policy :: policy_set
  mp_profile :: policy_profile

definition new_promoter :: "policy_set \<Rightarrow> promoter" where
  "new_promoter p = \<lparr>mp_policy = p, mp_profile = profile_of p\<rparr>"

definition effective_trust :: "candidate \<Rightarrow> promotion_context \<Rightarrow> flt" where
  "effective_trust c ctx =
     effective_source_weight (pv_trust (ca_source c)) (pc_corroborating ctx) (pc_contradictory ctx) (pc_verified ctx)"

definition is_event_like :: "agent_env \<Rightarrow> candidate \<Rightarrow> bool" where
  "is_event_like env c =
     (cand_layer c = Episode \<or> ca_event_at c \<noteq> None
      \<or> 2 \<le> hits_in (ag_lower env (ca_raw c)) (map lit [''completed'', ''failed'', ''started'', ''happened'',
             ''yesterday'', ''today'', ''workflow''])
      \<or> ca_meta c (lit ''outcome'') \<noteq> None \<or> cand_workflow c \<noteq> None)"

definition should_preserve_as_episode :: "agent_env \<Rightarrow> candidate \<Rightarrow> bool" where
  "should_preserve_as_episode env c =
     (cand_layer c \<noteq> Trace \<and> (cand_has_structure c \<or> is_event_like env c \<or> cand_workflow c \<noteq> None))"

definition has_goal_semantics :: "agent_env \<Rightarrow> candidate \<Rightarrow> bool" where
  "has_goal_semantics env c =
     (case (cand_slot c, cand_value c) of
        (Some s, Some v) \<Rightarrow>
          (let terms = map lit [''task'', ''status'', ''goal'', ''blocked'', ''waiting'', ''next'', ''todo'',
               ''milestone'', ''complete'', ''done'', ''active''] in
           list_ex (str_contains (ag_lower env s)) terms \<or> list_ex (str_contains (ag_lower env v)) terms
           \<or> list_ex (str_contains (ag_lower env (ca_raw c))) terms)
      | _ \<Rightarrow> False)"

definition explicit_self_statement :: "agent_env \<Rightarrow> candidate \<Rightarrow> bool" where
  "explicit_self_statement env c =
     (case cand_slot c of None \<Rightarrow> False | Some s \<Rightarrow>
     (case from_slot_strict env s of None \<Rightarrow> False | Some k \<Rightarrow>
        allows_singleton_kind k \<and>
        list_ex (str_contains (ag_lower env (unwrap_or [] (cand_value c) @ lit '' '' @ ca_raw c)))
          (map lit [''prefer'', ''preference'', ''constraint'', ''always'', ''never'', ''avoid'', ''style''])))"

definition episode_or_trace :: "bool \<Rightarrow> ustr" where
  "episode_or_trace b = (if b then lit ''episode'' else lit ''trace'')"

definition refuse :: "reason_code \<Rightarrow> string \<Rightarrow> string \<Rightarrow> ustr \<Rightarrow> eligibility" where
  "refuse code basis reason fallback =
     \<lparr>el_allowed = False, el_reason = lit reason, el_code = Some code, el_basis = lit basis, el_fallback = fallback\<rparr>"

definition admit :: "string \<Rightarrow> string \<Rightarrow> eligibility" where
  "admit basis reason = \<lparr>el_allowed = True, el_reason = lit reason, el_code = None, el_basis = lit basis, el_fallback = lit ''episode''\<rparr>"

definition can_promote_to_episode :: "agent_env \<Rightarrow> candidate \<Rightarrow> eligibility" where
  "can_promote_to_episode env c =
     (if \<not> is_event_like env c then refuse EvidenceThresholdNotMet ''insufficient_semantics''
          ''episode promotion requires event-like evidence'' (lit ''trace'')
      else admit ''singleton'' ''episode promotion allowed for event-like observation'')"

definition can_promote_to_goal :: "agent_env \<Rightarrow> candidate \<Rightarrow> eligibility" where
  "can_promote_to_goal env c =
     (if \<not> cand_structured_for c GoalState
        then refuse StructuredIdentityRequired ''insufficient_structure''
               ''goal-state promotion requires non-empty entity, slot, and value'' (episode_or_trace (is_event_like env c))
      else if \<not> has_goal_semantics env c
        then refuse GoalStateSemanticsRequired ''insufficient_semantics''
               ''goal-state promotion requires explicit active task or blocker semantics'' (episode_or_trace (is_event_like env c))
      else admit ''singleton'' ''goal-state promotion allowed for explicit task-state observation'')"

definition can_promote_to_belief :: "agent_env \<Rightarrow> promoter \<Rightarrow> candidate \<Rightarrow> promotion_context \<Rightarrow> eligibility" where
  "can_promote_to_belief env p c ctx =
     (if \<not> cand_structured_for c Belief
        then refuse StructuredIdentityRequired ''insufficient_structure''
               ''belief promotion requires non-empty entity, slot, and value'' (episode_or_trace (should_preserve_as_episode env c))
      else if pc_verified ctx then admit ''verified_source'' ''belief promotion allowed for verified source evidence''
      else if hc_min_belief (pp_constraints (mp_profile p)) \<le> pc_belief ctx then admit ''repeated_evidence'' ''belief promotion allowed after repeated matching evidence''
      else if allows_singleton_belief (mp_profile p) (pv_type (ca_source c)) (effective_trust c ctx)
        then admit (if 0 < pc_corroborating ctx then ''corroborated_trusted_source'' else ''trusted_source'')
          ''belief promotion allowed for trusted source evidence after deterministic trust adjustment''
      else refuse EvidenceThresholdNotMet ''insufficient_evidence''
               ''belief promotion requires repeated evidence, verified source, or trusted source'' (lit ''episode''))"

definition can_promote_to_self :: "agent_env \<Rightarrow> promoter \<Rightarrow> candidate \<Rightarrow> promotion_context \<Rightarrow> eligibility" where
  "can_promote_to_self env p c ctx =
     (let trusted = allows_singleton_self (mp_profile p) (pv_type (ca_source c)) (effective_trust c ctx) in
      if \<not> cand_structured_for c SelfModel
        then refuse StructuredIdentityRequired ''insufficient_structure''
               ''self-model promotion requires non-empty entity, slot, and value'' (episode_or_trace (should_preserve_as_episode env c))
      else if hc_min_self (pp_constraints (mp_profile p)) \<le> pc_self_model ctx then admit ''repeated_evidence'' ''self-model promotion allowed after repeated stable evidence''
      else if (pc_verified ctx \<or> trusted) \<and> \<not> explicit_self_statement env c
        then refuse ProtectedSelfModelRejected ''insufficient_evidence''
               ''self-model promotion rejected by protected self-model rules'' (lit ''episode'')
      else if explicit_self_statement env c \<and> trusted
        then admit (if 0 < pc_corroborating ctx then ''corroborated_trusted_source'' else ''trusted_source'')
          ''self-model promotion allowed for explicit durable trusted statement after deterministic trust adjustment''
      else if pc_verified ctx \<and> explicit_self_statement env c then admit ''verified_source''
               ''self-model promotion allowed for verified durable statement''
      else refuse EvidenceThresholdNotMet ''insufficient_evidence''
               ''self-model promotion requires repeated evidence or an explicit durable trusted statement'' (lit ''episode''))"

definition can_promote_to_procedure :: "agent_env \<Rightarrow> promoter \<Rightarrow> candidate \<Rightarrow> promotion_context \<Rightarrow> eligibility" where
  "can_promote_to_procedure env p c ctx =
     (if \<not> cand_structured_for c Procedure
        then refuse StructuredIdentityRequired ''insufficient_structure''
               ''procedure promotion requires non-empty entity, slot, value, and workflow key'' (episode_or_trace (is_event_like env c))
      else if pc_seeded ctx then admit ''system_seeded'' ''procedure promotion allowed for explicitly seeded system workflow''
      else if hc_min_procedure (pp_constraints (mp_profile p)) \<le> pc_success ctx then admit ''repeated_evidence''
               ''procedure promotion allowed after repeated successful workflow evidence''
      else refuse ProcedureEvidenceRestricted ''insufficient_evidence''
               ''procedure promotion requires repeated successful evidence or explicit system seeding'' (episode_or_trace (is_event_like env c)))"

definition destination_eligibility :: "agent_env \<Rightarrow> promoter \<Rightarrow> candidate \<Rightarrow> promotion_context \<Rightarrow> eligibility" where
  "destination_eligibility env p c ctx =
     (case cand_layer c of
        Trace \<Rightarrow> refuse TraceLayerArchivalOnly ''trace_only'' ''trace observations are archival only'' (lit ''trace'')
      | Episode \<Rightarrow> can_promote_to_episode env c
      | GoalState \<Rightarrow> can_promote_to_goal env c
      | Belief \<Rightarrow> can_promote_to_belief env p c ctx
      | SelfModel \<Rightarrow> can_promote_to_self env p c ctx
      | Procedure \<Rightarrow> can_promote_to_procedure env p c ctx)"

definition evidence_count :: "memory_layer \<Rightarrow> promotion_context \<Rightarrow> nat" where
  "evidence_count l ctx = (case l of Belief \<Rightarrow> pc_belief ctx | SelfModel \<Rightarrow> pc_self_model ctx
     | GoalState \<Rightarrow> pc_goal_state ctx | Procedure \<Rightarrow> pc_success ctx | Episode \<Rightarrow> 1 | Trace \<Rightarrow> 0)"

definition bool_str :: "bool \<Rightarrow> ustr" where
  "bool_str b = (if b then lit ''true'' else lit ''false'')"

fun source_str :: "source_type \<Rightarrow> ustr" where
  "source_str Chat = lit ''chat''"
| "source_str File = lit ''file''"
| "source_str Tool = lit ''tool''"
| "source_str System = lit ''system''"
| "source_str External = lit ''external''"

definition base_details :: "agent_env \<Rightarrow> promoter \<Rightarrow> candidate \<Rightarrow> promotion_context \<Rightarrow> flt \<Rightarrow> meta" where
  "base_details env p c ctx score = map_of
     [(lit ''target_layer'', layer_str (cand_layer c)),
      (lit ''score_threshold'', ag_show_flt env (promote_threshold (mp_profile p) (cand_layer c))),
      (lit ''source_type'', source_str (pv_type (ca_source c))),
      (lit ''source_trust_weight'', ag_show_flt env (pv_trust (ca_source c))),
      (lit ''effective_source_trust_weight'', ag_show_flt env (effective_trust c ctx)),
      (lit ''score'', ag_show_flt env score),
      (lit ''evidence_count'', dec_str (evidence_count (cand_layer c) ctx)),
      (lit ''verified_source'', bool_str (pc_verified ctx)),
      (lit ''corroborating_evidence_count'', dec_str (pc_corroborating ctx)),
      (lit ''contradictory_evidence_count'', dec_str (pc_contradictory ctx)),
      (lit ''seeded_by_system'', bool_str (pc_seeded ctx)),
      (lit ''policy_version'', dec_str (pp_version (mp_profile p)))]"

record promotion_result =
  px_decision :: promotion_decision
  px_score :: flt
  px_reason :: ustr
  px_code :: "reason_code option"
  px_memory :: "durable option"
  px_details :: meta

definition promoted_memory ::
  "ustr \<Rightarrow> time \<Rightarrow> promoter \<Rightarrow> candidate \<Rightarrow> promotion_context \<Rightarrow> ustr \<Rightarrow> durable" where
  "promoted_memory uuid now p c ctx route =
     \<lparr>du_id = uuid, du_candidate = ca_id c, du_stored_at = now, du_updated_at = Some now,
      du_entity = unwrap_or [] (cand_entity c), du_slot = unwrap_or [] (cand_slot c),
      du_value = unwrap_or [] (cand_value c), du_raw = ca_raw c, du_type = ca_type c,
      du_confidence = ca_confidence c, du_salience = ca_salience c, du_scope = ca_scope c,
      du_ttl = or_opt (ca_ttl c) (rr_ttl (rule_of (cand_layer c) (ca_type c))), du_source = ca_source c,
      du_event_at = ca_event_at c, du_valid_from = ca_valid_from c, du_valid_to = ca_valid_to c,
      du_layer = ca_layer c, du_tags = ca_tags c,
      du_meta = (ca_meta c)(lit ''promotion_route_basis'' \<mapsto> route,
         lit ''promotion_evidence_count'' \<mapsto> dec_str (evidence_count (cand_layer c) ctx),
         lit ''promotion_verified_source'' \<mapsto> bool_str (pc_verified ctx),
         lit ''promotion_seeded_by_system'' \<mapsto> bool_str (pc_seeded ctx)),
      du_retraction = ca_retraction c\<rparr>"

definition withheld :: "promotion_decision \<Rightarrow> flt \<Rightarrow> ustr \<Rightarrow> reason_code option \<Rightarrow> meta \<Rightarrow> promotion_result" where
  "withheld d score reason code details = \<lparr>px_decision = d, px_score = score, px_reason = reason, px_code = code, px_memory = None,
     px_details = (case code of None \<Rightarrow> details | Some r \<Rightarrow> details(lit ''reason_code'' \<mapsto> reason_str r))\<rparr>"

definition routed :: "ustr \<Rightarrow> ustr \<Rightarrow> meta \<Rightarrow> meta" where
  "routed basis fallback details = details(lit ''route_basis'' \<mapsto> basis, lit ''fallback_layer'' \<mapsto> fallback)"

definition promote_with_context ::
  "agent_env \<Rightarrow> ustr \<Rightarrow> time \<Rightarrow> promoter \<Rightarrow> candidate \<Rightarrow> promotion_context \<Rightarrow> promotion_result" where
  "promote_with_context env uuid now p c ctx =
     (let score = promotion_score (mp_profile p) (ca_confidence c) (ca_salience c);
          layer = cand_layer c;
          details = base_details env p c ctx score;
          hc = pp_constraints (mp_profile p) in
      if score < hc_reject hc then
        withheld Reject score (lit ''score below rejection threshold'') (Some ScoreBelowRejectionThreshold) (routed (lit ''rejected'') (lit ''trace'') details)
      else if layer = Trace then
        withheld StoreTrace score (lit ''candidate retained as trace only'') (Some TraceLayerArchivalOnly)
          (routed (lit ''insufficient_score'') (lit ''trace'') details)
      else if score < hc_trace_only hc then
        withheld StoreTrace score (lit ''candidate retained as trace only'') (Some ScoreBelowTraceThreshold)
          (routed (lit ''insufficient_score'') (lit ''trace'') details)
      else
        (let el = destination_eligibility env p c ctx;
             details = routed (el_basis el) (el_fallback el) details in
         if \<not> el_allowed el then withheld StoreTrace score (el_reason el) (el_code el) details
         else if score < promote_threshold (mp_profile p) layer then
           withheld StoreTrace score (lit ''candidate did not meet promotion threshold'') (Some PromotionThresholdNotMet) details
         else \<lparr>px_decision = Promote, px_score = score, px_reason = lit ''candidate promoted to durable memory'', px_code = None,
                px_memory = Some (promoted_memory uuid now p c ctx (el_basis el)),
                px_details = (case el_code el of None \<Rightarrow> details
                  | Some r \<Rightarrow> details(lit ''reason_code'' \<mapsto> reason_str r))\<rparr>))"

section \<open>What the gate lets through\<close>

text \<open>The evidence that the policy asks of a candidate for its layer.\<close>

fun sufficient :: "agent_env \<Rightarrow> promoter \<Rightarrow> candidate \<Rightarrow> promotion_context \<Rightarrow> memory_layer \<Rightarrow> bool" where
  "sufficient env p c ctx Trace = False"
| "sufficient env p c ctx Episode = True"
| "sufficient env p c ctx GoalState = (cand_structured_for c GoalState \<and> has_goal_semantics env c)"
| "sufficient env p c ctx Belief = (cand_structured_for c Belief \<and>
     (pc_verified ctx \<or> hc_min_belief (pp_constraints (mp_profile p)) \<le> pc_belief ctx
      \<or> allows_singleton_belief (mp_profile p) (pv_type (ca_source c)) (effective_trust c ctx)))"
| "sufficient env p c ctx SelfModel = (cand_structured_for c SelfModel \<and>
     (hc_min_self (pp_constraints (mp_profile p)) \<le> pc_self_model ctx
      \<or> explicit_self_statement env c \<and> (pc_verified ctx
          \<or> allows_singleton_self (mp_profile p) (pv_type (ca_source c)) (effective_trust c ctx))))"
| "sufficient env p c ctx Procedure = (cand_structured_for c Procedure \<and>
     (pc_seeded ctx \<or> hc_min_procedure (pp_constraints (mp_profile p)) \<le> pc_success ctx))"

lemma eligibility_fields [simp]: "\<not> el_allowed (refuse code basis why fb)" "el_code (refuse code basis why fb) = Some code"
  "el_allowed (admit basis why)" "el_code (admit basis why) = None"
  by (simp_all add: refuse_def admit_def)

lemma eligibility_exact: "el_allowed (destination_eligibility env p c ctx) \<longleftrightarrow> sufficient env p c ctx (cand_layer c)"
  by (cases "cand_layer c")
    (auto simp: destination_eligibility_def can_promote_to_episode_def can_promote_to_goal_def
      can_promote_to_belief_def can_promote_to_self_def can_promote_to_procedure_def is_event_like_def Let_def)

lemma allowed_no_code: "el_allowed (destination_eligibility env p c ctx) \<Longrightarrow> el_code (destination_eligibility env p c ctx) = None"
  by (cases "cand_layer c")
    (simp_all add: destination_eligibility_def can_promote_to_episode_def can_promote_to_goal_def
      can_promote_to_belief_def can_promote_to_self_def can_promote_to_procedure_def Let_def split: if_splits)

lemma withheld_fields [simp]: "px_decision (withheld d s why code m) = d" "px_memory (withheld d s why code m) = None"
  "px_code (withheld d s why code m) = code" "px_score (withheld d s why code m) = s"
  by (simp_all add: withheld_def)

text \<open>The three thresholds that a promoted score has to reach.\<close>

definition passing :: "promoter \<Rightarrow> memory_layer \<Rightarrow> flt \<Rightarrow> bool" where
  "passing p l score \<longleftrightarrow> hc_reject (pp_constraints (mp_profile p)) \<le> score
     \<and> hc_trace_only (pp_constraints (mp_profile p)) \<le> score \<and> promote_threshold (mp_profile p) l \<le> score"

abbreviation score_of :: "promoter \<Rightarrow> candidate \<Rightarrow> flt" where
  "score_of p c \<equiv> promotion_score (mp_profile p) (ca_confidence c) (ca_salience c)"

lemma promote_iff:
  "px_decision (promote_with_context env uuid now p c ctx) = Promote \<longleftrightarrow>
     passing p (cand_layer c) (score_of p c) \<and> sufficient env p c ctx (cand_layer c)"
  using eligibility_exact [of env p c ctx]
  by (cases "cand_layer c = Trace") (auto simp: promote_with_context_def Let_def passing_def)

lemma promote_memory:
  "px_decision (promote_with_context env uuid now p c ctx) = Promote \<Longrightarrow>
     px_memory (promote_with_context env uuid now p c ctx) =
       Some (promoted_memory uuid now p c ctx (el_basis (destination_eligibility env p c ctx)))"
  by (auto simp: promote_with_context_def Let_def split: if_splits)

lemma promote_none:
  "px_decision (promote_with_context env uuid now p c ctx) \<noteq> Promote \<Longrightarrow>
     px_memory (promote_with_context env uuid now p c ctx) = None"
  by (auto simp: promote_with_context_def Let_def split: if_splits)

lemma promoted_layer: "mem_layer (promoted_memory uuid now p c ctx route) = cand_layer c"
  by (simp add: promoted_memory_def mem_layer_def cand_layer_def)

lemma trimmed_again: "trimmed_non_empty s = Some t \<Longrightarrow> trimmed_non_empty t = Some t"
  by (auto simp: trimmed_non_empty_def split: if_splits)

text \<open>A promoted memory has the structure that its layer needs, with trimmed fields.\<close>

lemma promoted_structured:
  assumes "cand_structured_for c l"
  shows "structured_for (promoted_memory uuid now p c ctx route) l"
proof -
  have t: "cand_entity c = Some e \<Longrightarrow> trimmed_non_empty e = Some e" "cand_slot c = Some e \<Longrightarrow> trimmed_non_empty e = Some e"
    "cand_value c = Some e \<Longrightarrow> trimmed_non_empty e = Some e" for e
    by (auto simp: cand_entity_def cand_slot_def cand_value_def bind_eq_Some_conv trimmed_again)
  show ?thesis using assms
    by (cases l) (auto simp: cand_structured_for_def structured_for_def promoted_memory_def mem_entity_def
        mem_slot_def mem_value_def mem_workflow_def t lit_def)
qed

text \<open>C6. The promotion gate is exact: it promotes a candidate exactly when its score reaches the
  thresholds of rejection, trace and layer and the evidence that the policy asks for the layer is there,
  and a memory comes out exactly then, of the layer of the candidate and with the structure of that layer.\<close>

theorem gate_exact:
  "let r = promote_with_context env uuid now p c ctx; l = cand_layer c in
     (px_decision r = Promote \<longleftrightarrow> passing p l (score_of p c) \<and> sufficient env p c ctx l)
     \<and> (case px_memory r of None \<Rightarrow> px_decision r \<noteq> Promote
        | Some m \<Rightarrow> px_decision r = Promote \<and> mem_layer m = l \<and> structured_for m l \<and> du_candidate m = ca_id c)"
proof -
  have s: "cand_structured_for c l" if "sufficient env p c ctx l" for l
    using that by (cases l) (simp_all add: cand_structured_for_def)
  have c: "du_candidate (promoted_memory uuid now p c ctx route) = ca_id c" for route
    by (simp add: promoted_memory_def)
  show ?thesis
    using promote_iff [of env uuid now p c ctx] promote_none [of env uuid now p c ctx]
      promote_memory [of env uuid now p c ctx] promoted_structured [OF s]
    by (cases "px_decision (promote_with_context env uuid now p c ctx) = Promote")
      (simp_all add: Let_def promoted_layer c)
qed

end
