(* ===== verification/Agent_Store.thy ===== *)
theory Agent_Store
  imports Agent_Promoter "HOL-Library.AList" "HOL-Library.List_Lexorder" "HOL-Library.Product_Lexorder"
begin

text \<open>
  The store of the agent memory (\<open>agent_memory/adapters/memvid_store.rs\<close>): the trait \<open>MemoryStore\<close>
  with its in-memory implementation, version order, deduplication of hits, and the metadata format
  in which \<open>MemvidStore\<close> keeps a memory in a frame.

  No operation of the in-memory store fails, so an operation is a function on the store.  The code
  iterates over hash maps in an unspecified order; the model keeps the order of first insertion.
  \<open>uuid\<close> is a fresh identifier, \<open>wall\<close> the system time that replaces an unreadable one.
\<close>

section \<open>Version order\<close>

definition memory_is_newer :: "durable \<Rightarrow> durable \<Rightarrow> bool" where
  "memory_is_newer c e =
     (version_time e < version_time c
      \<or> version_time c = version_time e
        \<and> (event_time e < event_time c \<or> event_time c = event_time e \<and> du_id e < du_id c))"

definition latest_step :: "durable \<Rightarrow> (ustr \<times> durable) list \<Rightarrow> (ustr \<times> durable) list" where
  "latest_step m acc = (case map_of acc (du_id m) of
     Some e \<Rightarrow> if \<not> memory_is_newer m e then acc else AList.update (du_id m) m acc
   | None \<Rightarrow> AList.update (du_id m) m acc)"

definition latest_by_id :: "durable list \<Rightarrow> durable list" where
  "latest_by_id ms = map snd (fold latest_step ms [])"

section \<open>Hits\<close>

definition hit_identity :: "retrieval_hit \<Rightarrow> ustr option" where
  "hit_identity h = or_opt (map_option (\<lambda>i. lit ''memory:'' @ i) (rh_memory h))
     (map_option (\<lambda>i. lit ''belief:'' @ i) (rh_belief h))"

definition dedup_step :: "retrieval_hit \<Rightarrow> (ustr \<times> retrieval_hit) list \<Rightarrow> (ustr \<times> retrieval_hit) list" where
  "dedup_step h acc = (case hit_identity h of None \<Rightarrow> acc
     | Some i \<Rightarrow> (case map_of acc i of
         Some e \<Rightarrow> if rh_score h < rh_score e \<or> rh_score e = rh_score h \<and> rh_timestamp h \<le> rh_timestamp e
                   then acc else AList.update i h acc
       | None \<Rightarrow> AList.update i h acc))"

definition dedup_search_hits :: "retrieval_hit list \<Rightarrow> retrieval_hit list" where
  "dedup_search_hits hs =
     sort_key (\<lambda>h. (- rh_score h, - rh_timestamp h)) (map snd (fold dedup_step hs []))"

definition aggregate_step :: "ustr \<times> time \<Rightarrow> (ustr \<times> time \<times> nat) list \<Rightarrow> (ustr \<times> time \<times> nat) list" where
  "aggregate_step p acc = (case p of (i, t) \<Rightarrow>
     (case map_of acc i of
        Some (t', n) \<Rightarrow> AList.update i (max t' t, sat32 n 1) acc
      | None \<Rightarrow> acc @ [(i, t, 1)]))"

definition aggregate_batch_touches :: "(ustr \<times> time) list \<Rightarrow> (ustr \<times> time \<times> nat) list" where
  "aggregate_batch_touches ts = fold aggregate_step ts []"

definition memory_as_of_anchor :: "retrieval_query \<Rightarrow> durable \<Rightarrow> time" where
  "memory_as_of_anchor q m =
     (if rq_intent q = HistoricalFact \<or> rq_intent q = EpisodicRecall then event_time m else du_stored_at m)"

definition simple_score :: "agent_env \<Rightarrow> ustr \<Rightarrow> ustr \<Rightarrow> flt" where
  "simple_score env haystack q =
     (let tokens = split_whitespace (ag_lower env q) in
      if tokens = [] then 0
      else fdiv (of_count (length (filter (str_contains (ag_lower env haystack)) tokens))) (of_count (length tokens)))"

definition scope_str :: "scope \<Rightarrow> ustr" where
  "scope_str s = (case s of Private \<Rightarrow> lit ''private'' | Task \<Rightarrow> lit ''task'' | Project \<Rightarrow> lit ''project''
     | Shared \<Rightarrow> lit ''shared'')"

definition parse_scope :: "ustr option \<Rightarrow> scope" where
  "parse_scope v = (if v = Some (lit ''task'') then Task else if v = Some (lit ''project'') then Project
     else if v = Some (lit ''shared'') then Shared else Private)"

definition type_str :: "memory_type \<Rightarrow> ustr" where
  "type_str t = (case t of memory_type.Trace \<Rightarrow> lit ''trace'' | memory_type.Episode \<Rightarrow> lit ''episode''
     | Fact \<Rightarrow> lit ''fact'' | memory_type.Preference \<Rightarrow> lit ''preference''
     | memory_type.GoalState \<Rightarrow> lit ''goalstate'')"

definition parse_memory_type :: "ustr option \<Rightarrow> memory_type" where
  "parse_memory_type v = (if v = Some (lit ''episode'') then memory_type.Episode
     else if v = Some (lit ''fact'') then Fact
     else if v = Some (lit ''preference'') then memory_type.Preference
     else if v = Some (lit ''goalstate'') \<or> v = Some (lit ''goal_state'') then memory_type.GoalState
     else memory_type.Trace)"

definition parse_memory_layer :: "ustr option \<Rightarrow> memory_type \<Rightarrow> memory_layer" where
  "parse_memory_layer v t = unwrap_or (type_layer t) (Option.bind v layer_from_str)"

definition parse_source_type :: "ustr option \<Rightarrow> source_type" where
  "parse_source_type v = (if v = Some (lit ''file'') then File else if v = Some (lit ''tool'') then Tool
     else if v = Some (lit ''system'') then System else if v = Some (lit ''external'') then External else Chat)"

definition set_opt :: "string \<Rightarrow> ustr option \<Rightarrow> meta \<Rightarrow> meta" where
  "set_opt k v m = (case v of None \<Rightarrow> m | Some x \<Rightarrow> m(lit k \<mapsto> x))"

definition retrieval_metadata :: "agent_env \<Rightarrow> durable \<Rightarrow> meta" where
  "retrieval_metadata env m =
     set_opt ''valid_to'' (map_option (ag_show_time env) (du_valid_to m))
     (set_opt ''valid_from'' (map_option (ag_show_time env) (du_valid_from m))
     ((du_meta m)(lit ''memory_layer'' \<mapsto> layer_str (mem_layer m),
        lit ''confidence'' \<mapsto> ag_show_flt env (du_confidence m),
        lit ''salience'' \<mapsto> ag_show_flt env (du_salience m),
        lit ''source_id'' \<mapsto> pv_id (du_source m),
        lit ''source_type'' \<mapsto> source_str (pv_type (du_source m)),
        lit ''source_weight'' \<mapsto> ag_show_flt env (pv_trust (du_source m)),
        lit ''stored_at'' \<mapsto> ag_show_time env (du_stored_at m),
        lit ''updated_at'' \<mapsto> ag_show_time env (version_time m),
        lit ''event_at'' \<mapsto> ag_show_time env (unwrap_or (event_time m) (du_event_at m)))))"

section \<open>The in-memory store\<close>

record mem_store =
  ms_traces :: "(ustr \<times> ustr \<times> meta) list"
  ms_memories :: "durable list"
  ms_beliefs :: "((ustr \<times> ustr) \<times> belief) list"
  ms_expired :: "ustr set"
  ms_touches :: "ustr \<Rightarrow> (time \<times> nat) option"

definition empty_store :: mem_store where
  "empty_store = \<lparr>ms_traces = [], ms_memories = [], ms_beliefs = [], ms_expired = {}, ms_touches = Map.empty\<rparr>"

definition latest_stored :: "mem_store \<Rightarrow> ustr \<Rightarrow> durable option" where
  "latest_stored s i = (case latest_by_id (filter (\<lambda>m. du_id m = i) (ms_memories s)) of [] \<Rightarrow> None | m # _ \<Rightarrow> Some m)"

definition apply_access_touch :: "agent_env \<Rightarrow> mem_store \<Rightarrow> durable \<Rightarrow> durable" where
  "apply_access_touch env s m = (case ms_touches s (du_id m) of None \<Rightarrow> m
     | Some (t, n) \<Rightarrow>
         if (case last_accessed_at env m of None \<Rightarrow> True | Some t0 \<Rightarrow> t0 < t)
         then (let m' = m\<lparr>du_meta := (du_meta m)(lit ''retrieval_count'' \<mapsto> dec_str n,
                  lit ''last_accessed_at'' \<mapsto> ag_show_time env t)\<rparr>
               in m'\<lparr>du_updated_at := Some (max (version_time m') t)\<rparr>)
         else m)"

definition put_trace :: "ustr \<Rightarrow> ustr \<Rightarrow> meta \<Rightarrow> mem_store \<Rightarrow> mem_store" where
  "put_trace uuid raw_text m s = s\<lparr>ms_traces := ms_traces s @ [(uuid, raw_text, m)]\<rparr>"

definition put_memory :: "durable \<Rightarrow> mem_store \<Rightarrow> mem_store" where
  "put_memory m s = s\<lparr>ms_memories := ms_memories s @ [m]\<rparr>"

definition get_memory :: "agent_env \<Rightarrow> mem_store \<Rightarrow> ustr \<Rightarrow> durable option" where
  "get_memory env s i = map_option (apply_access_touch env s) (latest_stored s i)"

definition touch_step :: "agent_env \<Rightarrow> ustr \<times> time \<times> nat \<Rightarrow> mem_store \<Rightarrow> mem_store" where
  "touch_step env p s = (case p of (i, t, n) \<Rightarrow>
     (case get_memory env s i of None \<Rightarrow> s
      | Some m \<Rightarrow>
          (let touched = m\<lparr>du_meta := (du_meta m)(lit ''retrieval_count'' \<mapsto> dec_str (sat32 (retrieval_count m) n))\<rparr>
           in s\<lparr>ms_touches := (ms_touches s)(i \<mapsto> (t, retrieval_count touched))\<rparr>)))"

definition touch_accesses :: "agent_env \<Rightarrow> (ustr \<times> time) list \<Rightarrow> mem_store \<Rightarrow> mem_store" where
  "touch_accesses env ts s = fold (touch_step env) (aggregate_batch_touches ts) s"

definition touch_access :: "agent_env \<Rightarrow> ustr \<Rightarrow> time \<Rightarrow> mem_store \<Rightarrow> mem_store" where
  "touch_access env i t s = touch_accesses env [(i, t)] s"

definition update_belief :: "belief \<Rightarrow> mem_store \<Rightarrow> mem_store" where
  "update_belief b s = s\<lparr>ms_beliefs := AList.update (be_entity b, be_slot b) b (ms_beliefs s)\<rparr>"

definition get_current_belief :: "mem_store \<Rightarrow> ustr \<Rightarrow> ustr \<Rightarrow> belief option" where
  "get_current_belief s e sl = map_of (ms_beliefs s) (e, sl)"

definition get_active_belief :: "mem_store \<Rightarrow> ustr \<Rightarrow> ustr \<Rightarrow> belief option" where
  "get_active_belief s e sl = (case get_current_belief s e sl of None \<Rightarrow> None
     | Some b \<Rightarrow> if be_status b = belief_status.Active then Some b else None)"

definition get_belief_by_id :: "mem_store \<Rightarrow> ustr \<Rightarrow> belief option" where
  "get_belief_by_id s i = List.find (\<lambda>b. be_id b = i) (map snd (ms_beliefs s))"

definition list_versions :: "mem_store \<Rightarrow> memory_layer \<Rightarrow> durable list" where
  "list_versions s l = filter (\<lambda>m. mem_layer m = l) (ms_memories s)"

definition list_by_layer :: "agent_env \<Rightarrow> mem_store \<Rightarrow> memory_layer \<Rightarrow> durable list" where
  "list_by_layer env s l = map (apply_access_touch env s) (latest_by_id (list_versions s l))"

definition list_for_belief :: "agent_env \<Rightarrow> mem_store \<Rightarrow> ustr \<Rightarrow> ustr \<Rightarrow> durable list" where
  "list_for_belief env s e sl =
     filter (\<lambda>m. du_entity m = e \<and> du_slot m = sl) (list_by_layer env s Belief)"

definition expire_memory :: "ustr \<Rightarrow> mem_store \<Rightarrow> mem_store" where
  "expire_memory i s = s\<lparr>ms_expired := insert i (ms_expired s)\<rparr>"

definition memory_hit :: "agent_env \<Rightarrow> mem_store \<Rightarrow> retrieval_query \<Rightarrow> durable \<Rightarrow> retrieval_hit option" where
  "memory_hit env s q m =
     (if rq_scope q \<noteq> None \<and> rq_scope q \<noteq> Some (du_scope m) then None
      else if du_id m \<in> ms_expired s \<and> \<not> rq_include_expired q then None
      else if (case rq_as_of q of None \<Rightarrow> False | Some t \<Rightarrow> t < memory_as_of_anchor q m) then None
      else (let score = simple_score env
              (du_entity m @ lit '' '' @ du_slot m @ lit '' '' @ du_value m @ lit '' '' @ du_raw m) (rq_text q) in
        if score = 0 then None
        else Some \<lparr>rh_memory = Some (du_id m), rh_belief = None, rh_entity = Some (du_entity m),
          rh_slot = Some (du_slot m), rh_value = Some (du_value m), rh_text = du_raw m,
          rh_layer = Some (mem_layer m), rh_type = Some (du_type m), rh_score = score,
          rh_timestamp = event_time m, rh_scope = Some (du_scope m), rh_source = Some (pv_type (du_source m)),
          rh_from_belief = False, rh_expired = du_id m \<in> ms_expired s, rh_meta = retrieval_metadata env m\<rparr>))"

definition trace_hit :: "agent_env \<Rightarrow> time \<Rightarrow> retrieval_query \<Rightarrow> ustr \<times> ustr \<times> meta \<Rightarrow> retrieval_hit option" where
  "trace_hit env wall q tr = (case tr of (i, raw_text, m) \<Rightarrow>
     (let get = (\<lambda>k. unwrap_or [] (m (lit k)));
          score = simple_score env (join (lit '' '') [raw_text, get ''workflow_key'', get ''previous_status'',
            get ''next_status'', get ''transition_reason'', get ''source'']) (rq_text q) in
      if score = 0 then None
      else Some \<lparr>rh_memory = Some i, rh_belief = None, rh_entity = m (lit ''entity''), rh_slot = m (lit ''slot''),
        rh_value = m (lit ''value''), rh_text = raw_text, rh_layer = Some Trace, rh_type = Some memory_type.Trace,
        rh_score = score,
        rh_timestamp = unwrap_or wall (Option.bind (m (lit ''occurred_at'')) (ag_parse_time env)),
        rh_scope = rq_scope q, rh_source = map_option (\<lambda>v. parse_source_type (Some v)) (m (lit ''source_type'')),
        rh_from_belief = False, rh_expired = False, rh_meta = m\<rparr>))"

definition search_store :: "agent_env \<Rightarrow> time \<Rightarrow> mem_store \<Rightarrow> retrieval_query \<Rightarrow> retrieval_hit list" where
  "search_store env wall s q =
     take (rq_top_k q * 4) (dedup_search_hits
       (List.map_filter (memory_hit env s q) (map (apply_access_touch env s) (latest_by_id (ms_memories s)))
        @ List.map_filter (trace_hit env wall q) (ms_traces s)))"

section \<open>The newest version\<close>

text \<open>The version that a pass over the versions of one memory ends with.\<close>

definition newest_step :: "durable \<Rightarrow> durable option \<Rightarrow> durable option" where
  "newest_step m acc = (case acc of None \<Rightarrow> Some m | Some e \<Rightarrow> if memory_is_newer m e then Some m else Some e)"

definition newest :: "durable list \<Rightarrow> durable option" where
  "newest ms = fold newest_step ms None"

lemma newest_append: "newest (ms @ [m]) = newest_step m (newest ms)"
  by (simp add: newest_def)

lemma newest_None [simp]: "newest ms = None \<longleftrightarrow> ms = []"
  by (induction ms rule: rev_induct) (auto simp: newest_def newest_step_def split: option.splits)

lemma newest_member: "newest ms = Some m \<Longrightarrow> m \<in> set ms"
  by (induction ms arbitrary: m rule: rev_induct)
    (auto simp: newest_append newest_step_def newest_def split: option.splits if_splits)

lemma newest_Nil [simp]: "newest [] = None"
  by (simp add: newest_def)

lemma map_of_latest_step:
  "map_of (latest_step m acc) i = (if i = du_id m then newest_step m (map_of acc i) else map_of acc i)"
  by (auto simp: newest_step_def latest_step_def update_conv' split: option.splits)

lemma map_of_latest: "map_of (fold latest_step ms []) i = newest (filter (\<lambda>m. du_id m = i) ms)"
  by (induction ms rule: rev_induct) (auto simp: newest_append map_of_latest_step)

lemma distinct_latest_step: "distinct (map fst acc) \<Longrightarrow> distinct (map fst (latest_step m acc))"
  by (auto simp: latest_step_def distinct_update split: option.splits)

lemma distinct_latest: "distinct (map fst (fold latest_step ms []))"
  by (induction ms rule: rev_induct) (simp_all add: distinct_latest_step)

lemma latest_keys: "p \<in> set (fold latest_step ms []) \<Longrightarrow> du_id (snd p) = fst p"
proof -
  assume p: "p \<in> set (fold latest_step ms [])"
  then have "map_of (fold latest_step ms []) (fst p) = Some (snd p)"
    by (intro map_of_is_SomeI distinct_latest) simp
  then show ?thesis using newest_member by (fastforce simp: map_of_latest)
qed

text \<open>\<open>latest_by_id\<close> lists, for each identifier once, the newest version.\<close>

lemma latest_by_id_iff: "m \<in> set (latest_by_id ms) \<longleftrightarrow> newest (filter (\<lambda>x. du_id x = du_id m) ms) = Some m"
proof -
  have "m \<in> set (latest_by_id ms) \<longleftrightarrow> (du_id m, m) \<in> set (fold latest_step ms [])"
  proof
    assume "m \<in> set (latest_by_id ms)"
    then obtain p where p: "p \<in> set (fold latest_step ms [])" "snd p = m" by (auto simp: latest_by_id_def)
    have "p = (du_id m, m)" using latest_keys [OF p(1)] p(2) by (simp add: prod_eq_iff)
    then show "(du_id m, m) \<in> set (fold latest_step ms [])" using p by simp
  next
    assume "(du_id m, m) \<in> set (fold latest_step ms [])"
    then have "snd (du_id m, m) \<in> snd ` set (fold latest_step ms [])" by (rule imageI)
    then show "m \<in> set (latest_by_id ms)" by (simp add: latest_by_id_def)
  qed
  also have "\<dots> \<longleftrightarrow> map_of (fold latest_step ms []) (du_id m) = Some m"
    using distinct_latest [of ms] by simp
  finally show ?thesis by (simp add: map_of_latest)
qed

lemma distinct_latest_ids: "distinct (map du_id (latest_by_id ms))"
proof -
  have "map du_id (latest_by_id ms) = map fst (fold latest_step ms [])"
    unfolding latest_by_id_def map_map by (rule map_cong [OF refl]) (simp add: latest_keys)
  then show ?thesis using distinct_latest [of ms] by simp
qed

lemma set_latest_by_id: "set (latest_by_id ms) \<subseteq> set ms"
  using latest_by_id_iff newest_member by fastforce

lemma latest_stored_newest: "latest_stored s i = newest (filter (\<lambda>m. du_id m = i) (ms_memories s))"
proof -
  let ?ms = "filter (\<lambda>m. du_id m = i) (ms_memories s)"
  have one: "du_id m = i" if "m \<in> set (latest_by_id ?ms)" for m
    using that set_latest_by_id [of ?ms] by auto
  have nw: "newest ?ms = Some m" if "m \<in> set (latest_by_id ?ms)" for m
    using that one [OF that] by (simp add: latest_by_id_iff conj_commute)
  show ?thesis
  proof (cases "latest_by_id ?ms")
    case Nil
    have "newest ?ms = None"
    proof (rule ccontr)
      assume "newest ?ms \<noteq> None"
      then obtain m where m: "newest ?ms = Some m" by (cases "newest ?ms") simp_all
      then have "du_id m = i" using newest_member by force
      then have "m \<in> set (latest_by_id ?ms)" using m by (simp add: latest_by_id_iff conj_commute)
      then show False using Nil by simp
    qed
    then show ?thesis using Nil by (simp add: latest_stored_def)
  next
    case (Cons m r)
    then show ?thesis using nw [of m] by (simp add: latest_stored_def)
  qed
qed

lemma newer_irrefl [simp]: "\<not> memory_is_newer m m"
  by (simp add: memory_is_newer_def)

lemma newer_trans: "memory_is_newer a b \<Longrightarrow> memory_is_newer b c \<Longrightarrow> memory_is_newer a c"
  by (auto simp: memory_is_newer_def)

lemma newest_maximal: "newest ms = Some m \<Longrightarrow> x \<in> set ms \<Longrightarrow> \<not> memory_is_newer x m"
proof (induction ms arbitrary: m rule: rev_induct)
  case (snoc y ys)
  then show ?case
    by (auto simp: newest_append newest_step_def split: option.splits if_splits dest: newer_trans)
qed simp

lemma touch_keeps [simp]: "du_id (apply_access_touch env s m) = du_id m"
  "mem_layer (apply_access_touch env s m) = mem_layer m" "du_entity (apply_access_touch env s m) = du_entity m"
  "du_slot (apply_access_touch env s m) = du_slot m" "du_value (apply_access_touch env s m) = du_value m"
  "du_retraction (apply_access_touch env s m) = du_retraction m" "du_stored_at (apply_access_touch env s m) = du_stored_at m"
  by (auto simp: apply_access_touch_def Let_def mem_layer_def split: option.splits)

end
