(* ===== verification/Agent_Layers.thy ===== *)
theory Agent_Layers
  imports Agent_Store
begin

text \<open>
  The layer stores of the agent memory: episodes (\<open>episode_store.rs\<close>), goal states
  (\<open>goal_state_store.rs\<close>), the self model (\<open>self_model_store.rs\<close>) and beliefs (\<open>belief_store.rs\<close>,
  \<open>belief_updater.rs\<close>).  A write returns the identifier and the store, or the error.
\<close>

section \<open>Episodes\<close>

definition record_episode :: "ustr \<Rightarrow> candidate \<Rightarrow> time \<Rightarrow> mem_store \<Rightarrow> durable \<times> mem_store" where
  "record_episode uuid c now s = (let e = to_episode_memory uuid c now in (e, put_memory e s))"

definition save_episode :: "durable \<Rightarrow> mem_store \<Rightarrow> (ustr \<times> mem_store) ares" where
  "save_episode m s =
     (if mem_layer m \<noteq> Episode then Inl (InvalidCandidate ''episode store can only persist episode-layer memory'')
      else Inr (du_id m, put_memory m s))"

definition recent_memories :: "agent_env \<Rightarrow> mem_store \<Rightarrow> nat \<Rightarrow> durable list" where
  "recent_memories env s n = take n (sort_key (\<lambda>m. - event_time m) (list_by_layer env s Episode))"

definition recent_episodes :: "agent_env \<Rightarrow> mem_store \<Rightarrow> nat \<Rightarrow> episode_record list" where
  "recent_episodes env s n = map to_episode_record (recent_memories env s n)"

definition recent_for_entity :: "agent_env \<Rightarrow> mem_store \<Rightarrow> ustr \<Rightarrow> nat \<Rightarrow> episode_record list" where
  "recent_for_entity env s e n = map to_episode_record (take n (sort_key (\<lambda>m. - event_time m)
     (filter (\<lambda>m. du_entity m = e) (list_by_layer env s Episode))))"

definition episodes_by_ids :: "agent_env \<Rightarrow> mem_store \<Rightarrow> ustr list \<Rightarrow> episode_record list" where
  "episodes_by_ids env s ids = sort_key (\<lambda>r. - er_event_at r) (map to_episode_record
     (filter (\<lambda>m. du_id m \<in> set ids) (list_by_layer env s Episode)))"

definition episodes_by_workflow :: "agent_env \<Rightarrow> mem_store \<Rightarrow> ustr \<Rightarrow> episode_record list" where
  "episodes_by_workflow env s key = sort_key (\<lambda>r. - er_event_at r) (map to_episode_record
     (filter (\<lambda>m. du_meta m (lit ''workflow_key'') = Some key) (list_by_layer env s Episode)))"

definition memories_by_workflow :: "agent_env \<Rightarrow> mem_store \<Rightarrow> ustr \<Rightarrow> durable list" where
  "memories_by_workflow env s key = sort_key (\<lambda>m. - event_time m)
     (filter (\<lambda>m. du_meta m (lit ''workflow_key'') = Some key) (list_by_layer env s Episode))"

section \<open>Goal states\<close>

text \<open>\<open>Iterator::max_by\<close>: the last of the greatest.\<close>

definition last_max :: "('a \<Rightarrow> 'b::linorder) \<Rightarrow> 'a list \<Rightarrow> 'a option" where
  "last_max key xs = fold (\<lambda>x acc. case acc of None \<Rightarrow> Some x | Some y \<Rightarrow> if key y \<le> key x then Some x else Some y) xs None"

definition same_slot :: "ustr option \<Rightarrow> ustr option \<Rightarrow> durable \<Rightarrow> bool" where
  "same_slot e sl m = (mem_entity m = e \<and> mem_slot m = sl)"

definition trimmed_fields :: "memory_layer \<Rightarrow> durable \<Rightarrow> durable" where
  "trimmed_fields l m = m\<lparr>du_layer := Some l, du_entity := unwrap_or [] (mem_entity m),
     du_slot := unwrap_or [] (mem_slot m), du_value := unwrap_or [] (mem_value m)\<rparr>"

definition supported :: "ustr option \<Rightarrow> durable \<Rightarrow> durable" where
  "supported ep m = (case ep of None \<Rightarrow> m | Some i \<Rightarrow> with_supporting_episode i m)"

definition save_goal :: "agent_env \<Rightarrow> durable \<Rightarrow> ustr option \<Rightarrow> mem_store \<Rightarrow> (ustr \<times> mem_store) ares" where
  "save_goal env m ep s =
     (if mem_layer m \<noteq> GoalState
        then Inl (InvalidCandidate ''goal-state store can only persist goal-state memory'')
      else if \<not> structured_for m GoalState
        then Inl (InvalidCandidate ''goal-state store requires non-empty entity, slot, and value'')
      else
        (let existing = last_max version_time (filter (same_slot (mem_entity m) (mem_slot m))
               (filter (\<lambda>c. structured_for c GoalState) (list_by_layer env s GoalState)));
             g = trimmed_fields GoalState m;
             st = unwrap_or (goal_from_text env (du_value g) (du_raw g))
               (Option.bind (du_meta g (lit ''goal_status'')) goal_from_str);
             g = g\<lparr>du_meta := (du_meta g)(lit ''goal_status'' \<mapsto> goal_str st)\<rparr>;
             g = (case existing of None \<Rightarrow> g
               | Some e \<Rightarrow> g\<lparr>du_id := du_id e, du_stored_at := du_stored_at e\<rparr>);
             g = supported ep g
         in Inr (du_id g, put_memory g s)))"

definition goal_memories :: "agent_env \<Rightarrow> mem_store \<Rightarrow> durable list" where
  "goal_memories env s = sort_key (\<lambda>m. - version_time m)
     (filter (\<lambda>m. structured_for m GoalState) (list_by_layer env s GoalState))"

definition goal_records :: "agent_env \<Rightarrow> mem_store \<Rightarrow> goal_record list" where
  "goal_records env s = List.map_filter (to_goal_record env) (goal_memories env s)"

definition is_active_goal :: "goal_status \<Rightarrow> bool" where
  "is_active_goal g = (g \<in> {goal_status.Active, Blocked, WaitingOnUser, WaitingOnSystem})"

text \<open>The filter over \<open>latest_keys.insert\<close>: the first element of every key.\<close>

fun first_of_keys :: "('a \<Rightarrow> 'k) \<Rightarrow> 'k list \<Rightarrow> 'a list \<Rightarrow> 'a list" where
  "first_of_keys key seen [] = []"
| "first_of_keys key seen (x # xs) =
     (if key x \<in> set seen then first_of_keys key seen xs else x # first_of_keys key (key x # seen) xs)"

definition active_goal_memories :: "agent_env \<Rightarrow> mem_store \<Rightarrow> durable list" where
  "active_goal_memories env s = map fst
     (first_of_keys (\<lambda>p. gr_entity (snd p) @ lit ''::'' @ gr_slot (snd p)) []
       (List.map_filter (\<lambda>m. case to_goal_record env m of None \<Rightarrow> None
          | Some r \<Rightarrow> if is_active_goal (gr_status r) then Some (m, r) else None) (goal_memories env s)))"

definition active_goals :: "agent_env \<Rightarrow> mem_store \<Rightarrow> goal_record list" where
  "active_goals env s = List.map_filter (to_goal_record env) (active_goal_memories env s)"

definition goals_for_entity :: "agent_env \<Rightarrow> mem_store \<Rightarrow> ustr \<Rightarrow> goal_record list" where
  "goals_for_entity env s e = filter (\<lambda>r. gr_entity r = e) (goal_records env s)"

definition active_goals_for_entity :: "agent_env \<Rightarrow> mem_store \<Rightarrow> ustr \<Rightarrow> goal_record list" where
  "active_goals_for_entity env s e = filter (\<lambda>r. gr_entity r = e) (active_goals env s)"

definition blocker_key :: "agent_env \<Rightarrow> goal_record \<Rightarrow> ustr option" where
  "blocker_key env r =
     (if gr_status r \<in> {Blocked, WaitingOnUser, WaitingOnSystem} then
        (case gr_meta r (lit ''blocker_reason'') of
           Some reason \<Rightarrow> Some (ag_lower env (trim reason))
         | None \<Rightarrow>
             (let fallback = (if to_ascii_lowercase (gr_value r) = to_ascii_lowercase (goal_str (gr_status r))
                then trim (gr_summary r) else trim (gr_value r))
              in if fallback = [] then None else Some (ag_lower env fallback)))
      else None)"

definition matching_blockers :: "agent_env \<Rightarrow> mem_store \<Rightarrow> ustr \<Rightarrow> ustr \<Rightarrow> ustr \<Rightarrow> goal_record list" where
  "matching_blockers env s e sl key =
     filter (\<lambda>r. gr_entity r = e \<and> gr_slot r = sl \<and> blocker_key env r = Some key)
       (List.map_filter (to_goal_record env)
          (filter (\<lambda>m. structured_for m GoalState) (list_versions s GoalState)))"

section \<open>The self model\<close>

definition supporting_ids :: "durable \<Rightarrow> ustr list" where
  "supporting_ids m = (case or_opt (du_meta m (lit ''supporting_memory_ids'')) (du_meta m (lit ''supporting_episode_ids'')) of
     None \<Rightarrow> [] | Some v \<Rightarrow> split_commas v)"

definition status_priority :: "durable \<Rightarrow> nat" where
  "status_priority m =
     (case unwrap_or belief_status.Active (Option.bind (du_meta m (lit ''self_model_status'')) belief_from_str) of
        belief_status.Active \<Rightarrow>
          (case unwrap_or FlexiblePreference (Option.bind (du_meta m (lit ''self_model_stability_class'')) stability_from_str) of
             StableDirective \<Rightarrow> 4 | FlexiblePreference \<Rightarrow> 3)
      | belief_status.Stale \<Rightarrow> 2 | Disputed \<Rightarrow> 1 | belief_status.Retracted \<Rightarrow> 0)"

definition by_priority :: "durable list \<Rightarrow> durable list" where
  "by_priority = sort_key (\<lambda>m. (- int (status_priority m), - version_time m))"

definition governed_meta :: "agent_env \<Rightarrow> durable \<Rightarrow> meta" where
  "governed_meta env m = (du_meta m)(lit ''self_model_kind'' \<mapsto> self_kind_str (from_slot env (du_slot m)),
     lit ''self_model_stability_class'' \<mapsto> stability_str (stability_of (from_slot env (du_slot m))),
     lit ''self_model_update_requirement'' \<mapsto> requirement_str (requirement_of (from_slot env (du_slot m))))"

definition self_entries :: "agent_env \<Rightarrow> mem_store \<Rightarrow> ustr option \<Rightarrow> ustr option \<Rightarrow> durable list" where
  "self_entries env s e sl = by_priority (filter (same_slot e sl)
     (filter (\<lambda>c. structured_for c SelfModel) (list_by_layer env s SelfModel)))"

text \<open>The same value reinforces the entry, a strong new value replaces it, a weak one is stored
  beside it as disputed.\<close>

definition reinforced :: "agent_env \<Rightarrow> durable \<Rightarrow> ustr list \<Rightarrow> durable \<Rightarrow> durable" where
  "reinforced env e ids m =
     (let m = m\<lparr>du_id := du_id e, du_stored_at := du_stored_at e,
            du_confidence := max (du_confidence m) (du_confidence e)\<rparr>
      in m\<lparr>du_meta := (du_meta m)(
          lit ''reinforcement_count'' \<mapsto> dec_str (add32
            (unwrap_or 1 (Option.bind (du_meta e (lit ''reinforcement_count'')) parse_u32)) 1),
          lit ''last_reinforced_at'' \<mapsto> ag_show_time env (version_time m),
          lit ''supporting_memory_ids'' \<mapsto> join [44] ids,
          lit ''self_model_stability_class'' \<mapsto> stability_str (stability_of (from_slot env (du_slot m))))\<rparr>)"

definition contradicted :: "agent_env \<Rightarrow> durable \<Rightarrow> ustr list \<Rightarrow> durable \<Rightarrow> durable" where
  "contradicted env e ids m =
     (let new_strength = fadd (du_confidence m) (pv_trust (du_source m));
          old_strength = fadd (du_confidence e) (pv_trust (du_source e));
          forced = du_meta m (lit ''stable_directive_update_path'') \<noteq> None;
          m = m\<lparr>du_meta := (du_meta m)(lit ''prior_value'' \<mapsto> du_value e,
            lit ''conflict_observed_at'' \<mapsto> ag_show_time env (version_time m),
            lit ''supporting_memory_ids'' \<mapsto> join [44] ids)\<rparr>
      in if forced \<or> old_strength \<le> fadd new_strength (dec (5 / 100)) then
           m\<lparr>du_id := du_id e, du_stored_at := du_stored_at e,
             du_meta := (du_meta m)(lit ''contradiction_resolution'' \<mapsto> lit ''updated'')\<rparr>
         else
           m\<lparr>du_meta := (du_meta m)(lit ''self_model_status'' \<mapsto> belief_str Disputed,
             lit ''contradiction_resolution'' \<mapsto> lit ''disputed'')\<rparr>)"

definition save_self_model :: "agent_env \<Rightarrow> durable \<Rightarrow> ustr option \<Rightarrow> mem_store \<Rightarrow> (ustr \<times> mem_store) ares" where
  "save_self_model env m ep s =
     (if mem_layer m \<noteq> SelfModel
        then Inl (InvalidCandidate ''self-model store can only persist self-model memory'')
      else if \<not> structured_for m SelfModel
        then Inl (InvalidCandidate ''self-model store requires non-empty entity, slot, and value'')
      else
        (let existing = self_entries env s (mem_entity m) (mem_slot m);
             x = trimmed_fields SelfModel m;
             x = x\<lparr>du_meta := governed_meta env x\<rparr>;
             x = x\<lparr>du_meta := (if du_meta x (lit ''reinforcement_count'') = None
                then (du_meta x)(lit ''reinforcement_count'' \<mapsto> lit ''1'') else du_meta x)
                  (lit ''self_model_status'' \<mapsto> belief_str belief_status.Active)\<rparr>;
             x = (case existing of [] \<Rightarrow> x
               | e # _ \<Rightarrow>
                   (let ids = (case ep of None \<Rightarrow> supporting_ids e | Some i \<Rightarrow> add_new i (supporting_ids e)) in
                    if du_value e = du_value x then reinforced env e ids x else contradicted env e ids x));
             x = supported ep x
         in Inr (du_id x, put_memory x s)))"

definition self_memories_for :: "agent_env \<Rightarrow> mem_store \<Rightarrow> ustr \<Rightarrow> durable list" where
  "self_memories_for env s e =
     (if trim e = [] then []
      else by_priority (filter (\<lambda>m. mem_entity m = Some (trim e))
        (filter (\<lambda>m. structured_for m SelfModel) (list_by_layer env s SelfModel))))"

definition self_records_for :: "agent_env \<Rightarrow> mem_store \<Rightarrow> ustr \<Rightarrow> self_record list" where
  "self_records_for env s e = List.map_filter (to_self_record env) (self_memories_for env s e)"

definition latest_self_record :: "agent_env \<Rightarrow> mem_store \<Rightarrow> ustr \<Rightarrow> ustr \<Rightarrow> self_record option" where
  "latest_self_record env s e sl =
     (if trim sl = [] then None else List.find (\<lambda>r. sr_slot r = trim sl) (self_records_for env s e))"

definition latest_self_records :: "agent_env \<Rightarrow> mem_store \<Rightarrow> ustr \<Rightarrow> self_record list" where
  "latest_self_records env s e = first_of_keys sr_slot [] (self_records_for env s e)"

definition matching_values :: "agent_env \<Rightarrow> mem_store \<Rightarrow> ustr \<Rightarrow> ustr \<Rightarrow> ustr \<Rightarrow> self_record list" where
  "matching_values env s e sl v =
     (let sl = trim sl; v = trim v in
      if sl = [] \<or> v = [] then []
      else filter (\<lambda>r. sr_slot r = sl \<and> sr_value r = v) (List.map_filter (to_self_record env)
        (filter (\<lambda>m. structured_for m SelfModel \<and> mem_entity m = Some e \<and> du_slot m = sl \<and> du_value m = v)
          (list_versions s SelfModel))))"

definition matching_values_since :: "agent_env \<Rightarrow> mem_store \<Rightarrow> ustr \<Rightarrow> ustr \<Rightarrow> ustr \<Rightarrow> time \<Rightarrow> self_record list" where
  "matching_values_since env s e sl v since =
     filter (\<lambda>r. since \<le> sr_observed_at r) (matching_values env s e sl v)"

section \<open>Beliefs\<close>

record belief_outcome =
  bo_action :: belief_action
  bo_current :: "belief option"
  bo_prior :: "belief option"

text \<open>A map with \<open>insert\<close> as an association list.\<close>

definition weigh :: "durable \<Rightarrow> (source_type \<times> flt) list \<Rightarrow> (source_type \<times> flt) list" where
  "weigh m ws = AList.update (pv_type (du_source m)) (pv_trust (du_source m)) ws"

definition since_contradiction :: "belief \<Rightarrow> time \<Rightarrow> int option" where
  "since_contradiction b now = map_option (\<lambda>t. max 0 (secs now - secs t)) (be_last_contradiction b)"

definition new_belief :: "ustr \<Rightarrow> durable \<Rightarrow> time \<Rightarrow> belief" where
  "new_belief uuid m now = \<lparr>be_id = uuid, be_entity = du_entity m, be_slot = du_slot m, be_value = du_value m,
     be_status = (if du_retraction m then belief_status.Retracted else belief_status.Active),
     be_confidence = du_confidence m, be_valid_from = unwrap_or (du_stored_at m) (du_valid_from m),
     be_valid_to = (if du_retraction m then Some now else None), be_reviewed_at = now,
     be_supporting = (if du_retraction m then [] else [du_id m]), be_opposing = [], be_contradictions = 0,
     be_last_contradiction = None, be_resolution_secs = None, be_positive = 0, be_negative = 0,
     be_last_outcome = None, be_weights = weigh m []\<rparr>"

definition retracted_belief :: "durable \<Rightarrow> time \<Rightarrow> belief \<Rightarrow> belief" where
  "retracted_belief m now b = b\<lparr>be_status := belief_status.Retracted, be_valid_to := Some now, be_reviewed_at := now,
     be_opposing := add_new (du_id m) (be_opposing b),
     be_resolution_secs := or_opt (since_contradiction b now) (be_resolution_secs b),
     be_last_contradiction := None\<rparr>"

definition reinforced_belief :: "durable \<Rightarrow> time \<Rightarrow> belief \<Rightarrow> belief" where
  "reinforced_belief m now b =
     (let b = b\<lparr>be_confidence := max (be_confidence b) (du_confidence m), be_reviewed_at := now,
           be_supporting := add_new (du_id m) (be_supporting b), be_weights := weigh m (be_weights b)\<rparr>
      in if be_status b = Disputed
         then b\<lparr>be_status := belief_status.Active,
            be_resolution_secs := or_opt (since_contradiction b now) (be_resolution_secs b),
            be_last_contradiction := None\<rparr>
         else b)"

definition superseded_belief :: "durable \<Rightarrow> time \<Rightarrow> belief \<Rightarrow> belief" where
  "superseded_belief m now b = b\<lparr>be_status := belief_status.Stale, be_valid_to := Some now, be_reviewed_at := now,
     be_opposing := be_opposing b @ [du_id m]\<rparr>"

definition replacement_belief :: "ustr \<Rightarrow> durable \<Rightarrow> time \<Rightarrow> belief \<Rightarrow> belief" where
  "replacement_belief uuid m now b = \<lparr>be_id = uuid, be_entity = du_entity m, be_slot = du_slot m, be_value = du_value m,
     be_status = belief_status.Active, be_confidence = du_confidence m,
     be_valid_from = unwrap_or (du_stored_at m) (du_valid_from m), be_valid_to = None, be_reviewed_at = now,
     be_supporting = [du_id m], be_opposing = be_supporting (superseded_belief m now b), be_contradictions = 0,
     be_last_contradiction = None, be_resolution_secs = since_contradiction b now, be_positive = 0, be_negative = 0,
     be_last_outcome = None, be_weights = weigh m []\<rparr>"

definition disputed_belief :: "durable \<Rightarrow> time \<Rightarrow> belief \<Rightarrow> belief" where
  "disputed_belief m now b = b\<lparr>be_status := Disputed, be_reviewed_at := now,
     be_opposing := add_new (du_id m) (be_opposing b),
     be_contradictions := (if du_id m \<in> set (be_opposing b) then be_contradictions b else sat32 (be_contradictions b) 1),
     be_last_contradiction := Some now, be_resolution_secs := None\<rparr>"

definition outweighs :: "durable \<Rightarrow> belief \<Rightarrow> bool" where
  "outweighs m b = (strongest_weight b < pv_trust (du_source m)
     \<and> be_confidence b \<le> fadd (du_confidence m) (dec (5 / 100)))"

definition apply_belief :: "ustr \<Rightarrow> belief option \<Rightarrow> durable \<Rightarrow> time \<Rightarrow> belief_outcome" where
  "apply_belief uuid existing m now =
     (case existing of
        None \<Rightarrow> \<lparr>bo_action = (if du_retraction m then Retract else Update),
                 bo_current = Some (new_belief uuid m now), bo_prior = None\<rparr>
      | Some b \<Rightarrow>
          if du_retraction m then \<lparr>bo_action = Retract, bo_current = Some (retracted_belief m now b), bo_prior = None\<rparr>
          else if be_value b = du_value m then
            \<lparr>bo_action = Reinforce, bo_current = Some (reinforced_belief m now b), bo_prior = None\<rparr>
          else if outweighs m b then
            \<lparr>bo_action = Update, bo_current = Some (replacement_belief uuid m now b),
             bo_prior = Some (superseded_belief m now b)\<rparr>
          else \<lparr>bo_action = Dispute, bo_current = Some (disputed_belief m now b), bo_prior = None\<rparr>)"

text \<open>The belief after a sequence of observations, each with a fresh identifier and its time.\<close>

definition observe :: "ustr \<times> durable \<times> time \<Rightarrow> belief option \<Rightarrow> belief option" where
  "observe p b = (case p of (uuid, m, now) \<Rightarrow> bo_current (apply_belief uuid b m now))"

definition belief_after :: "(ustr \<times> durable \<times> time) list \<Rightarrow> belief option" where
  "belief_after ps = fold observe ps None"

section \<open>The state of a belief\<close>

text \<open>A belief is disputed exactly while a contradiction is open; its evidence is listed once; a
  contradiction is counted at most once per opposing memory; a retracted belief has ended.\<close>

definition belief_wf :: "belief \<Rightarrow> bool" where
  "belief_wf b \<longleftrightarrow> (be_status b = Disputed \<longleftrightarrow> be_last_contradiction b \<noteq> None)
     \<and> distinct (be_supporting b) \<and> distinct (be_opposing b)
     \<and> be_contradictions b \<le> length (be_opposing b) \<and> be_contradictions b < 4294967296
     \<and> be_status b \<noteq> belief_status.Stale
     \<and> (be_status b = belief_status.Retracted \<longrightarrow> be_valid_to b \<noteq> None)
     \<and> distinct (map fst (be_weights b))"

lemma distinct_add_new [simp]: "distinct (add_new x xs) \<longleftrightarrow> distinct xs"
  by (simp add: add_new_def)

lemma set_add_new [simp]: "set (add_new x xs) = insert x (set xs)"
  by (auto simp: add_new_def)

lemma distinct_weigh [simp]: "distinct (map fst ws) \<Longrightarrow> distinct (map fst (weigh m ws))"
  by (simp add: weigh_def distinct_update)

lemma new_belief_wf: "belief_wf (new_belief uuid m now)"
  by (simp add: belief_wf_def new_belief_def weigh_def)

lemma retracted_wf: "belief_wf b \<Longrightarrow> belief_wf (retracted_belief m now b)"
  by (auto simp: belief_wf_def retracted_belief_def add_new_def)

lemma reinforced_wf: "belief_wf b \<Longrightarrow> belief_wf (reinforced_belief m now b)"
  by (auto simp: belief_wf_def reinforced_belief_def Let_def)

lemma replacement_wf: "belief_wf b \<Longrightarrow> belief_wf (replacement_belief uuid m now b)"
  by (simp add: belief_wf_def replacement_belief_def superseded_belief_def weigh_def)

lemma disputed_wf: "belief_wf b \<Longrightarrow> belief_wf (disputed_belief m now b)"
  by (auto simp: belief_wf_def disputed_belief_def add_new_def sat32_def)

lemmas belief_steps_wf = new_belief_wf retracted_wf reinforced_wf replacement_wf disputed_wf

lemma apply_belief_wf:
  assumes "\<And>b. existing = Some b \<Longrightarrow> belief_wf b"
  shows "\<exists>b. bo_current (apply_belief uuid existing m now) = Some b \<and> belief_wf b"
  using assms by (cases existing) (simp_all add: apply_belief_def belief_steps_wf)

lemma observe_wf: "(case b of None \<Rightarrow> True | Some x \<Rightarrow> belief_wf x) \<Longrightarrow>
    (case observe p b of None \<Rightarrow> False | Some x \<Rightarrow> belief_wf x)"
  using apply_belief_wf [of b "fst p" "fst (snd p)" "snd (snd p)"]
  by (auto simp: observe_def split: prod.splits option.splits)

lemma belief_after_wf: "belief_after ps = Some b \<Longrightarrow> belief_wf b"
proof (induction ps arbitrary: b rule: rev_induct)
  case (snoc p ps)
  then show ?case using observe_wf [of "belief_after ps" p]
    by (auto simp: belief_after_def split: option.splits)
qed (simp add: belief_after_def)

lemma fold_max_ge: "(a :: flt) \<le> fold max ws a"
proof (induction ws arbitrary: a)
  case (Cons w ws)
  show ?case using Cons [of "max w a"] by simp
qed simp

lemma fold_max_mem: "(w :: flt) \<in> set ws \<Longrightarrow> w \<le> fold max ws a"
proof (induction ws arbitrary: a)
  case (Cons v ws)
  then show ?case using fold_max_ge [of "max v a" ws] by auto
qed simp

lemma strongest_ge: "w \<in> snd ` set (be_weights b) \<Longrightarrow> w \<le> strongest_weight b"
  unfolding strongest_weight_def by (rule fold_max_mem) simp

text \<open>The value changes only by an observation that no weight of the belief reaches.\<close>

lemma value_change:
  "bo_current (apply_belief uuid (Some b) m now) = Some b' \<Longrightarrow> be_value b' \<noteq> be_value b \<Longrightarrow>
     outweighs m b \<and> be_value b' = du_value m \<and> \<not> du_retraction m"
  by (auto simp: apply_belief_def retracted_belief_def reinforced_belief_def disputed_belief_def
      replacement_belief_def Let_def split: if_splits)

text \<open>A retracted belief whose value is asserted again is reinforced and stays retracted.\<close>

lemma reassertion_stays_retracted:
  "be_status b = belief_status.Retracted \<Longrightarrow> be_value b = du_value m \<Longrightarrow> \<not> du_retraction m \<Longrightarrow>
     apply_belief uuid (Some b) m now = \<lparr>bo_action = Reinforce, bo_current = Some (reinforced_belief m now b), bo_prior = None\<rparr>
     \<and> be_status (reinforced_belief m now b) = belief_status.Retracted"
  by (simp add: apply_belief_def reinforced_belief_def)

text \<open>C36. After any sequence of observations of one slot the belief is in a consistent state: it is
  disputed exactly while a contradiction is open, supporting and opposing memories are listed once, no
  more contradictions are counted than there are opposing memories, a retracted belief has an end, and
  there is one weight per source type; there is a belief after the first observation.\<close>

theorem belief_history_wf:
  "case belief_after ps of None \<Rightarrow> ps = [] | Some b \<Rightarrow> belief_wf b"
proof (cases "belief_after ps")
  case None
  have "belief_after (qs @ [q]) \<noteq> None" for qs q
    using apply_belief_wf [of "belief_after qs" "fst q" "fst (snd q)" "snd (snd q)"] belief_after_wf [of qs]
    by (auto simp: belief_after_def observe_def split: prod.splits)
  then have "ps = []" using None by (cases ps rule: rev_cases) (simp, blast)
  then show ?thesis using None by simp
qed (simp add: belief_after_wf)

text \<open>C14. A belief changes its value only upwards: when an observation replaces the value, the
  trust of its source exceeds every weight that supports the belief, its confidence is comparable, the
  new value is that of the observation, and the replaced belief is kept as stale, ended now, with the
  observation among its opposing memories.\<close>

theorem belief_changes_upwards:
  assumes "apply_belief uuid (Some b) m now = r" "bo_current r = Some b'" "be_value b' \<noteq> be_value b"
  shows "(\<forall>w \<in> snd ` set (be_weights b). w < pv_trust (du_source m))
    \<and> be_confidence b \<le> fadd (du_confidence m) (dec (5 / 100)) \<and> be_value b' = du_value m
    \<and> be_status b' = belief_status.Active
    \<and> bo_prior r = Some (b\<lparr>be_status := belief_status.Stale, be_valid_to := Some now, be_reviewed_at := now,
        be_opposing := be_opposing b @ [du_id m]\<rparr>)"
proof -
  have o: "outweighs m b" "\<not> du_retraction m" and v: "be_value b' = du_value m"
    using value_change [of uuid b m now b'] assms by simp_all
  then have r: "r = \<lparr>bo_action = Update, bo_current = Some (replacement_belief uuid m now b),
      bo_prior = Some (superseded_belief m now b)\<rparr>"
    using assms by (auto simp: apply_belief_def)
  have "\<forall>w \<in> snd ` set (be_weights b). w < pv_trust (du_source m)"
    using strongest_ge o(1) le_less_trans unfolding outweighs_def by blast
  then show ?thesis
    using o(1) v assms(2) by (auto simp: r replacement_belief_def superseded_belief_def outweighs_def)
qed

definition sample_provenance :: "flt \<Rightarrow> provenance" where
  "sample_provenance w = \<lparr>pv_type = Chat, pv_id = [], pv_label = None, pv_observed_by = None, pv_trust = w\<rparr>"

definition sample_fact :: "ustr \<Rightarrow> ustr \<Rightarrow> flt \<Rightarrow> durable" where
  "sample_fact i v w = \<lparr>du_id = i, du_candidate = [], du_stored_at = 0, du_updated_at = None, du_entity = lit ''user'',
     du_slot = lit ''city'', du_value = v, du_raw = [], du_type = Fact, du_confidence = 1, du_salience = 1,
     du_scope = Private, du_ttl = None, du_source = sample_provenance w, du_event_at = None, du_valid_from = None,
     du_valid_to = None, du_layer = Some Belief, du_tags = [], du_meta = Map.empty, du_retraction = False\<rparr>"

definition sample_belief :: belief where
  "sample_belief = new_belief (lit ''b'') (sample_fact (lit ''m'') (lit ''Berlin'') (1 / 2)) 0"

theorem belief_changes_upwards_witness:
  "be_confidence sample_belief \<le> fadd 1 (dec (5 / 100))
    \<and> be_value (replacement_belief (lit ''c'') (sample_fact (lit ''n'') (lit ''Paris'') 1) 0 sample_belief) = lit ''Paris''"
proof -
  have o: "outweighs (sample_fact (lit ''n'') (lit ''Paris'') 1) sample_belief" by code_simp
  have n: "be_value sample_belief \<noteq> du_value (sample_fact (lit ''n'') (lit ''Paris'') 1)"
    "\<not> du_retraction (sample_fact (lit ''n'') (lit ''Paris'') 1)" "pv_trust (du_source (sample_fact (lit ''n'') (lit ''Paris'') 1)) = 1"
    "be_value (replacement_belief (lit ''c'') (sample_fact (lit ''n'') (lit ''Paris'') 1) 0 sample_belief) \<noteq> be_value sample_belief"
    "du_value (sample_fact (lit ''n'') (lit ''Paris'') 1) = lit ''Paris''" "du_confidence (sample_fact (lit ''n'') (lit ''Paris'') 1) = 1"
    by code_simp+
  show ?thesis
    using belief_changes_upwards [OF refl, of "lit ''c''" sample_belief "sample_fact (lit ''n'') (lit ''Paris'') 1" 0
      "replacement_belief (lit ''c'') (sample_fact (lit ''n'') (lit ''Paris'') 1) 0 sample_belief"] n o
    by (simp add: apply_belief_def)
qed

end
