(* ===== verification/Agent_Procedures.thy ===== *)
theory Agent_Procedures
  imports Agent_Layers
begin

text \<open>
  Learned procedures (\<open>agent_memory/procedure_store.rs\<close>) and retention (\<open>retention.rs\<close>,
  \<open>memory_decay.rs\<close>): the status of a procedure from its counts, the record of a success, a failure
  or an outcome, the synchronisation of all statuses, the retention rule of a memory and the expiry
  of what has outlived it.
\<close>

section \<open>Status\<close>

record status_transition =
  st_procedure :: ustr
  st_workflow :: ustr
  st_previous :: procedure_status
  st_next :: procedure_status

record upsert_outcome =
  uo_record :: procedure_record
  uo_transition :: "status_transition option"

definition effective_procedure_status :: "procedure_record \<Rightarrow> procedure_status" where
  "effective_procedure_status r =
     (if pr_status r = Retired then Retired
      else if pr_status r = CoolingDown then CoolingDown
      else if 5 \<le> add32 (pr_success r) (pr_failure r) \<and> sat32 (pr_success r) 3 \<le> pr_failure r then Retired
      else if 3 \<le> add32 (pr_success r) (pr_failure r) \<and> pr_success r < pr_failure r then CoolingDown
      else procedure_status.Active)"

definition workflow_key_for :: "procedure_record \<Rightarrow> ustr" where
  "workflow_key_for r = unwrap_or (trim (pr_name r)) (Option.bind (pr_meta r (lit ''workflow_key'')) trimmed_non_empty)"

definition procedure_confidence :: "nat \<Rightarrow> nat \<Rightarrow> flt" where
  "procedure_confidence s f =
     (if add32 s f = 0 then dec (55 / 100)
      else fclamp (dec (12 / 100)) (dec (98 / 100))
        (fadd (dec (3 / 10)) (fmul (fdiv (of_count s) (of_count (add32 s f))) (dec (68 / 100)))))"

section \<open>The store\<close>

text \<open>The memories of the layer by version, the newest per workflow.\<close>

definition all_procedure_memories :: "agent_env \<Rightarrow> mem_store \<Rightarrow> durable list" where
  "all_procedure_memories env s = map fst
     (first_of_keys (\<lambda>p. workflow_key_for (snd p)) []
       (List.map_filter (\<lambda>m. map_option (Pair m) (to_procedure_record env m))
          (sort_key (\<lambda>m. - version_time m) (list_by_layer env s Procedure))))"

definition all_procedures :: "agent_env \<Rightarrow> mem_store \<Rightarrow> procedure_record list" where
  "all_procedures env s = List.map_filter (to_procedure_record env) (all_procedure_memories env s)"

definition active_procedures :: "agent_env \<Rightarrow> mem_store \<Rightarrow> procedure_record list" where
  "active_procedures env s = filter (\<lambda>r. effective_procedure_status r \<noteq> Retired) (all_procedures env s)"

definition procedures_by_tag :: "agent_env \<Rightarrow> mem_store \<Rightarrow> ustr \<Rightarrow> procedure_record list" where
  "procedures_by_tag env s tag =
     filter (\<lambda>r. \<exists>t \<in> set (pr_context_tags r). ag_lower env t = ag_lower env tag) (active_procedures env s)"

definition procedure_for :: "agent_env \<Rightarrow> mem_store \<Rightarrow> ustr \<Rightarrow> procedure_record option" where
  "procedure_for env s key =
     (if trim key = [] then None
      else List.find (\<lambda>r. workflow_key_for r = trim key) (all_procedures env s))"

definition recorded_time :: "agent_env \<Rightarrow> meta \<Rightarrow> time \<Rightarrow> time" where
  "recorded_time env m fallback = unwrap_or fallback (Option.bind (m (lit ''recorded_at'')) (ag_parse_time env))"

definition save_procedure :: "agent_env \<Rightarrow> durable \<Rightarrow> mem_store \<Rightarrow> (ustr \<times> mem_store) ares" where
  "save_procedure env m s =
     (if mem_layer m \<noteq> Procedure
        then Inl (InvalidCandidate ''procedure store can only persist procedure-layer memory'')
      else if \<not> structured_for m Procedure
        then Inl (InvalidCandidate ''procedure store requires non-empty entity, slot, value, and workflow key'')
      else
        (let key = unwrap_or [] (mem_workflow m);
             p = trimmed_fields Procedure m;
             p = p\<lparr>du_meta := (du_meta p)(lit ''workflow_key'' \<mapsto> key)\<rparr>;
             name = unwrap_or (du_value p) (Option.bind (du_meta p (lit ''procedure_name'')) trimmed_non_empty);
             p = p\<lparr>du_meta := (du_meta p)(lit ''procedure_name'' \<mapsto> name)\<rparr>;
             p = (case procedure_for env s key of None \<Rightarrow> p
               | Some r \<Rightarrow>
                   (let t = recorded_time env (pr_meta r) (pr_updated_at r) in
                    p\<lparr>du_id := pr_id r, du_stored_at := t,
                      du_meta := (du_meta p)(lit ''recorded_at'' \<mapsto> ag_show_time env t)\<rparr>))
         in Inr (du_id p, put_memory p s)))"

definition add_all_new :: "'a list \<Rightarrow> 'a list \<Rightarrow> 'a list" where
  "add_all_new xs acc = fold add_new xs acc"

definition build_procedure :: "agent_env \<Rightarrow> ustr \<Rightarrow> procedure_record option \<Rightarrow> ustr \<Rightarrow> ustr \<Rightarrow> ustr list
    \<Rightarrow> nat \<Rightarrow> nat \<Rightarrow> time \<Rightarrow> time option \<Rightarrow> time option \<Rightarrow> procedure_record" where
  "build_procedure env uuid existing key descr ids s f now succeeded failed =
     (let m = (case existing of None \<Rightarrow> Map.empty | Some r \<Rightarrow> pr_meta r)
            (lit ''workflow_key'' \<mapsto> key, lit ''procedure_name'' \<mapsto> key);
          m = (case failed of None \<Rightarrow> m | Some t \<Rightarrow> m(lit ''last_failed_at'' \<mapsto> ag_show_time env t));
          r = \<lparr>pr_id = (case existing of None \<Rightarrow> uuid | Some r \<Rightarrow> pr_id r), pr_name = key, pr_description = descr,
            pr_context_tags = (case existing of None \<Rightarrow> [key] | Some r \<Rightarrow> pr_context_tags r),
            pr_success = s, pr_failure = f, pr_confidence = procedure_confidence s f,
            pr_status = procedure_status.Active,
            pr_learned_from = add_all_new ids (case existing of None \<Rightarrow> [] | Some r \<Rightarrow> pr_learned_from r),
            pr_last_used_at = Some now,
            pr_last_succeeded_at = or_opt succeeded (Option.bind existing pr_last_succeeded_at),
            pr_last_failed_at = or_opt failed (Option.bind existing pr_last_failed_at),
            pr_updated_at = now, pr_meta = m\<rparr>
      in r\<lparr>pr_status := effective_procedure_status r\<rparr>)"

definition set_time :: "agent_env \<Rightarrow> string \<Rightarrow> time option \<Rightarrow> meta \<Rightarrow> meta" where
  "set_time env k t m = set_opt k (map_option (ag_show_time env) t) m"

definition procedure_meta :: "agent_env \<Rightarrow> procedure_record \<Rightarrow> meta" where
  "procedure_meta env r =
     set_time env ''last_failed_at'' (pr_last_failed_at r)
     (set_time env ''last_succeeded_at'' (pr_last_succeeded_at r)
     (set_time env ''last_used_at'' (pr_last_used_at r)
     ((pr_meta r)(lit ''procedure_name'' \<mapsto> pr_name r, lit ''context_tags'' \<mapsto> join [44] (pr_context_tags r),
        lit ''success_count'' \<mapsto> dec_str (pr_success r), lit ''failure_count'' \<mapsto> dec_str (pr_failure r),
        lit ''procedure_status'' \<mapsto> procedure_str (pr_status r),
        lit ''learned_from_memory_ids'' \<mapsto> join [44] (pr_learned_from r)))))"

definition procedure_memory :: "agent_env \<Rightarrow> procedure_record \<Rightarrow> durable" where
  "procedure_memory env r =
     (let m = procedure_meta env r; t = recorded_time env m (pr_updated_at r) in
      \<lparr>du_id = pr_id r, du_candidate = lit ''procedure-'' @ pr_id r, du_stored_at = t,
       du_updated_at = Some (pr_updated_at r), du_entity = lit ''procedure'',
       du_slot = unwrap_or (pr_name r) (pr_meta r (lit ''workflow_key'')), du_value = pr_name r,
       du_raw = pr_description r, du_type = memory_type.Trace, du_confidence = pr_confidence r,
       du_salience = dec (72 / 100), du_scope = Project, du_ttl = None,
       du_source = \<lparr>pv_type = System, pv_id = lit ''procedure_store'', pv_label = Some (lit ''procedure_store''),
         pv_observed_by = None, pv_trust = 1\<rparr>,
       du_event_at = Some (pr_updated_at r), du_valid_from = Some (pr_updated_at r), du_valid_to = None,
       du_layer = Some Procedure, du_tags = pr_context_tags r,
       du_meta = m(lit ''recorded_at'' \<mapsto> ag_show_time env t), du_retraction = False\<rparr>)"

definition persist_procedure :: "agent_env \<Rightarrow> procedure_record \<Rightarrow> mem_store \<Rightarrow> mem_store" where
  "persist_procedure env r s = put_memory (procedure_memory env r) s"

text \<open>The transition that a record makes from the stored one.\<close>

definition transition_of :: "procedure_record option \<Rightarrow> ustr \<Rightarrow> procedure_record \<Rightarrow> status_transition option" where
  "transition_of existing key r = (case existing of None \<Rightarrow> None
     | Some old \<Rightarrow> if pr_status old \<noteq> pr_status r
         then Some \<lparr>st_procedure = pr_id r, st_workflow = key, st_previous = pr_status old, st_next = pr_status r\<rparr>
         else None)"

definition marked :: "agent_env \<Rightarrow> procedure_status \<Rightarrow> time \<Rightarrow> procedure_record \<Rightarrow> procedure_record" where
  "marked env old now r = r\<lparr>pr_meta := (pr_meta r)(lit ''prior_procedure_status'' \<mapsto> procedure_str old,
     lit ''status_transition_at'' \<mapsto> ag_show_time env now)\<rparr>"

definition persist_outcome :: "agent_env \<Rightarrow> procedure_record option \<Rightarrow> ustr \<Rightarrow> procedure_record \<Rightarrow> time \<Rightarrow> mem_store
    \<Rightarrow> upsert_outcome \<times> mem_store" where
  "persist_outcome env existing key r now s =
     (let tr = transition_of existing key r;
          r = (case tr of None \<Rightarrow> r | Some t \<Rightarrow> marked env (st_previous t) now r)
      in (\<lparr>uo_record = r, uo_transition = tr\<rparr>, persist_procedure env r s))"

definition upsert_success :: "agent_env \<Rightarrow> ustr \<Rightarrow> ustr \<Rightarrow> ustr \<Rightarrow> ustr list \<Rightarrow> time \<Rightarrow> mem_store
    \<Rightarrow> (upsert_outcome \<times> mem_store) ares" where
  "upsert_success env uuid key descr ids now s =
     (if trim key = [] then Inl (InvalidCandidate ''procedure workflow key cannot be blank'')
      else (let existing = procedure_for env s (trim key);
                succ = (case existing of None \<Rightarrow> length ids mod 4294967296 | Some r \<Rightarrow> add32 (pr_success r) 1);
                fail = (case existing of None \<Rightarrow> 0 | Some r \<Rightarrow> pr_failure r);
                r = build_procedure env uuid existing (trim key) descr ids succ fail now (Some now) None
            in Inr (persist_outcome env existing (trim key) r now s)))"

definition record_failure :: "agent_env \<Rightarrow> ustr \<Rightarrow> ustr list \<Rightarrow> time \<Rightarrow> mem_store \<Rightarrow> upsert_outcome option \<times> mem_store" where
  "record_failure env key ids now s =
     (case procedure_for env s key of None \<Rightarrow> (None, s)
      | Some old \<Rightarrow>
          (let r = build_procedure env [] (Some old) (trim key) (pr_description old) ids (pr_success old)
                     (add32 (pr_failure old) 1) now None (Some now);
               (u, s) = persist_outcome env (Some old) (trim key) r now s
           in (Some u, s)))"

definition feedback_record :: "agent_env \<Rightarrow> procedure_record \<Rightarrow> ustr \<Rightarrow> outcome_kind \<Rightarrow> time \<Rightarrow> procedure_record" where
  "feedback_record env old key k now =
     (let r = (case k of
          Positive \<Rightarrow> build_procedure env [] (Some old) key (pr_description old) []
            (add32 (pr_success old) 1) (pr_failure old) now (Some now) None
        | Negative \<Rightarrow> build_procedure env [] (Some old) key (pr_description old) []
            (pr_success old) (add32 (pr_failure old) 1) now None (Some now))
      in r\<lparr>pr_meta := outcome_meta env k now (pr_meta r)\<rparr>)"

definition record_feedback :: "agent_env \<Rightarrow> ustr \<Rightarrow> outcome_kind \<Rightarrow> time \<Rightarrow> mem_store \<Rightarrow> upsert_outcome option \<times> mem_store" where
  "record_feedback env key k now s =
     (case procedure_for env s key of None \<Rightarrow> (None, s)
      | Some old \<Rightarrow>
          (let (u, s) = persist_outcome env (Some old) (trim key) (feedback_record env old (trim key) k now) now s
           in (Some u, s)))"

text \<open>All workflows are distinct in the list, so the set of seen workflows never skips one.\<close>

definition sync_one :: "agent_env \<Rightarrow> time \<Rightarrow> procedure_record \<Rightarrow> ustr list \<times> status_transition list \<times> mem_store
    \<Rightarrow> ustr list \<times> status_transition list \<times> mem_store" where
  "sync_one env now r acc = (case acc of (seen, ts, s) \<Rightarrow>
     (let key = workflow_key_for r; st = effective_procedure_status r in
      if key \<in> set seen then acc
      else if st = pr_status r then (key # seen, ts, s)
      else (let u = marked env (pr_status r) now (r\<lparr>pr_status := st, pr_updated_at := now\<rparr>)
            in (key # seen, ts @ [\<lparr>st_procedure = pr_id u, st_workflow = key, st_previous = pr_status r, st_next = st\<rparr>],
                persist_procedure env u s))))"

definition sync_all_statuses :: "agent_env \<Rightarrow> time \<Rightarrow> mem_store \<Rightarrow> status_transition list \<times> mem_store" where
  "sync_all_statuses env now s = snd (fold (sync_one env now) (all_procedures env s) ([], [], s))"

section \<open>Retention\<close>

record retention_evaluation =
  re_rule :: retention_rule
  re_expired :: bool
  re_base :: flt
  re_access :: flt
  re_impact :: flt
  re_decayed :: flt

definition LONG_LIVED_PROCEDURE_TTL :: int where "LONG_LIVED_PROCEDURE_TTL = 180 * DAY"
definition COOLING_PROCEDURE_TTL :: int where "COOLING_PROCEDURE_TTL = 45 * DAY"
definition RETIRED_PROCEDURE_TTL :: int where "RETIRED_PROCEDURE_TTL = 14 * DAY"

definition access_boost :: "agent_env \<Rightarrow> durable \<Rightarrow> time \<Rightarrow> flt" where
  "access_boost env m now =
     (let n = min (retrieval_count m) 8;
          count_boost = (if n = 0 then 0 else fmul (fdiv (of_count n) (of_count 8)) (dec (15 / 100)));
          recency_boost = (case last_accessed_at env m of None \<Rightarrow> 0
            | Some t \<Rightarrow> fmul (recency 14 now (Some t)) (dec (10 / 100)))
      in fclamp 0 (fadd (dec (15 / 100)) (dec (10 / 100))) (fadd count_boost recency_boost))"

definition memory_adjustment :: "agent_env \<Rightarrow> durable \<Rightarrow> time \<Rightarrow> flt" where
  "memory_adjustment env m now = impact_adjustment (dec (18 / 100)) (positive_count (du_meta m))
     (negative_count (du_meta m)) (last_outcome_at env m) now"

definition adjust_procedure_rule :: "retention_rule \<Rightarrow> procedure_record \<Rightarrow> retention_rule" where
  "adjust_procedure_rule rule r =
     (let runs = add32 (pr_success r) (pr_failure r);
          ratio = (if runs = 0 then 0 else fdiv (of_count (pr_failure r)) (of_count runs));
          slower = (\<lambda>x rule. rule\<lparr>rr_decay := fmul (rr_decay rule) (dec x)\<rparr>);
          rule = (case effective_procedure_status r of
              procedure_status.Active \<Rightarrow>
                if pr_failure r < pr_success r then
                  (slower (6 / 10) rule)
                    \<lparr>rr_ttl := Some (max (unwrap_or LONG_LIVED_PROCEDURE_TTL (rr_ttl rule)) LONG_LIVED_PROCEDURE_TTL),
                     rr_priority := fadd (rr_priority rule) (dec (15 / 100))\<rparr>
                else slower (85 / 100) rule
            | CoolingDown \<Rightarrow> (slower (22 / 10) rule)
                \<lparr>rr_ttl := Some (min (unwrap_or COOLING_PROCEDURE_TTL (rr_ttl rule)) COOLING_PROCEDURE_TTL),
                 rr_priority := fmul (rr_priority rule) (dec (55 / 100))\<rparr>
            | Retired \<Rightarrow> (slower 4 rule)\<lparr>rr_ttl := Some RETIRED_PROCEDURE_TTL, rr_priority := 0\<rparr>)
      in if dec (7 / 10) \<le> ratio \<and> 4 \<le> runs then slower (135 / 100) rule else rule)"

definition retention_anchor :: "durable \<Rightarrow> procedure_record option \<Rightarrow> time" where
  "retention_anchor m r = (case Option.bind r (\<lambda>r. or_opt (pr_last_used_at r) (pr_last_succeeded_at r)) of
     None \<Rightarrow> du_stored_at m | Some t \<Rightarrow> max (du_stored_at m) t)"

definition evaluate_retention :: "agent_env \<Rightarrow> durable \<Rightarrow> time \<Rightarrow> retention_evaluation" where
  "evaluate_retention env m now =
     (let r = (if mem_layer m = Procedure then to_procedure_record env m else None);
          base_rule = rule_of (mem_layer m) (du_type m);
          rule = (case r of None \<Rightarrow> base_rule | Some r \<Rightarrow> adjust_procedure_rule base_rule r);
          anchor = retention_anchor m r;
          expired = (case or_opt (du_ttl m) (rr_ttl rule) of None \<Rightarrow> False
            | Some ttl \<Rightarrow> wrap64 (secs anchor + ttl) \<le> secs now);
          multiplier = fclamp (dec (5 / 100)) 1 (fsub 1 (fmul (rr_decay rule) (age_days now anchor)));
          base = fclamp 0 1 (fmul (du_salience m) multiplier);
          boost = access_boost env m now;
          impact = memory_adjustment env m now
      in \<lparr>re_rule = rule, re_expired = expired, re_base = base, re_access = boost, re_impact = impact,
          re_decayed = fclamp 0 1 (fadd (fadd base boost) impact)\<rparr>)"

definition decay_one :: "agent_env \<Rightarrow> time \<Rightarrow> durable \<Rightarrow> ustr list \<times> mem_store \<Rightarrow> ustr list \<times> mem_store" where
  "decay_one env now m acc = (case acc of (ids, s) \<Rightarrow>
     if re_expired (evaluate_retention env m now) then (ids @ [du_id m], expire_memory (du_id m) s) else acc)"

definition run_decay :: "agent_env \<Rightarrow> durable list \<Rightarrow> time \<Rightarrow> mem_store \<Rightarrow> ustr list \<times> mem_store" where
  "run_decay env ms now s = fold (decay_one env now) ms ([], s)"

section \<open>Facts\<close>

lemma fold_decay: "fold (decay_one env now) ms (ids, s) =
    (let e = filter (\<lambda>m. re_expired (evaluate_retention env m now)) ms in
     (ids @ map du_id e, s\<lparr>ms_expired := ms_expired s \<union> du_id ` set e\<rparr>))"
  by (induction ms arbitrary: ids s) (auto simp: decay_one_def expire_memory_def Let_def)

text \<open>A run of the decay expires exactly the given memories that are past their time, in order.\<close>

lemma run_decay_exact: "run_decay env ms now s =
    (let e = filter (\<lambda>m. re_expired (evaluate_retention env m now)) ms in
     (map du_id e, s\<lparr>ms_expired := ms_expired s \<union> du_id ` set e\<rparr>))"
  by (simp add: run_decay_def fold_decay)

text \<open>A time from now on is past as well, unless the deadline wraps around.\<close>

lemma secs_mono: "t \<le> t' \<Longrightarrow> secs t \<le> secs t'"
  by (simp add: secs_def zdiv_mono1)

definition retention_deadline :: "agent_env \<Rightarrow> durable \<Rightarrow> int option" where
  "retention_deadline env m =
     (let r = (if mem_layer m = Procedure then to_procedure_record env m else None);
          base_rule = rule_of (mem_layer m) (du_type m);
          rule = (case r of None \<Rightarrow> base_rule | Some r \<Rightarrow> adjust_procedure_rule base_rule r)
      in map_option (\<lambda>ttl. wrap64 (secs (retention_anchor m r) + ttl)) (or_opt (du_ttl m) (rr_ttl rule)))"

lemma expired_iff: "re_expired (evaluate_retention env m now) \<longleftrightarrow>
    (case retention_deadline env m of None \<Rightarrow> False | Some d \<Rightarrow> d \<le> secs now)"
  unfolding evaluate_retention_def retention_deadline_def Let_def
  by (simp split: option.split)

lemma expired_later: "re_expired (evaluate_retention env m now) \<Longrightarrow> now \<le> later \<Longrightarrow>
    re_expired (evaluate_retention env m later)"
  using secs_mono [of now later] by (auto simp: expired_iff split: option.splits)

text \<open>The lists of one workflow each.\<close>

lemma first_of_keys_distinct: "distinct (map key (first_of_keys key seen xs)) \<and>
    set (map key (first_of_keys key seen xs)) \<inter> set seen = {}"
  by (induction key seen xs rule: first_of_keys.induct) auto

lemma first_of_keys_sub: "set (first_of_keys key seen xs) \<subseteq> set xs"
  by (induction key seen xs rule: first_of_keys.induct) auto

lemma map_filter_pairs: "(\<And>p. p \<in> set ps \<Longrightarrow> f (fst p) = Some (snd p)) \<Longrightarrow>
    List.map_filter f (map fst ps) = map snd ps"
  by (induction ps) (simp_all add: List.map_filter_simps)

lemma all_procedures_distinct: "distinct (map workflow_key_for (all_procedures env s))"
proof -
  let ?ps = "first_of_keys (\<lambda>p. workflow_key_for (snd p)) []
       (List.map_filter (\<lambda>m. map_option (Pair m) (to_procedure_record env m))
          (sort_key (\<lambda>m. - version_time m) (list_by_layer env s Procedure)))"
  have "to_procedure_record env (fst p) = Some (snd p)" if "p \<in> set ?ps" for p
    using that first_of_keys_sub [of "\<lambda>p. workflow_key_for (snd p)" "[]"]
    by (force simp: List.map_filter_def)
  then have "all_procedures env s = map snd ?ps"
    unfolding all_procedures_def all_procedure_memories_def by (rule map_filter_pairs)
  moreover have "distinct (map (\<lambda>p. workflow_key_for (snd p)) ?ps)"
    using first_of_keys_distinct [of "\<lambda>p. workflow_key_for (snd p)" "[]"] by blast
  ultimately show ?thesis by (simp add: comp_def)
qed

text \<open>A status is left only towards a worse one, and it is a function of the counts until then.\<close>

definition status_rank :: "procedure_status \<Rightarrow> nat" where
  "status_rank st = (case st of procedure_status.Active \<Rightarrow> 0 | CoolingDown \<Rightarrow> 1 | Retired \<Rightarrow> 2)"

lemma effective_status_worse: "status_rank (pr_status r) \<le> status_rank (effective_procedure_status r)"
  by (cases "pr_status r") (simp_all add: effective_procedure_status_def status_rank_def)

lemma effective_status_idem:
  "effective_procedure_status (r\<lparr>pr_status := effective_procedure_status r\<rparr>) = effective_procedure_status r"
  by (simp add: effective_procedure_status_def)

lemma procedure_confidence_bounds:
  "dec (12 / 100) \<le> procedure_confidence s f" "procedure_confidence s f \<le> dec (98 / 100)"
proof -
  have d: "dec (12 / 100) \<le> dec (55 / 100)" "dec (55 / 100) \<le> dec (98 / 100)" "dec (12 / 100) \<le> dec (98 / 100)"
    by (simp_all add: dec_def rnd_mono)
  show "dec (12 / 100) \<le> procedure_confidence s f" "procedure_confidence s f \<le> dec (98 / 100)"
    using d fclamp_bounds [OF d(3)] by (simp_all add: procedure_confidence_def)
qed

section \<open>Synchronisation\<close>

definition status_changed :: "procedure_record \<Rightarrow> bool" where
  "status_changed r = (effective_procedure_status r \<noteq> pr_status r)"

definition synchronised :: "agent_env \<Rightarrow> time \<Rightarrow> procedure_record \<Rightarrow> procedure_record" where
  "synchronised env now r = marked env (pr_status r) now (r\<lparr>pr_status := effective_procedure_status r, pr_updated_at := now\<rparr>)"

definition sync_transition :: "procedure_record \<Rightarrow> status_transition" where
  "sync_transition r = \<lparr>st_procedure = pr_id r, st_workflow = workflow_key_for r, st_previous = pr_status r,
     st_next = effective_procedure_status r\<rparr>"

lemma fold_sync:
  "distinct (map workflow_key_for rs) \<Longrightarrow> set (map workflow_key_for rs) \<inter> set seen = {} \<Longrightarrow>
   snd (fold (sync_one env now) rs (seen, ts, s)) =
     (ts @ map sync_transition (filter status_changed rs),
      s\<lparr>ms_memories := ms_memories s @ map (\<lambda>r. procedure_memory env (synchronised env now r)) (filter status_changed rs)\<rparr>)"
proof (induction rs arbitrary: seen ts s)
  case (Cons r rs)
  have "sync_one env now r (seen, ts, s) = (workflow_key_for r # seen,
      (if status_changed r then ts @ [sync_transition r] else ts),
      (if status_changed r then put_memory (procedure_memory env (synchronised env now r)) s else s))"
    using Cons.prems by (simp add: sync_one_def Let_def status_changed_def sync_transition_def synchronised_def
        persist_procedure_def marked_def)
  then show ?case using Cons by (simp add: put_memory_def)
qed simp


section \<open>Round trip\<close>

lemma split_commas_word: "44 \<notin> set w \<Longrightarrow> split_by (\<lambda>c. c = 44) (w @ s) =
    (case split_by (\<lambda>c. c = 44) s of [] \<Rightarrow> [w] | v # vs \<Rightarrow> (w @ v) # vs)"
  by (induction w) (auto split: list.splits)

lemma split_join: "xs \<noteq> [] \<Longrightarrow> (\<And>x. x \<in> set xs \<Longrightarrow> 44 \<notin> set x) \<Longrightarrow> split_by (\<lambda>c. c = 44) (join [44] xs) = xs"
proof (induction "[44 :: uchar]" xs rule: join.induct)
  case (2 x)
  then show ?case using split_commas_word [of x "[]"] by simp
next
  case (3 x y zs)
  then show ?case using split_commas_word [of x "44 # join [44] (y # zs)"] by simp
qed simp

definition clean_words :: "ustr list \<Rightarrow> bool" where
  "clean_words ws \<longleftrightarrow> list_all (\<lambda>w. trimmed_non_empty w = Some w \<and> 44 \<notin> set w) ws"

lemma split_trimmed_join: "clean_words ws \<Longrightarrow> split_trimmed (join [44] ws) = ws"
proof (cases "ws = []")
  case True
  then show ?thesis by (simp add: split_trimmed_def List.map_filter_simps trimmed_non_empty_def trim_def trim_start_def trim_end_def)
next
  case False
  assume c: "clean_words ws"
  have "List.map_filter trimmed_non_empty xs = xs" if "list_all (\<lambda>w. trimmed_non_empty w = Some w \<and> 44 \<notin> set w) xs" for xs
    using that by (induction xs) (simp_all add: List.map_filter_simps)
  then show ?thesis using c False by (simp add: split_trimmed_def split_join clean_words_def list_all_iff)
qed

lemma meta_count_upd [simp]: "meta_count (m(lit k \<mapsto> v)) k' = (if k' = k then unwrap_or 0 (parse_u32 v) else meta_count m k')"
  by (simp add: meta_count_def)

lemma set_opt_apply: "set_opt k v m (lit k') = (if k' = k then or_opt v (m (lit k)) else m (lit k'))"
  by (cases v) (simp_all add: set_opt_def)

lemma set_time_apply: "set_time env k t m (lit k') = (if k' = k then or_opt (map_option (ag_show_time env) t) (m (lit k)) else m (lit k'))"
  by (simp add: set_time_def set_opt_apply)

lemma procedure_entity: "trimmed_non_empty (lit ''procedure'') = Some (lit ''procedure'')"
  by code_simp

text \<open>C39. Procedures survive the store: the memory that a procedure record is stored as reads back as
  the same record (identifier, name, description, tags, counts, confidence, status, sources and all
  times), with the metadata it was stored with, when its words hold no comma or outer space, the counts
  are 32-bit and printed times parse back.\<close>

theorem procedure_roundtrip:
  assumes "\<And>t. ag_parse_time env (ag_show_time env t) = Some t"
    "trimmed_non_empty (pr_name r) = Some (pr_name r)" "pr_meta r (lit ''workflow_key'') = Some k" "trimmed_non_empty k = Some k"
    "clean_words (pr_context_tags r)" "clean_words (pr_learned_from r)"
    "pr_success r < 4294967296" "pr_failure r < 4294967296"
    "pr_last_used_at r = None \<Longrightarrow> pr_meta r (lit ''last_used_at'') = None"
    "pr_last_succeeded_at r = None \<Longrightarrow> pr_meta r (lit ''last_succeeded_at'') = None"
    "pr_last_failed_at r = None \<Longrightarrow> pr_meta r (lit ''last_failed_at'') = None"
  shows "to_procedure_record env (procedure_memory env r) =
    Some (r\<lparr>pr_meta := du_meta (procedure_memory env r)\<rparr>)"
proof -
  let ?m = "procedure_memory env r"
  have key: "du_meta ?m (lit k') = (if k' = ''recorded_at'' then du_meta ?m (lit ''recorded_at'') else procedure_meta env r (lit k'))" for k'
    by (simp add: procedure_memory_def Let_def)
  have l: "mem_layer ?m = Procedure" by (simp add: procedure_memory_def mem_layer_def Let_def)
  have e: "mem_entity ?m = Some (lit ''procedure'')" "mem_slot ?m = Some k" "mem_value ?m = Some (pr_name r)"
    using assms(2-4) by (simp_all add: mem_entity_def mem_slot_def mem_value_def procedure_memory_def Let_def procedure_entity)
  have w: "mem_workflow ?m = Some k"
    using assms(3,4) e by (simp add: mem_workflow_def key procedure_meta_def set_time_apply)
  have c: "meta_count (du_meta ?m) ''success_count'' = pr_success r" "meta_count (du_meta ?m) ''failure_count'' = pr_failure r"
    using assms(7,8) by (simp_all add: meta_count_def key procedure_meta_def set_time_apply)
  have t: "Option.bind (du_meta ?m (lit ''last_used_at'')) (ag_parse_time env) = pr_last_used_at r"
    "Option.bind (du_meta ?m (lit ''last_succeeded_at'')) (ag_parse_time env) = pr_last_succeeded_at r"
    "Option.bind (du_meta ?m (lit ''last_failed_at'')) (ag_parse_time env) = pr_last_failed_at r"
    using assms(1,9-11) by (cases "pr_last_used_at r"; cases "pr_last_succeeded_at r"; cases "pr_last_failed_at r";
      simp add: key procedure_meta_def set_time_apply)+
  have o: "du_meta ?m (lit ''procedure_name'') = Some (pr_name r)"
    "du_meta ?m (lit ''context_tags'') = Some (join [44] (pr_context_tags r))"
    "du_meta ?m (lit ''learned_from_memory_ids'') = Some (join [44] (pr_learned_from r))"
    "du_meta ?m (lit ''procedure_status'') = Some (procedure_str (pr_status r))"
    by (simp_all add: key procedure_meta_def set_time_apply)
  have f: "du_id ?m = pr_id r" "du_raw ?m = pr_description r" "du_confidence ?m = pr_confidence r"
    "version_time ?m = pr_updated_at r"
    by (simp_all add: procedure_memory_def Let_def version_time_def)
  show ?thesis
    by (simp add: to_procedure_record_def l structured_for_def e w Let_def c t o f assms(2) split_trimmed_join [OF assms(5)]
        split_trimmed_join [OF assms(6)])
qed

text \<open>Times printed in unary.\<close>

definition unary_env :: agent_env where
  "unary_env = \<lparr>ag_lower = (\<lambda>s. s),
     ag_parse_time = (\<lambda>s. case s of [] \<Rightarrow> Some 0 | x # r \<Rightarrow> Some (if x = 45 then - int (length r) else int (length s))),
     ag_show_time = (\<lambda>t. if t < 0 then 45 # replicate (nat (- t)) 120 else replicate (nat t) 120),
     ag_show_flt = (\<lambda>x. []), ag_show_fix = (\<lambda>n x. []), ag_parse_flt = (\<lambda>s. None)\<rparr>"

lemma unary_time: "ag_parse_time unary_env (ag_show_time unary_env t) = Some t"
  by (cases "nat t") (auto simp: unary_env_def)

theorem procedure_roundtrip_witness:
  "let r = build_procedure unary_env (lit ''p'') None (lit ''deploy'') (lit ''how'') [lit ''m''] 2 1 3 (Some 3) (Some 2) in
     to_procedure_record unary_env (procedure_memory unary_env r) = Some (r\<lparr>pr_meta := du_meta (procedure_memory unary_env r)\<rparr>)"
  unfolding Let_def
proof (rule procedure_roundtrip [OF unary_time])
  let ?r = "build_procedure unary_env (lit ''p'') None (lit ''deploy'') (lit ''how'') [lit ''m''] 2 1 3 (Some 3) (Some 2)"
  have w: "trimmed_non_empty (lit ''deploy'') = Some (lit ''deploy'')" "clean_words [lit ''deploy'']" "clean_words [lit ''m'']"
    by code_simp+
  show "trimmed_non_empty (pr_name ?r) = Some (pr_name ?r)" "clean_words (pr_context_tags ?r)" "clean_words (pr_learned_from ?r)"
    "trimmed_non_empty (lit ''deploy'') = Some (lit ''deploy'')" "pr_meta ?r (lit ''workflow_key'') = Some (lit ''deploy'')"
    using w by (simp_all add: build_procedure_def Let_def add_all_new_def add_new_def)
  show "pr_success ?r < 4294967296" "pr_failure ?r < 4294967296"
    "pr_last_used_at ?r = None \<Longrightarrow> pr_meta ?r (lit ''last_used_at'') = None"
    "pr_last_succeeded_at ?r = None \<Longrightarrow> pr_meta ?r (lit ''last_succeeded_at'') = None"
    "pr_last_failed_at ?r = None \<Longrightarrow> pr_meta ?r (lit ''last_failed_at'') = None"
    by (simp_all add: build_procedure_def Let_def)
qed

end
