(* ===== verification/Agent_Consolidation.thy ===== *)
theory Agent_Consolidation
  imports Agent_Procedures "HOL-Library.Word"
begin

text \<open>
  Consolidation of repeated evidence (\<open>agent_memory/consolidation_engine.rs\<close>): repeated self-model
  entries, stable beliefs, recurring blockers and repeated workflow outcomes leave a trace once per
  set of evidence, and workflow outcomes also update the procedure.

  The state of the controller starts here: the store, the audit log and the number of identifiers
  drawn so far.  \<open>ctl_params\<close> holds what an operation reads: the environment, the stream of
  \<open>Uuid::new_v4\<close>, one reading of the clock, the system time, the promotion gate, \<open>DefaultHasher\<close> on a
  string and \<open>serde_json::to_string\<close> on a consolidation record.
\<close>

record ctl_params =
  cp_env :: agent_env
  cp_uuid :: "nat \<Rightarrow> ustr"
  cp_now :: time
  cp_wall :: time
  cp_promoter :: promoter
  cp_hash :: "ustr \<Rightarrow> 64 word"
  cp_json :: "consolidation_record \<Rightarrow> ustr"

record ctl =
  ct_store :: mem_store
  ct_audit :: "audit_event list"
  ct_fresh :: nat

definition fresh_id :: "ctl_params \<Rightarrow> ctl \<Rightarrow> ustr" where
  "fresh_id p c = cp_uuid p (ct_fresh c)"

definition drawn :: "ctl \<Rightarrow> ctl" where
  "drawn c = c\<lparr>ct_fresh := ct_fresh c + 1\<rparr>"

definition with_store :: "mem_store \<Rightarrow> ctl \<Rightarrow> ctl" where
  "with_store s c = c\<lparr>ct_store := s\<rparr>"

definition ctl_put_trace :: "ctl_params \<Rightarrow> ustr \<Rightarrow> meta \<Rightarrow> ctl \<Rightarrow> ustr \<times> ctl" where
  "ctl_put_trace p raw_text m c =
     (fresh_id p c, drawn (with_store (put_trace (fresh_id p c) raw_text m (ct_store c)) c))"

definition policy_of :: "ctl_params \<Rightarrow> policy_set" where
  "policy_of p = mp_policy (cp_promoter p)"

section \<open>Keys\<close>

definition int_str :: "int \<Rightarrow> ustr" where
  "int_str i = (if i < 0 then 45 # dec_str (nat (- i)) else dec_str (nat i))"

definition hex_char :: "nat \<Rightarrow> nat" where
  "hex_char d = (if d < 10 then 48 + d else 87 + d)"

definition hex16 :: "64 word \<Rightarrow> ustr" where
  "hex16 w = map (\<lambda>i. hex_char ((unat w div 16 ^ i) mod 16)) (rev [0..<16])"

definition semantic_key :: "ctl_params \<Rightarrow> memory_layer \<Rightarrow> string \<Rightarrow> ustr list \<Rightarrow> ustr" where
  "semantic_key p l reason identity =
     lit ''consolidation-semantic-'' @ hex16 (cp_hash p
       (fold (\<lambda>x raw. raw @ [124] @ x) identity (layer_str l @ [124] @ lit reason)))"

definition evidence_fingerprint :: "ctl_params \<Rightarrow> ustr \<Rightarrow> ustr list \<Rightarrow> ustr list \<Rightarrow> ustr" where
  "evidence_fingerprint p key ids extras =
     (let raw = key @ [124] @ join [44] (sort ids);
          raw = (if extras = [] then raw else raw @ [124] @ join [124] extras)
      in lit ''consolidation-fingerprint-'' @ hex16 (cp_hash p raw))"

datatype disposition = Initial | Reinforcement | Duplicate

definition semantic_hit :: "ustr \<Rightarrow> retrieval_hit \<Rightarrow> bool" where
  "semantic_hit key h = (rh_layer h = Some Trace \<and> rh_meta h (lit ''consolidation_semantic_key'') = Some key
     \<and> rh_meta h (lit ''action'') \<noteq> Some (lit ''procedure_status_changed''))"

definition disposition_query :: "ustr \<Rightarrow> retrieval_query" where
  "disposition_query key = \<lparr>rq_text = key, rq_intent = SemanticBackground, rq_entity = None, rq_slot = None,
     rq_scope = None, rq_top_k = 128, rq_as_of = None, rq_include_expired = True\<rparr>"

definition disposition_of :: "ctl_params \<Rightarrow> mem_store \<Rightarrow> ustr \<Rightarrow> ustr \<Rightarrow> disposition" where
  "disposition_of p s key fingerprint =
     (let hs = filter (semantic_hit key) (search_store (cp_env p) (cp_wall p) s (disposition_query key)) in
      if list_ex (\<lambda>h. rh_meta h (lit ''consolidation_fingerprint'') = Some fingerprint) hs then Duplicate
      else if hs \<noteq> [] then Reinforcement else Initial)"

definition action_str :: "disposition \<Rightarrow> ustr" where
  "action_str d = (if d = Initial then lit ''promotion'' else lit ''reinforcement'')"

section \<open>Records\<close>

record consolidation_outcome =
  co_record :: consolidation_record
  co_trace :: ustr
  co_learned :: "ustr option"
  co_transition :: "status_transition option"

definition persist_consolidation :: "ctl_params \<Rightarrow> consolidation_record \<Rightarrow> ctl \<Rightarrow> ustr \<times> ctl" where
  "persist_consolidation p r c = ctl_put_trace p (cp_json p r) (map_of
     [(lit ''consolidation_id'', cr_id r), (lit ''target_layer'', layer_str (cr_layer r)),
      (lit ''reason'', cr_reason r),
      (lit ''consolidation_action'', unwrap_or (lit ''promotion'') (cr_meta r (lit ''consolidation_action''))),
      (lit ''consolidation_semantic_key'', unwrap_or [] (cr_meta r (lit ''consolidation_semantic_key''))),
      (lit ''consolidation_fingerprint'', unwrap_or [] (cr_meta r (lit ''consolidation_fingerprint'')))]) c"

text \<open>The record with a fresh identifier, stored as a trace.\<close>

definition consolidated :: "ctl_params \<Rightarrow> memory_layer \<Rightarrow> ustr option \<Rightarrow> ustr list \<Rightarrow> ustr \<Rightarrow> flt \<Rightarrow> meta
    \<Rightarrow> ustr option \<Rightarrow> status_transition option \<Rightarrow> ctl \<Rightarrow> consolidation_outcome \<times> ctl" where
  "consolidated p l target ids reason conf m learned tr c =
     (let r = \<lparr>cr_id = fresh_id p c, cr_layer = l, cr_target = target, cr_sources = ids, cr_reason = reason,
            cr_confidence = conf, cr_created_at = cp_now p, cr_meta = m\<rparr>;
          (t, c') = persist_consolidation p r (drawn c)
      in (\<lparr>co_record = r, co_trace = t, co_learned = learned, co_transition = tr\<rparr>, c'))"

definition keys_meta :: "ustr \<Rightarrow> ustr \<Rightarrow> ustr \<Rightarrow> (string \<times> ustr) list \<Rightarrow> meta" where
  "keys_meta action key fingerprint extra = map_of
     (map (\<lambda>(k, v). (lit k, v)) extra @ [(lit ''consolidation_action'', action),
        (lit ''consolidation_semantic_key'', key), (lit ''consolidation_fingerprint'', fingerprint)])"

definition window_start :: "ctl_params \<Rightarrow> time" where
  "window_start p = cp_now p - po_window_days (policy_of p) * (DAY * 1000000000)"

definition window_str :: "ctl_params \<Rightarrow> ustr" where
  "window_str p = int_str (po_window_days (policy_of p))"

definition self_model_outcome :: "ctl_params \<Rightarrow> durable \<Rightarrow> ctl \<Rightarrow> consolidation_outcome option \<times> ctl" where
  "self_model_outcome p m c =
     (if mem_layer m \<noteq> SelfModel \<or> du_retraction m then (None, c)
      else
        (let ms = filter (\<lambda>x. \<not> du_retraction x \<and> du_entity x = du_entity m \<and> du_slot x = du_slot m
               \<and> du_value x = du_value m \<and> window_start p \<le> version_time x) (list_versions (ct_store c) SelfModel);
             least = po_self_repetitions (policy_of p);
             ids = map du_id ms;
             key = semantic_key p SelfModel ''self_model_stable'' [du_entity m, du_slot m, du_value m];
             fp = evidence_fingerprint p key ids [window_str p, dec_str least];
             d = disposition_of p (ct_store c) key fp in
         if length ms < least \<or> d = Duplicate then (None, c)
         else map_prod Some id (consolidated p SelfModel (Some (du_id m)) ids
           (if d = Initial then lit ''repeated self-model observations stabilized into durable preference''
            else lit ''repeated self-model observations reinforced durable preference'') (du_confidence m)
           (keys_meta (action_str d) key fp [(''entity'', du_entity m), (''slot'', du_slot m),
              (''value'', du_value m), (''window_days'', window_str p), (''minimum_repetitions'', dec_str least)])
           None None c)))"

definition belief_window_outcome :: "ctl_params \<Rightarrow> durable \<Rightarrow> ctl \<Rightarrow> consolidation_outcome option \<times> ctl" where
  "belief_window_outcome p m c =
     (if mem_layer m \<noteq> Belief \<or> du_retraction m then (None, c)
      else
        (let ms = sort_key event_time (filter (\<lambda>x. \<not> du_retraction x \<and> du_value x = du_value m
               \<and> window_start p \<le> event_time x)
               (list_for_belief (cp_env p) (ct_store c) (du_entity m) (du_slot m)));
             least = po_belief_repetitions (policy_of p);
             span = (if ms = [] then 0 else event_time (List.last ms) - event_time (hd ms));
             ids = map du_id ms;
             stability = po_stability_days (policy_of p);
             key = semantic_key p Belief ''belief_stable'' [du_entity m, du_slot m, du_value m];
             fp = evidence_fingerprint p key ids [window_str p, int_str stability];
             d = disposition_of p (ct_store c) key fp in
         if length ms < least \<or> span < stability * (DAY * 1000000000) \<or> d = Duplicate then (None, c)
         else map_prod Some id (consolidated p Belief (Some (du_id m)) ids
           (if d = Initial then lit ''consistent belief evidence remained stable across a bounded window''
            else lit ''consistent belief evidence reinforced a stable bounded belief window'') (du_confidence m)
           (keys_meta (action_str d) key fp [(''entity'', du_entity m), (''slot'', du_slot m),
              (''value'', du_value m), (''window_days'', window_str p), (''stability_days'', int_str stability),
              (''minimum_repetitions'', dec_str least)])
           None None c)))"

definition blocker_outcome :: "ctl_params \<Rightarrow> durable \<Rightarrow> ctl \<Rightarrow> consolidation_outcome option \<times> ctl" where
  "blocker_outcome p m c =
     (if mem_layer m \<noteq> GoalState \<or> du_retraction m then (None, c)
      else case to_goal_record (cp_env p) m of None \<Rightarrow> (None, c)
      | Some g \<Rightarrow> (case blocker_key (cp_env p) g of None \<Rightarrow> (None, c)
      | Some blocker \<Rightarrow>
        (let rs = filter (\<lambda>r. gr_entity r = gr_entity g \<and> gr_slot r = gr_slot g
               \<and> blocker_key (cp_env p) r = Some blocker \<and> window_start p \<le> gr_updated_at r)
               (List.map_filter (to_goal_record (cp_env p)) (list_versions (ct_store c) GoalState));
             least = po_blocker_repetitions (policy_of p);
             ids = map gr_memory rs;
             key = semantic_key p GoalState ''recurring_blocker'' [gr_entity g, gr_slot g, blocker];
             fp = evidence_fingerprint p key ids [window_str p, dec_str least];
             d = disposition_of p (ct_store c) key fp in
         if length rs < least \<or> d = Duplicate then (None, c)
         else map_prod Some id (consolidated p GoalState (Some (gr_id g)) ids
           ((if d = Initial then lit ''recurring blocker pattern stabilized for ''
             else lit ''recurring blocker pattern reinforced for '') @ gr_slot g) (du_confidence m)
           (keys_meta (action_str d) key fp [(''entity'', gr_entity g), (''slot'', gr_slot g),
              (''blocker_key'', blocker), (''window_days'', window_str p), (''threshold'', dec_str least)])
           None None c))))"

section \<open>Workflow outcomes\<close>

definition is_success_outcome :: "agent_env \<Rightarrow> ustr option \<Rightarrow> bool" where
  "is_success_outcome env v = (case v of None \<Rightarrow> False
     | Some t \<Rightarrow> list_ex (str_contains (ag_lower env t)) (map lit [''success'', ''completed'', ''passed'', ''ok'']))"

definition is_failure_outcome :: "agent_env \<Rightarrow> ustr option \<Rightarrow> bool" where
  "is_failure_outcome env v = (case v of None \<Rightarrow> False
     | Some t \<Rightarrow> list_ex (str_contains (ag_lower env t))
         (map lit [''fail'', ''error'', ''blocked'', ''aborted'', ''timeout'']))"

definition transition_meta :: "status_transition option \<Rightarrow> meta \<Rightarrow> meta" where
  "transition_meta tr m = (case tr of None \<Rightarrow> m
     | Some t \<Rightarrow> m(lit ''previous_procedure_status'' \<mapsto> procedure_str (st_previous t),
         lit ''next_procedure_status'' \<mapsto> procedure_str (st_next t)))"

definition workflow_success_outcome :: "ctl_params \<Rightarrow> durable \<Rightarrow> ustr \<Rightarrow> ctl
    \<Rightarrow> consolidation_outcome option ares \<times> ctl" where
  "workflow_success_outcome p episode key c =
     (let env = cp_env p;
          es = filter (\<lambda>r. window_start p \<le> er_event_at r \<and> is_success_outcome env (er_outcome r))
            (episodes_by_workflow env (ct_store c) key);
          least = po_procedure_repetitions (policy_of p);
          ids = map er_memory es;
          sk = semantic_key p Procedure ''procedure_success'' [key];
          fp = evidence_fingerprint p sk ids [window_str p];
          d = disposition_of p (ct_store c) sk fp in
      if length es < least \<or> d = Duplicate then (Inr None, c)
      else
        (let descr = unwrap_or (lit ''workflow '' @ key @ lit '' has succeeded repeatedly and should be reused'')
               (du_meta episode (lit ''procedure_description'')) in
         case upsert_success env (fresh_id p c) key descr ids (cp_now p) (ct_store c) of
           Inl e \<Rightarrow> (Inl e, c)
         | Inr (u, s) \<Rightarrow>
             map_prod (Inr \<circ> Some) id (consolidated p Procedure (Some (pr_id (uo_record u))) ids
               ((if d = Initial then lit ''repeated successful workflow '' @ key @ lit '' promoted into procedure memory''
                 else lit ''repeated successful workflow '' @ key @ lit '' reinforced learned procedure memory''))
               (pr_confidence (uo_record u))
               (transition_meta (uo_transition u) (keys_meta (action_str d) sk fp
                 [(''workflow_key'', key), (''outcome'', lit ''success''), (''window_days'', window_str p),
                  (''minimum_repetitions'', dec_str least)]))
               (Some (pr_id (uo_record u))) (uo_transition u) (with_store s (drawn c)))))"

definition workflow_failure_outcome :: "ctl_params \<Rightarrow> durable \<Rightarrow> ustr \<Rightarrow> ctl \<Rightarrow> consolidation_outcome option \<times> ctl" where
  "workflow_failure_outcome p episode key c =
     (let sk = semantic_key p Procedure ''procedure_failure'' [key];
          ids = [du_id episode];
          fp = evidence_fingerprint p sk ids [];
          d = disposition_of p (ct_store c) sk fp in
      if d = Duplicate then (None, c)
      else (case record_failure (cp_env p) key ids (cp_now p) (ct_store c) of
          (None, s) \<Rightarrow> (None, with_store s c)
        | (Some u, s) \<Rightarrow>
            map_prod Some id (consolidated p Procedure (Some (pr_id (uo_record u))) ids
              (if d = Initial then lit ''observed workflow failure for '' @ key @ lit '' updated procedure lifecycle''
               else lit ''observed workflow failure for '' @ key @ lit '' reinforced procedure lifecycle degradation'')
              (pr_confidence (uo_record u))
              (transition_meta (uo_transition u) (keys_meta (action_str d) sk fp
                [(''workflow_key'', key), (''outcome'', lit ''failure'')]))
              None (uo_transition u) (with_store s c))))"

definition workflow_outcome :: "ctl_params \<Rightarrow> durable \<Rightarrow> ctl \<Rightarrow> consolidation_outcome option ares \<times> ctl" where
  "workflow_outcome p episode c =
     (case du_meta episode (lit ''workflow_key'') of None \<Rightarrow> (Inr None, c)
      | Some key \<Rightarrow>
          if is_success_outcome (cp_env p) (du_meta episode (lit ''outcome'')) then workflow_success_outcome p episode key c
          else if is_failure_outcome (cp_env p) (du_meta episode (lit ''outcome''))
            then map_prod Inr id (workflow_failure_outcome p episode key c)
          else (Inr None, c))"

definition primary_outcomes :: "ctl_params \<Rightarrow> durable \<Rightarrow> ctl \<Rightarrow> consolidation_outcome list \<times> ctl" where
  "primary_outcomes p m c =
     (let (o1, c) = self_model_outcome p m c;
          (o2, c) = belief_window_outcome p m c;
          (o3, c) = blocker_outcome p m c
      in (List.map_filter id [o1, o2, o3], c))"

definition consolidate :: "ctl_params \<Rightarrow> durable option \<Rightarrow> durable option \<Rightarrow> ctl
    \<Rightarrow> consolidation_outcome list ares \<times> ctl" where
  "consolidate p episode primary c =
     (let (os, c) = (case primary of None \<Rightarrow> ([], c) | Some m \<Rightarrow> primary_outcomes p m c) in
      case episode of None \<Rightarrow> (Inr os, c)
      | Some e \<Rightarrow> (case workflow_outcome p e c of
          (Inl err, c) \<Rightarrow> (Inl err, c)
        | (Inr None, c) \<Rightarrow> (Inr os, c)
        | (Inr (Some x), c) \<Rightarrow> (Inr (os @ [x]), c)))"

text \<open>The word search takes a broken workflow for a success: \<open>broken\<close> contains \<open>ok\<close>.\<close>

lemma broken_is_success: "ag_lower env (lit ''broken'') = lit ''broken'' \<Longrightarrow> is_success_outcome env (Some (lit ''broken''))"
proof -
  assume l: "ag_lower env (lit ''broken'') = lit ''broken''"
  have "list_ex (str_contains (lit ''broken'')) (map lit [''success'', ''completed'', ''passed'', ''ok''])" by code_simp
  then show ?thesis by (simp only: is_success_outcome_def option.case l)
qed

section \<open>What an operation may add\<close>

text \<open>\<open>adds P c c'\<close>: the memories of \<open>c\<close> are kept, in order, and only memories with \<open>P\<close> follow; beliefs
  and expired memories are the same, and traces and audit events are only added.\<close>

definition adds :: "(durable \<Rightarrow> bool) \<Rightarrow> ctl \<Rightarrow> ctl \<Rightarrow> bool" where
  "adds P c c' \<longleftrightarrow> (\<exists>new. ms_memories (ct_store c') = ms_memories (ct_store c) @ new \<and> (\<forall>m \<in> set new. P m))
     \<and> ms_beliefs (ct_store c') = ms_beliefs (ct_store c) \<and> ms_expired (ct_store c') = ms_expired (ct_store c)
     \<and> ms_touches (ct_store c') = ms_touches (ct_store c)
     \<and> (\<exists>new. ms_traces (ct_store c') = ms_traces (ct_store c) @ new) \<and> (\<exists>new. ct_audit c' = ct_audit c @ new)"

lemma adds_refl [intro!, simp]: "adds P c c"
  by (simp add: adds_def)

lemma adds_trans: "adds P a b \<Longrightarrow> adds P b c \<Longrightarrow> adds P a c"
  by (auto simp: adds_def)

lemma adds_mono: "adds P a b \<Longrightarrow> (\<And>m. P m \<Longrightarrow> Q m) \<Longrightarrow> adds Q a b"
  by (auto simp: adds_def)

lemma adds_trace [simp]: "adds P c (snd (ctl_put_trace p t m c))"
  by (simp add: adds_def ctl_put_trace_def drawn_def with_store_def put_trace_def)

lemma adds_drawn [simp]: "adds P c (drawn c)"
  by (simp add: adds_def drawn_def)

lemma adds_put: "P m \<Longrightarrow> adds P c (with_store (put_memory m (ct_store c)) c)"
  by (simp add: adds_def with_store_def put_memory_def)

lemma adds_consolidated: "adds P c (snd (consolidated p l t ids r conf m le tr c))"
proof -
  have "adds P (drawn c) (snd (persist_consolidation p x (drawn c)))" for x
    by (simp add: persist_consolidation_def)
  then show ?thesis
    by (simp add: consolidated_def split_beta Let_def adds_trans [OF adds_drawn])
qed

definition is_procedure :: "durable \<Rightarrow> bool" where
  "is_procedure m = (mem_layer m = Procedure)"

lemma procedure_memory_layer: "is_procedure (procedure_memory env r)"
  by (simp add: is_procedure_def procedure_memory_def mem_layer_def Let_def)

lemma persist_outcome_store: "\<exists>r'. snd (persist_outcome env ex key r now s) = put_memory (procedure_memory env r') s"
  by (auto simp: persist_outcome_def persist_procedure_def Let_def)

lemma adds_persist_outcome:
  "adds is_procedure c (with_store (snd (persist_outcome env ex key r now (ct_store c))) c)"
  using persist_outcome_store [of env ex key r now "ct_store c"] procedure_memory_layer adds_put by metis

lemma adds_primary: "adds P c (snd (primary_outcomes p m c))"
proof -
  have "adds P c (snd (self_model_outcome p m c))" "adds P c (snd (belief_window_outcome p m c))"
    "adds P c (snd (blocker_outcome p m c))" for c
    by (simp_all add: self_model_outcome_def belief_window_outcome_def blocker_outcome_def Let_def
        adds_consolidated split: option.split)
  then show ?thesis unfolding primary_outcomes_def Let_def split_beta snd_conv by (meson adds_trans)
qed

lemma adds_success: "adds is_procedure c (snd (workflow_success_outcome p e key c))"
proof -
  have "adds is_procedure c (snd (consolidated p l t ids r conf m le tr (with_store s (drawn c))))"
    if "upsert_success env uuid key descr ids' now (ct_store c) = Inr (u, s)"
    for env uuid descr ids' now u s l t ids r conf m le tr
  proof -
    have "adds is_procedure (drawn c) (with_store s (drawn c))"
      using that adds_persist_outcome [of "drawn c"]
      by (auto simp: upsert_success_def Let_def drawn_def split: if_splits dest!: arg_cong [where f = snd])
    then show ?thesis by (meson adds_drawn adds_consolidated adds_trans)
  qed
  then show ?thesis
    by (auto simp: workflow_success_outcome_def Let_def split: sum.split)
qed

lemma adds_failure: "adds is_procedure c (snd (workflow_failure_outcome p e key c))"
proof -
  have "adds is_procedure c (with_store (snd (record_failure env key ids now (ct_store c))) c)" for env ids now
    using adds_persist_outcome [of c]
    by (auto simp: record_failure_def Let_def split_beta with_store_def split: option.split)
  then have "adds is_procedure c (with_store s c)" if "record_failure env key ids now (ct_store c) = (x, s)" for env ids now x s
    using that by (metis snd_conv)
  then show ?thesis
    by (auto simp: workflow_failure_outcome_def Let_def split: prod.split option.split
        intro: adds_trans [OF _ adds_consolidated])
qed

text \<open>Consolidation adds procedures and traces only.\<close>

lemma adds_consolidate: "adds is_procedure c (snd (consolidate p e m c))"
proof -
  have w: "adds is_procedure c (snd (workflow_outcome p e c))" for e c
    by (simp add: workflow_outcome_def adds_success adds_failure split: option.split)
  obtain os c1 where o1: "(case m of None \<Rightarrow> ([], c) | Some m \<Rightarrow> primary_outcomes p m c) = (os, c1)" by fastforce
  then have a: "adds is_procedure c c1"
    using adds_primary [of is_procedure c p] by (auto split: option.splits dest!: arg_cong [where f = snd])
  have "adds is_procedure c1 (snd (consolidate p e m c))"
    using w [of c1] by (auto simp: consolidate_def o1 split: option.split prod.split sum.split)
      (metis snd_conv)+
  with a show ?thesis by (rule adds_trans)
qed

end
