(* ===== verification/Agent_Controller.thy ===== *)
theory Agent_Controller
  imports Agent_Consolidation
begin

text \<open>
  The controller of the agent memory (\<open>agent_memory/memory_controller.rs\<close>), the only writer: intake
  of a candidate, application of a durable memory, maintenance, outcome feedback, access touches, and
  the audit event of every step (\<open>audit.rs\<close>).  A fallible operation returns its result or error with
  the state that the steps before the error have left.
\<close>

section \<open>Audit\<close>

definition details_of :: "(string \<times> ustr) list \<Rightarrow> meta" where
  "details_of xs = map_of (map (\<lambda>(k, v). (lit k, v)) xs)"

definition emit :: "ctl_params \<Rightarrow> string \<Rightarrow> ustr option \<Rightarrow> ustr option \<Rightarrow> ustr option \<Rightarrow> ustr option \<Rightarrow> meta \<Rightarrow> ctl \<Rightarrow> ctl" where
  "emit p action cand mem bel query details c =
     drawn (c\<lparr>ct_audit := ct_audit c @ [\<lparr>ae_id = fresh_id p c, ae_occurred_at = cp_now p, ae_action = lit action,
       ae_candidate = cand, ae_memory = mem, ae_belief = bel, ae_query = query, ae_details = details\<rparr>]\<rparr>)"

definition decision_str :: "promotion_decision \<Rightarrow> ustr" where
  "decision_str d = (case d of Reject \<Rightarrow> lit ''reject'' | StoreTrace \<Rightarrow> lit ''storetrace'' | Promote \<Rightarrow> lit ''promote'')"

definition action_name :: "belief_action \<Rightarrow> ustr" where
  "action_name a = (case a of Reinforce \<Rightarrow> lit ''reinforce'' | Update \<Rightarrow> lit ''update'' | Dispute \<Rightarrow> lit ''dispute''
     | Retract \<Rightarrow> lit ''retract'')"

definition emit_rejection_event :: "ctl_params \<Rightarrow> ustr option \<Rightarrow> memory_layer \<Rightarrow> promotion_decision \<Rightarrow> ustr
    \<Rightarrow> reason_code \<Rightarrow> meta \<Rightarrow> ctl \<Rightarrow> ctl" where
  "emit_rejection_event p cand l d reason code details c =
     emit p ''policy_rejected'' cand None None None (details(lit ''target_layer'' \<mapsto> layer_str l,
       lit ''decision'' \<mapsto> decision_str d, lit ''reason'' \<mapsto> reason, lit ''reason_code'' \<mapsto> reason_str code)) c"

definition emit_rejection :: "ctl_params \<Rightarrow> candidate \<Rightarrow> promotion_result \<Rightarrow> reason_code \<Rightarrow> ctl \<Rightarrow> ctl" where
  "emit_rejection p cand r code c =
     emit_rejection_event p (Some (ca_id cand)) (cand_layer cand) (px_decision r) (px_reason r) code
       (fold (\<lambda>k. set_opt k (px_details r (lit k)))
          [''route_basis'', ''fallback_layer'', ''policy_version'', ''score_threshold''] Map.empty) c"

section \<open>Procedure transitions\<close>

definition emit_transition :: "ctl_params \<Rightarrow> ustr option \<Rightarrow> string \<Rightarrow> string \<Rightarrow> status_transition \<Rightarrow> ctl \<Rightarrow> ctl" where
  "emit_transition p cand source reason t c =
     (let prev = procedure_str (st_previous t); nxt = procedure_str (st_next t);
          (tid, c) = ctl_put_trace p
            (lit ''Procedure '' @ st_workflow t @ lit '' transitioned from '' @ prev @ lit '' to '' @ nxt
               @ lit '' because of '' @ lit reason)
            (details_of [(''action'', lit ''procedure_status_changed''), (''memory_layer'', layer_str Procedure),
               (''entity'', lit ''procedure''), (''slot'', st_workflow t), (''value'', nxt),
               (''workflow_key'', st_workflow t), (''procedure_id'', st_procedure t),
               (''previous_status'', prev), (''next_status'', nxt), (''source'', lit source),
               (''transition_reason'', lit reason), (''occurred_at'', ag_show_time (cp_env p) (cp_now p)),
               (''source_type'', lit ''system'')]) c
      in emit p ''procedure_status_changed'' cand (Some (st_procedure t)) None None
           (details_of [(''workflow_key'', st_workflow t), (''previous_status'', prev), (''next_status'', nxt),
              (''transition_trace_id'', tid), (''source'', lit source), (''transition_reason'', lit reason)]) c)"

definition reconcile :: "ctl_params \<Rightarrow> ustr option \<Rightarrow> ctl \<Rightarrow> ctl" where
  "reconcile p cand c =
     (let (ts, s) = sync_all_statuses (cp_env p) (cp_now p) (ct_store c)
      in fold (emit_transition p cand ''reconciliation'' ''reconciliation'') ts (with_store s c))"

section \<open>Context\<close>

definition is_verified_source :: "candidate \<Rightarrow> bool" where
  "is_verified_source c = (or_opt (ca_meta c (lit ''verified_source'')) (ca_meta c (lit ''verified'')) = Some (lit ''true''))"

definition is_seeded_by_system :: "candidate \<Rightarrow> bool" where
  "is_seeded_by_system c = (pv_type (ca_source c) = System
     \<and> (cand_layer c = Procedure \<or> ca_meta c (lit ''seeded_by_system'') = Some (lit ''true'')
        \<or> ca_meta c (lit ''seeded'') = Some (lit ''true'')))"

definition build_promotion_context :: "ctl_params \<Rightarrow> mem_store \<Rightarrow> candidate \<Rightarrow> promotion_context" where
  "build_promotion_context p s c =
     (let env = cp_env p; layer = cand_layer c; one = (\<lambda>b. if b then 1 else 0 :: nat);
          x = default_context\<lparr>pc_verified := is_verified_source c, pc_seeded := is_seeded_by_system c,
                pc_goal_state := one (layer = GoalState)\<rparr>;
          x = (case (cand_entity c, cand_slot c, cand_value c) of
              (Some e, Some sl, Some v) \<Rightarrow>
                (let bs = filter (\<lambda>m. \<not> du_retraction m) (list_for_belief env s e sl);
                     same = length (filter (\<lambda>m. du_value m = v) bs);
                     other = length (filter (\<lambda>m. du_value m \<noteq> v) bs);
                     self_same = length (matching_values env s e sl v);
                     self_other = length (filter (\<lambda>m. du_slot m = sl \<and> du_value m \<noteq> v) (self_memories_for env s e));
                     x = x\<lparr>pc_belief := same + one (layer = Belief)\<rparr>;
                     x = (if layer = SelfModel then x\<lparr>pc_corroborating := self_same, pc_contradictory := self_other\<rparr> else x);
                     x = x\<lparr>pc_self_model := self_same + one (layer = SelfModel)\<rparr>;
                     x = (if layer = Belief then x\<lparr>pc_corroborating := same, pc_contradictory := other\<rparr> else x)
                 in if layer = GoalState then x\<lparr>pc_goal_state :=
                      length (filter (\<lambda>m. structured_for m GoalState \<and> du_entity m = e \<and> du_slot m = sl
                        \<and> du_value m = v) (list_versions s GoalState)) + 1\<rparr>
                    else x)
            | _ \<Rightarrow> x)
      in (case cand_workflow c of None \<Rightarrow> x
         | Some k \<Rightarrow>
             (let es = episodes_by_workflow env s k; o0 = ca_meta c (lit ''outcome'') in
              x\<lparr>pc_success := length (filter (\<lambda>r. is_success_outcome env (er_outcome r)) es) + one (is_success_outcome env o0),
                pc_failure := length (filter (\<lambda>r. is_failure_outcome env (er_outcome r)) es) + one (is_failure_outcome env o0)\<rparr>)))"

section \<open>The self model is governed\<close>

datatype governance = Persist durable | Downgrade string reason_code

definition governed :: "agent_env \<Rightarrow> ustr \<Rightarrow> ustr \<Rightarrow> ustr \<Rightarrow> durable \<Rightarrow> durable" where
  "governed env e sl v m =
     (let m = m\<lparr>du_layer := Some SelfModel, du_entity := e, du_slot := sl, du_value := v\<rparr>
      in m\<lparr>du_meta := governed_meta env m\<rparr>)"

definition trusted_self_source :: "ctl_params \<Rightarrow> durable \<Rightarrow> bool" where
  "trusted_self_source p m =
     allows_singleton_self (mp_profile (cp_promoter p)) (pv_type (du_source m)) (pv_trust (du_source m))"

definition govern_self_model :: "ctl_params \<Rightarrow> mem_store \<Rightarrow> durable \<Rightarrow> governance" where
  "govern_self_model p s m =
     (case (mem_entity m, mem_slot m, mem_value m) of
        (Some e, Some sl, Some v) \<Rightarrow>
          (let env = cp_env p; hc = pp_constraints (mp_profile (cp_promoter p));
               g = governed env e sl v m;
               count = length (matching_values env s e sl v);
               trusted = trusted_self_source p m in
           (case latest_self_record env s e sl of
              Some r \<Rightarrow>
                if sr_stability r = StableDirective \<and> sr_value r \<noteq> v then
                  if hc_directive_trusted_path hc \<and> \<not> (trusted \<or> hc_min_directive hc \<le> count) then
                    Downgrade ''stable directives require a trusted update path or corroborated evidence''
                      StableDirectiveUpdateRejected
                  else Persist (g\<lparr>du_meta := (du_meta g)(lit ''stable_directive_update_path'' \<mapsto>
                    (if trusted then lit ''trusted_source'' else lit ''corroborated_evidence''))\<rparr>)
                else Persist g
            | None \<Rightarrow>
                if stability_of (from_slot env sl) = StableDirective \<and> \<not> (trusted \<or> hc_min_directive hc \<le> count + 1) then
                  Downgrade ''stable directives require a trusted source or corroborated evidence''
                    StableDirectiveUpdateRejected
                else Persist g))
      | _ \<Rightarrow> Persist m)"

section \<open>Belief transitions\<close>

definition trust_comparison :: "ctl_params \<Rightarrow> durable \<Rightarrow> belief option \<Rightarrow> ustr" where
  "trust_comparison p m existing = lit ''new='' @ ag_show_fix (cp_env p) 2 (pv_trust (du_source m)) @ lit '',existing=''
     @ ag_show_fix (cp_env p) 2 (case existing of None \<Rightarrow> 0 | Some b \<Rightarrow> strongest_weight b)"

definition transition_audit :: "ctl_params \<Rightarrow> durable \<Rightarrow> belief option \<Rightarrow> belief_outcome \<Rightarrow> belief \<Rightarrow> (string \<times> meta) option" where
  "transition_audit p m existing r b =
     (let secs_detail = set_opt ''time_to_last_resolution_seconds'' (map_option int_str (be_resolution_secs b));
          contradiction = set_opt ''last_contradiction_at'' (map_option (ag_show_time (cp_env p)) (be_last_contradiction b));
          ids = [(''entity'', be_entity b), (''slot'', be_slot b)] in
      case bo_action r of
        Reinforce \<Rightarrow> Some (''belief_reinforced'', secs_detail (details_of (ids @ [(''value'', be_value b),
          (''resolved_contestation'', bool_str ((case existing of None \<Rightarrow> False | Some x \<Rightarrow> be_status x = Disputed)
             \<and> be_status b = belief_status.Active))])))
      | Dispute \<Rightarrow> Some (''belief_contradiction_detected'', contradiction (details_of (ids @
          [(''prior_value'', case existing of None \<Rightarrow> [] | Some x \<Rightarrow> be_value x), (''new_value'', du_value m),
           (''trust_comparison'', trust_comparison p m existing),
           (''contradictions_observed'', dec_str (be_contradictions b))])))
      | Update \<Rightarrow> (case bo_prior r of None \<Rightarrow> None
          | Some prior \<Rightarrow> Some (''belief_replaced'', secs_detail (details_of (ids @
              [(''prior_value'', be_value prior), (''new_value'', be_value b),
               (''previous_status'', belief_str (be_status prior)),
               (''trust_comparison'', trust_comparison p m existing)]))))
      | Retract \<Rightarrow> Some (''belief_retracted'', details_of (ids @ [(''value'', be_value b)])))"

definition emit_belief_transition :: "ctl_params \<Rightarrow> ustr option \<Rightarrow> durable \<Rightarrow> belief option \<Rightarrow> belief_outcome \<Rightarrow> ctl \<Rightarrow> ctl" where
  "emit_belief_transition p cand m existing r c =
     (case bo_current r of None \<Rightarrow> c
      | Some b \<Rightarrow>
          (let details = set_opt ''time_to_last_resolution_seconds'' (map_option int_str (be_resolution_secs b))
                (set_opt ''last_contradiction_at'' (map_option (ag_show_time (cp_env p)) (be_last_contradiction b))
                (details_of [(''entity'', be_entity b), (''slot'', be_slot b), (''value'', be_value b),
                  (''action'', action_name (bo_action r)), (''status'', belief_str (be_status b)),
                  (''belief_retrieval_status'', view_str (view_status (be_status b))),
                  (''supporting_memory_count'', dec_str (length (be_supporting b))),
                  (''opposing_memory_count'', dec_str (length (be_opposing b))),
                  (''contradictions_observed'', dec_str (be_contradictions b))]));
               c = emit p ''belief_updated'' cand (Some (du_id m)) (Some (be_id b)) None details c
           in (case transition_audit p m existing r b of None \<Rightarrow> c
               | Some (a, d) \<Rightarrow> emit p a cand (Some (du_id m)) (Some (be_id b)) None d c)))"

section \<open>Storing a durable memory\<close>

definition layer_detail :: "memory_layer \<Rightarrow> meta" where
  "layer_detail l = details_of [(''memory_layer'', layer_str l)]"

definition persist_belief :: "ctl_params \<Rightarrow> ustr option \<Rightarrow> durable \<Rightarrow> ctl \<Rightarrow> ctl" where
  "persist_belief p cand m c =
     (let c = with_store (put_memory m (ct_store c)) c;
          c = emit p ''memory_stored'' cand (Some (du_id m)) None None
            (details_of [(''entity'', du_entity m), (''slot'', du_slot m), (''memory_layer'', layer_str (mem_layer m))]) c;
          existing = get_current_belief (ct_store c) (du_entity m) (du_slot m);
          r = apply_belief (fresh_id p c) existing m (cp_now p);
          c = drawn c;
          c = (case bo_prior r of None \<Rightarrow> c | Some b \<Rightarrow> with_store (update_belief b (ct_store c)) c);
          c = (case bo_current r of None \<Rightarrow> c | Some b \<Rightarrow> with_store (update_belief b (ct_store c)) c)
      in emit_belief_transition p cand m existing r c)"

text \<open>The outcome of a layer store, with its audit event.\<close>

definition stored_in :: "ctl_params \<Rightarrow> string \<Rightarrow> memory_layer \<Rightarrow> ustr option \<Rightarrow> (ustr \<times> mem_store) ares \<Rightarrow> ctl
    \<Rightarrow> ustr ares \<times> ctl" where
  "stored_in p action l cand r c =
     (case r of Inl e \<Rightarrow> (Inl e, c)
      | Inr (i, s) \<Rightarrow> (Inr i, emit p action cand (Some i) None None (layer_detail l) (with_store s c)))"

definition persist_durable :: "ctl_params \<Rightarrow> ustr option \<Rightarrow> durable \<Rightarrow> ustr option \<Rightarrow> ctl \<Rightarrow> ustr ares \<times> ctl" where
  "persist_durable p cand m0 ep c =
     (let m = supported ep m0; env = cp_env p; s = ct_store c in
      case mem_layer m0 of
        Episode \<Rightarrow> stored_in p ''episode_stored'' Episode cand (save_episode m s) c
      | Belief \<Rightarrow> (Inr (du_id m), persist_belief p cand m c)
      | GoalState \<Rightarrow> stored_in p ''goal_state_stored'' GoalState cand (save_goal env m ep s) c
      | SelfModel \<Rightarrow> stored_in p ''self_model_stored'' SelfModel cand (save_self_model env m ep s) c
      | Procedure \<Rightarrow> stored_in p ''procedure_stored'' Procedure cand (save_procedure env m s) c
      | Trace \<Rightarrow> map_prod Inr id (ctl_put_trace p (du_raw m)
          ((if du_slot m = [] then id else set_opt ''slot'' (Some (du_slot m)))
          ((if du_entity m = [] then id else set_opt ''entity'' (Some (du_entity m)))
          (layer_detail Trace))) c))"

definition apply_durable_memory :: "ctl_params \<Rightarrow> durable \<Rightarrow> ustr option \<Rightarrow> ctl \<Rightarrow> ustr ares \<times> ctl" where
  "apply_durable_memory p m ep c =
     (case (if mem_layer m = SelfModel then govern_self_model p (ct_store c) m else Persist m) of
        Downgrade reason code \<Rightarrow>
          (Inl (InvalidCandidate reason), emit_rejection_event p (Some (du_candidate m)) SelfModel Reject (lit reason) code
             (details_of [(''route_basis'', lit ''stable_directive_protection'')]) c)
      | Persist m \<Rightarrow> (case persist_durable p None m ep c of
            (Inl e, c) \<Rightarrow> (Inl e, c)
          | (Inr i, c) \<Rightarrow> (Inr i, reconcile p None c)))"

section \<open>Intake\<close>

definition record_candidate :: "ctl_params \<Rightarrow> candidate \<Rightarrow> (string \<times> ustr) list \<Rightarrow> ctl \<Rightarrow> durable \<times> ctl" where
  "record_candidate p cand details c =
     (let (e, s) = record_episode (fresh_id p c) cand (cp_now p) (ct_store c)
      in (e, emit p ''episode_stored'' (Some (ca_id cand)) (Some (du_id e)) None None (details_of details)
            (drawn (with_store s c))))"

definition identity_details :: "candidate \<Rightarrow> meta \<Rightarrow> meta" where
  "identity_details cand m = set_opt ''slot'' (cand_slot cand) (set_opt ''entity'' (cand_entity cand) m)"

definition store_unpromoted :: "ctl_params \<Rightarrow> candidate \<Rightarrow> promotion_result \<Rightarrow> ctl \<Rightarrow> ustr \<times> ctl" where
  "store_unpromoted p cand r c =
     (if px_details r (lit ''fallback_layer'') = Some (lit ''episode'') then
        (let (e, c) = record_candidate p cand [(''memory_layer'', layer_str Episode),
               (''source_layer'', layer_str (cand_layer cand)), (''route_mode'', lit ''evidence_only''),
               (''route_basis'', unwrap_or (lit ''insufficient_evidence'') (px_details r (lit ''route_basis'')))] c
         in (du_id e, reconcile p (Some (ca_id cand)) c))
      else
        (let (i, c) = ctl_put_trace p (ca_raw cand) (identity_details cand
               (details_of [(''memory_type'', type_str memory_type.Trace), (''memory_layer'', lit ''trace'')])) c
         in (i, reconcile p (Some (ca_id cand))
               (emit p ''trace_stored'' (Some (ca_id cand)) (Some i) None None Map.empty c))))"

definition emit_consolidation :: "ctl_params \<Rightarrow> ustr \<Rightarrow> consolidation_outcome \<Rightarrow> ctl \<Rightarrow> ctl" where
  "emit_consolidation p cand o1 c =
     (let r = co_record o1;
          c = emit p ''consolidation_recorded'' (Some cand) (Some (co_trace o1)) None None
            (transition_meta (co_transition o1)
              (details_of [(''target_layer'', layer_str (cr_layer r)), (''reason'', cr_reason r)])) c;
          c = (case co_learned o1 of None \<Rightarrow> c
            | Some i \<Rightarrow> emit p ''procedure_learned'' (Some cand) (Some i) None None
                (details_of [(''target_layer'', layer_str Procedure)]) c)
      in (case co_transition o1 of None \<Rightarrow> c
         | Some t \<Rightarrow> emit_transition p (Some cand) ''consolidation''
             (if cr_meta r (lit ''outcome'') = Some (lit ''failure'') then ''failure''
              else if cr_meta r (lit ''outcome'') = Some (lit ''success'') then ''success'' else ''consolidation'') t c))"

definition store_governed :: "ctl_params \<Rightarrow> candidate \<Rightarrow> durable \<Rightarrow> durable option \<Rightarrow> ctl \<Rightarrow> ustr option ares \<times> ctl" where
  "store_governed p cand m episode c =
     (case persist_durable p (Some (ca_id cand)) m (map_option du_id episode) c of
        (Inl e, c) \<Rightarrow> (Inl e, c)
      | (Inr i, c) \<Rightarrow>
          (let (r, c) = (if mem_layer m = Episode then consolidate p (Some m) None c
                         else consolidate p episode (Some m) c) in
           case r of Inl e \<Rightarrow> (Inl e, c)
           | Inr os \<Rightarrow> (Inr (Some i), reconcile p (Some (ca_id cand)) (fold (emit_consolidation p (ca_id cand)) os c))))"

definition store_promoted :: "ctl_params \<Rightarrow> candidate \<Rightarrow> durable \<Rightarrow> ctl \<Rightarrow> ustr option ares \<times> ctl" where
  "store_promoted p cand m c =
     (if mem_layer m = Episode then store_governed p cand m None c
      else
        (let (e, c) = record_candidate p cand [(''memory_layer'', layer_str Episode),
               (''source_layer'', layer_str (mem_layer m))] c;
             m = with_supporting_episode (du_id e) m in
         case (if mem_layer m = SelfModel then govern_self_model p (ct_store c) m else Persist m) of
           Persist m \<Rightarrow> store_governed p cand m (Some e) c
         | Downgrade reason code \<Rightarrow>
             (Inr (Some (du_id e)), reconcile p (Some (ca_id cand))
                (emit_rejection_event p (Some (ca_id cand)) SelfModel StoreTrace (lit reason) code
                  (details_of [(''route_basis'', lit ''stable_directive_protection''), (''fallback_layer'', lit ''episode''),
                     (''policy_version'', dec_str (pp_version (mp_profile (cp_promoter p))))]) c))))"

definition promotion_of :: "ctl_params \<Rightarrow> candidate \<Rightarrow> ctl \<Rightarrow> promotion_result" where
  "promotion_of p cand c = promote_with_context (cp_env p) (fresh_id p c) (cp_now p) (cp_promoter p) cand
     (build_promotion_context p (ct_store c) cand)"

definition ingest :: "ctl_params \<Rightarrow> candidate \<Rightarrow> ctl \<Rightarrow> ustr option ares \<times> ctl" where
  "ingest p candidate0 c =
     (let cand = classify (cp_env p) candidate0;
          c = emit p ''classification'' (Some (ca_id cand)) None None None (identity_details cand
            (details_of [(''memory_type'', type_str (ca_type cand)), (''memory_layer'', layer_str (cand_layer cand))])) c;
          r = promotion_of p cand c;
          c = (if px_memory r = None then c else drawn c);
          c = emit p ''promotion'' (Some (ca_id cand)) (map_option du_id (px_memory r)) None None
            (details_of [(''decision'', decision_str (px_decision r)), (''memory_layer'', layer_str (cand_layer cand)),
               (''reason'', px_reason r), (''score'', ag_show_flt (cp_env p) (px_score r))] ++ px_details r) c;
          c = (case px_code r of None \<Rightarrow> c | Some code \<Rightarrow> emit_rejection p cand r code c) in
      case px_decision r of
        Reject \<Rightarrow> (Inr None, c)
      | StoreTrace \<Rightarrow> map_prod (Inr \<circ> Some) id (store_unpromoted p cand r c)
      | Promote \<Rightarrow> (case px_memory r of None \<Rightarrow> (Inr None, c) | Some m \<Rightarrow> store_promoted p cand m c))"

section \<open>Reads, touches, maintenance\<close>

definition touchable :: "ctl_params \<Rightarrow> mem_store \<Rightarrow> retrieval_hit \<Rightarrow> ustr option" where
  "touchable p s h = (if rh_expired h then None
     else Option.bind (rh_memory h) (\<lambda>i. case get_memory (cp_env p) s i of None \<Rightarrow> None
       | Some m \<Rightarrow> if mem_layer m = Trace then None else Some i))"

text \<open>The in-memory store persists touches.\<close>

definition touch_retrieved :: "ctl_params \<Rightarrow> retrieval_hit list \<Rightarrow> ctl \<Rightarrow> ustr list \<times> ctl" where
  "touch_retrieved p hits c =
     (if \<not> po_persist_touches (policy_of p) then ([], c)
      else
        (let ids = first_of_keys id [] (List.map_filter (touchable p (ct_store c)) hits)
         in (ids, if ids = [] then c
              else with_store (touch_accesses (cp_env p) (map (\<lambda>i. (i, cp_now p)) ids) (ct_store c)) c)))"

definition current_durable_memories :: "ctl_params \<Rightarrow> mem_store \<Rightarrow> durable list" where
  "current_durable_memories p s = sort_key (\<lambda>m. (layer_str (mem_layer m), du_stored_at m, du_id m))
     (concat (map (list_by_layer (cp_env p) s) [Episode, Belief, GoalState, SelfModel, Procedure]))"

record maintenance_report =
  mr_memories :: "durable list"
  mr_expired :: "ustr list"
  mr_compactor :: "ustr \<times> bool \<times> ustr"

definition run_maintenance :: "ctl_params \<Rightarrow> ctl \<Rightarrow> maintenance_report \<times> ctl" where
  "run_maintenance p c =
     (let ms = current_durable_memories p (ct_store c);
          (expired, s) = run_decay (cp_env p) ms (cp_now p) (ct_store c);
          d = details_of [(''durable_memory_count'', dec_str (length ms)), (''expired_count'', dec_str (length expired)),
                (''compaction_supported'', bool_str compactor_supported), (''compactor_status'', compactor_status),
                (''compactor_reason'', compactor_reason)];
          d = (if ms = [] then d else set_opt ''durable_memory_ids'' (Some (join [44] (map du_id ms))) d);
          d = (if expired = [] then d else set_opt ''expired_ids'' (Some (join [44] expired)) d)
      in (\<lparr>mr_memories = ms, mr_expired = expired, mr_compactor = (compactor_status, compactor_supported, compactor_reason)\<rparr>,
          emit p ''maintenance'' None None None None d (with_store s c)))"

section \<open>Outcome feedback\<close>

definition prefixed :: "string \<Rightarrow> meta \<Rightarrow> meta" where
  "prefixed pre m = (\<lambda>k. if take (length pre) k = lit pre then m (drop (length pre) k) else None)"

definition feedback_memory :: "ctl_params \<Rightarrow> outcome_feedback \<Rightarrow> durable \<Rightarrow> durable" where
  "feedback_memory p f m = (let u = with_outcome_feedback (cp_env p) (of_kind f) (of_observed_at f) m
     in u\<lparr>du_meta := du_meta u ++ prefixed ''feedback_'' (of_meta f)\<rparr>)"

definition feedback_on_memory :: "ctl_params \<Rightarrow> outcome_feedback \<Rightarrow> durable option \<Rightarrow> ctl \<Rightarrow> ustr list \<times> ctl" where
  "feedback_on_memory p f target c =
     (case target of None \<Rightarrow> ([], c)
      | Some m \<Rightarrow> if mem_layer m = Trace \<or> mem_layer m = Procedure then ([], c)
          else ([du_id m], with_store (put_memory (feedback_memory p f m) (ct_store c)) c))"

definition feedback_on_belief :: "outcome_feedback \<Rightarrow> belief option \<Rightarrow> ustr list \<times> ctl \<Rightarrow> ustr list \<times> ctl" where
  "feedback_on_belief f target x = (case x of (ids, c) \<Rightarrow>
     (case target of None \<Rightarrow> (ids, c)
      | Some b \<Rightarrow> (let b = belief_feedback (of_kind f) (of_observed_at f) b
          in (add_new (be_id b) ids, with_store (update_belief b (ct_store c)) c))))"

definition feedback_on_workflow :: "ctl_params \<Rightarrow> outcome_feedback \<Rightarrow> ustr option \<Rightarrow> ustr list \<times> ctl \<Rightarrow> bool \<times> ustr list \<times> ctl" where
  "feedback_on_workflow p f key x = (case x of (ids, c) \<Rightarrow>
     (case key of None \<Rightarrow> (False, ids, c)
      | Some k \<Rightarrow> (case record_feedback (cp_env p) k (of_kind f) (of_observed_at f) (ct_store c) of
            (None, s) \<Rightarrow> (False, ids, with_store s c)
          | (Some u, s) \<Rightarrow> (True, add_new (pr_id (uo_record u)) ids,
              (case uo_transition u of None \<Rightarrow> with_store s c
               | Some t \<Rightarrow> emit_transition p None ''feedback''
                   (case of_kind f of Positive \<Rightarrow> ''positive_feedback'' | Negative \<Rightarrow> ''negative_feedback'') t
                   (with_store s c))))))"

definition record_outcome_feedback :: "ctl_params \<Rightarrow> outcome_feedback \<Rightarrow> ctl \<Rightarrow> ustr option ares \<times> ctl" where
  "record_outcome_feedback p f c =
     (let key0 = Option.bind (of_workflow f) trimmed_non_empty;
          mem_id = Option.bind (of_memory f) trimmed_non_empty;
          bel_id = Option.bind (of_belief f) trimmed_non_empty in
      if key0 = None \<and> mem_id = None \<and> bel_id = None then
        (Inl (InvalidCandidate ''outcome feedback requires a memory_id, belief_id, or workflow_key''), c)
      else
        (let m = Option.bind mem_id (get_memory (cp_env p) (ct_store c));
             key = (case m of None \<Rightarrow> key0
               | Some m \<Rightarrow> if key0 = None \<and> mem_layer m = Procedure then mem_workflow m else key0);
             x = feedback_on_memory p f m c;
             b = Option.bind bel_id (get_belief_by_id (ct_store (snd x)));
             x = feedback_on_belief f b x;
             (used, ids, c) = feedback_on_workflow p f key x;
             layer = (if used then Some Procedure else if b \<noteq> None then Some Belief else map_option mem_layer m) in
         if ids = [] then (Inr None, c)
         else
           (let d = set_opt ''target_layer'' (map_option layer_str layer) (set_opt ''workflow_key'' key
                  (set_opt ''target_belief_id'' bel_id (set_opt ''target_memory_id'' mem_id
                    (details_of [(''outcome'', outcome_str (of_kind f)), (''stored_memory_ids'', join [44] ids)]))))
                ++ prefixed ''feedback_meta_'' (of_meta f)
            in (Inr (Some (hd ids)), emit p ''outcome_feedback_recorded'' None
                  (if layer = Some Belief then None else Some (hd ids)) (of_belief f) None d c))))"

section \<open>Histories only grow\<close>

lemma with_store_sel [simp]: "ct_store (with_store s c) = s" "ct_audit (with_store s c) = ct_audit c"
  by (simp_all add: with_store_def)

lemma drawn_sel [simp]: "ct_store (drawn c) = ct_store c" "ct_audit (drawn c) = ct_audit c"
  by (simp_all add: drawn_def)

lemma emit_store [simp]: "ct_store (emit p a cand m b q d c) = ct_store c"
  by (simp add: emit_def)

lemma emit_rejection_store [simp]: "ct_store (emit_rejection p cand r code c) = ct_store c"
  "ct_store (emit_rejection_event p cd l de re code d c) = ct_store c"
  by (simp_all add: emit_rejection_def emit_rejection_event_def)

lemma adds_emit [simp]: "adds P c (emit p a cand m b q d c)"
  by (simp add: adds_def emit_def)

lemma adds_emit_after: "adds P c c' \<Longrightarrow> adds P c (emit p a cand m b q d c')"
  by (rule adds_trans [OF _ adds_emit])

lemma adds_rejection [simp]: "adds P c (emit_rejection_event p cd l de re code d c)"
  "adds P c (emit_rejection p cand r code c)"
  by (simp_all add: emit_rejection_def emit_rejection_event_def)

lemma adds_transition: "adds P c (emit_transition p cand so re t c)"
  unfolding emit_transition_def Let_def split_beta by (rule adds_emit_after) simp

lemma adds_fold: "(\<And>x c. adds P c (f x c)) \<Longrightarrow> adds P c (fold f xs c)"
  by (induction xs arbitrary: c) (auto intro: adds_trans)

lemma sync_one_store: "\<exists>r'. snd (snd (sync_one env now r (seen, ts, s))) \<in> {s, put_memory (procedure_memory env r') s}"
  by (auto simp: sync_one_def Let_def persist_procedure_def)

lemma adds_sync: "adds is_procedure c (with_store (snd (sync_all_statuses env now (ct_store c))) c)"
proof -
  have "adds is_procedure c (with_store (snd (snd (fold (sync_one env now) rs (seen, ts, s)))) c)"
    if "adds is_procedure c (with_store s c)" for rs seen ts s
    using that
  proof (induction rs arbitrary: seen ts s)
    case (Cons r rs)
    obtain seen' ts' s' where st: "sync_one env now r (seen, ts, s) = (seen', ts', s')" by (cases "sync_one env now r (seen, ts, s)")
    obtain r' where "s' = s \<or> s' = put_memory (procedure_memory env r') s"
      using sync_one_store [of env now r seen ts s] st by auto
    moreover have "adds is_procedure c (with_store (put_memory (procedure_memory env r') s) c)"
      using adds_trans [OF Cons.prems adds_put [of is_procedure "procedure_memory env r'" "with_store s c"]]
      by (simp add: procedure_memory_layer with_store_def)
    ultimately have "adds is_procedure c (with_store s' c)" using Cons.prems by auto
    then show ?case using Cons.IH [of s' seen' ts'] by (simp add: st)
  qed simp
  then show ?thesis by (simp add: sync_all_statuses_def with_store_def)
qed

lemma adds_reconcile: "adds is_procedure c (reconcile p cand c)"
  unfolding reconcile_def Let_def split_beta
  by (rule adds_trans [OF adds_sync]) (rule adds_fold, rule adds_transition)

definition is_episode :: "durable \<Rightarrow> bool" where
  "is_episode m = (mem_layer m = Episode)"

lemma adds_record: "adds is_episode c (snd (record_candidate p cand d c))"
proof -
  have "is_episode (to_episode_memory u cand t)" for u t
    by (simp add: is_episode_def mem_layer_def to_episode_memory_def)
  then show ?thesis
    unfolding record_candidate_def record_episode_def Let_def split_beta
    by (auto intro!: adds_emit_after adds_trans [OF _ adds_drawn] adds_put)
qed

text \<open>\<open>enlarges P c c'\<close> is \<open>adds P c c'\<close> with the beliefs, the touches and further expiries left open.\<close>

definition enlarges :: "(durable \<Rightarrow> bool) \<Rightarrow> ctl \<Rightarrow> ctl \<Rightarrow> bool" where
  "enlarges P c c' \<longleftrightarrow> (\<exists>new. ms_memories (ct_store c') = ms_memories (ct_store c) @ new \<and> (\<forall>m \<in> set new. P m))
     \<and> (\<exists>new. ms_traces (ct_store c') = ms_traces (ct_store c) @ new)
     \<and> ms_expired (ct_store c) \<subseteq> ms_expired (ct_store c') \<and> (\<exists>new. ct_audit c' = ct_audit c @ new)"

lemma enlarges_refl [simp]: "enlarges P c c"
  by (simp add: enlarges_def)

lemma enlarges_trans: "enlarges P a b \<Longrightarrow> enlarges P b c \<Longrightarrow> enlarges P a c"
  by (auto simp: enlarges_def)

lemma adds_enlarges: "adds P a b \<Longrightarrow> (\<And>m. P m \<Longrightarrow> Q m) \<Longrightarrow> enlarges Q a b"
  by (auto simp: adds_def enlarges_def)

lemma enlarges_mono: "enlarges P a b \<Longrightarrow> (\<And>m. P m \<Longrightarrow> Q m) \<Longrightarrow> enlarges Q a b"
  by (auto simp: enlarges_def)

end
