(* ===== verification/Agent_Safety.thy ===== *)
theory Agent_Safety
  imports Agent_Controller
begin

text \<open>
  What the controller of the agent memory guarantees over any sequence of its operations: its
  history only enlarges, every operation writes to the layers its candidate allows, and sources without
  trust never reach the beliefs or the self model.
\<close>

section \<open>Layer stores add one memory of their layer\<close>

definition of_layer :: "memory_layer \<Rightarrow> durable \<Rightarrow> bool" where
  "of_layer l m = (mem_layer m = l)"

lemma supported_layer [simp]: "mem_layer (supported ep m) = mem_layer m"
  by (simp add: supported_def with_supporting_episode_def mem_layer_def Let_def split: option.split)

lemma with_supporting_layer [simp]: "mem_layer (with_supporting_episode ep m) = mem_layer m"
  by (simp add: with_supporting_episode_def mem_layer_def Let_def)

lemma of_layer_set: "du_layer m = Some l \<Longrightarrow> of_layer l m"
  by (simp add: of_layer_def mem_layer_def)

lemma layer_fields [simp]: "du_layer (supported ep m) = du_layer m" "du_layer (trimmed_fields l m) = Some l"
  "du_layer (reinforced env e ids m) = du_layer m" "du_layer (contradicted env e ids m) = du_layer m"
  by (simp_all add: supported_def with_supporting_episode_def trimmed_fields_def reinforced_def contradicted_def Let_def
      split: option.split)

definition puts :: "memory_layer \<Rightarrow> mem_store \<Rightarrow> (ustr \<times> mem_store) ares \<Rightarrow> bool" where
  "puts l s r \<longleftrightarrow> (case r of Inl e \<Rightarrow> True | Inr (i, s') \<Rightarrow> (\<exists>m. s' = put_memory m s \<and> of_layer l m \<and> du_id m = i))"

lemma puts_Inl [simp]: "puts l s (Inl e)"
  by (simp add: puts_def)

lemma puts_memory: "of_layer l m \<Longrightarrow> du_id m = i \<Longrightarrow> puts l s (Inr (i, put_memory m s))"
  by (auto simp: puts_def)

lemma puts_episode: "puts Episode s (save_episode m s)"
  by (simp add: save_episode_def puts_memory of_layer_def)

lemma puts_goal: "puts GoalState s (save_goal env m ep s)"
  unfolding save_goal_def Let_def
  by (auto split: option.split intro!: puts_memory of_layer_set)

lemma puts_self: "puts SelfModel s (save_self_model env m ep s)"
  unfolding save_self_model_def Let_def
  by (auto split: list.split intro!: puts_memory of_layer_set)

lemma puts_procedure: "puts Procedure s (save_procedure env m s)"
  unfolding save_procedure_def Let_def
  by (auto split: option.split intro!: puts_memory of_layer_set)

lemma adds_stored: "puts l (ct_store c) r \<Longrightarrow> adds (of_layer l) c (snd (stored_in p a k cand r c))"
  by (auto simp: stored_in_def puts_def split: sum.split intro!: adds_emit_after adds_put)

lemma adds_persist:
  "mem_layer m \<noteq> Belief \<Longrightarrow> adds (of_layer (mem_layer m)) c (snd (persist_durable p cand m ep c))"
  by (cases "mem_layer m")
    (simp_all add: persist_durable_def Let_def adds_stored puts_episode puts_goal puts_self puts_procedure)

lemma enlarges_store: "ms_memories s = ms_memories (ct_store c) \<Longrightarrow> ms_traces s = ms_traces (ct_store c) \<Longrightarrow>
    ms_expired (ct_store c) \<subseteq> ms_expired s \<Longrightarrow> enlarges P c (with_store s c)"
  by (simp add: enlarges_def)

lemma enlarges_after_emit: "enlarges P c c' \<Longrightarrow> enlarges P c (emit p a cand m b q d c')"
  by (rule enlarges_trans [OF _ adds_enlarges [OF adds_emit]])

lemma enlarges_belief: "enlarges P c (with_store (update_belief b (ct_store c)) c)"
  by (rule enlarges_store) (simp_all add: update_belief_def)

lemma enlarges_transition: "enlarges P c (emit_belief_transition p cand m ex r c)"
  by (auto simp: emit_belief_transition_def Let_def split: option.split prod.split intro!: enlarges_after_emit)

lemma supported_of_layer: "of_layer l (supported ep m) = of_layer l m"
  by (simp add: of_layer_def)

lemma enlarges_persist_belief: "of_layer l m \<Longrightarrow> enlarges (of_layer l) c (snd (r, persist_belief p cand m c))"
proof -
  assume l: "of_layer l m"
  have step: "enlarges P x y \<Longrightarrow> enlarges P x (case o1 of None \<Rightarrow> y | Some b \<Rightarrow> with_store (update_belief b (ct_store y)) y)"
    for P x y o1 using enlarges_trans [OF _ enlarges_belief] by (auto split: option.split)
  have dr: "enlarges P x y \<Longrightarrow> enlarges P x (drawn y)" for P x y
    by (simp add: enlarges_def)
  have "enlarges (of_layer l) c (with_store (put_memory m (ct_store c)) c)"
    by (rule adds_enlarges [OF adds_put]) (use l in auto)
  then show ?thesis
    unfolding persist_belief_def Let_def snd_conv
    by (intro enlarges_trans [OF _ enlarges_transition] step dr enlarges_after_emit)
qed

lemma enlarges_persist: "enlarges (of_layer (mem_layer m)) c (snd (persist_durable p cand m ep c))"
proof (cases "mem_layer m = Belief")
  case True
  then show ?thesis
    by (simp add: persist_durable_def Let_def)
      (rule enlarges_persist_belief [unfolded snd_conv], simp add: supported_of_layer of_layer_def)
next
  case False
  then show ?thesis by (blast intro: adds_enlarges adds_persist)
qed

section \<open>Intake\<close>

text \<open>The layers that an ingested candidate may be written to.\<close>

definition reach_layers :: "memory_layer \<Rightarrow> durable \<Rightarrow> bool" where
  "reach_layers l m = (mem_layer m \<in> {l, Episode, Procedure})"

lemma reach_of_layer: "of_layer l m \<Longrightarrow> reach_layers l m" "is_episode m \<Longrightarrow> reach_layers l m"
    "is_procedure m \<Longrightarrow> reach_layers l m"
  by (simp_all add: reach_layers_def of_layer_def is_episode_def is_procedure_def)

lemma adds_emit_consolidation: "adds P c (emit_consolidation p cand x c)"
  unfolding emit_consolidation_def Let_def
  by (auto split: option.split intro!: adds_emit_after adds_trans [OF _ adds_transition])

lemma governed_layer: "govern_self_model p s m = Persist m' \<Longrightarrow> mem_layer m = SelfModel \<Longrightarrow> mem_layer m' = SelfModel"
  by (auto simp: govern_self_model_def governed_def Let_def mem_layer_def split: option.splits if_splits)

text \<open>The layer that an intake may write to besides the evidence.\<close>

definition written_layer :: "ctl_params \<Rightarrow> candidate \<Rightarrow> ctl \<Rightarrow> memory_layer" where
  "written_layer p x c =
     (let cand = classify (cp_env p) x in
      if sufficient (cp_env p) (cp_promoter p) cand (build_promotion_context p (ct_store c) cand) (cand_layer cand)
      then cand_layer cand else Episode)"

text \<open>What the steps of an intake need of a relation between states: it is a preorder that contains
  the additions, and storing an admissible memory is in it.\<close>

locale history =
  fixes rel :: "(durable \<Rightarrow> bool) \<Rightarrow> ctl \<Rightarrow> ctl \<Rightarrow> bool"
    and ok :: "memory_layer \<Rightarrow> bool"
  assumes rel_trans: "rel P a b \<Longrightarrow> rel P b c \<Longrightarrow> rel P a c"
    and rel_mono: "rel P a b \<Longrightarrow> (\<And>m. P m \<Longrightarrow> Q m) \<Longrightarrow> rel Q a b"
    and rel_adds: "adds P a b \<Longrightarrow> rel P a b"
    and rel_persist: "ok (mem_layer m) \<Longrightarrow> rel (of_layer (mem_layer m)) c (snd (persist_durable p cand m ep c))"
begin

lemma rel_refl: "rel P c c"
  by (rule rel_adds) simp

lemma procedures: "adds is_procedure a b \<Longrightarrow> rel (reach_layers l) a b"
  by (erule rel_mono [OF rel_adds]) (rule reach_of_layer)

lemma episodes: "adds is_episode a b \<Longrightarrow> rel (reach_layers l) a b"
  by (erule rel_mono [OF rel_adds]) (rule reach_of_layer)

lemma emitted: "rel P c c' \<Longrightarrow> rel P c (emit p a cand m b q d c')"
  by (rule rel_trans [OF _ rel_adds [OF adds_emit]])

lemma reconciled: "rel (reach_layers l) c c' \<Longrightarrow> rel (reach_layers l) c (reconcile p cand c')"
  by (rule rel_trans [OF _ procedures [OF adds_reconcile]])

lemma store_governed_rel:
  assumes "ok (mem_layer m)"
  shows "rel (reach_layers (mem_layer m)) c (snd (store_governed p cand m e c))"
proof -
  let ?R = "rel (reach_layers (mem_layer m))"
  obtain r c1 where c1: "persist_durable p (Some (ca_id cand)) m (map_option du_id e) c = (r, c1)" by fastforce
  have a: "?R c c1"
    using rel_mono [OF rel_persist [OF assms, of c p "Some (ca_id cand)" "map_option du_id e"]] c1
    by (auto simp: reach_of_layer)
  obtain q c2 where c2: "(if mem_layer m = Episode then consolidate p (Some m) None c1 else consolidate p e (Some m) c1) = (q, c2)"
    by fastforce
  then have b: "?R c1 c2" by (metis adds_consolidate procedures snd_conv)
  have "?R c2 (reconcile p x (fold (emit_consolidation p y) os c2))" for x y os
    by (rule reconciled, rule rel_adds, rule adds_fold, rule adds_emit_consolidation)
  then have "?R c (reconcile p x (fold (emit_consolidation p y) os c2))" "?R c c2" "?R c c1" for x y os
    using a b rel_trans by blast+
  then show ?thesis unfolding store_governed_def c1 prod.case Let_def c2
    by (simp del: layer_str.simps split: sum.split)
qed

lemma store_promoted_rel:
  assumes "ok (mem_layer m)"
  shows "rel (reach_layers (mem_layer m)) c (snd (store_promoted p cand m c))"
proof (cases "mem_layer m = Episode")
  case True
  then show ?thesis using store_governed_rel [OF assms] by (simp add: store_promoted_def)
next
  case False
  let ?d = "[(''memory_layer'', layer_str Episode), (''source_layer'', layer_str (mem_layer m))]"
  let ?R = "rel (reach_layers (mem_layer m))"
  obtain e c1 where c1: "record_candidate p cand ?d c = (e, c1)" by fastforce
  have a: "?R c c1" using episodes [OF adds_record [of c p cand ?d]] c1 by simp
  let ?m = "with_supporting_episode (du_id e) m"
  let ?g = "if mem_layer m = SelfModel then govern_self_model p (ct_store c1) ?m else Persist ?m"
  have "?R c1 (snd (store_governed p cand m' (Some e) c1))" if "?g = Persist m'" for m'
  proof -
    have "mem_layer m' = mem_layer m"
      using that governed_layer [of p "ct_store c1" ?m m'] by (auto split: if_splits)
    then show ?thesis using store_governed_rel [of m' c1] assms by simp
  qed
  moreover have "?R c1 (reconcile p x (emit_rejection_event p cd l de re code d c1))" for x cd l de re code d
    by (rule reconciled, rule rel_adds, rule adds_rejection)
  ultimately have "?R c (case ?g of Persist m' \<Rightarrow> snd (store_governed p cand m' (Some e) c1)
      | Downgrade reason code \<Rightarrow> reconcile p x (emit_rejection_event p cd l de (f reason) code d c1))" for x cd l de f d
    using rel_trans [OF a] by (cases ?g) auto
  then show ?thesis using False unfolding store_promoted_def Let_def c1 prod.case
    by (simp only: if_False with_supporting_layer governance.case_distrib [of snd] snd_conv)
qed

lemma store_unpromoted_rel: "rel (reach_layers l) c (snd (store_unpromoted p cand r c))"
proof -
  have "rel (reach_layers l) c (reconcile p x (snd (record_candidate p cand d c)))" for x d
    by (rule reconciled, rule episodes, rule adds_record)
  moreover have "rel (reach_layers l) c (reconcile p x (emit p a cd m b q d (snd (ctl_put_trace p t tm c))))"
    for x a cd m b q d t tm
    by (rule reconciled, rule emitted, rule rel_adds, rule adds_trace)
  ultimately show ?thesis by (simp add: store_unpromoted_def Let_def split_beta)
qed

text \<open>An intake writes episodes and procedures, and its candidate's layer if the evidence for it suffices.\<close>

lemma ingest_rel:
  assumes "ok (written_layer p x c)"
  shows "rel (reach_layers (written_layer p x c)) c (snd (ingest p x c))"
proof -
  define cand where "cand = classify (cp_env p) x"
  let ?R = "rel (reach_layers (written_layer p x c))"
  define c1 where "c1 = emit p ''classification'' (Some (ca_id cand)) None None None (identity_details cand
    (details_of [(''memory_type'', type_str (ca_type cand)), (''memory_layer'', layer_str (cand_layer cand))])) c"
  define r where "r = promotion_of p cand c1"
  define c2 where "c2 = (if px_memory r = None then c1 else drawn c1)"
  define c3 where "c3 = emit p ''promotion'' (Some (ca_id cand)) (map_option du_id (px_memory r)) None None
    (details_of [(''decision'', decision_str (px_decision r)), (''memory_layer'', layer_str (cand_layer cand)),
      (''reason'', px_reason r), (''score'', ag_show_flt (cp_env p) (px_score r))] ++ px_details r) c2"
  define c4 where "c4 = (case px_code r of None \<Rightarrow> c3 | Some code \<Rightarrow> emit_rejection p cand r code c3)"
  have "adds P c c4" for P
    unfolding c4_def c3_def c2_def c1_def
    by (auto split: option.split intro: adds_emit_after adds_trans [OF _ adds_drawn] adds_trans [OF _ adds_rejection(2)])
  then have a: "?R c c4" by (rule rel_adds)
  have i: "ingest p x c = (case px_decision r of Reject \<Rightarrow> (Inr None, c4)
      | StoreTrace \<Rightarrow> map_prod (Inr \<circ> Some) id (store_unpromoted p cand r c4)
      | Promote \<Rightarrow> (case px_memory r of None \<Rightarrow> (Inr None, c4) | Some m \<Rightarrow> store_promoted p cand m c4))"
    unfolding ingest_def cand_def [symmetric] c1_def [symmetric] r_def [symmetric] c2_def [symmetric] c3_def [symmetric]
      c4_def [symmetric] Let_def by (rule refl)
  have pr: "?R c4 (snd (store_promoted p cand m c4))" if "px_decision r = Promote" "px_memory r = Some m" for m
  proof -
    have s: "sufficient (cp_env p) (cp_promoter p) cand (build_promotion_context p (ct_store c) cand) (cand_layer cand)"
      using that(1) unfolding r_def promotion_of_def promote_iff by (simp add: c1_def)
    have "mem_layer m = written_layer p x c"
      using that s promote_memory by (fastforce simp: r_def promotion_of_def promoted_layer written_layer_def cand_def Let_def)
    then show ?thesis using store_promoted_rel [of m c4 p cand] assms by simp
  qed
  have "?R c4 (snd (ingest p x c))"
    using pr store_unpromoted_rel rel_refl by (simp add: i split: promotion_decision.split option.split)
  then show ?thesis using a by (rule rel_trans [rotated])
qed

end

interpretation grown: history enlarges "\<lambda>_. True"
  by unfold_locales (blast intro: enlarges_trans enlarges_mono adds_enlarges enlarges_persist)+

interpretation kept: history adds "\<lambda>l. l \<noteq> Belief"
  by unfold_locales (blast intro: adds_trans adds_mono adds_persist)+

section \<open>Runs of the controller\<close>

datatype ctl_op = Ingest candidate | Apply durable "ustr option" | Touch "retrieval_hit list" | Maintain
  | Feedback outcome_feedback

text \<open>One operation, with the parameters it runs with (its reading of the clock among them).\<close>

definition run_op :: "ctl_params \<times> ctl_op \<Rightarrow> ctl \<Rightarrow> ctl" where
  "run_op x c = (case x of (p, a) \<Rightarrow> (case a of
     Ingest cand \<Rightarrow> snd (ingest p cand c)
   | Apply m ep \<Rightarrow> snd (apply_durable_memory p m ep c)
   | Touch hits \<Rightarrow> snd (touch_retrieved p hits c)
   | Maintain \<Rightarrow> snd (run_maintenance p c)
   | Feedback f \<Rightarrow> snd (record_outcome_feedback p f c)))"

definition run_ops :: "(ctl_params \<times> ctl_op) list \<Rightarrow> ctl \<Rightarrow> ctl" where
  "run_ops ops c = fold run_op ops c"

definition blank_ctl :: ctl where
  "blank_ctl = \<lparr>ct_store = empty_store, ct_audit = [], ct_fresh = 0\<rparr>"

text \<open>Touches change the touches only.\<close>

lemma touches_only: "\<exists>t. touch_accesses env ts s = s\<lparr>ms_touches := t\<rparr>"
proof -
  have "\<exists>t. fold (touch_step env) xs s = s\<lparr>ms_touches := t\<rparr>" for xs s
  proof (induction xs arbitrary: s)
    case Nil
    show ?case by (rule exI [of _ "ms_touches s"]) simp
  next
    case (Cons x xs)
    have "\<exists>t. touch_step env x s = s\<lparr>ms_touches := t\<rparr>"
      by (cases "get_memory env s (fst x)")
        (auto simp: touch_step_def Let_def split_beta intro: exI [of _ "ms_touches s"])
    then obtain t where "touch_step env x s = s\<lparr>ms_touches := t\<rparr>" ..
    then show ?case using Cons.IH [of "s\<lparr>ms_touches := t\<rparr>"] by auto
  qed
  then show ?thesis by (simp add: touch_accesses_def)
qed

lemma enlarges_touch: "enlarges P c (snd (touch_retrieved p hits c))"
proof -
  have "enlarges P c (with_store (touch_accesses env ts (ct_store c)) c)" for env ts
    using touches_only [of env ts "ct_store c"] by (auto intro!: enlarges_store)
  then show ?thesis by (simp add: touch_retrieved_def Let_def)
qed

text \<open>Maintenance expires exactly the current memories that are past their deadline, reports them in
  order, and changes nothing else in the store.\<close>

lemma maintenance_store:
  "ct_store (snd (run_maintenance p c)) = (ct_store c)\<lparr>ms_expired := ms_expired (ct_store c) \<union>
     du_id ` {m \<in> set (current_durable_memories p (ct_store c)). re_expired (evaluate_retention (cp_env p) m (cp_now p))}\<rparr>"
  by (simp add: run_maintenance_def run_decay_exact Let_def)

lemma enlarges_maintenance: "enlarges P c (snd (run_maintenance p c))"
  unfolding run_maintenance_def Let_def run_decay_exact prod.case snd_conv
  by (rule enlarges_after_emit, rule enlarges_store) simp_all

lemma adds_feedback_memory:
  "(\<And>m. target = Some m \<Longrightarrow> P (feedback_memory p f m)) \<Longrightarrow> adds P c (snd (feedback_on_memory p f target c))"
  by (auto simp: feedback_on_memory_def split: option.split intro!: adds_put)

lemma enlarges_feedback_belief: "enlarges P (snd x) (snd (feedback_on_belief f target x))"
  by (auto simp: feedback_on_belief_def Let_def split: prod.split option.split intro: enlarges_belief)

lemma adds_feedback_workflow: "adds is_procedure (snd x) (snd (snd (feedback_on_workflow p f key x)))"
proof -
  have "adds is_procedure c (with_store s c)" if "record_feedback env k kd t (ct_store c) = (u, s)" for env k kd t c u s
    using that adds_persist_outcome [of c]
    by (auto simp: record_feedback_def Let_def split_beta with_store_def split: option.splits)
  then show ?thesis
    by (auto simp: feedback_on_workflow_def split: prod.split option.split intro: adds_trans [OF _ adds_transition])
qed

lemma run_op_enlarges: "enlarges (\<lambda>_. True) c (run_op x c)"
proof -
  obtain p a where x: "x = (p, a)" by fastforce
  show ?thesis
  proof (cases a)
    case (Ingest cand)
    then show ?thesis using enlarges_mono [OF grown.ingest_rel] by (simp add: run_op_def x)
  next
    case (Apply m ep)
    have "enlarges (\<lambda>_. True) c (emit_rejection_event p cd l de re code d c)" for cd l de re code d
      using adds_enlarges [OF adds_rejection(1)] by blast
    moreover have "enlarges (\<lambda>_. True) c (snd (case persist_durable p None m ep c of
        (Inl e, c) \<Rightarrow> (Inl e, c) | (Inr i, c) \<Rightarrow> (Inr i, reconcile p None c)))" for m
      using enlarges_mono [OF enlarges_persist [of m c p None ep]] enlarges_trans [OF _ adds_enlarges [OF adds_reconcile]]
      by (auto split: prod.split sum.split)
    ultimately show ?thesis using Apply
      by (auto simp: run_op_def x apply_durable_memory_def split: governance.split)
  next
    case (Touch hits)
    then show ?thesis by (simp add: run_op_def x enlarges_touch)
  next
    case Maintain
    then show ?thesis by (simp add: run_op_def x enlarges_maintenance)
  next
    case (Feedback f)
    have "enlarges (\<lambda>_. True) c (snd (snd (feedback_on_workflow p f key (feedback_on_belief f b (feedback_on_memory p f m c)))))"
      for key b m
      by (rule enlarges_trans [OF adds_enlarges [OF adds_feedback_memory] enlarges_trans [OF enlarges_feedback_belief
            adds_enlarges [OF adds_feedback_workflow]]]) simp_all
    then have "enlarges (\<lambda>_. True) c (snd (record_outcome_feedback p f c))"
      unfolding record_outcome_feedback_def Let_def split_beta by (simp add: enlarges_after_emit)
    then show ?thesis by (simp add: Feedback run_op_def x)
  qed
qed

lemma run_ops_enlarges: "enlarges (\<lambda>_. True) c (run_ops ops c)"
  by (induction ops arbitrary: c) (auto simp: run_ops_def intro: enlarges_trans run_op_enlarges)

text \<open>C7. The agent memory keeps its whole history: over any sequence of intakes, applications,
  touches, maintenance runs and outcome feedback, successful or failing, the stored memory versions,
  the traces and the audit events of the start are an unchanged prefix of those at the end, and an
  expired memory stays expired.\<close>

theorem history_only_grows:
  "\<exists>ms ts as. ms_memories (ct_store (run_ops ops c)) = ms_memories (ct_store c) @ ms
     \<and> ms_traces (ct_store (run_ops ops c)) = ms_traces (ct_store c) @ ts
     \<and> ct_audit (run_ops ops c) = ct_audit c @ as
     \<and> ms_expired (ct_store c) \<subseteq> ms_expired (ct_store (run_ops ops c))"
  using run_ops_enlarges [of c ops] by (auto simp: enlarges_def)

section \<open>Sources without trust\<close>

text \<open>A candidate from a source that is neither the system nor a tool and that does not call itself
  verified; a memory that is applied directly has to be of another layer already.\<close>

definition untrusted :: "candidate \<Rightarrow> bool" where
  "untrusted x \<longleftrightarrow> pv_type (ca_source x) \<noteq> System \<and> pv_type (ca_source x) \<noteq> Tool \<and> \<not> is_verified_source x"

fun untrusted_op :: "ctl_op \<Rightarrow> bool" where
  "untrusted_op (Ingest x) = untrusted x"
| "untrusted_op (Apply m ep) = (mem_layer m \<noteq> Belief \<and> mem_layer m \<noteq> SelfModel)"
| "untrusted_op _ = True"

text \<open>A profile that asks for at least two pieces of evidence.\<close>

definition cautious :: "ctl_params \<Rightarrow> bool" where
  "cautious p \<longleftrightarrow> 2 \<le> hc_min_belief (pp_constraints (mp_profile (cp_promoter p)))
     \<and> 2 \<le> hc_min_self (pp_constraints (mp_profile (cp_promoter p)))"

definition unbelieving :: "ctl \<Rightarrow> bool" where
  "unbelieving c \<longleftrightarrow> ms_beliefs (ct_store c) = [] \<and>
     (\<forall>m \<in> set (ms_memories (ct_store c)). mem_layer m \<noteq> Belief \<and> mem_layer m \<noteq> SelfModel)"

definition plain_layer :: "durable \<Rightarrow> bool" where
  "plain_layer m = (mem_layer m \<noteq> Belief \<and> mem_layer m \<noteq> SelfModel)"

lemma adds_unbelieving: "adds plain_layer c c' \<Longrightarrow> unbelieving c \<Longrightarrow> unbelieving c'"
  by (auto simp: adds_def unbelieving_def plain_layer_def)

lemma unbelieving_versions:
  "unbelieving c \<Longrightarrow> list_versions (ct_store c) Belief = [] \<and> list_versions (ct_store c) SelfModel = []"
  by (simp add: unbelieving_def list_versions_def)

text \<open>No evidence is found for a belief or a self-model entry but the candidate itself.\<close>

lemma context_evidence:
  assumes "unbelieving c"
  shows "pc_belief (build_promotion_context p (ct_store c) x) \<le> 1"
    "pc_self_model (build_promotion_context p (ct_store c) x) \<le> 1"
    "pc_verified (build_promotion_context p (ct_store c) x) = is_verified_source x"
  using unbelieving_versions [OF assms]
  by (simp_all add: build_promotion_context_def Let_def default_context_def list_for_belief_def list_by_layer_def
      latest_by_id_def matching_values_def List.map_filter_simps split: option.split)

lemma raise_salience_keeps [simp]: "ca_source (raise_salience v x) = ca_source x" "ca_meta (raise_salience v x) = ca_meta x"
  by (simp_all add: raise_salience_def)

lemma classify_keeps [simp]: "ca_source (classify env x) = ca_source x" "ca_meta (classify env x) = ca_meta x"
  by (simp_all add: classify_def Let_def split: memory_type.split)

lemma classify_verified [simp]: "is_verified_source (classify env x) = is_verified_source x"
  by (simp add: is_verified_source_def)

lemma untrusted_layer:
  assumes "unbelieving c" "cautious p" "untrusted x"
  shows "written_layer p x c \<noteq> Belief \<and> written_layer p x c \<noteq> SelfModel"
proof -
  let ?x = "classify (cp_env p) x"
  let ?b = "build_promotion_context p (ct_store c) ?x"
  have "\<not> sufficient (cp_env p) (cp_promoter p) ?x ?b Belief" "\<not> sufficient (cp_env p) (cp_promoter p) ?x ?b SelfModel"
    using context_evidence [OF assms(1), of p ?x] assms(2,3)
    by (auto simp: cautious_def untrusted_def allows_singleton_belief_def allows_singleton_self_def)
  then show ?thesis by (auto simp: written_layer_def Let_def)
qed

lemma unbelieving_cong: "ms_beliefs (ct_store c') = ms_beliefs (ct_store c) \<Longrightarrow>
    ms_memories (ct_store c') = ms_memories (ct_store c) \<Longrightarrow> unbelieving c' = unbelieving c"
  by (simp add: unbelieving_def)

lemma procedures_plain: "adds is_procedure c c' \<Longrightarrow> adds plain_layer c c'"
  by (erule adds_mono) (simp add: is_procedure_def plain_layer_def)

lemma get_memory_member: "get_memory env s i = Some m \<Longrightarrow> \<exists>m' \<in> set (ms_memories s). mem_layer m = mem_layer m' \<and> du_id m' = i"
proof -
  assume g: "get_memory env s i = Some m"
  then obtain m' where m': "latest_stored s i = Some m'" "m = apply_access_touch env s m'" by (auto simp: get_memory_def)
  then have "m' \<in> set (filter (\<lambda>m. du_id m = i) (ms_memories s))"
    by (intro newest_member) (simp add: latest_stored_newest)
  then show ?thesis using m'(2) by auto
qed

lemma feedback_memory_layer [simp]: "mem_layer (feedback_memory p f m) = mem_layer m"
  by (simp add: feedback_memory_def with_outcome_feedback_def mem_layer_def Let_def)

lemma unbelieving_ingest:
  assumes "unbelieving c" "cautious p" "untrusted x"
  shows "unbelieving (snd (ingest p x c))"
proof -
  note l = untrusted_layer [OF assms]
  have "adds (reach_layers (written_layer p x c)) c (snd (ingest p x c))" by (rule kept.ingest_rel) (use l in simp)
  then have "adds plain_layer c (snd (ingest p x c))"
    by (rule adds_mono) (use l in \<open>auto simp: reach_layers_def plain_layer_def\<close>)
  then show ?thesis using assms(1) by (rule adds_unbelieving)
qed

lemma unbelieving_apply:
  assumes "unbelieving c" "plain_layer m"
  shows "unbelieving (snd (apply_durable_memory p m ep c))"
proof -
  obtain r c1 where c1: "persist_durable p None m ep c = (r, c1)" by fastforce
  have "adds (of_layer (mem_layer m)) c c1"
    using adds_persist [of m c p None ep] assms(2) c1 by (simp add: plain_layer_def)
  then have "adds plain_layer c c1" by (rule adds_mono) (use assms(2) in \<open>simp add: of_layer_def plain_layer_def\<close>)
  moreover from this have "adds plain_layer c (reconcile p None c1)"
    by (rule adds_trans) (rule procedures_plain, rule adds_reconcile)
  ultimately have "adds plain_layer c (snd (apply_durable_memory p m ep c))"
    using assms(2) by (simp add: apply_durable_memory_def plain_layer_def c1 split: sum.split)
  then show ?thesis using assms(1) by (rule adds_unbelieving)
qed

lemma unbelieving_feedback:
  assumes "unbelieving c"
  shows "unbelieving (snd (record_outcome_feedback p f c))"
proof -
  have "adds plain_layer c (snd (feedback_on_memory p f (Option.bind i (get_memory env (ct_store c))) c))" for i env
  proof (rule adds_feedback_memory)
    fix m assume "Option.bind i (get_memory env (ct_store c)) = Some m"
    then obtain j where "get_memory env (ct_store c) j = Some m" by (auto simp: bind_eq_Some_conv)
    then show "plain_layer (feedback_memory p f m)"
      using get_memory_member assms by (fastforce simp: plain_layer_def unbelieving_def)
  qed
  then have u: "unbelieving (snd (feedback_on_memory p f (Option.bind i (get_memory env (ct_store c))) c))" for i env
    using adds_unbelieving assms by blast
  moreover have "Option.bind j (get_belief_by_id (ct_store x)) = None" if "unbelieving x" for j x
    using that by (cases j) (simp_all add: unbelieving_def get_belief_by_id_def)
  moreover have "unbelieving (snd (snd (feedback_on_workflow p f k x)))" if "unbelieving (snd x)" for k x
    using that adds_unbelieving [OF procedures_plain [OF adds_feedback_workflow]] by blast
  moreover have "feedback_on_belief f None x = x" for x
    by (cases x) (simp add: feedback_on_belief_def)
  moreover have "unbelieving (emit p a cand m b q d c') = unbelieving c'" for p a cand m b q d c'
    by (rule unbelieving_cong) simp_all
  ultimately show ?thesis
    unfolding record_outcome_feedback_def Let_def split_beta using assms by (simp del: Option.bind_assoc)
qed

lemma unbelieving_op:
  assumes "unbelieving c" "cautious p" "untrusted_op a"
  shows "unbelieving (run_op (p, a) c)"
proof (cases a)
  case (Touch hits)
  have "unbelieving (with_store (touch_accesses env ts (ct_store c)) c)" for env ts
    using touches_only [of env ts "ct_store c"] assms(1) unbelieving_cong by (auto simp: unbelieving_def)
  then show ?thesis using assms(1) Touch by (simp add: run_op_def touch_retrieved_def Let_def)
next
  case Maintain
  then show ?thesis using assms(1) by (simp add: run_op_def unbelieving_def maintenance_store)
qed (use assms in \<open>simp_all add: run_op_def unbelieving_ingest unbelieving_apply unbelieving_feedback plain_layer_def\<close>)

lemma unbelieving_run:
  "unbelieving c \<Longrightarrow> list_all (\<lambda>(p, a). cautious p \<and> untrusted_op a) ops \<Longrightarrow> unbelieving (run_ops ops c)"
  by (induction ops arbitrary: c) (auto simp: run_ops_def intro: unbelieving_op)

text \<open>C5. Sources without trust never shape what the agent believes.  Start from an empty memory and run
  any sequence of intakes of candidates that come neither from the system nor from a tool and do not
  call themselves verified, with any retrieval touches, maintenance and feedback in between, under a
  profile that asks for two or more pieces of evidence: there is no belief and no memory of the belief
  or the self-model layer, however often a claim is repeated.\<close>

theorem untrusted_never_believed:
  assumes "list_all (\<lambda>(p, a). cautious p \<and> untrusted_op a) ops"
  shows "ms_beliefs (ct_store (run_ops ops blank_ctl)) = []
    \<and> (\<forall>m \<in> set (ms_memories (ct_store (run_ops ops blank_ctl))). mem_layer m \<noteq> Belief \<and> mem_layer m \<noteq> SelfModel)"
  using unbelieving_run [OF _ assms, of blank_ctl] by (simp add: unbelieving_def blank_ctl_def empty_store_def)

section \<open>A sample\<close>

definition sample_agent_env :: agent_env where
  "sample_agent_env = \<lparr>ag_lower = (\<lambda>s. s), ag_parse_time = (\<lambda>s. None), ag_show_time = (\<lambda>t. int_str t),
     ag_show_flt = (\<lambda>x. []), ag_show_fix = (\<lambda>n x. []), ag_parse_flt = (\<lambda>s. None)\<rparr>"

definition sample_params :: ctl_params where
  "sample_params = \<lparr>cp_env = sample_agent_env, cp_uuid = (\<lambda>n. [97 + n]), cp_now = 1000000000, cp_wall = 1000000000,
     cp_promoter = new_promoter default_policy, cp_hash = (\<lambda>s. 0), cp_json = (\<lambda>r. [])\<rparr>"

definition sample_claim :: "source_type \<Rightarrow> meta \<Rightarrow> candidate" where
  "sample_claim st m = \<lparr>ca_id = lit ''c'', ca_observed_at = 0, ca_entity = Some (lit ''user''),
     ca_slot = Some (lit ''city''), ca_value = Some (lit ''Berlin''), ca_raw = lit ''lives in Berlin'',
     ca_source = \<lparr>pv_type = st, pv_id = lit ''s'', pv_label = None, pv_observed_by = None, pv_trust = source_weight st\<rparr>,
     ca_type = memory_type.Trace, ca_confidence = 1, ca_salience = 1, ca_scope = Private, ca_ttl = None,
     ca_event_at = None, ca_valid_from = None, ca_valid_to = None, ca_layer = None, ca_tags = [], ca_meta = m,
     ca_retraction = False\<rparr>"

definition self_verified :: meta where
  "self_verified = [lit ''verified_source'' \<mapsto> lit ''true'']"

lemma sample_cautious: "cautious sample_params"
  by code_simp

lemma sample_untrusted: "untrusted (sample_claim Chat Map.empty)"
  by code_simp

lemma sample_gate: "cand_layer (classify sample_agent_env (sample_claim Chat m)) = Belief"
    "cand_structured_for (classify sample_agent_env (sample_claim Chat m)) Belief"
    "passing (new_promoter default_policy) Belief
       (score_of (new_promoter default_policy) (classify sample_agent_env (sample_claim Chat m)))"
  by code_simp+

theorem untrusted_never_believed_witness:
  "ms_beliefs (ct_store (run_ops [(sample_params, Ingest (sample_claim Chat Map.empty)),
      (sample_params, Ingest (sample_claim Chat Map.empty))] blank_ctl)) = []"
  using untrusted_never_believed [of "[(sample_params, Ingest (sample_claim Chat Map.empty)),
      (sample_params, Ingest (sample_claim Chat Map.empty))]"] sample_cautious sample_untrusted by simp

end
