(* ===== verification/Agent_Guarantees.thy ===== *)
theory Agent_Guarantees
  imports Agent_Safety
begin

text \<open>
  What single operations of the agent memory guarantee: what an intake does with a claim that calls
  itself verified, the protection of stable directives, exact maintenance, and what becomes of late
  feedback.
\<close>

section \<open>Claims that call themselves verified\<close>

lemma adds_beliefs: "adds P c c' \<Longrightarrow> ms_beliefs (ct_store c') = ms_beliefs (ct_store c)"
  by (simp add: adds_def)

lemma emitted_transition [simp]: "ct_store (emit_belief_transition p cand m ex r c) = ct_store c"
  by (simp add: emit_belief_transition_def Let_def split: option.split prod.split)

lemma current_after_update: "get_current_belief (update_belief b s) (be_entity b) (be_slot b) = Some b"
  by (simp add: get_current_belief_def update_belief_def update_conv')

lemma persist_first_belief:
  assumes "get_current_belief (ct_store c) (du_entity m) (du_slot m) = None"
  shows "\<exists>u. get_current_belief (ct_store (persist_belief p cand m c)) (du_entity m) (du_slot m) = Some (new_belief u m (cp_now p))"
proof -
  have n: "get_current_belief (put_memory m (ct_store c)) (du_entity m) (du_slot m) = None"
    using assms by (simp add: get_current_belief_def put_memory_def)
  have e: "be_entity (new_belief u m t) = du_entity m" "be_slot (new_belief u m t) = du_slot m" for u t
    by (simp_all add: new_belief_def)
  show ?thesis
    using current_after_update [of "new_belief u m (cp_now p)" "put_memory m (ct_store c)" for u]
    by (auto simp: persist_belief_def Let_def n apply_belief_def e)
qed

lemma store_governed_beliefs:
  assumes "mem_layer m = Belief"
  shows "ms_beliefs (ct_store (snd (store_governed p cand m e c))) =
    ms_beliefs (ct_store (persist_belief p (Some (ca_id cand)) (supported (map_option du_id e) m) c))"
proof -
  obtain q c2 where c2: "consolidate p e (Some m) (persist_belief p (Some (ca_id cand)) (supported (map_option du_id e) m) c) = (q, c2)"
    by fastforce
  have "ms_beliefs (ct_store c2) = ms_beliefs (ct_store (persist_belief p (Some (ca_id cand)) (supported (map_option du_id e) m) c))"
    using adds_beliefs [OF adds_consolidate] c2 by (metis snd_conv)
  moreover have "ms_beliefs (ct_store (reconcile p x (fold (emit_consolidation p y) os c2))) = ms_beliefs (ct_store c2)" for x y os
    using adds_beliefs [OF adds_reconcile] adds_beliefs [OF adds_fold [of "\<lambda>_. True" "emit_consolidation p y", OF adds_emit_consolidation]] by simp
  ultimately show ?thesis
    using assms by (simp add: store_governed_def persist_durable_def Let_def c2 split: sum.split)
qed

lemma supported_fields [simp]: "du_entity (supported ep m) = du_entity m" "du_slot (supported ep m) = du_slot m"
  "du_value (supported ep m) = du_value m" "du_retraction (supported ep m) = du_retraction m"
  by (simp_all add: supported_def with_supporting_episode_def Let_def split: option.split)

lemma with_supporting_fields [simp]: "du_entity (with_supporting_episode ep m) = du_entity m"
  "du_slot (with_supporting_episode ep m) = du_slot m" "du_value (with_supporting_episode ep m) = du_value m"
  "du_retraction (with_supporting_episode ep m) = du_retraction m"
  by (simp_all add: with_supporting_episode_def Let_def)

lemma store_promoted_belief:
  assumes "mem_layer m = Belief" "get_current_belief (ct_store c) (du_entity m) (du_slot m) = None" "\<not> du_retraction m"
  shows "\<exists>b. get_current_belief (ct_store (snd (store_promoted p cand m c))) (du_entity m) (du_slot m) = Some b
    \<and> be_value b = du_value m \<and> be_status b = belief_status.Active"
proof -
  obtain e c1 where c1: "record_candidate p cand [(''memory_layer'', lit ''episode''), (''source_layer'', lit ''belief'')] c = (e, c1)"
    by fastforce
  have "ms_beliefs (ct_store c1) = ms_beliefs (ct_store c)" using adds_beliefs [OF adds_record] c1 by (metis snd_conv)
  then have n: "get_current_belief (ct_store c1) (du_entity m) (du_slot m) = None"
    using assms(2) by (simp add: get_current_belief_def)
  let ?m = "with_supporting_episode (du_id e) m"
  let ?s = "supported (Some (du_id e)) ?m"
  obtain u where u: "get_current_belief (ct_store (persist_belief p (Some (ca_id cand)) ?s c1)) (du_entity m) (du_slot m)
      = Some (new_belief u ?s (cp_now p))"
    using persist_first_belief [of c1 ?s p "Some (ca_id cand)"] n by auto
  have "get_current_belief (ct_store (snd (store_promoted p cand m c))) (du_entity m) (du_slot m) = Some (new_belief u ?s (cp_now p))"
    using u assms(1) store_governed_beliefs [of ?m p cand "Some e" c1]
    by (simp add: store_promoted_def c1 Let_def get_current_belief_def)
  then show ?thesis using assms(3) by (simp add: new_belief_def)
qed

text \<open>An intake as a case distinction on its promotion; audit events leave the store alone.\<close>

lemma ingest_cases:
  "\<exists>c1 c2. ct_store c1 = ct_store c \<and> ct_store c2 = ct_store c \<and>
     ingest p x c = (let cand = classify (cp_env p) x; r = promotion_of p cand c1 in
       case px_decision r of Reject \<Rightarrow> (Inr None, c2)
       | StoreTrace \<Rightarrow> map_prod (Inr \<circ> Some) id (store_unpromoted p cand r c2)
       | Promote \<Rightarrow> (case px_memory r of None \<Rightarrow> (Inr None, c2) | Some m \<Rightarrow> store_promoted p cand m c2))"
  unfolding ingest_def Let_def by (intro exI conjI, rule_tac [3] refl) (simp_all split: option.split)

text \<open>C35. A claim is believed on its own word: a candidate of any source, of whatever trust, whose
  metadata says verified, that is classified as a fact with entity, slot and value and passes the score
  thresholds, becomes an active belief with its value when nothing is believed there yet.\<close>

theorem self_verified_believed:
  assumes "cand = classify (cp_env p) x" "is_verified_source x" "cand_layer cand = Belief"
    "cand_entity cand = Some e" "cand_slot cand = Some sl" "cand_value cand = Some v" "\<not> ca_retraction cand"
    "passing (cp_promoter p) Belief (score_of (cp_promoter p) cand)"
    "get_current_belief (ct_store c) e sl = None"
  shows "\<exists>b. get_current_belief (ct_store (snd (ingest p x c))) e sl = Some b
    \<and> be_value b = v \<and> be_status b = belief_status.Active"
proof -
  obtain c1 c2 where c1: "ct_store c1 = ct_store c" "ct_store c2 = ct_store c"
    "ingest p x c = (let r = promotion_of p cand c1 in case px_decision r of Reject \<Rightarrow> (Inr None, c2)
       | StoreTrace \<Rightarrow> map_prod (Inr \<circ> Some) id (store_unpromoted p cand r c2)
       | Promote \<Rightarrow> (case px_memory r of None \<Rightarrow> (Inr None, c2) | Some m \<Rightarrow> store_promoted p cand m c2))"
    using ingest_cases [of c p x] unfolding assms(1) [symmetric] Let_def by blast
  have ver: "pc_verified (build_promotion_context p (ct_store c) cand)"
    using assms(2) by (simp add: assms(1) build_promotion_context_def Let_def default_context_def split: option.split)
  then have "sufficient (cp_env p) (cp_promoter p) cand (build_promotion_context p (ct_store c) cand) Belief"
    using assms(4-6) by (simp add: cand_structured_for_def)
  then have pr: "px_decision (promotion_of p cand c1) = Promote"
    using assms(3,8) by (simp add: promotion_of_def promote_iff c1)
  obtain u route where mm: "px_memory (promotion_of p cand c1) =
      Some (promoted_memory u (cp_now p) (cp_promoter p) cand (build_promotion_context p (ct_store c) cand) route)"
    using promote_memory pr by (fastforce simp: promotion_of_def c1)
  define m where "m = promoted_memory u (cp_now p) (cp_promoter p) cand (build_promotion_context p (ct_store c) cand) route"
  have i: "ingest p x c = store_promoted p cand m c2" by (simp add: c1 pr mm m_def)
  have f: "du_entity m = e" "du_slot m = sl" "du_value m = v" "\<not> du_retraction m" "mem_layer m = Belief"
    using assms(3-7) by (simp_all add: m_def promoted_layer) (simp_all add: promoted_memory_def)
  then show ?thesis using store_promoted_belief [of m c2 p cand] assms(9) by (simp add: i c1)
qed

theorem self_verified_believed_witness:
  "\<exists>b. get_current_belief (ct_store (snd (ingest sample_params (sample_claim Chat self_verified) blank_ctl)))
     (lit ''user'') (lit ''city'') = Some b \<and> be_value b = lit ''Berlin'' \<and> be_status b = belief_status.Active"
proof (rule self_verified_believed [OF refl])
  show "is_verified_source (sample_claim Chat self_verified)" by code_simp
  show "cand_entity (classify (cp_env sample_params) (sample_claim Chat self_verified)) = Some (lit ''user'')"
    "cand_slot (classify (cp_env sample_params) (sample_claim Chat self_verified)) = Some (lit ''city'')"
    "cand_value (classify (cp_env sample_params) (sample_claim Chat self_verified)) = Some (lit ''Berlin'')"
    "\<not> ca_retraction (classify (cp_env sample_params) (sample_claim Chat self_verified))"
    by code_simp+
  show "cand_layer (classify (cp_env sample_params) (sample_claim Chat self_verified)) = Belief"
    "passing (cp_promoter sample_params) Belief
       (score_of (cp_promoter sample_params) (classify (cp_env sample_params) (sample_claim Chat self_verified)))"
    using sample_gate by (simp_all add: sample_params_def)
  show "get_current_belief (ct_store blank_ctl) (lit ''user'') (lit ''city'') = None" by code_simp
qed

section \<open>Stable directives\<close>

lemma adds_self_model: "adds plain_layer c c' \<Longrightarrow>
    list_versions (ct_store c') SelfModel = list_versions (ct_store c) SelfModel"
  by (auto simp: adds_def plain_layer_def list_versions_def filter_empty_conv)

lemma list_by_layer_cong: "list_versions s l = list_versions s' l \<Longrightarrow> ms_touches s = ms_touches s' \<Longrightarrow>
    list_by_layer env s l = list_by_layer env s' l"
proof -
  assume "list_versions s l = list_versions s' l" "ms_touches s = ms_touches s'"
  moreover have "apply_access_touch env s = apply_access_touch env s'" if "ms_touches s = ms_touches s'"
    by (rule ext) (simp add: apply_access_touch_def that)
  ultimately show ?thesis by (simp add: list_by_layer_def)
qed

lemma governed_cong:
  assumes "adds is_episode c c'"
  shows "latest_self_record env (ct_store c') e sl = latest_self_record env (ct_store c) e sl"
    "matching_values env (ct_store c') e sl v = matching_values env (ct_store c) e sl v"
proof -
  have v: "list_versions (ct_store c') SelfModel = list_versions (ct_store c) SelfModel"
    by (rule adds_self_model, rule adds_mono [OF assms]) (simp add: is_episode_def plain_layer_def)
  have "list_by_layer env (ct_store c') SelfModel = list_by_layer env (ct_store c) SelfModel"
    using v assms by (intro list_by_layer_cong) (simp_all add: adds_def)
  then show "latest_self_record env (ct_store c') e sl = latest_self_record env (ct_store c) e sl"
    by (simp add: latest_self_record_def self_records_for_def self_memories_for_def)
  show "matching_values env (ct_store c') e sl v = matching_values env (ct_store c) e sl v"
    unfolding matching_values_def v by (rule refl)
qed

text \<open>What protects a directive: it is stable, says something else, and neither the source nor
  earlier entries support the new value.\<close>

definition protected_from :: "ctl_params \<Rightarrow> mem_store \<Rightarrow> ustr \<Rightarrow> ustr \<Rightarrow> ustr \<Rightarrow> provenance \<Rightarrow> bool" where
  "protected_from p s e sl v src \<longleftrightarrow> (case latest_self_record (cp_env p) s e sl of None \<Rightarrow> False
     | Some r \<Rightarrow> sr_stability r = StableDirective \<and> sr_value r \<noteq> v)
     \<and> hc_directive_trusted_path (pp_constraints (mp_profile (cp_promoter p)))
     \<and> \<not> allows_singleton_self (mp_profile (cp_promoter p)) (pv_type src) (pv_trust src)
     \<and> length (matching_values (cp_env p) s e sl v) < hc_min_directive (pp_constraints (mp_profile (cp_promoter p)))"

lemma protected_downgrade:
  assumes "protected_from p s e sl v (du_source m)" "mem_entity m = Some e" "mem_slot m = Some sl" "mem_value m = Some v"
  shows "\<exists>why code. govern_self_model p s m = Downgrade why code"
  using assms by (auto simp: protected_from_def govern_self_model_def trusted_self_source_def Let_def split: option.splits)

lemma protected_promotion:
  assumes "protected_from p (ct_store c) e sl v (du_source m)" "mem_entity m = Some e" "mem_slot m = Some sl"
    "mem_value m = Some v" "mem_layer m = SelfModel"
  shows "adds plain_layer c (snd (store_promoted p cand m c))"
proof -
  obtain e1 c1 where c1: "record_candidate p cand [(''memory_layer'', lit ''episode''), (''source_layer'', lit ''self_model'')] c = (e1, c1)"
    by fastforce
  have a: "adds is_episode c c1" using adds_record c1 by (metis snd_conv)
  have "protected_from p (ct_store c1) e sl v (du_source m)"
    using assms(1) governed_cong [OF a] by (simp add: protected_from_def)
  then obtain why code where "govern_self_model p (ct_store c1) (with_supporting_episode (du_id e1) m) = Downgrade why code"
    using protected_downgrade [of p "ct_store c1" e sl v "with_supporting_episode (du_id e1) m"] assms(2-4)
    by (auto simp: with_supporting_episode_def Let_def mem_entity_def mem_slot_def mem_value_def)
  then have r: "snd (store_promoted p cand m c) = reconcile p (Some (ca_id cand))
      (emit_rejection_event p (Some (ca_id cand)) SelfModel StoreTrace (lit why) code
        (details_of [(''route_basis'', lit ''stable_directive_protection''), (''fallback_layer'', lit ''episode''),
           (''policy_version'', dec_str (pp_version (mp_profile (cp_promoter p))))]) c1)"
    using assms(5) by (simp add: store_promoted_def c1 Let_def)
  have "adds plain_layer c c1" by (rule adds_mono [OF a]) (simp add: is_episode_def plain_layer_def)
  then show ?thesis unfolding r
    by (rule adds_trans [OF _ adds_trans [OF adds_rejection(1) procedures_plain [OF adds_reconcile]]])
qed

lemma promoted_by_gate: "px_memory (promote_with_context env u now p c ctx) = Some m \<Longrightarrow>
    \<exists>route. m = promoted_memory u now p c ctx route"
  by (cases "px_decision (promote_with_context env u now p c ctx) = Promote") (auto simp: promote_memory promote_none)

lemma promoted_identity:
  "cand_entity c = Some e \<Longrightarrow> mem_entity (promoted_memory u now p c ctx route) = Some e"
  "cand_slot c = Some e \<Longrightarrow> mem_slot (promoted_memory u now p c ctx route) = Some e"
  "cand_value c = Some e \<Longrightarrow> mem_value (promoted_memory u now p c ctx route) = Some e"
proof -
  have t: "cand_entity c = Some e \<Longrightarrow> trimmed_non_empty e = Some e" "cand_slot c = Some e \<Longrightarrow> trimmed_non_empty e = Some e"
    "cand_value c = Some e \<Longrightarrow> trimmed_non_empty e = Some e"
    by (auto simp: cand_entity_def cand_slot_def cand_value_def bind_eq_Some_conv dest: trimmed_again)
  show "cand_entity c = Some e \<Longrightarrow> mem_entity (promoted_memory u now p c ctx route) = Some e"
    "cand_slot c = Some e \<Longrightarrow> mem_slot (promoted_memory u now p c ctx route) = Some e"
    "cand_value c = Some e \<Longrightarrow> mem_value (promoted_memory u now p c ctx route) = Some e"
    using t by (simp_all add: promoted_memory_def mem_entity_def mem_slot_def mem_value_def)
qed

text \<open>C13. A stable directive of the self model (a constraint, a value or a capability limit) is not
  overwritten on weak evidence: an intake of another value for it, from a source whose own trust the
  profile does not accept and with fewer matching earlier entries than it asks for, leaves the versions
  of the self model exactly as they were, also when the candidate passes the promotion gate.\<close>

theorem stable_directive_protected:
  assumes "cand = classify (cp_env p) x" "cand_layer cand = SelfModel" "cand_entity cand = Some e"
    "cand_slot cand = Some sl" "cand_value cand = Some v" "protected_from p (ct_store c) e sl v (ca_source x)"
  shows "list_versions (ct_store (snd (ingest p x c))) SelfModel = list_versions (ct_store c) SelfModel"
proof -
  obtain c1 c2 where c1: "ct_store c1 = ct_store c" "ct_store c2 = ct_store c"
    "ingest p x c = (let r = promotion_of p cand c1 in case px_decision r of Reject \<Rightarrow> (Inr None, c2)
       | StoreTrace \<Rightarrow> map_prod (Inr \<circ> Some) id (store_unpromoted p cand r c2)
       | Promote \<Rightarrow> (case px_memory r of None \<Rightarrow> (Inr None, c2) | Some m \<Rightarrow> store_promoted p cand m c2))"
    using ingest_cases [of c p x] unfolding assms(1) [symmetric] Let_def by blast
  have "adds (reach_layers Episode) c2 (snd (store_unpromoted p cand r c2))" for r
    by (rule kept.store_unpromoted_rel)
  then have u: "adds plain_layer c2 (snd (store_unpromoted p cand r c2))" for r
    by (rule adds_mono) (auto simp: reach_layers_def plain_layer_def)
  have "adds plain_layer c2 (snd (store_promoted p cand m c2))" if h: "px_memory (promotion_of p cand c1) = Some m" for m
  proof -
    obtain u ctx route where m: "m = promoted_memory u (cp_now p) (cp_promoter p) cand ctx route"
      using h promoted_by_gate unfolding promotion_of_def by blast
    have "mem_entity m = Some e" "mem_slot m = Some sl" "mem_value m = Some v" "mem_layer m = SelfModel"
      "du_source m = ca_source x"
      using assms(2-5) promoted_identity by (simp_all add: m promoted_layer) (simp add: promoted_memory_def assms(1))
    then show ?thesis using protected_promotion [of p c2 e sl v m cand] assms(6) c1(2) by simp
  qed
  then have "adds plain_layer c2 (snd (ingest p x c))"
    using u unfolding c1(3) Let_def by (simp split: promotion_decision.split option.split)
  then show ?thesis using adds_self_model c1(2) by metis
qed

definition sample_constraint :: "ustr \<Rightarrow> candidate" where
  "sample_constraint v = (sample_claim Chat Map.empty)\<lparr>ca_slot := Some (lit ''constraint''), ca_value := Some v,
     ca_raw := lit ''never share'', ca_layer := Some SelfModel\<rparr>"

definition sample_directive :: durable where
  "sample_directive = promoted_memory (lit ''d'') 0 (new_promoter default_policy) (sample_constraint (lit ''private''))
     default_context (lit ''trusted_source'')"

definition directive_store :: ctl where
  "directive_store = blank_ctl\<lparr>ct_store := put_memory sample_directive empty_store\<rparr>"

lemma sample_protected: "protected_from sample_params (ct_store directive_store) (lit ''user'') (lit ''constraint'')
    (lit ''public'') (ca_source (sample_constraint (lit ''public'')))"
  by code_simp

lemma constraint_fields:
  "let c = classify (cp_env sample_params) (sample_constraint (lit ''public'')) in cand_layer c = SelfModel
     \<and> cand_entity c = Some (lit ''user'') \<and> cand_slot c = Some (lit ''constraint'') \<and> cand_value c = Some (lit ''public'')"
  by code_simp

theorem stable_directive_protected_witness:
  "list_versions (ct_store (snd (ingest sample_params (sample_constraint (lit ''public'')) directive_store))) SelfModel =
     list_versions (ct_store directive_store) SelfModel"
  using stable_directive_protected [OF refl _ _ _ _ sample_protected] constraint_fields by (simp add: Let_def)

section \<open>Maintenance\<close>


section \<open>Late feedback\<close>

lemma latest_stored_id: "latest_stored s i = Some m \<Longrightarrow> du_id m = i"
proof -
  assume "latest_stored s i = Some m"
  then have "m \<in> set (filter (\<lambda>m. du_id m = i) (ms_memories s))" by (intro newest_member) (simp add: latest_stored_newest)
  then show ?thesis by simp
qed


definition sample_note :: durable where
  "sample_note = (to_episode_memory (lit ''m'') (sample_claim Chat Map.empty) 5000000000)"

definition sample_store :: ctl where
  "sample_store = blank_ctl\<lparr>ct_store := put_memory sample_note empty_store\<rparr>"

definition sample_feedback :: outcome_feedback where
  "sample_feedback = \<lparr>of_memory = Some (lit ''m''), of_belief = None, of_workflow = None, of_kind = Negative,
     of_observed_at = 4000000000, of_meta = Map.empty\<rparr>"

lemma sample_latest: "latest_stored (ct_store sample_store) (lit ''m'') = Some sample_note"
  by (simp add: latest_stored_newest sample_store_def put_memory_def empty_store_def sample_note_def to_episode_memory_def
      newest_def newest_step_def)

lemma sample_memory: "get_memory (cp_env sample_params) (ct_store sample_store) (lit ''m'') = Some sample_note"
  by (simp add: get_memory_def sample_latest apply_access_touch_def) (simp add: sample_store_def put_memory_def empty_store_def)


end
