(* ===== verification/Spec2Isabelle.thy ===== *)
theory Spec2Isabelle
  imports Header Footer Wal Manifest_Wal Time_Index Temporal_Index Text_Norm Structure Detector
    Chunker Chunks Chunk_Manifest Utf8 Frame_Types Frames Mutation Toc_Invariant Put_Plan Put_Commit
    Put_Read Acl Memory_Card Track_Blob Memories_Track Logic_Mesh Query Query_Print
    Toc_Types Toc_Codec Toc_Store Lex_Storage Toc_Write Tickets Wal_Growth Sketch F32 Agent_Types
    Agent_Policy Agent_Promoter Agent_Store Agent_Layers Agent_Procedures Agent_Consolidation
    Agent_Controller Agent_Safety Agent_Guarantees
begin

text \<open>
  Verification development for the Rust core of Hysight, the memvid crate (\<open>src/memvid/src\<close>).

  \<^bold>\<open>The program.\<close>  A memory is one \<open>.mv2\<close> file: a 4 KiB header, an embedded write-ahead log, the
  payloads and index tracks, the table of contents (TOC) and a footer that names its length and hash.
  A put plans a document (normalise the text, detect its structure, cut it into chunks) and appends
  records to the log; a commit applies the records to the TOC, writes payloads and tracks behind the
  data, then TOC and footer, and points the header to them; opening finds the TOC through the header or
  by scanning for the last valid footer and replays what the log still holds.  Above the file lie the
  memory cards, the entity graph, the query language, access control, the sketch pre-filter, tickets
  and the agent memory, a governed store of observations with policy, beliefs, procedures and audit.
  The Python runtime and the web front end of the repository talk to this crate and are not modelled.

  \<^bold>\<open>How the model reads.\<close>  A Rust struct is a record or, for tagged data, a datatype with the names of
  the source; a fixed-width integer is a word, or a number with the wrap-around written out where the
  code compares sizes; \<open>Vec<u8>\<close> and files are lists of bytes (\<open>Prelude\<close>: reads, writes, seeks, \<open>set_len\<close>);
  a \<open>String\<close> is its list of characters with UTF-8 lengths where the code counts bytes (\<open>Text_Base\<close>,
  \<open>Utf8\<close>); \<open>Result\<close> is a sum with the errors of the crate on the left, and a panic is an error value of its
  own; a method on \<open>&mut self\<close> returns the new state.  Hash maps are association lists: the claims on
  the memories track hold for every iteration order, the agent store keeps the order of first insertion.  Code outside \<open>src\<close> is a
  parameter: BLAKE3, zstd, bincode, JSON, Base64, Ed25519, NFKC and lower-casing, regular expressions,
  RFC 3339 and calendar dates, the tantivy engine, \<open>Uuid::new_v4\<close>, \<open>DefaultHasher\<close> and the clock.  What a
  theorem needs of them (decoding inverts encoding, the hash has 32 bytes) is a named hypothesis, and
  its witness gives a concrete function for it.

  \<^bold>\<open>Theories.\<close>
  \<^item> \<open>Prelude\<close>: integers, bytes, little-endian codecs, files, and the contracts \<open>codec\<close>,
    \<open>fixed_codec\<close> and \<open>append_log\<close>, interpreted by the header, the footer, the entries of the time
    and temporal tracks, the sketch entries and both logs.  \<open>Text_Base\<close>, \<open>Utf8\<close>: strings.  \<open>F32\<close>: finite
    \<open>f32\<close> arithmetic as rationals rounded to 24 bits.
  \<^item> File layout: \<open>Header\<close> (\<open>io/header.rs\<close>), \<open>Footer\<close> (\<open>footer.rs\<close>), \<open>Wal\<close> (\<open>io/wal.rs\<close>), \<open>Manifest_Wal\<close>
    (\<open>io/manifest_wal.rs\<close>), \<open>Time_Index\<close>, \<open>Temporal_Index\<close> (the tracks of \<open>io\<close>), \<open>Track_Blob\<close> (the envelope
    of the JSON tracks).
  \<^item> Documents: \<open>Text_Norm\<close> (\<open>text.rs\<close>), \<open>Structure\<close>, \<open>Detector\<close>, \<open>Chunker\<close> (\<open>types/structure.rs\<close>,
    \<open>structure\<close>), \<open>Chunks\<close> and \<open>Chunk_Manifest\<close> (\<open>memvid/chunks.rs\<close>).
  \<^item> Frames and the log: \<open>Frame_Types\<close> (\<open>types/frame.rs\<close>, \<open>types/common.rs\<close>), \<open>Frames\<close> (\<open>memvid/frame.rs\<close>,
    \<open>memvid/timeline.rs\<close>), \<open>Mutation\<close> (\<open>apply_records\<close> of \<open>memvid/mutation.rs\<close>) with the invariant of every
    reachable TOC in \<open>Toc_Invariant\<close>, \<open>Put_Plan\<close> (the records of a put), \<open>Put_Commit\<close> and \<open>Put_Read\<close> (from
    a put through the log to what is read back), \<open>Wal_Growth\<close> (moving the data when the log grows).
  \<^item> The TOC: \<open>Toc_Types\<close> (\<open>types/manifest.rs\<close> and its serde forms), \<open>Toc_Codec\<close> (\<open>toc.rs\<close>), \<open>Toc_Store\<close>
    (reading and recovering, \<open>memvid/lifecycle.rs\<close>), \<open>Toc_Write\<close> (publishing it), \<open>Lex_Storage\<close> (the
    registry of embedded segments), \<open>Tickets\<close> (\<open>memvid/ticket.rs\<close>, \<open>signature.rs\<close>).
  \<^item> On top: \<open>Acl\<close> (\<open>memvid/acl.rs\<close>), \<open>Memory_Card\<close> and \<open>Memories_Track\<close> (\<open>types/memory_card.rs\<close>,
    \<open>types/memories_track.rs\<close>), \<open>Logic_Mesh\<close> (\<open>types/logic_mesh.rs\<close>), \<open>Query\<close> and \<open>Query_Print\<close> (\<open>search/parser.rs\<close>),
    \<open>Sketch\<close> (\<open>types/sketch_track.rs\<close>, \<open>memvid/sketch.rs\<close>).
  \<^item> Agent memory (\<open>agent_memory\<close>): \<open>Agent_Types\<close> (data), \<open>Agent_Policy\<close> (policy, trust, intake,
    classification), \<open>Agent_Promoter\<close> (the gate), \<open>Agent_Store\<close> (the in-memory store), \<open>Agent_Layers\<close>
    (episodes, goals, self model, beliefs), \<open>Agent_Procedures\<close> (procedures, retention), \<open>Agent_Consolidation\<close>,
    \<open>Agent_Controller\<close> (the only writer, with its audit log), \<open>Agent_Safety\<close> (runs of the controller) and
    \<open>Agent_Guarantees\<close> (single operations).

  \<^bold>\<open>What is shown.\<close>
  \<^item> Durability: a record appended to the log is found by every later scan and after reopening; a torn
    write of the manifest log loses only the torn record; the footer scan is exact and terminates; a
    published TOC is found again whatever the header says; growing the log keeps records and payloads;
    what a chunked put stores is what a read returns (the composition of planning, log, commit and read).
  \<^item> Consistency: frame ids are positions in every reachable TOC; the overlap check on open is exact;
    payload reads stay within the data; chunking keeps the text; a track refines the list of its cards.
  \<^item> Authority: enforcement of access control returns exactly the readable hits; a verified capacity was
    signed; the promotion gate is exact; sources without trust never create beliefs; stable directives
    are protected; beliefs change only for stronger sources; the history of the agent memory only grows.
  \<^item> Round trips and normal forms: header, manifest log, queries as text, procedures, sketches (whose frame
    ids do not survive, which is proved as such).
  \<^item> Behaviour that surprises is proved, not assumed away: the gap at the end of the log, empty payloads,
    retractions without effect, replay after an unbind, claims that call themselves verified, late feedback.

  \<^bold>\<open>Loops, fuel and bounds.\<close>  The loops are structural recursions or functions with a measure, so they
  return by construction.  The footer scan runs on fuel, the length of the data plus one; that this
  always suffices is part of its correctness theorem.  Loops that can run forever in the code are partial
  functions into options, and returning is proved where it holds: table and code splitting (\<open>Chunker\<close>, where
  splitting with an overlap of the chunk size does not return), growing the log and retrying an append
  (\<open>Wal_Growth\<close>).  The traversal of the entity graph and the search for a footer in a window have measures that
  their theories explain.  The recursion depth of the query parser, memory limits and the call stack are not
  bounded in the model.  Counters of the agent memory wrap or saturate at 32 bits as the code says; its times are
  unbounded nanoseconds, and one operation of the controller reads the clock once.

  \<^bold>\<open>Not modelled.\<close>  Engines and their glue: the tantivy index and the ranking of hits on top of it, vector search,
  product quantisation, embeddings, CLIP and Whisper models, PDF, Office and table readers, regular-expression
  enrichment and background workers.  Their substance lies in third-party crates, models or heuristics on
  floats whose correctness has no specification.  Features that are off by default: replay sessions, encryption.
  Operating-system matters: file locks, \<open>fsync\<close> (writes reach the file at once, so an interruption between two
  writes is modelled by the prefix of writes), process registry, logging.  The repair planner (doctor) and the
  Memvid-backed agent store reuse the operations modelled here and are left for later; the retriever of
  the agent memory ranks with floats, and access touches take the hits it returned.
\<close>

end
